(* ===== verification/Prelude.thy ===== *)
theory Prelude
  imports Main "HOL-Library.Word"
begin

text \<open>
  Shared vocabulary of the development: run-time faults, bounded arrays and C strings,
  the searching and number parsing of the C++ standard library that the programs use,
  16-bit network byte order, and the lemmas on them that the component theories share.
  A buffer of \<open>char\<close> is a \<open>char list\<close> of fixed length; an access outside it is
  the value \<open>Inl OutOfBounds\<close>, never an unspecified list element.
\<close>

named_theorems cstring "facts on C strings held in buffers"
named_theorems parsing "facts on searching and number parsing"

section \<open>Faults\<close>

text \<open>
  What ends a run of the code outside its own error handling. \<open>OutOfBounds\<close> and
  \<open>Unterminated\<close> are undefined behaviour (an access past an array, a C string read
  with no terminator in its array), \<open>NullDeref\<close> is a null pointer handed to code that
  dereferences it, \<open>MissingReturn\<close> the end of a function that should return a value reached
  without a \<open>return\<close>, \<open>Dangling\<close> the use of an object that is gone (both undefined behaviour as
  well), \<open>Uncaught\<close> a C++ exception no handler of the program catches, \<open>Endless\<close>
  a loop that comes back to a state it was in, so that the call never returns.
  \<open>Blocked\<close> is no error: the environment has not answered the call the code waits in, so
  the run ends there so far.
\<close>

datatype fault = OutOfBounds | Unterminated | NullDeref | MissingReturn | Dangling | Uncaught string | Endless | Blocked

type_synonym 'a outcome = "fault + 'a"

definition bind_out :: "'a outcome \<Rightarrow> ('a \<Rightarrow> 'b outcome) \<Rightarrow> 'b outcome" where
  "bind_out m f = (case m of Inl e \<Rightarrow> Inl e | Inr x \<Rightarrow> f x)"

lemma bind_out_simps [simp]:
  "bind_out (Inl e) f = Inl e"
  "bind_out (Inr x) f = f x"
  by (simp_all add: bind_out_def)

lemma bind_out_Inr [simp]:
  "bind_out m f = Inr y \<longleftrightarrow> (\<exists>x. m = Inr x \<and> f x = Inr y)"
  by (cases m) auto

lemma pair_left: "\<exists>a b c. x = ((a, b), c)"
  by (cases x) auto

lemma pair_right: "\<exists>a b c d. x = (a, (b, c), d)"
  by (cases x) auto

section \<open>Buffers\<close>

type_synonym byte = "8 word"

abbreviation NUL :: char where "NUL \<equiv> CHR 0x00"
abbreviation LF :: char where "LF \<equiv> CHR 0x0A"
abbreviation CR :: char where "CR \<equiv> CHR 0x0D"

text \<open>\<open>buf[i] = c\<close> on an array.\<close>

definition put_at :: "nat \<Rightarrow> 'a \<Rightarrow> 'a list \<Rightarrow> 'a list outcome" where
  "put_at i c buf = (if i < length buf then Inr (buf[i := c]) else Inl OutOfBounds)"

text \<open>Bytes copied over the front of an array, as a receive call or \<open>strcpy\<close> does.\<close>

definition blit :: "'a list \<Rightarrow> 'a list \<Rightarrow> 'a list" where
  "blit bs buf = bs @ drop (length bs) buf"

lemma length_blit [simp]: "length bs \<le> length buf \<Longrightarrow> length (blit bs buf) = length buf"
  by (simp add: blit_def)

lemma put_at_Inr [simp]:
  "put_at i c buf = Inr buf' \<longleftrightarrow> i < length buf \<and> buf' = buf[i := c]"
  by (auto simp: put_at_def)

lemma put_at_Inl [simp]: "put_at i c buf = Inl e \<longleftrightarrow> length buf \<le> i \<and> e = OutOfBounds"
  by (auto simp: put_at_def)

lemma put_at_ok: "i < length buf \<Longrightarrow> put_at i c buf = Inr (buf[i := c])"
  by simp

section \<open>C strings\<close>

text \<open>
  The C string that starts at the front of a buffer: the characters before the first
  terminator, and a fault when the array holds none.
\<close>

fun c_str :: "string \<Rightarrow> string outcome" where
  "c_str [] = Inl Unterminated"
| "c_str (c # cs) = (if c = NUL then Inr [] else bind_out (c_str cs) (\<lambda>s. Inr (c # s)))"

lemma c_str_append [cstring]: "NUL \<notin> set s \<Longrightarrow> c_str (s @ NUL # r) = Inr s"
  by (induction s) auto

lemma c_str_Inr [cstring]:
  "c_str buf = Inr s \<longleftrightarrow> NUL \<notin> set s \<and> (\<exists>r. buf = s @ NUL # r)"
proof
  show "c_str buf = Inr s \<Longrightarrow> NUL \<notin> set s \<and> (\<exists>r. buf = s @ NUL # r)"
    by (induction buf arbitrary: s) (auto split: if_splits)
qed (auto simp: c_str_append)

lemma c_str_total: "NUL \<in> set buf \<Longrightarrow> \<exists>s. c_str buf = Inr s"
  by (induction buf) auto

lemma c_str_takeWhile: "NUL \<in> set buf \<Longrightarrow> c_str buf = Inr (takeWhile (\<lambda>c. c \<noteq> NUL) buf)"
  by (induction buf) auto

lemma c_str_Inl: "c_str buf = Inl e \<longleftrightarrow> NUL \<notin> set buf \<and> e = Unterminated"
  by (induction buf) (auto simp: bind_out_def split: sum.splits)

text \<open>A received text, terminated where it ends, reads back as the text.\<close>

lemma nth_blit: "i < length buf \<Longrightarrow> length bs \<le> length buf \<Longrightarrow>
    blit bs buf ! i = (if i < length bs then bs ! i else buf ! i)"
  by (simp add: blit_def nth_append)

lemma blit_put_end [cstring]:
  assumes "length bs < length buf"
  shows "(blit bs buf)[length bs := c] = bs @ c # drop (Suc (length bs)) buf"
proof -
  have "drop (length bs) buf = buf ! length bs # drop (Suc (length bs)) buf"
    using assms by (simp add: Cons_nth_drop_Suc)
  then show ?thesis by (simp add: blit_def list_update_append)
qed

lemma c_str_received [cstring]:
  assumes "length bs < length buf"
  shows "c_str ((blit bs buf)[length bs := NUL]) = Inr (takeWhile (\<lambda>c. c \<noteq> NUL) bs)"
proof -
  have "takeWhile (\<lambda>c. c \<noteq> NUL) (bs @ NUL # r) = takeWhile (\<lambda>c. c \<noteq> NUL) bs" for r
    by (induction bs) auto
  then show ?thesis
    by (simp add: blit_put_end [OF assms] c_str_takeWhile)
qed

lemma takeWhile_no_NUL [cstring]: "NUL \<notin> set s \<Longrightarrow> takeWhile (\<lambda>c. c \<noteq> NUL) s = s"
  by (induction s) auto

lemma takeWhile_NUL_append [cstring]:
  "NUL \<notin> set s \<Longrightarrow> takeWhile (\<lambda>c. c \<noteq> NUL) (s @ NUL # r) = s"
  by (induction s) auto

section \<open>Searching\<close>

text \<open>\<open>std::string::find(pat)\<close>: the first position, \<open>None\<close> for \<open>npos\<close>.\<close>

fun str_find :: "string \<Rightarrow> string \<Rightarrow> nat option" where
  "str_find pat [] = (if pat = [] then Some 0 else None)"
| "str_find pat (c # cs) =
     (if take (length pat) (c # cs) = pat then Some 0 else map_option Suc (str_find pat cs))"

lemma str_find_SomeD [parsing]:
  "str_find pat s = Some i \<Longrightarrow> \<exists>u v. s = u @ pat @ v \<and> length u = i"
proof (induction s arbitrary: i)
  case Nil
  then show ?case by (simp split: if_splits)
next
  case (Cons c cs)
  show ?case
  proof (cases "take (length pat) (c # cs) = pat")
    case True
    with Cons.prems have "c # cs = [] @ pat @ drop (length pat) (c # cs) \<and> length [] = i"
      by (metis append_Nil append_take_drop_id list.size(3) option.inject str_find.simps(2))
    then show ?thesis by blast
  next
    case False
    with Cons obtain j u v where "i = Suc j" "cs = u @ pat @ v" "length u = j"
      by auto
    then have "c # cs = (c # u) @ pat @ v \<and> length (c # u) = i" by simp
    then show ?thesis by blast
  qed
qed

lemma str_find_prefix: "take (length pat) s = pat \<Longrightarrow> str_find pat s = Some 0"
  by (cases s) auto

lemma str_find_occurs [parsing]: "str_find pat (u @ pat @ v) \<noteq> None"
proof (induction u)
  case Nil
  then show ?case by (simp add: str_find_prefix)
next
  case (Cons c u)
  then show ?case by simp
qed

lemma str_find_None [parsing]: "str_find pat s = None \<longleftrightarrow> (\<nexists>u v. s = u @ pat @ v)"
  by (metis not_None_eq str_find_SomeD str_find_occurs)

section \<open>Decimal numbers\<close>

definition is_digit :: "char \<Rightarrow> bool" where
  "is_digit c \<longleftrightarrow> 48 \<le> (of_char c :: nat) \<and> (of_char c :: nat) \<le> 57"

definition is_space :: "char \<Rightarrow> bool" where
  "is_space c \<longleftrightarrow> (of_char c :: nat) = 32 \<or> (9 \<le> (of_char c :: nat) \<and> (of_char c :: nat) \<le> 13)"

definition digit_char :: "nat \<Rightarrow> char" where
  "digit_char d = char_of (48 + d)"

definition dec_value :: "string \<Rightarrow> nat" where
  "dec_value ds = foldl (\<lambda>a c. 10 * a + (of_char c - 48)) 0 ds"

text \<open>\<open>std::to_string\<close> of an unsigned number.\<close>

fun nat_str :: "nat \<Rightarrow> string" where
  "nat_str n = (if n < 10 then [digit_char n] else nat_str (n div 10) @ [digit_char (n mod 10)])"

declare nat_str.simps [simp del]

lemma of_char_digit: "d < 10 \<Longrightarrow> (of_char (digit_char d) :: nat) = 48 + d"
  by (simp add: digit_char_def of_char_of take_bit_eq_mod)

lemma is_digit_digit_char [simp]: "d < 10 \<Longrightarrow> is_digit (digit_char d)"
  by (simp add: is_digit_def of_char_digit)

lemma nat_str_nonempty [simp]: "nat_str n \<noteq> []"
  by (subst nat_str.simps) simp

lemma nat_str_digits: "c \<in> set (nat_str n) \<Longrightarrow> is_digit c"
proof (induction n rule: nat_str.induct)
  case (1 n)
  then show ?case by (cases "n < 10") (auto simp: nat_str.simps [of n])
qed

lemma nat_str_other: "\<not> is_digit c \<Longrightarrow> c \<notin> set (nat_str n)"
  using nat_str_digits by blast

lemma dec_value_append: "dec_value (ds @ [c]) = 10 * dec_value ds + (of_char c - 48)"
  by (simp add: dec_value_def)

lemma dec_value_nat_str [parsing]: "dec_value (nat_str n) = n"
proof (induction n rule: nat_str.induct)
  case (1 n)
  show ?case
  proof (cases "n < 10")
    case True
    then show ?thesis by (simp add: nat_str.simps [of n] dec_value_def of_char_digit)
  next
    case False
    with 1 show ?thesis
      by (simp add: nat_str.simps [of n] dec_value_append of_char_digit)
  qed
qed

text \<open>
  \<open>std::stoi\<close> in base 10: leading white space, an optional sign, the longest run of digits.
  No digits throws \<open>std::invalid_argument\<close>, a value outside 32-bit \<open>int\<close> throws
  \<open>std::out_of_range\<close>; characters after the digits are ignored.
\<close>

definition stoi :: "string \<Rightarrow> int outcome" where
  "stoi s =
     (let t = dropWhile is_space s;
          neg = (t \<noteq> [] \<and> hd t = CHR ''-'');
          u = (if t \<noteq> [] \<and> (hd t = CHR ''-'' \<or> hd t = CHR ''+'') then tl t else t);
          ds = takeWhile is_digit u;
          v = (if neg then - int (dec_value ds) else int (dec_value ds))
      in if ds = [] then Inl (Uncaught ''invalid_argument'')
         else if - (2 ^ 31) \<le> v \<and> v < 2 ^ 31 then Inr v
         else Inl (Uncaught ''out_of_range''))"

lemma digit_not_sign: "is_digit c \<Longrightarrow> \<not> is_space c \<and> c \<noteq> CHR ''-'' \<and> c \<noteq> CHR ''+''"
  by (auto simp: is_digit_def is_space_def)

lemma stoi_nat_str [parsing]: "int n < 2 ^ 31 \<Longrightarrow> stoi (nat_str n) = Inr (int n)"
proof -
  assume n: "int n < 2 ^ 31"
  obtain c cs where s: "nat_str n = c # cs" by (cases "nat_str n") auto
  then have "is_digit c" using nat_str_digits [of c n] by simp
  moreover have "takeWhile is_digit cs = cs"
    using nat_str_digits [of _ n] by (simp add: s)
  ultimately show ?thesis
    using n digit_not_sign [of c] dec_value_nat_str [of n]
    by (simp add: stoi_def s Let_def del: takeWhile_eq_all_conv)
qed

section \<open>Questions to the user\<close>

text \<open>A question repeated until the token has at least \<open>n\<close> characters.\<close>

fun token_of_length :: "nat \<Rightarrow> string list \<Rightarrow> (string \<times> string list) outcome" where
  "token_of_length n [] = Inl Blocked"
| "token_of_length n (t # ts) = (if length t < n then token_of_length n ts else Inr (t, ts))"

section \<open>16-bit network byte order\<close>

text \<open>
  \<open>htons\<close> and \<open>ntohs\<close> on a little-endian host: the two bytes change places. A port that
  the code holds in an \<open>int\<close> is cut to 16 bits where it is passed to \<open>htons\<close>.
\<close>

definition htons :: "16 word \<Rightarrow> 16 word" where
  "htons w = word_of_nat (unat w mod 256 * 256 + unat w div 256)"

definition ntohs :: "16 word \<Rightarrow> 16 word" where
  "ntohs w = word_of_nat (unat w mod 256 * 256 + unat w div 256)"

lemma unat_u16_less: "unat (w :: 16 word) < 65536"
proof -
  have "unat w < 2 ^ LENGTH(16)" by (rule unsigned_less)
  then show ?thesis by simp
qed

lemma unat_u16_of_nat: "n < 65536 \<Longrightarrow> unat (word_of_nat n :: 16 word) = n"
  by (simp add: unsigned_of_nat take_bit_nat_eq_self)

lemma unat_htons: "unat (htons w) = unat w mod 256 * 256 + unat w div 256"
proof -
  have "unat w < 65536" by (rule unat_u16_less)
  then have "unat w mod 256 * 256 + unat w div 256 < 65536" by arith
  then show ?thesis unfolding htons_def by (rule unat_u16_of_nat)
qed

lemma ntohs_htons [simp]: "ntohs (htons w) = w"
proof -
  define q r where "q = unat w div 256" and "r = unat w mod 256"
  have "unat w < 65536" by (rule unat_u16_less)
  then have q: "q < 256" by (simp add: q_def less_mult_imp_div_less)
  have swap: "(r * 256 + q) mod 256 = q" "(r * 256 + q) div 256 = r"
    using q by simp_all
  have "ntohs (htons w) = word_of_nat (q * 256 + r)"
    by (simp only: ntohs_def unat_htons q_def [symmetric] r_def [symmetric] swap)
  also have "q * 256 + r = unat w" by (simp add: q_def r_def)
  finally show ?thesis by simp
qed

section \<open>32-bit integers\<close>

lemma sint_small: "i \<in> {- (2 ^ 31)..<2 ^ 31} \<Longrightarrow> sint (word_of_int i :: 32 word) = i"
  by (simp only: signed_of_int) (simp add: signed_take_bit_int_eq_self)

lemma sint_nat32: "n < 2 ^ 31 \<Longrightarrow> sint (of_nat n :: 32 word) = int n"
  using sint_small [of "int n"] by simp

end
