(* ===== verification/Machine.thy ===== *)
theory Machine
  imports Prelude
begin

text \<open>
  Programs that answer events. A server or an interactive client is a state, a handler
  that answers one event (a received message, a line typed by the user, the result of a
  system call) with a new state and a list of outputs, or with a fault, and its run over
  a list of events. The interfaces below state what a component promises about its
  handler; each component theory interprets the ones it meets.
\<close>

type_synonym ('s, 'e, 'o) handler = "'s \<Rightarrow> 'e \<Rightarrow> ('s \<times> 'o list) outcome"

fun run :: "('s, 'e, 'o) handler \<Rightarrow> 's \<Rightarrow> 'e list \<Rightarrow> ('s \<times> 'o list) outcome" where
  "run h s [] = Inr (s, [])"
| "run h s (e # es) =
     (case h s e of
        Inl f \<Rightarrow> Inl f
      | Inr (s1, o1) \<Rightarrow>
          (case run h s1 es of
             Inl f \<Rightarrow> Inl f
           | Inr (s2, o2) \<Rightarrow> Inr (s2, o1 @ o2)))"

lemma run_append:
  "run h s (es @ fs) =
     (case run h s es of
        Inl f \<Rightarrow> Inl f
      | Inr (s1, o1) \<Rightarrow>
          (case run h s1 fs of Inl f \<Rightarrow> Inl f | Inr (s2, o2) \<Rightarrow> Inr (s2, o1 @ o2)))"
  by (induction es arbitrary: s) (auto split: sum.splits prod.splits)

lemma run_Cons_Inr [simp]:
  "run h s (e # es) = Inr (s', os) \<longleftrightarrow>
     (\<exists>s1 o1 o2. h s e = Inr (s1, o1) \<and> run h s1 es = Inr (s', o2) \<and> os = o1 @ o2)"
  by (auto split: sum.splits prod.splits)

lemma run_Cons_ok: "h s e = Inr (s1, o1) \<Longrightarrow> run h s1 es = Inr (s2, o2) \<Longrightarrow>
    run h s (e # es) = Inr (s2, o1 @ o2)"
  by simp

lemma run_append_ok: "run h s es = Inr (s1, o1) \<Longrightarrow> run h s1 fs = Inr (s2, o2) \<Longrightarrow>
    run h s (es @ fs) = Inr (s2, o1 @ o2)"
  by (simp add: run_append)

declare run.simps(2) [simp del]

text \<open>What every answer keeps, a run keeps, and what all its outputs satisfy, those of a run do.\<close>

lemma run_keeps:
  assumes step: "\<And>s e s' os. I s \<Longrightarrow> h s e = Inr (s', os) \<Longrightarrow> I s' \<and> list_all P os"
  shows "I s \<Longrightarrow> run h s es = Inr (s', os) \<Longrightarrow> I s' \<and> list_all P os"
proof (induction es arbitrary: s os)
  case Nil
  then show ?case by simp
next
  case (Cons e es)
  then obtain s1 o1 o2 where 1: "h s e = Inr (s1, o1)" "run h s1 es = Inr (s', o2)" "os = o1 @ o2"
    by auto
  with step [OF Cons.prems(1) 1(1)] Cons.IH [OF _ 1(2)] show ?case by simp
qed

section \<open>Handlers that keep an invariant and do not fault\<close>

text \<open>
  \<open>ok\<close> says which events the environment may present (for a receive call: at most as
  many bytes as were asked for). Under the invariant an acceptable event is answered
  without a fault, and the invariant holds again.
\<close>

locale safe_machine =
  fixes h :: "('s, 'e, 'o) handler"
    and inv :: "'s \<Rightarrow> bool"
    and ok :: "'e \<Rightarrow> bool"
  assumes progress: "inv s \<Longrightarrow> ok e \<Longrightarrow> \<exists>s' os. h s e = Inr (s', os) \<and> inv s'"
begin

lemma keeps: "inv s \<Longrightarrow> ok e \<Longrightarrow> h s e = Inr (s', os) \<Longrightarrow> inv s'"
  using progress by fastforce

lemma run_safe: "inv s \<Longrightarrow> list_all ok es \<Longrightarrow> \<exists>s' os. run h s es = Inr (s', os) \<and> inv s'"
proof (induction es arbitrary: s)
  case Nil
  then show ?case by simp
next
  case (Cons e es)
  then obtain s1 o1 where "h s e = Inr (s1, o1)" "inv s1"
    using progress [of s e] by auto
  moreover from this Cons obtain s2 o2 where "run h s1 es = Inr (s2, o2)" "inv s2"
    by fastforce
  ultimately show ?case by auto
qed

lemma run_inv: "inv s \<Longrightarrow> list_all ok es \<Longrightarrow> run h s es = Inr (s', os) \<Longrightarrow> inv s'"
  using run_safe by fastforce

lemma run_no_fault: "inv s \<Longrightarrow> list_all ok es \<Longrightarrow> run h s es \<noteq> Inl f"
  using run_safe by fastforce

end

text \<open>
  A machine that stops: once halted it answers every further event with nothing. A run
  that halts has said all it will ever say.
\<close>

locale halting_machine = safe_machine h inv ok
  for h :: "('s, 'e, 'o) handler" and inv :: "'s \<Rightarrow> bool" and ok :: "'e \<Rightarrow> bool" +
  fixes halted :: "'s \<Rightarrow> bool"
  assumes silent: "halted s \<Longrightarrow> h s e = Inr (s, [])"
begin

lemma run_halted: "halted s \<Longrightarrow> run h s es = Inr (s, [])"
  by (induction es) (auto intro: run_Cons_ok [where ?o1.0 = "[]", simplified] silent)

lemma run_stops:
  "run h s es = Inr (s', os) \<Longrightarrow> halted s' \<Longrightarrow> run h s (es @ fs) = Inr (s', os)"
  by (simp add: run_append run_halted)

end

section \<open>A concrete handler that refines an abstract one\<close>

text \<open>
  \<open>rel\<close> relates a state of the code to a state of its specification, \<open>view\<close> picks the
  outputs the specification speaks of. Each answer of the code is matched by the
  specification; so are whole runs.
\<close>

locale simulation =
  fixes h :: "('s, 'e, 'o) handler"
    and spec :: "'a \<Rightarrow> 'e \<Rightarrow> 'a \<times> 'v list"
    and rel :: "'s \<Rightarrow> 'a \<Rightarrow> bool"
    and view :: "'o list \<Rightarrow> 'v list"
    and ok :: "'e \<Rightarrow> bool"
  assumes matched:
      "rel s a \<Longrightarrow> ok e \<Longrightarrow>
         \<exists>s' os. h s e = Inr (s', os) \<and> rel s' (fst (spec a e)) \<and> view os = snd (spec a e)"
    and view_Nil: "view [] = []"
    and view_append: "view (os @ ps) = view os @ view ps"

fun spec_run :: "('a \<Rightarrow> 'e \<Rightarrow> 'a \<times> 'v list) \<Rightarrow> 'a \<Rightarrow> 'e list \<Rightarrow> 'a \<times> 'v list" where
  "spec_run spec a [] = (a, [])"
| "spec_run spec a (e # es) =
     (fst (spec_run spec (fst (spec a e)) es),
      snd (spec a e) @ snd (spec_run spec (fst (spec a e)) es))"

context simulation
begin

lemma run_matched:
  "rel s a \<Longrightarrow> list_all ok es \<Longrightarrow>
     \<exists>s' os. run h s es = Inr (s', os) \<and> rel s' (fst (spec_run spec a es))
       \<and> view os = snd (spec_run spec a es)"
proof (induction es arbitrary: s a)
  case Nil
  then show ?case by (simp add: view_Nil)
next
  case (Cons e es)
  then obtain s1 o1 where 1: "h s e = Inr (s1, o1)" "rel s1 (fst (spec a e))"
      "view o1 = snd (spec a e)"
    using matched [of s a e] by auto
  with Cons.IH [of s1 "fst (spec a e)"] Cons.prems obtain s2 o2 where
      "run h s1 es = Inr (s2, o2)" "rel s2 (fst (spec_run spec (fst (spec a e)) es))"
      "view o2 = snd (spec_run spec (fst (spec a e)) es)"
    by auto
  with 1 show ?case by (auto simp: view_append)
qed

end

section \<open>Systems with several independent steps\<close>

text \<open>
  Where the order of events is not fixed by the code (completion handlers, signals,
  threads) the component is a step relation, and a safety property is an invariant of
  its reachable states.
\<close>

inductive reachable :: "('s \<Rightarrow> bool) \<Rightarrow> ('s \<Rightarrow> 's \<Rightarrow> bool) \<Rightarrow> 's \<Rightarrow> bool"
  for init :: "'s \<Rightarrow> bool" and step :: "'s \<Rightarrow> 's \<Rightarrow> bool" where
  reachable_init: "init s \<Longrightarrow> reachable init step s"
| reachable_step: "reachable init step s \<Longrightarrow> step s t \<Longrightarrow> reachable init step t"

locale invariant_system =
  fixes init :: "'s \<Rightarrow> bool" and step :: "'s \<Rightarrow> 's \<Rightarrow> bool" and inv :: "'s \<Rightarrow> bool"
  assumes inv_init: "init s \<Longrightarrow> inv s"
    and inv_step: "inv s \<Longrightarrow> step s t \<Longrightarrow> inv t"
begin

lemma reachable_inv: "reachable init step s \<Longrightarrow> inv s"
  by (induction rule: reachable.induct) (auto intro: inv_init inv_step)

end

end
