(* ===== verification/UdpServer.thy ===== *)
theory UdpServer
  imports Machine
begin

text \<open>
  The UDP echo server, \<open>lesson1/udp_server/main.cpp\<close> (the branch without \<open>_WIN32\<close>).
  \<open>launch\<close> is \<open>main\<close> up to the loop, \<open>serve\<close> is one turn of the loop. What the
  operating system answers is the event of a turn: the datagram \<open>recvfrom\<close> delivers or
  its failure, and what \<open>getnameinfo\<close> returns and leaves in the host buffer.
\<close>

section \<open>State\<close>

datatype 'a launch = ExitFailure | Started 'a

type_synonym ip = "32 word"

text \<open>A socket address as the structure holds it: the port is in network byte order.\<close>

record sockaddr_in =
  sin_port :: "16 word"
  sin_addr :: ip

record udp_server =
  buffer :: string
  hostBuffer :: string
  client_address :: sockaddr_in
  bound_to :: sockaddr_in
  exitCommand :: bool

datatype recv_answer = Datagram sockaddr_in string | RecvError

record udp_event =
  received :: recv_answer
  name_failed :: bool
  name_buffer :: string

datatype udp_out =
    HostUnavailable
  | Report ip "16 word" string nat string
  | SendTo sockaddr_in string
  | Blank
  | CloseSocket

section \<open>Operations\<close>

text \<open>
  \<open>main\<close> up to the loop: \<open>sock\<close> is what \<open>socket\<close> returns, \<open>bound\<close> what \<open>bind\<close> returns,
  \<open>buf0\<close> the array \<open>buffer\<close> before the first call writes it (the code initialises only the other
  array, \<open>hostBuffer\<close>). \<open>args\<close> are \<open>argv[1..]\<close>. The outputs are the calls that release the socket.
\<close>

definition udp_launch ::
    "string list \<Rightarrow> int \<Rightarrow> int \<Rightarrow> string \<Rightarrow> (udp_server launch \<times> udp_out list) outcome" where
  "udp_launch args sock bound buf0 =
     (if length args \<noteq> 1 then Inr (ExitFailure, [])
      else bind_out (stoi (hd args)) (\<lambda>port.
        if sock = -1 then Inr (ExitFailure, [])
        else let addr = \<lparr>sin_port = htons (word_of_int port), sin_addr = 0\<rparr>
             in if bound \<noteq> 0 then Inr (ExitFailure, [CloseSocket])
                else Inr (Started \<lparr>buffer = buf0, hostBuffer = ''No Name'',
                       client_address = \<lparr>sin_port = 0, sin_addr = 0\<rparr>,
                       bound_to = addr, exitCommand = False\<rparr>, [])))"

text \<open>\<open>std::strcmp(buf, lit) == 0\<close>: the comparison ends at the first difference.\<close>

fun strcmp_eq :: "string \<Rightarrow> string \<Rightarrow> bool outcome" where
  "strcmp_eq [] lit = Inl OutOfBounds"
| "strcmp_eq (c # cs) [] = Inr (c = NUL)"
| "strcmp_eq (c # cs) (l # ls) = (if c = l then strcmp_eq cs ls else Inr False)"

text \<open>
  One turn of the loop. \<open>recvfrom\<close> is asked for \<open>sizeof(buffer) - 1\<close> bytes and cuts a
  longer datagram; on failure it changes neither the buffer nor the address.
\<close>

definition recv_len :: "recv_answer \<Rightarrow> nat \<Rightarrow> int" where
  "recv_len ans n = (case ans of Datagram a d \<Rightarrow> int (min n (length d)) | RecvError \<Rightarrow> -1)"

definition recv_into :: "recv_answer \<Rightarrow> nat \<Rightarrow> string \<Rightarrow> string" where
  "recv_into ans n buf = (case ans of Datagram a d \<Rightarrow> blit (take n d) buf | RecvError \<Rightarrow> buf)"

definition recv_from :: "recv_answer \<Rightarrow> sockaddr_in \<Rightarrow> sockaddr_in" where
  "recv_from ans a0 = (case ans of Datagram a d \<Rightarrow> a | RecvError \<Rightarrow> a0)"

definition serve :: "(udp_server, udp_event, udp_out) handler" where
  "serve s e =
     (if exitCommand s then Inr (s, [])
      else
        let n = length (buffer s) - 1;
            len = recv_len (received e) n;
            s1 = s\<lparr>buffer := recv_into (received e) n (buffer s),
                   client_address := recv_from (received e) (client_address s),
                   hostBuffer := name_buffer e\<rparr>;
            o1 = (if name_failed e then [HostUnavailable] else [])
        in bind_out
             (if len > 0
              then bind_out (put_at (nat len) NUL (buffer s1)) (\<lambda>b.
                   bind_out (c_str b) (\<lambda>text.
                     Inr (b, [Report (sin_addr (client_address s1)) (sin_port (client_address s1))
                               (hostBuffer s1) (nat len) text,
                              SendTo (client_address s1) (take (nat len) b)])))
              else Inr (buffer s1, []))
             (\<lambda>(b, o2). bind_out (strcmp_eq b ''exit'') (\<lambda>eq.
                if eq then Inr (s1\<lparr>buffer := b, exitCommand := True\<rparr>, o1 @ o2 @ [Blank, CloseSocket])
                else Inr (s1\<lparr>buffer := b\<rparr>, o1 @ o2 @ [Blank]))))"

section \<open>Memory safety\<close>

definition udp_inv :: "udp_server \<Rightarrow> bool" where
  "udp_inv s \<longleftrightarrow> length (buffer s) = 256"

lemma strcmp_eq_long:
  "length lit < length b \<Longrightarrow> NUL \<notin> set lit \<Longrightarrow>
     strcmp_eq b lit = Inr (take (Suc (length lit)) b = lit @ [NUL])"
  by (induction b lit rule: strcmp_eq.induct) (auto simp: take_Suc)

lemma length_recv_into [simp]:
  "n < length buf \<Longrightarrow> length (recv_into ans n buf) = length buf"
  by (auto simp: recv_into_def split: recv_answer.splits)

definition reads :: "string \<Rightarrow> string \<Rightarrow> bool" where
  "reads b lit \<longleftrightarrow> take (Suc (length lit)) b = lit @ [NUL]"

text \<open>What the buffer holds after a turn, and what the turn sends.\<close>

definition buffer_after :: "udp_server \<Rightarrow> udp_event \<Rightarrow> string" where
  "buffer_after s e = (case received e of
       Datagram a d \<Rightarrow> if d = [] then buffer s
         else (blit (take 255 d) (buffer s))[length (take 255 d) := NUL]
     | RecvError \<Rightarrow> buffer s)"

lemma length_buffer_after [simp]: "udp_inv s \<Longrightarrow> length (buffer_after s e) = 256"
  by (auto simp: buffer_after_def udp_inv_def split: recv_answer.splits)

lemma take_received: "length d \<le> n \<Longrightarrow> n < length buf \<Longrightarrow>
    take (length d) ((blit d buf)[length d := c]) = d"
  by (simp add: blit_def)

definition turn_outs :: "udp_server \<Rightarrow> udp_event \<Rightarrow> udp_out list" where
  "turn_outs s e = (case received e of
       Datagram a d \<Rightarrow> if d = [] then []
         else [Report (sin_addr a) (sin_port a) (name_buffer e) (length (take 255 d))
                 (takeWhile (\<lambda>c. c \<noteq> NUL) (take 255 d)), SendTo a (take 255 d)]
     | RecvError \<Rightarrow> [])"

lemma serve_turn:
  assumes "udp_inv s" "\<not> exitCommand s"
  shows "serve s e = Inr
     (s\<lparr>buffer := buffer_after s e, client_address := recv_from (received e) (client_address s),
        hostBuffer := name_buffer e, exitCommand := reads (buffer_after s e) ''exit''\<rparr>,
      (if name_failed e then [HostUnavailable] else []) @ turn_outs s e @ [Blank] @
      (if reads (buffer_after s e) ''exit'' then [CloseSocket] else []))"
proof -
  have len: "length (buffer s) = 256" using assms by (simp add: udp_inv_def)
  have cmp: "strcmp_eq (buffer_after s e) ''exit'' = Inr (reads (buffer_after s e) ''exit'')"
    unfolding reads_def
    by (rule strcmp_eq_long) (use assms in simp_all)
  show ?thesis
  proof (cases "received e")
    case RecvError
    with cmp assms show ?thesis
      by (simp add: serve_def recv_len_def recv_into_def recv_from_def buffer_after_def turn_outs_def
          Let_def)
  next
    case (Datagram a d)
    show ?thesis
    proof (cases "d = []")
      case True
      with Datagram cmp assms show ?thesis
        by (simp add: serve_def recv_len_def recv_into_def recv_from_def buffer_after_def
            turn_outs_def blit_def Let_def)
    next
      case False
      let ?d = "take 255 d"
      have l: "length ?d < length (buffer s)" using len by simp
      have "nat (recv_len (received e) (length (buffer s) - 1)) = length ?d"
        by (simp add: Datagram recv_len_def len)
      moreover have "recv_len (received e) (length (buffer s) - 1) > 0"
        using False by (simp add: Datagram recv_len_def len)
      moreover have "take (length ?d) ((blit ?d (buffer s))[length ?d := NUL]) = ?d"
        by (rule take_received [OF _ l]) simp
      ultimately show ?thesis
        using False Datagram cmp assms c_str_received [OF l] l
        by (simp add: serve_def recv_into_def recv_from_def buffer_after_def turn_outs_def Let_def
            len put_at_ok del: length_take)
    qed
  qed
qed

section \<open>The interfaces\<close>

interpretation udp: halting_machine serve udp_inv "\<lambda>_. True" exitCommand
proof unfold_locales
  fix s e
  assume inv: "udp_inv s"
  show "\<exists>s' os. serve s e = Inr (s', os) \<and> udp_inv s'"
  proof (cases "exitCommand s")
    case True
    with inv show ?thesis by (simp add: serve_def)
  next
    case False
    with inv show ?thesis
      using length_buffer_after [OF inv, of e] by (simp add: serve_turn udp_inv_def)
  qed
qed (simp add: serve_def)

text \<open>
  The specification of an echo service: a stopped flag, and for each datagram that carries
  data the datagram sent back. It keeps no buffer, so nothing of one request can show in
  the answer to another.
\<close>

definition echo_spec :: "bool \<Rightarrow> udp_event \<Rightarrow> bool \<times> (sockaddr_in \<times> string) list" where
  "echo_spec stopped e =
     (if stopped then (True, [])
      else case received e of
        Datagram a d \<Rightarrow>
          if d = [] then (False, [])
          else (takeWhile (\<lambda>c. c \<noteq> NUL) (take 255 d) = ''exit'', [(a, take 255 d)])
      | RecvError \<Rightarrow> (False, []))"

fun echoes :: "udp_out list \<Rightarrow> (sockaddr_in \<times> string) list" where
  "echoes [] = []"
| "echoes (SendTo a d # os) = (a, d) # echoes os"
| "echoes (_ # os) = echoes os"

lemma echoes_append: "echoes (os @ ps) = echoes os @ echoes ps"
  by (induction os rule: echoes.induct) auto

lemma reads_c_str: "NUL \<notin> set lit \<Longrightarrow> reads b lit \<longleftrightarrow> c_str b = Inr lit"
proof (induction lit arbitrary: b)
  case Nil
  show ?case by (cases b) (auto simp: reads_def)
next
  case (Cons l lit)
  show ?case
  proof (cases b)
    case Nil
    then show ?thesis by (simp add: reads_def)
  next
    case (Cons c cs)
    with Cons.prems Cons.IH [of cs] show ?thesis by (auto simp: reads_def)
  qed
qed

definition tracks :: "udp_server \<Rightarrow> bool \<Rightarrow> bool" where
  "tracks s stopped \<longleftrightarrow> udp_inv s \<and> exitCommand s = stopped
     \<and> (\<not> stopped \<longrightarrow> \<not> reads (buffer s) ''exit'')"

lemma buffer_after_reads:
  assumes "tracks s False"
  shows "reads (buffer_after s e) ''exit'' = fst (echo_spec False e)"
proof (cases "received e")
  case RecvError
  with assms show ?thesis by (simp add: buffer_after_def echo_spec_def tracks_def)
next
  case (Datagram a d)
  have "length (take 255 d) < length (buffer s)"
    using assms by (simp add: tracks_def udp_inv_def)
  then have "c_str ((blit (take 255 d) (buffer s))[length (take 255 d) := NUL])
      = Inr (takeWhile (\<lambda>c. c \<noteq> NUL) (take 255 d))"
    by (rule c_str_received)
  with Datagram assms show ?thesis
    by (simp add: buffer_after_def echo_spec_def tracks_def reads_c_str del: length_take)
qed

lemma echoes_turn: "echoes (turn_outs s e) = snd (echo_spec False e)"
  by (simp add: turn_outs_def echo_spec_def split: recv_answer.splits)

interpretation echo: simulation serve echo_spec tracks echoes "\<lambda>_. True"
proof unfold_locales
  fix s a e
  assume tr: "tracks s a"
  show "\<exists>s' os. serve s e = Inr (s', os) \<and> tracks s' (fst (echo_spec a e))
          \<and> echoes os = snd (echo_spec a e)"
  proof (cases a)
    case True
    with tr show ?thesis by (auto simp: serve_def tracks_def echo_spec_def)
  next
    case False
    with tr have s: "udp_inv s" "\<not> exitCommand s" by (auto simp: tracks_def)
    have "reads (buffer_after s e) ''exit'' = fst (echo_spec a e)"
      using tr False buffer_after_reads by simp
    with s False echoes_turn [of s e] show ?thesis
      by (simp add: serve_turn tracks_def echoes_append udp_inv_def)
  qed
qed (simp_all add: echoes_append)

section \<open>Properties\<close>

lemma spec_run_stopped: "spec_run echo_spec True es = (True, [])"
  by (induction es) (auto simp: echo_spec_def)

text \<open>
  C6. The echo server refines the stateless echo service: started with a buffer that does
  not hold the exit command, over any sequence of datagrams and receive errors it faults
  never, and sends back exactly the first 255 bytes of every datagram with data, to
  its sender and in order, until the first one whose C string is \<open>exit\<close>; it has
  stopped exactly when that one has come.
\<close>

theorem udp_server_refines_echo:
  assumes "udp_inv s" "\<not> exitCommand s" "\<not> reads (buffer s) ''exit''"
  shows "\<exists>s' os. run serve s es = Inr (s', os)
           \<and> echoes os = snd (spec_run echo_spec False es)
           \<and> exitCommand s' = fst (spec_run echo_spec False es)"
proof -
  have "tracks s False" using assms by (simp add: tracks_def)
  from echo.run_matched [OF this, of es] show ?thesis
    by (auto simp: tracks_def list_all_iff)
qed

definition demo_server :: udp_server where
  "demo_server = \<lparr>buffer = replicate 256 (CHR ''?''), hostBuffer = ''No Name'',
     client_address = \<lparr>sin_port = 0, sin_addr = 0\<rparr>,
     bound_to = \<lparr>sin_port = htons 7777, sin_addr = 0\<rparr>, exitCommand = False\<rparr>"

definition demo_event :: "string \<Rightarrow> udp_event" where
  "demo_event d = \<lparr>received = Datagram \<lparr>sin_port = htons 4000, sin_addr = 1\<rparr> d,
     name_failed = False, name_buffer = ''host''\<rparr>"

theorem udp_server_refines_echo_witness:
  "\<exists>s' os. run serve demo_server [demo_event ''hi'', demo_event ''exit'', demo_event ''late''] = Inr (s', os)
     \<and> echoes os = [(\<lparr>sin_port = htons 4000, sin_addr = 1\<rparr>, ''hi''),
                     (\<lparr>sin_port = htons 4000, sin_addr = 1\<rparr>, ''exit'')]
     \<and> exitCommand s'"
proof -
  have h: "udp_inv demo_server" "\<not> exitCommand demo_server" "\<not> reads (buffer demo_server) ''exit''"
    by (simp_all add: demo_server_def udp_inv_def reads_def)
  from udp_server_refines_echo [OF h, of "[demo_event ''hi'', demo_event ''exit'', demo_event ''late'']"]
  show ?thesis by (simp add: echo_spec_def demo_event_def)
qed

end
