(* ===== verification/UdpClient.thy ===== *)
theory UdpClient
  imports UdpServer
begin

text \<open>
  The interactive UDP client, \<open>lesson1/udp_client/main.cpp\<close> (the branch without
  \<open>_WIN32\<close>). Its \<open>main\<close> is a loop that waits at five places: for the port and the
  message and the final answer from the user, for the result of \<open>socket\<close>, and for the
  server's reply. The state records where it waits; an event is what it waits for.
\<close>

section \<open>State\<close>

datatype client_pc =
  AskPort | MakeSocket | AskMessage | AwaitReply | AskAgain | ExitedSuccess | ExitedFailure

record udp_client =
  pc :: client_pc
  user_answer :: string
  cl_buffer :: string
  server_port :: int
  sock :: int
  exitFlag :: bool

datatype client_event = Token string | SocketResult int | Reply recv_answer

datatype client_out =
    Opened int
  | Sent int sockaddr_in string
  | ServerMessage string
  | Closed int

definition udp_client_start :: "string \<Rightarrow> string \<Rightarrow> udp_client" where
  "udp_client_start a0 b0 = \<lparr>pc = AskPort, user_answer = a0, cl_buffer = b0,
     server_port = 0, sock = 0, exitFlag = True\<rparr>"

section \<open>Operations\<close>

text \<open>
  \<open>std::cin >> array\<close> (C++17) stores the whole token and its terminator, whatever the
  length of the array.
\<close>

definition read_token :: "string \<Rightarrow> string \<Rightarrow> string outcome" where
  "read_token t buf = (if length t < length buf then Inr (blit (t @ [NUL]) buf) else Inl OutOfBounds)"

text \<open>
  \<open>user_answer == "N"\<close> compares an array with a literal: both decay to pointers, and the
  comparison is of the addresses of two distinct objects, not of the characters.
\<close>

datatype object = UserAnswer | Literal string

definition ptr_eq :: "object \<Rightarrow> object \<Rightarrow> bool" where
  "ptr_eq p q \<longleftrightarrow> p = q"

definition said_no :: bool where
  "said_no \<longleftrightarrow> ptr_eq UserAnswer (Literal ''N'') \<or> ptr_eq UserAnswer (Literal ''n'')"

text \<open>\<open>std::atoi\<close>/\<open>stoi\<close> on the answer, the test of the inner loop.\<close>

definition take_port :: "udp_client \<Rightarrow> string \<Rightarrow> (udp_client \<times> client_out list) outcome" where
  "take_port s t =
     bind_out (read_token t (user_answer s)) (\<lambda>a.
     bind_out (bind_out (c_str a) stoi) (\<lambda>p.
       Inr (s\<lparr>user_answer := a, server_port := p,
              pc := (if p \<le> 0 then AskPort else MakeSocket)\<rparr>, [])))"

definition take_socket :: "udp_client \<Rightarrow> int \<Rightarrow> udp_client \<times> client_out list" where
  "take_socket s fd =
     (if fd = -1 then (s\<lparr>sock := fd, pc := ExitedFailure\<rparr>, [])
      else (s\<lparr>sock := fd, pc := AskMessage\<rparr>, [Opened fd]))"

definition dest :: "udp_client \<Rightarrow> sockaddr_in" where
  "dest s = \<lparr>sin_port = htons (word_of_int (server_port s)), sin_addr = 0\<rparr>"

definition take_message :: "udp_client \<Rightarrow> string \<Rightarrow> (udp_client \<times> client_out list) outcome" where
  "take_message s t =
     bind_out (read_token t (cl_buffer s)) (\<lambda>b.
       Inr (s\<lparr>cl_buffer := b, pc := AwaitReply\<rparr>, [Sent (sock s) (dest s) b]))"

definition take_reply :: "udp_client \<Rightarrow> recv_answer \<Rightarrow> (udp_client \<times> client_out list) outcome" where
  "take_reply s ans =
     (let n = length (cl_buffer s) - 1;
          len = recv_len ans n;
          b = recv_into ans n (cl_buffer s)
      in if len > 0
         then bind_out (put_at (nat len) NUL b) (\<lambda>b'.
              bind_out (c_str b') (\<lambda>text.
                Inr (s\<lparr>cl_buffer := b', pc := AskAgain\<rparr>, [ServerMessage text])))
         else Inr (s\<lparr>cl_buffer := b, pc := AskAgain\<rparr>, []))"

definition take_again :: "udp_client \<Rightarrow> string \<Rightarrow> (udp_client \<times> client_out list) outcome" where
  "take_again s t =
     bind_out (read_token t (user_answer s)) (\<lambda>a.
       let s1 = s\<lparr>user_answer := a\<rparr>;
           (s2, os) = (if said_no then (s1\<lparr>exitFlag := False\<rparr>, [Closed (sock s1)]) else (s1, []))
       in Inr (s2\<lparr>pc := (if exitFlag s2 then AskPort else ExitedSuccess)\<rparr>, os))"

fun client_step :: "(udp_client, client_event, client_out) handler" where
  "client_step s (Token t) =
     (case pc s of
        AskPort \<Rightarrow> take_port s t
      | AskMessage \<Rightarrow> take_message s t
      | AskAgain \<Rightarrow> take_again s t
      | _ \<Rightarrow> Inr (s, []))"
| "client_step s (SocketResult fd) =
     (if pc s = MakeSocket then Inr (take_socket s fd) else Inr (s, []))"
| "client_step s (Reply ans) = (if pc s = AwaitReply then take_reply s ans else Inr (s, []))"

section \<open>Lemmas\<close>

definition client_inv :: "udp_client \<Rightarrow> bool" where
  "client_inv s \<longleftrightarrow> length (user_answer s) = 255 \<and> length (cl_buffer s) = 255
     \<and> exitFlag s \<and> pc s \<noteq> ExitedSuccess"

text \<open>
  Tokens that fit the arrays; one read as the port is a number \<open>stoi\<close> accepts. A longer
  or other token is a fault or an uncaught exception, so the run stops there.
\<close>

definition typed_ok :: "client_event \<Rightarrow> bool" where
  "typed_ok e = (case e of Token t \<Rightarrow> length t < 255 \<and> NUL \<notin> set t \<and> (\<exists>p. stoi t = Inr p) | _ \<Rightarrow> True)"

lemma not_said_no [simp]: "\<not> said_no"
  by (simp add: said_no_def ptr_eq_def)

lemma read_token_ok [simp]:
  "length t < length buf \<Longrightarrow> read_token t buf = Inr (blit (t @ [NUL]) buf)"
  by (simp add: read_token_def)

lemma c_str_token: "NUL \<notin> set t \<Longrightarrow> c_str (blit (t @ [NUL]) buf) = Inr t"
  by (simp add: blit_def c_str_append)

text \<open>What a reply leaves in the buffer and shows to the user.\<close>

definition reply_data :: "udp_client \<Rightarrow> recv_answer \<Rightarrow> string" where
  "reply_data s ans = (case ans of Datagram a d \<Rightarrow> take (length (cl_buffer s) - 1) d | RecvError \<Rightarrow> [])"

definition reply_buffer :: "udp_client \<Rightarrow> recv_answer \<Rightarrow> string" where
  "reply_buffer s ans = (let d = reply_data s ans in
     if d = [] then cl_buffer s else (blit d (cl_buffer s))[length d := NUL])"

definition reply_outs :: "udp_client \<Rightarrow> recv_answer \<Rightarrow> client_out list" where
  "reply_outs s ans = (let d = reply_data s ans in
     if d = [] then [] else [ServerMessage (takeWhile (\<lambda>c. c \<noteq> NUL) d)])"

lemma take_reply_turn:
  assumes "0 < length (cl_buffer s)"
  shows "take_reply s ans = Inr (s\<lparr>cl_buffer := reply_buffer s ans, pc := AskAgain\<rparr>, reply_outs s ans)"
proof (cases "reply_data s ans = []")
  case True
  with assms show ?thesis
    by (cases ans; cases "length (cl_buffer s)")
      (auto simp: take_reply_def reply_data_def reply_buffer_def reply_outs_def recv_len_def
        recv_into_def blit_def)
next
  case False
  let ?d = "reply_data s ans"
  from False obtain a d where ans: "ans = Datagram a d" and d: "?d = take (length (cl_buffer s) - 1) d"
    by (cases ans) (auto simp: reply_data_def)
  have l: "length ?d < length (cl_buffer s)" using assms by (simp add: d min_less_iff_disj)
  have n: "nat (recv_len ans (length (cl_buffer s) - 1)) = length ?d"
    "recv_len ans (length (cl_buffer s) - 1) > 0"
    using False by (auto simp: ans reply_data_def recv_len_def)
  have b: "recv_into ans (length (cl_buffer s) - 1) (cl_buffer s) = blit ?d (cl_buffer s)"
    by (simp add: ans reply_data_def recv_into_def)
  show ?thesis
    using False l c_str_received [OF l]
    by (simp add: take_reply_def reply_buffer_def reply_outs_def n b put_at_ok Let_def del: One_nat_def)
qed

lemma length_reply_data: "length (reply_data s ans) \<le> length (cl_buffer s) - 1"
  by (simp add: reply_data_def split: recv_answer.splits)

lemma length_reply_buffer [simp]:
  "length (reply_buffer s ans) = length (cl_buffer s)"
  using length_reply_data [of s ans] by (simp add: reply_buffer_def Let_def)

lemma take_port_ok:
  "length t < length (user_answer s) \<Longrightarrow> NUL \<notin> set t \<Longrightarrow> stoi t = Inr p \<Longrightarrow>
     take_port s t = Inr (s\<lparr>user_answer := blit (t @ [NUL]) (user_answer s), server_port := p,
       pc := (if p \<le> 0 then AskPort else MakeSocket)\<rparr>, [])"
  by (simp add: take_port_def c_str_token)

lemma reply_outs_no_close [simp]: "Closed fd \<notin> set (reply_outs s ans)"
  by (simp add: reply_outs_def Let_def)

interpretation client: safe_machine client_step client_inv typed_ok
proof unfold_locales
  fix s e
  assume "client_inv s" "typed_ok e"
  then show "\<exists>s' os. client_step s e = Inr (s', os) \<and> client_inv s'"
    by (cases e; cases "pc s")
      (auto simp: client_inv_def typed_ok_def take_port_ok take_message_def take_again_def
        take_socket_def take_reply_turn c_str_token Let_def)
qed

text \<open>No step closes a socket.\<close>

lemma client_step_no_close:
  "client_inv s \<Longrightarrow> client_step s e = Inr (s', os) \<Longrightarrow> Closed fd \<notin> set os"
  by (cases e; cases "pc s")
    (auto simp: client_inv_def take_port_def take_message_def take_again_def take_socket_def
      take_reply_turn Let_def split: if_splits)

text \<open>Under the invariant a step that does not fault keeps it, whatever was typed.\<close>

lemma client_step_inv: "client_inv s \<Longrightarrow> client_step s e = Inr (s', os) \<Longrightarrow> client_inv s'"
  by (cases e; cases "pc s")
    (auto simp: client_inv_def take_port_def take_message_def take_again_def take_socket_def
      take_reply_turn read_token_def Let_def split: if_splits)

lemma client_run_inv:
  "client_inv s \<Longrightarrow> run client_step s es = Inr (s', os) \<Longrightarrow> client_inv s' \<and> Closed fd \<notin> set os"
proof -
  assume "client_inv s" "run client_step s es = Inr (s', os)"
  then have "client_inv s' \<and> list_all (\<lambda>out. out \<noteq> Closed fd) os"
    by (rule run_keeps [of client_inv, rotated])
      (use client_step_inv client_step_no_close in \<open>fastforce simp: list_all_iff\<close>)
  then show ?thesis by (auto simp: list_all_iff)
qed

section \<open>Properties\<close>

text \<open>
  The client cannot be left by answering N: started with its two 255-byte arrays, no
  sequence of inputs (any tokens, socket results and replies, whatever the user answers to
  the last question) that runs without a fault ends in the successful exit or closes a
  socket, because the code compares the address of the array that holds the answer with the
  address of a literal.
\<close>

theorem udp_client_never_exits:
  assumes "length a0 = 255" "length b0 = 255"
    and "run client_step (udp_client_start a0 b0) es = Inr (s', os)"
  shows "pc s' \<noteq> ExitedSuccess \<and> exitFlag s' \<and> Closed fd \<notin> set os"
proof -
  have "client_inv (udp_client_start a0 b0)"
    using assms by (simp add: client_inv_def udp_client_start_def)
  from client_run_inv [OF this assms(3)] show ?thesis by (auto simp: client_inv_def)
qed

definition demo_client_events :: "client_event list" where
  "demo_client_events = [Token ''7777'', SocketResult 3, Token ''hello'',
     Reply (Datagram \<lparr>sin_port = htons 7777, sin_addr = 0\<rparr> ''hello''), Token ''N'']"

theorem udp_client_never_exits_witness:
  "\<exists>s' os. run client_step (udp_client_start (replicate 255 NUL) (replicate 255 NUL)) demo_client_events
       = Inr (s', os) \<and> pc s' \<noteq> ExitedSuccess \<and> exitFlag s' \<and> Closed 3 \<notin> set os"
proof -
  let ?s = "udp_client_start (replicate 255 NUL) (replicate 255 NUL)"
  have "stoi ''7777'' = Inr 7777" by code_simp
  then obtain s' os where r: "run client_step ?s demo_client_events = Inr (s', os)"
    by (auto simp: demo_client_events_def run.simps udp_client_start_def take_port_ok
        take_socket_def take_message_def take_reply_turn take_again_def)
  with udp_client_never_exits [OF _ _ r, of 3] show ?thesis by simp
qed

end
