(* ===== verification/SendLoop.thy ===== *)
theory SendLoop
  imports Machine
begin

text \<open>
  Sending a message over a stream socket. \<open>send\<close> accepts some of the bytes it is offered
  or fails, and the code calls it until the message is gone. Here are the answers of
  \<open>send\<close>, the contract callers expect of such a loop, and the loop \<open>send_request\<close> that
  \<open>lesson3/broadcast_server/main.cpp\<close> and \<open>lesson3/tcp_client/main.cpp\<close> share (the
  loop of \<open>lesson4\<close> is in \<open>Transceiver\<close>).
\<close>

section \<open>Answers of the system call\<close>

datatype errno = EINTR | EAGAIN | OtherError

datatype send_answer = Accepted nat | SendFailed errno

text \<open>
  An answer is possible for an offer of \<open>n\<close> bytes when it accepts no more than were
  offered. A list of answers \<open>completes n\<close> when they accept \<open>n\<close> bytes in all, some
  in every call.
\<close>

fun completes :: "nat \<Rightarrow> send_answer list \<Rightarrow> bool" where
  "completes n [] = False"
| "completes n (SendFailed e # as) = False"
| "completes n (Accepted k # as) = (0 < k \<and> k \<le> n \<and> (k = n \<or> completes (n - k) as))"

text \<open>
  What a send loop returns: its result, the bytes the socket accepted and the answers it
  has not used; \<open>None\<close> when the answers run out inside the loop.
\<close>

type_synonym 'a sent = "(bool \<times> string \<times> 'a list) option"

text \<open>
  The contract of a sender: what it calls success is the whole message delivered, and what
  it delivers otherwise is a beginning of it.
\<close>

locale reliable_sender =
  fixes snd_msg :: "string \<Rightarrow> 'a list \<Rightarrow> 'a sent"
  assumes success: "snd_msg m as = Some (True, d, as') \<Longrightarrow> d = m"
    and failure: "snd_msg m as = Some (False, d, as') \<Longrightarrow> \<exists>r. m = d @ r"

fun send_each :: "(string \<Rightarrow> 'a list \<Rightarrow> 'a sent) \<Rightarrow> string list \<Rightarrow> 'a list \<Rightarrow> 'a sent" where
  "send_each f [] as = Some (True, [], as)"
| "send_each f (m # ms) as =
     (case f m as of
        None \<Rightarrow> None
      | Some (False, d, as') \<Rightarrow> Some (False, d, as')
      | Some (True, d, as') \<Rightarrow>
          (case send_each f ms as' of
             None \<Rightarrow> None
           | Some (b, d', as'') \<Rightarrow> Some (b, d @ d', as'')))"

context reliable_sender
begin

lemma each_success: "send_each snd_msg ms as = Some (True, d, as') \<Longrightarrow> d = concat ms"
  by (induction ms arbitrary: as d)
    (auto split: option.splits bool.splits prod.splits dest: success)

lemma each_failure: "send_each snd_msg ms as = Some (False, d, as') \<Longrightarrow> \<exists>r. concat ms = d @ r"
proof (induction ms arbitrary: as d)
  case Nil
  then show ?case by simp
next
  case (Cons m ms)
  from Cons.prems consider
      "snd_msg m as = Some (False, d, as')"
    | d1 as1 d2 where "snd_msg m as = Some (True, d1, as1)"
        "send_each snd_msg ms as1 = Some (False, d2, as')" "d = d1 @ d2"
    by (auto split: option.splits bool.splits prod.splits)
  then show ?case
  proof cases
    case 1
    then show ?thesis using failure by fastforce
  next
    case 2
    then show ?thesis using success Cons.IH by fastforce
  qed
qed

lemma each_prefix: "send_each snd_msg ms as = Some (b, d, as') \<Longrightarrow> \<exists>r. concat ms = d @ r"
  using each_success each_failure by (cases b) fastforce+

end

section \<open>The loop of lesson 3\<close>

text \<open>
  \<open>bytes_count\<close> is a \<open>size_t\<close>, so the result \<open>-1\<close> of a failed call is \<open>2 ^ 64 - 1\<close> in it,
  and the test \<open>bytes_count < 0\<close> is a comparison of unsigned numbers. \<open>req_pos\<close> wraps.
\<close>

definition bytes_count :: "send_answer \<Rightarrow> 64 word" where
  "bytes_count a = (case a of Accepted k \<Rightarrow> word_of_nat k | SendFailed e \<Rightarrow> - 1)"

definition accepted_bytes :: "send_answer \<Rightarrow> 64 word \<Rightarrow> string \<Rightarrow> string" where
  "accepted_bytes a pos m = (case a of Accepted k \<Rightarrow> take k (drop (unat pos) m) | SendFailed e \<Rightarrow> [])"

fun send_from :: "string \<Rightarrow> 64 word \<Rightarrow> send_answer list \<Rightarrow> send_answer sent" where
  "send_from m req_pos [] = None"
| "send_from m req_pos (a # as) =
     (if bytes_count a < 0 then
        (if a = SendFailed EINTR then send_from m req_pos as else send_from m req_pos as)
      else if bytes_count a = 0 then Some (True, [], as)
      else
        let d = accepted_bytes a req_pos m;
            req_pos' = req_pos + bytes_count a
        in if req_pos' \<ge> word_of_nat (length m) then Some (True, d, as)
           else (case send_from m req_pos' as of
                   None \<Rightarrow> None
                 | Some (b, d', as') \<Rightarrow> Some (b, d @ d', as')))"

definition send_request :: "string \<Rightarrow> send_answer list \<Rightarrow> send_answer sent" where
  "send_request m as = send_from m 0 as"

lemma unat_u64_of_nat: "n < 2 ^ 64 \<Longrightarrow> unat (word_of_nat n :: 64 word) = n"
  by (simp add: unsigned_of_nat take_bit_nat_eq_self)

lemma word64_le: "a < 2 ^ 64 \<Longrightarrow> b < 2 ^ 64 \<Longrightarrow>
    (word_of_nat a :: 64 word) \<le> word_of_nat b \<longleftrightarrow> a \<le> b"
  by (simp only: word_le_nat_alt unat_u64_of_nat)

lemma word64_eq_0: "k < 2 ^ 64 \<Longrightarrow> (word_of_nat k :: 64 word) = 0 \<longleftrightarrow> k = 0"
  by (metis unat_u64_of_nat unsigned_0 unsigned_eq_0_iff)

lemma bytes_count_nonneg [simp]: "\<not> bytes_count a < 0"
  by simp

lemma bytes_count_simps [simp]:
  "bytes_count (Accepted k) = word_of_nat k"
  "bytes_count (SendFailed e) = - 1"
  by (simp_all add: bytes_count_def)

text \<open>One accepting answer, while the position is inside the message.\<close>

lemma send_from_accepted:
  assumes "length m < 2 ^ 64" "0 < k" "k \<le> length m - p" "p \<le> length m"
  shows "send_from m (word_of_nat p) (Accepted k # as) =
    (if p + k = length m then Some (True, drop p m, as)
     else (case send_from m (word_of_nat (p + k)) as of
             None \<Rightarrow> None
           | Some (b, d', as') \<Rightarrow> Some (b, take k (drop p m) @ d', as')))"
proof -
  have p: "unat (word_of_nat p :: 64 word) = p"
    by (rule unat_u64_of_nat) (use assms in linarith)
  have k: "(word_of_nat k :: 64 word) \<noteq> 0"
    by (subst word64_eq_0) (use assms in linarith)+
  have sum: "(word_of_nat p :: 64 word) + word_of_nat k = word_of_nat (p + k)" by simp
  have le: "(word_of_nat (length m) :: 64 word) \<le> word_of_nat (p + k) \<longleftrightarrow> p + k = length m"
    by (subst word64_le) (use assms in linarith)+
  have acc: "accepted_bytes (Accepted k) (word_of_nat p) m = take k (drop p m)"
    unfolding accepted_bytes_def p by simp
  show ?thesis
    unfolding send_from.simps bytes_count_simps Let_def sum le acc
    using k assms by simp
qed

lemma send_from_completes:
  "length m < 2 ^ 64 \<Longrightarrow> p \<le> length m \<Longrightarrow> completes (length m - p) as \<Longrightarrow>
     \<exists>rest. send_from m (word_of_nat p) as = Some (True, drop p m, rest)"
proof (induction "length m - p" as arbitrary: p rule: completes.induct)
  case (3 k as)
  then have k: "0 < k" "k \<le> length m - p" by simp_all
  show ?case
  proof (cases "p + k = length m")
    case True
    with 3 k show ?thesis by (simp add: send_from_accepted del: send_from.simps)
  next
    case False
    have "length m - p - k = length m - (p + k)" by simp
    with 3 k False obtain rest where
        "send_from m (word_of_nat (p + k)) as = Some (True, drop (p + k) m, rest)"
      by (metis completes.simps(3) le_diff_conv2 add.commute diff_diff_left ordered_cancel_comm_monoid_diff_class.add_diff_inverse)
    with 3 k False show ?thesis
      by (simp add: send_from_accepted append_take_drop_id [symmetric] del: send_from.simps)
        (metis append_take_drop_id drop_drop add.commute)
  qed
qed simp_all

lemma send_from_failed_start:
  "length m < 2 ^ 64 \<Longrightarrow> send_from m 0 (SendFailed e # as) = Some (True, [], as)"
proof -
  assume "length m < 2 ^ 64"
  have "(word_of_nat (length m) :: 64 word) \<le> - 1" by simp
  then show ?thesis by (simp add: accepted_bytes_def)
qed

lemma send_from_failed:
  assumes "length m < 2 ^ 64" "0 < p" "p \<le> length m"
  shows "send_from m (word_of_nat p) (SendFailed e # as) = send_from m (word_of_nat (p - 1)) as"
proof -
  have pos: "(word_of_nat p :: 64 word) + - 1 = word_of_nat (p - 1)"
    using assms(2) by (cases p) simp_all
  have le: "\<not> (word_of_nat (length m) :: 64 word) \<le> word_of_nat (p - 1)"
    by (subst word64_le) (use assms in linarith)+
  show ?thesis
    unfolding send_from.simps bytes_count_simps Let_def pos
    using le by (auto simp: accepted_bytes_def split: option.splits)
qed

lemma send_from_reports_success: "send_from m p as = Some (b, d, as') \<Longrightarrow> b"
proof (induction m p as arbitrary: d as' rule: send_from.induct)
  case (2 m p a as)
  then show ?case by (auto simp: Let_def split: if_splits option.splits)
qed simp

lemmas send_from_steps = send_from_accepted send_from_failed send_from_failed_start

section \<open>Properties\<close>

text \<open>
  When no call fails, \<open>send_request\<close> delivers exactly the message: for every
  way the socket may split it into accepted parts it returns success, having sent each
  byte once and in order.
\<close>

theorem send_request_delivers:
  assumes "length m < 2 ^ 64" "completes (length m) as"
  shows "\<exists>rest. send_request m as = Some (True, m, rest)"
  using send_from_completes [of m 0 as] assms by (simp add: send_request_def)

theorem send_request_delivers_witness:
  "\<exists>rest. send_request ''getfile x'' [Accepted 4, Accepted 3, Accepted 2] = Some (True, ''getfile x'', rest)"
  using send_request_delivers [of "''getfile x''" "[Accepted 4, Accepted 3, Accepted 2]"] by simp

text \<open>
  \<open>send_request\<close> reports success for a message of which nothing was sent: when the
  first call fails, whatever the error (a call to be repeated included), the unsigned
  position jumps past the end and the loop returns success.
\<close>

theorem send_request_hides_failure:
  assumes "length m < 2 ^ 64"
  shows "send_request m (SendFailed e # as) = Some (True, [], as)"
  using assms by (simp add: send_request_def send_from_failed_start del: send_from.simps)

theorem send_request_hides_failure_witness:
  "send_request ''getfile x'' [SendFailed EINTR, Accepted 9] = Some (True, [], [Accepted 9])"
  using send_request_hides_failure [of "''getfile x''" EINTR "[Accepted 9]"] by simp

text \<open>
  A failure after \<open>k\<close> bytes have gone out moves the position back by one, so the
  receiver gets the last of them twice: the stream it reads is not the message.
\<close>

theorem send_request_repeats_byte:
  assumes "length m < 2 ^ 64" "0 < k" "k < length m"
  shows "send_request m (Accepted k # SendFailed e # Accepted (length m - k + 1) # as)
    = Some (True, take k m @ drop (k - 1) m, as)"
proof -
  have "send_from m (word_of_nat (k - 1)) (Accepted (length m - k + 1) # as)
      = Some (True, drop (k - 1) m, as)"
  proof -
    have "k - 1 + (length m - k + 1) = length m" "length m - k + 1 \<le> length m - (k - 1)"
        "0 < length m - k + 1" "k - 1 \<le> length m"
      using assms by simp_all
    then show ?thesis
      using send_from_accepted [of m "length m - k + 1" "k - 1" as] assms(1)
      by (simp only: simp_thms if_True)
  qed
  moreover have "send_from m (word_of_nat k) (SendFailed e # Accepted (length m - k + 1) # as)
      = send_from m (word_of_nat (k - 1)) (Accepted (length m - k + 1) # as)"
    using assms by (intro send_from_failed) simp_all
  moreover have "send_from m 0 (Accepted k # bs) =
      (case send_from m (word_of_nat k) bs of None \<Rightarrow> None
       | Some (b, d', as') \<Rightarrow> Some (b, take k m @ d', as'))" for bs
    using send_from_accepted [of m k 0 bs, unfolded drop_0] assms by (simp del: send_from.simps)
  ultimately show ?thesis by (simp add: send_request_def del: send_from.simps)
qed

theorem send_request_repeats_byte_witness:
  "send_request ''abcd'' [Accepted 2, SendFailed EAGAIN, Accepted 3] = Some (True, ''abbcd'', [])"
  using send_request_repeats_byte [of "''abcd''" 2 EAGAIN "[]"] by (simp add: numeral_3_eq_3)

text \<open>
  \<open>send_request\<close> does not meet the contract of a sender, and it never returns failure:
  the branches of its callers that report a sending error are dead.
\<close>

theorem send_request_not_reliable:
  "\<not> reliable_sender send_request
   \<and> (\<forall>m as d as'. send_request m as \<noteq> Some (False, d, as'))"
proof
  have "send_request ''a'' [SendFailed OtherError] = Some (True, [], [])"
    by (simp add: send_request_def send_from_failed_start del: send_from.simps)
  then show "\<not> reliable_sender send_request"
    by (auto dest: reliable_sender.success)
  show "\<forall>m as d as'. send_request m as \<noteq> Some (False, d, as')"
    using send_from_reports_success by (fastforce simp: send_request_def simp del: send_from.simps)
qed

end
