(* ===== verification/BroadcastServer.thy ===== *)
theory BroadcastServer
  imports SendLoop UdpServer
begin

text \<open>
  The file server of \<open>lesson3/broadcast_server/main.cpp\<close> (the branch without
  \<open>_WIN32\<close>). One turn of its loop accepts a connection, receives one request into a
  buffer that is kept from turn to turn, and either prints the request or, when the request
  holds the word \<open>getfile\<close>, opens the file it names and sends its first line. The file
  system is the parameter \<open>fs\<close>: what \<open>fopen\<close> finds under a name.
\<close>

section \<open>State\<close>

record bcast_server =
  req_buffer :: string
  listens_on :: sockaddr_in

datatype stream_answer = Data string | StreamError

record conn_event =
  accepted :: int
  from_peer :: stream_answer
  answers :: "send_answer list"

datatype bcast_out =
    ReceivedBytes nat
  | ReceiveFailed
  | FileOpened string
  | FileMissing string
  | Delivered string
  | SendErrorShown
  | Printed string
  | SocketClosed

section \<open>Operations\<close>

text \<open>\<open>main\<close> up to the loop. A failed \<open>socket\<close> is tested by \<open>!sock\<close>.\<close>

definition bcast_launch ::
    "string list \<Rightarrow> int \<Rightarrow> int \<Rightarrow> (bcast_server launch \<times> bcast_out list) outcome" where
  "bcast_launch args sock bound =
     (if length args \<noteq> 1 then Inr (ExitFailure, [])
      else bind_out (stoi (hd args)) (\<lambda>port.
        if sock = 0 then Inr (ExitFailure, [])
        else if bound < 0 then Inr (ExitFailure, [SocketClosed])
        else Inr (Started \<lparr>req_buffer = replicate 256 NUL,
               listens_on = \<lparr>sin_port = htons (word_of_int port), sin_addr = 0\<rparr>\<rparr>, [])))"

definition stream_len :: "stream_answer \<Rightarrow> nat \<Rightarrow> int" where
  "stream_len ans n = (case ans of Data d \<Rightarrow> int (min n (length d)) | StreamError \<Rightarrow> -1)"

definition stream_into :: "stream_answer \<Rightarrow> nat \<Rightarrow> string \<Rightarrow> string" where
  "stream_into ans n buf = (case ans of Data d \<Rightarrow> blit (take n d) buf | StreamError \<Rightarrow> buf)"

text \<open>
  The name in a request: \<open>i\<close> is the truth value of the search (\<open>!=\<close> binds tighter than
  the initialisation), \<open>recv_bytes\<close> the signed result of \<open>recv\<close>, \<open>path_len\<close> an unsigned
  64-bit length, \<open>fp0\<close> what the uninitialised array \<open>fpath\<close> holds.
\<close>

definition path_of :: "string \<Rightarrow> string \<Rightarrow> int \<Rightarrow> int \<Rightarrow> string outcome" where
  "path_of fp0 buf recv_bytes i =
     (let path_len = (word_of_int (recv_bytes - (i + 10)) :: 64 word)
      in bind_out (c_str (drop (nat (i + 8)) buf)) (\<lambda>p.
           if length p < length fp0
           then bind_out (put_at (unat path_len) NUL (blit (p @ [NUL]) fp0)) c_str
           else Inl OutOfBounds))"

text \<open>\<open>fgets(buf, n, file)\<close> on a freshly opened file: at most one line, \<open>n - 1\<close> bytes; at
  the end of the file the array is left alone.\<close>

definition first_line :: "nat \<Rightarrow> string \<Rightarrow> string" where
  "first_line n content =
     (let l = takeWhile (\<lambda>c. c \<noteq> LF) content
      in take (n - 1) (if length l < length content then l @ [LF] else l))"

definition fgets :: "nat \<Rightarrow> string \<Rightarrow> string \<Rightarrow> string" where
  "fgets n content buf = (if content = [] then buf else blit (first_line n content @ [NUL]) buf)"

definition not_found_text :: string where
  "not_found_text = ''FILE NOT FOUND!'' @ [CR, LF]"

definition reply_with :: "string \<Rightarrow> send_answer list \<Rightarrow> (bcast_out list \<times> send_answer list) outcome" where
  "reply_with m as =
     (case send_request m as of
        None \<Rightarrow> Inl Blocked
      | Some (ok, d, as') \<Rightarrow> Inr ([Delivered d] @ (if ok then [] else [SendErrorShown]), as'))"

text \<open>
  The branch for \<open>getfile\<close>. In the \<open>else\<close> of the code \<open>std::string(buffer) = ...\<close> declares
  a local string, which is what the inner \<open>send_request\<close> sends; the outer one sends the array.
\<close>

definition serve_file ::
    "(string \<Rightarrow> string option) \<Rightarrow> string \<Rightarrow> string \<Rightarrow> send_answer list \<Rightarrow> (string \<times> bcast_out list) outcome" where
  "serve_file fs path buf as =
     bind_out
       (case fs path of
          Some content \<Rightarrow> Inr (fgets 255 content buf, [FileOpened path], as)
        | None \<Rightarrow> bind_out (reply_with not_found_text as) (\<lambda>(os, as').
                    Inr (buf, FileMissing path # os, as')))
       (\<lambda>(b, o1, as'). bind_out (c_str b) (\<lambda>m.
          bind_out (reply_with m as') (\<lambda>(o2, _). Inr (b, o1 @ o2))))"

definition bcast_turn ::
    "(string \<Rightarrow> string option) \<Rightarrow> string \<Rightarrow> (bcast_server, conn_event, bcast_out) handler" where
  "bcast_turn fs fp0 s e =
     (if accepted e < 0 then Inl (Uncaught ''ERROR ON ACCEPT!'')
      else
        let n = length (req_buffer s) - 1;
            recv_bytes = stream_len (from_peer e) n;
            b0 = stream_into (from_peer e) n (req_buffer s)
        in bind_out
             (if recv_bytes > 0
              then bind_out (put_at (nat recv_bytes) NUL b0) (\<lambda>b. Inr (b, [ReceivedBytes (nat recv_bytes)]))
              else Inr (b0, [ReceiveFailed]))
             (\<lambda>(b, o1). bind_out (c_str b) (\<lambda>text.
                let i = (if str_find ''getfile'' text \<noteq> None then 1 else 0 :: int)
                in if i \<noteq> 0
                   then bind_out (path_of fp0 b recv_bytes i) (\<lambda>path.
                        bind_out (serve_file fs path b (answers e)) (\<lambda>(b', o2).
                          Inr (s\<lparr>req_buffer := b'\<rparr>, o1 @ o2)))
                   else Inr (s\<lparr>req_buffer := b\<rparr>, o1 @ [Printed text]))))"

section \<open>The buffer\<close>

text \<open>
  The last byte of the buffer is never written, so the buffer always holds a terminator and
  every C string read from it ends inside it.
\<close>

definition bcast_inv :: "bcast_server \<Rightarrow> bool" where
  "bcast_inv s \<longleftrightarrow> length (req_buffer s) = 256 \<and> req_buffer s ! 255 = NUL"

definition request_buffer :: "bcast_server \<Rightarrow> stream_answer \<Rightarrow> string" where
  "request_buffer s ans = (case ans of
       Data d \<Rightarrow> if d = [] then req_buffer s
         else (blit (take 255 d) (req_buffer s))[length (take 255 d) := NUL]
     | StreamError \<Rightarrow> req_buffer s)"

definition recv_log :: "stream_answer \<Rightarrow> bcast_out list" where
  "recv_log ans = (if stream_len ans 255 > 0 then [ReceivedBytes (nat (stream_len ans 255))] else [ReceiveFailed])"

lemma request_buffer_inv:
  assumes "bcast_inv s"
  shows "length (request_buffer s ans) = 256 \<and> request_buffer s ans ! 255 = NUL"
  using assms
  by (auto simp: bcast_inv_def request_buffer_def blit_def nth_append nth_list_update
      split: stream_answer.splits)

lemma inv_has_NUL:
  assumes "length b = 256" "b ! 255 = NUL" "k \<le> 255"
  shows "NUL \<in> set (drop k b)"
proof -
  have "drop k b ! (255 - k) = NUL" "255 - k < length (drop k b)" using assms by simp_all
  then show ?thesis by (metis nth_mem)
qed

text \<open>A turn of the loop, with the reception done.\<close>

lemma bcast_turn_received:
  assumes "bcast_inv s" "0 \<le> accepted e"
  shows "bcast_turn fs fp0 s e =
    (let b = request_buffer s (from_peer e); text = takeWhile (\<lambda>c. c \<noteq> NUL) b
     in if str_find ''getfile'' text \<noteq> None
        then bind_out (path_of fp0 b (stream_len (from_peer e) 255) 1) (\<lambda>path.
             bind_out (serve_file fs path b (answers e)) (\<lambda>(b', o2).
               Inr (s\<lparr>req_buffer := b'\<rparr>, recv_log (from_peer e) @ o2)))
        else Inr (s\<lparr>req_buffer := b\<rparr>, recv_log (from_peer e) @ [Printed text]))"
proof -
  let ?b = "request_buffer s (from_peer e)"
  have len: "length (req_buffer s) - 1 = 255" using assms by (simp add: bcast_inv_def)
  have "NUL \<in> set (drop 0 ?b)"
    using request_buffer_inv [OF assms(1), of "from_peer e"] by (intro inv_has_NUL) simp_all
  then have whole: "c_str ?b = Inr (takeWhile (\<lambda>c. c \<noteq> NUL) ?b)"
    by (simp add: c_str_takeWhile)
  have rcv: "(if stream_len (from_peer e) 255 > 0
      then bind_out (put_at (nat (stream_len (from_peer e) 255)) NUL
             (stream_into (from_peer e) 255 (req_buffer s)))
           (\<lambda>b. Inr (b, [ReceivedBytes (nat (stream_len (from_peer e) 255))]))
      else Inr (stream_into (from_peer e) 255 (req_buffer s), [ReceiveFailed]))
     = Inr (?b, recv_log (from_peer e))"
    using assms(1)
    by (cases "from_peer e")
      (auto simp: stream_len_def stream_into_def request_buffer_def recv_log_def bcast_inv_def
        put_at_ok blit_def min.commute)
  show ?thesis
    unfolding bcast_turn_def len Let_def rcv bind_out_simps prod.case whole
    using assms(2) by simp
qed

section \<open>Requests for a file\<close>

definition get_request :: "string \<Rightarrow> string" where
  "get_request p = ''getfile '' @ p @ [CR, LF]"

lemma length_get_request [simp]: "length (get_request p) = length p + 10"
  by (simp add: get_request_def)

lemma get_request_not_Nil [simp]: "get_request p \<noteq> []"
  by (simp add: get_request_def)

lemma find_in_request: "str_find ''getfile'' (get_request p) = Some 0"
  by (rule str_find_prefix) (simp add: get_request_def)

lemma request_buffer_get:
  assumes "bcast_inv s" "length (get_request p) \<le> 255"
  shows "request_buffer s (Data (get_request p)) =
    get_request p @ NUL # drop (length p + 11) (req_buffer s)"
proof -
  have "length (get_request p) < length (req_buffer s)" using assms by (simp add: bcast_inv_def)
  from blit_put_end [OF this, of NUL] show ?thesis
    using assms(2) by (simp add: request_buffer_def numeral_eq_Suc)
qed

text \<open>
  Where the name is cut: the code starts one place after the name does, and ends it where the
  name ends.
\<close>

lemma path_of_get:
  assumes "length fp0 = 60" "NUL \<notin> set p" "1 \<le> length p" "length p \<le> 58"
  shows "path_of fp0 (get_request p @ NUL # r) (int (length p + 10)) 1 = Inr (tl p)"
proof -
  obtain c q where p: "p = c # q" using assms(3) by (cases p) auto
  have d: "drop 9 (get_request p @ NUL # r) = (q @ [CR, LF]) @ NUL # r"
    by (simp add: get_request_def p)
  have c: "c_str ((q @ [CR, LF]) @ NUL # r) = Inr (q @ [CR, LF])"
    by (rule c_str_append) (use assms(2) p in simp)
  have nine: "nat (1 + 8) = 9" by simp
  have eleven: "int (length p + 10) - (1 + 10) = int (length q)" by (simp add: p)
  have len: "unat (word_of_int (int (length q)) :: 64 word) = length q"
    using assms(4) p by (simp add: unat_u64_of_nat)
  have put: "put_at (length q) NUL (blit ((q @ [CR, LF]) @ [NUL]) fp0)
      = Inr (q @ NUL # [LF, NUL] @ drop (length q + 3) fp0)"
    using assms(1,4) p by (simp add: put_at_def blit_def list_update_append numeral_eq_Suc)
  have q: "c_str (q @ NUL # [LF, NUL] @ drop (length q + 3) fp0) = Inr q"
    by (rule c_str_append) (use assms(2) p in simp)
  have fits: "length (q @ [CR, LF]) < length fp0" using assms(1,4) p by simp
  show ?thesis
    unfolding path_of_def Let_def nine d c bind_out_simps eleven len if_P [OF fits] put q
    by (simp add: p)
qed

lemma path_of_too_long:
  assumes "length fp0 = 60" "NUL \<notin> set p" "59 \<le> length p"
  shows "path_of fp0 (get_request p @ NUL # r) n 1 = Inl OutOfBounds"
proof -
  obtain c q where p: "p = c # q" using assms(3) by (cases p) auto
  have d: "drop 9 (get_request p @ NUL # r) = (q @ [CR, LF]) @ NUL # r"
    by (simp add: get_request_def p)
  have c: "c_str ((q @ [CR, LF]) @ NUL # r) = Inr (q @ [CR, LF])"
    by (rule c_str_append) (use assms(2) p in simp)
  have nine: "nat (1 + 8) = 9" by simp
  show ?thesis unfolding path_of_def Let_def nine d c using assms(1,3) p by simp
qed

text \<open>Fewer than eleven received bytes give a length that has wrapped around.\<close>

lemma path_of_wraps:
  assumes "length b = 256" "b ! 255 = NUL" "length fp0 = 60" "-1 \<le> n" "n < 11"
  shows "path_of fp0 b n 1 = Inl OutOfBounds"
proof -
  have "NUL \<in> set (drop 9 b)" using assms(1,2) by (rule inv_has_NUL) simp
  then obtain p where p: "c_str (drop 9 b) = Inr p" using c_str_total by blast
  have "uint (word_of_int (n - 11) :: 64 word) = (n - 11) mod 2 ^ 64"
    by (subst uint_word_of_int) simp
  also have "\<dots> = (n - 11 + 2 ^ 64) mod 2 ^ 64" by (rule mod_add_self2 [symmetric])
  also have "\<dots> = n - 11 + 2 ^ 64" using assms(4,5) by (intro mod_pos_pos_trivial) simp_all
  finally have "60 \<le> uint (word_of_int (n - 11) :: 64 word)" using assms(4) by simp
  then have "60 \<le> unat (word_of_int (n - 11) :: 64 word)" by (simp only: unat_eq_nat_uint)
  then show ?thesis
    using assms(3) p by (simp add: path_of_def put_at_def Let_def)
qed

text \<open>A well-formed request, up to the file system and the sending.\<close>

lemma bcast_turn_get:
  assumes "bcast_inv s" "0 \<le> accepted e" "from_peer e = Data (get_request p)"
    and "NUL \<notin> set p" "length p \<le> 245"
  shows "bcast_turn fs fp0 s e =
    bind_out (path_of fp0 (get_request p @ NUL # drop (length p + 11) (req_buffer s)) (int (length p + 10)) 1)
      (\<lambda>path. bind_out
        (serve_file fs path (get_request p @ NUL # drop (length p + 11) (req_buffer s)) (answers e))
        (\<lambda>(b', o2). Inr (s\<lparr>req_buffer := b'\<rparr>, ReceivedBytes (length p + 10) # o2)))"
proof -
  have n: "NUL \<notin> set (get_request p)" using assms(4) by (simp add: get_request_def)
  have len: "stream_len (Data (get_request p)) 255 = int (length p + 10)"
    using assms(5) by (simp add: stream_len_def)
  have log: "recv_log (Data (get_request p)) = [ReceivedBytes (length p + 10)]"
    unfolding recv_log_def len by simp
  have b: "request_buffer s (Data (get_request p))
      = get_request p @ NUL # drop (length p + 11) (req_buffer s)"
    by (rule request_buffer_get) (use assms in simp_all)
  have found: "str_find ''getfile'' (get_request p) \<noteq> None"
    by (simp add: find_in_request)
  show ?thesis
    unfolding bcast_turn_received [OF assms(1,2)] assms(3) b log len Let_def
      takeWhile_NUL_append [OF n] if_P [OF found] by simp
qed

lemma first_line_length: "length (first_line n content) \<le> n - 1"
  by (simp add: first_line_def Let_def)

lemma fgets_keeps_end:
  assumes "length b = 256" "b ! 255 = NUL"
  shows "length (fgets 255 content b) = 256 \<and> fgets 255 content b ! 255 = NUL"
proof -
  have "length (first_line 255 content @ [NUL]) \<le> 255"
    using first_line_length [of 255 content] by simp
  then show ?thesis using assms by (simp add: fgets_def nth_blit)
qed

lemma serve_file_result:
  assumes "serve_file fs path b as = Inr (b', os)"
  shows "b' = (case fs path of Some content \<Rightarrow> fgets 255 content b | None \<Rightarrow> b)"
  using assms by (auto simp: serve_file_def split: option.splits)

lemma reply_with_Blocked: "reply_with m as = Inl f \<Longrightarrow> f = Blocked"
  by (auto simp: reply_with_def split: option.splits prod.splits)

lemma serve_file_safe:
  assumes "length b = 256" "b ! 255 = NUL" "serve_file fs path b as = Inl f"
  shows "f = Blocked"
proof -
  have "NUL \<in> set b" "\<And>content. NUL \<in> set (fgets 255 content b)"
    using inv_has_NUL [OF assms(1,2), of 0] fgets_keeps_end [OF assms(1,2)]
      inv_has_NUL [of "fgets 255 _ b" 0] by auto
  then show ?thesis
    using assms(3)
    by (auto simp: serve_file_def bind_out_def c_str_Inl
        split: option.splits sum.splits dest!: reply_with_Blocked)
qed

lemma bcast_turn_inv:
  assumes "bcast_inv s" "bcast_turn fs fp0 s e = Inr (s', os)"
  shows "bcast_inv s'"
proof -
  have a: "0 \<le> accepted e" using assms(2) by (auto simp: bcast_turn_def split: if_splits)
  have b: "length (request_buffer s (from_peer e)) = 256"
      "request_buffer s (from_peer e) ! 255 = NUL"
    using request_buffer_inv [OF assms(1)] by auto
  from assms(2) show ?thesis
    unfolding bcast_turn_received [OF assms(1) a] Let_def
    using b fgets_keeps_end [OF b]
    by (auto simp: bcast_inv_def split: if_splits option.splits dest!: serve_file_result)
qed

text \<open>A request for a file that is there, answered.\<close>

lemma getfile_turn:
  assumes "bcast_inv s" "length fp0 = 60" "0 \<le> accepted e"
    and "from_peer e = Data (get_request p)" "NUL \<notin> set p" "1 \<le> length p" "length p \<le> 58"
    and "fs (tl p) = Some content" "content \<noteq> []" "NUL \<notin> set content"
    and "completes (length (first_line 255 content)) (answers e)"
  shows "\<exists>s'. bcast_turn fs fp0 s e = Inr (s',
      [ReceivedBytes (length p + 10), FileOpened (tl p), Delivered (first_line 255 content)])
      \<and> bcast_inv s'"
proof -
  let ?b = "get_request p @ NUL # drop (length p + 11) (req_buffer s)"
  have small: "length (first_line 255 content) < 2 ^ 64"
    using first_line_length [of 255 content] by simp
  obtain rest where sent: "send_request (first_line 255 content) (answers e)
      = Some (True, first_line 255 content, rest)"
    using send_from_completes [of "first_line 255 content" 0 "answers e"] small assms(11)
    by (auto simp: send_request_def)
  have line: "NUL \<notin> set (first_line 255 content)"
    using assms(10) by (auto simp: first_line_def Let_def dest!: in_set_takeD set_takeWhileD
        split: if_splits)
  have "c_str (fgets 255 content ?b) = Inr (first_line 255 content)"
    using assms(9) line by (simp add: fgets_def blit_def c_str_append)
  with sent assms(8) have "serve_file fs (tl p) ?b (answers e) = Inr (fgets 255 content ?b,
      [FileOpened (tl p), Delivered (first_line 255 content)])"
    by (simp add: serve_file_def reply_with_def)
  moreover have "path_of fp0 ?b (int (length p + 10)) 1 = Inr (tl p)"
    by (intro path_of_get assms)
  moreover have "length p \<le> 245" using assms(7) by simp
  note bcast_turn_get [OF assms(1,3,4,5) this, of fs fp0]
  ultimately show ?thesis
    using bcast_turn_inv [OF assms(1), of fs fp0 e] by simp
qed

section \<open>Traffic without file requests\<close>

definition quiet_inv :: "bcast_server \<Rightarrow> bool" where
  "quiet_inv s \<longleftrightarrow> bcast_inv s \<and> str_find ''getfile'' (takeWhile (\<lambda>c. c \<noteq> NUL) (req_buffer s)) = None"

definition chat_event :: "conn_event \<Rightarrow> bool" where
  "chat_event e \<longleftrightarrow> 0 \<le> accepted e \<and> (case from_peer e of
       Data d \<Rightarrow> str_find ''getfile'' (takeWhile (\<lambda>c. c \<noteq> NUL) (take 255 d)) = None
     | StreamError \<Rightarrow> True)"

lemma request_text:
  assumes "bcast_inv s"
  shows "takeWhile (\<lambda>c. c \<noteq> NUL) (request_buffer s ans) =
    (case ans of
       Data d \<Rightarrow> if d = [] then takeWhile (\<lambda>c. c \<noteq> NUL) (req_buffer s)
                 else takeWhile (\<lambda>c. c \<noteq> NUL) (take 255 d)
     | StreamError \<Rightarrow> takeWhile (\<lambda>c. c \<noteq> NUL) (req_buffer s))"
proof -
  have "takeWhile (\<lambda>c. c \<noteq> NUL) ((blit (take 255 d) (req_buffer s))[length (take 255 d) := NUL])
      = takeWhile (\<lambda>c. c \<noteq> NUL) (take 255 d)" for d
  proof -
    have l: "length (take 255 d) < length (req_buffer s)" using assms by (simp add: bcast_inv_def)
    have "takeWhile (\<lambda>c. c \<noteq> NUL) (x @ NUL # r) = takeWhile (\<lambda>c. c \<noteq> NUL) x" for x r
      by (induction x) auto
    then show ?thesis by (simp only: blit_put_end [OF l])
  qed
  then show ?thesis by (simp add: request_buffer_def split: stream_answer.split)
qed

lemma chat_turn:
  assumes "quiet_inv s" "chat_event e"
  shows "bcast_turn fs fp0 s e =
    Inr (s\<lparr>req_buffer := request_buffer s (from_peer e)\<rparr>,
         recv_log (from_peer e) @ [Printed (takeWhile (\<lambda>c. c \<noteq> NUL) (request_buffer s (from_peer e)))])
    \<and> quiet_inv (s\<lparr>req_buffer := request_buffer s (from_peer e)\<rparr>)"
proof -
  have inv: "bcast_inv s" and a: "0 \<le> accepted e"
    using assms by (simp_all add: quiet_inv_def chat_event_def)
  have none: "str_find ''getfile'' (takeWhile (\<lambda>c. c \<noteq> NUL) (request_buffer s (from_peer e))) = None"
    unfolding request_text [OF inv]
    using assms by (auto simp: quiet_inv_def chat_event_def split: stream_answer.splits)
  then have "quiet_inv (s\<lparr>req_buffer := request_buffer s (from_peer e)\<rparr>)"
    using request_buffer_inv [OF inv, of "from_peer e"] by (simp add: quiet_inv_def bcast_inv_def)
  moreover have "\<not> str_find ''getfile'' (takeWhile (\<lambda>c. c \<noteq> NUL) (request_buffer s (from_peer e))) \<noteq> None"
    using none by simp
  ultimately show ?thesis
    unfolding bcast_turn_received [OF inv a] Let_def by (simp only: if_False simp_thms)
qed

interpretation chat: safe_machine "bcast_turn fs fp0" quiet_inv chat_event
  by unfold_locales (use chat_turn in blast)

section \<open>Properties\<close>

text \<open>
  C38. Safety of the name buffer: a well-formed request for the name \<open>p\<close> runs without an
  access outside the arrays exactly when \<open>p\<close> has 1 to 58 characters. A longer name overflows
  the 60-byte array \<open>fpath\<close>, and an empty one makes the unsigned length wrap around.
\<close>

theorem getfile_in_bounds_iff:
  assumes "bcast_inv s" "length fp0 = 60" "0 \<le> accepted e"
    and "from_peer e = Data (get_request p)" "NUL \<notin> set p" "length p \<le> 245"
  shows "bcast_turn fs fp0 s e \<noteq> Inl OutOfBounds \<longleftrightarrow> 1 \<le> length p \<and> length p \<le> 58"
proof -
  let ?b = "get_request p @ NUL # drop (length p + 11) (req_buffer s)"
  let ?n = "int (length p + 10)"
  have "request_buffer s (Data (get_request p)) = ?b"
    by (rule request_buffer_get) (use assms in simp_all)
  then have b: "length ?b = 256" "?b ! 255 = NUL"
    using request_buffer_inv [OF assms(1), of "Data (get_request p)"] by simp_all
  note turn = bcast_turn_get [OF assms(1,3,4,5,6), of fs fp0]
  consider "p = []" | "59 \<le> length p" | "1 \<le> length p" "length p \<le> 58"
    by (cases p) fastforce+
  then show ?thesis
  proof cases
    case 1
    then have "path_of fp0 ?b ?n 1 = Inl OutOfBounds"
      by (intro path_of_wraps [OF b assms(2)]) simp_all
    with 1 turn show ?thesis by simp
  next
    case 2
    with path_of_too_long [OF assms(2,5)] turn show ?thesis by simp
  next
    case 3
    then have "path_of fp0 ?b ?n 1 = Inr (tl p)" by (intro path_of_get assms)
    then have "bcast_turn fs fp0 s e = bind_out (serve_file fs (tl p) ?b (answers e))
        (\<lambda>(b', o2). Inr (s\<lparr>req_buffer := b'\<rparr>, ReceivedBytes (length p + 10) # o2))"
      using turn by simp
    with 3 serve_file_safe [OF b, of fs "tl p" "answers e"] show ?thesis
      by (cases "serve_file fs (tl p) ?b (answers e)") auto
  qed
qed

definition demo_bcast :: bcast_server where
  "demo_bcast = \<lparr>req_buffer = replicate 256 NUL, listens_on = \<lparr>sin_port = htons 7777, sin_addr = 0\<rparr>\<rparr>"

lemma demo_bcast_inv [simp]: "bcast_inv demo_bcast"
  by (simp add: demo_bcast_def bcast_inv_def)

definition demo_conn :: "stream_answer \<Rightarrow> send_answer list \<Rightarrow> conn_event" where
  "demo_conn d as = \<lparr>accepted = 5, from_peer = d, answers = as\<rparr>"

lemma demo_conn_simps [simp]:
  "accepted (demo_conn d as) = 5" "from_peer (demo_conn d as) = d" "answers (demo_conn d as) = as"
  by (simp_all add: demo_conn_def)

theorem getfile_in_bounds_iff_witness:
  "bcast_turn (\<lambda>_. None) (replicate 60 NUL) demo_bcast
     (demo_conn (Data (get_request (replicate 100 (CHR ''a'')))) []) = Inl OutOfBounds"
proof -
  have "NUL \<notin> set (replicate 100 (CHR ''a''))" by simp
  with getfile_in_bounds_iff [of demo_bcast "replicate 60 NUL"
      "demo_conn (Data (get_request (replicate 100 (CHR ''a'')))) []" "replicate 100 (CHR ''a'')" "\<lambda>_. None"]
  show ?thesis by simp
qed

text \<open>
  The server never opens the file that was asked for: for a request for a name of 1 to 58
  characters it looks up the name without its first character, and when that file is there
  and not empty it answers with the first line of that file, at most 254 bytes of it.
\<close>

theorem getfile_serves_tail:
  assumes "bcast_inv s" "length fp0 = 60" "0 \<le> accepted e"
    and "from_peer e = Data (get_request p)" "NUL \<notin> set p" "1 \<le> length p" "length p \<le> 58"
    and "fs (tl p) = Some content" "content \<noteq> []" "NUL \<notin> set content"
    and "completes (length (first_line 255 content)) (answers e)"
  shows "\<exists>s'. bcast_turn fs fp0 s e = Inr (s',
      [ReceivedBytes (length p + 10), FileOpened (tl p), Delivered (first_line 255 content)])
      \<and> bcast_inv s'"
  using assms by (rule getfile_turn)

theorem getfile_serves_tail_witness:
  "\<exists>s'. bcast_turn [''.txt'' \<mapsto> ''one'' @ [LF] @ ''two''] (replicate 60 NUL) demo_bcast
      (demo_conn (Data (get_request ''a.txt'')) [Accepted 4])
    = Inr (s', [ReceivedBytes 15, FileOpened ''.txt'', Delivered (''one'' @ [LF])])"
  using getfile_serves_tail [of demo_bcast "replicate 60 NUL"
      "demo_conn (Data (get_request ''a.txt'')) [Accepted 4]" "''a.txt''"
      "[''.txt'' \<mapsto> ''one'' @ [LF] @ ''two'']" "''one'' @ [LF] @ ''two''"]
  by (auto simp: first_line_def)

text \<open>
  The request buffer outlives its request: when a requested file is missing, the next
  client that connects and closes without sending a byte makes the server read the old
  request again, with a received length of 0, and write outside the array \<open>fpath\<close>.
\<close>

theorem stale_request_faults:
  assumes "bcast_inv s" "length fp0 = 60" "0 \<le> accepted e" "0 \<le> accepted e2"
    and "from_peer e = Data (get_request p)" "NUL \<notin> set p" "1 \<le> length p" "length p \<le> 58"
    and "fs (tl p) = None"
    and "send_request not_found_text (answers e) = Some (True, d1, as1)"
    and "send_request (get_request p) as1 = Some (True, d2, as2)"
    and "from_peer e2 = Data [] \<or> from_peer e2 = StreamError"
  shows "run (bcast_turn fs fp0) s [e, e2] = Inl OutOfBounds"
proof -
  let ?b = "get_request p @ NUL # drop (length p + 11) (req_buffer s)"
  let ?s = "s\<lparr>req_buffer := ?b\<rparr>"
  have no_nul: "NUL \<notin> set (get_request p)" using assms(6) by (simp add: get_request_def)
  have "length p \<le> 245" using assms(8) by simp
  note turn = bcast_turn_get [OF assms(1,3,5,6) this, of fs fp0]
  have "path_of fp0 ?b (int (length p + 10)) 1 = Inr (tl p)" by (intro path_of_get assms)
  with turn assms(9,10,11) obtain os where first: "bcast_turn fs fp0 s e = Inr (?s, os)"
    by (simp add: serve_file_def reply_with_def c_str_append [OF no_nul])
  have inv: "bcast_inv ?s" using bcast_turn_inv [OF assms(1) first] .
  have same: "request_buffer ?s (from_peer e2) = ?b" and len: "stream_len (from_peer e2) 255 \<in> {-1, 0}"
    using assms(12) by (auto simp: request_buffer_def stream_len_def)
  have "path_of fp0 ?b (stream_len (from_peer e2) 255) 1 = Inl OutOfBounds"
    using inv len assms(2) by (intro path_of_wraps) (auto simp: bcast_inv_def)
  moreover have "str_find ''getfile'' (get_request p) \<noteq> None" by (simp add: find_in_request)
  ultimately have "bcast_turn fs fp0 ?s e2 = Inl OutOfBounds"
    unfolding bcast_turn_received [OF inv assms(4)] Let_def same takeWhile_NUL_append [OF no_nul]
    by simp
  with first show ?thesis by (simp add: run.simps(2))
qed

theorem stale_request_faults_witness:
  "run (bcast_turn (\<lambda>_. None) (replicate 60 NUL)) demo_bcast
     [demo_conn (Data (get_request ''a'')) [Accepted 17, Accepted 11], demo_conn (Data []) []]
   = Inl OutOfBounds"
proof -
  have 1: "send_request not_found_text [Accepted 17, Accepted 11]
      = Some (True, not_found_text, [Accepted 11])"
    using send_from_accepted [of not_found_text 17 0 "[Accepted 11]"]
    by (simp add: send_request_def not_found_text_def del: send_from.simps)
  have 2: "send_request (get_request ''a'') [Accepted 11] = Some (True, get_request ''a'', [])"
    using send_from_accepted [of "get_request ''a''" 11 0 "[]"]
    by (simp add: send_request_def get_request_def del: send_from.simps)
  show ?thesis
    using stale_request_faults [of demo_bcast "replicate 60 NUL"
        "demo_conn (Data (get_request ''a'')) [Accepted 17, Accepted 11]" "demo_conn (Data []) []" "''a''"
        "\<lambda>_. None", OF _ _ _ _ _ _ _ _ _ _ 2] 1 by simp
qed

lemma chat_turn_outs:
  "quiet_inv s \<Longrightarrow> chat_event e \<Longrightarrow> bcast_turn fs fp0 s e = Inr (s', os) \<Longrightarrow> Delivered m \<notin> set os"
  using chat_turn [of s e fs fp0] by (auto simp: recv_log_def split: if_splits)

lemma chat_run_outs:
  "quiet_inv s \<Longrightarrow> list_all chat_event es \<Longrightarrow> run (bcast_turn fs fp0) s es = Inr (s', os) \<Longrightarrow>
     Delivered m \<notin> set os"
proof (induction es arbitrary: s os)
  case (Cons e es)
  then obtain s1 o1 o2 where 1: "bcast_turn fs fp0 s e = Inr (s1, o1)"
      "run (bcast_turn fs fp0) s1 es = Inr (s', o2)" "os = o1 @ o2"
    by auto
  with Cons.prems have "quiet_inv s1" using chat.keeps [of s e fs fp0 s1 o1] by simp
  with 1 Cons chat_turn_outs [of s e fs fp0 s1 o1 m] show ?case by simp
qed simp

text \<open>
  Traffic that never holds the word \<open>getfile\<close> is safe: over any sequence of such
  messages, closed connections and receive errors, from a buffer that does not hold the word
  either, the server never faults and sends nothing.
\<close>

theorem chat_traffic_safe:
  assumes "quiet_inv s" "list_all chat_event es"
  shows "\<exists>s' os. run (bcast_turn fs fp0) s es = Inr (s', os) \<and> quiet_inv s' \<and> (\<forall>m. Delivered m \<notin> set os)"
proof -
  from chat.run_safe [OF assms, of fs fp0] obtain s' os
    where "run (bcast_turn fs fp0) s es = Inr (s', os)" "quiet_inv s'" by blast
  with chat_run_outs [OF assms] show ?thesis by blast
qed

theorem chat_traffic_safe_witness:
  "\<exists>s' os. run (bcast_turn (\<lambda>_. None) (replicate 60 NUL)) demo_bcast
     [demo_conn (Data ''hello'') [], demo_conn StreamError []] = Inr (s', os)
     \<and> (\<forall>m. Delivered m \<notin> set os)"
proof -
  have "quiet_inv demo_bcast" by (simp add: quiet_inv_def) (simp add: demo_bcast_def)
  moreover have "list_all chat_event [demo_conn (Data ''hello'') [], demo_conn StreamError []]"
    by (simp add: chat_event_def)
  ultimately show ?thesis using chat_traffic_safe by blast
qed

end
