(* ===== verification/Transceiver.thy ===== *)
theory Transceiver
  imports SendLoop
begin

text \<open>
  The class \<open>Transceiver\<close> of \<open>lesson4/mt_server/main.cpp\<close>: sending a buffer, sending a
  file in blocks of \<open>buffer_size\<close>, and reading a request. The answers of \<open>send\<close> are those
  of \<open>SendLoop\<close>; a file is \<open>None\<close> when the stream cannot be opened, else its bytes.
\<close>

section \<open>Sending a buffer\<close>

definition need_to_repeat :: "errno \<Rightarrow> bool" where
  "need_to_repeat e \<longleftrightarrow> e = EINTR \<or> e = EAGAIN"

text \<open>The loop of \<open>send_buffer\<close>, at \<open>transmit_bytes_count\<close>.\<close>

fun send_buffer_from :: "string \<Rightarrow> nat \<Rightarrow> send_answer list \<Rightarrow> send_answer sent" where
  "send_buffer_from buf n as =
     (if n = length buf then Some (True, [], as)
      else case as of
        [] \<Rightarrow> None
      | SendFailed e # as' \<Rightarrow>
          (if need_to_repeat e then send_buffer_from buf n as' else Some (False, [], as'))
      | Accepted k # as' \<Rightarrow>
          (case send_buffer_from buf (n + k) as' of
             None \<Rightarrow> None
           | Some (b, d, as'') \<Rightarrow> Some (b, take k (drop n buf) @ d, as'')))"

declare send_buffer_from.simps [simp del]

definition send_buffer :: "string \<Rightarrow> send_answer list \<Rightarrow> send_answer sent" where
  "send_buffer buf as = send_buffer_from buf 0 as"

lemma send_buffer_from_Nil:
  "send_buffer_from buf n [] = (if n = length buf then Some (True, [], []) else None)"
  by (subst send_buffer_from.simps) simp

lemma send_buffer_from_done [simp]:
  "send_buffer_from buf (length buf) as = Some (True, [], as)"
  by (subst send_buffer_from.simps) simp

lemma send_buffer_from_step:
  "n \<noteq> length buf \<Longrightarrow> send_buffer_from buf n (a # as) =
     (case a of
        SendFailed e \<Rightarrow> if need_to_repeat e then send_buffer_from buf n as else Some (False, [], as)
      | Accepted k \<Rightarrow>
          (case send_buffer_from buf (n + k) as of
             None \<Rightarrow> None
           | Some (b, d, as') \<Rightarrow> Some (b, take k (drop n buf) @ d, as')))"
  by (subst send_buffer_from.simps) simp

lemma send_buffer_from_past_end:
  "length buf < n \<Longrightarrow> send_buffer_from buf n as = Some (b, d, as') \<Longrightarrow> b = False \<and> d = []"
proof (induction as arbitrary: n b d)
  case Nil
  then show ?case by (simp add: send_buffer_from_Nil split: if_splits)
next
  case (Cons a as)
  have later: "send_buffer_from buf m as = Some (c, d', as') \<Longrightarrow> \<not> c \<and> d' = []"
    if "length buf < m" for m c d'
    using Cons.IH [OF that, of c d'] by simp
  show ?case
  proof (cases a)
    case (SendFailed e)
    with Cons.prems later [OF Cons.prems(1), of b d] show ?thesis
      by (auto simp: send_buffer_from_step split: if_splits)
  next
    case (Accepted k)
    with Cons.prems obtain d' where "send_buffer_from buf (n + k) as = Some (b, d', as')"
        "d = take k (drop n buf) @ d'"
      by (auto simp: send_buffer_from_step split: option.splits)
    with later [of "n + k" b d'] Cons.prems(1) show ?thesis by simp
  qed
qed

lemma send_buffer_from_result:
  "n \<le> length buf \<Longrightarrow> send_buffer_from buf n as = Some (b, d, as') \<Longrightarrow>
     (b \<longrightarrow> d = drop n buf) \<and> (\<exists>r. drop n buf = d @ r)"
proof (induction as arbitrary: n b d)
  case Nil
  then show ?case by (auto simp: send_buffer_from_Nil split: if_splits)
next
  case (Cons a as)
  show ?case
  proof (cases "n = length buf")
    case True
    with Cons.prems show ?thesis by auto
  next
    case False
    show ?thesis
    proof (cases a)
      case (SendFailed e)
      with Cons False show ?thesis by (auto simp: send_buffer_from_step split: if_splits)
    next
      case (Accepted k)
      with Cons.prems False obtain d' where
          rest: "send_buffer_from buf (n + k) as = Some (b, d', as')"
          and d: "d = take k (drop n buf) @ d'"
        by (auto simp: send_buffer_from_step split: option.splits)
      have split: "drop n buf = take k (drop n buf) @ drop (n + k) buf"
        by (metis append_take_drop_id drop_drop add.commute)
      show ?thesis
      proof (cases "n + k \<le> length buf")
        case True
        with Cons.IH [OF True rest] obtain r where "b \<longrightarrow> d' = drop (n + k) buf"
            "drop (n + k) buf = d' @ r"
          by blast
        with d split show ?thesis by (metis append_assoc)
      next
        case False
        with send_buffer_from_past_end [OF _ rest] have "\<not> b" "d' = []" by simp_all
        with d split show ?thesis by (metis append_Nil2)
      qed
    qed
  qed
qed

interpretation tsr: reliable_sender send_buffer
proof unfold_locales
  fix m as d as'
  assume "send_buffer m as = Some (True, d, as')"
  then show "d = m" using send_buffer_from_result [of 0 m as True d as'] by (simp add: send_buffer_def)
next
  fix m as d as'
  assume "send_buffer m as = Some (False, d, as')"
  then show "\<exists>r. m = d @ r"
    using send_buffer_from_result [of 0 m as False d as'] by (simp add: send_buffer_def)
qed

text \<open>It reports failure only after an error that is not repeated.\<close>

lemma send_buffer_from_failure:
  "send_buffer_from buf n as = Some (False, d, rest) \<Longrightarrow> \<exists>e. SendFailed e \<in> set as \<and> \<not> need_to_repeat e"
proof (induction as arbitrary: n d)
  case Nil
  then show ?case by (simp add: send_buffer_from_Nil split: if_splits)
next
  case (Cons a as)
  then have "n \<noteq> length buf" by auto
  with Cons show ?case
    by (fastforce simp: send_buffer_from_step split: send_answer.splits if_splits option.splits)
qed

text \<open>With answers that accept everything in the end, it returns success.\<close>

fun retried :: "send_answer \<Rightarrow> bool" where
  "retried (SendFailed e) = need_to_repeat e"
| "retried (Accepted k) = False"

lemma send_buffer_from_completes:
  "n \<le> length buf \<Longrightarrow> completes (length buf - n) (filter (\<lambda>a. \<not> retried a) as) \<Longrightarrow>
     \<exists>rest. send_buffer_from buf n as = Some (True, drop n buf, rest)"
proof (induction as arbitrary: n)
  case Nil
  then show ?case by simp
next
  case (Cons a as)
  show ?case
  proof (cases a)
    case (SendFailed e)
    with Cons show ?thesis
      by (cases "n = length buf") (auto simp: send_buffer_from_step split: if_splits)
  next
    case (Accepted k)
    with Cons.prems have k: "0 < k" "k \<le> length buf - n" by simp_all
    then have n: "n \<noteq> length buf" by auto
    have split: "take k (drop n buf) @ drop (n + k) buf = drop n buf"
      by (metis append_take_drop_id drop_drop add.commute)
    have "\<exists>rest. send_buffer_from buf (n + k) as = Some (True, drop (n + k) buf, rest)"
    proof (cases "n + k = length buf")
      case True
      then show ?thesis by (metis drop_all order_refl send_buffer_from_done)
    next
      case False
      with Cons.prems Accepted k have "completes (length buf - (n + k)) (filter (\<lambda>a. \<not> retried a) as)"
        by auto
      then show ?thesis using Cons.IH [of "n + k"] k Cons.prems(1) by simp
    qed
    then show ?thesis using Accepted n split by (auto simp: send_buffer_from_step)
  qed
qed

section \<open>Sending a file\<close>

abbreviation block_size :: nat where "block_size \<equiv> 4096"

text \<open>
  \<open>ifstream::read(&buffer[0], n)\<close> stores at most \<open>n\<close> bytes over the front of the buffer and
  sets the end-of-file and fail bits when fewer were left. The buffer is all zeros before
  every call. The loop for large files runs until the end-of-file bit is set.
\<close>

function send_blocks :: "string \<Rightarrow> send_answer list \<Rightarrow> send_answer sent" where
  "send_blocks rest as =
     (let got = take block_size rest;
          buf = blit got (replicate block_size NUL)
      in case send_buffer buf as of
           None \<Rightarrow> None
         | Some (False, d, as') \<Rightarrow> Some (False, d, as')
         | Some (True, d, as') \<Rightarrow>
             if length got < block_size then Some (True, d, as')
             else (case send_blocks (drop block_size rest) as' of
                     None \<Rightarrow> None
                   | Some (b, d', as'') \<Rightarrow> Some (b, d @ d', as'')))"
  by pat_completeness auto
termination
  by (relation "measure (\<lambda>(rest, as). length rest)") (auto simp: min_def split: if_splits)

declare send_blocks.simps [simp del]

text \<open>
  The branch for a file that fits one buffer: the stream is still at its end, where the size
  was taken, so the only read of the loop gets no byte and clears the stream's state.
\<close>

definition send_small :: "string \<Rightarrow> send_answer list \<Rightarrow> send_answer sent" where
  "send_small content as =
     (let rest = drop (length content) content;
          got = take block_size rest
      in send_each send_buffer [blit got (replicate block_size NUL)] as)"

definition tsr_send_file :: "string option \<Rightarrow> send_answer list \<Rightarrow> send_answer sent" where
  "tsr_send_file file as =
     (case file of
        None \<Rightarrow> Some (False, [], as)
      | Some content \<Rightarrow>
          if length content > block_size then send_blocks content as else send_small content as)"

text \<open>The blocks that go out, as one list.\<close>

function blocks :: "string \<Rightarrow> string list" where
  "blocks rest =
     (if length rest < block_size then [rest @ replicate (block_size - length rest) NUL]
      else take block_size rest # blocks (drop block_size rest))"
  by pat_completeness auto
termination by (relation "measure length") auto

declare blocks.simps [simp del]

lemma send_blocks_each: "send_blocks rest as = send_each send_buffer (blocks rest) as"
proof (induction rest as rule: send_blocks.induct)
  case (1 rest as)
  show ?case
  proof (cases "length rest < block_size")
    case True
    then show ?thesis
      by (subst send_blocks.simps, subst blocks.simps)
        (auto simp: blit_def Let_def split: option.splits bool.splits prod.splits)
  next
    case False
    have b: "blit (take block_size rest) (replicate block_size NUL) = take block_size rest"
      using False by (simp add: blit_def)
    have IH: "send_buffer (take block_size rest) as = Some (True, d, as') \<Longrightarrow>
        send_blocks (drop block_size rest) as' = send_each send_buffer (blocks (drop block_size rest)) as'"
      for d as'
      using 1 [OF refl b [symmetric], of "(True, d, as')" True "(d, as')" d as'] False by simp
    show ?thesis
      using False IH
      by (subst send_blocks.simps, subst blocks.simps)
        (auto simp: b Let_def split: option.splits bool.splits prod.splits)
  qed
qed

lemma concat_blocks:
  "concat (blocks rest) = rest @ replicate (block_size - length rest mod block_size) NUL"
proof (induction rest rule: blocks.induct)
  case (1 rest)
  show ?case
  proof (cases "length rest < block_size")
    case True
    then show ?thesis by (subst blocks.simps) simp
  next
    case False
    with 1 have "concat (blocks (drop block_size rest)) = drop block_size rest
        @ replicate (block_size - (length rest - block_size) mod block_size) NUL"
      by simp
    moreover have "(length rest - block_size) mod block_size = length rest mod block_size"
      using False by (simp add: le_mod_geq)
    ultimately show ?thesis
      using False by (subst blocks.simps) simp
  qed
qed

section \<open>Reading a request\<close>

datatype recv_result = Bytes string | RecvFailed errno

definition is_eol :: "char \<Rightarrow> bool" where
  "is_eol c \<longleftrightarrow> c = LF \<or> c = CR"

text \<open>
  The loop of \<open>get_request\<close>. \<open>buffer\<close> has \<open>MAX_PATH + 1 = 257\<close> places, \<open>n\<close> is
  \<open>recv_bytes\<close>. \<open>recv\<close> is asked for \<open>256 - n\<close> bytes. \<open>find_if\<close> searches the received
  fragment, and its result is compared with \<open>buffer.end()\<close>, the end of the array, not with
  the end of the fragment.
\<close>

fun get_request_from :: "string \<Rightarrow> nat \<Rightarrow> recv_result list \<Rightarrow> (string \<times> nat \<times> recv_result list) outcome" where
  "get_request_from buffer n [] = Inl Blocked"
| "get_request_from buffer n (RecvFailed e # rs) =
     (if need_to_repeat e then get_request_from buffer n rs
      else Inl (Uncaught ''Socket reading error''))"
| "get_request_from buffer n (Bytes d # rs) =
     (let size = length buffer - 1;
          frag = take (size - n) d
      in if frag = [] then Inr (buffer, n, rs)
         else let buffer1 = take n buffer @ blit frag (drop n buffer);
                  ret = n + length (takeWhile (\<lambda>c. \<not> is_eol c) frag)
              in if ret \<noteq> length buffer1
                 then bind_out (put_at ret NUL buffer1) (\<lambda>buffer2. Inr (buffer2, ret, rs))
                 else let n' = n + length frag
                      in if size = n' then Inr (buffer1, n', rs) else get_request_from buffer1 n' rs)"

definition tsr_get_request :: "string \<Rightarrow> recv_result list \<Rightarrow> (string \<times> recv_result list) outcome" where
  "tsr_get_request buf0 rs =
     bind_out (get_request_from buf0 0 rs) (\<lambda>(buffer, n, rs').
     bind_out (put_at n NUL buffer) (\<lambda>buffer'. Inr (take n buffer', rs')))"

lemma length_takeWhile_eol: "length (takeWhile (\<lambda>c. \<not> is_eol c) (take k d)) \<le> k"
  using length_takeWhile_le [of "\<lambda>c. \<not> is_eol c" "take k d"] by simp

lemma takeWhile_is_take: "takeWhile P xs = take (length (takeWhile P xs)) xs"
  by (metis takeWhile_eq_take)

lemma tsr_get_request_bytes:
  assumes "length buf0 = 257" "d \<noteq> []"
  shows "tsr_get_request buf0 (Bytes d # rs) = Inr (takeWhile (\<lambda>c. \<not> is_eol c) (take 256 d), rs)"
proof -
  let ?f = "take 256 d"
  let ?k = "length (takeWhile (\<lambda>c. \<not> is_eol c) ?f)"
  have k: "?k \<le> length ?f" "?k \<le> 256"
    using length_takeWhile_le [of "\<lambda>c. \<not> is_eol c" ?f] length_takeWhile_eol [of 256 d] by simp_all
  have len: "length (blit ?f buf0) = 257" using assms(1) by simp
  have "take ?k (blit ?f buf0) = takeWhile (\<lambda>c. \<not> is_eol c) ?f"
    using k(1) takeWhile_is_take [of "\<lambda>c. \<not> is_eol c" ?f] by (simp add: blit_def)
  moreover have "?f \<noteq> []" using assms(2) by simp
  moreover have "get_request_from buf0 0 (Bytes d # rs) = Inr ((blit ?f buf0)[?k := NUL], ?k, rs)"
    using assms k(2) len calculation(2) by (simp add: Let_def put_at_ok)
  ultimately show ?thesis
    using k(2) len by (simp add: tsr_get_request_def put_at_ok)
qed

lemma tsr_get_request_other:
  assumes "length buf0 = 257"
  shows "tsr_get_request buf0 [] = Inl Blocked"
    and "tsr_get_request buf0 (Bytes [] # rs) = Inr ([], rs)"
    and "tsr_get_request buf0 (RecvFailed e # rs) =
      (if need_to_repeat e then tsr_get_request buf0 rs else Inl (Uncaught ''Socket reading error''))"
  using assms by (auto simp: tsr_get_request_def put_at_ok)

lemma send_buffer_whole: "length m = k \<Longrightarrow> 0 < k \<Longrightarrow> send_buffer m (Accepted k # as) = Some (True, m, as)"
  by (auto simp: send_buffer_def send_buffer_from_step)

lemma send_file_one_more:
  assumes "length c = 4097"
  shows "\<exists>d. tsr_send_file (Some c) [Accepted 4096, Accepted 4096] = Some (True, d, [])"
proof -
  have "blocks c = [take 4096 c, drop 4096 c @ replicate 4095 NUL]"
    using assms by (subst blocks.simps, subst blocks.simps) simp
  then show ?thesis
    using assms by (simp add: tsr_send_file_def send_blocks_each send_buffer_whole)
qed

section \<open>Properties\<close>

text \<open>
  C27. \<open>send_buffer\<close> is a correct sender. Whatever its calls answer, what the peer receives is a
  beginning of the buffer; when it reports success the peer has received exactly the buffer,
  and it reports failure only after a call that failed with an error it does not repeat. It
  repeats interrupted calls, so it reports success whenever the calls that are not repeated
  accept the buffer in the end.
\<close>

theorem send_buffer_delivers:
  "(\<forall>b d rest. send_buffer buf as = Some (b, d, rest) \<longrightarrow>
      (\<exists>r. buf = d @ r) \<and> (b \<longrightarrow> d = buf) \<and> (\<not> b \<longrightarrow> (\<exists>e. SendFailed e \<in> set as \<and> \<not> need_to_repeat e)))
   \<and> (completes (length buf) (filter (\<lambda>a. \<not> retried a) as)
        \<longrightarrow> (\<exists>rest. send_buffer buf as = Some (True, buf, rest)))"
  using send_buffer_from_result [of 0 buf as] send_buffer_from_failure [of buf 0 as]
    send_buffer_from_completes [of 0 buf as]
  unfolding send_buffer_def by auto

theorem send_buffer_delivers_witness:
  "(\<exists>rest. send_buffer ''abc'' [SendFailed EINTR, Accepted 1, SendFailed EAGAIN, Accepted 2] = Some (True, ''abc'', rest))
   \<and> (\<exists>r. ''abc'' = ''a'' @ r) \<and> \<not> need_to_repeat OtherError"
proof -
  have "send_buffer ''abc'' [Accepted 1, SendFailed OtherError] = Some (False, ''a'', [])"
    by (simp add: send_buffer_def send_buffer_from_step need_to_repeat_def)
  then show ?thesis
    using send_buffer_delivers [of "''abc''" "[Accepted 1, SendFailed OtherError]"]
      send_buffer_delivers [of "''abc''" "[SendFailed EINTR, Accepted 1, SendFailed EAGAIN, Accepted 2]"]
    by (simp add: need_to_repeat_def)
qed

text \<open>
  A large file arrives whole and padded: when \<open>send_file\<close> reports success for a
  file of more than 4096 bytes, the peer has received the bytes of the file and then zeros up
  to the next multiple of 4096, a whole extra block when the size is a multiple; when it
  reports failure the peer has received a beginning of that.
\<close>

theorem send_file_large:
  assumes "length content > 4096" "tsr_send_file (Some content) as = Some (b, d, as')"
  shows "\<exists>r. content @ replicate (4096 - length content mod 4096) NUL = d @ r \<and> (b \<longrightarrow> r = [])"
proof -
  have sent: "send_each send_buffer (blocks content) as = Some (b, d, as')"
    using assms by (simp add: tsr_send_file_def send_blocks_each)
  show ?thesis
  proof (cases b)
    case True
    with sent have "d = concat (blocks content)" by (intro tsr.each_success) simp
    then show ?thesis by (intro exI [of _ "[]"]) (simp add: concat_blocks)
  next
    case False
    from tsr.each_prefix [OF sent] obtain r where "concat (blocks content) = d @ r" ..
    with False show ?thesis by (intro exI [of _ r]) (simp add: concat_blocks)
  qed
qed

theorem send_file_large_witness:
  "\<exists>d r. tsr_send_file (Some (replicate 4097 (CHR ''a''))) [Accepted 4096, Accepted 4096] = Some (True, d, [])
     \<and> replicate 4097 (CHR ''a'') @ replicate (4096 - 4097 mod 4096) NUL = d @ r \<and> r = []"
proof -
  define c where "c = replicate 4097 (CHR ''a'')"
  have len: "length c = 4097" by (simp add: c_def)
  from send_file_one_more [OF len] obtain d where
    r: "tsr_send_file (Some c) [Accepted 4096, Accepted 4096] = Some (True, d, [])" by blast
  have "length c > 4096" by (simp add: len)
  from send_file_large [OF this r] r show ?thesis unfolding len c_def [symmetric] by auto
qed

text \<open>
  A file that fits one block is never sent: when \<open>send_file\<close> reports success for a file
  of at most 4096 bytes, the peer has received 4096 zeros, whatever the file holds, because
  the stream was left at its end when the size was taken.
\<close>

theorem send_file_small_sends_zeros:
  assumes "length content \<le> 4096" "tsr_send_file (Some content) as = Some (True, d, as')"
  shows "d = replicate 4096 NUL"
proof -
  have "send_each send_buffer [replicate 4096 NUL] as = Some (True, d, as')"
    using assms by (simp add: tsr_send_file_def send_small_def blit_def del: send_each.simps)
  from tsr.each_success [OF this] show ?thesis by simp
qed

theorem send_file_small_sends_zeros_witness:
  "tsr_send_file (Some ''secret'') [Accepted 4096] = Some (True, replicate 4096 NUL, [])"
proof -
  have "send_buffer (replicate 4096 NUL) [Accepted 4096] = Some (True, replicate 4096 NUL, [])"
    by (simp add: send_buffer_def send_buffer_from_step send_buffer_from_Nil)
  then have "tsr_send_file (Some ''secret'') [Accepted 4096] = Some (True, replicate 4096 NUL, [])"
    by (simp add: tsr_send_file_def send_small_def blit_def)
  with send_file_small_sends_zeros [OF _ this] show ?thesis by simp
qed

fun request_spec :: "recv_result list \<Rightarrow> (string \<times> recv_result list) outcome" where
  "request_spec [] = Inl Blocked"
| "request_spec (RecvFailed e # rs) =
     (if e = EINTR \<or> e = EAGAIN then request_spec rs else Inl (Uncaught ''Socket reading error''))"
| "request_spec (Bytes d # rs) = Inr (takeWhile (\<lambda>c. c \<noteq> LF \<and> c \<noteq> CR) (take 256 d), rs)"

text \<open>
  What \<open>get_request\<close> returns: interrupted reads are repeated, any other error is an
  exception, a closed connection gives the empty request, and the first fragment that
  arrives gives its first line (at most 256 bytes of it) and ends the reading, even when the
  fragment holds no end of line. In no case is the array left.
\<close>

theorem get_request_first_fragment:
  assumes "length buf0 = 257"
  shows "tsr_get_request buf0 rs = request_spec rs"
proof (induction rs rule: request_spec.induct)
  case (3 d rs)
  then show ?case
    using tsr_get_request_bytes [OF assms, of d rs] tsr_get_request_other [OF assms]
    by (cases "d = []") (simp_all add: is_eol_def)
qed (simp_all add: tsr_get_request_other [OF assms] need_to_repeat_def)

theorem get_request_first_fragment_witness:
  "tsr_get_request (replicate 257 NUL) [RecvFailed EINTR, Bytes ''dir/na'', Bytes (''me.txt'' @ [CR, LF])]
     = Inr (''dir/na'', [Bytes (''me.txt'' @ [CR, LF])])"
  by (subst get_request_first_fragment) simp_all

end
