(* ===== verification/MtServer.thy ===== *)
theory MtServer
  imports Transceiver UdpServer "HOL-Library.Multiset"
begin

text \<open>
  The multi-threaded file server of \<open>lesson4/mt_server/main.cpp\<close> around \<open>Transceiver\<close>:
  what a client's thread does with one request (\<open>Client\<close>), the start of \<open>main\<close>, and
  its loop, which accepts a client, starts an asynchronous task for it and then goes through
  the list of tasks and removes the finished ones. Threads are seen as the loop sees them:
  an event says which futures are ready when they are polled and with what result.
\<close>

section \<open>A client's task\<close>

text \<open>
  The file system calls are parameters: the current directory, \<open>fs::weakly_canonical\<close>, the
  two tests of \<open>send_file\<close>, and what opening the path gives. \<open>separ\<close> is the separator the
  code reads through a cast pointer.
\<close>

record file_system =
  current_path :: string
  weakly_canonical :: "string \<Rightarrow> string"
  fs_exists :: "string \<Rightarrow> bool"
  is_regular_file :: "string \<Rightarrow> bool"
  open_file :: "string \<Rightarrow> string option"

definition file_path_of :: "file_system \<Rightarrow> char \<Rightarrow> string \<Rightarrow> string" where
  "file_path_of fs separ request =
     (let cur_path = current_path fs;
          file_path = weakly_canonical fs request;
          file_path' = (if str_find cur_path file_path = Some 0
                        then drop (length cur_path) file_path else file_path)
      in weakly_canonical fs (cur_path @ [separ] @ file_path'))"

definition recv_file_path ::
    "file_system \<Rightarrow> char \<Rightarrow> string \<Rightarrow> recv_result list \<Rightarrow> string option outcome" where
  "recv_file_path fs separ buf0 rs =
     bind_out (tsr_get_request buf0 rs) (\<lambda>(request_data, rs').
       if length request_data = 0 then Inr None
       else Inr (Some (file_path_of fs separ request_data)))"

definition client_send_file :: "file_system \<Rightarrow> string \<Rightarrow> send_answer list \<Rightarrow> send_answer sent" where
  "client_send_file fs file_path as =
     (if \<not> (fs_exists fs file_path \<and> is_regular_file fs file_path) then Some (False, [], as)
      else tsr_send_file (open_file fs file_path) as)"

datatype process_out = TryingToSend string | FileSent string | FileSendingError string

text \<open>\<open>process\<close> returns its result and what it logs; the bytes the peer got are in the log.\<close>

definition client_process ::
    "file_system \<Rightarrow> char \<Rightarrow> string \<Rightarrow> recv_result list \<Rightarrow> send_answer list \<Rightarrow> (bool \<times> process_out list) outcome" where
  "client_process fs separ buf0 rs as =
     bind_out (recv_file_path fs separ buf0 rs) (\<lambda>file_to_send.
       case file_to_send of
         None \<Rightarrow> Inr (False, [])
       | Some path \<Rightarrow>
           (case client_send_file fs path as of
              None \<Rightarrow> Inl Blocked
            | Some (sent, d, as') \<Rightarrow>
                Inr (True, [TryingToSend path, if sent then FileSent d else FileSendingError d])))"

section \<open>Start of the server\<close>

definition get_serv_info :: "int \<Rightarrow> 'a \<Rightarrow> 'a option" where
  "get_serv_info ai_status s_i = (if ai_status \<noteq> 0 then None else Some s_i)"

definition set_reuse_addr :: "int \<Rightarrow> unit outcome" where
  "set_reuse_addr result = (if result < 0 then Inl (Uncaught ''Set SO_REUSEADDR error'') else Inr ())"

definition accept_client :: "int \<Rightarrow> bool \<Rightarrow> int outcome" where
  "accept_client client_sock addr_ok =
     (if client_sock = 0 then Inl (Uncaught ''Accepting client'')
      else if \<not> addr_ok then Inl (Uncaught ''assert'')
      else Inr client_sock)"

datatype exn = LogicError string | OtherException string

datatype task_result = Returned bool | Threw exn

text \<open>
  What the future of a task holds once the task is over; \<open>None\<close> while it still waits. The
  one exception of the modelled code is the \<open>std::logic_error\<close> of \<open>get_request\<close>.
\<close>

definition task_result :: "(bool \<times> process_out list) outcome \<Rightarrow> task_result option" where
  "task_result r =
     (case r of
        Inr (b, os) \<Rightarrow> Some (Returned b)
      | Inl (Uncaught m) \<Rightarrow> Some (Threw (LogicError m))
      | Inl Blocked \<Rightarrow> None
      | Inl f \<Rightarrow> Some (Threw (OtherException ''fault'')))"

record mt_server =
  pending :: "nat list"
  next_tid :: nat
  failed :: bool

datatype mt_out =
    Spawned nat int
  | Completed nat bool
  | ErrorMessage string
  | ServerClosed

definition mt_launch ::
    "string list \<Rightarrow> int \<Rightarrow> 'a \<Rightarrow> int \<Rightarrow> int \<Rightarrow> int \<Rightarrow> int \<Rightarrow> mt_server launch \<times> mt_out list" where
  "mt_launch args ai_status s_i server_sock reuse bound listening =
     (if length args \<noteq> 1 then (ExitFailure, [])
      else case get_serv_info ai_status s_i of
        None \<Rightarrow> (ExitFailure, [])
      | Some servinfo \<Rightarrow>
          if server_sock = 0 then (ExitFailure, [ErrorMessage ''Socket creation error''])
          else case set_reuse_addr reuse of
            Inl f \<Rightarrow> (ExitFailure, [ErrorMessage ''Set SO_REUSEADDR error''])
          | Inr _ \<Rightarrow>
              if bound < 0 then (ExitFailure, [ServerClosed, ErrorMessage ''Bind error''])
              else if listening < 0 then (ExitFailure, [ErrorMessage ''Listen error''])
              else (Started \<lparr>pending = [], next_tid = 0, failed = False\<rparr>, []))"

section \<open>The loop\<close>

record mt_event =
  client_sock :: int
  addr_len_ok :: bool
  ready :: "nat \<Rightarrow> task_result option"

text \<open>
  The cleaning pass: the list kept, what is printed, and the exception \<open>get\<close> rethrows, which
  leaves the pass at once with the failed task and those after it still in the list.
\<close>

fun clean_tasks :: "(nat \<Rightarrow> task_result option) \<Rightarrow> nat list \<Rightarrow> nat list \<times> mt_out list \<times> exn option" where
  "clean_tasks rdy [] = ([], [], None)"
| "clean_tasks rdy (t # ts) =
     (case rdy t of
        None \<Rightarrow> (let (l, os, x) = clean_tasks rdy ts in (t # l, os, x))
      | Some (Returned b) \<Rightarrow> (let (l, os, x) = clean_tasks rdy ts in (l, Completed t b # os, x))
      | Some (Threw x) \<Rightarrow> (t # ts, [], Some x))"

definition mt_turn :: "(mt_server, mt_event, mt_out) handler" where
  "mt_turn s e =
     (if failed s then Inr (s, [])
      else case accept_client (client_sock e) (addr_len_ok e) of
        Inl (Uncaught m) \<Rightarrow>
          (if m = ''assert'' then Inl (Uncaught m)
           else Inr (s\<lparr>failed := True\<rparr>, [ErrorMessage m]))
      | Inl f \<Rightarrow> Inl f
      | Inr fd \<Rightarrow>
          let t = next_tid s;
              (l, os, x) = clean_tasks (ready e) (pending s @ [t]);
              s1 = s\<lparr>pending := l, next_tid := Suc t\<rparr>
          in (case x of
                None \<Rightarrow> Inr (s1, Spawned t fd # os)
              | Some (LogicError m) \<Rightarrow>
                  Inr (s1\<lparr>failed := True\<rparr>, Spawned t fd # os @ [ErrorMessage m])
              | Some (OtherException m) \<Rightarrow> Inl (Uncaught m)))"

section \<open>Lemmas\<close>

fun spawned :: "mt_out list \<Rightarrow> nat list" where
  "spawned [] = []"
| "spawned (Spawned t fd # os) = t # spawned os"
| "spawned (_ # os) = spawned os"

fun completed :: "mt_out list \<Rightarrow> nat list" where
  "completed [] = []"
| "completed (Completed t b # os) = t # completed os"
| "completed (_ # os) = completed os"

lemma spawned_append [simp]: "spawned (os @ ps) = spawned os @ spawned ps"
  by (induction os rule: spawned.induct) auto

lemma completed_append [simp]: "completed (os @ ps) = completed os @ completed ps"
  by (induction os rule: completed.induct) auto

lemma clean_tasks_mset:
  "clean_tasks rdy ts = (l, os, x) \<Longrightarrow> mset ts = mset (completed os) + mset l \<and> spawned os = []"
  by (induction ts arbitrary: l os x)
    (auto split: option.splits task_result.splits prod.splits)

lemma clean_tasks_no_throw:
  "(\<And>t y. t \<in> set ts \<Longrightarrow> rdy t \<noteq> Some (Threw y)) \<Longrightarrow>
     clean_tasks rdy ts = (filter (\<lambda>t. rdy t = None) ts,
       concat (map (\<lambda>t. case rdy t of Some (Returned b) \<Rightarrow> [Completed t b] | _ \<Rightarrow> []) ts), None)"
  by (induction ts) (auto split: option.splits task_result.splits prod.splits)

lemma clean_tasks_throw:
  assumes "rdy t = Some (Threw x)" "\<And>u y. u \<noteq> t \<Longrightarrow> rdy u \<noteq> Some (Threw y)"
  shows "t \<in> set ts \<Longrightarrow> \<exists>l os. clean_tasks rdy ts = (l, os, Some x) \<and> t \<in> set l"
proof (induction ts)
  case (Cons u ts)
  show ?case
  proof (cases "u = t")
    case True
    with assms(1) show ?thesis by simp
  next
    case False
    with Cons.prems have "t \<in> set ts" by simp
    with Cons obtain l os where "clean_tasks rdy ts = (l, os, Some x)" "t \<in> set l" by blast
    with False assms(2) [of u] show ?thesis by (auto split: option.splits task_result.splits)
  qed
qed simp

definition mt_inv :: "mt_server \<Rightarrow> bool" where
  "mt_inv s \<longleftrightarrow> distinct (pending s) \<and> (\<forall>t \<in> set (pending s). t < next_tid s)"

lemma mt_turn_tasks:
  "mt_turn s e = Inr (s', os) \<Longrightarrow>
     mset (pending s) + mset (spawned os) = mset (completed os) + mset (pending s')
     \<and> spawned os = (if next_tid s' = next_tid s then [] else [next_tid s])
     \<and> next_tid s \<le> next_tid s' \<and> next_tid s' \<le> Suc (next_tid s)"
  by (auto simp: mt_turn_def Let_def dest: clean_tasks_mset
      split: if_splits sum.splits fault.splits option.splits exn.splits prod.splits)

lemma mt_run_tasks:
  "run mt_turn s es = Inr (s', os) \<Longrightarrow>
     mset (pending s) + mset (spawned os) = mset (completed os) + mset (pending s')
     \<and> spawned os = [next_tid s ..< next_tid s'] \<and> next_tid s \<le> next_tid s'"
proof (induction es arbitrary: s os)
  case Nil
  then show ?case by simp
next
  case (Cons e es)
  then obtain s1 o1 o2 where 1: "mt_turn s e = Inr (s1, o1)" "run mt_turn s1 es = Inr (s', o2)"
      and os: "os = o1 @ o2"
    by auto
  note a = mt_turn_tasks [OF 1(1)] and b = Cons.IH [OF 1(2)]
  have "spawned os = [next_tid s ..< next_tid s']"
  proof (cases "next_tid s1 = next_tid s")
    case True
    with a b os show ?thesis by simp
  next
    case False
    with a have n: "next_tid s1 = Suc (next_tid s)" by simp
    with a b os have "spawned os = next_tid s # [Suc (next_tid s) ..< next_tid s']" by simp
    also have "\<dots> = [next_tid s ..< next_tid s']" using b n by (subst upt_conv_Cons [of "next_tid s"]) simp_all
    finally show ?thesis .
  qed
  moreover have "mset (pending s) + mset (spawned os) = mset (completed os) + mset (pending s')"
  proof -
    have a1: "mset (pending s) + mset (spawned o1) = mset (completed o1) + mset (pending s1)"
      by (rule a [THEN conjunct1])
    have "mset (pending s) + mset (spawned os) = (mset (pending s) + mset (spawned o1)) + mset (spawned o2)"
      by (simp add: os)
    also have "\<dots> = (mset (completed o1) + mset (pending s1)) + mset (spawned o2)"
      by (simp only: a1)
    also have "\<dots> = mset (completed o1) + (mset (pending s1) + mset (spawned o2))"
      by (simp only: union_assoc)
    also have "\<dots> = mset (completed o1) + (mset (completed o2) + mset (pending s'))"
      by (simp only: b [THEN conjunct1])
    finally show ?thesis using os by (simp add: union_assoc)
  qed
  ultimately show ?case using a b by simp
qed

definition mt_event_ok :: "mt_event \<Rightarrow> bool" where
  "mt_event_ok e \<longleftrightarrow> addr_len_ok e \<and> (\<forall>t m. ready e t \<noteq> Some (Threw (OtherException m)))"

lemma clean_tasks_exn:
  "clean_tasks rdy ts = (l, os, Some x) \<Longrightarrow> \<exists>t. rdy t = Some (Threw x)"
  by (induction ts arbitrary: l os) (auto split: option.splits task_result.splits prod.splits)

lemma mt_inv_mset:
  assumes "mt_inv s" "mset (pending s) + mset (spawned os) = mset (completed os) + mset (pending s')"
    and "spawned os = [next_tid s ..< next_tid s']" "next_tid s \<le> next_tid s'"
  shows "distinct (completed os @ pending s') \<and> mt_inv s'"
proof -
  have "mset (completed os @ pending s') = mset (pending s @ [next_tid s ..< next_tid s'])"
    using assms(2,3) by simp
  moreover have "distinct (pending s @ [next_tid s ..< next_tid s'])"
    using assms(1) by (auto simp: mt_inv_def)
  ultimately have d: "distinct (completed os @ pending s')"
    and "set (completed os @ pending s') = set (pending s @ [next_tid s ..< next_tid s'])"
    by (metis mset_eq_imp_distinct_iff, metis mset_eq_setD)
  then have "\<forall>t \<in> set (pending s'). t \<in> set (pending s) \<or> t < next_tid s'" by auto
  with assms(1,4) have "\<forall>t \<in> set (pending s'). t < next_tid s'" by (fastforce simp: mt_inv_def)
  with d show ?thesis by (simp add: mt_inv_def)
qed

lemma mt_turn_inv: "mt_inv s \<Longrightarrow> mt_turn s e = Inr (s', os) \<Longrightarrow> mt_inv s'"
proof -
  assume inv: "mt_inv s" and t: "mt_turn s e = Inr (s', os)"
  note a = mt_turn_tasks [OF t]
  have "spawned os = [next_tid s ..< next_tid s']"
  proof (cases "next_tid s' = next_tid s")
    case False
    with a have "next_tid s' = Suc (next_tid s)" by simp
    with a show ?thesis by simp
  qed (use a in simp)
  with mt_inv_mset [OF inv, of os s'] a show ?thesis by simp
qed

interpretation mt: halting_machine mt_turn mt_inv mt_event_ok failed
proof unfold_locales
  fix s e
  assume inv: "mt_inv s" and ok: "mt_event_ok e"
  have "\<exists>s' os. mt_turn s e = Inr (s', os)"
  proof (cases "failed s \<or> client_sock e = 0")
    case True
    then show ?thesis by (auto simp: mt_turn_def accept_client_def)
  next
    case False
    obtain l os x where c: "clean_tasks (ready e) (pending s @ [next_tid s]) = (l, os, x)"
      by (cases "clean_tasks (ready e) (pending s @ [next_tid s])") auto
    show ?thesis
    proof (cases x)
      case None
      with c False ok show ?thesis by (simp add: mt_turn_def accept_client_def mt_event_ok_def Let_def)
    next
      case (Some y)
      obtain t where "ready e t = Some (Threw y)" using clean_tasks_exn [OF c [unfolded Some]] ..
      with ok obtain m where "y = LogicError m" by (cases y) (auto simp: mt_event_ok_def)
      with Some c False ok show ?thesis
        by (simp add: mt_turn_def accept_client_def mt_event_ok_def Let_def)
    qed
  qed
  with inv mt_turn_inv show "\<exists>s' os. mt_turn s e = Inr (s', os) \<and> mt_inv s'" by blast
qed (simp add: mt_turn_def)

section \<open>Properties\<close>

text \<open>
  C18. No task is lost and none is reported twice: over any run of the server's loop the tasks
  started get consecutive numbers, and every task that was pending or was started is either
  reported as completed exactly once or still pending, never both.
\<close>

theorem mt_tasks_conserved:
  assumes "mt_inv s" "run mt_turn s es = Inr (s', os)"
  shows "spawned os = [next_tid s ..< next_tid s']
    \<and> mset (completed os @ pending s') = mset (pending s @ spawned os)
    \<and> distinct (completed os @ pending s')"
proof -
  from mt_run_tasks [OF assms(2)] have m: "mset (pending s) + mset (spawned os)
      = mset (completed os) + mset (pending s')" and sp: "spawned os = [next_tid s ..< next_tid s']"
    and n: "next_tid s \<le> next_tid s'"
    by blast+
  have "mset (completed os @ pending s') = mset (pending s @ spawned os)"
    by (simp only: mset_append m)
  with sp mt_inv_mset [OF assms(1) m sp n] show ?thesis by blast
qed

definition demo_mt :: mt_server where
  "demo_mt = \<lparr>pending = [], next_tid = 0, failed = False\<rparr>"

definition demo_accept :: "(nat \<Rightarrow> task_result option) \<Rightarrow> mt_event" where
  "demo_accept r = \<lparr>client_sock = 4, addr_len_ok = True, ready = r\<rparr>"

theorem mt_tasks_conserved_witness:
  "\<exists>s' os. run mt_turn demo_mt [demo_accept Map.empty, demo_accept [0 \<mapsto> Returned True]] = Inr (s', os)
     \<and> spawned os = [0, 1] \<and> mset (completed os @ pending s') = mset [0, 1]
     \<and> distinct (completed os @ pending s')"
proof -
  have inv: "mt_inv demo_mt" by (simp add: mt_inv_def demo_mt_def)
  obtain s' os where r: "run mt_turn demo_mt [demo_accept Map.empty, demo_accept [0 \<mapsto> Returned True]]
      = Inr (s', os)" and n: "spawned os = [0, 1]"
    by (auto simp: run.simps mt_turn_def demo_mt_def demo_accept_def accept_client_def Let_def)
  have p: "pending demo_mt = []" by (simp add: demo_mt_def)
  show ?thesis using mt_tasks_conserved [OF inv r, unfolded n p append_Nil] r n by blast
qed

text \<open>
  One client can stop the server for all: when the connection of a client fails while its
  request is read (an error that is not to be repeated), the exception is kept in the future
  of its task, and the turn of the loop that finds this task ready stops the server.
\<close>

theorem client_error_stops_server:
  assumes "\<not> failed s" "client_sock e \<noteq> 0" "addr_len_ok e" "length buf0 = 257"
    and "t \<in> set (pending s @ [next_tid s])"
    and "ready e t = task_result (client_process fs separ buf0 (RecvFailed OtherError # rs) as)"
    and "\<forall>u y. u \<noteq> t \<longrightarrow> ready e u \<noteq> Some (Threw y)"
  shows "\<exists>s' os. mt_turn s e = Inr (s', os) \<and> failed s' \<and> t \<in> set (pending s')
    \<and> ErrorMessage ''Socket reading error'' \<in> set os"
proof -
  have "ready e t = Some (Threw (LogicError ''Socket reading error''))"
    using assms(4,6) tsr_get_request_other(3) [OF assms(4), of OtherError rs]
    by (simp add: client_process_def recv_file_path_def task_result_def need_to_repeat_def)
  then obtain l os where
      c: "clean_tasks (ready e) (pending s @ [next_tid s])
        = (l, os, Some (LogicError ''Socket reading error''))" "t \<in> set l"
    using clean_tasks_throw [of "ready e" t _ "pending s @ [next_tid s]"] assms(5,7) by blast
  then show ?thesis
    using assms(1,2,3) by (simp add: mt_turn_def accept_client_def Let_def)
qed

theorem client_error_stops_server_witness:
  "\<exists>s' os. mt_turn demo_mt (demo_accept [0 \<mapsto> Threw (LogicError ''Socket reading error'')]) = Inr (s', os)
     \<and> failed s' \<and> ErrorMessage ''Socket reading error'' \<in> set os"
proof -
  let ?fs = "\<lparr>current_path = ''/srv'', weakly_canonical = id, fs_exists = (\<lambda>_. False),
    is_regular_file = (\<lambda>_. False), open_file = Map.empty\<rparr>"
  have "task_result (client_process ?fs (CHR ''/'') (replicate 257 NUL) [RecvFailed OtherError] [])
      = Some (Threw (LogicError ''Socket reading error''))"
    by (simp add: client_process_def recv_file_path_def task_result_def tsr_get_request_def need_to_repeat_def)
  then show ?thesis
    using client_error_stops_server [of demo_mt
        "demo_accept [0 \<mapsto> Threw (LogicError ''Socket reading error'')]" "replicate 257 NUL" 0 ?fs "CHR ''/''" "[]" "[]"]
    by (auto simp: demo_mt_def demo_accept_def)
qed

end
