(* ===== verification/AsioServer.thy ===== *)
theory AsioServer
  imports Machine
begin

text \<open>
  The daytime server of \<open>lesson4/asio_server/main.cpp\<close>. The library keeps the handlers of the
  operations under way (an accept, a write) and calls them in an order of its own, so the
  server is a step relation on the queue of handlers. A connection is an object held by
  \<open>shared_ptr\<close>s: its count says how many handlers (and running functions) own it, and
  it is destroyed when the count falls to 0. A write that is under way refers to the message of
  its connection without owning it; a step that would use a destroyed one is a fault. The write
  handler ignores its error code, so one step stands for a write that succeeded or failed.
\<close>

section \<open>State\<close>

datatype async = AcceptHandler nat | WriteHandler nat

record asio_server =
  handlers :: "async list"
  owners :: "nat \<Rightarrow> nat"
  message :: "nat \<Rightarrow> string option"
  next_conn :: nat
  delivered :: "(nat \<times> string) list"
  dangling :: bool

section \<open>Operations\<close>

definition acquire :: "nat \<Rightarrow> asio_server \<Rightarrow> asio_server" where
  "acquire c s = s\<lparr>owners := (owners s)(c := owners s c + 1)\<rparr>"

text \<open>Dropping the last owner destroys the connection and its message.\<close>

definition release :: "nat \<Rightarrow> asio_server \<Rightarrow> asio_server" where
  "release c s =
     s\<lparr>owners := (owners s)(c := owners s c - 1),
       message := (if owners s c = 1 then (message s)(c := None) else message s)\<rparr>"

text \<open>\<open>TcpConnection::create\<close>: a new object with one owner, the local \<open>new_connection\<close>.\<close>

definition conn_create :: "asio_server \<Rightarrow> nat \<times> asio_server" where
  "conn_create s =
     (let c = next_conn s
      in (c, s\<lparr>owners := (owners s)(c := 1), message := (message s)(c := Some []), next_conn := Suc c\<rparr>))"

text \<open>\<open>start_accept\<close>: the handler captures the pointer, the local goes out of scope.\<close>

definition start_accept :: "asio_server \<Rightarrow> asio_server" where
  "start_accept s =
     (let (c, s1) = conn_create s;
          s2 = acquire c s1
      in release c (s2\<lparr>handlers := AcceptHandler c # handlers s2\<rparr>))"

text \<open>
  \<open>TcpConnection::start\<close>: the message is stored in the object, \<open>shared_from_this\<close> is
  captured by the handler of the write, the local pointer goes out of scope.
\<close>

definition conn_start :: "nat \<Rightarrow> string \<Rightarrow> asio_server \<Rightarrow> asio_server" where
  "conn_start c daytime s =
     (let s1 = s\<lparr>message := (message s)(c := Some daytime)\<rparr>;
          s2 = acquire c s1;
          s3 = acquire c s2
      in release c (s3\<lparr>handlers := WriteHandler c # handlers s3\<rparr>))"

text \<open>
  \<open>handle_accept\<close>: without an error the task runs \<open>start\<close> in a new thread that is joined
  (the task captures the pointer and drops it when it ends), and the server accepts again
  in any case.
\<close>

definition handle_accept :: "nat \<Rightarrow> bool \<Rightarrow> string \<Rightarrow> asio_server \<Rightarrow> asio_server" where
  "handle_accept c error daytime s =
     (let s1 = (if \<not> error then release c (conn_start c daytime (acquire c s)) else s)
      in start_accept s1)"

text \<open>The library calls a handler: it leaves the queue, runs, and its captures are dropped.\<close>

definition call_accept :: "nat \<Rightarrow> bool \<Rightarrow> string \<Rightarrow> asio_server \<Rightarrow> asio_server" where
  "call_accept c error daytime s =
     release c (handle_accept c error daytime (s\<lparr>handlers := remove1 (AcceptHandler c) (handlers s)\<rparr>))"

definition call_write :: "nat \<Rightarrow> asio_server \<Rightarrow> asio_server" where
  "call_write c s =
     (let s1 = s\<lparr>handlers := remove1 (WriteHandler c) (handlers s)\<rparr>;
          s2 = (case message s1 c of
                  None \<Rightarrow> s1\<lparr>dangling := True\<rparr>
                | Some m \<Rightarrow> s1\<lparr>delivered := delivered s1 @ [(c, m)]\<rparr>)
      in release c s2)"

definition asio_empty :: asio_server where
  "asio_empty = \<lparr>handlers = [], owners = (\<lambda>_. 0), message = Map.empty, next_conn = 0,
     delivered = [], dangling = False\<rparr>"

text \<open>The constructor of \<open>TcpServer\<close> starts the first accept.\<close>

definition asio_init :: "asio_server \<Rightarrow> bool" where
  "asio_init s \<longleftrightarrow> s = start_accept asio_empty"

inductive asio_step :: "asio_server \<Rightarrow> asio_server \<Rightarrow> bool" where
  accepted_ok: "AcceptHandler c \<in> set (handlers s) \<Longrightarrow> asio_step s (call_accept c False daytime s)"
| accepted_error: "AcceptHandler c \<in> set (handlers s) \<Longrightarrow> asio_step s (call_accept c True daytime s)"
| written: "WriteHandler c \<in> set (handlers s) \<Longrightarrow> asio_step s (call_write c s)"

inductive_cases asio_stepE: "asio_step s t"

section \<open>Invariant\<close>

fun conn_of :: "async \<Rightarrow> nat" where
  "conn_of (AcceptHandler c) = c"
| "conn_of (WriteHandler c) = c"

fun is_accept :: "async \<Rightarrow> bool" where
  "is_accept (AcceptHandler c) = True"
| "is_accept (WriteHandler c) = False"

text \<open>
  Every connection is owned by the handlers that name it and by nothing else, and is
  alive exactly while one does; each has at most one handler; one accept is always under way.
\<close>

definition asio_inv :: "asio_server \<Rightarrow> bool" where
  "asio_inv s \<longleftrightarrow>
     distinct (map conn_of (handlers s))
     \<and> (\<forall>c. owners s c = (if c \<in> conn_of ` set (handlers s) then 1 else 0))
     \<and> (\<forall>c. message s c \<noteq> None \<longleftrightarrow> c \<in> conn_of ` set (handlers s))
     \<and> (\<forall>h \<in> set (handlers s). conn_of h < next_conn s)
     \<and> length (filter is_accept (handlers s)) = 1
     \<and> distinct (map fst (delivered s))
     \<and> (\<forall>c \<in> fst ` set (delivered s). c < next_conn s \<and> c \<notin> conn_of ` set (handlers s))
     \<and> \<not> dangling s"

lemma start_accept_eq:
  "start_accept s = s\<lparr>handlers := AcceptHandler (next_conn s) # handlers s,
     owners := (owners s)(next_conn s := 1), message := (message s)(next_conn s := Some []),
     next_conn := Suc (next_conn s)\<rparr>"
  by (simp add: start_accept_def conn_create_def acquire_def release_def Let_def)

lemma release_conn_start:
  "0 < owners s c \<Longrightarrow> release c (conn_start c m (acquire c s)) =
     s\<lparr>handlers := WriteHandler c # handlers s, owners := (owners s)(c := Suc (owners s c)),
       message := (message s)(c := Some m)\<rparr>"
  by (simp add: conn_start_def acquire_def release_def Let_def)

lemma call_accept_error_eq:
  assumes "owners s c = 1" "c \<noteq> next_conn s"
  shows "call_accept c True m s =
    s\<lparr>handlers := AcceptHandler (next_conn s) # remove1 (AcceptHandler c) (handlers s),
      owners := (owners s)(c := 0, next_conn s := 1),
      message := (message s)(c := None, next_conn s := Some []),
      next_conn := Suc (next_conn s)\<rparr>"
  using assms by (simp add: call_accept_def handle_accept_def start_accept_eq release_def fun_upd_twist)

lemma call_accept_ok_eq:
  assumes "owners s c = 1" "c \<noteq> next_conn s"
  shows "call_accept c False m s =
    s\<lparr>handlers := AcceptHandler (next_conn s) # WriteHandler c # remove1 (AcceptHandler c) (handlers s),
      owners := (owners s)(c := 1, next_conn s := 1),
      message := (message s)(c := Some m, next_conn s := Some []),
      next_conn := Suc (next_conn s)\<rparr>"
  using assms
  by (simp add: call_accept_def handle_accept_def start_accept_eq release_conn_start)
    (simp add: release_def fun_upd_twist)

lemma call_write_eq:
  assumes "owners s c = 1" "message s c = Some m"
  shows "call_write c s =
    s\<lparr>handlers := remove1 (WriteHandler c) (handlers s), owners := (owners s)(c := 0),
      message := (message s)(c := None), delivered := delivered s @ [(c, m)]\<rparr>"
  using assms by (simp add: call_write_def release_def Let_def)

lemma remove1_conn:
  assumes "distinct (map conn_of hs)" "h \<in> set hs"
  shows "conn_of ` set (remove1 h hs) = conn_of ` set hs - {conn_of h}"
    and "distinct (map conn_of (remove1 h hs))"
    and "set (remove1 h hs) = set hs - {h}"
    and "length (filter is_accept (remove1 h hs)) =
      length (filter is_accept hs) - (if is_accept h then 1 else 0)"
proof -
  have d: "distinct hs" using assms(1) by (simp add: distinct_map)
  then show s: "set (remove1 h hs) = set hs - {h}" by (rule set_remove1_eq)
  have "inj_on conn_of (set hs)" using assms(1) by (simp add: distinct_map)
  then show "conn_of ` set (remove1 h hs) = conn_of ` set hs - {conn_of h}"
    using s assms(2) by (auto simp: inj_on_def)
  show "distinct (map conn_of (remove1 h hs))"
    using assms(1) d s by (auto simp: distinct_map inj_on_def distinct_remove1)
  show "length (filter is_accept (remove1 h hs)) =
      length (filter is_accept hs) - (if is_accept h then 1 else 0)"
    using assms(2) by (simp add: filter_remove1 length_remove1)
qed

lemma asio_inv_alive:
  assumes "asio_inv s" "h \<in> set (handlers s)"
  shows "owners s (conn_of h) = 1" "conn_of h \<noteq> next_conn s" "\<exists>m. message s (conn_of h) = Some m"
  using assms by (auto simp: asio_inv_def)

lemma asio_inv_step:
  assumes "asio_inv s" "asio_step s t"
  shows "asio_inv t"
  using assms(2)
proof cases
  case (accepted_ok c m)
  note alive = asio_inv_alive [OF assms(1) accepted_ok(2), unfolded conn_of.simps]
    and rm = remove1_conn [OF _ accepted_ok(2)]
  show ?thesis
    using assms(1) accepted_ok(2) alive rm
    unfolding accepted_ok(1) call_accept_ok_eq [OF alive(1,2)] asio_inv_def
    by (auto simp: image_iff)
next
  case (accepted_error c m)
  note alive = asio_inv_alive [OF assms(1) accepted_error(2), unfolded conn_of.simps]
    and rm = remove1_conn [OF _ accepted_error(2)]
  show ?thesis
    using assms(1) accepted_error(2) alive rm
    unfolding accepted_error(1) call_accept_error_eq [OF alive(1,2)] asio_inv_def
    by (auto simp: image_iff)
next
  case (written c)
  note alive = asio_inv_alive [OF assms(1) written(2), unfolded conn_of.simps]
    and rm = remove1_conn [OF _ written(2)]
  obtain m where m: "message s c = Some m" using alive by blast
  have fresh: "c \<notin> fst ` set (delivered s)"
    using assms(1) alive(3) unfolding asio_inv_def by blast
  show ?thesis
    using assms(1) written(2) alive rm fresh
    unfolding written(1) call_write_eq [OF alive(1) m] asio_inv_def
    by auto
qed

lemma asio_inv_init: "asio_init s \<Longrightarrow> asio_inv s"
  by (auto simp: asio_init_def asio_inv_def start_accept_eq asio_empty_def)

interpretation asio: invariant_system asio_init asio_step asio_inv
  by unfold_locales (auto intro: asio_inv_init asio_inv_step)

section \<open>Properties\<close>

text \<open>
  C7. In every state the server can reach, in whatever order the library completes accepts
  (with or without an error) and writes: one accept is under way, never none and never two;
  the message a pending write refers to belongs to a connection that is alive and owned by
  that write alone; no destroyed message has been used; and no connection has been answered
  twice.
\<close>

theorem asio_reachable_safe:
  assumes "reachable asio_init asio_step s"
  shows "length (filter is_accept (handlers s)) = 1
    \<and> (\<forall>c. WriteHandler c \<in> set (handlers s) \<longrightarrow> owners s c = 1 \<and> message s c \<noteq> None)
    \<and> \<not> dangling s \<and> distinct (map fst (delivered s))"
proof -
  have inv: "asio_inv s" using assms by (rule asio.reachable_inv)
  have "owners s c = 1 \<and> message s c \<noteq> None" if "WriteHandler c \<in> set (handlers s)" for c
    using asio_inv_alive [OF inv that] by auto
  with inv show ?thesis by (simp add: asio_inv_def)
qed

definition demo_asio :: asio_server where
  "demo_asio = call_write 0 (call_accept 0 False ''noon'' (start_accept asio_empty))"

lemma demo_asio_reachable: "reachable asio_init asio_step demo_asio"
proof -
  let ?s = "start_accept asio_empty"
  have 1: "reachable asio_init asio_step ?s" by (rule reachable_init) (simp add: asio_init_def)
  have "handlers ?s = [AcceptHandler 0]" by (simp add: start_accept_eq asio_empty_def)
  then have 2: "asio_step ?s (call_accept 0 False ''noon'' ?s)"
    by (intro accepted_ok) simp
  have "WriteHandler 0 \<in> set (handlers (call_accept 0 False ''noon'' ?s))"
    by (subst call_accept_ok_eq) (simp_all add: start_accept_eq asio_empty_def)
  then have 3: "asio_step (call_accept 0 False ''noon'' ?s) demo_asio"
    unfolding demo_asio_def by (rule written)
  from 1 2 have "reachable asio_init asio_step (call_accept 0 False ''noon'' ?s)"
    by (rule reachable.reachable_step)
  then show ?thesis using 3 by (rule reachable.reachable_step)
qed

theorem asio_reachable_safe_witness:
  "handlers demo_asio = [AcceptHandler 1] \<and> delivered demo_asio = [(0, ''noon'')]
   \<and> length (filter is_accept (handlers demo_asio)) = 1 \<and> \<not> dangling demo_asio"
  using asio_reachable_safe [OF demo_asio_reachable]
  by (simp add: demo_asio_def start_accept_eq asio_empty_def call_accept_ok_eq call_write_eq)

text \<open>
  C40. The server never stops listening by itself: from every state it can reach it can
  take a step, and accepting the next client successfully gives that client a write that
  completes with the time string made for it.
\<close>

theorem asio_next_client_served:
  assumes "reachable asio_init asio_step s"
  shows "\<exists>c t u. AcceptHandler c \<in> set (handlers s) \<and> asio_step s t \<and> asio_step t u
    \<and> delivered u = delivered s @ [(c, daytime)]"
proof -
  have inv: "asio_inv s" using assms by (rule asio.reachable_inv)
  then have "filter is_accept (handlers s) \<noteq> []" by (auto simp: asio_inv_def)
  then obtain h where "h \<in> set (handlers s)" "is_accept h" by (auto simp only: filter_empty_conv)
  then obtain c where c: "AcceptHandler c \<in> set (handlers s)" by (metis is_accept.elims(2))
  note alive = asio_inv_alive [OF inv c, unfolded conn_of.simps]
  let ?t = "call_accept c False daytime s"
  have t: "asio_step s ?t" using c by (rule accepted_ok)
  then have inv_t: "asio_inv ?t" by (rule asio_inv_step [OF inv])
  have w: "WriteHandler c \<in> set (handlers ?t)" and m: "message ?t c = Some daytime"
    and d: "delivered ?t = delivered s"
    using alive by (simp_all add: call_accept_ok_eq)
  have "delivered (call_write c ?t) = delivered s @ [(c, daytime)]"
    using call_write_eq [OF _ m] asio_inv_alive(1) [OF inv_t w] d by simp
  with c t written [OF w] show ?thesis by blast
qed

theorem asio_next_client_served_witness:
  "\<exists>c t u. AcceptHandler c \<in> set (handlers demo_asio) \<and> asio_step demo_asio t \<and> asio_step t u
    \<and> delivered u = delivered demo_asio @ [(c, ''one'')]"
  using asio_next_client_served [OF demo_asio_reachable] .

end
