(* ===== verification/PacketPrinter.thy ===== *)
theory PacketPrinter
  imports Prelude
begin

text \<open>
  The packet dissector of \<open>lesson2/pcap_sniffer/packet_printer.cpp\<close>. A captured packet is
  the list of its bytes; the code reads it through structures laid over it, so the offset
  of each field is computed here from the declarations of the structures, constant members
  included, with the alignment rule of the usual ABIs. A read past the captured bytes is the
  fault \<open>OutOfBounds\<close>. What is printed is a list of lines.
\<close>

section \<open>Layout of structures\<close>

record field =
  fld_name :: string
  fld_size :: nat
  fld_align :: nat

abbreviation u_char :: "string \<Rightarrow> field" where "u_char n \<equiv> \<lparr>fld_name = n, fld_size = 1, fld_align = 1\<rparr>"
abbreviation u_short :: "string \<Rightarrow> field" where "u_short n \<equiv> \<lparr>fld_name = n, fld_size = 2, fld_align = 2\<rparr>"
abbreviation u_int :: "string \<Rightarrow> field" where "u_int n \<equiv> \<lparr>fld_name = n, fld_size = 4, fld_align = 4\<rparr>"

definition align_up :: "nat \<Rightarrow> nat \<Rightarrow> nat" where
  "align_up off al = (off + al - 1) div al * al"

fun layout :: "nat \<Rightarrow> field list \<Rightarrow> (string \<times> nat) list" where
  "layout off [] = []"
| "layout off (f # fs) =
     (let off' = align_up off (fld_align f) in (fld_name f, off') # layout (off' + fld_size f) fs)"

definition offset_of :: "field list \<Rightarrow> string \<Rightarrow> nat" where
  "offset_of fs n = (case map_of (layout 0 fs) n of Some off \<Rightarrow> off | None \<Rightarrow> 0)"

text \<open>
  \<open>sniff_ip\<close> and \<open>sniff_tcp\<close> as declared. The members with an initialiser
  (\<open>const u_short ip_rf = 0x8000;\<close> and so on) are not static, so each takes its place.
\<close>

definition sniff_ip :: "field list" where
  "sniff_ip = [u_char ''ip_vhl'', u_char ''ip_tos'', u_short ''ip_len'', u_short ''ip_id'',
     u_short ''ip_off'', u_short ''ip_rf'', u_short ''ip_df'', u_short ''ip_mf'',
     u_short ''ip_offmask'', u_char ''ip_ttl'', u_char ''ip_p'', u_short ''ip_sum'',
     u_int ''ip_src'', u_int ''ip_dst'']"

definition sniff_tcp :: "field list" where
  "sniff_tcp = [u_short ''th_sport'', u_short ''th_dport'', u_int ''th_seq'', u_int ''th_ack'',
     u_char ''th_offx2'', u_char ''th_flags'', u_char ''th_fin'', u_char ''th_syn'',
     u_char ''th_rst'', u_char ''th_push'', u_char ''th_ack_f'', u_char ''th_urg'',
     u_char ''th_ece'', u_char ''th_cwr'', u_char ''th_flags2'', u_short ''th_win'',
     u_short ''th_sum'', u_short ''th_urp'']"

text \<open>The places the protocols themselves give these fields (RFC 791 and RFC 9293).\<close>

definition rfc_ip_offset :: "string \<Rightarrow> nat" where
  "rfc_ip_offset n = (if n = ''ip_vhl'' then 0 else if n = ''ip_tos'' then 1
     else if n = ''ip_len'' then 2 else if n = ''ip_id'' then 4 else if n = ''ip_off'' then 6
     else if n = ''ip_ttl'' then 8 else if n = ''ip_p'' then 9 else if n = ''ip_sum'' then 10
     else if n = ''ip_src'' then 12 else 16)"

section \<open>Reading a packet\<close>

definition read8 :: "byte list \<Rightarrow> nat \<Rightarrow> byte outcome" where
  "read8 p i = (if i < length p then Inr (p ! i) else Inl OutOfBounds)"

text \<open>A 16-bit field through \<open>ntohs\<close>: most significant byte first.\<close>

definition read16 :: "byte list \<Rightarrow> nat \<Rightarrow> nat outcome" where
  "read16 p i = bind_out (read8 p i) (\<lambda>hi. bind_out (read8 p (i + 1)) (\<lambda>lo.
     Inr (unat hi * 256 + unat lo)))"

text \<open>The four bytes of an \<open>in_addr\<close>, as \<open>inet_ntoa\<close> prints them.\<close>

definition read_addr :: "byte list \<Rightarrow> nat \<Rightarrow> byte list outcome" where
  "read_addr p i = (if i + 4 \<le> length p then Inr (take 4 (drop i p)) else Inl OutOfBounds)"

unbundle bit_operations_syntax

definition ip_hl :: "byte \<Rightarrow> byte" where
  "ip_hl vhl = vhl AND 0x0f"

definition ip_v :: "byte \<Rightarrow> byte" where
  "ip_v vhl = drop_bit 4 vhl"

definition th_off :: "byte \<Rightarrow> byte" where
  "th_off offx2 = drop_bit 4 (offx2 AND 0xf0)"

section \<open>Printing the payload\<close>

text \<open>
  \<open>print_hex_ascii_line\<close>. A \<open>u_char\<close> sent to a stream is a character, so \<open>std::hex\<close> does
  not apply to it: each byte comes out as itself, padded to two columns. In the last loop the
  pointer moves only past a printable byte.
\<close>

definition out_char :: "byte \<Rightarrow> char" where
  "out_char b = char_of (unat b)"

definition isprint :: "byte \<Rightarrow> bool" where
  "isprint b \<longleftrightarrow> 32 \<le> unat b \<and> unat b \<le> 126"

definition setw :: "nat \<Rightarrow> string \<Rightarrow> string" where
  "setw w s = replicate (w - length s) (CHR '' '') @ s"

fun hex_loop :: "byte list \<Rightarrow> nat \<Rightarrow> string" where
  "hex_loop [] i = []"
| "hex_loop (b # bs) i =
     setw 2 [out_char b] @ '' '' @ (if i = 7 then '' '' else []) @ hex_loop bs (i + 1)"

fun ascii_loop :: "byte list \<Rightarrow> nat \<Rightarrow> nat \<Rightarrow> string" where
  "ascii_loop payload ch 0 = []"
| "ascii_loop payload ch (Suc n) =
     (if isprint (payload ! ch) then out_char (payload ! ch) # ascii_loop payload (ch + 1) n
      else CHR ''.'' # ascii_loop payload ch n)"

definition hex_ascii_line :: "byte list \<Rightarrow> nat \<Rightarrow> string" where
  "hex_ascii_line line offset =
     (let len = length line
      in setw 5 (nat_str offset) @ [LF]
         @ hex_loop line 0
         @ (if len < 8 then '' '' else [])
         @ (if len < 16 then concat (replicate (16 - len) ''   '') else [])
         @ ''   '' @ ascii_loop line 0 len @ [LF])"

text \<open>
  \<open>print_payload\<close>, as the lines it prints: each with its offset and its bytes. The loop body
  is entered with \<open>len_rem\<close> bytes left.
\<close>

function payload_loop :: "byte list \<Rightarrow> nat \<Rightarrow> nat \<Rightarrow> (nat \<times> byte list) list" where
  "payload_loop ch len_rem offset =
     (let line_width = 16;
          line_len = line_width mod len_rem;
          len_rem' = len_rem - line_len;
          ch' = drop line_len ch;
          offset' = offset + line_width
      in (offset, take line_len ch) #
         (if len_rem' \<le> line_width then [(offset', take len_rem' ch')]
          else payload_loop ch' len_rem' offset'))"
  by pat_completeness auto
termination
  by (relation "measure (\<lambda>(ch, len_rem, offset). len_rem)") (auto simp: mod_less)

declare payload_loop.simps [simp del]

definition payload_lines :: "byte list \<Rightarrow> int \<Rightarrow> (nat \<times> byte list) list" where
  "payload_lines payload len =
     (if len \<le> 0 then []
      else if len \<le> 16 then [(0, take (nat len) payload)]
      else payload_loop payload (nat len) 0)"

definition print_payload :: "byte list \<Rightarrow> int \<Rightarrow> string list" where
  "print_payload payload len = map (\<lambda>(offset, line). hex_ascii_line line offset) (payload_lines payload len)"

section \<open>Dissecting a packet\<close>

abbreviation SIZE_ETHERNET :: nat where "SIZE_ETHERNET \<equiv> 14"

datatype protocol = TCP | UDP | ICMP | IP | UnknownProtocol

definition protocol_of :: "byte \<Rightarrow> protocol" where
  "protocol_of b = (if b = 6 then TCP else if b = 17 then UDP else if b = 1 then ICMP
     else if b = 0 then IP else UnknownProtocol)"

datatype packet_line =
    PacketNumber nat
  | InvalidIpHeader nat
  | FromTo "byte list" "byte list"
  | Protocol protocol
  | InvalidTcpHeader nat
  | Ports nat nat
  | PayloadSize int
  | PayloadText string

text \<open>\<open>got_packet\<close> from the TCP header on; \<open>ip_len\<close> is the total length field of the IP header.\<close>

definition got_tcp :: "byte list \<Rightarrow> nat \<Rightarrow> nat \<Rightarrow> packet_line list outcome" where
  "got_tcp packet size_ip ip_len =
     (let tcp = SIZE_ETHERNET + size_ip
      in bind_out (read8 packet (tcp + offset_of sniff_tcp ''th_offx2'')) (\<lambda>offx2.
         let size_tcp = unat (th_off offx2) * 4
         in if size_tcp < 20 then Inr [InvalidTcpHeader size_tcp]
            else bind_out (read16 packet (tcp + offset_of sniff_tcp ''th_sport'')) (\<lambda>sport.
                 bind_out (read16 packet (tcp + offset_of sniff_tcp ''th_dport'')) (\<lambda>dport.
                   let payload = drop (tcp + size_tcp) packet;
                       size_payload = int ip_len - int (size_ip + size_tcp)
                   in if size_payload > 0
                      then if nat size_payload \<le> length payload
                           then Inr (Ports sport dport # PayloadSize size_payload
                                  # map PayloadText (print_payload payload size_payload))
                           else Inl OutOfBounds
                      else Inr [Ports sport dport]))))"

definition got_packet :: "nat \<Rightarrow> byte list \<Rightarrow> (nat \<times> packet_line list) outcome" where
  "got_packet packet_count packet =
     bind_out (read8 packet (SIZE_ETHERNET + offset_of sniff_ip ''ip_vhl'')) (\<lambda>vhl.
       let size_ip = unat (ip_hl vhl) * 4;
           count' = Suc packet_count
       in if size_ip < 20 then Inr (count', [PacketNumber packet_count, InvalidIpHeader size_ip])
          else
            bind_out (read_addr packet (SIZE_ETHERNET + offset_of sniff_ip ''ip_src'')) (\<lambda>src.
            bind_out (read_addr packet (SIZE_ETHERNET + offset_of sniff_ip ''ip_dst'')) (\<lambda>dst.
            bind_out (read8 packet (SIZE_ETHERNET + offset_of sniff_ip ''ip_p'')) (\<lambda>p.
              let o1 = [PacketNumber packet_count, FromTo src dst, Protocol (protocol_of p)]
              in if protocol_of p \<noteq> TCP then Inr (count', o1)
                 else bind_out (read16 packet (SIZE_ETHERNET + offset_of sniff_ip ''ip_len'')) (\<lambda>ip_len.
                      bind_out (got_tcp packet size_ip ip_len) (\<lambda>o2. Inr (count', o1 @ o2)))))))"

section \<open>Lemmas\<close>

lemma ip_offsets:
  "offset_of sniff_ip ''ip_vhl'' = 0" "offset_of sniff_ip ''ip_len'' = 2"
  "offset_of sniff_ip ''ip_p'' = 17" "offset_of sniff_ip ''ip_src'' = 20"
  "offset_of sniff_ip ''ip_dst'' = 24"
  by (simp_all add: offset_of_def sniff_ip_def align_up_def Let_def)

lemma tcp_offsets:
  "offset_of sniff_tcp ''th_sport'' = 0" "offset_of sniff_tcp ''th_dport'' = 2"
  "offset_of sniff_tcp ''th_offx2'' = 12"
  by (simp_all add: offset_of_def sniff_tcp_def align_up_def Let_def)

lemma ascii_loop_stuck:
  "ch < length p \<Longrightarrow> \<not> isprint (p ! ch) \<Longrightarrow> ascii_loop p ch n = replicate n (CHR ''.'')"
  by (induction n) auto

lemma ascii_loop_prefix:
  "ch + n \<le> length p \<Longrightarrow> ascii_loop p ch n =
     (let shown = takeWhile isprint (take n (drop ch p))
      in map out_char shown @ replicate (n - length shown) (CHR ''.''))"
proof (induction n arbitrary: ch)
  case 0
  then show ?case by simp
next
  case (Suc n)
  have ch: "ch < length p" using Suc.prems by simp
  then have d: "take (Suc n) (drop ch p) = p ! ch # take n (drop (Suc ch) p)"
    by (simp add: Cons_nth_drop_Suc [symmetric])
  show ?case
  proof (cases "isprint (p ! ch)")
    case True
    with Suc.IH [of "Suc ch"] Suc.prems d show ?thesis by (simp add: Let_def)
  next
    case False
    with ch d show ?thesis by (simp add: ascii_loop_stuck Let_def)
  qed
qed

text \<open>The lines of the loop: sixteen bytes each but for the last.\<close>

fun chunks16 :: "nat \<Rightarrow> byte list \<Rightarrow> (nat \<times> byte list) list \<Rightarrow> bool" where
  "chunks16 off bs [] = False"
| "chunks16 off bs [(o1, l)] = (o1 = off \<and> l = bs \<and> 0 < length l \<and> length l \<le> 16)"
| "chunks16 off bs ((o1, l) # ls) =
     (o1 = off \<and> length l = 16 \<and> (\<exists>r. bs = l @ r \<and> chunks16 (off + 16) r ls))"

lemma chunks16_Cons: "ls \<noteq> [] \<Longrightarrow> chunks16 off bs ((o1, l) # ls) =
    (o1 = off \<and> length l = 16 \<and> (\<exists>r. bs = l @ r \<and> chunks16 (off + 16) r ls))"
  by (cases ls) auto

lemma payload_loop_nonempty [simp]: "payload_loop ch n off \<noteq> []"
  by (subst payload_loop.simps) (simp add: Let_def)

lemma payload_loop_chunks:
  "16 < n \<Longrightarrow> n \<le> length ch \<Longrightarrow> chunks16 off (take n ch) (payload_loop ch n off)"
proof (induction ch n off rule: payload_loop.induct)
  case (1 ch n off)
  have m: "16 mod n = 16" using 1(2) by simp
  have split: "take n ch = take 16 ch @ take (n - 16) (drop 16 ch)"
    using 1(2) by (metis append_take_drop_id le_add_diff_inverse less_imp_le take_add)
  show ?case
  proof (cases "n - 16 \<le> 16")
    case True
    then have e: "payload_loop ch n off = [(off, take 16 ch), (off + 16, take (n - 16) (drop 16 ch))]"
      by (subst payload_loop.simps) (simp add: m Let_def)
    show ?thesis unfolding e using 1(2,3) split True by simp
  next
    case False
    then have e: "payload_loop ch n off = (off, take 16 ch) # payload_loop (drop 16 ch) (n - 16) (off + 16)"
      by (subst payload_loop.simps) (simp add: m Let_def)
    have "chunks16 (off + 16) (take (n - 16) (drop 16 ch)) (payload_loop (drop 16 ch) (n - 16) (off + 16))"
      using 1(1) [OF refl refl refl refl refl] m False 1(3) by simp
    then show ?thesis unfolding e using 1(2,3) split by (auto simp: chunks16_Cons)
  qed
qed

lemma payload_lines_chunks:
  assumes "0 < len" "nat len \<le> length payload"
  shows "chunks16 0 (take (nat len) payload) (payload_lines payload len)"
proof (cases "len \<le> 16")
  case True
  with assms show ?thesis by (simp add: payload_lines_def)
next
  case False
  then have "16 < nat len" by simp
  from payload_loop_chunks [OF this assms(2), of 0] False assms(1) show ?thesis
    by (simp add: payload_lines_def)
qed

definition ascii_column :: "byte list \<Rightarrow> string" where
  "ascii_column line = map (\<lambda>b. if isprint b then out_char b else CHR ''.'') line"

lemma ascii_column_split:
  "ascii_column line = map out_char (takeWhile isprint line) @ ascii_column (dropWhile isprint line)"
  by (induction line) (auto simp: ascii_column_def)

lemma ascii_column_dots:
  "ascii_column bs = replicate (length bs) (CHR ''.'') \<longleftrightarrow> (\<forall>b \<in> set bs. isprint b \<longrightarrow> out_char b = CHR ''.'')"
  by (induction bs) (auto simp: ascii_column_def)

lemma read16_ok: "i + 1 < length p \<Longrightarrow> read16 p i = Inr (unat (p ! i) * 256 + unat (p ! (i + 1)))"
  by (simp add: read16_def read8_def)

text \<open>The header fields as the code sees them, once the packet holds them all.\<close>

definition size_ip_of :: "byte list \<Rightarrow> nat" where
  "size_ip_of packet = unat (ip_hl (packet ! 14)) * 4"

definition ip_len_of :: "byte list \<Rightarrow> nat" where
  "ip_len_of packet = unat (packet ! 16) * 256 + unat (packet ! 17)"

definition size_tcp_of :: "byte list \<Rightarrow> nat" where
  "size_tcp_of packet = unat (th_off (packet ! (26 + size_ip_of packet))) * 4"

lemma got_packet_fields:
  assumes "42 \<le> length packet"
  shows "got_packet k packet =
    (if size_ip_of packet < 20 then Inr (Suc k, [PacketNumber k, InvalidIpHeader (size_ip_of packet)])
     else let o1 = [PacketNumber k, FromTo (take 4 (drop 34 packet)) (take 4 (drop 38 packet)),
                    Protocol (protocol_of (packet ! 31))]
          in if protocol_of (packet ! 31) \<noteq> TCP then Inr (Suc k, o1)
             else bind_out (got_tcp packet (size_ip_of packet) (ip_len_of packet)) (\<lambda>o2. Inr (Suc k, o1 @ o2)))"
  using assms
  by (simp add: got_packet_def ip_offsets read8_def read_addr_def read16_ok size_ip_of_def
      ip_len_of_def Let_def)

lemma got_tcp_fields:
  assumes "size_ip_of packet + 27 \<le> length packet"
  shows "got_tcp packet (size_ip_of packet) ip_len =
    (if size_tcp_of packet < 20 then Inr [InvalidTcpHeader (size_tcp_of packet)]
     else let i = 14 + size_ip_of packet;
              sport = unat (packet ! i) * 256 + unat (packet ! (i + 1));
              dport = unat (packet ! (i + 2)) * 256 + unat (packet ! (i + 3));
              n = int ip_len - int (size_ip_of packet + size_tcp_of packet)
          in if n > 0
             then if nat n \<le> length packet - (i + size_tcp_of packet)
                  then Inr (Ports sport dport # PayloadSize n
                         # map PayloadText (print_payload (drop (i + size_tcp_of packet) packet) n))
                  else Inl OutOfBounds
             else Inr [Ports sport dport])"
  using assms
  by (simp add: got_tcp_def tcp_offsets read8_def read16_ok size_tcp_of_def Let_def
      add.assoc add.commute add.left_commute numeral_eq_Suc)

section \<open>Properties\<close>

text \<open>
  The payload is printed whole: for a payload of any positive length the lines carry
  its bytes once each and in order, sixteen to a line but for the last, which has one to
  sixteen, and each line is labelled with the offset of its first byte.
\<close>

theorem payload_lines_cover:
  assumes "0 < len" "nat len \<le> length payload"
  shows "chunks16 0 (take (nat len) payload) (payload_lines payload len)"
  using assms by (rule payload_lines_chunks)

theorem payload_lines_cover_witness:
  "chunks16 0 (replicate 40 65) (payload_lines (replicate 40 65) 40)"
  using payload_lines_cover [of 40 "replicate 40 65"] by simp

text \<open>
  The ASCII column of a line is right only for some lines: the code prints what its
  comment promises (each byte that can be printed as itself, a dot for any other) exactly
  when no printable byte but a dot follows the first unprintable one; from that byte on it
  prints dots only.
\<close>

theorem ascii_column_right_iff:
  "ascii_loop line 0 (length line) = ascii_column line \<longleftrightarrow>
     (\<forall>b \<in> set (dropWhile isprint line). isprint b \<longrightarrow> out_char b = CHR ''.'')"
proof -
  have len: "length line - length (takeWhile isprint line) = length (dropWhile isprint line)"
    by (metis length_append takeWhile_dropWhile_id diff_add_inverse)
  have "ascii_loop line 0 (length line)
      = map out_char (takeWhile isprint line) @ replicate (length (dropWhile isprint line)) (CHR ''.'')"
    using ascii_loop_prefix [of 0 "length line" line] by (simp add: Let_def len)
  then show ?thesis
    unfolding ascii_column_split [of line] ascii_column_dots [symmetric] by auto
qed

theorem ascii_column_right_iff_witness:
  "ascii_loop [72, 105, 10] 0 3 = ascii_column [72, 105, 10]
   \<and> ascii_loop [72, 10, 105] 0 3 \<noteq> ascii_column [72, 10, 105]"
proof -
  have "out_char 105 \<noteq> CHR ''.''" by code_simp
  then show ?thesis
    using ascii_column_right_iff [of "[72, 105, 10]"] ascii_column_right_iff [of "[72, 10, 105]"]
    by (simp add: isprint_def numeral_3_eq_3 del: ascii_loop.simps)
qed

text \<open>
  The constant members of \<open>sniff_ip\<close> shift the fields behind them by eight bytes, so
  what the code prints is not what the header says: the protocol is read from the second
  byte of the destination address, and the two addresses from the eight bytes that follow a
  header of the least length (the ports and the sequence number of a TCP segment).
\<close>

theorem printed_protocol_is_destination_byte:
  assumes "42 \<le> length packet" "20 \<le> size_ip_of packet" "got_packet k packet = Inr (k', out)"
  shows "out ! 1 = FromTo (take 4 (drop (14 + 20) packet)) (take 4 (drop (14 + 24) packet))
    \<and> out ! 2 = Protocol (protocol_of (packet ! (14 + rfc_ip_offset ''ip_dst'' + 1)))"
  using assms
  by (auto simp: got_packet_fields rfc_ip_offset_def Let_def split: if_splits)

definition udp_to_10_6 :: "byte list" where
  "udp_to_10_6 = replicate 12 0 @ [8, 0] @
     [0x45, 0, 0, 28, 0, 0, 0, 0, 64, 17, 0, 0, 192, 168, 0, 1, 10, 17, 0, 2] @
     [0x30, 0x39, 0, 53, 0, 8, 0, 0]"

theorem printed_protocol_is_destination_byte_witness:
  "\<exists>k' out. got_packet 1 (udp_to_10_6[31 := 1]) = Inr (k', out) \<and> out ! 2 = Protocol ICMP"
proof -
  let ?p = "udp_to_10_6[31 := 1]"
  have len: "42 \<le> length ?p" and hl: "20 \<le> size_ip_of ?p"
    by (simp_all add: udp_to_10_6_def size_ip_of_def ip_hl_def nth_append)
  have b: "?p ! 31 = 1" by (simp add: udp_to_10_6_def nth_append)
  obtain k' out where r: "got_packet 1 ?p = Inr (k', out)"
    using hl by (simp add: got_packet_fields [OF len] b protocol_of_def)
  from printed_protocol_is_destination_byte [OF len hl r] b r show ?thesis
    by (auto simp: rfc_ip_offset_def protocol_of_def)
qed

text \<open>
  The length in the header is trusted: for a captured packet that the code takes for TCP
  and whose header lengths leave a payload, the printer reads past the captured bytes
  exactly when the total length field claims more bytes than were captured.
\<close>

theorem payload_overread_iff:
  assumes "42 \<le> length packet" "size_ip_of packet + 27 \<le> length packet"
    and "20 \<le> size_ip_of packet" "protocol_of (packet ! 31) = TCP" "20 \<le> size_tcp_of packet"
    and "size_ip_of packet + size_tcp_of packet < ip_len_of packet"
  shows "got_packet k packet = Inl OutOfBounds \<longleftrightarrow> length packet < 14 + ip_len_of packet"
  using assms
  by (auto simp: got_packet_fields got_tcp_fields Let_def)

definition short_capture :: "byte list" where
  "short_capture = replicate 12 0 @ [8, 0] @
     [0x45, 0, 1, 0, 0, 0, 0, 0, 64, 6, 0, 0, 192, 168, 0, 1, 10, 6, 0, 2] @
     [0x30, 0x39, 0, 80, 0, 0, 0, 0, 0, 0, 0, 0, 0x50, 0x18, 0, 0, 0, 0, 0, 0] @ [65, 66]"

theorem payload_overread_iff_witness: "got_packet 1 short_capture = Inl OutOfBounds"
proof -
  have "size_ip_of short_capture = 20"
    by (simp add: short_capture_def size_ip_of_def ip_hl_def nth_append)
  moreover from this have "size_tcp_of short_capture = 20"
    by (simp add: short_capture_def size_tcp_of_def th_off_def nth_append)
  moreover have "ip_len_of short_capture = 256" "short_capture ! 31 = 6" "length short_capture = 56"
    by (simp_all add: short_capture_def ip_len_of_def nth_append)
  ultimately show ?thesis
    using payload_overread_iff [of short_capture 1] by (simp add: protocol_of_def)
qed

end
