(* ===== verification/Sniffer.thy ===== *)
theory Sniffer
  imports PacketPrinter Machine
begin

text \<open>
  The capture program around the packet printer, \<open>lesson2/pcap_sniffer/main.cpp\<close>. The
  capture library is the parameter \<open>pcap\<close>: what its calls answer and the frames it hands to
  the callback. The callback is a handler whose state is the count of the static printer.
\<close>

section \<open>The callback\<close>

record pcap_lib =
  first_device :: "string option"
  netmask_ok :: bool
  net_mask :: "32 word \<times> 32 word"
  live_ok :: bool
  ethernet :: bool
  compile_ok :: bool
  filter_ok :: bool
  frames :: "byte list list"

datatype sniff_out =
    Usage
  | NoDevice
  | NoNetmask string
  | CaptureInfo string "32 word" "32 word" nat string
  | NotOpened string
  | NotEthernet string
  | FilterNotParsed string
  | FilterNotInstalled string
  | Dumped "byte list"
  | Shown packet_line
  | CaptureComplete

abbreviation SNAP_LEN :: nat where "SNAP_LEN \<equiv> 1518"
abbreviation MAX_PACKET_TO_CAPTURE :: nat where "MAX_PACKET_TO_CAPTURE \<equiv> 10"

definition pcap_callback :: "(nat, byte list, sniff_out) handler" where
  "pcap_callback packet_count packet =
     bind_out (got_packet packet_count packet) (\<lambda>(count', lines).
       Inr (count', Dumped packet # map Shown lines))"

text \<open>
  \<open>pcap_loop\<close> calls the callback for the first \<open>n\<close> frames, each cut to the snap length; it
  waits while fewer have come.
\<close>

definition pcap_loop :: "byte list list \<Rightarrow> nat \<Rightarrow> (nat \<times> sniff_out list) outcome" where
  "pcap_loop fs n =
     bind_out (run pcap_callback 1 (map (take SNAP_LEN) (take n fs))) (\<lambda>r.
       if length fs < n then Inl Blocked else Inr r)"

section \<open>main\<close>

definition sniffer_main :: "string list \<Rightarrow> pcap_lib \<Rightarrow> (bool \<times> sniff_out list) outcome" where
  "sniffer_main args pcap =
     (if length args = 1 then Inr (True, [])
      else if length args > 1 then Inr (False, [Usage])
      else case first_device pcap of
        None \<Rightarrow> Inr (False, [NoDevice])
      | Some dev \<Rightarrow>
          let (net, mask) = (if netmask_ok pcap then net_mask pcap else (0, 0));
              num_packets = MAX_PACKET_TO_CAPTURE;
              filter_exp = ''ip'';
              info = (if netmask_ok pcap then [] else [NoNetmask dev])
                     @ [CaptureInfo dev mask net num_packets filter_exp]
          in if \<not> live_ok pcap then Inr (False, info @ [NotOpened dev])
             else if \<not> ethernet pcap then Inr (False, info @ [NotEthernet dev])
             else if \<not> compile_ok pcap then Inr (False, info @ [FilterNotParsed filter_exp])
             else if \<not> filter_ok pcap then Inr (False, info @ [FilterNotInstalled filter_exp])
             else bind_out (pcap_loop (frames pcap) num_packets) (\<lambda>(_, os).
                    Inr (True, info @ os @ [CaptureComplete])))"

section \<open>Lemmas\<close>

text \<open>The printer's count shows only in the first line.\<close>

lemma got_packet_count:
  "got_packet k p = bind_out (got_packet 0 p) (\<lambda>(k', out). Inr (Suc k, PacketNumber k # tl out))"
  by (auto simp: got_packet_def bind_out_def Let_def split: sum.splits)

definition printable_frame :: "byte list \<Rightarrow> bool" where
  "printable_frame p = (case got_packet 0 (take SNAP_LEN p) of Inl f \<Rightarrow> False | Inr r \<Rightarrow> True)"

definition frame_lines :: "byte list \<Rightarrow> packet_line list" where
  "frame_lines p = (case got_packet 0 (take SNAP_LEN p) of Inl f \<Rightarrow> [] | Inr (k, out) \<Rightarrow> tl out)"

lemma got_printable:
  assumes "printable_frame p"
  shows "got_packet k (take SNAP_LEN p) = Inr (Suc k, PacketNumber k # frame_lines p)"
proof -
  from assms obtain k' out where "got_packet 0 (take SNAP_LEN p) = Inr (k', out)"
    by (auto simp: printable_frame_def split: sum.splits)
  then show ?thesis by (subst got_packet_count) (simp add: frame_lines_def)
qed

text \<open>What the program reports for frames that arrive with numbers from \<open>k\<close> on.\<close>

fun reports :: "nat \<Rightarrow> byte list list \<Rightarrow> sniff_out list" where
  "reports k [] = []"
| "reports k (p # ps) =
     Dumped (take SNAP_LEN p) # Shown (PacketNumber k) # map Shown (frame_lines p) @ reports (Suc k) ps"

interpretation sniffer: safe_machine pcap_callback "\<lambda>_. True" "\<lambda>p. printable_frame p \<and> length p \<le> SNAP_LEN"
proof unfold_locales
  fix k p
  assume "printable_frame p \<and> length p \<le> SNAP_LEN"
  then show "\<exists>k' os. pcap_callback k p = Inr (k', os) \<and> True"
    using got_printable [of p k] by (simp add: pcap_callback_def)
qed

lemma run_printable:
  "list_all printable_frame ps \<Longrightarrow>
     run pcap_callback k (map (take SNAP_LEN) ps) = Inr (k + length ps, reports k ps)"
proof (induction ps arbitrary: k)
  case Nil
  then show ?case by simp
next
  case (Cons p ps)
  then have "pcap_callback k (take SNAP_LEN p)
      = Inr (Suc k, Dumped (take SNAP_LEN p) # Shown (PacketNumber k) # map Shown (frame_lines p))"
    by (simp add: pcap_callback_def got_printable)
  with Cons show ?case by auto
qed

lemma run_first_bad:
  assumes "list_all printable_frame ps" "got_packet (k + length ps) (take SNAP_LEN p) = Inl f"
  shows "run pcap_callback k (map (take SNAP_LEN) (ps @ p # qs)) = Inl f"
  using assms run_printable [OF assms(1), of k]
  by (simp add: run_append run.simps pcap_callback_def)

section \<open>Properties\<close>

text \<open>
  A capture on the default device dumps and prints the first ten frames: when the library
  accepts the device and the filter and every one of the first ten frames can be dissected,
  the program ends successfully having saved each of them before printing it, in the order of
  arrival and numbered from 1, and touches no later frame.
\<close>

theorem sniffer_captures_ten:
  assumes "first_device pcap = Some dev" "netmask_ok pcap" "live_ok pcap" "ethernet pcap"
    and "compile_ok pcap" "filter_ok pcap"
    and "10 \<le> length (frames pcap)" "list_all printable_frame (take 10 (frames pcap))"
  shows "sniffer_main [] pcap =
    Inr (True, CaptureInfo dev (snd (net_mask pcap)) (fst (net_mask pcap)) 10 ''ip''
                 # reports 1 (take 10 (frames pcap)) @ [CaptureComplete])"
proof -
  obtain net mask where "net_mask pcap = (net, mask)" by (cases "net_mask pcap") auto
  with assms run_printable [OF assms(8), of 1] show ?thesis
    by (simp add: sniffer_main_def pcap_loop_def)
qed

definition demo_pcap :: pcap_lib where
  "demo_pcap = \<lparr>first_device = Some ''eth0'', netmask_ok = True, net_mask = (0, 0), live_ok = True,
     ethernet = True, compile_ok = True, filter_ok = True, frames = replicate 12 udp_to_10_6\<rparr>"

lemma udp_to_10_6_printable: "printable_frame udp_to_10_6"
proof -
  have len: "42 \<le> length udp_to_10_6" by (simp add: udp_to_10_6_def)
  have "20 \<le> size_ip_of udp_to_10_6"
    by (simp add: udp_to_10_6_def size_ip_of_def ip_hl_def nth_append)
  moreover have "udp_to_10_6 ! 31 = 17" by (simp add: udp_to_10_6_def nth_append)
  ultimately have "\<exists>r. got_packet 0 udp_to_10_6 = Inr r"
    by (simp add: got_packet_fields [OF len] protocol_of_def)
  moreover have "take SNAP_LEN udp_to_10_6 = udp_to_10_6" by (simp add: udp_to_10_6_def)
  ultimately show ?thesis by (auto simp: printable_frame_def)
qed

theorem sniffer_captures_ten_witness:
  "sniffer_main [] demo_pcap = Inr (True, CaptureInfo ''eth0'' 0 0 10 ''ip''
     # reports 1 (replicate 10 udp_to_10_6) @ [CaptureComplete])"
  using sniffer_captures_ten [of demo_pcap "''eth0''"] udp_to_10_6_printable
  by (simp add: demo_pcap_def list_all_iff)

text \<open>
  With one argument, the name of an interface, the program leaves the whole capture out.
\<close>

lemma sniffer_named_device_ignored: "sniffer_main [dev] pcap = Inr (True, [])"
  by (simp add: sniffer_main_def)

end
