(* ===== verification/TcpClient.thy ===== *)
theory TcpClient
  imports BroadcastServer Transceiver
begin

text \<open>
  The interactive TCP client, \<open>lesson3/tcp_client/main.cpp\<close> (the branch without
  \<open>_WIN32\<close>): the questions it asks before it connects, the connection, \<open>RecvFile\<close>, and
  the loop that sends a line and reads the answer. \<open>send_request\<close> is the function of
  \<open>SendLoop\<close>, which both programs of the lesson hold a copy of. The resolver calls, the
  uninitialised memory the code reads and the results of system calls are parameters.
\<close>

section \<open>Questions\<close>

text \<open>
  Tokens the user types are a list; a question that finds none left waits. The answer to the
  menu is an \<open>int\<close> stored in a \<open>size_t\<close>, so a negative one is large.
\<close>

fun menu_choice :: "string list \<Rightarrow> (nat \<times> string list) outcome" where
  "menu_choice [] = Inl Blocked"
| "menu_choice (t # ts) =
     bind_out (stoi t) (\<lambda>i.
       let int_user_answer = (word_of_int i :: 64 word)
       in if int_user_answer = 0 \<or> int_user_answer > 3 then menu_choice ts
          else Inr (unat int_user_answer, ts))"

type_synonym ip6 = "128 word"

datatype endpoint = V4 sockaddr_in | V6 "16 word" ip6

record resolver =
  gethostbyname :: "string \<Rightarrow> ip option"
  inet_addr :: "string \<Rightarrow> ip"
  inet_pton6 :: "string \<Rightarrow> ip6 option"

text \<open>
  The address to connect to. A failed \<open>gethostbyname\<close> returns a null pointer, which the
  code reads through; a failed \<open>inet_pton\<close> leaves the structure as it was (\<open>a0\<close>).
\<close>

definition ask_endpoint :: "resolver \<Rightarrow> ip6 \<Rightarrow> string list \<Rightarrow> (endpoint \<times> string) outcome" where
  "ask_endpoint r a0 ts =
     bind_out (menu_choice ts) (\<lambda>(choice, ts1).
     bind_out (token_of_length 1 ts1) (\<lambda>(port_server, ts2).
     bind_out (stoi port_server) (\<lambda>port.
       let sin_port = htons (word_of_int port)
       in if choice = 1 then
            bind_out (token_of_length 1 ts2) (\<lambda>(addr_server, ts3).
              case gethostbyname r addr_server of
                None \<Rightarrow> Inl NullDeref
              | Some a \<Rightarrow> Inr (V4 \<lparr>sin_port = sin_port, sin_addr = a\<rparr>, addr_server))
          else if choice = 2 then
            bind_out (token_of_length 7 ts2) (\<lambda>(addr_server, ts3).
              Inr (V4 \<lparr>sin_port = sin_port, sin_addr = inet_addr r addr_server\<rparr>, addr_server))
          else
            bind_out (token_of_length 7 ts2) (\<lambda>(addr_server, ts3).
              Inr (V6 sin_port (case inet_pton6 r addr_server of Some a \<Rightarrow> a | None \<Rightarrow> a0), addr_server)))))"

section \<open>Connection\<close>

datatype tcp_out =
    Connected endpoint
  | SentBytes string
  | Response string
  | FileWritten string string
  | FileResult bool string
  | ClosedSocket

datatype tcp_pc = Prompt | ExitOk | ExitFail

record tcp_client =
  tcp_pc :: tcp_pc
  recv_buffer :: string

definition tcp_connect ::
    "endpoint \<Rightarrow> int \<Rightarrow> int \<Rightarrow> int \<Rightarrow> int \<Rightarrow> tcp_client launch \<times> tcp_out list" where
  "tcp_connect ep sock connected nonblocking nodelay =
     (if sock = 0 then (ExitFailure, [])
      else if connected \<noteq> 0 then (ExitFailure, [ClosedSocket])
      else if nonblocking < 0 then (ExitFailure, [Connected ep, ClosedSocket])
      else if nodelay < 0 then (ExitFailure, [Connected ep, ClosedSocket])
      else (Started \<lparr>tcp_pc = Prompt, recv_buffer = replicate 256 NUL\<rparr>, [Connected ep]))"

section \<open>Receiving a file\<close>

definition pathfile :: string where
  "pathfile = ''i:/''"

definition file_not_found :: string where
  "file_not_found = ''FILE NOT FOUND!''"

definition saved_name :: "nat \<Rightarrow> string" where
  "saved_name draw = pathfile @ ''in_'' @ nat_str (draw mod 1000) @ ''.txt''"

text \<open>
  \<open>RecvFile\<close>: \<open>junk\<close> is what the uninitialised array holds, \<open>draw\<close> what \<open>rand\<close> returns,
  \<open>writable\<close> says which names \<open>fopen\<close> can open for writing. All 256 bytes of the array
  are offered to \<open>recv\<close>, the byte behind the received ones becomes a line feed, and the
  array is then read as a C string.
\<close>

fun recv_file ::
    "string \<Rightarrow> nat \<Rightarrow> (string \<Rightarrow> bool) \<Rightarrow> recv_result list \<Rightarrow> ((bool \<times> string) \<times> tcp_out list) outcome" where
  "recv_file junk draw writable [] = Inl Blocked"
| "recv_file junk draw writable (RecvFailed e # rs) =
     (if e = EINTR then recv_file junk draw writable rs
      else Inr ((False, ''FILE ACCEPTANCE ERROR!''), []))"
| "recv_file junk draw writable (Bytes d # rs) =
     (let recv_bytes = min (length junk) (length d);
          buf = blit (take recv_bytes d) junk
      in if recv_bytes > 0 then
           bind_out (put_at recv_bytes LF buf) (\<lambda>buf.
           bind_out (c_str buf) (\<lambda>text.
             if str_find file_not_found text \<noteq> None then Inr ((False, file_not_found), [])
             else let filename = saved_name draw
                  in if \<not> writable filename then Inl NullDeref
                     else Inr ((True, filename), [FileWritten filename (take recv_bytes buf)])))
         else Inr ((False, []), []))"

section \<open>The loop\<close>

text \<open>Reading the answer to any other line, until \<open>recv\<close> has no more.\<close>

fun read_responses :: "string \<Rightarrow> recv_result list \<Rightarrow> (string \<times> tcp_out list) outcome" where
  "read_responses buf [] = Inl Blocked"
| "read_responses buf (RecvFailed e # rs) =
     (if e = EINTR then read_responses buf rs else Inr (buf, []))"
| "read_responses buf (Bytes d # rs) =
     (let recv_bytes = min (length buf - 1) (length d);
          b = blit (take recv_bytes d) buf
      in if recv_bytes > 0 then
           bind_out (put_at recv_bytes NUL b) (\<lambda>b'.
           bind_out (read_responses b' rs) (\<lambda>(b'', os).
             Inr (b'', Response (take recv_bytes b') # os)))
         else Inr (b, []))"

record tcp_event =
  typed :: "string option"
  sends :: "send_answer list"
  recvs :: "recv_result list"
  stack_junk :: string
  drawn :: nat
  may_write :: "string \<Rightarrow> bool"

definition tcp_turn :: "(tcp_client, tcp_event, tcp_out) handler" where
  "tcp_turn s e =
     (if tcp_pc s \<noteq> Prompt then Inr (s, [])
      else case typed e of
        None \<Rightarrow> Inr (s\<lparr>tcp_pc := ExitOk\<rparr>, [ClosedSocket])
      | Some line \<Rightarrow>
          let request = line @ [CR, LF]
          in case send_request request (sends e) of
               None \<Rightarrow> Inl Blocked
             | Some (ok, d, as') \<Rightarrow>
                 if \<not> ok then Inr (s\<lparr>tcp_pc := ExitFail\<rparr>, [SentBytes d, ClosedSocket])
                 else if str_find ''getfile'' request \<noteq> None then
                   bind_out (recv_file (stack_junk e) (drawn e) (may_write e) (recvs e))
                     (\<lambda>((found, t), os). Inr (s, SentBytes d # os @ [FileResult found t]))
                 else
                   bind_out (read_responses (recv_buffer s) (recvs e))
                     (\<lambda>(b, os). Inr (s\<lparr>recv_buffer := b\<rparr>, SentBytes d # os)))"

section \<open>Lemmas\<close>

lemma stoi_range: "stoi s = Inr i \<Longrightarrow> - (2 ^ 31) \<le> i \<and> i < 2 ^ 31"
  by (auto simp: stoi_def Let_def split: if_splits)

text \<open>What the test on the unsigned copy of the answer means for the number typed.\<close>

lemma menu_test:
  assumes "- (2 ^ 31) \<le> i" "i < 2 ^ 31"
  shows "(word_of_int i :: 64 word) = 0 \<or> (word_of_int i :: 64 word) > 3 \<longleftrightarrow> i < 1 \<or> 3 < i"
    and "1 \<le> i \<Longrightarrow> unat (word_of_int i :: 64 word) = nat i"
proof -
  have u: "uint (word_of_int i :: 64 word) = (if i < 0 then i + 2 ^ 64 else i)"
  proof (cases "i < 0")
    case True
    have "i mod 2 ^ 64 = (i + 2 ^ 64) mod 2 ^ 64" by simp
    also have "\<dots> = i + 2 ^ 64" using True assms by (intro mod_pos_pos_trivial) simp_all
    finally show ?thesis using True by (simp add: unsigned_of_int take_bit_eq_mod)
  next
    case False
    with assms show ?thesis by (simp add: unsigned_of_int take_bit_eq_mod)
  qed
  have "(word_of_int i :: 64 word) = 0 \<longleftrightarrow> uint (word_of_int i :: 64 word) = 0"
    by (metis uint_0_iff)
  moreover have "(word_of_int i :: 64 word) > 3 \<longleftrightarrow> uint (word_of_int i :: 64 word) > 3"
    by (simp add: word_less_def)
  ultimately show "(word_of_int i :: 64 word) = 0 \<or> (word_of_int i :: 64 word) > 3 \<longleftrightarrow> i < 1 \<or> 3 < i"
    unfolding u using assms by auto
  show "1 \<le> i \<Longrightarrow> unat (word_of_int i :: 64 word) = nat i"
    using u by (simp add: unat_eq_nat_uint)
qed

lemma menu_choice_Cons:
  "stoi t = Inr i \<Longrightarrow> menu_choice (t # ts) = (if i < 1 \<or> 3 < i then menu_choice ts else Inr (nat i, ts))"
  using stoi_range [of t i] menu_test [of i] by (simp add: Let_def)

text \<open>The fragments a peer sends before \<open>recv\<close> has no more, and whether it comes to that.\<close>

fun fragments :: "recv_result list \<Rightarrow> string list" where
  "fragments [] = []"
| "fragments (RecvFailed e # rs) = (if e = EINTR then fragments rs else [])"
| "fragments (Bytes d # rs) = (if d = [] then [] else d # fragments rs)"

fun pause_comes :: "recv_result list \<Rightarrow> bool" where
  "pause_comes [] = False"
| "pause_comes (RecvFailed e # rs) = (if e = EINTR then pause_comes rs else True)"
| "pause_comes (Bytes d # rs) = (if d = [] then True else pause_comes rs)"

lemma read_responses_fragments:
  "length b = 256 \<Longrightarrow> pause_comes rs \<Longrightarrow>
     \<exists>b'. read_responses b rs = Inr (b', map (\<lambda>d. Response (take 255 d)) (fragments rs)) \<and> length b' = 256"
proof (induction rs arbitrary: b rule: fragments.induct)
  case (3 d rs)
  show ?case
  proof (cases "d = []")
    case True
    with 3 show ?thesis by (simp add: blit_def)
  next
    case False
    let ?n = "min (length b - 1) (length d)"
    let ?b = "(blit (take ?n d) b)[?n := NUL]"
    have n: "?n < length b" "0 < ?n" using 3 False by auto
    have len: "length (take ?n d) = ?n" by simp
    have "length ?b = 256" using 3 n by simp
    with 3 False obtain b' where
        "read_responses ?b rs = Inr (b', map (\<lambda>d. Response (take 255 d)) (fragments rs))" "length b' = 256"
      by (metis pause_comes.simps(3))
    moreover have "take ?n ?b = take 255 d"
      using 3 by (simp add: blit_def take_Cons' min_def)
    ultimately show ?thesis
      using 3 False n by (simp add: Let_def put_at_ok)
  qed
qed auto

lemma recv_file_Bytes:
  assumes "length junk = 256" "d \<noteq> []" "length d < 256"
  shows "recv_file junk draw w (Bytes d # rs) =
    bind_out (c_str (d @ LF # drop (Suc (length d)) junk)) (\<lambda>text.
      if str_find file_not_found text \<noteq> None then Inr ((False, file_not_found), [])
      else if \<not> w (saved_name draw) then Inl NullDeref
      else Inr ((True, saved_name draw), [FileWritten (saved_name draw) d]))"
proof -
  have "take (length d) (d @ LF # drop (Suc (length d)) junk) = d" by simp
  then show ?thesis
    using assms by (cases "c_str (d @ LF # drop (Suc (length d)) junk)")
      (simp_all add: Let_def put_at_ok blit_put_end)
qed

lemma recv_file_overrun:
  assumes "length junk = 256" "256 \<le> length d"
  shows "recv_file junk draw w (Bytes d # rs) = Inl OutOfBounds"
  using assms by (simp add: Let_def min_def put_at_def)

section \<open>The interface\<close>

definition tcp_inv :: "tcp_client \<Rightarrow> bool" where
  "tcp_inv s \<longleftrightarrow> length (recv_buffer s) = 256"

text \<open>
  Events the loop answers without a fault: the line is sent whole, and for any line that
  holds no \<open>getfile\<close> the peer pauses in the end.
\<close>

definition talk :: "tcp_event \<Rightarrow> bool" where
  "talk e \<longleftrightarrow> (case typed e of None \<Rightarrow> True
     | Some line \<Rightarrow> length line < 2 ^ 32 \<and> str_find ''getfile'' (line @ [CR, LF]) = None
         \<and> completes (length line + 2) (sends e) \<and> pause_comes (recvs e))"

lemma tcp_turn_talk:
  assumes "tcp_inv s" "tcp_pc s = Prompt" "talk e" "typed e = Some line"
  shows "\<exists>b. tcp_turn s e = Inr (s\<lparr>recv_buffer := b\<rparr>,
      SentBytes (line @ [CR, LF]) # map (\<lambda>d. Response (take 255 d)) (fragments (recvs e))) \<and> length b = 256"
proof -
  have "\<exists>rest. send_request (line @ [CR, LF]) (sends e) = Some (True, line @ [CR, LF], rest)"
    using assms by (intro send_from_completes [of _ 0, simplified, folded send_request_def])
      (simp_all add: talk_def)
  then obtain rest where r: "send_request (line @ [CR, LF]) (sends e) = Some (True, line @ [CR, LF], rest)" ..
  from assms read_responses_fragments [of "recv_buffer s" "recvs e"] obtain b where
      "read_responses (recv_buffer s) (recvs e)
         = Inr (b, map (\<lambda>d. Response (take 255 d)) (fragments (recvs e)))" "length b = 256"
    by (auto simp: talk_def tcp_inv_def)
  with r assms show ?thesis
    by (intro exI [of _ b]) (simp add: tcp_turn_def talk_def Let_def)
qed

interpretation tcp: halting_machine tcp_turn tcp_inv talk "\<lambda>s. tcp_pc s \<noteq> Prompt"
proof unfold_locales
  fix s e
  assume s: "tcp_inv s" "talk e"
  show "\<exists>s' os. tcp_turn s e = Inr (s', os) \<and> tcp_inv s'"
  proof (cases "tcp_pc s = Prompt \<and> typed e \<noteq> None")
    case True
    then obtain line where "typed e = Some line" by auto
    from tcp_turn_talk [OF s(1) _ s(2) this] True show ?thesis by (auto simp: tcp_inv_def)
  next
    case False
    with s show ?thesis by (auto simp: tcp_turn_def tcp_inv_def)
  qed
qed (simp add: tcp_turn_def)

text \<open>What a whole conversation shows.\<close>

definition talk_outs :: "tcp_event \<Rightarrow> tcp_out list" where
  "talk_outs e = (case typed e of None \<Rightarrow> [ClosedSocket]
     | Some line \<Rightarrow> SentBytes (line @ [CR, LF]) # map (\<lambda>d. Response (take 255 d)) (fragments (recvs e)))"

lemma tcp_run_talk:
  "tcp_inv s \<Longrightarrow> tcp_pc s = Prompt \<Longrightarrow> list_all (\<lambda>e. talk e \<and> typed e \<noteq> None) es \<Longrightarrow>
     \<exists>s'. run tcp_turn s es = Inr (s', concat (map talk_outs es)) \<and> tcp_inv s' \<and> tcp_pc s' = Prompt"
proof (induction es arbitrary: s)
  case Nil
  then show ?case by simp
next
  case (Cons e es)
  then obtain line where "typed e = Some line" "talk e" by auto
  with tcp_turn_talk [of s e line] Cons.prems obtain b where
      1: "tcp_turn s e = Inr (s\<lparr>recv_buffer := b\<rparr>, talk_outs e)" "length b = 256"
    by (auto simp: talk_outs_def)
  then have "tcp_inv (s\<lparr>recv_buffer := b\<rparr>)" by (simp add: tcp_inv_def)
  with Cons.IH [OF this] Cons.prems obtain s' where
      "run tcp_turn (s\<lparr>recv_buffer := b\<rparr>) es = Inr (s', concat (map talk_outs es))"
      "tcp_inv s'" "tcp_pc s' = Prompt" by auto
  with 1 show ?case by auto
qed

section \<open>Properties\<close>

text \<open>
  The menu is left only with an answer the code has a case for: the choice is 1, 2 or 3,
  it is the number of the last token read, and every token before it was a number outside that
  range (a negative one included, although the code compares it as an unsigned number).
\<close>

theorem tcp_menu_choice:
  "menu_choice ts = Inr (c, rest) \<longleftrightarrow>
     (\<exists>pre t. ts = pre @ t # rest \<and> stoi t = Inr (int c) \<and> 1 \<le> c \<and> c \<le> 3
        \<and> list_all (\<lambda>u. case stoi u of Inl f \<Rightarrow> False | Inr i \<Rightarrow> i < 1 \<or> 3 < i) pre)"
proof (induction ts)
  case Nil
  then show ?case by simp
next
  case (Cons t ts)
  show ?case
  proof (cases "stoi t")
    case (Inl f)
    then show ?thesis by (auto simp: Cons_eq_append_conv)
  next
    case (Inr i)
    show ?thesis
    proof (cases "i < 1 \<or> 3 < i")
      case True
      then show ?thesis unfolding menu_choice_Cons [OF Inr] using Inr Cons.IH
        by (auto simp: Cons_eq_append_conv)
    next
      case False
      then show ?thesis unfolding menu_choice_Cons [OF Inr] using Inr
        by (auto simp: Cons_eq_append_conv)
    qed
  qed
qed

theorem tcp_menu_choice_witness: "menu_choice [''0'', ''-1'', ''2'', ''7777''] = Inr (2, [''7777''])"
proof -
  have "stoi ''0'' = Inr 0" "stoi ''-1'' = Inr (- 1)" "stoi ''2'' = Inr 2" by code_simp+
  then have "list_all (\<lambda>u. case stoi u of Inl f \<Rightarrow> False | Inr i \<Rightarrow> i < 1 \<or> 3 < i) [''0'', ''-1'']"
      "stoi ''2'' = Inr (int 2)" by simp_all
  then show ?thesis
    unfolding tcp_menu_choice by (intro exI [of _ "[''0'', ''-1'']"] exI [of _ "''2''"]) simp
qed

text \<open>
  A conversation without \<open>getfile\<close> is shown faithfully: whatever lines are typed, as
  long as the peer takes each of them and pauses in the end, the loop sends every line with
  CR LF behind it, shows each received fragment (its first 255 bytes) in order and before
  the next line, faults never, and at the end of the input closes the socket and stops.
\<close>

theorem tcp_client_session:
  assumes "tcp_inv s" "tcp_pc s = Prompt" "list_all (\<lambda>e. talk e \<and> typed e \<noteq> None) es" "typed eof = None"
  shows "\<exists>s'. run tcp_turn s (es @ eof # later) = Inr (s', concat (map talk_outs es) @ [ClosedSocket])
     \<and> tcp_pc s' = ExitOk"
proof -
  from tcp_run_talk [OF assms(1-3)] obtain s1 where
      1: "run tcp_turn s es = Inr (s1, concat (map talk_outs es))" "tcp_pc s1 = Prompt" by auto
  let ?s = "s1\<lparr>tcp_pc := ExitOk\<rparr>"
  have "tcp_turn s1 eof = Inr (?s, [ClosedSocket])"
    using 1 assms(4) by (simp add: tcp_turn_def)
  moreover have "run tcp_turn ?s later = Inr (?s, [])" by (rule tcp.run_halted) simp
  ultimately show ?thesis using 1 by (auto simp: run_append run.simps)
qed

definition demo_talk :: "string option \<Rightarrow> recv_result list \<Rightarrow> tcp_event" where
  "demo_talk line rs = \<lparr>typed = line, sends = [Accepted 4], recvs = rs, stack_junk = [],
     drawn = 0, may_write = (\<lambda>_. True)\<rparr>"

theorem tcp_client_session_witness:
  "\<exists>s'. run tcp_turn \<lparr>tcp_pc = Prompt, recv_buffer = replicate 256 NUL\<rparr>
       [demo_talk (Some ''hi'') [Bytes ''a'', RecvFailed EINTR, Bytes ''b'', RecvFailed EAGAIN],
        demo_talk None []]
     = Inr (s', [SentBytes (''hi'' @ [CR, LF]), Response ''a'', Response ''b'', ClosedSocket])"
proof -
  have "str_find ''getfile'' (''hi'' @ [CR, LF]) = None" by simp
  then show ?thesis
    using tcp_client_session [of "\<lparr>tcp_pc = Prompt, recv_buffer = replicate 256 NUL\<rparr>"
        "[demo_talk (Some ''hi'') [Bytes ''a'', RecvFailed EINTR, Bytes ''b'', RecvFailed EAGAIN]]"
        "demo_talk None []" "[]"]
    by (auto simp: tcp_inv_def demo_talk_def talk_def talk_outs_def)
qed

text \<open>
  \<open>RecvFile\<close> on an answer of the server: it runs without undefined behaviour exactly when
  the answer is shorter than the array (a full one puts the line feed outside it), a
  terminator happens to lie in the answer or in what the array held behind it, and the file
  can be opened unless the text read is the refusal.
\<close>

theorem recv_file_safe_iff:
  assumes "length junk = 256" "d \<noteq> []"
  shows "(\<exists>r. recv_file junk draw w (Bytes d # rs) = Inr r) \<longleftrightarrow>
    length d < 256 \<and> NUL \<in> set (d @ drop (Suc (length d)) junk)
    \<and> (w (saved_name draw)
       \<or> str_find file_not_found (takeWhile (\<lambda>c. c \<noteq> NUL) (d @ LF # drop (Suc (length d)) junk)) \<noteq> None)"
proof (cases "length d < 256")
  case False
  with assms show ?thesis by (simp add: recv_file_overrun del: recv_file.simps)
next
  case True
  let ?b = "d @ LF # drop (Suc (length d)) junk"
  note step = recv_file_Bytes [OF assms True, of draw w rs]
  show ?thesis
  proof (cases "NUL \<in> set ?b")
    case False
    then have "c_str ?b = Inl Unterminated" by (simp add: c_str_Inl)
    with False True show ?thesis unfolding step by simp
  next
    case nul: True
    then have "c_str ?b = Inr (takeWhile (\<lambda>c. c \<noteq> NUL) ?b)" by (rule c_str_takeWhile)
    with nul True show ?thesis unfolding step by auto
  qed
qed

theorem recv_file_safe_iff_witness:
  "\<exists>r. recv_file (replicate 256 NUL) 7 (\<lambda>_. True) [Bytes ''line''] = Inr r"
  by (subst recv_file_safe_iff) simp_all

end
