(* ===== verification/PcppSniffer.thy ===== *)
theory PcppSniffer
  imports Machine
begin

text \<open>
  The capture program of \<open>lesson2/PcapPlPl_snifer/main.cpp\<close>, which uses the PcapPlusPlus
  library. The devices of the library are parameters: a writer has a constructor and the
  operations \<open>open\<close>, \<open>writePackets\<close> and \<open>close\<close> on its own state \<open>'d\<close> and on the files
  \<open>'f\<close>; a live device says what it captures and which packets it can send.
\<close>

section \<open>Files\<close>

record ('d, 'f, 'p) writer_api =
  new_writer :: "string \<Rightarrow> 'd"
  writer_open :: "'d \<Rightarrow> 'f \<Rightarrow> bool \<times> 'd \<times> 'f"
  write_packets :: "'d \<Rightarrow> 'p list \<Rightarrow> 'f \<Rightarrow> bool \<times> 'f"
  writer_close :: "'d \<Rightarrow> 'f \<Rightarrow> 'f"

definition name_wr_file :: string where
  "name_wr_file = ''./pcpp_capture_packet''"

text \<open>
  \<open>WriteFile\<close>: every call constructs a device of its own, so the one that is written to is
  not the one that was opened.
\<close>

definition WriteFile :: "('d, 'f, 'p) writer_api \<Rightarrow> 'p list \<Rightarrow> 'f \<Rightarrow> bool \<times> 'f" where
  "WriteFile api rawPacketVec files =
     (let (opened, d1, files1) = writer_open api (new_writer api name_wr_file) files
      in if \<not> opened then (False, files1)
         else let (written, files2) = write_packets api (new_writer api name_wr_file) rawPacketVec files1
              in if \<not> written then (False, writer_close api (new_writer api name_wr_file) files2)
                 else (True, writer_close api (new_writer api name_wr_file) files2))"

text \<open>
  \<open>OpenFile\<close>: what the reader answers is its argument, \<open>None\<close> when the file cannot be opened,
  else the first packet if there is one. The last statement closes the reader and the function
  ends there without a value.
\<close>

datatype pcpp_out =
    FileNotOpened
  | NoFirstPacket
  | Addresses string string
  | DeviceInfo string
  | DeviceNotFound string
  | DeviceNotOpened
  | PacketText string
  | Saved bool
  | SendFailedShown
  | SentCount nat
  | CaptureClosed

definition OpenFile ::
    "('p option) option \<Rightarrow> ('p \<Rightarrow> (string \<times> string) option) \<Rightarrow> bool outcome \<times> pcpp_out list" where
  "OpenFile reader ipv4 =
     (case reader of
        None \<Rightarrow> (Inr False, [FileNotOpened])
      | Some None \<Rightarrow> (Inr False, [NoFirstPacket])
      | Some (Some rawPacket) \<Rightarrow>
          (Inl MissingReturn,
           case ipv4 rawPacket of None \<Rightarrow> [] | Some (src, dst) \<Rightarrow> [Addresses src dst]))"

section \<open>main\<close>

text \<open>The number of a menu entry, kept in a \<open>uint8_t\<close>.\<close>

fun menu_number :: "nat \<Rightarrow> string list \<Rightarrow> (nat \<times> string list) outcome" where
  "menu_number most [] = Inl Blocked"
| "menu_number most (t # ts) =
     bind_out (stoi t) (\<lambda>i.
       let choose_user_num = (word_of_int i :: 8 word)
       in if choose_user_num = 0 \<or> choose_user_num > word_of_nat most then menu_number most ts
          else Inr (unat choose_user_num, ts))"

fun one_letter :: "string list \<Rightarrow> (string \<times> string list) outcome" where
  "one_letter [] = Inl Blocked"
| "one_letter (t # ts) = (if length t = 0 \<or> length t > 1 then one_letter ts else Inr (t, ts))"

record 'p live_device =
  dev_name :: string
  dev_opens :: bool
  captures :: "'p list"
  send_ok :: "'p \<Rightarrow> bool"

record 'p pcpp_lib =
  device_by_name :: "string \<Rightarrow> 'p live_device option"
  device_by_ip :: "string \<Rightarrow> 'p live_device option"
  file_reader :: "string \<Rightarrow> 'p option option"
  ipv4_of :: "'p \<Rightarrow> (string \<times> string) option"
  packet_text :: "'p \<Rightarrow> string"

text \<open>The last loop: each packet is sent, and the size of the whole vector is shown each time.\<close>

definition resend :: "'p live_device \<Rightarrow> 'p list \<Rightarrow> pcpp_out list" where
  "resend dev raw =
     concat (map (\<lambda>p. (if send_ok dev p then [] else [SendFailedShown]) @ [SentCount (length raw)]) raw)"

definition capture_session ::
    "('d, 'f, 'p) writer_api \<Rightarrow> 'p pcpp_lib \<Rightarrow> 'p live_device \<Rightarrow> string list \<Rightarrow> 'f
       \<Rightarrow> (bool \<times> pcpp_out list \<times> 'f) outcome" where
  "capture_session api lib dev ts files =
     (if \<not> dev_opens dev then Inr (False, [DeviceInfo (dev_name dev), DeviceNotOpened], files)
      else
        let raw = captures dev;
            o1 = DeviceInfo (dev_name dev) # map (\<lambda>p. PacketText (packet_text lib p)) raw
        in bind_out (one_letter ts) (\<lambda>(ans, _).
             let (o2, files') = (if ans = ''Y'' \<or> ans = ''y''
                                 then (let (ok, f) = WriteFile api raw files in ([Saved ok], f))
                                 else ([], files))
             in Inr (True, o1 @ o2 @ resend dev raw @ [CaptureClosed], files')))"

definition pcpp_main ::
    "('d, 'f, 'p) writer_api \<Rightarrow> 'p pcpp_lib \<Rightarrow> string list \<Rightarrow> 'f \<Rightarrow> (bool \<times> pcpp_out list \<times> 'f) outcome" where
  "pcpp_main api lib ts files =
     bind_out (menu_number 3 ts) (\<lambda>(c, ts1).
       if c = 1 then
         bind_out (token_of_length 0 ts1) (\<lambda>(path, ts2).
           let (r, os) = OpenFile (file_reader lib path) (ipv4_of lib)
           in bind_out r (\<lambda>_. bind_out (token_of_length 0 ts2) (\<lambda>_. Inr (True, os, files))))
       else if c = 3 then Inr (True, [], files)
       else
         bind_out (menu_number 2 ts1) (\<lambda>(by_what, ts2).
         bind_out (token_of_length (if by_what = 1 then 2 else 6) ts2) (\<lambda>(key, ts3).
           case (if by_what = 1 then device_by_name lib key else device_by_ip lib key) of
             None \<Rightarrow> Inr (False, [DeviceNotFound key], files)
           | Some dev \<Rightarrow> capture_session api lib dev ts3 files)))"

section \<open>Lemmas\<close>

lemma unat_u8_of_int: "unat (word_of_int i :: 8 word) = nat (i mod 256)"
  by (simp add: unat_eq_nat_uint unsigned_of_int take_bit_eq_mod)

lemma menu_number_Cons:
  assumes "stoi t = Inr i" "most < 256"
  shows "menu_number most (t # ts) =
    (if i mod 256 = 0 \<or> int most < i mod 256 then menu_number most ts else Inr (nat (i mod 256), ts))"
proof -
  have "(word_of_int i :: 8 word) = 0 \<longleftrightarrow> i mod 256 = 0"
  proof -
    have "(word_of_int i :: 8 word) = 0 \<longleftrightarrow> unat (word_of_int i :: 8 word) = 0"
      by (metis unsigned_0 unsigned_eq_0_iff)
    then show ?thesis unfolding unat_u8_of_int
      using pos_mod_sign [of 256 i] by linarith
  qed
  moreover have "(word_of_int i :: 8 word) > word_of_nat most \<longleftrightarrow> int most < i mod 256"
  proof -
    have "unat (word_of_nat most :: 8 word) = most"
      using assms(2) by (simp add: unsigned_of_nat take_bit_nat_eq_self)
    then show ?thesis unfolding word_less_nat_alt unat_u8_of_int
      using pos_mod_sign [of 256 i] by linarith
  qed
  ultimately show ?thesis
    by (simp add: assms(1) unat_u8_of_int Let_def)
qed

section \<open>Properties\<close>

text \<open>
  A menu takes numbers modulo 256: the number typed is cut to a byte before it is
  tested, so the choice is the remainder of the last token read, which lies between 1 and
  the number of entries, and the tokens skipped are those whose remainder does not (257 is
  taken for 1 and 256 is asked again).
\<close>

theorem pcpp_menu_modulo:
  assumes "most < 256"
  shows "menu_number most ts = Inr (c, rest) \<longleftrightarrow>
     (\<exists>pre t i. ts = pre @ t # rest \<and> stoi t = Inr i \<and> int c = i mod 256 \<and> 1 \<le> c \<and> c \<le> most
        \<and> list_all (\<lambda>u. case stoi u of Inl f \<Rightarrow> False
              | Inr j \<Rightarrow> j mod 256 = 0 \<or> int most < j mod 256) pre)"
proof (induction ts)
  case Nil
  then show ?case by simp
next
  case (Cons t ts)
  show ?case
  proof (cases "stoi t")
    case (Inl f)
    then show ?thesis by (auto simp: Cons_eq_append_conv)
  next
    case (Inr i)
    have nn: "0 \<le> i mod 256" by simp
    show ?thesis
    proof (cases "i mod 256 = 0 \<or> int most < i mod 256")
      case True
      then show ?thesis unfolding menu_number_Cons [OF Inr assms] using Inr Cons.IH nn
        by (auto simp: Cons_eq_append_conv)
    next
      case False
      then show ?thesis unfolding menu_number_Cons [OF Inr assms] using Inr nn
        by (auto simp: Cons_eq_append_conv)
    qed
  qed
qed

theorem pcpp_menu_modulo_witness: "menu_number 3 [''256'', ''257'', ''x''] = Inr (1, [''x''])"
proof -
  have "stoi ''256'' = Inr 256" "stoi ''257'' = Inr 257" by code_simp+
  then show ?thesis
    by (subst pcpp_menu_modulo) (simp, intro exI [of _ "[''256'']"] exI [of _ "''257''"], simp)
qed

text \<open>
  What the header of the library says of a writer whose constructor has run and nothing else:
  the file is not open yet, writing returns false and writes nothing.
\<close>

definition writes_only_when_open :: "('d, 'f, 'p) writer_api \<Rightarrow> bool" where
  "writes_only_when_open api \<longleftrightarrow>
     (\<forall>name ps files. write_packets api (new_writer api name) ps files = (False, files))"

definition emptied :: "('d, 'f, 'p) writer_api \<Rightarrow> 'f \<Rightarrow> 'f" where
  "emptied api files =
     (let (opened, d, files1) = writer_open api (new_writer api name_wr_file) files
      in if opened then writer_close api (new_writer api name_wr_file) files1 else files1)"

lemma WriteFile_unopened:
  "writes_only_when_open api \<Longrightarrow> WriteFile api raw files = (False, emptied api files)"
  by (simp add: WriteFile_def emptied_def writes_only_when_open_def split: prod.splits)

lemma capture_session_ok:
  assumes "writes_only_when_open api" "dev_opens dev"
  shows "capture_session api lib dev ts files =
    bind_out (one_letter ts) (\<lambda>(ans, _). Inr (True,
      DeviceInfo (dev_name dev) # map (\<lambda>p. PacketText (packet_text lib p)) (captures dev)
        @ (if ans = ''Y'' \<or> ans = ''y'' then [Saved False] else []) @ resend dev (captures dev) @ [CaptureClosed],
      if ans = ''Y'' \<or> ans = ''y'' then emptied api files else files))"
  using assms by (cases "one_letter ts") (auto simp: capture_session_def WriteFile_unopened Let_def)

lemma resend_no_save [simp]: "Saved b \<notin> set (resend dev raw)"
  by (auto simp: resend_def)

text \<open>
  Captured packets are never saved: over every run of the program, whatever the user
  types and the devices answer, a save is never reported as done, and the files are at the
  end as at the start or as opening and closing an empty capture file leaves them: with a
  writer as the library documents it, nothing of the packets reaches them.
\<close>

theorem pcpp_never_saves:
  assumes "writes_only_when_open api" "pcpp_main api lib ts files = Inr (ok, os, files')"
  shows "Saved True \<notin> set os \<and> (files' = files \<or> files' = emptied api files)"
proof -
  have session: "Saved True \<notin> set os \<and> (files' = files \<or> files' = emptied api files)"
    if "capture_session api lib dev us files = Inr (ok, os, files')" for dev us
  proof (cases "dev_opens dev")
    case True
    show ?thesis using that unfolding capture_session_ok [OF assms(1) True]
      by (auto split: if_splits)
  next
    case False
    with that show ?thesis by (auto simp: capture_session_def)
  qed
  from assms(2) show ?thesis
    by (auto simp: pcpp_main_def OpenFile_def Let_def dest: session
        split: if_splits option.splits prod.splits)
qed

definition demo_api :: "(string \<times> bool, string \<rightharpoonup> nat list, nat) writer_api" where
  "demo_api = \<lparr>new_writer = (\<lambda>n. (n, False)), writer_open = (\<lambda>(n, b) f. (True, (n, True), f(n \<mapsto> []))),
     write_packets = (\<lambda>(n, b) ps f. if b then (True, f(n \<mapsto> the (f n) @ ps)) else (False, f)),
     writer_close = (\<lambda>d f. f)\<rparr>"

definition demo_dev :: "nat live_device" where
  "demo_dev = \<lparr>dev_name = ''eth0'', dev_opens = True, captures = [7, 8], send_ok = (\<lambda>p. p = 7)\<rparr>"

definition demo_lib :: "nat pcpp_lib" where
  "demo_lib = \<lparr>device_by_name = (\<lambda>n. if n = ''eth0'' then Some demo_dev else None),
     device_by_ip = (\<lambda>_. None), file_reader = (\<lambda>_. None), ipv4_of = (\<lambda>_. None), packet_text = nat_str\<rparr>"

lemma demo_stoi: "stoi ''1'' = Inr 1" "stoi ''2'' = Inr 2"
  by code_simp+

lemma demo_capture: "\<exists>os files'. pcpp_main demo_api demo_lib [''2'', ''1'', ''eth0'', ''Y''] Map.empty
     = Inr (True, os, files')"
  by (simp add: pcpp_main_def menu_number_Cons [OF demo_stoi(1)] menu_number_Cons [OF demo_stoi(2)]
      capture_session_def demo_lib_def demo_dev_def Let_def split: prod.splits del: menu_number.simps)

theorem pcpp_never_saves_witness:
  "\<exists>os files'. pcpp_main demo_api demo_lib [''2'', ''1'', ''eth0'', ''Y''] Map.empty = Inr (True, os, files')
     \<and> Saved True \<notin> set os \<and> (files' = Map.empty \<or> files' = Map.empty(name_wr_file \<mapsto> []))"
proof -
  have law: "writes_only_when_open demo_api"
    by (simp add: writes_only_when_open_def demo_api_def)
  have "emptied demo_api Map.empty = Map.empty(name_wr_file \<mapsto> [])"
    by (simp add: emptied_def demo_api_def)
  with demo_capture pcpp_never_saves [OF law, of demo_lib "[''2'', ''1'', ''eth0'', ''Y'']" Map.empty True]
  show ?thesis by metis
qed

end
