(* ===== verification/Qt.thy ===== *)
theory Qt
  imports Prelude
begin

text \<open>
  The part of the Qt library that the programs of lessons 5, 6 and 8 parse and print texts
  with. Qt is not in the repository, so its functions are the fields of a record that every
  model takes as an argument, and what its manual says of them is the predicate
  \<open>qt_documented\<close>, a hypothesis of the theorems that need it. A \<open>QString\<close> is modelled as
  its list of characters. \<open>qt_ref\<close> is an instance of the record that has all documented
  properties; witnesses use it.
\<close>

record qt =
  qt_section :: "string \<Rightarrow> char \<Rightarrow> nat \<Rightarrow> string"
  qt_split :: "string \<Rightarrow> string list"
  qt_percent :: "string \<Rightarrow> string"
  qt_read_line :: "string \<Rightarrow> string"
  qt_stream_line :: "string \<Rightarrow> string"
  qt_to_int :: "string \<Rightarrow> int"
  qt_trimmed :: "string \<Rightarrow> string"
  qt_number :: "nat \<Rightarrow> string"
  qt_md5_hex :: "string \<Rightarrow> string"

section \<open>Fields between separators\<close>

fun join :: "char \<Rightarrow> string list \<Rightarrow> string" where
  "join c [] = []"
| "join c [f] = f"
| "join c (f # fs) = f @ c # join c fs"

fun split_on :: "char \<Rightarrow> string \<Rightarrow> string list" where
  "split_on c [] = [[]]"
| "split_on c (x # xs) =
     (if x = c then [] # split_on c xs
      else case split_on c xs of [] \<Rightarrow> [[x]] | f # fs \<Rightarrow> (x # f) # fs)"

definition field_at :: "string list \<Rightarrow> nat \<Rightarrow> string" where
  "field_at fs k = (if k < length fs then fs ! k else [])"

lemma split_on_nonempty [simp]: "split_on c s \<noteq> []"
  by (induction s) (auto split: list.splits)

lemma split_on_free [simp]: "c \<notin> set s \<Longrightarrow> split_on c s = [s]"
  by (induction s) auto

lemma split_on_append [simp]: "c \<notin> set f \<Longrightarrow> split_on c (f @ c # s) = f # split_on c s"
  by (induction f) (auto split: list.splits)

lemma split_on_join: "fs \<noteq> [] \<Longrightarrow> \<forall>f \<in> set fs. c \<notin> set f \<Longrightarrow> split_on c (join c fs) = fs"
  by (induction c fs rule: join.induct) auto

lemma join_split_on: "join c (split_on c s) = s"
proof (induction s)
  case (Cons x xs)
  then show ?case
    by (cases "split_on c xs"; cases "tl (split_on c xs)") (auto split: list.splits)
qed simp

lemma split_on_fields: "f \<in> set (split_on c s) \<Longrightarrow> c \<notin> set f"
  by (induction s arbitrary: f) (fastforce split: list.splits if_splits)+

lemma field_at_simps [simp]:
  "field_at [] k = []"
  "field_at (f # fs) 0 = f"
  "field_at (f # fs) (Suc k) = field_at fs k"
  by (simp_all add: field_at_def)

section \<open>Tokens between runs of blanks\<close>

text \<open>\<open>split(QRegularExpression("[ \r\n][ \r\n]*"))\<close>: a run of blanks is one separator.\<close>

definition is_blank :: "char \<Rightarrow> bool" where
  "is_blank c \<longleftrightarrow> c = CHR '' '' \<or> c = CR \<or> c = LF"

function split_blanks :: "string \<Rightarrow> string list" where
  "split_blanks s =
     (let w = takeWhile (\<lambda>c. \<not> is_blank c) s;
          r = dropWhile (\<lambda>c. \<not> is_blank c) s
      in if r = [] then [w] else w # split_blanks (dropWhile is_blank r))"
  by pat_completeness auto
termination
proof (relation "measure length", simp)
  fix s w r :: string
  assume r: "r = dropWhile (\<lambda>c. \<not> is_blank c) s" "r \<noteq> []"
  then have "is_blank (hd r)" using hd_dropWhile [of "\<lambda>c. \<not> is_blank c" s] by auto
  then have "dropWhile is_blank r = dropWhile is_blank (tl r)" using r(2) by (cases r) auto
  then have "length (dropWhile is_blank r) < length r"
    using r(2) length_dropWhile_le [of is_blank "tl r"] by (cases r) auto
  also have "\<dots> \<le> length s" using r(1) by (simp add: length_dropWhile_le)
  finally show "(dropWhile is_blank r, s) \<in> measure length" by simp
qed

declare split_blanks.simps [simp del]

lemma takeWhile_until: "\<forall>c \<in> set w. P c \<Longrightarrow> \<not> P b \<Longrightarrow> takeWhile P (w @ b # r) = w"
  by (induction w) auto

lemma dropWhile_until: "\<forall>c \<in> set w. P c \<Longrightarrow> \<not> P b \<Longrightarrow> dropWhile P (w @ b # r) = b # r"
  by (induction w) auto

lemma split_blanks_word: "\<forall>c \<in> set w. \<not> is_blank c \<Longrightarrow> split_blanks w = [w]"
  by (subst split_blanks.simps) simp

lemma split_blanks_step:
  assumes "\<forall>c \<in> set w. \<not> is_blank c" "is_blank b"
  shows "split_blanks (w @ b # r) = w # split_blanks (dropWhile is_blank r)"
  using assms takeWhile_until [of w "\<lambda>c. \<not> is_blank c" b r]
    dropWhile_until [of w "\<lambda>c. \<not> is_blank c" b r]
  by (subst split_blanks.simps) (simp add: Let_def)

lemma split_blanks_nonempty [simp]: "split_blanks s \<noteq> []"
  by (subst split_blanks.simps) (simp add: Let_def)

section \<open>What the manual says\<close>

definition strip :: "string \<Rightarrow> string" where
  "strip s = rev (dropWhile is_space (rev (dropWhile is_space s)))"

definition hex_digit :: "char \<Rightarrow> bool" where
  "hex_digit c \<longleftrightarrow> c \<in> set ''0123456789abcdef''"

definition section_law :: "qt \<Rightarrow> bool" where
  "section_law q \<longleftrightarrow> (\<forall>c fs k. fs \<noteq> [] \<longrightarrow> (\<forall>f \<in> set fs. c \<notin> set f) \<longrightarrow>
     qt_section q (join c fs) c k = (if k < length fs then fs ! k else []))"

definition split_law :: "qt \<Rightarrow> bool" where
  "split_law q \<longleftrightarrow> (\<forall>w. (\<forall>c \<in> set w. \<not> is_blank c) \<longrightarrow> qt_split q w = [w]
     \<and> (\<forall>b r. is_blank b \<longrightarrow> qt_split q (w @ b # r) = w # qt_split q (dropWhile is_blank r)))"

definition line_law :: "qt \<Rightarrow> bool" where
  "line_law q \<longleftrightarrow> (\<forall>l r. LF \<notin> set l \<longrightarrow>
     qt_read_line q l = l \<and> qt_read_line q (l @ LF # r) = l @ [LF]
     \<and> qt_stream_line q (l @ CR # LF # r) = l
     \<and> (l = [] \<or> last l \<noteq> CR \<longrightarrow> qt_stream_line q l = l \<and> qt_stream_line q (l @ LF # r) = l))"

definition number_law :: "qt \<Rightarrow> bool" where
  "number_law q \<longleftrightarrow> (\<forall>n. qt_number q n = nat_str n)
     \<and> (\<forall>n. n < 2 ^ 31 \<longrightarrow> qt_to_int q (nat_str n) = int n)
     \<and> (\<forall>s. (\<forall>c \<in> set s. \<not> is_digit c) \<longrightarrow> qt_to_int q s = 0)"

definition text_law :: "qt \<Rightarrow> bool" where
  "text_law q \<longleftrightarrow> (\<forall>s. CHR ''%'' \<notin> set s \<longrightarrow> qt_percent q s = s)
     \<and> (\<forall>s. qt_trimmed q s = strip s)
     \<and> (\<forall>s. length (qt_md5_hex q s) = 32 \<and> (\<forall>c \<in> set (qt_md5_hex q s). hex_digit c))"

definition qt_documented :: "qt \<Rightarrow> bool" where
  "qt_documented q \<longleftrightarrow> section_law q \<and> split_law q \<and> line_law q \<and> number_law q \<and> text_law q"

text \<open>The laws determine \<open>section\<close> and \<open>split\<close>.\<close>

named_theorems qt_laws "consequences of the documented behaviour of Qt"

lemma qt_section_eq [qt_laws]:
  assumes "qt_documented q"
  shows "qt_section q s c k = field_at (split_on c s) k"
proof -
  have "qt_section q (join c (split_on c s)) c k = field_at (split_on c s) k"
    using assms split_on_fields [of _ c s]
    unfolding qt_documented_def section_law_def field_at_def
    by (metis split_on_nonempty)
  then show ?thesis by (simp add: join_split_on)
qed

lemma split_eq:
  assumes law: "split_law q"
  shows "qt_split q s = split_blanks s"
proof (induction s rule: split_blanks.induct)
  case (1 s)
  let ?w = "takeWhile (\<lambda>c. \<not> is_blank c) s" and ?r = "dropWhile (\<lambda>c. \<not> is_blank c) s"
  have w: "\<forall>c \<in> set ?w. \<not> is_blank c" by (auto dest: set_takeWhileD)
  show ?case
  proof (cases ?r)
    case Nil
    then have "?w = s" by (metis append_Nil2 takeWhile_dropWhile_id)
    with w law have "qt_split q s = [s]" "split_blanks s = [s]"
      by (auto simp: split_law_def split_blanks_word)
    then show ?thesis by simp
  next
    case (Cons b r)
    then have b: "is_blank b" using hd_dropWhile [of "\<lambda>c. \<not> is_blank c" s] by auto
    have s: "s = ?w @ b # r" by (metis Cons takeWhile_dropWhile_id)
    have "qt_split q (?w @ b # r) = ?w # qt_split q (dropWhile is_blank r)"
      using law w b by (simp add: split_law_def)
    moreover have "split_blanks (?w @ b # r) = ?w # split_blanks (dropWhile is_blank r)"
      using w b by (rule split_blanks_step)
    moreover have "qt_split q (dropWhile is_blank (b # r)) = split_blanks (dropWhile is_blank (b # r))"
      using 1 [OF refl refl] Cons by simp
    ultimately show ?thesis using b s by simp
  qed
qed

lemma qt_split_eq [qt_laws]: "qt_documented q \<Longrightarrow> qt_split q s = split_blanks s"
  by (simp add: qt_documented_def split_eq)

lemma qt_read_line_eq [qt_laws]:
  "qt_documented q \<Longrightarrow> LF \<notin> set l \<Longrightarrow> qt_read_line q (l @ LF # r) = l @ [LF]"
  by (simp add: qt_documented_def line_law_def)

lemma qt_read_all_eq [qt_laws]: "qt_documented q \<Longrightarrow> LF \<notin> set l \<Longrightarrow> qt_read_line q l = l"
  by (simp add: qt_documented_def line_law_def)

lemma qt_stream_line_eq [qt_laws]:
  "qt_documented q \<Longrightarrow> LF \<notin> set l \<Longrightarrow> qt_stream_line q (l @ CR # LF # r) = l"
  by (simp add: qt_documented_def line_law_def)

lemma qt_stream_empty [qt_laws]: "qt_documented q \<Longrightarrow> qt_stream_line q [] = []"
proof -
  assume "qt_documented q"
  then have "\<forall>l r. LF \<notin> set l \<longrightarrow> (l = [] \<or> last l \<noteq> CR \<longrightarrow> qt_stream_line q l = l)"
    by (simp add: qt_documented_def line_law_def)
  from this [rule_format, of "[]"] show ?thesis by simp
qed

lemma qt_number_eq [qt_laws]: "qt_documented q \<Longrightarrow> qt_number q n = nat_str n"
  by (simp add: qt_documented_def number_law_def)

lemma qt_to_int_eq [qt_laws]: "qt_documented q \<Longrightarrow> n < 2 ^ 31 \<Longrightarrow> qt_to_int q (nat_str n) = int n"
  by (simp add: qt_documented_def number_law_def)

lemma qt_to_int_none [qt_laws]:
  "qt_documented q \<Longrightarrow> \<forall>c \<in> set s. \<not> is_digit c \<Longrightarrow> qt_to_int q s = 0"
  by (simp add: qt_documented_def number_law_def)

lemma qt_percent_eq [qt_laws]: "qt_documented q \<Longrightarrow> CHR ''%'' \<notin> set s \<Longrightarrow> qt_percent q s = s"
  by (simp add: qt_documented_def text_law_def)

lemma qt_trimmed_eq [qt_laws]: "qt_documented q \<Longrightarrow> qt_trimmed q s = strip s"
  by (simp add: qt_documented_def text_law_def)

lemma qt_md5_eq [qt_laws]:
  "qt_documented q \<Longrightarrow> length (qt_md5_hex q s) = 32"
  "qt_documented q \<Longrightarrow> c \<in> set (qt_md5_hex q s) \<Longrightarrow> hex_digit c"
  by (auto simp: qt_documented_def text_law_def)

section \<open>An instance\<close>

text \<open>
  An executable instance with all these properties. Its digest is the text itself written in
  hex digits, cut or filled to 32 of them, which is all the programs rely on.
\<close>

definition hex_pair :: "char \<Rightarrow> string" where
  "hex_pair c = (let n = of_char c :: nat; h = ''0123456789abcdef'' in [h ! (n div 16), h ! (n mod 16)])"

definition qt_ref :: qt where
  "qt_ref = \<lparr>qt_section = (\<lambda>s c k. field_at (split_on c s) k),
     qt_split = split_blanks,
     qt_percent = (\<lambda>s. s),
     qt_read_line = (\<lambda>s. takeWhile (\<lambda>c. c \<noteq> LF) s @ (if LF \<in> set s then [LF] else [])),
     qt_stream_line = (\<lambda>s. let l = takeWhile (\<lambda>c. c \<noteq> LF) s
        in if LF \<in> set s \<and> l \<noteq> [] \<and> last l = CR then butlast l else l),
     qt_to_int = (\<lambda>s. if s \<noteq> [] \<and> list_all is_digit s \<and> dec_value s < 2 ^ 31 then int (dec_value s) else 0),
     qt_trimmed = strip,
     qt_number = nat_str,
     qt_md5_hex = (\<lambda>s. take 32 (concat (map hex_pair s) @ replicate 32 (CHR ''0'')))\<rparr>"

lemma hex_pair_digits: "d \<in> set (hex_pair c) \<Longrightarrow> hex_digit d"
proof -
  have nth: "i < 16 \<Longrightarrow> hex_digit (''0123456789abcdef'' ! i)" for i
    unfolding hex_digit_def by (rule nth_mem) simp
  have "of_char c < (256 :: nat)" by simp
  then have "(of_char c :: nat) div 16 < 16" by (simp add: less_mult_imp_div_less)
  moreover have "(of_char c :: nat) mod 16 < 16" by simp
  moreover assume "d \<in> set (hex_pair c)"
  ultimately show "hex_digit d" using nth by (auto simp: hex_pair_def Let_def)
qed

lemma takeWhile_LF: "LF \<notin> set l \<Longrightarrow> takeWhile (\<lambda>c. c \<noteq> LF) (l @ LF # r) = l"
  by (induction l) auto

lemma takeWhile_no_LF: "LF \<notin> set l \<Longrightarrow> takeWhile (\<lambda>c. c \<noteq> LF) l = l"
  by (induction l) auto

lemma qt_ref_documented [simp]: "qt_documented qt_ref"
  unfolding qt_documented_def
proof (intro conjI)
  show "section_law qt_ref"
    by (simp add: section_law_def qt_ref_def split_on_join field_at_def)
  show "split_law qt_ref"
    by (simp add: split_law_def qt_ref_def split_blanks_word split_blanks_step)
  show "line_law qt_ref"
    using takeWhile_LF [of "l @ [CR]" for l]
    by (auto simp: line_law_def qt_ref_def takeWhile_LF takeWhile_no_LF Let_def)
  show "number_law qt_ref"
    by (auto simp: number_law_def qt_ref_def dec_value_nat_str list_all_iff nat_str_digits dest: hd_in_set)
  show "text_law qt_ref"
    by (auto simp: text_law_def qt_ref_def dest!: in_set_takeD hex_pair_digits)
      (simp add: hex_digit_def)
qed

end
