(* ===== verification/HttpReply.thy ===== *)
theory HttpReply
  imports Qt
begin

text \<open>
  The HTTP replies of the two Qt servers: \<open>Send\<close> of \<open>lesson5/qnet_tcp_server/main.cpp\<close>
  and of \<open>lesson6/qssl_server/main.cpp\<close> up to the write, and what a peer reads from them.
  The interface says that a reply can be cut from the front of a stream by its headers alone.
\<close>

section \<open>Building a reply\<close>

abbreviation CRLF :: string where "CRLF \<equiv> [CR, LF]"

definition html_page :: "string \<Rightarrow> string" where
  "html_page title =
     ''<Html>'' @ CRLF @ ''<Head>'' @ CRLF @ ''<Title>Server response</Title>'' @ CRLF @ ''</Head>'' @ CRLF
     @ ''<Body>'' @ CRLF @ ''<br><br>'' @ CRLF @ ''<center><h1>'' @ title @ ''</h1></center>'' @ CRLF
     @ ''</Body>'' @ CRLF @ ''</Html>'' @ CRLF @ CRLF"

text \<open>One case of the \<open>switch\<close>: status line, headers, the length of the body, the body.\<close>

definition pack :: "qt \<Rightarrow> string \<Rightarrow> string \<Rightarrow> string" where
  "pack q server title =
     (let str_body_pack = html_page title;
          body_pack_size = ''Content-Length: '' @ qt_number q (length str_body_pack) @ CRLF @ CRLF
      in ''HTTP/1.1 '' @ title @ CRLF @ ''Server: '' @ server @ CRLF
         @ ''Content-Type: text/html;charset=utf-8'' @ CRLF @ body_pack_size @ str_body_pack)"

definition qnet_title :: "nat \<Rightarrow> string option" where
  "qnet_title code =
     (if code = 202 then Some ''202 Accepted'' else if code = 200 then Some ''200 Ok''
      else if code = 400 then Some ''400 Bad Request'' else None)"

definition qssl_title :: "nat \<Rightarrow> string option" where
  "qssl_title code =
     (if code = 200 then Some ''200 Ok'' else if code = 400 then Some ''400 Bad Request''
      else if code = 401 then Some ''401 Unauthorized'' else None)"

text \<open>The bytes \<open>Send\<close> writes; no case of the \<open>switch\<close> leaves the packet empty.\<close>

definition qnet_pack :: "qt \<Rightarrow> nat \<Rightarrow> string" where
  "qnet_pack q code = (case qnet_title code of None \<Rightarrow> [] | Some t \<Rightarrow> pack q ''Qt_Http_Server'' t)"

definition qssl_pack :: "qt \<Rightarrow> nat \<Rightarrow> string" where
  "qssl_pack q code = (case qssl_title code of None \<Rightarrow> [] | Some t \<Rightarrow> pack q ''Qt_Https_Server'' t)"

section \<open>Reading a reply\<close>

text \<open>
  A reader that follows the protocol: the header ends at the first empty line, the status is
  the second word, the body has the length the header gives, and what follows belongs to the
  next reply.
\<close>

definition read_reply :: "string \<Rightarrow> (nat \<times> string \<times> string) option" where
  "read_reply s =
     (case str_find (CRLF @ CRLF) s of
        None \<Rightarrow> None
      | Some i \<Rightarrow>
          let head = take i s; rest = drop (i + 4) s
          in (case str_find ''Content-Length: '' head of
                None \<Rightarrow> None
              | Some j \<Rightarrow>
                  let n = dec_value (takeWhile is_digit (drop (j + 16) head))
                  in if length rest < n then None
                     else Some (dec_value (takeWhile is_digit (drop 9 head)), take n rest, drop n rest)))"

fun read_replies :: "nat \<Rightarrow> string \<Rightarrow> (nat \<times> string) list" where
  "read_replies 0 s = []"
| "read_replies (Suc n) s =
     (case read_reply s of None \<Rightarrow> [] | Some (code, body, rest) \<Rightarrow> (code, body) # read_replies n rest)"

text \<open>
  The contract of a server that keeps the connection open: with Qt as documented, whatever
  follows, a reply is read back with its code and its page and nothing of what follows.
\<close>

locale framed_replies =
  fixes pk :: "qt \<Rightarrow> nat \<Rightarrow> string" and page :: "nat \<Rightarrow> string" and codes :: "nat set"
  assumes framed: "qt_documented q \<Longrightarrow> c \<in> codes \<Longrightarrow> read_reply (pk q c @ rest) = Some (c, page c, rest)"
begin

lemma stream_read:
  "qt_documented q \<Longrightarrow> set cs \<subseteq> codes \<Longrightarrow>
     read_replies (length cs) (concat (map (pk q) cs) @ rest) = map (\<lambda>c. (c, page c)) cs"
  by (induction cs) (simp_all add: framed)

lemma no_empty_reply: "qt_documented q \<Longrightarrow> c \<in> codes \<Longrightarrow> pk q c \<noteq> []"
proof
  assume q: "qt_documented q" "c \<in> codes" and "pk q c = []"
  with framed [of q c "[]"] show False by (simp add: read_reply_def)
qed

lemma code_read: "qt_documented q \<Longrightarrow> c \<in> codes \<Longrightarrow> read_reply (pk q c) = Some (c, page c, [])"
  using framed [of q c "[]"] by simp

end

definition qnet_page :: "nat \<Rightarrow> string" where
  "qnet_page code = (case qnet_title code of None \<Rightarrow> [] | Some t \<Rightarrow> html_page t)"

definition qssl_page :: "nat \<Rightarrow> string" where
  "qssl_page code = (case qssl_title code of None \<Rightarrow> [] | Some t \<Rightarrow> html_page t)"

text \<open>A header block made of lines without an empty one ends where it should.\<close>

lemma str_find_skip:
  "pat \<noteq> [] \<Longrightarrow> hd pat \<notin> set u \<Longrightarrow> str_find pat (u @ s) = map_option ((+) (length u)) (str_find pat s)"
proof (induction u)
  case (Cons c u)
  then have "take (length pat) (c # u @ s) \<noteq> pat" by (cases pat) auto
  with Cons show ?case by (simp add: option.map_comp comp_def)
qed (cases "str_find pat s"; simp)

lemma header_end:
  assumes "CR \<notin> set l"
  shows "str_find (CRLF @ CRLF) (l @ CR # LF # s) =
    (if take 2 s = CRLF then Some (length l) else map_option ((+) (length l + 2)) (str_find (CRLF @ CRLF) s))"
  unfolding append_Cons append_Nil using assms
  by (subst str_find_skip; cases "str_find (CR # LF # CRLF) s") (simp_all add: numeral_2_eq_2)

lemma header_line:
  "CR \<notin> set l \<Longrightarrow> take 2 s \<noteq> CRLF \<Longrightarrow> str_find (CRLF @ CRLF) s = Some i \<Longrightarrow>
     str_find (CRLF @ CRLF) (l @ CR # LF # s) = Some (length l + 2 + i)"
  by (subst header_end) simp_all

lemma status_code: "code < 1000 \<Longrightarrow> 100 \<le> code \<Longrightarrow> title = nat_str code @ '' '' @ t \<Longrightarrow>
    dec_value (takeWhile is_digit (title @ r)) = code"
proof -
  assume "title = nat_str code @ '' '' @ t"
  moreover have "takeWhile is_digit (nat_str code @ CHR '' '' # t @ r) = nat_str code"
    by (rule takeWhile_until) (simp_all add: nat_str_digits, simp add: is_digit_def)
  ultimately show ?thesis by (simp add: dec_value_nat_str)
qed

lemma read_replyI:
  assumes "str_find (CRLF @ CRLF) s = Some (length h)" "s = h @ CRLF @ CRLF @ b @ r"
    and "str_find ''Content-Length: '' h = Some (length u)"
    and "h = u @ ''Content-Length: '' @ nat_str (length b)"
    and "dec_value (takeWhile is_digit (drop 9 h)) = code"
  shows "read_reply s = Some (code, b, r)"
proof -
  have t: "take (length h) s = h" and d: "drop (length h + 4) s = b @ r"
    by (simp_all add: assms(2))
  have "drop (length u + 16) h = nat_str (length b)" by (simp add: assms(4))
  moreover have "takeWhile is_digit (nat_str (length b)) = nat_str (length b)"
    using nat_str_digits [of _ "length b"] by simp
  ultimately have "dec_value (takeWhile is_digit (drop (length u + 16) h)) = length b"
    by (simp only: dec_value_nat_str)
  with assms(1,3,5) t d show ?thesis
    unfolding read_reply_def by (simp only: option.case Let_def) simp
qed

lemma read_pack:
  assumes q: "qt_documented q"
    and clean: "CR \<notin> set title" "CR \<notin> set server" "CHR ''C'' \<notin> set title" "CHR ''C'' \<notin> set server"
    and code: "title = nat_str code @ '' '' @ t" "100 \<le> code" "code < 1000"
  shows "read_reply (pack q server title @ rest) = Some (code, html_page title, rest)"
proof -
  let ?n = "length (html_page title)"
  let ?u = "''HTTP/1.1 '' @ title @ CRLF @ ''Server: '' @ server @ CRLF"
  let ?v = "''Content-Type: text/html;charset=utf-8'' @ CRLF"
  let ?head = "?u @ ?v @ ''Content-Length: '' @ nat_str ?n"
  have digits: "CR \<notin> set (nat_str ?n)" "CHR ''C'' \<notin> set (nat_str ?n)"
    by (rule nat_str_other, simp add: is_digit_def)+
  have p: "pack q server title @ rest = ?head @ CRLF @ CRLF @ html_page title @ rest"
    by (simp add: pack_def Let_def qt_number_eq [OF q])
  let ?l1 = "''HTTP/1.1 '' @ title" and ?l2 = "''Server: '' @ server"
    and ?l3 = "''Content-Type: text/html;charset=utf-8''" and ?l4 = "''Content-Length: '' @ nat_str ?n"
  let ?s4 = "?l4 @ CR # LF # CRLF @ html_page title @ rest"
  have cr: "CR \<notin> set ?l1" "CR \<notin> set ?l2" "CR \<notin> set ?l3" "CR \<notin> set ?l4"
    using clean digits by simp_all
  have "str_find (CRLF @ CRLF) ?s4 = Some (length ?l4)"
    by (subst header_end [OF cr(4)]) simp
  then have "str_find (CRLF @ CRLF) (?l3 @ CR # LF # ?s4) = Some (length ?l3 + 2 + length ?l4)"
    by (rule header_line [OF cr(3), rotated]) simp
  then have "str_find (CRLF @ CRLF) (?l2 @ CR # LF # ?l3 @ CR # LF # ?s4)
      = Some (length ?l2 + 2 + (length ?l3 + 2 + length ?l4))"
    by (rule header_line [OF cr(2), rotated]) simp
  then have "str_find (CRLF @ CRLF) (?l1 @ CR # LF # ?l2 @ CR # LF # ?l3 @ CR # LF # ?s4)
      = Some (length ?l1 + 2 + (length ?l2 + 2 + (length ?l3 + 2 + length ?l4)))"
    by (rule header_line [OF cr(1), rotated]) simp
  then have 1: "str_find (CRLF @ CRLF) (pack q server title @ rest) = Some (length ?head)"
    unfolding p by (simp add: add.assoc)
  have 2: "str_find ''Content-Length: '' ?head = Some (length (?u @ ?v))"
  proof -
    have "str_find ''Content-Length: '' (?v @ ''Content-Length: '' @ nat_str ?n) = Some (length ?v)"
      by simp
    moreover have "CHR ''C'' \<notin> set ?u" using clean by simp
    ultimately show ?thesis
      by (subst str_find_skip) (simp_all only: list.sel list.distinct simp_thms option.map length_append)
  qed
  have 3: "dec_value (takeWhile is_digit (drop 9 ?head)) = code"
    using status_code [OF code(3,2,1)] by simp
  show ?thesis by (rule read_replyI [OF 1 p 2 _ 3]) simp
qed

section \<open>The interface met\<close>

lemma code_digits: "nat_str 200 = ''200''" "nat_str 202 = ''202''" "nat_str 400 = ''400''" "nat_str 401 = ''401''"
  by code_simp+

lemmas read_title = read_pack [where t = "''Ok''"] read_pack [where t = "''Accepted''"]
  read_pack [where t = "''Bad Request''"] read_pack [where t = "''Unauthorized''"]

interpretation qnet: framed_replies qnet_pack qnet_page "{202, 200, 400}"
proof unfold_locales
  fix q :: qt and c rest
  assume q: "qt_documented q" and "c \<in> {202, 200, 400 :: nat}"
  then consider "c = 202" | "c = 200" | "c = 400" by blast
  then show "read_reply (qnet_pack q c @ rest) = Some (c, qnet_page c, rest)"
    by cases (simp_all add: qnet_pack_def qnet_page_def qnet_title_def read_title [OF q] code_digits)
qed

interpretation qssl: framed_replies qssl_pack qssl_page "{200, 400, 401}"
proof unfold_locales
  fix q :: qt and c rest
  assume q: "qt_documented q" and "c \<in> {200, 400, 401 :: nat}"
  then consider "c = 200" | "c = 400" | "c = 401" by blast
  then show "read_reply (qssl_pack q c @ rest) = Some (c, qssl_page c, rest)"
    by cases (simp_all add: qssl_pack_def qssl_page_def qssl_title_def read_title [OF q] code_digits)
qed

section \<open>Properties\<close>

text \<open>
  The replies of the two servers can be told apart on a connection that stays open: from
  any number of replies of one server written one after another, with anything behind them,
  a reader that trusts the status line and the content length gets every code and every page
  in order and whole.
\<close>

theorem replies_framed:
  assumes "qt_documented q" "set cs \<subseteq> {202, 200, 400}" "set ds \<subseteq> {200, 400, 401}"
  shows "read_replies (length cs) (concat (map (qnet_pack q) cs) @ rest) = map (\<lambda>c. (c, qnet_page c)) cs
    \<and> read_replies (length ds) (concat (map (qssl_pack q) ds) @ rest) = map (\<lambda>c. (c, qssl_page c)) ds"
  by (rule conjI [OF qnet.stream_read [OF assms(1,2)] qssl.stream_read [OF assms(1,3)]])

theorem replies_framed_witness:
  "read_replies (length [202, 400 :: nat]) (concat (map (qnet_pack qt_ref) [202, 400]) @ [])
     = map (\<lambda>c. (c, qnet_page c)) [202, 400]
   \<and> read_replies (length [401 :: nat]) (concat (map (qssl_pack qt_ref) [401]) @ ''GET'')
     = map (\<lambda>c. (c, qssl_page c)) [401]"
proof -
  have a: "set [202, 400] \<subseteq> {202, 200, 400 :: nat}" "set [401] \<subseteq> {200, 400, 401 :: nat}"
      "set [] \<subseteq> {202, 200, 400 :: nat}" "set [] \<subseteq> {200, 400, 401 :: nat}"
    by simp_all
  show ?thesis
    by (rule conjI [OF replies_framed [OF qt_ref_documented a(1,4), THEN conjunct1]
          replies_framed [OF qt_ref_documented a(3,2), THEN conjunct2]])
qed

end
