(* ===== verification/QnetServer.thy ===== *)
theory QnetServer
  imports HttpReply Machine
begin

text \<open>
  The Qt TCP server of \<open>lesson5/qnet_tcp_server/main.cpp\<close>. The event loop of Qt calls one
  slot per signal, so the server is a machine whose events are the signals: a pending
  connection, bytes that have arrived for a socket, a peer that has gone, time that passes.
  The slots know one socket, the member \<open>client_socket\<close>, whichever socket the signal is
  from. What a socket has received and not been read is its inbox.
\<close>

section \<open>State\<close>

datatype timer = CloseClient | QuitApp

record qnet_server =
  client_socket :: "nat option"
  open_sockets :: "nat list"
  inbox :: "nat \<Rightarrow> string"
  clock :: nat
  timers :: "(nat \<times> timer) list"
  running :: bool

datatype qnet_event =
    NewConnection nat
  | Arrived nat string
  | PeerClosed nat
  | Elapse nat

datatype qnet_out =
    ShownRequest string
  | ShownMessage string
  | Written nat string
  | ClosedSock nat
  | QuitCalled

section \<open>Slots\<close>

text \<open>The constructor and \<open>main\<close>: the server runs whether it could listen or not.\<close>

definition qnet_start :: qnet_server where
  "qnet_start = \<lparr>client_socket = None, open_sockets = [], inbox = (\<lambda>_. []), clock = 0, timers = [],
     running = True\<rparr>"

definition slotNewConnection :: "nat \<Rightarrow> qnet_server \<Rightarrow> qnet_server" where
  "slotNewConnection c s =
     s\<lparr>client_socket := Some c, open_sockets := c # open_sockets s, inbox := (inbox s)(c := [])\<rparr>"

text \<open>
  \<open>Send\<close>: a write to a socket that has been closed goes nowhere. The pointer is set by the
  first connection; a slot that runs before would read it uninitialised.
\<close>

definition Send :: "qt \<Rightarrow> nat \<Rightarrow> qnet_server \<Rightarrow> qnet_out list outcome" where
  "Send q code s =
     (case client_socket s of
        None \<Rightarrow> Inl NullDeref
      | Some k \<Rightarrow> Inr (if k \<in> set (open_sockets s) then [Written k (qnet_pack q code)] else []))"

definition slotClientDisconnected :: "qnet_server \<Rightarrow> (qnet_server \<times> qnet_out list) outcome" where
  "slotClientDisconnected s =
     (case client_socket s of
        None \<Rightarrow> Inl NullDeref
      | Some k \<Rightarrow>
          if k \<in> set (open_sockets s)
          then Inr (s\<lparr>open_sockets := removeAll k (open_sockets s), inbox := (inbox s)(k := [])\<rparr>, [ClosedSock k])
          else Inr (s, []))"

definition single_shot :: "nat \<Rightarrow> timer \<Rightarrow> qnet_server \<Rightarrow> qnet_server" where
  "single_shot ms t s = s\<lparr>timers := timers s @ [(clock s + ms, t)]\<rparr>"

text \<open>The two \<open>switch\<close> statements; \<open>rest\<close> is what the code has logged of the request.\<close>

definition dispatch ::
    "qt \<Rightarrow> string \<Rightarrow> string \<Rightarrow> string \<Rightarrow> qnet_server \<Rightarrow> (qnet_server \<times> qnet_out list) outcome" where
  "dispatch q rest task command s =
     (if task = ''command'' then
        (if command = ''exit'' then
           bind_out (Send q 202 s) (\<lambda>os. Inr (single_shot 2000 CloseClient s, ShownRequest rest # os))
         else if command = ''shutdown'' then
           bind_out (Send q 202 s) (\<lambda>os.
             Inr (single_shot 2000 QuitApp (single_shot 1000 CloseClient s), ShownRequest rest # os))
         else bind_out (Send q 400 s) (\<lambda>os. Inr (s, ShownRequest rest # os)))
      else if task = ''message'' then
        bind_out (Send q 200 s) (\<lambda>os. Inr (s, ShownRequest rest # ShownMessage command # os))
      else Inr (s, [ShownRequest rest]))"

definition slotReadClient :: "qt \<Rightarrow> qnet_server \<Rightarrow> (qnet_server \<times> qnet_out list) outcome" where
  "slotReadClient q s =
     (case client_socket s of
        None \<Rightarrow> Inl NullDeref
      | Some k \<Rightarrow>
          let raw = qt_read_line q (inbox s k);
              line = qt_percent q raw;
              tokens = qt_split q line;
              rest = drop (length raw) (inbox s k);
              s1 = s\<lparr>inbox := (inbox s)(k := [])\<rparr>
          in if field_at tokens 0 = ''GET''
             then if length tokens < 2 then Inl OutOfBounds
                  else dispatch q rest (qt_section q (tokens ! 1) (CHR ''/'') 1)
                         (qt_section q (tokens ! 1) (CHR ''/'') 2) s1
             else dispatch q rest [] [] s1)"

text \<open>The timers that are due, in the order of their times; nothing runs after \<open>quit\<close>.\<close>

definition fire :: "timer \<Rightarrow> qnet_server \<Rightarrow> (qnet_server \<times> qnet_out list) outcome" where
  "fire t s = (case t of
       CloseClient \<Rightarrow> slotClientDisconnected s
     | QuitApp \<Rightarrow> Inr (s\<lparr>running := False\<rparr>, [QuitCalled]))"

fun fire_all :: "(nat \<times> timer) list \<Rightarrow> qnet_server \<Rightarrow> (qnet_server \<times> qnet_out list) outcome" where
  "fire_all [] s = Inr (s, [])"
| "fire_all ((due, t) # ts) s =
     (if \<not> running s then Inr (s, [])
      else bind_out (fire t s) (\<lambda>(s1, o1). bind_out (fire_all ts s1) (\<lambda>(s2, o2). Inr (s2, o1 @ o2))))"

definition elapse :: "nat \<Rightarrow> qnet_server \<Rightarrow> (qnet_server \<times> qnet_out list) outcome" where
  "elapse ms s =
     (let now = clock s + ms;
          due = sort_key fst (filter (\<lambda>(d, t). d \<le> now) (timers s));
          later = filter (\<lambda>(d, t). \<not> d \<le> now) (timers s)
      in fire_all due (s\<lparr>clock := now, timers := later\<rparr>))"

definition qnet_turn :: "qt \<Rightarrow> (qnet_server, qnet_event, qnet_out) handler" where
  "qnet_turn q s e =
     (if \<not> running s then Inr (s, [])
      else case e of
        NewConnection c \<Rightarrow> Inr (slotNewConnection c s, [])
      | Arrived c d \<Rightarrow> slotReadClient q (s\<lparr>inbox := (inbox s)(c := inbox s c @ d)\<rparr>)
      | PeerClosed c \<Rightarrow> slotClientDisconnected (s\<lparr>open_sockets := removeAll c (open_sockets s)\<rparr>)
      | Elapse ms \<Rightarrow> elapse ms s)"

section \<open>Requests\<close>

text \<open>What the code answers to a task and a command, and the timers it sets.\<close>

definition reply_code :: "string \<Rightarrow> string \<Rightarrow> nat option" where
  "reply_code task command =
     (if task = ''command'' then Some (if command = ''exit'' \<or> command = ''shutdown'' then 202 else 400)
      else if task = ''message'' then Some 200 else None)"

definition reply_timers :: "nat \<Rightarrow> string \<Rightarrow> string \<Rightarrow> (nat \<times> timer) list" where
  "reply_timers now task command =
     (if task = ''command'' \<and> command = ''exit'' then [(now + 2000, CloseClient)]
      else if task = ''command'' \<and> command = ''shutdown'' then [(now + 1000, CloseClient), (now + 2000, QuitApp)]
      else [])"

definition word :: "string \<Rightarrow> bool" where
  "word w \<longleftrightarrow> list_all (\<lambda>c. \<not> is_blank c \<and> c \<noteq> CHR ''/'' \<and> c \<noteq> CHR ''%'') w"

definition get_line :: "string \<Rightarrow> string \<Rightarrow> string" where
  "get_line task command = ''GET /'' @ task @ ''/'' @ command @ '' HTTP/1.1'' @ CRLF"

lemma blank_simps [simp]: "is_blank (CHR '' '')" "is_blank CR" "is_blank LF"
  by (simp_all add: is_blank_def)

lemma get_tokens:
  assumes "word task" "word command"
  shows "split_blanks (get_line task command)
    = [''GET'', ''/'' @ task @ ''/'' @ command, ''HTTP/1.1'', []]"
proof -
  let ?path = "''/'' @ task @ ''/'' @ command"
  have w: "\<forall>c \<in> set ?path. \<not> is_blank c"
    using assms by (auto simp: word_def list_all_iff is_blank_def)
  then have "?path \<noteq> [] \<and> \<not> is_blank (hd ?path)" by auto
  then have d: "dropWhile is_blank (?path @ r) = ?path @ r" for r by (simp add: is_blank_def)
  have v: "\<forall>c \<in> set ''HTTP/1.1''. \<not> is_blank c" "\<forall>c \<in> set ''GET''. \<not> is_blank c"
    by (simp_all add: is_blank_def)
  have "split_blanks (''HTTP/1.1'' @ CR # [LF]) = [''HTTP/1.1'', []]"
    using split_blanks_step [OF v(1), of CR "[LF]"] split_blanks_word [of "[]"] by simp
  then have "split_blanks (?path @ CHR '' '' # ''HTTP/1.1'' @ CR # [LF]) = [?path, ''HTTP/1.1'', []]"
    using split_blanks_step [OF w, of "CHR '' ''" "''HTTP/1.1'' @ CR # [LF]"]
    by (simp add: is_blank_def)
  with split_blanks_step [OF v(2), of "CHR '' ''" "?path @ CHR '' '' # ''HTTP/1.1'' @ CR # [LF]"] d
  show ?thesis by (simp add: get_line_def is_blank_def)
qed

lemma path_fields:
  assumes "word task" "word command"
  shows "split_on (CHR ''/'') (''/'' @ task @ ''/'' @ command) = [[], task, command]"
proof -
  have "CHR ''/'' \<notin> set task" "CHR ''/'' \<notin> set command"
    using assms by (auto simp: word_def list_all_iff)
  then show ?thesis using split_on_append [of "CHR ''/''" "[]"] by simp
qed

lemma get_line_LF: "word task \<Longrightarrow> word command \<Longrightarrow>
    \<exists>l. get_line task command = l @ [LF] \<and> LF \<notin> set l \<and> CHR ''%'' \<notin> set (get_line task command)"
  by (intro exI [of _ "''GET /'' @ task @ ''/'' @ command @ '' HTTP/1.1'' @ [CR]"])
    (auto simp: get_line_def word_def list_all_iff is_blank_def)

lemma read_get:
  assumes q: "qt_documented q" and w: "word task" "word command"
    and k: "client_socket s = Some k" "k \<in> set (open_sockets s)"
    and i: "inbox s k = get_line task command @ rest"
  shows "slotReadClient q s = Inr (s\<lparr>inbox := (inbox s)(k := []),
       timers := timers s @ reply_timers (clock s) task command\<rparr>,
     ShownRequest rest # (if task = ''message'' then [ShownMessage command] else [])
       @ (case reply_code task command of None \<Rightarrow> [] | Some c \<Rightarrow> [Written k (qnet_pack q c)]))"
proof -
  obtain l where l: "get_line task command = l @ [LF]" "LF \<notin> set l" "CHR ''%'' \<notin> set (get_line task command)"
    using get_line_LF [OF w] by blast
  have raw: "qt_read_line q (inbox s k) = get_line task command"
    using qt_read_line_eq [OF q l(2), of rest] i l(1) by simp
  have rest: "drop (length (get_line task command)) (inbox s k) = rest" by (simp add: i)
  have tok: "qt_split q (qt_percent q (get_line task command))
      = [''GET'', ''/'' @ task @ ''/'' @ command, ''HTTP/1.1'', []]"
    by (simp only: qt_percent_eq [OF q l(3)] qt_split_eq [OF q] get_tokens [OF w])
  have sec: "qt_section q (''/'' @ task @ ''/'' @ command) (CHR ''/'') 1 = task"
      "qt_section q (''/'' @ task @ ''/'' @ command) (CHR ''/'') 2 = command"
    by (simp_all only: qt_section_eq [OF q] path_fields [OF w]) (simp_all add: numeral_2_eq_2)
  show ?thesis
    unfolding slotReadClient_def k(1) option.case Let_def raw rest tok
    using k sec
    by (auto simp: dispatch_def Send_def single_shot_def reply_code_def reply_timers_def)
qed

section \<open>The interface\<close>

text \<open>A slot runs after a connection; the documented behaviour of Qt is part of the invariant.\<close>

definition qnet_inv :: "qt \<Rightarrow> qnet_server \<Rightarrow> bool" where
  "qnet_inv q s \<longleftrightarrow> qt_documented q
     \<and> (case client_socket s of None \<Rightarrow> False | Some k \<Rightarrow> inbox s k = [])"

text \<open>What may arrive: nothing to decode, and not the three letters of the method alone.\<close>

definition whole_line :: "qnet_event \<Rightarrow> bool" where
  "whole_line e \<longleftrightarrow> (case e of Arrived c d \<Rightarrow> d \<noteq> ''GET'' \<and> CHR ''%'' \<notin> set d | _ \<Rightarrow> True)"

lemma fire_all_ok:
  "client_socket s \<noteq> None \<Longrightarrow> \<exists>s' os. fire_all ts s = Inr (s', os) \<and> client_socket s' = client_socket s
     \<and> (\<forall>k. inbox s k = [] \<longrightarrow> inbox s' k = [])"
proof (induction ts arbitrary: s)
  case (Cons dt ts)
  obtain d t where dt: "dt = (d, t)" by (cases dt)
  show ?case
  proof (cases "running s")
    case True
    have "\<exists>s1 o1. fire t s = Inr (s1, o1) \<and> client_socket s1 = client_socket s
        \<and> (\<forall>k. inbox s k = [] \<longrightarrow> inbox s1 k = [])"
      using Cons.prems by (cases t) (auto simp: fire_def slotClientDisconnected_def)
    then obtain s1 o1 where 1: "fire t s = Inr (s1, o1)" "client_socket s1 = client_socket s"
        "\<forall>k. inbox s k = [] \<longrightarrow> inbox s1 k = []" by blast
    with Cons.IH [of s1] Cons.prems obtain s2 o2 where
        "fire_all ts s1 = Inr (s2, o2)" "client_socket s2 = client_socket s1"
        "\<forall>k. inbox s1 k = [] \<longrightarrow> inbox s2 k = []" by auto
    with 1 True dt show ?thesis by simp
  qed (simp add: dt)
qed simp

text \<open>Where the outputs of a slot can go.\<close>

definition written_to :: "qnet_out list \<Rightarrow> nat set" where
  "written_to os = {c. \<exists>d. Written c d \<in> set os}"

lemma written_to_simps [simp]:
  "written_to [] = {}"
  "written_to (ShownRequest t # os) = written_to os" "written_to (ShownMessage t # os) = written_to os"
  "written_to (ClosedSock c # os) = written_to os" "written_to (QuitCalled # os) = written_to os"
  "written_to (Written c d # os) = insert c (written_to os)"
  "written_to (os @ ps) = written_to os \<union> written_to ps"
  by (auto simp: written_to_def)

lemma Send_written: "Send q code s = Inr os \<Longrightarrow> written_to os \<subseteq> set_option (client_socket s)"
  by (auto simp: Send_def split: option.splits if_splits)

lemma dispatch_written:
  "dispatch q rest task command s = Inr (s', os) \<Longrightarrow>
     written_to os \<subseteq> set_option (client_socket s) \<and> client_socket s' = client_socket s
     \<and> running s' = running s"
  by (auto simp: dispatch_def single_shot_def split: if_splits dest!: Send_written)

lemma slotReadClient_written:
  "slotReadClient q s = Inr (s', os) \<Longrightarrow>
     written_to os \<subseteq> set_option (client_socket s) \<and> client_socket s' = client_socket s
     \<and> running s' = running s"
  by (auto simp: slotReadClient_def Let_def split: option.splits if_splits dest!: dispatch_written)

lemma fire_all_written:
  "fire_all ts s = Inr (s', os) \<Longrightarrow> written_to os = {} \<and> client_socket s' = client_socket s"
proof (induction ts arbitrary: s os)
  case (Cons dt ts)
  obtain d t where dt: "dt = (d, t)" by (cases dt)
  have one: "fire t s = Inr (s1, o1) \<Longrightarrow> written_to o1 = {} \<and> client_socket s1 = client_socket s" for s1 o1
    by (auto simp: fire_def slotClientDisconnected_def split: timer.splits option.splits if_splits)
  from Cons.prems show ?case
    by (auto simp: dt split: if_splits dest!: Cons.IH one)
qed simp

lemma qnet_turn_written:
  assumes "qnet_turn q s e = Inr (s', os)" "client_socket s = Some k"
  shows "written_to os \<subseteq> {k} \<and> client_socket s' = (case e of
     NewConnection c \<Rightarrow> if running s then Some c else Some k | _ \<Rightarrow> Some k)"
  using assms
  by (cases e)
    (auto simp: qnet_turn_def slotNewConnection_def slotClientDisconnected_def elapse_def Let_def
      split: if_splits dest!: slotReadClient_written fire_all_written)

lemma Send_total: "client_socket s \<noteq> None \<Longrightarrow> \<exists>os. Send q code s = Inr os"
  by (auto simp: Send_def)

lemma dispatch_total: "client_socket s \<noteq> None \<Longrightarrow> \<exists>t os. dispatch q rest task command s = Inr (t, os)"
  using Send_total [of s q] by (simp add: dispatch_def)

lemma dispatch_no_fault: "client_socket s \<noteq> None \<Longrightarrow> dispatch q rest task command s \<noteq> Inl f"
  using dispatch_total [of s q rest task command] by auto

lemma slotReadClient_total:
  assumes "client_socket s = Some k"
    and "length (qt_split q (qt_percent q (qt_read_line q (inbox s k)))) \<ge> 2
      \<or> field_at (qt_split q (qt_percent q (qt_read_line q (inbox s k)))) 0 \<noteq> ''GET''"
  shows "\<exists>r. slotReadClient q s = Inr r"
  using assms by (auto simp: slotReadClient_def Let_def intro!: dispatch_total)

text \<open>One token means a line without a blank: not even a line end.\<close>

lemma one_token:
  assumes "length (split_blanks s) < 2"
  shows "split_blanks s = [s] \<and> list_all (\<lambda>c. \<not> is_blank c) s"
proof -
  have "dropWhile (\<lambda>c. \<not> is_blank c) s = []"
  proof (rule ccontr)
    assume "dropWhile (\<lambda>c. \<not> is_blank c) s \<noteq> []"
    then obtain b r where d: "dropWhile (\<lambda>c. \<not> is_blank c) s = b # r"
      by (cases "dropWhile (\<lambda>c. \<not> is_blank c) s") auto
    then have b: "is_blank b" using hd_dropWhile [of "\<lambda>c. \<not> is_blank c" s] by simp
    obtain w where w: "s = w @ b # r" "\<forall>c \<in> set w. \<not> is_blank c"
      by (metis d takeWhile_dropWhile_id set_takeWhileD)
    have "split_blanks s = w # split_blanks (dropWhile is_blank r)"
      unfolding w(1) by (rule split_blanks_step [OF w(2) b])
    with assms split_blanks_nonempty [of "dropWhile is_blank r"] show False
      by (cases "split_blanks (dropWhile is_blank r)") (simp_all del: split_blanks_nonempty)
  qed
  then have "\<forall>c \<in> set s. \<not> is_blank c" by simp
  then show ?thesis by (simp add: split_blanks_word list_all_iff)
qed

lemma slotReadClient_faults_iff:
  assumes q: "qt_documented q" and k: "client_socket s = Some k" and d: "CHR ''%'' \<notin> set (inbox s k)"
  shows "(\<exists>f. slotReadClient q s = Inl f) \<longleftrightarrow> inbox s k = ''GET''"
proof -
  let ?d = "inbox s k"
  define line where "line = (if LF \<in> set ?d then takeWhile (\<lambda>c. c \<noteq> LF) ?d @ [LF] else ?d)"
  have raw: "qt_read_line q ?d = line"
  proof (cases "LF \<in> set ?d")
    case True
    then obtain l r where "?d = l @ LF # r" "LF \<notin> set l" by (metis split_list_first)
    then show ?thesis using qt_read_line_eq [OF q, of l r] True
      by (simp add: line_def takeWhile_LF)
  next
    case False
    then show ?thesis using qt_read_all_eq [OF q False] by (simp add: line_def)
  qed
  have "CHR ''%'' \<notin> set line" using d by (auto simp: line_def dest: set_takeWhileD)
  then have tok: "qt_split q (qt_percent q (qt_read_line q ?d)) = split_blanks line"
    by (simp add: raw qt_percent_eq [OF q] qt_split_eq [OF q])
  have sub: "client_socket (s\<lparr>inbox := b\<rparr>) \<noteq> None" for b using k by simp
  show ?thesis
  proof (cases "length (split_blanks line) < 2")
    case True
    from one_token [OF True] have "split_blanks line = [line]" and "LF \<notin> set line"
      by (auto simp: list_all_iff is_blank_def)
    then have "line = ?d" by (auto simp: line_def split: if_splits)
    with k tok True \<open>split_blanks line = [line]\<close> show ?thesis
      using dispatch_no_fault [OF sub] by (auto simp: slotReadClient_def Let_def)
  next
    case False
    have "?d \<noteq> ''GET''"
    proof
      assume g: "?d = ''GET''"
      then have "split_blanks line = [''GET'']"
        by (simp add: line_def split_blanks_word is_blank_def)
      with False show False by simp
    qed
    moreover have "\<exists>r. slotReadClient q s = Inr r"
      using False by (intro slotReadClient_total [OF k]) (simp add: tok)
    ultimately show ?thesis by auto
  qed
qed

lemma slotReadClient_empties:
  "slotReadClient q s = Inr (s', os) \<Longrightarrow> client_socket s = Some k \<Longrightarrow> inbox s' k = []"
  by (auto simp: slotReadClient_def Let_def dispatch_def single_shot_def split: if_splits)

interpretation qnet_srv: halting_machine "qnet_turn q" "qnet_inv q" whole_line "\<lambda>s. \<not> running s"
proof unfold_locales
  fix s e
  assume inv: "qnet_inv q s" and ok: "whole_line e"
  then obtain k where k: "client_socket s = Some k" "inbox s k = []" and q: "qt_documented q"
    by (auto simp: qnet_inv_def split: option.splits)
  show "\<exists>s' os. qnet_turn q s e = Inr (s', os) \<and> qnet_inv q s'"
  proof (cases "running s")
    case False
    with inv show ?thesis by (simp add: qnet_turn_def)
  next
    case run: True
    show ?thesis
    proof (cases e)
      case (Arrived c d)
      let ?s = "s\<lparr>inbox := (inbox s)(c := inbox s c @ d)\<rparr>"
      have ks: "client_socket ?s = Some k" using k by simp
      have "inbox ?s k \<noteq> ''GET''" "CHR ''%'' \<notin> set (inbox ?s k)"
        using ok k Arrived by (auto simp: whole_line_def)
      with slotReadClient_faults_iff [OF q ks] obtain s' os where
          r: "slotReadClient q ?s = Inr (s', os)"
        by (cases "slotReadClient q ?s") auto
      have "client_socket s' = Some k" "inbox s' k = []"
        using slotReadClient_written [OF r] slotReadClient_empties [OF r ks] ks by simp_all
      with r run Arrived q show ?thesis by (simp add: qnet_turn_def qnet_inv_def)
    next
      case (Elapse ms)
      obtain s' os where "elapse ms s = Inr (s', os)" "client_socket s' = client_socket s"
          "\<forall>k. inbox s k = [] \<longrightarrow> inbox s' k = []"
        using fire_all_ok [of "s\<lparr>clock := clock s + ms,
            timers := filter (\<lambda>(d, t). \<not> d \<le> clock s + ms) (timers s)\<rparr>"] k
        by (fastforce simp: elapse_def Let_def)
      with Elapse run k q show ?thesis by (simp add: qnet_turn_def qnet_inv_def)
    next
      case (NewConnection c)
      with run k q show ?thesis by (simp add: qnet_turn_def qnet_inv_def slotNewConnection_def)
    next
      case (PeerClosed c)
      with run k q show ?thesis by (simp add: qnet_turn_def qnet_inv_def slotClientDisconnected_def)
    qed
  qed
qed (simp add: qnet_turn_def)

section \<open>Properties\<close>

text \<open>
  One client gets the answers the code means to give: a request for \<open>/task/command\<close> of
  the client that connected last is answered with 202 for the commands \<open>exit\<close> and
  \<open>shutdown\<close>, 400 for any other command, 200 for a message (which is shown), and not at all
  for another task; only the two commands set timers, and the rest of the request is used up.
\<close>

theorem qnet_replies:
  assumes "qt_documented q" "running s" "client_socket s = Some k" "k \<in> set (open_sockets s)"
    and "inbox s k = []" "word task" "word command"
  shows "qnet_turn q s (Arrived k (get_line task command @ rest)) = Inr (s\<lparr>inbox := (inbox s)(k := []),
       timers := timers s @ reply_timers (clock s) task command\<rparr>,
     ShownRequest rest # (if task = ''message'' then [ShownMessage command] else [])
       @ (case reply_code task command of None \<Rightarrow> [] | Some c \<Rightarrow> [Written k (qnet_pack q c)]))"
proof -
  let ?s = "s\<lparr>inbox := (inbox s)(k := inbox s k @ get_line task command @ rest)\<rparr>"
  have "slotReadClient q ?s = Inr (?s\<lparr>inbox := (inbox ?s)(k := []),
       timers := timers ?s @ reply_timers (clock ?s) task command\<rparr>,
     ShownRequest rest # (if task = ''message'' then [ShownMessage command] else [])
       @ (case reply_code task command of None \<Rightarrow> [] | Some c \<Rightarrow> [Written k (qnet_pack q c)]))"
    by (rule read_get) (use assms in simp_all)
  with assms show ?thesis by (simp add: qnet_turn_def)
qed

definition demo_qnet :: qnet_server where
  "demo_qnet = slotNewConnection 1 qnet_start"

lemma demo_words: "word ''command''" "word ''shutdown''" "word ''message''" "word ''hi''"
  by (simp_all add: word_def is_blank_def)

theorem qnet_replies_witness:
  "\<exists>s'. qnet_turn qt_ref demo_qnet (Arrived 1 (get_line ''command'' ''shutdown'' @ CRLF))
     = Inr (s', [ShownRequest CRLF, Written 1 (qnet_pack qt_ref 202)]) \<and> length (timers s') = 2"
  using qnet_replies [of qt_ref demo_qnet 1 "''command''" "''shutdown''" CRLF] demo_words
  by (simp add: demo_qnet_def slotNewConnection_def qnet_start_def reply_code_def reply_timers_def)

text \<open>
  Only the client that connected last is ever answered: once another client has
  connected, a client that does not connect again is written nothing in any run of the
  server, whatever it sends, because every slot works on the latest socket.
\<close>

theorem qnet_earlier_client_unanswered:
  assumes "client_socket s = Some k" "k \<noteq> c" "NewConnection c \<notin> set es"
    and "run (qnet_turn q) s es = Inr (s', os)"
  shows "c \<notin> written_to os"
  using assms
proof (induction es arbitrary: s k os)
  case Nil
  then show ?case by simp
next
  case (Cons e es)
  from Cons.prems(4) obtain s1 o1 o2 where
      1: "qnet_turn q s e = Inr (s1, o1)" "run (qnet_turn q) s1 es = Inr (s', o2)" "os = o1 @ o2" by auto
  note w = qnet_turn_written [OF 1(1) Cons.prems(1)]
  obtain k1 where "client_socket s1 = Some k1" "k1 \<noteq> c"
    using w Cons.prems(2,3) by (cases e) (auto split: if_splits)
  with Cons.IH [OF _ _ _ 1(2)] Cons.prems(3) have "c \<notin> written_to o2" by simp
  with w Cons.prems(2) 1(3) show ?case by auto
qed

theorem qnet_earlier_client_unanswered_witness:
  "\<exists>s' os. run (qnet_turn qt_ref) (slotNewConnection 2 demo_qnet)
       [Arrived 1 (get_line ''message'' ''hi'')] = Inr (s', os) \<and> 1 \<notin> written_to os"
proof -
  let ?s = "slotNewConnection 2 demo_qnet" and ?d = "get_line ''message'' ''hi''"
  let ?t = "?s\<lparr>inbox := (inbox ?s)(1 := inbox ?s 1 @ ?d)\<rparr>"
  have k: "client_socket ?t = Some 2" and i: "inbox ?t 2 = []"
    by (simp_all add: slotNewConnection_def)
  have "qt_split qt_ref (qt_percent qt_ref (qt_read_line qt_ref [])) = [[]]"
    by (simp add: qt_laws split_blanks_word)
  then have "\<exists>r. slotReadClient qt_ref ?t = Inr r"
    by (intro slotReadClient_total [OF k]) (simp only: i field_at_simps list.distinct simp_thms)
  then obtain s' os where "qnet_turn qt_ref ?s (Arrived 1 ?d) = Inr (s', os)"
    by (auto simp: qnet_turn_def slotNewConnection_def demo_qnet_def qnet_start_def)
  then have r: "run (qnet_turn qt_ref) ?s [Arrived 1 ?d] = Inr (s', os)" by simp
  show ?thesis
    using qnet_earlier_client_unanswered [of ?s 2 1 "[Arrived 1 ?d]" qt_ref s' os] r
    by (auto simp: slotNewConnection_def)
qed

text \<open>
  When the read slot faults: bytes that arrive for the client that connected last (nothing
  of it unread, nothing to decode) make the server read a token that is not there exactly when
  they are the three letters \<open>GET\<close> and nothing else, as a first fragment of a request may be.
\<close>

theorem qnet_read_faults_iff:
  assumes "qt_documented q" "running s" "client_socket s = Some k" "inbox s k = []"
    and "CHR ''%'' \<notin> set d"
  shows "(\<exists>f. qnet_turn q s (Arrived k d) = Inl f) \<longleftrightarrow> d = ''GET''"
  using assms slotReadClient_faults_iff [of q "s\<lparr>inbox := (inbox s)(k := d)\<rparr>" k]
  by (simp add: qnet_turn_def)

theorem qnet_read_faults_iff_witness:
  "\<exists>f. qnet_turn qt_ref demo_qnet (Arrived 1 ''GET'') = Inl f"
  by (subst qnet_read_faults_iff)
    (simp_all add: demo_qnet_def slotNewConnection_def qnet_start_def)

text \<open>
  The command \<open>shutdown\<close> ends the server in order: with no timer pending the client gets
  202 first, after a second its socket is closed, after two the application quits, however the
  two seconds are cut into waits, and nothing is done for any event after that.
\<close>

theorem qnet_shutdown_sequence:
  assumes "qt_documented q" "running s" "client_socket s = Some k" "k \<in> set (open_sockets s)"
    and "inbox s k = []" "timers s = []" "a < 1000" "1000 \<le> a + b" "a + b < 2000" "2000 \<le> a + b + c"
  shows "\<exists>s'. run (qnet_turn q) s (Arrived k (get_line ''command'' ''shutdown'')
      # Elapse a # Elapse b # Elapse c # later)
    = Inr (s', [ShownRequest [], Written k (qnet_pack q 202), ClosedSock k, QuitCalled]) \<and> \<not> running s'"
proof -
  let ?t = "[(clock s + 1000, CloseClient), (clock s + 2000, QuitApp)]"
  let ?s1 = "s\<lparr>inbox := (inbox s)(k := []), timers := ?t\<rparr>"
  let ?s2 = "?s1\<lparr>clock := clock s + a\<rparr>"
  let ?s3 = "?s2\<lparr>clock := clock s + a + b, timers := [(clock s + 2000, QuitApp)],
      open_sockets := removeAll k (open_sockets s)\<rparr>"
  let ?s4 = "?s3\<lparr>clock := clock s + a + b + c, timers := [], running := False\<rparr>"
  have 1: "qnet_turn q s (Arrived k (get_line ''command'' ''shutdown''))
      = Inr (?s1, [ShownRequest [], Written k (qnet_pack q 202)])"
    using qnet_replies [OF assms(1-5), of "''command''" "''shutdown''" "[]"] assms(6) demo_words
    by (simp add: reply_code_def reply_timers_def)
  have 2: "qnet_turn q ?s1 (Elapse a) = Inr (?s2, [])"
    using assms by (simp add: qnet_turn_def elapse_def)
  have 3: "qnet_turn q ?s2 (Elapse b) = Inr (?s3, [ClosedSock k])"
    using assms by (simp add: qnet_turn_def elapse_def fire_def slotClientDisconnected_def add.assoc fun_eq_iff)
  have 4: "qnet_turn q ?s3 (Elapse c) = Inr (?s4, [QuitCalled])"
    using assms by (simp add: qnet_turn_def elapse_def fire_def add.assoc)
  have 5: "run (qnet_turn q) ?s4 later = Inr (?s4, [])" by (rule qnet_srv.run_halted) simp
  have "run (qnet_turn q) s (Arrived k (get_line ''command'' ''shutdown'')
      # Elapse a # Elapse b # Elapse c # later)
    = Inr (?s4, [ShownRequest [], Written k (qnet_pack q 202)] @ [] @ [ClosedSock k] @ [QuitCalled] @ [])"
    by (rule run_Cons_ok [OF 1 run_Cons_ok [OF 2 run_Cons_ok [OF 3 run_Cons_ok [OF 4 5]]]])
  then show ?thesis by auto
qed

theorem qnet_shutdown_sequence_witness:
  "\<exists>s'. run (qnet_turn qt_ref) demo_qnet
      [Arrived 1 (get_line ''command'' ''shutdown''), Elapse 500, Elapse 1000, Elapse 700, NewConnection 2]
    = Inr (s', [ShownRequest [], Written 1 (qnet_pack qt_ref 202), ClosedSock 1, QuitCalled]) \<and> \<not> running s'"
  by (rule qnet_shutdown_sequence) (simp_all add: demo_qnet_def slotNewConnection_def qnet_start_def)

end
