(* ===== verification/QnetClient.thy ===== *)
theory QnetClient
  imports QnetServer
begin

text \<open>
  The Qt TCP client of \<open>lesson5/qnet_tcp_client/main.cpp\<close>. Its slots read the answers of
  the user from the standard input, which is a list of words in the state. A request is made by
  the network access manager of Qt: the output is the address it is asked for. Each request
  enters an event loop of its own, and \<open>nested\<close> counts the calls of \<open>exec\<close> that have not
  returned. (\<open>Send\<close> is called from nowhere and is not modelled.)
\<close>

section \<open>State\<close>

record qnet_client =
  host_name :: string
  server_port :: nat
  stdin :: "string list"
  socket_valid :: bool
  timer_active :: bool
  nested :: nat
  quitting :: bool

datatype net_event = Connected | TimerOut | Finished bool string | ServerGone

datatype net_out =
    GetUrl string
  | ReplyShown string
  | ErrorShown
  | TimeoutShown
  | BrokenShown
  | ClientQuit

section \<open>Slots\<close>

text \<open>The question of \<open>slotNewConnection\<close>, asked again until the word is a number from 1 to 3.\<close>

fun ask_choice :: "qt \<Rightarrow> string list \<Rightarrow> (int \<times> string list) outcome" where
  "ask_choice q [] = Inl Blocked"
| "ask_choice q (t # ts) =
     (if qt_to_int q t < 1 \<or> qt_to_int q t > 3 then ask_choice q ts else Inr (qt_to_int q t, ts))"

definition request_url :: "qt \<Rightarrow> string \<Rightarrow> string \<Rightarrow> qnet_client \<Rightarrow> string" where
  "request_url q task message s =
     ''http://'' @ host_name s @ '':'' @ qt_number q (server_port s) @ ''/'' @ task @ ''/'' @ message"

text \<open>Either branch that sends: the request, the timer, and an event loop nothing ends.\<close>

definition send_and_wait :: "qt \<Rightarrow> string \<Rightarrow> string list \<Rightarrow> qnet_client \<Rightarrow> (qnet_client \<times> net_out list) outcome" where
  "send_and_wait q task ts s =
     bind_out (token_of_length 0 ts) (\<lambda>(message, ts').
       Inr (s\<lparr>stdin := ts', timer_active := True, nested := nested s + 1\<rparr>, [GetUrl (request_url q task message s)]))"

definition ask_user :: "qt \<Rightarrow> qnet_client \<Rightarrow> (qnet_client \<times> net_out list) outcome" where
  "ask_user q s =
     bind_out (ask_choice q (stdin s)) (\<lambda>(answer, ts).
       if answer = 1 then send_and_wait q ''command'' ts s
       else if answer = 2 then send_and_wait q ''message'' ts s
       else Inr (s\<lparr>stdin := ts, quitting := True\<rparr>, [ClientQuit]))"

definition ask_or_quit :: "qt \<Rightarrow> qnet_client \<Rightarrow> (qnet_client \<times> net_out list) outcome" where
  "ask_or_quit q s =
     (if socket_valid s then ask_user q s else Inr (s\<lparr>quitting := True\<rparr>, [ClientQuit]))"

definition slotTimeoutWaiting :: "qt \<Rightarrow> qnet_client \<Rightarrow> (qnet_client \<times> net_out list) outcome" where
  "slotTimeoutWaiting q s =
     bind_out (ask_or_quit q (s\<lparr>timer_active := False\<rparr>)) (\<lambda>(s', os). Inr (s', TimeoutShown # os))"

definition OnResponse :: "qt \<Rightarrow> string \<Rightarrow> qnet_client \<Rightarrow> (qnet_client \<times> net_out list) outcome" where
  "OnResponse q reply s =
     bind_out (ask_or_quit q (s\<lparr>timer_active := False\<rparr>)) (\<lambda>(s', os).
       Inr (s', (if reply = [] then [] else [ReplyShown reply]) @ os))"

definition client_turn :: "qt \<Rightarrow> (qnet_client, net_event, net_out) handler" where
  "client_turn q s e =
     (if quitting s then Inr (s, [])
      else case e of
        Connected \<Rightarrow> ask_user q s
      | TimerOut \<Rightarrow> (if timer_active s then slotTimeoutWaiting q s else Inr (s, []))
      | Finished error reply \<Rightarrow> (if error then Inr (s, [ErrorShown]) else OnResponse q reply s)
      | ServerGone \<Rightarrow> Inr (s\<lparr>socket_valid := False\<rparr>, [BrokenShown]))"

section \<open>Lemmas\<close>

definition urls :: "net_out list \<Rightarrow> string list" where
  "urls os = concat (map (\<lambda>out. case out of GetUrl u \<Rightarrow> [u] | _ \<Rightarrow> []) os)"

lemma urls_simps [simp]:
  "urls [] = []" "urls (GetUrl u # os) = u # urls os" "urls (ReplyShown t # os) = urls os"
  "urls (ErrorShown # os) = urls os" "urls (TimeoutShown # os) = urls os"
  "urls (BrokenShown # os) = urls os" "urls (ClientQuit # os) = urls os"
  "urls (os @ ps) = urls os @ urls ps"
  by (simp_all add: urls_def)

definition url_of :: "string \<Rightarrow> nat \<Rightarrow> string \<Rightarrow> string \<Rightarrow> string" where
  "url_of host port task message = ''http://'' @ host @ '':'' @ nat_str port @ ''/'' @ task @ ''/'' @ message"

text \<open>An address of this client's server, for a command or a message.\<close>

definition own_url :: "string \<Rightarrow> nat \<Rightarrow> string \<Rightarrow> bool" where
  "own_url host port u \<longleftrightarrow> (\<exists>m. u = url_of host port ''command'' m \<or> u = url_of host port ''message'' m)"

lemma request_url_of:
  "qt_documented q \<Longrightarrow> request_url q task m s = url_of (host_name s) (server_port s) task m"
  by (simp add: request_url_def url_of_def qt_number_eq)

definition opens_loops :: "qnet_client \<Rightarrow> qnet_client \<Rightarrow> net_out list \<Rightarrow> bool" where
  "opens_loops s s' os \<longleftrightarrow> nested s' = nested s + length (urls os)
     \<and> host_name s' = host_name s \<and> server_port s' = server_port s
     \<and> list_all (own_url (host_name s) (server_port s)) (urls os)"

lemma ask_user_loops:
  "qt_documented q \<Longrightarrow> ask_user q s = Inr (s', os) \<Longrightarrow> opens_loops s s' os"
  by (auto simp: ask_user_def send_and_wait_def opens_loops_def request_url_of own_url_def split: if_splits)

lemma client_turn_loops:
  assumes q: "qt_documented q" and t: "client_turn q s e = Inr (s', os)"
  shows "opens_loops s s' os"
proof -
  have quiet: "opens_loops s s [] \<and> opens_loops s (s\<lparr>socket_valid := False\<rparr>) [BrokenShown]
      \<and> opens_loops s s [ErrorShown]"
    by (simp add: opens_loops_def)
  have ask: "opens_loops s u ps" if "ask_or_quit q (s\<lparr>timer_active := False\<rparr>) = Inr (u, ps)" for u ps
    using that ask_user_loops [OF q, of "s\<lparr>timer_active := False\<rparr>" u ps]
    by (auto simp: ask_or_quit_def opens_loops_def split: if_splits)
  have add: "opens_loops s u ps \<Longrightarrow> opens_loops s u (TimeoutShown # ps) \<and> opens_loops s u (ReplyShown r # ps)"
    for u ps r by (simp add: opens_loops_def)
  from t quiet show ?thesis
    by (cases e)
      (auto simp: client_turn_def slotTimeoutWaiting_def OnResponse_def add
        split: if_splits intro: ask_user_loops [OF q] dest!: ask)
qed

section \<open>Properties\<close>

text \<open>
  What the client asks for, and what each request leaves behind: in every run all requests
  go to the host and port the client was started with, for a path of two parts that starts with
  \<open>command\<close> or \<open>message\<close>, and each of them has entered an event loop that is never left: the
  loops still open are exactly as many as the requests made.
\<close>

theorem qnet_client_loops_pile_up:
  assumes "qt_documented q" "run (client_turn q) s es = Inr (s', os)"
  shows "nested s' = nested s + length (urls os)
    \<and> list_all (own_url (host_name s) (server_port s)) (urls os)"
proof -
  have "opens_loops s s' os" using assms(2)
  proof (induction es arbitrary: s os)
    case Nil
    then show ?case by (simp add: opens_loops_def)
  next
    case (Cons e es)
    then obtain s1 o1 o2 where "client_turn q s e = Inr (s1, o1)"
        "run (client_turn q) s1 es = Inr (s', o2)" "os = o1 @ o2" by auto
    with Cons.IH client_turn_loops [OF assms(1)] show ?case
      by (fastforce simp: opens_loops_def)
  qed
  then show ?thesis by (simp add: opens_loops_def)
qed

definition demo_client :: "string list \<Rightarrow> qnet_client" where
  "demo_client ts = \<lparr>host_name = ''::1'', server_port = 7777, stdin = ts, socket_valid = True,
     timer_active = False, nested = 0, quitting = False\<rparr>"

lemma ref_choices: "qt_to_int qt_ref ''1'' = 1" "qt_to_int qt_ref ''2'' = 2" "qt_to_int qt_ref ''x'' = 0"
  by (simp_all add: qt_ref_def dec_value_def is_digit_def)

theorem qnet_client_loops_pile_up_witness:
  "\<exists>s' os. run (client_turn qt_ref) (demo_client [''x'', ''2'', ''hi'', ''1'', ''exit'']) [Connected, TimerOut]
     = Inr (s', os) \<and> length (urls os) = 2 \<and> nested s' = 2"
proof -
  let ?s = "demo_client [''x'', ''2'', ''hi'', ''1'', ''exit'']"
  obtain s' os where r: "run (client_turn qt_ref) ?s [Connected, TimerOut] = Inr (s', os)" "length (urls os) = 2"
    by (simp add: demo_client_def client_turn_def ask_user_def send_and_wait_def slotTimeoutWaiting_def
        ask_or_quit_def ref_choices run.simps)
  from qnet_client_loops_pile_up [OF qt_ref_documented r(1)] r(2) have "nested s' = 2"
    by (simp add: demo_client_def)
  with r show ?thesis by blast
qed

end
