(* ===== verification/Credentials.thy ===== *)
theory Credentials
  imports Qt
begin

text \<open>
  What the servers of lessons 6 and 7 do with the list of users: the contract of a check of a
  login and a password, the loop of \<open>lesson6/qssl_server/main.cpp\<close> that meets it, and how
  that program loads its list.
\<close>

type_synonym user_list = "(string \<times> string) list"

section \<open>The contract\<close>

text \<open>A pair is accepted exactly when it is in the list.\<close>

locale credential_check =
  fixes check :: "user_list \<Rightarrow> string \<Rightarrow> string \<Rightarrow> bool"
  assumes sound: "check us l p \<Longrightarrow> (l, p) \<in> set us"
    and complete: "(l, p) \<in> set us \<Longrightarrow> check us l p"
begin

lemma check_iff: "check us l p \<longleftrightarrow> (l, p) \<in> set us"
  using sound complete by blast

lemma unknown_login: "l \<notin> fst ` set us \<Longrightarrow> \<not> check us l p"
  by (force simp: check_iff)

lemma one_password:
  "distinct (map fst us) \<Longrightarrow> check us l p \<Longrightarrow> check us l p' \<Longrightarrow> p = p'"
  by (simp add: check_iff eq_key_imp_eq_value)

lemma check_append: "check (us @ vs) l p \<longleftrightarrow> check us l p \<or> check vs l p"
  by (simp add: check_iff)

end

section \<open>The loop of lesson 6\<close>

text \<open>\<open>for(auto it = users.begin(); ...)\<close> in \<open>slotReadyRequest\<close>: leave at the first match.\<close>

fun find_user :: "user_list \<Rightarrow> string \<Rightarrow> string \<Rightarrow> bool" where
  "find_user [] login password = False"
| "find_user ((l, p) # us) login password =
     (if l = login \<and> p = password then True else find_user us login password)"

interpretation ssl_users: credential_check find_user
proof unfold_locales
  fix us l p
  show "find_user us l p \<Longrightarrow> (l, p) \<in> set us"
    by (induction us l p rule: find_user.induct) (auto split: if_splits)
  show "(l, p) \<in> set us \<Longrightarrow> find_user us l p"
    by (induction us l p rule: find_user.induct) auto
qed

section \<open>Loading the list\<close>

text \<open>
  \<open>LoadUsersData\<close>: \<open>None\<close> is a file that cannot be opened. Each line read is at least one
  character, so the length of the file is fuel enough for the loop.
\<close>

definition parse_user :: "qt \<Rightarrow> string \<Rightarrow> string \<times> string" where
  "parse_user q line = (qt_trimmed q (qt_section q line (CHR '' '') 0), qt_trimmed q (qt_section q line (CHR '' '') 1))"

fun load_lines :: "qt \<Rightarrow> nat \<Rightarrow> string \<Rightarrow> user_list" where
  "load_lines q 0 s = []"
| "load_lines q (Suc n) s =
     (if s = [] then []
      else let line = qt_read_line q s in parse_user q line # load_lines q n (drop (length line) s))"

definition LoadUsersData :: "qt \<Rightarrow> string option \<Rightarrow> bool \<times> user_list" where
  "LoadUsersData q file = (case file of None \<Rightarrow> (False, []) | Some s \<Rightarrow> (True, load_lines q (length s) s))"

text \<open>A name or a digest, and the line of a user.\<close>

definition plain :: "string \<Rightarrow> bool" where
  "plain w \<longleftrightarrow> w \<noteq> [] \<and> list_all (\<lambda>c. \<not> is_space c) w"

definition user_line :: "string \<times> string \<Rightarrow> string" where
  "user_line u = fst u @ '' '' @ snd u @ [LF]"

lemma space_simps [simp]: "is_space (CHR '' '')" "is_space LF" "is_space CR"
  by (simp_all add: is_space_def)

lemma plain_no: "plain w \<Longrightarrow> is_space c \<Longrightarrow> c \<notin> set w"
  by (auto simp: plain_def list_all_iff)

lemma strip_plain: "plain w \<Longrightarrow> strip w = w"
proof -
  assume w: "plain w"
  then have "dropWhile is_space w = w" by (cases w) (auto simp: plain_def)
  moreover have "dropWhile is_space (rev w) = rev w"
  proof (cases "rev w")
    case (Cons c cs)
    then have "c \<in> set w" by (metis list.set_intros(1) set_rev)
    with w Cons show ?thesis by (auto simp: plain_def list_all_iff)
  qed simp
  ultimately show ?thesis by (simp add: strip_def)
qed

lemma strip_plain_LF: "plain w \<Longrightarrow> strip (w @ [LF]) = w"
proof -
  assume w: "plain w"
  then have "dropWhile is_space (w @ [LF]) = w @ [LF]" by (cases w) (auto simp: plain_def)
  with strip_plain [OF w] w show ?thesis by (simp add: strip_def) (cases w; simp add: plain_def)
qed

lemma parse_user_plain:
  assumes "qt_documented q" "plain l" "plain p"
  shows "parse_user q (l @ CHR '' '' # p) = (l, p)" "parse_user q (l @ CHR '' '' # p @ [LF]) = (l, p)"
  using assms plain_no [OF assms(2)] plain_no [OF assms(3)]
  by (simp_all add: parse_user_def qt_section_eq qt_trimmed_eq strip_plain strip_plain_LF)

lemma load_lines_user:
  assumes q: "qt_documented q" and u: "plain l" "plain p"
  shows "load_lines q (Suc n) (user_line (l, p) @ s) = (l, p) # load_lines q n s"
proof -
  have LF: "LF \<notin> set (l @ CHR '' '' # p)"
    using plain_no [OF u(1)] plain_no [OF u(2)] by simp
  have "qt_read_line q (user_line (l, p) @ s) = user_line (l, p)"
    using qt_read_line_eq [OF q LF, of s] by (simp add: user_line_def)
  moreover have "user_line (l, p) \<noteq> []" by (simp add: user_line_def)
  ultimately show ?thesis
    using parse_user_plain [OF q u] by (simp add: Let_def) (simp add: user_line_def)
qed

lemma load_lines_last:
  assumes q: "qt_documented q" and u: "plain l" "plain p"
  shows "load_lines q (Suc n) (l @ CHR '' '' # p) = [(l, p)]"
proof -
  have LF: "LF \<notin> set (l @ CHR '' '' # p)"
    using plain_no [OF u(1)] plain_no [OF u(2)] by simp
  then show ?thesis
    using parse_user_plain [OF q u] by (cases n) (simp_all add: qt_read_all_eq [OF q] Let_def)
qed

definition plain_user :: "string \<times> string \<Rightarrow> bool" where
  "plain_user u \<longleftrightarrow> plain (fst u) \<and> plain (snd u)"

lemma load_lines_file:
  assumes q: "qt_documented q" and last: "plain_user (l, p)"
  shows "list_all plain_user us \<Longrightarrow> length us < n \<Longrightarrow>
    load_lines q n (concat (map user_line us) @ l @ CHR '' '' # p) = us @ [(l, p)]"
proof (induction us arbitrary: n)
  case Nil
  then obtain m where "n = Suc m" by (cases n) auto
  then show ?case using load_lines_last [OF q] last by (simp add: plain_user_def)
next
  case (Cons u us)
  obtain a b where u: "u = (a, b)" by (cases u)
  obtain m where "n = Suc m" using Cons.prems by (cases n) auto
  then show ?case
    using Cons load_lines_user [OF q, of a b m] by (simp add: u plain_user_def del: load_lines.simps)
qed

lemma LoadUsersData_file:
  assumes "qt_documented q" "list_all plain_user us" "plain_user (l, p)"
  shows "LoadUsersData q (Some (concat (map user_line us) @ l @ '' '' @ p)) = (True, us @ [(l, p)])"
proof -
  have "length us \<le> length (concat (map user_line us))"
    by (induction us) (simp_all add: user_line_def)
  then have "length us < length (concat (map user_line us) @ l @ CHR '' '' # p)" by simp
  from load_lines_file [OF assms(1,3,2) this] show ?thesis by (simp add: LoadUsersData_def)
qed

text \<open>An empty line is loaded as a user with an empty name and an empty digest.\<close>

lemma load_lines_blank:
  assumes q: "qt_documented q" and us: "list_all plain_user us"
  shows "length us < n \<Longrightarrow> ([], []) \<in> set (load_lines q n (concat (map user_line us) @ LF # rest))"
  using us
proof (induction us arbitrary: n)
  case Nil
  then obtain m where "n = Suc m" by (cases n) auto
  moreover have "qt_read_line q (LF # rest) = [LF]" using qt_read_line_eq [OF q, of "[]" rest] by simp
  moreover have "parse_user q [LF] = ([], [])"
    by (simp add: parse_user_def qt_section_eq [OF q] qt_trimmed_eq [OF q] strip_def)
  ultimately show ?case by simp
next
  case (Cons u us)
  obtain a b where u: "u = (a, b)" by (cases u)
  obtain m where "n = Suc m" using Cons.prems by (cases n) auto
  with Cons load_lines_user [OF q, of a b m "concat (map user_line us) @ LF # rest"] show ?case
    by (simp add: u plain_user_def del: load_lines.simps)
qed

lemma LoadUsersData_blank:
  assumes "qt_documented q" "list_all plain_user us"
  shows "([], []) \<in> set (snd (LoadUsersData q (Some (concat (map user_line us) @ LF # rest))))"
proof -
  have "length us \<le> length (concat (map user_line us))"
    by (induction us) (simp_all add: user_line_def)
  then have "length us < length (concat (map user_line us) @ LF # rest)" by simp
  from load_lines_blank [OF assms this] show ?thesis by (simp add: LoadUsersData_def)
qed

section \<open>Properties\<close>

text \<open>
  The user file is read back as it was written: from a file of lines with a login, a blank
  and a digest, the last of them without a line end, \<open>LoadUsersData\<close> gets exactly those
  pairs in order.
\<close>

theorem users_roundtrip:
  assumes "qt_documented q" "list_all plain_user us" "plain_user (l, p)"
  shows "LoadUsersData q (Some (concat (map user_line us) @ l @ '' '' @ p)) = (True, us @ [(l, p)])"
  using assms by (rule LoadUsersData_file)

theorem users_roundtrip_witness:
  "LoadUsersData qt_ref (Some (''ivanov cf1c'' @ [LF] @ ''petrov 6196''))
     = (True, [(''ivanov'', ''cf1c''), (''petrov'', ''6196'')])"
  using users_roundtrip [of qt_ref "[(''ivanov'', ''cf1c'')]" "''petrov''" "''6196''"]
  by (simp add: user_line_def plain_user_def plain_def is_space_def)

end
