(* ===== verification/SslServer.thy ===== *)
theory SslServer
  imports QnetServer Credentials
begin

text \<open>
  The TLS server of \<open>lesson6/qssl_server/main.cpp\<close>. As in lesson 5 the event loop calls a
  slot per signal and the slots work on one client, the record that \<open>ssl_client\<close> points to,
  which a new connection replaces. The handshake is an event with its result; the
  certificate and key files only log what is wrong with them (\<open>Handle_key\<close>).
\<close>

section \<open>State\<close>

record ssl_peer =
  ssl_socket :: nat
  isAutorization :: bool
  login :: string
  password :: string

record ssl_server =
  users :: user_list
  ssl_client :: "ssl_peer option"
  ssl_open :: "nat list"
  ssl_inbox :: "nat \<Rightarrow> string"
  timer_running :: bool

datatype ssl_event =
    Incoming nat bool bool
  | Readable nat string
  | SocketGone nat
  | ReplyTimeout

datatype ssl_out =
    RequestShown string
  | MessageShown string
  | ReplySent nat string
  | ConnectionClosed string

section \<open>Slots\<close>

definition ssl_start :: "qt \<Rightarrow> string option \<Rightarrow> ssl_server" where
  "ssl_start q file = \<lparr>users = snd (LoadUsersData q file), ssl_client = None, ssl_open = [],
     ssl_inbox = (\<lambda>_. []), timer_running = False\<rparr>"

definition close_current :: "ssl_server \<Rightarrow> (ssl_server \<times> ssl_out list) outcome" where
  "close_current s =
     (case ssl_client s of
        None \<Rightarrow> Inl NullDeref
      | Some cl \<Rightarrow>
          Inr (s\<lparr>ssl_open := removeAll (ssl_socket cl) (ssl_open s),
                 ssl_inbox := (ssl_inbox s)(ssl_socket cl := [])\<rparr>,
               [ConnectionClosed (login cl)]))"

text \<open>
  \<open>incomingConnection\<close>: a fresh record replaces the old one before anything can fail. The
  read slot is connected only after the handshake, so a socket without it gets no read event.
\<close>

definition incomingConnection :: "nat \<Rightarrow> bool \<Rightarrow> bool \<Rightarrow> ssl_server \<Rightarrow> (ssl_server \<times> ssl_out list) outcome" where
  "incomingConnection c descriptor_ok encrypted s =
     (let s1 = s\<lparr>ssl_client := Some \<lparr>ssl_socket = c, isAutorization = False, login = [], password = []\<rparr>,
                 ssl_inbox := (ssl_inbox s)(c := [])\<rparr>
      in if \<not> descriptor_ok then Inr (s1, [])
         else let s2 = s1\<lparr>ssl_open := c # ssl_open s1\<rparr>
              in if encrypted then Inr (s2, []) else close_current s2)"

text \<open>\<open>Send\<close> of this server: the write, then a new single-shot timer.\<close>

definition ssl_send :: "qt \<Rightarrow> nat \<Rightarrow> ssl_server \<Rightarrow> (ssl_server \<times> ssl_out list) outcome" where
  "ssl_send q code s =
     (case ssl_client s of
        None \<Rightarrow> Inl NullDeref
      | Some cl \<Rightarrow>
          Inr (s\<lparr>timer_running := True\<rparr>,
            if ssl_socket cl \<in> set (ssl_open s) then [ReplySent (ssl_socket cl) (qssl_pack q code)] else []))"

text \<open>The login and the password in the second part of the path.\<close>

definition read_credentials :: "qt \<Rightarrow> string \<Rightarrow> ssl_peer \<Rightarrow> ssl_peer" where
  "read_credentials q command cl =
     (let str = qt_section q command (CHR ''='') 1
      in cl\<lparr>login := qt_section q str (CHR ''&'') 0, password := qt_section q command (CHR ''='') 2\<rparr>)"

definition answer_get :: "qt \<Rightarrow> string \<Rightarrow> string \<Rightarrow> ssl_peer \<Rightarrow> ssl_server \<Rightarrow> (ssl_server \<times> ssl_out list) outcome" where
  "answer_get q task command cl s =
     (if \<not> isAutorization cl then
        (if task = ''authorization'' then
           (let cl1 = read_credentials q command cl
            in if find_user (users s) (login cl1) (password cl1)
               then ssl_send q 200 (s\<lparr>ssl_client := Some (cl1\<lparr>isAutorization := True\<rparr>)\<rparr>)
               else ssl_send q 401 (s\<lparr>ssl_client := Some cl1\<rparr>))
         else ssl_send q 400 s)
      else if task = ''message'' then
        bind_out (ssl_send q 200 s) (\<lambda>(s', os). Inr (s', MessageShown command # os))
      else ssl_send q 400 s)"

definition slotReadyRequest :: "qt \<Rightarrow> ssl_server \<Rightarrow> (ssl_server \<times> ssl_out list) outcome" where
  "slotReadyRequest q s =
     (case ssl_client s of
        None \<Rightarrow> Inl NullDeref
      | Some cl \<Rightarrow>
          let data = ssl_inbox s (ssl_socket cl);
              s1 = s\<lparr>ssl_inbox := (ssl_inbox s)(ssl_socket cl := []), timer_running := False\<rparr>;
              line = qt_stream_line q data;
              tokens = qt_split q line
          in if field_at tokens 0 = ''GET''
             then if length tokens < 2 then Inl OutOfBounds
                  else bind_out (answer_get q (qt_section q (tokens ! 1) (CHR ''/'') 1)
                         (qt_section q (tokens ! 1) (CHR ''/'') 2) cl s1)
                         (\<lambda>(s2, os). Inr (s2, RequestShown data # os))
             else Inr (s1, [RequestShown data]))"

definition ssl_turn :: "qt \<Rightarrow> (ssl_server, ssl_event, ssl_out) handler" where
  "ssl_turn q s e =
     (case e of
        Incoming c ok enc \<Rightarrow> incomingConnection c ok enc s
      | Readable c d \<Rightarrow> slotReadyRequest q (s\<lparr>ssl_inbox := (ssl_inbox s)(c := ssl_inbox s c @ d)\<rparr>)
      | SocketGone c \<Rightarrow> close_current (s\<lparr>ssl_open := removeAll c (ssl_open s)\<rparr>)
      | ReplyTimeout \<Rightarrow>
          if timer_running s then close_current (s\<lparr>timer_running := False\<rparr>) else Inr (s, []))"

section \<open>Authorisation\<close>

text \<open>Who is authorised has shown a pair of the list, and the list never changes.\<close>

definition knows_password :: "user_list \<Rightarrow> ssl_server \<Rightarrow> bool" where
  "knows_password us s \<longleftrightarrow> users s = us
     \<and> (case ssl_client s of None \<Rightarrow> True
        | Some cl \<Rightarrow> isAutorization cl \<longrightarrow> (login cl, password cl) \<in> set us)"

definition messages :: "ssl_out list \<Rightarrow> string list" where
  "messages os = concat (map (\<lambda>out. case out of MessageShown m \<Rightarrow> [m] | _ \<Rightarrow> []) os)"

lemma messages_simps [simp]:
  "messages [] = []" "messages (MessageShown m # os) = m # messages os"
  "messages (RequestShown t # os) = messages os" "messages (ReplySent c t # os) = messages os"
  "messages (ConnectionClosed t # os) = messages os" "messages (os @ ps) = messages os @ messages ps"
  by (simp_all add: messages_def)

lemma ssl_send_simps:
  "ssl_send q code s = Inr (s', os) \<Longrightarrow>
     s' = s\<lparr>timer_running := True\<rparr> \<and> messages os = []"
  by (auto simp: ssl_send_def split: option.splits)

lemma read_credentials_simps [simp]:
  "isAutorization (read_credentials q command cl) = isAutorization cl"
  "ssl_socket (read_credentials q command cl) = ssl_socket cl"
  by (simp_all add: read_credentials_def Let_def)

lemma answer_get_cases:
  assumes "answer_get q task command cl s = Inr (s', os)" "ssl_client s = Some cl"
  shows "users s' = users s \<and> (\<exists>cl'. ssl_client s' = Some cl' \<and>
      (isAutorization cl' \<longrightarrow> isAutorization cl \<and> cl' = cl \<or> find_user (users s) (login cl') (password cl')))
    \<and> (messages os \<noteq> [] \<longrightarrow> isAutorization cl)"
  using assms by (auto simp: answer_get_def Let_def split: if_splits dest!: ssl_send_simps)

lemma slotReadyRequest_keeps:
  assumes "slotReadyRequest q s = Inr (s', os)" "knows_password us s"
  shows "knows_password us s' \<and> (messages os \<noteq> [] \<longrightarrow>
    (\<exists>cl. ssl_client s = Some cl \<and> isAutorization cl \<and> (login cl, password cl) \<in> set us))"
proof -
  obtain cl where cl: "ssl_client s = Some cl"
    using assms(1) by (auto simp: slotReadyRequest_def split: option.splits)
  let ?s = "s\<lparr>ssl_inbox := (ssl_inbox s)(ssl_socket cl := []), timer_running := False\<rparr>"
  have "ssl_client ?s = Some cl" "users ?s = users s" using cl by simp_all
  with assms cl show ?thesis
    by (auto simp: slotReadyRequest_def knows_password_def Let_def split: if_splits
        dest!: answer_get_cases ssl_users.sound)
qed

lemma close_current_keeps:
  "close_current s = Inr (s', os) \<Longrightarrow> users s' = users s \<and> ssl_client s' = ssl_client s \<and> messages os = []"
  by (auto simp: close_current_def split: option.splits)

lemma ssl_turn_keeps:
  assumes "ssl_turn q s e = Inr (s', os)" "knows_password us s"
  shows "knows_password us s' \<and> (messages os \<noteq> [] \<longrightarrow>
    (\<exists>cl. ssl_client s = Some cl \<and> isAutorization cl \<and> (login cl, password cl) \<in> set us))"
proof (cases e)
  case (Readable c d)
  let ?s = "s\<lparr>ssl_inbox := (ssl_inbox s)(c := ssl_inbox s c @ d)\<rparr>"
  have "knows_password us ?s" using assms(2) by (simp add: knows_password_def)
  with assms(1) Readable slotReadyRequest_keeps [of q ?s s' os us] show ?thesis
    by (simp add: ssl_turn_def)
next
  case (Incoming c ok enc)
  with assms show ?thesis
    by (auto simp: ssl_turn_def incomingConnection_def knows_password_def Let_def
        split: if_splits dest!: close_current_keeps)
next
  case (SocketGone c)
  with assms show ?thesis
    by (auto simp: ssl_turn_def knows_password_def dest!: close_current_keeps)
next
  case ReplyTimeout
  with assms show ?thesis
    by (auto simp: ssl_turn_def knows_password_def split: if_splits dest!: close_current_keeps)
qed

lemma ssl_run_keeps:
  "run (ssl_turn q) s es = Inr (s', os) \<Longrightarrow> knows_password us s \<Longrightarrow> knows_password us s'"
  using run_keeps [of "knows_password us" "ssl_turn q" "\<lambda>_. True" s es s' os] ssl_turn_keeps
  by (fastforce simp: list_all_iff)

section \<open>Logging in\<close>

definition login_command :: "string \<Rightarrow> string \<Rightarrow> string" where
  "login_command l p = ''login='' @ l @ ''&password='' @ p"

definition login_request :: "string \<Rightarrow> string \<Rightarrow> string" where
  "login_request l p = get_line ''authorization'' (login_command l p)"

text \<open>Texts that hold none of the separators of a login request.\<close>

definition field_text :: "string \<Rightarrow> bool" where
  "field_text w \<longleftrightarrow> word w \<and> CHR ''='' \<notin> set w \<and> CHR ''&'' \<notin> set w"

lemma md5_field: "qt_documented q \<Longrightarrow> field_text (qt_md5_hex q p)"
  using qt_md5_eq(2) [of q _ p]
  by (fastforce simp: field_text_def word_def list_all_iff is_blank_def hex_digit_def is_digit_def)

lemma login_command_word: "field_text l \<Longrightarrow> field_text p \<Longrightarrow> word (login_command l p)"
  by (auto simp: login_command_def field_text_def word_def is_blank_def)

lemma login_fields:
  assumes "field_text l" "field_text p"
  shows "split_on (CHR ''='') (login_command l p) = [''login'', l @ ''&password'', p]"
    and "split_on (CHR ''&'') (l @ ''&password'') = [l, ''password'']"
proof -
  have l: "CHR ''='' \<notin> set (l @ ''&password'')" and p: "CHR ''='' \<notin> set p"
    and a: "CHR ''&'' \<notin> set l"
    using assms by (auto simp: field_text_def)
  show "split_on (CHR ''='') (login_command l p) = [''login'', l @ ''&password'', p]"
    using split_on_append [OF l, of p] p by (simp add: login_command_def)
  show "split_on (CHR ''&'') (l @ ''&password'') = [l, ''password'']"
    using split_on_append [OF a, of "''password''"] by simp
qed

lemma read_login:
  assumes "qt_documented q" "field_text l" "field_text p"
  shows "read_credentials q (login_command l p) cl = cl\<lparr>login := l, password := p\<rparr>"
  using login_fields [OF assms(2,3)]
  by (simp add: read_credentials_def qt_section_eq [OF assms(1)] numeral_2_eq_2)

text \<open>A complete request of the current client.\<close>

lemma ready_get:
  assumes q: "qt_documented q" and w: "word task" "word command"
    and cl: "ssl_client s = Some cl" "ssl_inbox s (ssl_socket cl) = get_line task command @ rest"
  shows "slotReadyRequest q s = bind_out (answer_get q task command cl
       (s\<lparr>ssl_inbox := (ssl_inbox s)(ssl_socket cl := []), timer_running := False\<rparr>))
       (\<lambda>(s2, os). Inr (s2, RequestShown (get_line task command @ rest) # os))"
proof -
  let ?l = "''GET /'' @ task @ ''/'' @ command @ '' HTTP/1.1''"
  have "LF \<notin> set ?l" using w by (auto simp: word_def list_all_iff is_blank_def)
  from qt_stream_line_eq [OF q this, of rest]
  have line: "qt_stream_line q (get_line task command @ rest) = ?l" by (simp add: get_line_def)
  have w1: "\<forall>c \<in> set (''/'' @ task @ ''/'' @ command). \<not> is_blank c"
    using w by (auto simp: word_def list_all_iff is_blank_def)
  have tok: "qt_split q ?l = [''GET'', ''/'' @ task @ ''/'' @ command, ''HTTP/1.1'']"
  proof -
    have "split_blanks ((''/'' @ task @ ''/'' @ command) @ CHR '' '' # ''HTTP/1.1'')
        = [''/'' @ task @ ''/'' @ command, ''HTTP/1.1'']"
      using split_blanks_step [OF w1, of "CHR '' ''" "''HTTP/1.1''"] split_blanks_word [of "''HTTP/1.1''"]
      by (simp add: is_blank_def)
    moreover have "split_blanks (''GET'' @ CHR '' '' # r) = ''GET'' # split_blanks (dropWhile is_blank r)" for r
      by (rule split_blanks_step) (simp_all add: is_blank_def)
    ultimately show ?thesis by (simp add: qt_split_eq [OF q] is_blank_def)
  qed
  have sec: "qt_section q (''/'' @ task @ ''/'' @ command) (CHR ''/'') 1 = task"
      "qt_section q (''/'' @ task @ ''/'' @ command) (CHR ''/'') 2 = command"
    by (simp_all only: qt_section_eq [OF q] path_fields [OF w]) (simp_all add: numeral_2_eq_2)
  show ?thesis
    unfolding slotReadyRequest_def cl option.case Let_def line tok using sec by simp
qed

lemma ssl_login_step:
  assumes "qt_documented q" "ssl_client s = Some cl" "\<not> isAutorization cl"
    and "ssl_socket cl \<in> set (ssl_open s)" "ssl_inbox s (ssl_socket cl) = []"
    and "field_text l" "field_text p"
  shows "\<exists>s'. ssl_turn q s (Readable (ssl_socket cl) (login_request l p @ rest)) = Inr (s',
       [RequestShown (login_request l p @ rest),
        ReplySent (ssl_socket cl) (qssl_pack q (if (l, p) \<in> set (users s) then 200 else 401))])
     \<and> ssl_client s' = Some (cl\<lparr>login := l, password := p, isAutorization := (l, p) \<in> set (users s)\<rparr>)
     \<and> timer_running s' \<and> users s' = users s \<and> ssl_inbox s' (ssl_socket cl) = []"
proof -
  let ?s = "s\<lparr>ssl_inbox := (ssl_inbox s)(ssl_socket cl := login_request l p @ rest)\<rparr>"
  have w: "word ''authorization''" by (simp add: word_def is_blank_def)
  have r: "slotReadyRequest q ?s = bind_out (answer_get q ''authorization'' (login_command l p) cl
       (?s\<lparr>ssl_inbox := (ssl_inbox ?s)(ssl_socket cl := []), timer_running := False\<rparr>))
       (\<lambda>(s2, os). Inr (s2, RequestShown (get_line ''authorization'' (login_command l p) @ rest) # os))"
    using assms login_command_word [OF assms(6,7)]
    by (intro ready_get w) (simp_all add: login_request_def)
  have "ssl_turn q s (Readable (ssl_socket cl) (login_request l p @ rest)) = slotReadyRequest q ?s"
    using assms(5) by (simp add: ssl_turn_def)
  then show ?thesis
    unfolding r using assms(2-4)
    by (simp add: answer_get_def read_login [OF assms(1,6,7)] ssl_users.check_iff ssl_send_def
        login_request_def Let_def)
qed

lemma ssl_message_step:
  assumes q: "qt_documented q" and cl: "ssl_client s = Some cl" "isAutorization cl"
    and i: "ssl_inbox s (ssl_socket cl) = []" and m: "word m"
  shows "\<exists>s' os. ssl_turn q s (Readable (ssl_socket cl) (get_line ''message'' m @ rest)) = Inr (s', os)
    \<and> messages os = [m]"
proof -
  let ?s = "s\<lparr>ssl_inbox := (ssl_inbox s)(ssl_socket cl := get_line ''message'' m @ rest)\<rparr>"
  have w: "word ''message''" by (simp add: word_def is_blank_def)
  have "slotReadyRequest q ?s = bind_out (answer_get q ''message'' m cl
       (?s\<lparr>ssl_inbox := (ssl_inbox ?s)(ssl_socket cl := []), timer_running := False\<rparr>))
       (\<lambda>(s2, os). Inr (s2, RequestShown (get_line ''message'' m @ rest) # os))"
    using assms by (intro ready_get q w m) simp_all
  then show ?thesis using cl i
    by (simp add: ssl_turn_def answer_get_def ssl_send_def)
qed

section \<open>Properties\<close>

text \<open>
  C21. Messages are taken only from a client that has logged in: in every run of the server from
  its start, whatever connections, requests and timeouts come, a message is shown only while the
  current client is authorised, and then the login and password it has sent are a pair of the
  users' file.
\<close>

theorem ssl_message_needs_login:
  assumes "run (ssl_turn q) (ssl_start q file) es = Inr (s, os)"
    and "ssl_turn q s e = Inr (s', os')" "messages os' \<noteq> []"
  shows "\<exists>cl. ssl_client s = Some cl \<and> isAutorization cl
    \<and> (login cl, password cl) \<in> set (snd (LoadUsersData q file))"
proof -
  have "knows_password (snd (LoadUsersData q file)) (ssl_start q file)"
    by (simp add: knows_password_def ssl_start_def)
  from ssl_run_keeps [OF assms(1) this] ssl_turn_keeps [OF assms(2)] assms(3)
  show ?thesis by blast
qed

definition demo_file :: string where
  "demo_file = ''ivanov cf1c''"

lemma demo_users [simp]: "snd (LoadUsersData qt_ref (Some demo_file)) = [(''ivanov'', ''cf1c'')]"
  using LoadUsersData_file [of qt_ref "[]" "''ivanov''" "''cf1c''"]
  by (simp add: demo_file_def plain_user_def plain_def is_space_def)

definition demo_ssl :: ssl_server where
  "demo_ssl = \<lparr>users = [(''ivanov'', ''cf1c'')],
     ssl_client = Some \<lparr>ssl_socket = 1, isAutorization = False, login = [], password = []\<rparr>,
     ssl_open = [1], ssl_inbox = (\<lambda>_. []), timer_running = False\<rparr>"

lemma demo_connect: "ssl_turn qt_ref (ssl_start qt_ref (Some demo_file)) (Incoming 1 True True) = Inr (demo_ssl, [])"
  by (simp add: ssl_turn_def incomingConnection_def ssl_start_def demo_ssl_def fun_eq_iff)

lemma demo_fields: "field_text ''ivanov''" "field_text ''cf1c''" "word ''hi''"
  by (simp_all add: field_text_def word_def is_blank_def)

theorem ssl_message_needs_login_witness:
  "\<exists>es s os s' os'. run (ssl_turn qt_ref) (ssl_start qt_ref (Some demo_file)) es = Inr (s, os)
     \<and> ssl_turn qt_ref s (Readable 1 (get_line ''message'' ''hi'')) = Inr (s', os') \<and> messages os' = [''hi'']
     \<and> (\<exists>cl. ssl_client s = Some cl \<and> isAutorization cl \<and> (login cl, password cl) \<in> {(''ivanov'', ''cf1c'')})"
proof -
  let ?es = "[Incoming 1 True True, Readable 1 (login_request ''ivanov'' ''cf1c'')]"
  from ssl_login_step [of qt_ref demo_ssl _ "''ivanov''" "''cf1c''" "[]"] demo_fields
  obtain s o1 where login: "ssl_turn qt_ref demo_ssl (Readable 1 (login_request ''ivanov'' ''cf1c'')) = Inr (s, o1)"
      and cl: "ssl_client s = Some \<lparr>ssl_socket = 1, isAutorization = True, login = ''ivanov'', password = ''cf1c''\<rparr>"
    by (fastforce simp: demo_ssl_def)
  have box: "ssl_inbox s 1 = []"
  proof -
    have "ssl_inbox (s :: ssl_server) 1 = []"
      using login by (auto simp: ssl_turn_def slotReadyRequest_def demo_ssl_def answer_get_def ssl_send_def
          Let_def split: if_splits)
    then show ?thesis .
  qed
  have r: "run (ssl_turn qt_ref) (ssl_start qt_ref (Some demo_file)) ?es = Inr (s, [] @ o1 @ [])"
    by (rule run_Cons_ok [where h = "ssl_turn qt_ref", OF demo_connect
          run_Cons_ok [where h = "ssl_turn qt_ref", OF login]]) simp
  from ssl_message_step [OF qt_ref_documented cl, of "''hi''" "[]"] box demo_fields(3)
  obtain s' os' where m: "ssl_turn qt_ref s (Readable 1 (get_line ''message'' ''hi'')) = Inr (s', os')"
      "messages os' = [''hi'']" by auto
  from ssl_message_needs_login [OF r m(1)] m r show ?thesis by (auto intro!: exI [of _ ?es])
qed

text \<open>
  A login is decided by the list alone: a client that is not authorised and sends a login
  request with a login and a password free of separators is authorised and answered 200 when
  that very pair is in the list, and otherwise answered 401 and left unauthorised; either way the
  connection then waits for the next request with the timer running.
\<close>

theorem ssl_login:
  assumes "qt_documented q" "ssl_client s = Some cl" "\<not> isAutorization cl"
    and "ssl_socket cl \<in> set (ssl_open s)" "ssl_inbox s (ssl_socket cl) = []"
    and "field_text l" "field_text p"
  shows "\<exists>s'. ssl_turn q s (Readable (ssl_socket cl) (login_request l p @ rest)) = Inr (s',
       [RequestShown (login_request l p @ rest),
        ReplySent (ssl_socket cl) (qssl_pack q (if (l, p) \<in> set (users s) then 200 else 401))])
     \<and> ssl_client s' = Some (cl\<lparr>login := l, password := p, isAutorization := (l, p) \<in> set (users s)\<rparr>)
     \<and> timer_running s' \<and> users s' = users s"
  using ssl_login_step [OF assms, of rest] by blast

theorem ssl_login_witness:
  "\<exists>s'. ssl_turn qt_ref demo_ssl (Readable 1 (login_request ''ivanov'' ''hi'' @ [])) = Inr (s',
       [RequestShown (login_request ''ivanov'' ''hi'' @ []), ReplySent 1 (qssl_pack qt_ref 401)])"
proof -
  have "field_text ''hi''" by (simp add: field_text_def word_def is_blank_def)
  with ssl_login [of qt_ref demo_ssl _ "''ivanov''" "''hi''" "[]"] demo_fields
  show ?thesis by (fastforce simp: demo_ssl_def)
qed

text \<open>
  An empty line in the users' file opens the server: when the file holds one after its
  first users, a client that connects and asks for \<open>/authorization/\<close> with no login and no
  password at all is authorised and answered 200.
\<close>

theorem ssl_blank_line_opens:
  assumes "qt_documented q" "list_all plain_user us"
  shows "\<exists>s os. run (ssl_turn q) (ssl_start q (Some (concat (map user_line us) @ LF # lines)))
       [Incoming c True True, Readable c (get_line ''authorization'' [] @ rest)] = Inr (s, os)
     \<and> ReplySent c (qssl_pack q 200) \<in> set os
     \<and> ssl_client s = Some \<lparr>ssl_socket = c, isAutorization = True, login = [], password = []\<rparr>"
proof -
  let ?s0 = "ssl_start q (Some (concat (map user_line us) @ LF # lines))"
  let ?cl = "\<lparr>ssl_socket = c, isAutorization = False, login = [], password = []\<rparr>"
  let ?s1 = "?s0\<lparr>ssl_client := Some ?cl, ssl_inbox := (ssl_inbox ?s0)(c := []), ssl_open := c # ssl_open ?s0\<rparr>"
  let ?s2 = "?s1\<lparr>ssl_inbox := (ssl_inbox ?s1)(c := get_line ''authorization'' [] @ rest)\<rparr>"
  have 1: "ssl_turn q ?s0 (Incoming c True True) = Inr (?s1, [])"
    by (simp add: ssl_turn_def incomingConnection_def)
  have user: "find_user (users ?s1) [] []"
    using LoadUsersData_blank [OF assms] by (simp add: ssl_users.check_iff ssl_start_def)
  have w: "word ''authorization''" "word []" by (simp_all add: word_def is_blank_def)
  have "slotReadyRequest q ?s2 = bind_out (answer_get q ''authorization'' [] ?cl
       (?s2\<lparr>ssl_inbox := (ssl_inbox ?s2)(ssl_socket ?cl := []), timer_running := False\<rparr>))
       (\<lambda>(s2, os). Inr (s2, RequestShown (get_line ''authorization'' [] @ rest) # os))"
    by (intro ready_get assms(1) w) simp_all
  moreover have "read_credentials q [] ?cl = ?cl"
    by (simp add: read_credentials_def qt_section_eq [OF assms(1)] numeral_2_eq_2)
  ultimately have "\<exists>s2 os. ssl_turn q ?s1 (Readable c (get_line ''authorization'' [] @ rest)) = Inr (s2, os)
      \<and> ReplySent c (qssl_pack q 200) \<in> set os
      \<and> ssl_client s2 = Some \<lparr>ssl_socket = c, isAutorization = True, login = [], password = []\<rparr>"
    using user by (simp add: ssl_turn_def answer_get_def ssl_send_def Let_def)
  then obtain s2 os where 2: "ssl_turn q ?s1 (Readable c (get_line ''authorization'' [] @ rest)) = Inr (s2, os)"
      "ReplySent c (qssl_pack q 200) \<in> set os"
      "ssl_client s2 = Some \<lparr>ssl_socket = c, isAutorization = True, login = [], password = []\<rparr>" by blast
  have "run (ssl_turn q) ?s0 [Incoming c True True, Readable c (get_line ''authorization'' [] @ rest)]
      = Inr (s2, [] @ os @ [])"
    by (rule run_Cons_ok [where h = "ssl_turn q", OF 1 run_Cons_ok [where h = "ssl_turn q", OF 2(1)]]) simp
  with 2 show ?thesis by auto
qed

theorem ssl_blank_line_opens_witness:
  "\<exists>s os. run (ssl_turn qt_ref) (ssl_start qt_ref (Some (concat (map user_line [(''ivanov'', ''cf1c'')]) @ LF # [])))
       [Incoming 3 True True, Readable 3 (get_line ''authorization'' [] @ [])] = Inr (s, os)
     \<and> ReplySent 3 (qssl_pack qt_ref 200) \<in> set os
     \<and> ssl_client s = Some \<lparr>ssl_socket = 3, isAutorization = True, login = [], password = []\<rparr>"
  by (rule ssl_blank_line_opens) (simp_all add: plain_user_def plain_def is_space_def)

end
