(* ===== verification/SslClient.thy ===== *)
theory SslClient
  imports HttpReply Machine
begin

text \<open>
  The TLS client of \<open>lesson6/qssl_client/main.cpp\<close>. The words the user types are a list in the
  state and the slots read them where the code does. Every login connects the read slot to the
  socket once more, and a signal calls a slot once for each connection made before it, so the
  state counts the connections. The certificates are not modelled.
\<close>

section \<open>State\<close>

record ssl_app =
  app_host :: string
  request :: string
  words :: "string list"
  socket_open :: bool
  app_received :: string
  read_slots :: nat
  answer_timer :: bool
  in_loop :: bool
  exited :: bool

datatype app_event = Handshake bool | ServerResponse string | AnswerTimeout | ServerLeft

datatype app_out =
    Wrote string
  | ResponseShown string
  | ConnectionBroken
  | ExitCalled

definition app_start :: "string \<Rightarrow> string list \<Rightarrow> ssl_app" where
  "app_start host ts = \<lparr>app_host = host, request = [], words = ts, socket_open = True, app_received = [],
     read_slots = 0, answer_timer = False, in_loop = False, exited = False\<rparr>"

section \<open>Questions\<close>

fun ask_login :: "string list \<Rightarrow> ((string \<times> string) \<times> string list) outcome" where
  "ask_login (user_login # password # ts) =
     (if length password < 4 \<or> length user_login < 4 then ask_login ts else Inr ((user_login, password), ts))"
| "ask_login _ = Inl Blocked"

fun ask_exit :: "string list \<Rightarrow> string list outcome" where
  "ask_exit [] = Inl Blocked"
| "ask_exit (t # ts) = (if t = ''exit'' then Inr ts else ask_exit ts)"

section \<open>Slots\<close>

definition request_headers :: "string \<Rightarrow> string" where
  "request_headers host = ''Host: '' @ host @ CRLF @ ''Accept: text/html'' @ CRLF
     @ ''Accept-Language: ru-RU'' @ CRLF @ ''Connection: Keep-Alive'' @ CRLF @ CRLF"

text \<open>\<open>slotRepeat_Request\<close>: the request, then a new timer; a closed socket takes nothing.\<close>

definition slotRepeat_Request :: "ssl_app \<Rightarrow> ssl_app \<times> app_out list" where
  "slotRepeat_Request s =
     (s\<lparr>answer_timer := True\<rparr>, if socket_open s then [Wrote (request s)] else [])"

definition slotNewConnection :: "qt \<Rightarrow> ssl_app \<Rightarrow> (ssl_app \<times> app_out list) outcome" where
  "slotNewConnection q s =
     bind_out (ask_login (words s)) (\<lambda>((user_login, password), ts).
       let crypt_password = qt_md5_hex q password;
           req = request s @ ''GET /authorization/login='' @ user_login @ ''&password='' @ crypt_password
                 @ '' HTTP/1.1'' @ CRLF @ request_headers (app_host s)
       in Inr (slotRepeat_Request (s\<lparr>words := ts, request := req, read_slots := read_slots s + 1\<rparr>)))"

definition SendMessage :: "ssl_app \<Rightarrow> (ssl_app \<times> app_out list) outcome" where
  "SendMessage s =
     bind_out (token_of_length 1 (words s)) (\<lambda>(message, ts).
       let req = request s @ ''GET /message/'' @ message @ '' HTTP/1.1'' @ CRLF @ request_headers (app_host s)
       in Inr (slotRepeat_Request (s\<lparr>words := ts, request := req\<rparr>)))"

text \<open>\<open>exit\<close> ends the event loop when that runs; before, while the constructor waits, it does nothing.\<close>

definition slotServerDisconnected :: "ssl_app \<Rightarrow> (ssl_app \<times> app_out list) outcome" where
  "slotServerDisconnected s =
     bind_out (ask_exit (words s)) (\<lambda>ts.
       Inr (s\<lparr>words := ts, socket_open := False, exited := in_loop s\<rparr>, [ConnectionBroken, ExitCalled]))"

text \<open>\<open>slotReadResponce\<close>: the timer off, the request cleared, then a case on the status code.\<close>

definition slotReadResponce :: "qt \<Rightarrow> ssl_app \<Rightarrow> (ssl_app \<times> app_out list) outcome" where
  "slotReadResponce q s =
     (let line = qt_stream_line q (app_received s);
          code_resp = qt_section q line (CHR '' '') 1;
          s1 = s\<lparr>answer_timer := False, request := [], app_received := []\<rparr>;
          code = qt_to_int q code_resp
      in if code = 200 then bind_out (SendMessage s1) (\<lambda>(s2, os). Inr (s2, ResponseShown ''Ok'' # os))
         else if code = 401 then
           bind_out (slotNewConnection q s1) (\<lambda>(s2, os). Inr (s2, ResponseShown ''Unauthorized'' # os))
         else if code = 400 then
           bind_out (slotServerDisconnected s1) (\<lambda>(s2, os). Inr (s2, ResponseShown ''Bad Request'' # os))
         else Inr (s1, []))"

fun read_times :: "qt \<Rightarrow> nat \<Rightarrow> ssl_app \<Rightarrow> (ssl_app \<times> app_out list) outcome" where
  "read_times q 0 s = Inr (s, [])"
| "read_times q (Suc n) s =
     bind_out (slotReadResponce q s) (\<lambda>(s1, o1).
     bind_out (read_times q n s1) (\<lambda>(s2, o2). Inr (s2, o1 @ o2)))"

text \<open>The end of the handshake is the end of the constructor: the event loop starts after it.\<close>

definition app_turn :: "qt \<Rightarrow> (ssl_app, app_event, app_out) handler" where
  "app_turn q s e =
     (if exited s then Inr (s, [])
      else case e of
        Handshake ok \<Rightarrow>
          bind_out (if ok then slotNewConnection q s else slotServerDisconnected s) (\<lambda>(s1, os).
            Inr (s1\<lparr>in_loop := True\<rparr>, os))
      | ServerResponse d \<Rightarrow> read_times q (read_slots s) (s\<lparr>app_received := app_received s @ d\<rparr>)
      | AnswerTimeout \<Rightarrow> (if answer_timer s then slotServerDisconnected s else Inr (s, []))
      | ServerLeft \<Rightarrow> slotServerDisconnected s)"

text \<open>
  \<open>main\<close>: without arguments it asks for \<open>exit\<close>, calls an \<open>exit\<close> that does nothing before
  the event loop runs, and then reads an argument that is not there.
\<close>

definition app_main :: "qt \<Rightarrow> string list \<Rightarrow> string list \<Rightarrow> (ssl_app \<times> int) outcome" where
  "app_main q args ts =
     (case args of
        [] \<Rightarrow> bind_out (ask_exit ts) (\<lambda>_. Inl OutOfBounds)
      | host # ports \<Rightarrow> Inr (app_start host ts, qt_to_int q (case ports of [] \<Rightarrow> [] | p # _ \<Rightarrow> p)))"

section \<open>Lemmas\<close>

text \<open>The status line of a reply of the server, read the way the client reads it.\<close>

lemma reply_code_read:
  assumes q: "qt_documented q" and c: "code \<in> {200, 400, 401}"
  shows "qt_to_int q (qt_section q (qt_stream_line q (qssl_pack q code)) (CHR '' '') 1) = int code"
proof -
  from c consider "code = 200" | "code = 400" | "code = 401" by blast
  then obtain t where t: "qssl_title code = Some (nat_str code @ '' '' @ t)"
      and clean: "LF \<notin> set t" and small: "code < 2 ^ 31"
    by cases (simp_all add: qssl_title_def code_digits)
  let ?l = "''HTTP/1.1 '' @ nat_str code @ '' '' @ t"
  have "LF \<notin> set (nat_str code)" "CHR '' '' \<notin> set (nat_str code)"
    by (rule nat_str_other, simp add: is_digit_def)+
  with clean have "LF \<notin> set ?l" by simp
  from qt_stream_line_eq [OF q this]
  have "qt_stream_line q (qssl_pack q code) = ?l"
    by (simp add: qssl_pack_def t pack_def Let_def)
  moreover have "qt_section q ?l (CHR '' '') 1 = nat_str code"
    using split_on_append [of "CHR '' ''" "''HTTP/1.1''" "nat_str code @ '' '' @ t"]
      split_on_append [of "CHR '' ''" "nat_str code" t] \<open>CHR '' '' \<notin> set (nat_str code)\<close>
    by (simp add: qt_section_eq [OF q])
  ultimately show ?thesis by (simp add: qt_to_int_eq [OF q small])
qed

text \<open>A read slot that finds nothing to read only stops the timer and clears the request.\<close>

lemma read_nothing:
  assumes q: "qt_documented q" and r: "app_received s = []"
  shows "slotReadResponce q s = Inr (s\<lparr>answer_timer := False, request := []\<rparr>, [])"
proof -
  have "qt_stream_line q [] = []" by (rule qt_stream_empty [OF q])
  moreover have "qt_section q [] (CHR '' '') 1 = []" by (simp add: qt_section_eq [OF q])
  moreover have "qt_to_int q [] = 0" by (simp add: qt_to_int_none [OF q])
  ultimately show ?thesis using r by (simp add: slotReadResponce_def Let_def)
qed

lemma read_times_nothing:
  "qt_documented q \<Longrightarrow> app_received s = [] \<Longrightarrow> read_times q n s
     = Inr (if n = 0 then s else s\<lparr>answer_timer := False, request := []\<rparr>, [])"
  by (induction n arbitrary: s) (simp_all add: read_nothing)

lemma SendMessage_word:
  "words s = m # ts \<Longrightarrow> m \<noteq> [] \<Longrightarrow> request s = [] \<Longrightarrow> socket_open s \<Longrightarrow>
     SendMessage s = Inr (s\<lparr>words := ts, answer_timer := True,
       request := ''GET /message/'' @ m @ '' HTTP/1.1'' @ CRLF @ request_headers (app_host s)\<rparr>,
       [Wrote (''GET /message/'' @ m @ '' HTTP/1.1'' @ CRLF @ request_headers (app_host s))])"
  by (cases m) (simp_all add: SendMessage_def slotRepeat_Request_def Let_def)

lemma read_ok:
  assumes q: "qt_documented q" and s: "read_slots s = Suc n" "app_received s = []" "socket_open s"
    and w: "words s = m # ts" "m \<noteq> []"
  shows "read_times q (read_slots s) (s\<lparr>app_received := app_received s @ qssl_pack q 200\<rparr>) =
    Inr (s\<lparr>words := ts, answer_timer := (n = 0),
       request := (if n = 0 then ''GET /message/'' @ m @ '' HTTP/1.1'' @ CRLF @ request_headers (app_host s) else [])\<rparr>,
      [ResponseShown ''Ok'', Wrote (''GET /message/'' @ m @ '' HTTP/1.1'' @ CRLF @ request_headers (app_host s))])"
proof -
  let ?s = "s\<lparr>app_received := qssl_pack q 200\<rparr>"
  let ?r = "''GET /message/'' @ m @ '' HTTP/1.1'' @ CRLF @ request_headers (app_host s)"
  let ?t = "s\<lparr>words := ts, answer_timer := True, request := ?r\<rparr>"
  have code: "qt_to_int q (qt_section q (qt_stream_line q (qssl_pack q 200)) (CHR '' '') 1) = 200"
    using reply_code_read [OF q, of 200] by simp
  have "SendMessage (?s\<lparr>answer_timer := False, request := [], app_received := []\<rparr>) = Inr (?t, [Wrote ?r])"
    using SendMessage_word [of "?s\<lparr>answer_timer := False, request := [], app_received := []\<rparr>" m ts] w s
    by simp
  then have "slotReadResponce q ?s = Inr (?t, [ResponseShown ''Ok'', Wrote ?r])"
    using code by (simp add: slotReadResponce_def Let_def)
  moreover have "read_times q n ?t = Inr (if n = 0 then ?t else ?t\<lparr>answer_timer := False, request := []\<rparr>, [])"
    by (rule read_times_nothing [OF q]) (simp add: s)
  ultimately show ?thesis using s by (cases n) simp_all
qed

lemma login_ok:
  assumes "4 \<le> length l" "4 \<le> length p" "words s = l # p # ts" "request s = []" "socket_open s"
  shows "slotNewConnection q s =
    (let r = ''GET /authorization/login='' @ l @ ''&password='' @ qt_md5_hex q p @ '' HTTP/1.1'' @ CRLF
             @ request_headers (app_host s)
     in Inr (s\<lparr>words := ts, request := r, read_slots := read_slots s + 1, answer_timer := True\<rparr>, [Wrote r]))"
  using assms by (simp add: slotNewConnection_def slotRepeat_Request_def Let_def)

section \<open>Properties\<close>

text \<open>
  The wait for an answer is limited only until a login has failed once: when the server
  answers 200 and the user enters a message, the message is sent, and the timer that should end a
  wait of five seconds runs afterwards exactly when there has been one login; after more, the read
  slot runs once for each of them, and its second run stops the timer the first has started.
\<close>

theorem ssl_answer_timer_iff:
  assumes "qt_documented q" "\<not> exited s" "read_slots s \<ge> 1" "app_received s = []" "socket_open s"
    and "words s = m # ts" "m \<noteq> []"
  shows "\<exists>s'. app_turn q s (ServerResponse (qssl_pack q 200)) = Inr (s', [ResponseShown ''Ok'',
       Wrote (''GET /message/'' @ m @ '' HTTP/1.1'' @ CRLF @ request_headers (app_host s))])
     \<and> (answer_timer s' \<longleftrightarrow> read_slots s = 1) \<and> read_slots s' = read_slots s \<and> words s' = ts"
proof -
  obtain n where n: "read_slots s = Suc n" using assms(3) by (cases "read_slots s") auto
  have "app_turn q s (ServerResponse d) = read_times q (read_slots s) (s\<lparr>app_received := app_received s @ d\<rparr>)" for d
    using assms(2) by (simp add: app_turn_def)
  note turn = trans [OF this read_ok [OF assms(1) n assms(4,5,6,7)]]
  show ?thesis by (intro exI conjI, rule turn) (simp_all add: n)
qed

definition demo_app :: "nat \<Rightarrow> ssl_app" where
  "demo_app n = (app_start ''localhost'' [''hi''])\<lparr>read_slots := n\<rparr>"

theorem ssl_answer_timer_iff_witness:
  "(\<exists>s' os. app_turn qt_ref (demo_app 1) (ServerResponse (qssl_pack qt_ref 200)) = Inr (s', os) \<and> answer_timer s')
   \<and> (\<exists>s' os. app_turn qt_ref (demo_app 2) (ServerResponse (qssl_pack qt_ref 200)) = Inr (s', os) \<and> \<not> answer_timer s')"
  using ssl_answer_timer_iff [of qt_ref "demo_app 1" "''hi''" "[]"]
    ssl_answer_timer_iff [of qt_ref "demo_app 2" "''hi''" "[]"]
  by (auto simp: demo_app_def app_start_def)

end
