(* ===== verification/HttpAuthServer.thy ===== *)
theory HttpAuthServer
  imports Credentials
begin

text \<open>
  The HTTP server of \<open>lesson7/libhttpserver_server/main.cpp\<close>. A request is what the library
  shows of it: the function \<open>get_arg\<close>, which gives the empty text for an argument the request
  does not have. The user list is read again for every request, with the streams of the
  standard library.
\<close>

section \<open>Loading users\<close>

text \<open>\<open>getline\<close> until it fails: a text behind the last line end is a line, no text is none.\<close>

definition getlines :: "string \<Rightarrow> string list" where
  "getlines s = (let ls = split_on LF s in if last ls = [] then butlast ls else ls)"

function stream_words :: "string \<Rightarrow> string list" where
  "stream_words s =
     (let t = dropWhile is_space s
      in if t = [] then [] else takeWhile (\<lambda>c. \<not> is_space c) t # stream_words (dropWhile (\<lambda>c. \<not> is_space c) t))"
  by pat_completeness auto
termination
proof (relation "measure length", simp)
  fix s t :: string
  assume t: "t = dropWhile is_space s" "t \<noteq> []"
  then have "\<not> is_space (hd t)" using hd_dropWhile [of is_space s] by auto
  then have "length (dropWhile (\<lambda>c. \<not> is_space c) t) < length t"
    using t(2) length_dropWhile_le [of "\<lambda>c. \<not> is_space c" "tl t"] by (cases t) auto
  also have "\<dots> \<le> length s" using t(1) by (simp add: length_dropWhile_le)
  finally show "(dropWhile (\<lambda>c. \<not> is_space c) t, s) \<in> measure length" by simp
qed

declare stream_words.simps [simp del]

text \<open>
  \<open>std::stringstream(line) >> user.first >> user.second\<close>: an extraction that finds no word
  leaves its string as it was, and the pair \<open>user\<close> lives through the whole loop.
\<close>

definition read_user :: "string \<times> string \<Rightarrow> string \<Rightarrow> string \<times> string" where
  "read_user user line =
     (case stream_words line of
        [] \<Rightarrow> user
      | [a] \<Rightarrow> (a, snd user)
      | a # b # ws \<Rightarrow> (a, b))"

fun read_users :: "string \<times> string \<Rightarrow> string list \<Rightarrow> user_list" where
  "read_users user [] = []"
| "read_users user (line # lines) = (let u = read_user user line in u # read_users u lines)"

definition load_users :: "string option \<Rightarrow> user_list" where
  "load_users file = (case file of None \<Rightarrow> [] | Some s \<Rightarrow> read_users ([], []) (getlines s))"

section \<open>Resources\<close>

record http_response =
  content :: string
  status :: nat

type_synonym get_arg = "string \<Rightarrow> string"

definition message_render :: "get_arg \<Rightarrow> string \<times> http_response" where
  "message_render arg = (arg ''body'', \<lparr>content = ''GET: Ok'', status = 200\<rparr>)"

text \<open>\<open>users.size() >= 0\<close> compares an unsigned number, so the branch is always taken.\<close>

fun auth_check :: "user_list \<Rightarrow> string \<Rightarrow> string \<Rightarrow> bool" where
  "auth_check [] login password = False"
| "auth_check ((l, p) # us) login password =
     (if l = login \<or> p = password then True else auth_check us login password)"

definition auth_render :: "string option \<Rightarrow> get_arg \<Rightarrow> http_response" where
  "auth_render file arg =
     (if auth_check (load_users file) (arg ''login'') (arg ''password'')
      then \<lparr>content = ''Ok'', status = 200\<rparr> else \<lparr>content = ''Not found'', status = 404\<rparr>)"

definition not_found :: "get_arg \<Rightarrow> http_response" where
  "not_found arg = \<lparr>content = ''Not found'', status = 404\<rparr>"

text \<open>
  \<open>main\<close> registers two paths and the answer for all others; \<open>shown\<close> is what the message
  resource prints.
\<close>

definition ws_answer :: "string option \<Rightarrow> string \<Rightarrow> get_arg \<Rightarrow> string option \<times> http_response" where
  "ws_answer file path arg =
     (if path = ''/message'' then (let (shown, r) = message_render arg in (Some shown, r))
      else if path = ''/'' then (None, auth_render file arg)
      else (None, not_found arg))"

section \<open>Lemmas\<close>

lemma auth_check_iff: "auth_check us l p \<longleftrightarrow> l \<in> fst ` set us \<or> p \<in> snd ` set us"
  by (induction us l p rule: auth_check.induct) auto

lemma stream_words_step:
  assumes "plain w" "r = [] \<or> is_space (hd r)"
  shows "stream_words (w @ r) = w # stream_words r"
proof -
  obtain c cs where w: "w = c # cs" and c: "\<not> is_space c" and cs: "\<forall>d \<in> set cs. \<not> is_space d"
    using assms(1) by (cases w) (auto simp: plain_def list_all_iff)
  have "takeWhile (\<lambda>c. \<not> is_space c) (cs @ r) = cs \<and> dropWhile (\<lambda>c. \<not> is_space c) (cs @ r) = r"
    using assms(2) cs by (cases r) (simp_all add: takeWhile_until dropWhile_until)
  then show ?thesis using c by (subst stream_words.simps) (simp add: w Let_def)
qed

lemma stream_words_skip: "stream_words (CHR '' '' # s) = stream_words s"
  by (simp add: stream_words.simps [of s] stream_words.simps [of "CHR '' '' # s"])

lemma stream_words_two:
  assumes "plain a" "plain b"
  shows "stream_words (a @ '' '' @ b) = [a, b]"
  using stream_words_step [OF assms(1), of "CHR '' '' # b"] stream_words_step [OF assms(2), of "[]"]
  by (simp add: stream_words_skip stream_words.simps [of "[]"])

lemma getlines_lines:
  "list_all (\<lambda>l. LF \<notin> set l) ls \<Longrightarrow> getlines (concat (map (\<lambda>l. l @ [LF]) ls)) = ls"
proof -
  assume ls: "list_all (\<lambda>l. LF \<notin> set l) ls"
  then have "split_on LF (concat (map (\<lambda>l. l @ [LF]) ls)) = ls @ [[]]"
    by (induction ls) simp_all
  then show ?thesis by (simp add: getlines_def)
qed

lemma read_users_plain:
  "list_all plain_user us \<Longrightarrow> read_users u0 (map (\<lambda>u. fst u @ '' '' @ snd u) us) = us"
  by (induction us arbitrary: u0) (auto simp: read_user_def stream_words_two [simplified] plain_user_def)

lemma load_users_file:
  assumes "list_all plain_user us"
  shows "load_users (Some (concat (map user_line us))) = us"
proof -
  have "concat (map user_line us) = concat (map (\<lambda>l. l @ [LF]) (map (\<lambda>u. fst u @ '' '' @ snd u) us))"
    by (induction us) (simp_all add: user_line_def)
  moreover have "list_all (\<lambda>l. LF \<notin> set l) (map (\<lambda>u. fst u @ '' '' @ snd u) us)"
    using assms plain_no [where c = LF] by (auto simp: list_all_iff plain_user_def)
  ultimately show ?thesis
    using read_users_plain [OF assms] by (simp only: load_users_def option.case getlines_lines)
qed

lemma stream_words_one: "plain m \<Longrightarrow> stream_words m = [m]"
  using stream_words_step [of m "[]"] by (simp add: stream_words.simps [of "[]"])

lemma read_users_append:
  "read_users u0 (ls @ ks) = read_users u0 ls @ read_users (last (u0 # read_users u0 ls)) ks"
  by (induction ls arbitrary: u0) (simp_all add: Let_def)

section \<open>Properties\<close>

text \<open>
  The authorisation does not check the pair: for a file of well-formed users the answer is
  200 exactly when the login is some user's or the text given as \<open>password\<close> is some
  user's password, so either alone is enough, whosever it is, and all other requests for this
  path are answered 404.
\<close>

theorem auth_accepts_either:
  assumes "list_all plain_user us"
  shows "ws_answer (Some (concat (map user_line us))) ''/'' arg =
    (None, if arg ''login'' \<in> fst ` set us \<or> arg ''password'' \<in> snd ` set us
           then \<lparr>content = ''Ok'', status = 200\<rparr> else \<lparr>content = ''Not found'', status = 404\<rparr>)"
  by (auto simp: ws_answer_def auth_render_def load_users_file [OF assms] auth_check_iff)

theorem auth_accepts_either_witness:
  "status (snd (ws_answer (Some (concat (map user_line [(''ivanov'', ''cf1c'')]))) ''/''
     (\<lambda>n. if n = ''login'' then ''ivanov'' else if n = ''password'' then ''wrong'' else []))) = 200"
  by (subst auth_accepts_either) (simp_all add: plain_user_def plain_def is_space_def)

text \<open>
  The loop of this server does not meet the contract of a check of credentials that the
  server of lesson 6 meets: it lets every user of the list in, but others as well.
\<close>

theorem auth_check_breaks_contract:
  "\<not> credential_check auth_check \<and> credential_check find_user
   \<and> (\<forall>us. list_all (\<lambda>u. auth_check us (fst u) (snd u)) us)"
proof (intro conjI allI)
  show "\<not> credential_check auth_check"
    using credential_check.sound [of auth_check "[(''a'', ''b'')]" "''a''" "''c''"] by auto
  show "credential_check find_user" by (rule ssl_users.credential_check_axioms)
  show "list_all (\<lambda>u. auth_check us (fst u) (snd u)) us" for us
    by (auto simp: list_all_iff auth_check_iff)
qed

text \<open>
  A line with a login alone gets the password of the user before it: the pair that the loop
  reads into is kept from line to line, and an extraction that finds nothing leaves it.
\<close>

theorem load_users_stale:
  assumes "list_all plain_user us" "plain_user (l, p)" "plain m"
  shows "load_users (Some (concat (map user_line (us @ [(l, p)])) @ m @ [LF])) = us @ [(l, p), (m, p)]"
proof -
  let ?ls = "map (\<lambda>u. fst u @ '' '' @ snd u) (us @ [(l, p)]) @ [m]"
  have plain: "list_all plain_user (us @ [(l, p)])" using assms by simp
  have lines: "concat (map user_line (us @ [(l, p)])) @ m @ [LF] = concat (map (\<lambda>l. l @ [LF]) ?ls)"
  proof -
    have "concat (map user_line vs) = concat (map (\<lambda>l. l @ [LF]) (map (\<lambda>u. fst u @ '' '' @ snd u) vs))" for vs
      by (induction vs) (simp_all add: user_line_def)
    then show ?thesis by (simp only: map_append concat_append) simp
  qed
  have "list_all (\<lambda>l. LF \<notin> set l) ?ls"
    using plain plain_no [where c = LF] plain_no [OF assms(3), of LF]
    by (auto simp: list_all_iff plain_user_def)
  then have "load_users (Some (concat (map user_line (us @ [(l, p)])) @ m @ [LF])) = read_users ([], []) ?ls"
    unfolding lines by (simp only: load_users_def option.case getlines_lines)
  also have "\<dots> = us @ [(l, p), (m, p)]"
    unfolding read_users_append read_users_plain [OF plain]
    by (simp add: read_user_def stream_words_one [OF assms(3)])
  finally show ?thesis .
qed

theorem load_users_stale_witness:
  "load_users (Some (concat (map user_line ([] @ [(''ivanov'', ''cf1c'')])) @ ''petrov'' @ [LF]))
     = [] @ [(''ivanov'', ''cf1c''), (''petrov'', ''cf1c'')]"
  by (rule load_users_stale) (simp_all add: plain_user_def plain_def is_space_def)

end
