(* ===== verification/CurlClient.thy ===== *)
theory CurlClient
  imports HttpAuthServer
begin

text \<open>
  The client of \<open>lesson7/libcurl_client/main.cpp\<close>. The library libcurl is the parameter
  \<open>web\<close>: for an address it says whether the transfer succeeds and in which pieces the body of
  the answer reaches the write callback. \<open>EXIT_FAILURE;\<close> is a statement without effect in
  this program, and so is \<open>curl_slist_append\<close>, whose result is dropped.
\<close>

section \<open>The callback\<close>

text \<open>
  \<open>Response_Writer\<close>: \<open>data\<close> holds at least \<open>sz * nmember\<close> bytes; the number returned is
  the \<open>int\<close> that holds the product. \<open>None\<close> is a null pointer.
\<close>

definition Response_Writer :: "string \<Rightarrow> nat \<Rightarrow> nat \<Rightarrow> string option \<Rightarrow> 32 word \<times> string option" where
  "Response_Writer data sz nmember buffer =
     (case buffer of
        None \<Rightarrow> (0, None)
      | Some b \<Rightarrow> (word_of_nat (sz * nmember), Some (b @ take (sz * nmember) data)))"

text \<open>
  A transfer calls the callback once per piece, with \<open>size\<close> 1, and fails when it does not
  take the whole of one.
\<close>

fun deliver :: "string list \<Rightarrow> string \<Rightarrow> bool \<times> string" where
  "deliver [] buffer = (True, buffer)"
| "deliver (d # ds) buffer =
     (let (n, b) = Response_Writer d 1 (length d) (Some buffer)
      in if uint n = int (length d) then deliver ds (the b) else (False, the b))"

section \<open>Requests\<close>

type_synonym web = "string \<Rightarrow> bool \<times> string list"

definition perform :: "web \<Rightarrow> string \<Rightarrow> string \<Rightarrow> bool \<times> string" where
  "perform web address buffer =
     (let (transferred, pieces) = web address; (taken, b) = deliver pieces buffer in (transferred \<and> taken, b))"

fun ask_account :: "string list \<Rightarrow> ((string \<times> string) \<times> string list) outcome" where
  "ask_account (login # password # ts) =
     (if length login < 4 \<or> length password < 4 then ask_account ts else Inr ((login, password), ts))"
| "ask_account _ = Inl Blocked"

definition auth_address :: "string \<Rightarrow> string \<Rightarrow> string \<Rightarrow> string" where
  "auth_address address login password = address @ ''?login='' @ login @ ''&pass='' @ password"

definition Client_Autorization_Request ::
    "web \<Rightarrow> string \<Rightarrow> string list \<Rightarrow> string \<Rightarrow> (bool \<times> string \<times> string list) outcome" where
  "Client_Autorization_Request web address ts buffer =
     bind_out (ask_account ts) (\<lambda>((login, password), ts').
       let (ok, b) = perform web (auth_address address login password) buffer in Inr (ok, b, ts'))"

definition Send_Message ::
    "web \<Rightarrow> string \<Rightarrow> string list \<Rightarrow> string \<Rightarrow> (bool \<times> string \<times> string list) outcome" where
  "Send_Message web address ts buffer =
     bind_out (token_of_length 1 ts) (\<lambda>(message, ts').
       let (ok, b) = perform web (address @ message) buffer in Inr (ok, b, ts'))"

section \<open>main\<close>

datatype curl_out = UsageShown | MessageSent | MessageError | AuthorizationFailed | RequestError

fun wait_exit :: "string list \<Rightarrow> unit outcome" where
  "wait_exit [] = Inl Blocked"
| "wait_exit (t # ts) = (if t = ''exit'' then Inr () else wait_exit ts)"

definition server_address :: "string \<Rightarrow> string \<Rightarrow> string" where
  "server_address host port = ''http://'' @ host @ '':'' @ port @ ''/''"

text \<open>
  \<open>args\<close> are \<open>argv[1..]\<close>: appending the one behind the last is a null pointer handed to
  \<open>append\<close>. \<open>handle\<close> says whether \<open>curl_easy_init\<close> succeeds.
\<close>

definition curl_session ::
    "web \<Rightarrow> string \<Rightarrow> string list \<Rightarrow> (curl_out list \<times> string list) outcome" where
  "curl_session web address ts =
     bind_out (Client_Autorization_Request web address ts []) (\<lambda>(ok, buffer, ts1).
       if ok then
         if buffer = ''Ok'' then
           bind_out (Send_Message web (address @ ''message?body='') ts1 buffer) (\<lambda>(sent, _, ts2).
             Inr ([if sent then MessageSent else MessageError], ts2))
         else Inr ([AuthorizationFailed], ts1)
       else Inr ([RequestError], ts1))"

definition curl_main :: "web \<Rightarrow> bool \<Rightarrow> string list \<Rightarrow> string list \<Rightarrow> curl_out list outcome" where
  "curl_main web handle args ts =
     (let o1 = (if length args < 1 then [UsageShown] else [])
      in case args of
           host # port # _ \<Rightarrow>
             bind_out (if handle then curl_session web (server_address host port) ts else Inr ([], ts))
               (\<lambda>(o2, ts'). bind_out (wait_exit ts') (\<lambda>_. Inr (o1 @ o2)))
         | _ \<Rightarrow> Inl NullDeref)"

section \<open>Lemmas\<close>

lemma deliver_concat:
  "list_all (\<lambda>d. length d < 2 ^ 31) ds \<Longrightarrow> deliver ds b = (True, b @ concat ds)"
proof (induction ds arbitrary: b)
  case (Cons d ds)
  have "uint (word_of_nat (length d) :: 32 word) = int (length d)"
    using Cons.prems by (simp add: unsigned_of_nat take_bit_nat_eq_self flip: uint_nat)
  with Cons show ?case by (simp add: Response_Writer_def)
qed simp

text \<open>The web as the server of this lesson makes it; \<open>parse\<close> splits an address.\<close>

definition query_free :: "string \<Rightarrow> bool" where
  "query_free w \<longleftrightarrow> list_all (\<lambda>c. c \<notin> set ''?&=/:#%+'') w"

definition splits_addresses :: "string \<Rightarrow> string \<Rightarrow> (string \<Rightarrow> string \<times> get_arg) \<Rightarrow> bool" where
  "splits_addresses host port parse \<longleftrightarrow>
     (\<forall>l p. query_free l \<longrightarrow> query_free p \<longrightarrow>
        parse (auth_address (server_address host port) l p)
          = (''/'', (\<lambda>n. if n = ''login'' then l else if n = ''pass'' then p else [])))
     \<and> (\<forall>m. query_free m \<longrightarrow>
        parse (server_address host port @ ''message?body='' @ m)
          = (''/message'', (\<lambda>n. if n = ''body'' then m else [])))"

definition server_web :: "string option \<Rightarrow> (string \<Rightarrow> string \<times> get_arg) \<Rightarrow> web" where
  "server_web file parse address =
     (let (path, arg) = parse address in (True, [content (snd (ws_answer file path arg))]))"

lemma server_web_perform:
  "perform (server_web file parse) address b =
    (True, b @ content (snd (ws_answer file (fst (parse address)) (snd (parse address)))))"
proof -
  have "length (content (snd (ws_answer file p a))) < 2 ^ 31" for p a
    by (simp add: ws_answer_def message_render_def auth_render_def not_found_def)
  then have "deliver [content (snd (ws_answer file p a))] b = (True, b @ content (snd (ws_answer file p a)))" for p a
    using deliver_concat [of "[content (snd (ws_answer file p a))]" b]
    by (simp only: list.pred_inject concat.simps append_Nil2 simp_thms)
  then show ?thesis
    by (simp add: perform_def server_web_def del: deliver.simps split: prod.split)
qed

section \<open>Properties\<close>

text \<open>
  The body of an answer is put together whole: however the library cuts it into pieces below
  2 GB, the callback takes every byte of each, so the transfer is not stopped and the buffer ends
  with the pieces in order behind what it held.
\<close>

theorem curl_body_whole:
  assumes "list_all (\<lambda>d. length d < 2 ^ 31) pieces" "web address = (True, pieces)"
  shows "perform web address buffer = (True, buffer @ concat pieces)"
  using assms by (simp add: perform_def deliver_concat)

theorem curl_body_whole_witness: "perform (\<lambda>_. (True, [''GET'', '': Ok''])) ''/'' ''Ok'' = (True, ''OkGET: Ok'')"
  using curl_body_whole [of "[''GET'', '': Ok'']" "\<lambda>_. (True, [''GET'', '': Ok''])" "''/''" "''Ok''"] by simp

text \<open>
  The client and the server of the lesson together let anyone in who knows a login: against
  the server with well-formed users, and with addresses split as the library does, the client
  sends its message whatever password was typed exactly when the login is in the file, because
  the one calls the argument \<open>pass\<close> and the other asks for \<open>password\<close> and needs one match only.
\<close>

theorem curl_any_password:
  assumes "list_all plain_user us" "splits_addresses host port parse"
    and "query_free l" "query_free p" "query_free m" "4 \<le> length l" "4 \<le> length p" "m \<noteq> []"
  shows "curl_main (server_web (Some (concat (map user_line us))) parse) True [host, port] [l, p, m, ''exit'']
    = Inr [if l \<in> fst ` set us then MessageSent else AuthorizationFailed]"
proof -
  let ?web = "server_web (Some (concat (map user_line us))) parse" and ?a = "server_address host port"
  have no_empty: "[] \<notin> snd ` set us"
    using assms(1) by (auto simp: list_all_iff plain_user_def plain_def)
  have "perform ?web (auth_address ?a l p) [] =
      (True, if l \<in> fst ` set us then ''Ok'' else ''Not found'')"
    using assms(2-4) no_empty
    by (simp add: server_web_perform splits_addresses_def ws_answer_def auth_render_def
        load_users_file [OF assms(1)] auth_check_iff)
  then have auth: "Client_Autorization_Request ?web ?a [l, p, m, ''exit''] [] =
      Inr (True, if l \<in> fst ` set us then ''Ok'' else ''Not found'', [m, ''exit''])"
    using assms(6,7) by (simp add: Client_Autorization_Request_def)
  have msg: "Send_Message ?web (?a @ ''message?body='') [m, ''exit''] b =
      Inr (True, b @ ''GET: Ok'', [''exit''])" for b
  proof -
    have "parse (?a @ ''message?body='' @ m) = (''/message'', (\<lambda>n. if n = ''body'' then m else []))"
      using assms(2,5) by (simp add: splits_addresses_def)
    then have "perform ?web ((?a @ ''message?body='') @ m) b = (True, b @ ''GET: Ok'')"
      by (simp add: server_web_perform ws_answer_def message_render_def)
    with assms(8) show ?thesis by (cases m) (simp_all add: Send_Message_def)
  qed
  show ?thesis
    using auth msg by (simp add: curl_main_def curl_session_def)
qed

text \<open>An instance of the way addresses are split, for the witness.\<close>

definition demo_parse :: "string \<Rightarrow> string \<times> get_arg" where
  "demo_parse address =
     (let rest = field_at (split_on (CHR ''?'') address) 1;
          path = drop (length (server_address ''h'' ''80'') - 1) (field_at (split_on (CHR ''?'') address) 0);
          args = map (\<lambda>f. (field_at (split_on (CHR ''='') f) 0, field_at (split_on (CHR ''='') f) 1))
                   (split_on (CHR ''&'') rest)
      in (path, (\<lambda>n. case map_of args n of Some v \<Rightarrow> v | None \<Rightarrow> [])))"

lemma query_free_no:
  "query_free w \<Longrightarrow> CHR ''?'' \<notin> set w \<and> CHR ''&'' \<notin> set w \<and> CHR ''='' \<notin> set w"
  by (auto simp: query_free_def list_all_iff)

lemma demo_parse_splits: "splits_addresses ''h'' ''80'' demo_parse"
  unfolding splits_addresses_def
proof (intro conjI allI impI)
  fix l p :: string
  assume "query_free l" "query_free p"
  then have l: "CHR ''?'' \<notin> set l" "CHR ''&'' \<notin> set l" "CHR ''='' \<notin> set l"
    and p: "CHR ''?'' \<notin> set p" "CHR ''&'' \<notin> set p" "CHR ''='' \<notin> set p"
    by (auto dest: query_free_no)
  have "split_on (CHR ''?'') (auth_address (server_address ''h'' ''80'') l p)
      = [server_address ''h'' ''80'', ''login='' @ l @ ''&pass='' @ p]"
    using l p by (simp add: auth_address_def server_address_def)
  moreover have "split_on (CHR ''&'') (''login='' @ l @ ''&pass='' @ p) = [''login='' @ l, ''pass='' @ p]"
    using l p split_on_append [of "CHR ''&''" "''login='' @ l" "''pass='' @ p"] by simp
  ultimately show "demo_parse (auth_address (server_address ''h'' ''80'') l p)
      = (''/'', (\<lambda>n. if n = ''login'' then l else if n = ''pass'' then p else []))"
    using l p by (simp add: demo_parse_def server_address_def fun_eq_iff)
next
  fix m :: string
  assume "query_free m"
  then have "CHR ''?'' \<notin> set m" "CHR ''&'' \<notin> set m" "CHR ''='' \<notin> set m"
    by (auto dest: query_free_no)
  then show "demo_parse (server_address ''h'' ''80'' @ ''message?body='' @ m)
      = (''/message'', (\<lambda>n. if n = ''body'' then m else []))"
    by (simp add: demo_parse_def server_address_def fun_eq_iff)
qed

theorem curl_any_password_witness:
  "curl_main (server_web (Some (concat (map user_line [(''ivanov'', ''cf1c'')]))) demo_parse) True
     [''h'', ''80''] [''ivanov'', ''guess'', ''hello'', ''exit''] = Inr [MessageSent]"
  by (subst curl_any_password [OF _ demo_parse_splits])
    (simp_all add: plain_user_def plain_def is_space_def query_free_def)

end
