(* ===== verification/ChatNetwork.thy ===== *)
theory ChatNetwork
  imports Qt Machine "HOL-Library.Sublist"
begin

text \<open>
  The network part of the chat of lesson 8, \<open>chatnetwork.cpp\<close> and \<open>chatnetwork.h\<close>. The
  peers find each other by datagrams of four fields, \<open>type/message/name/id\<close>. The users are
  kept twice, in the vector \<open>vecUser\<close> and as labels in \<open>listUsers\<close>. What the operations send
  and which signals they emit is their output; a signal carries what its slots read.
\<close>

section \<open>State\<close>

datatype address = Host nat | Broadcast

record chat_user =
  user_address :: address
  nikname :: string
  program_id :: string

datatype sock_state = SockClosed | SockOpen | SockDeleted

record chat =
  vecUser :: "chat_user list"
  listUsers :: "string list"
  listMessages :: "string list"
  user_name :: string
  listDelUsers :: string
  send_socket :: sock_state
  listen_socket :: sock_state
  id_program :: string

datatype chat_out =
    SentTo address string
  | NewUser "string list"
  | NewMessage "string list"
  | UserDisconnect "string list" string
  | CloseConnections

text \<open>The constructor; \<open>time\<close> is the current time as six digits.\<close>

definition chat_new :: "string \<Rightarrow> chat" where
  "chat_new time = \<lparr>vecUser = [], listUsers = [], listMessages = [], user_name = [], listDelUsers = [],
     send_socket = SockClosed, listen_socket = SockClosed, id_program = time\<rparr>"

section \<open>Sending\<close>

definition payload :: "string \<Rightarrow> string \<Rightarrow> string \<Rightarrow> string \<Rightarrow> string" where
  "payload type message name pid = type @ ''/'' @ message @ ''/'' @ name @ ''/'' @ pid"

text \<open>Writing a datagram binds an unbound socket, which opens it.\<close>

definition write_datagram :: "address \<Rightarrow> string \<Rightarrow> chat \<Rightarrow> (chat \<times> chat_out list) outcome" where
  "write_datagram a d s =
     (if send_socket s = SockDeleted then Inl Dangling
      else Inr (s\<lparr>send_socket := SockOpen\<rparr>, [SentTo a d]))"

definition Mailing :: "chat \<Rightarrow> (chat \<times> chat_out list) outcome" where
  "Mailing s = write_datagram Broadcast (payload ''1'' ''whos here'' (user_name s) (id_program s)) s"

definition Listen :: "chat \<Rightarrow> chat" where
  "Listen s = s\<lparr>listen_socket := SockOpen\<rparr>"

definition chat_SendMessage :: "int \<Rightarrow> string \<Rightarrow> string \<Rightarrow> address \<Rightarrow> chat \<Rightarrow> (chat \<times> chat_out list) outcome" where
  "chat_SendMessage type message pid a s =
     (if type = 1 then write_datagram a (payload ''1'' message (user_name s) pid) s
      else if type = 2 then write_datagram a (payload ''2'' message (user_name s) pid) s
      else Inr (s, []))"

section \<open>Users\<close>

definition label :: "string \<Rightarrow> string \<Rightarrow> string" where
  "label name pid = name @ '' ('' @ pid @ '')''"

lemma takeWhile_snoc_stop [simp]: "\<not> P v \<Longrightarrow> takeWhile P (xs @ [v]) = takeWhile P xs"
  by (induction xs) auto

text \<open>
  The loop of \<open>AddUser\<close> over a vector that grows under it: \<open>rest\<close> are the elements from the
  iterator on and \<open>n\<close> is the size. \<open>moves n\<close> says whether \<open>push_back\<close> on \<open>n\<close> elements moves
  them to new storage, which leaves the iterator dangling. The result is the number of copies
  pushed, and whether the loop came to the end of the vector and not to the \<open>return\<close> at an
  element with the new id.
\<close>

function add_loop :: "(nat \<Rightarrow> bool) \<Rightarrow> chat_user \<Rightarrow> chat_user list \<Rightarrow> nat \<Rightarrow> (nat \<times> bool) outcome" where
  "add_loop moves client [] n = Inr (0, True)"
| "add_loop moves client (at # rest) n =
     (if program_id at = program_id client then Inr (0, False)
      else if moves n then Inl Dangling
      else bind_out (add_loop moves client (rest @ [client]) (n + 1)) (\<lambda>(k, ended). Inr (k + 1, ended)))"
  by pat_completeness auto
termination
  by (relation "measure (\<lambda>(moves, client, rest, n).
      length (takeWhile (\<lambda>u. program_id u \<noteq> program_id client) rest)
        + (if program_id client \<in> program_id ` set rest then 0 else 1))")
    auto

text \<open>What follows the loops: the signal, and the greeting sent back.\<close>

definition announce :: "address \<Rightarrow> bool \<Rightarrow> chat \<Rightarrow> (chat \<times> chat_out list) outcome" where
  "announce a back_send s =
     (if back_send
      then bind_out (chat_SendMessage 1 ''hi'' (id_program s) a s) (\<lambda>(s', os). Inr (s', NewUser (listUsers s) # os))
      else Inr (s, [NewUser (listUsers s)]))"

definition AddUser ::
    "(nat \<Rightarrow> bool) \<Rightarrow> address \<Rightarrow> string \<Rightarrow> string \<Rightarrow> bool \<Rightarrow> chat \<Rightarrow> (chat \<times> chat_out list) outcome" where
  "AddUser moves a name pid back_send s =
     (let client = \<lparr>user_address = a, nikname = name, program_id = pid\<rparr>
      in if pid = id_program s then Inr (s, [])
         else if vecUser s \<noteq> [] then
           bind_out (add_loop moves client (vecUser s) (length (vecUser s))) (\<lambda>(k, ended).
             let s1 = s\<lparr>vecUser := vecUser s @ replicate k client,
                        listUsers := listUsers s @ replicate k (label name pid)\<rparr>
             in if ended then announce a back_send s1 else Inr (s1, []))
         else announce a back_send
                (s\<lparr>vecUser := [client], listUsers := listUsers s @ [label name pid]\<rparr>))"

text \<open>
  The loop of \<open>slotDisconnected\<close>, with iterator and \<open>count\<close> at the position \<open>k\<close> (they move
  together). \<open>erase\<close> moves the later elements down and the iterator stays where it is, so
  behind the last element it steps past the end, which the loop does not notice.
\<close>

function leave_loop :: "string \<Rightarrow> nat \<Rightarrow> chat \<Rightarrow> (chat \<times> chat_out list) outcome" where
  "leave_loop pid k s =
     (if k = length (vecUser s) then Inr (s, [])
      else if k > length (vecUser s) then Inl OutOfBounds
      else if program_id (vecUser s ! k) = pid then
        (if k \<ge> length (listUsers s) then Inl OutOfBounds
         else
           let gone = listUsers s ! k;
               s1 = s\<lparr>vecUser := take k (vecUser s) @ drop (k + 1) (vecUser s), listDelUsers := gone,
                      listUsers := take k (listUsers s) @ drop (k + 1) (listUsers s)\<rparr>
           in bind_out (leave_loop pid (k + 1) s1) (\<lambda>(s2, os).
                Inr (s2, UserDisconnect (listUsers s1) gone # os)))
      else leave_loop pid (k + 1) s)"
  by pat_completeness auto
termination
  by (relation "measure (\<lambda>(pid, k, s). length (vecUser s) - k)") auto

declare leave_loop.simps [simp del]

definition chat_slotDisconnected :: "string \<Rightarrow> chat \<Rightarrow> (chat \<times> chat_out list) outcome" where
  "chat_slotDisconnected pid s = leave_loop pid 0 s"

section \<open>Receiving\<close>

text \<open>A \<open>qint8\<close> made from an \<open>int\<close>.\<close>

definition qint8 :: "int \<Rightarrow> int" where
  "qint8 i = sint (word_of_int i :: 8 word)"

text \<open>The literals of the program in UTF-8.\<close>

definition utf8 :: "nat list \<Rightarrow> string" where
  "utf8 bs = map char_of bs"

definition received_from :: string where
  "received_from = utf8 [208, 159, 209, 128, 208, 184, 208, 189, 209, 143, 209, 130, 208, 190, 32, 208, 190, 209, 130, 32]"

definition shown_from :: "string \<Rightarrow> string \<Rightarrow> string" where
  "shown_from name pid = ''<font color=\"blue\">'' @ received_from @ name @ '' ('' @ pid @ ''):''"

definition shown_text :: "string \<Rightarrow> string" where
  "shown_text message = ''<font color=\"black\">'' @ message @ ''</font>''"

text \<open>
  \<open>slotReadMessages\<close>: the loop over the pending datagrams keeps only the last, as a C string.
\<close>

definition slotReadMessages ::
    "qt \<Rightarrow> (nat \<Rightarrow> bool) \<Rightarrow> (address \<times> string) list \<Rightarrow> chat \<Rightarrow> (chat \<times> chat_out list) outcome" where
  "slotReadMessages q moves pending s =
     (let (a, packet) = (if pending = [] then (Host 0, []) else
             (fst (last pending), takeWhile (\<lambda>c. c \<noteq> NUL) (snd (last pending))));
          type = qint8 (qt_to_int q (qt_section q packet (CHR ''/'') 0));
          message = qt_section q packet (CHR ''/'') 1;
          name = qt_section q packet (CHR ''/'') 2;
          pid = qt_section q packet (CHR ''/'') 3
      in if type > 0 \<or> length name > 0 \<or> length pid > 0 then
           (if type = 1 then
              (if message = ''whos here'' then AddUser moves a name pid True s
               else if message = ''hi'' then AddUser moves a name pid False s
               else if message = ''bye'' then chat_slotDisconnected pid s
               else Inr (s, []))
            else if type = 2 then
              (if pid = id_program s then Inr (s, [])
               else let ms = listMessages s @ [shown_from name pid, shown_text message]
                    in Inr (s\<lparr>listMessages := ms\<rparr>, [NewMessage ms]))
            else Inr (s, []))
         else Inr (s, []))"

section \<open>Closing\<close>

definition CloseSockets :: "chat \<Rightarrow> (chat \<times> chat_out list) outcome" where
  "CloseSockets s =
     (if listen_socket s = SockDeleted \<or> send_socket s = SockDeleted then Inl Dangling
      else Inr (s\<lparr>listen_socket := (if listen_socket s = SockOpen then SockDeleted else listen_socket s),
                  send_socket := (if send_socket s = SockOpen then SockDeleted else send_socket s)\<rparr>,
                [CloseConnections]))"

text \<open>The destructor asks both sockets whether they are open.\<close>

definition chat_destroy :: "chat \<Rightarrow> unit outcome" where
  "chat_destroy s =
     (if send_socket s = SockDeleted \<or> listen_socket s = SockDeleted then Inl Dangling else Inr ())"

section \<open>Lemmas\<close>

definition before :: "string \<Rightarrow> chat_user list \<Rightarrow> nat" where
  "before pid us = length (takeWhile (\<lambda>u. program_id u \<noteq> pid) us)"

lemma add_loop_eq:
  "rest \<noteq> [] \<Longrightarrow> add_loop moves client rest n =
     (if \<exists>i < before (program_id client) rest. moves (n + i) then Inl Dangling
      else Inr (before (program_id client) rest, False))"
proof (induction moves client rest n rule: add_loop.induct)
  case (2 moves client at rest n)
  show ?case
  proof (cases "program_id at = program_id client")
    case True
    then show ?thesis by (simp add: before_def)
  next
    case False
    have b: "before (program_id client) (rest @ [client]) = before (program_id client) rest"
        "before (program_id client) (at # rest) = Suc (before (program_id client) rest)"
      using False by (simp_all add: before_def)
    have "(\<exists>i < Suc m. moves (n + i)) \<longleftrightarrow> moves n \<or> (\<exists>i < m. moves (n + 1 + i))" for m
    proof
      assume "\<exists>i < Suc m. moves (n + i)"
      then obtain i where "i < Suc m" "moves (n + i)" by blast
      then show "moves n \<or> (\<exists>i < m. moves (n + 1 + i))" by (cases i) auto
    next
      assume "moves n \<or> (\<exists>i < m. moves (n + 1 + i))"
      then show "\<exists>i < Suc m. moves (n + i)"
      proof
        assume "moves n"
        then show ?thesis by (intro exI [of _ 0]) simp
      next
        assume "\<exists>i < m. moves (n + 1 + i)"
        then obtain i where "i < m" "moves (n + 1 + i)" by blast
        then show ?thesis by (intro exI [of _ "Suc i"]) simp
      qed
    qed
    with 2 False b show ?thesis by auto
  qed
qed simp

text \<open>The two lists name the same users in the same order.\<close>

definition user_label :: "chat_user \<Rightarrow> string" where
  "user_label u = label (nikname u) (program_id u)"

definition chat_inv :: "chat \<Rightarrow> bool" where
  "chat_inv s \<longleftrightarrow> listUsers s = map user_label (vecUser s)"

text \<open>What a signal shows to the window.\<close>

fun contacts_shown :: "string list \<Rightarrow> chat_out list \<Rightarrow> string list" where
  "contacts_shown cs [] = cs"
| "contacts_shown cs (NewUser us # os) = contacts_shown us os"
| "contacts_shown cs (UserDisconnect us gone # os) = contacts_shown us os"
| "contacts_shown cs (_ # os) = contacts_shown cs os"

lemma announce_keeps:
  "announce a b s = Inr (s', os) \<Longrightarrow>
     vecUser s' = vecUser s \<and> listUsers s' = listUsers s \<and> contacts_shown cs os = listUsers s
     \<and> id_program s' = id_program s"
  by (auto simp: announce_def chat_SendMessage_def write_datagram_def split: if_splits)

lemma AddUser_keeps:
  assumes "AddUser moves a name pid back s = Inr (s', os)" "chat_inv s"
  shows "chat_inv s' \<and> (\<exists>more. listUsers s' = listUsers s @ more
    \<and> (contacts_shown cs os = cs \<or> contacts_shown cs os = listUsers s'))"
proof -
  let ?u = "\<lparr>user_address = a, nikname = name, program_id = pid\<rparr>"
  have l: "user_label ?u = label name pid" by (simp add: user_label_def)
  consider "pid = id_program s" | "pid \<noteq> id_program s" "vecUser s = []"
    | "pid \<noteq> id_program s" "vecUser s \<noteq> []" by blast
  then show ?thesis
  proof cases
    case 1
    with assms show ?thesis by (auto simp: AddUser_def)
  next
    case 2
    with assms l show ?thesis
      by (auto simp: AddUser_def chat_inv_def dest!: announce_keeps [of _ _ _ _ _ cs])
  next
    case 3
    with assms l show ?thesis
      by (auto simp: AddUser_def add_loop_eq chat_inv_def Let_def split: if_splits)
  qed
qed

lemma leave_loop_keeps:
  "leave_loop pid k s = Inr (s', os) \<Longrightarrow> chat_inv s \<Longrightarrow>
     chat_inv s' \<and> (contacts_shown cs os = cs \<and> listUsers s' = listUsers s
       \<or> contacts_shown cs os = listUsers s')"
proof (induction pid k s arbitrary: os cs rule: leave_loop.induct)
  case (1 pid k s)
  consider "k = length (vecUser s)" | "k < length (vecUser s)" "program_id (vecUser s ! k) \<noteq> pid"
    | "k < length (vecUser s)" "program_id (vecUser s ! k) = pid"
    using "1.prems"(1) by (cases k "length (vecUser s)" rule: linorder_cases)
      (auto simp: leave_loop.simps [of pid k s])
  then show ?case
  proof cases
    case 1
    with "1.prems" show ?thesis by (simp add: leave_loop.simps [of pid "length (vecUser s)" s])
  next
    case 2
    with "1.prems" "1.IH"(2) show ?thesis by (simp add: leave_loop.simps [of pid k s])
  next
    case 3
    let ?s = "s\<lparr>vecUser := take k (vecUser s) @ drop (k + 1) (vecUser s), listDelUsers := listUsers s ! k,
        listUsers := take k (listUsers s) @ drop (k + 1) (listUsers s)\<rparr>"
    have k: "\<not> k \<ge> length (listUsers s)" using 3 "1.prems"(2) by (simp add: chat_inv_def)
    have inv: "chat_inv ?s" using "1.prems"(2) by (simp add: chat_inv_def take_map drop_map)
    from 3 k "1.prems"(1) obtain ps where r: "leave_loop pid (k + 1) ?s = Inr (s', ps)"
        "os = UserDisconnect (listUsers ?s) (listUsers s ! k) # ps"
      by (auto simp: leave_loop.simps [of pid k s] Let_def)
    have "chat_inv s' \<and> (contacts_shown cs ps = cs \<and> listUsers s' = listUsers ?s
       \<or> contacts_shown cs ps = listUsers s')" for cs
      using "1.IH"(1) [OF _ _ _ _ refl refl r(1) inv, of cs] 3 k by simp
    from this [of "listUsers ?s"] r(2) show ?thesis by auto
  qed
qed

lemma contacts_shown_append [simp]: "contacts_shown cs (os @ ps) = contacts_shown (contacts_shown cs os) ps"
  by (induction cs os rule: contacts_shown.induct) auto

definition chat_turn :: "qt \<Rightarrow> (nat \<Rightarrow> bool) \<Rightarrow> (chat, (address \<times> string) list, chat_out) handler" where
  "chat_turn q moves s pending = slotReadMessages q moves pending s"

lemma chat_turn_keeps:
  assumes "chat_turn q moves s pending = Inr (s', os)" "chat_inv s" "prefix cs (listUsers s)"
  shows "chat_inv s' \<and> prefix (contacts_shown cs os) (listUsers s')"
proof -
  have add: "AddUser moves a name pid b s = Inr (s', os) \<Longrightarrow>
      chat_inv s' \<and> prefix (contacts_shown cs os) (listUsers s')" for a name pid b
    using AddUser_keeps [of moves a name pid b s s' os cs] assms(2,3) by auto
  have leave: "leave_loop pid k s = Inr (s', os) \<Longrightarrow>
      chat_inv s' \<and> prefix (contacts_shown cs os) (listUsers s')" for pid k
    using leave_loop_keeps [of pid k s s' os cs] assms(2,3) by auto
  have "chat_inv (s\<lparr>listMessages := ms\<rparr>)" for ms using assms(2) by (simp add: chat_inv_def)
  with assms show ?thesis
    by (auto simp: chat_turn_def slotReadMessages_def chat_slotDisconnected_def Let_def
        split: prod.splits if_splits dest!: add leave)
qed

lemma chat_run_keeps:
  "run (chat_turn q moves) s es = Inr (s', os) \<Longrightarrow> chat_inv s \<Longrightarrow> prefix cs (listUsers s) \<Longrightarrow>
     chat_inv s' \<and> prefix (contacts_shown cs os) (listUsers s')"
proof (induction es arbitrary: s cs os)
  case Nil
  then show ?case by simp
next
  case (Cons e es)
  then obtain s1 o1 o2 where 1: "chat_turn q moves s e = Inr (s1, o1)"
      "run (chat_turn q moves) s1 es = Inr (s', o2)" "os = o1 @ o2" by auto
  with chat_turn_keeps [OF 1(1) Cons.prems(2,3)] Cons.IH [OF 1(2), of "contacts_shown cs o1"]
  show ?case by simp
qed

text \<open>A user that occurs once: with others behind it is taken out, as the last it is run past.\<close>

lemma leave_loop_skip:
  "k \<le> n \<Longrightarrow> n \<le> length (vecUser s) \<Longrightarrow> \<forall>i. k \<le> i \<and> i < n \<longrightarrow> program_id (vecUser s ! i) \<noteq> pid \<Longrightarrow>
     leave_loop pid k s = leave_loop pid n s"
proof (induction "n - k" arbitrary: k)
  case (Suc d)
  then have k: "k < length (vecUser s)" "program_id (vecUser s ! k) \<noteq> pid" by auto
  have "leave_loop pid k s = leave_loop pid (k + 1) s"
    by (subst leave_loop.simps) (use k in simp)
  also have "\<dots> = leave_loop pid n s" using Suc by (intro Suc.hyps(1)) auto
  finally show ?case .
qed simp

lemma leave_loop_none:
  assumes "k \<le> length (vecUser s)" "\<forall>i. k \<le> i \<and> i < length (vecUser s) \<longrightarrow> program_id (vecUser s ! i) \<noteq> pid"
  shows "leave_loop pid k s = Inr (s, [])"
  using leave_loop_skip [OF assms(1) order_refl assms(2)]
  by (simp add: leave_loop.simps [of pid "length (vecUser s)" s])

lemma leave_once:
  assumes inv: "chat_inv s" and v: "vecUser s = us @ u # vs" and u: "program_id u = pid"
    and once: "pid \<notin> program_id ` set us" "pid \<notin> program_id ` set vs"
  shows "chat_slotDisconnected pid s =
    (if vs = [] then Inl OutOfBounds
     else Inr (s\<lparr>vecUser := us @ vs, listUsers := map user_label (us @ vs), listDelUsers := user_label u\<rparr>,
               [UserDisconnect (map user_label (us @ vs)) (user_label u)]))"
proof -
  let ?k = "length us"
  let ?s = "s\<lparr>vecUser := us @ vs, listDelUsers := user_label u, listUsers := map user_label (us @ vs)\<rparr>"
  have l: "listUsers s = map user_label us @ user_label u # map user_label vs"
    using inv by (simp add: chat_inv_def v)
  have "\<forall>i. 0 \<le> i \<and> i < ?k \<longrightarrow> program_id (vecUser s ! i) \<noteq> pid"
    using once(1) by (auto simp: v nth_append)
  then have "leave_loop pid 0 s = leave_loop pid ?k s"
    by (intro leave_loop_skip) (simp_all add: v)
  also have "\<dots> = bind_out (leave_loop pid (?k + 1) ?s)
      (\<lambda>(s2, os). Inr (s2, UserDisconnect (map user_label (us @ vs)) (user_label u) # os))"
    by (subst leave_loop.simps) (simp add: v l u Let_def nth_append)
  also have "leave_loop pid (?k + 1) ?s = (if vs = [] then Inl OutOfBounds else Inr (?s, []))"
  proof (cases vs)
    case Nil
    then show ?thesis by (subst leave_loop.simps) simp
  next
    case (Cons w ws)
    have "\<forall>i. ?k + 1 \<le> i \<and> i < length (vecUser ?s) \<longrightarrow> program_id (vecUser ?s ! i) \<noteq> pid"
      using once(2) by (auto simp: nth_append)
    with Cons show ?thesis by (subst leave_loop_none) simp_all
  qed
  finally show ?thesis by (simp add: chat_slotDisconnected_def)
qed

text \<open>A datagram of the program, read back.\<close>

definition chat_field :: "string \<Rightarrow> bool" where
  "chat_field w \<longleftrightarrow> CHR ''/'' \<notin> set w \<and> NUL \<notin> set w"

lemma payload_fields:
  assumes "chat_field type" "chat_field message" "chat_field name" "chat_field pid"
  shows "split_on (CHR ''/'') (takeWhile (\<lambda>c. c \<noteq> NUL) (payload type message name pid))
    = [type, message, name, pid]"
proof -
  have "NUL \<notin> set (payload type message name pid)"
    using assms by (auto simp: payload_def chat_field_def)
  then show ?thesis
    using assms by (simp add: takeWhile_no_NUL payload_def chat_field_def)
qed

lemma qint8_small: "i < 128 \<Longrightarrow> qint8 (int i) = int i"
  by (simp only: qint8_def signed_of_int) (simp add: signed_take_bit_int_eq_self)

lemma read_payload:
  assumes q: "qt_documented q" and t: "t < 128" and f: "chat_field message" "chat_field name" "chat_field pid"
  shows "let packet = takeWhile (\<lambda>c. c \<noteq> NUL) (payload (nat_str t) message name pid)
     in qint8 (qt_to_int q (qt_section q packet (CHR ''/'') 0)) = int t
      \<and> qt_section q packet (CHR ''/'') 1 = message \<and> qt_section q packet (CHR ''/'') 2 = name
      \<and> qt_section q packet (CHR ''/'') 3 = pid"
proof -
  have "\<not> is_digit (CHR ''/'')" "\<not> is_digit NUL" by (simp_all add: is_digit_def)
  then have "chat_field (nat_str t)" by (simp add: chat_field_def nat_str_other)
  note fields = payload_fields [OF this f]
  have "qt_to_int q (nat_str t) = int t" by (rule qt_to_int_eq [OF q]) (use t in simp)
  then show ?thesis
    using qint8_small [OF t]
    by (simp add: qt_section_eq [OF q] fields numeral_2_eq_2 numeral_3_eq_3)
qed

section \<open>Properties\<close>

text \<open>
  The row of a contact is the place of its user: over any run of datagrams that does not
  fault, from the start of the program, the labels last shown to the window are those of the
  users at the same places of the vector, so the address looked up for a row is that of the user
  it names.
\<close>

theorem chat_rows_match:
  assumes "run (chat_turn q moves) (chat_new time) es = Inr (s, os)"
    and "i < length (contacts_shown [] os)"
  shows "i < length (vecUser s) \<and> contacts_shown [] os ! i = user_label (vecUser s ! i)"
proof -
  have "chat_inv (chat_new time)" "prefix [] (listUsers (chat_new time))"
    by (simp_all add: chat_inv_def chat_new_def)
  from chat_run_keeps [OF assms(1) this] obtain more where
      m: "map user_label (vecUser s) = contacts_shown [] os @ more"
    by (metis chat_inv_def prefixE)
  have "length (vecUser s) = length (contacts_shown [] os) + length more"
    using arg_cong [OF m, of length] by simp
  moreover have "map user_label (vecUser s) ! i = contacts_shown [] os ! i"
    using assms(2) by (simp add: m nth_append)
  ultimately show ?thesis using assms(2) by simp
qed

definition demo_chat :: "chat_user list \<Rightarrow> chat" where
  "demo_chat us = (chat_new ''101010'')\<lparr>vecUser := us, listUsers := map user_label us,
     user_name := ''me'', listen_socket := SockOpen, send_socket := SockOpen\<rparr>"

abbreviation "ann \<equiv> \<lparr>user_address = Host 1, nikname = ''ann'', program_id = ''111111''\<rparr>"
abbreviation "bob \<equiv> \<lparr>user_address = Host 2, nikname = ''bob'', program_id = ''222222''\<rparr>"

theorem chat_rows_match_witness:
  "\<exists>s os. run (chat_turn qt_ref (\<lambda>_. False)) (chat_new ''101010'')
       [[(Host 1, payload (nat_str 1) ''hi'' ''ann'' ''111111'')]] = Inr (s, os)
     \<and> contacts_shown [] os = [user_label ann] \<and> vecUser s = [ann]
     \<and> contacts_shown [] os ! 0 = user_label (vecUser s ! 0)"
proof -
  let ?d = "payload (nat_str 1) ''hi'' ''ann'' ''111111''"
  let ?p = "takeWhile (\<lambda>c. c \<noteq> NUL) ?d"
  have f: "chat_field ''hi''" "chat_field ''ann''" "chat_field ''111111''" by (simp_all add: chat_field_def)
  have h: "qint8 (qt_to_int qt_ref (qt_section qt_ref ?p (CHR ''/'') 0)) = 1"
      "qt_section qt_ref ?p (CHR ''/'') 1 = ''hi''" "qt_section qt_ref ?p (CHR ''/'') 2 = ''ann''"
      "qt_section qt_ref ?p (CHR ''/'') 3 = ''111111''"
    using read_payload [OF qt_ref_documented _ f, of 1] by (simp_all only: Let_def)
  have "\<exists>s os. chat_turn qt_ref (\<lambda>_. False) (chat_new ''101010'') [(Host 1, ?d)] = Inr (s, os)
      \<and> contacts_shown [] os = [user_label ann] \<and> vecUser s = [ann]"
    unfolding chat_turn_def slotReadMessages_def
    by (simp add: h [unfolded One_nat_def]) (simp add: AddUser_def announce_def chat_new_def user_label_def)
  then obtain s os where "chat_turn qt_ref (\<lambda>_. False) (chat_new ''101010'') [(Host 1, ?d)] = Inr (s, os)"
      and c: "contacts_shown [] os = [user_label ann]" "vecUser s = [ann]" by blast
  then have r: "run (chat_turn qt_ref (\<lambda>_. False)) (chat_new ''101010'') [[(Host 1, ?d)]] = Inr (s, os)" by simp
  from chat_rows_match [OF r, of 0] c r show ?thesis by auto
qed

text \<open>
  Only the first user is added as meant: when some user is known already and another
  program announces itself, the window is told nothing and no greeting goes back, and the new
  user is stored once for each user in front of the first one with its id, as long as no
  storage has to be moved on the way; else an iterator that dangles is used.
\<close>

theorem chat_next_user:
  assumes "vecUser s \<noteq> []" "pid \<noteq> id_program s"
  shows "AddUser moves a name pid back s =
    (let n = before pid (vecUser s)
     in if \<exists>i < n. moves (length (vecUser s) + i) then Inl Dangling
        else Inr (s\<lparr>vecUser := vecUser s @ replicate n \<lparr>user_address = a, nikname = name, program_id = pid\<rparr>,
                    listUsers := listUsers s @ replicate n (label name pid)\<rparr>, []))"
  using assms by (auto simp: AddUser_def add_loop_eq Let_def)

theorem chat_next_user_witness:
  "\<exists>s. AddUser (\<lambda>_. False) (Host 3) ''eve'' ''333333'' True (demo_chat [ann, bob]) = Inr (s, [])
     \<and> length (vecUser s) = 4"
  using chat_next_user [of "demo_chat [ann, bob]" "''333333''" "\<lambda>_. False" "Host 3" "''eve''" True]
  by (simp add: demo_chat_def chat_new_def before_def)

text \<open>
  Leaving works for every user but the last: when the user with an id occurs once, the
  slot takes it out of both lists and reports its label if others stand behind it, and steps
  its iterator past the end of the vector if it is the last.
\<close>

theorem chat_leave:
  assumes "chat_inv s" "vecUser s = us @ u # vs" "program_id u = pid"
    and "pid \<notin> program_id ` set us" "pid \<notin> program_id ` set vs"
  shows "chat_slotDisconnected pid s =
    (if vs = [] then Inl OutOfBounds
     else Inr (s\<lparr>vecUser := us @ vs, listUsers := map user_label (us @ vs), listDelUsers := user_label u\<rparr>,
               [UserDisconnect (map user_label (us @ vs)) (user_label u)]))"
  using assms by (rule leave_once)

theorem chat_leave_witness:
  "chat_slotDisconnected ''222222'' (demo_chat [ann, bob]) = Inl OutOfBounds
   \<and> (\<exists>s. chat_slotDisconnected ''111111'' (demo_chat [ann, bob]) = Inr (s,
        [UserDisconnect [user_label bob] (user_label ann)]))"
  using chat_leave [of "demo_chat [ann, bob]" "[ann]" bob "[]" "''222222''"]
    chat_leave [of "demo_chat [ann, bob]" "[]" ann "[bob]" "''111111''"]
  by (simp add: demo_chat_def chat_new_def chat_inv_def)



end
