(* ===== verification/MainWindow.thy ===== *)
theory MainWindow
  imports ChatNetwork
begin

text \<open>
  The window of the chat of lesson 8, \<open>mainwindow.cpp\<close>. The widgets are fields of a record;
  the slots of the buttons call the operations of \<open>ChatNetwork\<close> and the signals these emit
  are handled at once, as direct connections are. \<open>mychat\<close> is the pointer: \<open>None\<close> while it
  points to no object.
\<close>

section \<open>State\<close>

record window =
  nick :: string
  entry :: string
  contacts :: "string list"
  row :: int
  log :: "string list"
  in_chat :: bool
  mychat :: "chat option"

datatype win_out = Critical string string | DatagramOut address string

datatype win_event =
    TypeNick string
  | TypeText string
  | SelectRow nat
  | ClickEnter string
  | ClickExit
  | ClickSend
  | ClickMailing
  | Datagrams "(address \<times> string) list"

text \<open>The literals of the program in UTF-8.\<close>

definition err_title :: string where
  "err_title = utf8 [208, 158, 209, 136, 208, 184, 208, 177, 208, 186, 208, 176, 33]"

definition err_nick :: string where
  "err_nick = utf8 [208, 146, 208, 178, 208, 181, 208, 180, 208, 184, 209, 130, 208, 181, 32, 209, 129,
     208, 178, 208, 190, 208, 185, 32, 208, 189, 208, 184, 208, 186, 33]"

definition err_text :: string where
  "err_text = utf8 [208, 146, 208, 178, 208, 181, 208, 180, 208, 184, 209, 130, 208, 181, 32, 209, 130,
     208, 181, 208, 186, 209, 129, 209, 130, 32, 209, 129, 208, 190, 208, 190, 208, 177, 209,
     137, 208, 181, 208, 189, 208, 184, 209, 143, 33]"

definition err_row :: string where
  "err_row = utf8 [208, 148, 208, 187, 209, 143, 32, 208, 190, 209, 130, 208, 191, 209, 128, 208, 176,
     208, 178, 208, 186, 208, 184, 32, 208, 187, 208, 184, 209, 135, 208, 189, 208, 190, 208,
     179, 208, 190, 32, 209, 129, 208, 190, 208, 190, 208, 177, 209, 137, 208, 181, 208, 189,
     208, 184, 209, 143, 44, 32, 208, 189, 209, 131, 208, 182, 208, 189, 208, 190, 32, 208,
     178, 209, 139, 208, 177, 209, 128, 208, 176, 209, 130, 209, 140, 32, 208, 176, 208, 180,
     209, 128, 208, 181, 209, 129, 208, 176, 209, 130, 208, 176, 33]"

definition has_left :: string where
  "has_left = utf8 [32, 208, 191, 208, 190, 208, 186, 208, 184, 208, 189, 209, 131, 208, 187, 32, 209,
     135, 208, 176, 209, 130]"

definition sent_word :: string where
  "sent_word = utf8 [208, 158, 209, 130, 208, 191, 209, 128, 208, 176, 208, 178, 208, 187, 208, 181, 208,
     189, 208, 190, 32]"

definition sent_all :: string where
  "sent_all = utf8 [208, 158, 209, 130, 208, 191, 209, 128, 208, 176, 208, 178, 208, 187, 208, 181, 208,
     189, 208, 190, 32, 208, 178, 209, 129, 208, 181, 208, 188, 58]"

text \<open>
  The constructor. The buttons and fields are enabled and disabled together: \<open>in_chat\<close> says
  which half of them is.
\<close>

definition window_new :: window where
  "window_new = \<lparr>nick = [], entry = [], contacts = [], row = -1, log = [], in_chat = False, mychat = None\<rparr>"

section \<open>Slots for the signals\<close>

text \<open>Clearing the list widget leaves no current row.\<close>

definition AddContacts :: "string list \<Rightarrow> window \<Rightarrow> window" where
  "AddContacts us w = w\<lparr>contacts := us, row := -1\<rparr>"

definition left_text :: "string \<Rightarrow> string" where
  "left_text gone = ''<font color=\"green\"><b>'' @ gone @ has_left @ ''<b></font>''"

definition DeleteContacts :: "string list \<Rightarrow> string \<Rightarrow> window \<Rightarrow> window" where
  "DeleteContacts us gone w = (let w1 = AddContacts us w in w1\<lparr>log := log w1 @ [left_text gone]\<rparr>)"

definition AddMessages :: "string list \<Rightarrow> window \<Rightarrow> window" where
  "AddMessages ms w = w\<lparr>log := log w @ ms, mychat := map_option (\<lambda>c. c\<lparr>listMessages := []\<rparr>) (mychat w)\<rparr>"

definition closeConnections :: "window \<Rightarrow> window outcome" where
  "closeConnections w =
     (case mychat w of
        None \<Rightarrow> Inl Dangling
      | Some c \<Rightarrow> bind_out (chat_destroy c) (\<lambda>_. Inr (w\<lparr>mychat := None\<rparr>)))"

fun on_signals :: "chat_out list \<Rightarrow> window \<Rightarrow> (window \<times> win_out list) outcome" where
  "on_signals [] w = Inr (w, [])"
| "on_signals (SentTo a d # os) w = bind_out (on_signals os w) (\<lambda>(w', ps). Inr (w', DatagramOut a d # ps))"
| "on_signals (NewUser us # os) w = on_signals os (AddContacts us w)"
| "on_signals (NewMessage ms # os) w = on_signals os (AddMessages ms w)"
| "on_signals (UserDisconnect us gone # os) w = on_signals os (DeleteContacts us gone w)"
| "on_signals (CloseConnections # os) w = bind_out (closeConnections w) (on_signals os)"

text \<open>An operation of the network part, and the signals it has emitted.\<close>

definition with_chat ::
    "(chat \<Rightarrow> (chat \<times> chat_out list) outcome) \<Rightarrow> window \<Rightarrow> (window \<times> win_out list) outcome" where
  "with_chat f w =
     (case mychat w of
        None \<Rightarrow> Inl Dangling
      | Some c \<Rightarrow> bind_out (f c) (\<lambda>(c', os). on_signals os (w\<lparr>mychat := Some c'\<rparr>)))"

section \<open>Slots for the buttons\<close>

definition on_EnterInChat :: "string \<Rightarrow> window \<Rightarrow> (window \<times> win_out list) outcome" where
  "on_EnterInChat time w =
     (if nick w \<noteq> [] then
        let w1 = w\<lparr>mychat := Some ((Listen (chat_new time))\<lparr>user_name := nick w\<rparr>)\<rparr>
        in bind_out (with_chat Mailing w1) (\<lambda>(w2, os). Inr (w2\<lparr>in_chat := True\<rparr>, os))
      else Inr (w, [Critical err_title err_nick]))"

definition on_ExitChat :: "window \<Rightarrow> (window \<times> win_out list) outcome" where
  "on_ExitChat w =
     bind_out (with_chat (\<lambda>c. chat_SendMessage 1 ''bye'' (id_program c) Broadcast c) w) (\<lambda>(w1, o1).
     bind_out (with_chat CloseSockets (w1\<lparr>in_chat := False, contacts := [], row := -1\<rparr>)) (\<lambda>(w2, o2).
       Inr (w2, o1 @ o2)))"

definition sent_lines :: "string \<Rightarrow> string \<Rightarrow> string list" where
  "sent_lines head text = [''<font color=\"red\">'' @ head @ ''</font>'', ''<font color=\"black\">'' @ text @ ''</font>'']"

definition on_SendMessage :: "window \<Rightarrow> (window \<times> win_out list) outcome" where
  "on_SendMessage w =
     (if entry w = [] then Inr (w, [Critical err_title err_text])
      else if row w = -1 then Inr (w, [Critical err_title err_row])
      else case mychat w of
        None \<Rightarrow> Inl Dangling
      | Some c \<Rightarrow>
          if nat (row w) \<ge> length (vecUser c) then Inl OutOfBounds
          else let u = vecUser c ! nat (row w)
               in bind_out (with_chat (chat_SendMessage 2 (entry w) (id_program c) (user_address u)) w)
                    (\<lambda>(w1, os). Inr (w1\<lparr>log := log w1 @ sent_lines (sent_word @ nikname u @ '':'') (entry w),
                                        entry := []\<rparr>, os)))"

definition on_Mailing :: "window \<Rightarrow> (window \<times> win_out list) outcome" where
  "on_Mailing w =
     (if entry w = [] then Inr (w, [Critical err_title err_text])
      else bind_out (with_chat (\<lambda>c. chat_SendMessage 2 (entry w) (id_program c) Broadcast c) w)
             (\<lambda>(w1, os). Inr (w1\<lparr>log := log w1 @ sent_lines sent_all (entry w), entry := []\<rparr>, os)))"

text \<open>A disabled widget reacts to nothing, and a row can be selected only when it is there.\<close>

definition window_turn :: "qt \<Rightarrow> (nat \<Rightarrow> bool) \<Rightarrow> (window, win_event, win_out) handler" where
  "window_turn q moves w e =
     (case e of
        TypeNick t \<Rightarrow> Inr (if in_chat w then w else w\<lparr>nick := t\<rparr>, [])
      | TypeText t \<Rightarrow> Inr (if in_chat w then w\<lparr>entry := t\<rparr> else w, [])
      | SelectRow i \<Rightarrow> Inr (if i < length (contacts w) then w\<lparr>row := int i\<rparr> else w, [])
      | ClickEnter time \<Rightarrow> if in_chat w then Inr (w, []) else on_EnterInChat time w
      | ClickExit \<Rightarrow> if in_chat w then on_ExitChat w else Inr (w, [])
      | ClickSend \<Rightarrow> if in_chat w then on_SendMessage w else Inr (w, [])
      | ClickMailing \<Rightarrow> if in_chat w then on_Mailing w else Inr (w, [])
      | Datagrams ds \<Rightarrow> if in_chat w then with_chat (slotReadMessages q moves ds) w else Inr (w, []))"

section \<open>Invariant\<close>

text \<open>
  In the chat there is an object with both sockets open, its two lists agree, the list shown is
  a beginning of its list, and the current row is one that is shown.
\<close>

definition win_inv :: "window \<Rightarrow> bool" where
  "win_inv w \<longleftrightarrow> -1 \<le> row w \<and> row w < int (length (contacts w))
     \<and> (in_chat w \<longrightarrow> (case mychat w of None \<Rightarrow> False
          | Some c \<Rightarrow> chat_inv c \<and> send_socket c = SockOpen \<and> listen_socket c = SockOpen
                      \<and> prefix (contacts w) (listUsers c)))
     \<and> (\<not> in_chat w \<longrightarrow> contacts w = [])"


section \<open>Lemmas\<close>

definition talking :: "chat \<Rightarrow> string list \<Rightarrow> bool" where
  "talking c cs \<longleftrightarrow> chat_inv c \<and> send_socket c = SockOpen \<and> listen_socket c = SockOpen \<and> prefix cs (listUsers c)"

lemma win_inv_iff:
  "win_inv w \<longleftrightarrow> -1 \<le> row w \<and> row w < int (length (contacts w))
     \<and> (if in_chat w then \<exists>c. mychat w = Some c \<and> talking c (contacts w) else contacts w = [])"
  by (auto simp: win_inv_def talking_def split: option.splits)

lemma win_inv_chat: "win_inv w \<Longrightarrow> in_chat w \<Longrightarrow> \<exists>c. mychat w = Some c \<and> talking c (contacts w)"
  by (simp add: win_inv_iff)

fun datagrams_of :: "chat_out list \<Rightarrow> win_out list" where
  "datagrams_of [] = []"
| "datagrams_of (SentTo a d # os) = DatagramOut a d # datagrams_of os"
| "datagrams_of (_ # os) = datagrams_of os"

text \<open>
  Signals that do not close the window's object leave it in place, up to the messages shown, and
  put the list of contacts on the window that was shown last.
\<close>

lemma on_signals_shows:
  "mychat w = Some c \<Longrightarrow> CloseConnections \<notin> set os \<Longrightarrow>
     \<exists>w' ms. on_signals os w = Inr (w', datagrams_of os)
       \<and> contacts w' = contacts_shown (contacts w) os \<and> mychat w' = Some (c\<lparr>listMessages := ms\<rparr>)
       \<and> in_chat w' = in_chat w \<and> entry w' = entry w \<and> nick w' = nick w
       \<and> (row w' = row w \<and> contacts w' = contacts w \<or> row w' = -1)"
proof (induction os w arbitrary: c rule: on_signals.induct)
  case (1 w)
  then show ?case by (auto intro: exI [of _ "listMessages c"])
next
  case (2 a d os w)
  then show ?case by fastforce
next
  case (3 us os w)
  have "mychat (AddContacts us w) = Some c" using 3 by (simp add: AddContacts_def)
  from "3.IH" [OF this] "3.prems" show ?case by (auto simp: AddContacts_def)
next
  case (4 ms os w)
  have "mychat (AddMessages ms w) = Some (c\<lparr>listMessages := []\<rparr>)" using 4 by (simp add: AddMessages_def)
  from "4.IH" [OF this] "4.prems" show ?case by (auto simp: AddMessages_def)
next
  case (5 us gone os w)
  have "mychat (DeleteContacts us gone w) = Some c"
    using 5 by (simp add: DeleteContacts_def AddContacts_def Let_def)
  from "5.IH" [OF this] "5.prems" show ?case by (auto simp: DeleteContacts_def AddContacts_def Let_def)
next
  case (6 os w)
  then show ?case by simp
qed

lemma talking_messages [simp]: "talking (c\<lparr>listMessages := ms\<rparr>) cs = talking c cs"
  by (simp add: talking_def chat_inv_def)

text \<open>An operation of the network part that keeps it talking keeps the invariant of the window.\<close>

lemma with_chat_keeps:
  assumes w: "mychat w = Some c" "-1 \<le> row w" "row w < int (length (contacts w))"
    and f: "f c = Inr (c', os)" "talking c' (contacts_shown (contacts w) os)" "CloseConnections \<notin> set os"
  shows "\<exists>w'. with_chat f w = Inr (w', datagrams_of os) \<and> in_chat w' = in_chat w \<and> -1 \<le> row w'
     \<and> row w' < int (length (contacts w')) \<and> entry w' = entry w
     \<and> (\<exists>c''. mychat w' = Some c'' \<and> talking c'' (contacts w'))"
proof -
  have "mychat (w\<lparr>mychat := Some c'\<rparr>) = Some c'" by simp
  from on_signals_shows [OF this f(3)] obtain w' ms where
      "on_signals os (w\<lparr>mychat := Some c'\<rparr>) = Inr (w', datagrams_of os)"
      "contacts w' = contacts_shown (contacts w) os" "mychat w' = Some (c'\<lparr>listMessages := ms\<rparr>)"
      "in_chat w' = in_chat w" "entry w' = entry w" "row w' = row w \<and> contacts w' = contacts w \<or> row w' = -1"
    by auto
  with w f show ?thesis by (auto simp: with_chat_def)
qed

text \<open>The network operations under an open socket.\<close>

lemma send_talking:
  assumes "talking c cs"
  shows "chat_SendMessage 1 m pid a c = Inr (c, [SentTo a (payload ''1'' m (user_name c) pid)])"
    and "chat_SendMessage 2 m pid a c = Inr (c, [SentTo a (payload ''2'' m (user_name c) pid)])"
  using assms by (simp_all add: chat_SendMessage_def write_datagram_def talking_def)

definition sockets_kept :: "chat \<Rightarrow> chat \<times> chat_out list \<Rightarrow> bool" where
  "sockets_kept s r \<longleftrightarrow> send_socket (fst r) = SockOpen \<and> listen_socket (fst r) = listen_socket s
     \<and> CloseConnections \<notin> set (snd r)"

lemma announce_sockets: "announce a b s = Inr r \<Longrightarrow> send_socket s = SockOpen \<Longrightarrow> sockets_kept s r"
  by (auto simp: announce_def chat_SendMessage_def write_datagram_def sockets_kept_def split: if_splits)

lemma AddUser_sockets:
  assumes "AddUser moves a name pid back s = Inr r" "send_socket s = SockOpen"
  shows "sockets_kept s r"
proof (cases "pid = id_program s \<or> vecUser s \<noteq> []")
  case True
  with assms show ?thesis
    by (auto simp: AddUser_def add_loop_eq sockets_kept_def Let_def split: if_splits)
next
  case False
  with assms show ?thesis
    by (auto simp: AddUser_def Let_def dest!: announce_sockets) (simp add: sockets_kept_def)
qed

lemma leave_loop_sockets:
  "leave_loop pid k s = Inr r \<Longrightarrow> send_socket s = SockOpen \<Longrightarrow> sockets_kept s r"
proof (induction pid k s arbitrary: r rule: leave_loop.induct)
  case (1 pid k s)
  show ?case
  proof (cases "k < length (vecUser s) \<and> program_id (vecUser s ! k) = pid")
    case True
    let ?s = "s\<lparr>vecUser := take k (vecUser s) @ drop (k + 1) (vecUser s), listDelUsers := listUsers s ! k,
        listUsers := take k (listUsers s) @ drop (k + 1) (listUsers s)\<rparr>"
    from True "1.prems" have k: "\<not> k \<ge> length (listUsers s)"
      by (auto simp: leave_loop.simps [of pid k s])
    with True "1.prems" obtain s' ps where r: "leave_loop pid (k + 1) ?s = Inr (s', ps)"
        "r = (s', UserDisconnect (listUsers ?s) (listUsers s ! k) # ps)"
      by (auto simp: leave_loop.simps [of pid k s] Let_def)
    have "sockets_kept ?s (s', ps)"
      using "1.IH"(1) [OF _ _ _ _ refl refl r(1)] True k "1.prems"(2) by simp
    then show ?thesis using r(2) by (simp add: sockets_kept_def)
  next
    case False
    with "1.prems" "1.IH"(2) show ?thesis
      by (auto simp: leave_loop.simps [of pid k s] sockets_kept_def split: if_splits)
  qed
qed

lemma read_talking:
  assumes "slotReadMessages q moves ds c = Inr (c', os)" "talking c cs"
  shows "talking c' (contacts_shown cs os) \<and> CloseConnections \<notin> set os"
proof -
  have "sockets_kept c (c', os)"
    using assms
    by (auto simp: slotReadMessages_def chat_slotDisconnected_def talking_def Let_def
        split: prod.splits if_splits dest!: AddUser_sockets leave_loop_sockets)
      (auto simp: sockets_kept_def)
  with chat_turn_keeps [of q moves c ds c' os cs] assms show ?thesis
    by (simp add: chat_turn_def talking_def sockets_kept_def)
qed

text \<open>Leaving the chat deletes the sockets and then asks them, in the destructor, whether they are open.\<close>

lemma exit_faults:
  assumes "win_inv w" "in_chat w"
  shows "window_turn q moves w ClickExit = Inl Dangling"
proof -
  obtain c where c: "mychat w = Some c" "talking c (contacts w)"
    using win_inv_chat [OF assms] by blast
  have "with_chat (\<lambda>c. chat_SendMessage 1 ''bye'' (id_program c) Broadcast c) w
      = Inr (w, [DatagramOut Broadcast (payload ''1'' ''bye'' (user_name c) (id_program c))])"
    using c by (simp add: with_chat_def send_talking)
  moreover have "with_chat CloseSockets (w\<lparr>in_chat := False, contacts := [], row := -1\<rparr>) = Inl Dangling"
    using c by (simp add: with_chat_def CloseSockets_def talking_def closeConnections_def chat_destroy_def)
  ultimately show ?thesis using assms by (simp add: window_turn_def on_ExitChat_def)
qed

lemma enter_chat:
  "nick w \<noteq> [] \<Longrightarrow> \<exists>w' c. on_EnterInChat time w = Inr (w', [DatagramOut Broadcast (payload ''1'' ''whos here'' (nick w) time)])
     \<and> in_chat w' \<and> mychat w' = Some c \<and> talking c [] \<and> contacts w' = contacts w \<and> row w' = row w"
  by (simp add: on_EnterInChat_def with_chat_def Mailing_def write_datagram_def Listen_def chat_new_def
      talking_def chat_inv_def Let_def)

lemma send_to_row:
  assumes "mychat w = Some c" "talking c (contacts w)" "row w = int i" "i < length (contacts w)" "entry w \<noteq> []"
  shows "i < length (vecUser c) \<and> contacts w ! i = user_label (vecUser c ! i)
    \<and> on_SendMessage w = Inr (w\<lparr>log := log w @ sent_lines (sent_word @ nikname (vecUser c ! i) @ '':'') (entry w), entry := []\<rparr>,
        [DatagramOut (user_address (vecUser c ! i)) (payload ''2'' (entry w) (user_name c) (id_program c))])"
proof -
  from assms(2) obtain zs where z: "map user_label (vecUser c) = contacts w @ zs"
    by (metis talking_def chat_inv_def prefixE)
  have "i < length (vecUser c)" using assms(4) arg_cong [OF z, of length] by simp
  moreover from this have "contacts w ! i = user_label (vecUser c ! i)"
    using assms(4) arg_cong [OF z, of "\<lambda>l. l ! i"] by (simp add: nth_append)
  moreover have "w\<lparr>mychat := Some c\<rparr> = w" using assms(1) by (cases w) simp
  ultimately show ?thesis
    using assms by (simp add: on_SendMessage_def with_chat_def send_talking [OF assms(2)] Let_def)
qed

lemma mailing_all:
  assumes "mychat w = Some c" "talking c cs" "entry w \<noteq> []"
  shows "on_Mailing w = Inr (w\<lparr>log := log w @ sent_lines sent_all (entry w), entry := []\<rparr>,
        [DatagramOut Broadcast (payload ''2'' (entry w) (user_name c) (id_program c))])"
proof -
  have "w\<lparr>mychat := Some c\<rparr> = w" using assms(1) by (cases w) simp
  then show ?thesis using assms by (simp add: on_Mailing_def with_chat_def send_talking [OF assms(2)])
qed

text \<open>
  The message a list of waiting datagrams amounts to; \<open>bye\<close> may be the last user's, which the
  network part does not survive.
\<close>

definition no_bye :: "qt \<Rightarrow> win_event \<Rightarrow> bool" where
  "no_bye q e = (case e of
      ClickExit \<Rightarrow> False
    | Datagrams ds \<Rightarrow> qt_section q (if ds = [] then [] else takeWhile (\<lambda>c. c \<noteq> NUL) (snd (last ds))) (CHR ''/'') 1 \<noteq> ''bye''
    | _ \<Rightarrow> True)"

definition steps_safe :: "(window \<times> win_out list) outcome \<Rightarrow> bool" where
  "steps_safe r \<longleftrightarrow> (\<exists>w os. r = Inr (w, os) \<and> win_inv w)"

lemma buttons_safe:
  assumes "win_inv w" "e \<noteq> ClickExit" "\<And>ds. e \<noteq> Datagrams ds"
  shows "steps_safe (window_turn q moves w e)"
proof -
  have enter: "steps_safe (on_EnterInChat time w)" if "\<not> in_chat w" for time
  proof (cases "nick w = []")
    case True
    then show ?thesis using assms(1) by (simp add: on_EnterInChat_def steps_safe_def)
  next
    case False
    from enter_chat [OF this, of time] that assms(1) show ?thesis
      by (auto simp: steps_safe_def win_inv_iff)
  qed
  have send: "steps_safe (on_SendMessage w)" if in_c: "in_chat w"
  proof (cases "entry w = [] \<or> row w = -1")
    case True
    then show ?thesis using assms(1) by (auto simp: on_SendMessage_def steps_safe_def)
  next
    case False
    obtain c where c: "mychat w = Some c" "talking c (contacts w)" using win_inv_chat [OF assms(1) in_c] by blast
    from False assms(1) have "row w = int (nat (row w))" "nat (row w) < length (contacts w)"
      by (auto simp: win_inv_iff)
    from send_to_row [OF c this] False c assms(1) that show ?thesis
      by (auto simp: steps_safe_def win_inv_iff)
  qed
  have mail: "steps_safe (on_Mailing w)" if in_c: "in_chat w"
  proof (cases "entry w = []")
    case True
    then show ?thesis using assms(1) by (auto simp: on_Mailing_def steps_safe_def)
  next
    case False
    obtain c where c: "mychat w = Some c" "talking c (contacts w)" using win_inv_chat [OF assms(1) in_c] by blast
    from mailing_all [OF this False] c assms(1) that show ?thesis by (auto simp: steps_safe_def win_inv_iff)
  qed
  show ?thesis
    using assms enter send mail
    by (cases e) (auto simp: window_turn_def steps_safe_def win_inv_iff split: if_splits)
qed

lemma window_turn_keeps:
  assumes "win_inv w" "window_turn q moves w e = Inr (w', os)"
  shows "win_inv w'"
proof -
  consider "e = ClickExit" "in_chat w" | "\<not> in_chat w" "e = ClickExit \<or> (\<exists>ds. e = Datagrams ds)"
    | ds where "e = Datagrams ds" "in_chat w" | "e \<noteq> ClickExit" "\<And>ds. e \<noteq> Datagrams ds" by blast
  then show ?thesis
  proof cases
    case 1
    then show ?thesis using assms exit_faults by simp
  next
    case 2
    then show ?thesis using assms by (auto simp: window_turn_def)
  next
    case 3
    obtain c where c: "mychat w = Some c" "talking c (contacts w)" using win_inv_chat [OF assms(1) 3(2)] by blast
    with 3 assms(2) obtain c' os' where r: "slotReadMessages q moves ds c = Inr (c', os')"
      by (auto simp: window_turn_def with_chat_def split: sum.splits)
    from read_talking [OF r c(2)] with_chat_keeps [where f = "slotReadMessages q moves ds", OF c(1) _ _ r] assms 3 show ?thesis
      by (auto simp: window_turn_def win_inv_iff)
  next
    case 4
    from buttons_safe [OF assms(1) 4, of q moves] assms(2) show ?thesis by (simp add: steps_safe_def)
  qed
qed

lemma AddUser_talking: "talking c cs \<Longrightarrow> \<exists>c' os. AddUser (\<lambda>_. False) a name pid b c = Inr (c', os)"
  by (auto simp: AddUser_def add_loop_eq announce_def Let_def chat_SendMessage_def write_datagram_def talking_def)

lemma window_turn_safe:
  assumes "win_inv w" "no_bye q e"
  shows "\<exists>w' os. window_turn q (\<lambda>_. False) w e = Inr (w', os) \<and> win_inv w'"
proof -
  let ?moves = "\<lambda>_ :: nat. False"
  consider ds where "e = Datagrams ds" "in_chat w" | ds where "e = Datagrams ds" "\<not> in_chat w"
    | "e \<noteq> ClickExit" "\<And>ds. e \<noteq> Datagrams ds"
    using assms(2) by (cases e) (auto simp: no_bye_def)
  then show ?thesis
  proof cases
    case 1
    obtain c where c: "mychat w = Some c" "talking c (contacts w)" using win_inv_chat [OF assms(1) 1(2)] by blast
    have "\<exists>c' os. slotReadMessages q ?moves ds c = Inr (c', os)"
      using 1 assms(2)
      by (cases "ds = []") (auto simp: no_bye_def slotReadMessages_def Let_def AddUser_talking [OF c(2)])
    then obtain c' os where r: "slotReadMessages q ?moves ds c = Inr (c', os)" by blast
    from read_talking [OF r c(2)] with_chat_keeps [where f = "slotReadMessages q ?moves ds", OF c(1) _ _ r] assms(1) 1
    show ?thesis by (auto simp: window_turn_def win_inv_iff)
  next
    case 2
    then show ?thesis using assms by (simp add: window_turn_def)
  next
    case 3
    from buttons_safe [OF assms(1) 3, of q ?moves] show ?thesis by (simp add: steps_safe_def)
  qed
qed

interpretation window: safe_machine "window_turn q (\<lambda>_. False)" win_inv "no_bye q"
  by unfold_locales (rule window_turn_safe)

lemma window_run_inv:
  "run (window_turn q moves) w es = Inr (w', os) \<Longrightarrow> win_inv w \<Longrightarrow> win_inv w'"
  using run_keeps [of win_inv "window_turn q moves" "\<lambda>_. True" w es w' os] window_turn_keeps
  by (simp add: list.pred_True)

lemma window_new_inv: "win_inv window_new"
  by (simp add: win_inv_def window_new_def)

text \<open>A greeting of a user, and the window after it.\<close>

lemma hi_from_ann:
  "slotReadMessages qt_ref moves [(Host 1, payload ''1'' ''hi'' ''ann'' ''111111'')] s
     = AddUser moves (Host 1) ''ann'' ''111111'' False s"
proof -
  let ?p = "takeWhile (\<lambda>c. c \<noteq> NUL) (payload ''1'' ''hi'' ''ann'' ''111111'')"
  have "nat_str 1 = ''1''" by code_simp
  moreover have f: "chat_field ''hi''" "chat_field ''ann''" "chat_field ''111111''" by (simp_all add: chat_field_def)
  ultimately have h: "qint8 (qt_to_int qt_ref (qt_section qt_ref ?p (CHR ''/'') 0)) = 1"
      "qt_section qt_ref ?p (CHR ''/'') 1 = ''hi''" "qt_section qt_ref ?p (CHR ''/'') 2 = ''ann''"
      "qt_section qt_ref ?p (CHR ''/'') 3 = ''111111''"
    using read_payload [OF qt_ref_documented _ f, of 1] by (simp_all only: Let_def)
  show ?thesis unfolding slotReadMessages_def by (simp add: h [unfolded One_nat_def])
qed

definition greeted :: "win_event list" where
  "greeted = [TypeNick ''me'', ClickEnter ''101010'', Datagrams [(Host 1, payload ''1'' ''hi'' ''ann'' ''111111'')],
     SelectRow 0, TypeText ''hello'']"

lemma greeted_run:
  "\<exists>w os. run (window_turn qt_ref (\<lambda>_. False)) window_new greeted = Inr (w, os)
     \<and> in_chat w \<and> row w = int 0 \<and> entry w = ''hello'' \<and> contacts w = [user_label ann]"
  by (simp add: greeted_def run.simps window_turn_def on_EnterInChat_def with_chat_def Mailing_def
      write_datagram_def Listen_def chat_new_def window_new_def hi_from_ann [unfolded One_nat_def] AddUser_def announce_def
      AddContacts_def user_label_def Let_def)

section \<open>Properties\<close>

text \<open>
  C28. A private message goes to the user that is selected: however the window came to its state,
  sending with a row selected and a text typed in writes one datagram of type 2 with that text,
  to the address of the user whose label the row shows, and empties the entry.
\<close>

theorem window_private_message:
  assumes "run (window_turn q moves) window_new es = Inr (w, os)"
    and "in_chat w" "row w = int i" "entry w \<noteq> []"
  shows "\<exists>c u w'. mychat w = Some c \<and> u \<in> set (vecUser c) \<and> contacts w ! i = user_label u
    \<and> window_turn q moves w ClickSend
      = Inr (w', [DatagramOut (user_address u) (payload ''2'' (entry w) (user_name c) (id_program c))])
    \<and> entry w' = []"
proof -
  have inv: "win_inv w" using window_run_inv [OF assms(1) window_new_inv] .
  obtain c where c: "mychat w = Some c" "talking c (contacts w)"
    using win_inv_chat [OF inv assms(2)] by blast
  have "i < length (contacts w)" using inv assms(3) by (simp add: win_inv_iff)
  from send_to_row [OF c assms(3) this assms(4)] c assms(2) show ?thesis
    by (auto simp: window_turn_def intro!: exI [of _ c] exI [of _ "vecUser c ! i"])
qed

theorem window_private_message_witness:
  "\<exists>w w' os d. run (window_turn qt_ref (\<lambda>_. False)) window_new greeted = Inr (w, os)
     \<and> contacts w ! 0 = user_label ann \<and> window_turn qt_ref (\<lambda>_. False) w ClickSend = Inr (w', [d])"
proof -
  from greeted_run obtain w os where r: "run (window_turn qt_ref (\<lambda>_. False)) window_new greeted = Inr (w, os)"
      "in_chat w" "row w = int 0" "entry w = ''hello''" "contacts w = [user_label ann]" by blast
  then have "entry w \<noteq> []" by simp
  from window_private_message [OF r(1-3) this] r(1,5) show ?thesis by auto
qed

text \<open>
  While no \<open>bye\<close> arrives, nobody leaves the chat and no vector is moved to new storage, the window answers every click,
  every text and every datagram without a fault, and its list of contacts stays in step with
  the users.
\<close>

theorem window_safe:
  assumes "list_all (no_bye q) es"
  shows "\<exists>w os. run (window_turn q (\<lambda>_. False)) window_new es = Inr (w, os) \<and> win_inv w"
  using window.run_safe [OF window_new_inv assms] .

theorem window_safe_witness:
  "\<exists>w os. run (window_turn qt_ref (\<lambda>_. False)) window_new [TypeNick ''me'', ClickEnter ''101010'', ClickSend] = Inr (w, os)
     \<and> win_inv w"
  by (rule window_safe) (simp add: no_bye_def)

text \<open>
  Leaving the chat faults: from every state of the window in the chat, the exit button says
  \<open>bye\<close>, deletes the sockets and then has the destructor ask the deleted sockets whether they
  are open.
\<close>

theorem window_exit_faults:
  assumes "run (window_turn q moves) window_new es = Inr (w, os)" "in_chat w"
  shows "run (window_turn q moves) window_new (es @ [ClickExit]) = Inl Dangling"
  using assms exit_faults [OF window_run_inv [OF assms(1) window_new_inv] assms(2), of q moves]
  by (simp add: run_append run.simps(2))

theorem window_exit_faults_witness:
  "run (window_turn qt_ref (\<lambda>_. False)) window_new (greeted @ [ClickExit]) = Inl Dangling"
proof -
  from greeted_run obtain w os where r: "run (window_turn qt_ref (\<lambda>_. False)) window_new greeted = Inr (w, os)"
      "in_chat w" by blast
  from window_exit_faults [OF r] show ?thesis .
qed

end
