(* ===== verification/OutOfOrder.thy ===== *)
theory OutOfOrder
  imports Prelude
begin

text \<open>
  One direction of a TCP connection in \<open>Packet++/TcpReassembly.cpp\<close>: the sequence number that
  is expected next, the fragments that came too early, and \<open>checkOutOfOrderFragments\<close>, which
  hands over those that fit by now. What the callback is called with is the output.
\<close>

section \<open>State\<close>

type_synonym seqno = "32 word"
type_synonym timeval = "int \<times> int"

text \<open>A fragment in the list; \<open>dataLength\<close> is the length of its data.\<close>

record tcp_fragment =
  frag_seq :: seqno
  frag_data :: "byte list"
  frag_time :: timeval

text \<open>What the callback gets: the data, the number of missing bytes, the time stamp.\<close>

datatype stream_data = StreamData "byte list" seqno timeval

text \<open>The comparisons \<open>SEQ_LT\<close> and \<open>SEQ_GT\<close>: the sign of the difference as an \<open>int32_t\<close>.\<close>

definition SEQ_LT :: "seqno \<Rightarrow> seqno \<Rightarrow> bool" where
  "SEQ_LT a b \<longleftrightarrow> sint (a - b) < 0"

definition SEQ_GT :: "seqno \<Rightarrow> seqno \<Rightarrow> bool" where
  "SEQ_GT a b \<longleftrightarrow> sint (a - b) > 0"

definition frag_len :: "tcp_fragment \<Rightarrow> seqno" where
  "frag_len f = of_nat (length (frag_data f))"

section \<open>Operations\<close>

definition prepareMissingDataMessage :: "seqno \<Rightarrow> byte list" where
  "prepareMissingDataMessage missing =
     map of_char (''['' @ nat_str (unat missing) @ '' bytes missing]'')"

text \<open>
  The first iteration, one pass over the list: the sequence after it, the fragments kept, what
  was handed over, and \<open>foundSomething\<close>. A fragment without new data is only dropped.
\<close>

fun scan_fragments :: "seqno \<Rightarrow> tcp_fragment list \<Rightarrow> seqno \<times> tcp_fragment list \<times> stream_data list \<times> bool" where
  "scan_fragments s [] = (s, [], [], False)"
| "scan_fragments s (f # fs) =
     (if frag_seq f = s then
        (let (s', kept, os, found) = scan_fragments (s + frag_len f) fs
         in (s', kept, StreamData (frag_data f) 0 (frag_time f) # os, True))
      else if SEQ_LT (frag_seq f) s then
        (let newSequence = frag_seq f + frag_len f
         in if SEQ_GT newSequence s then
              (let newLength = s - frag_seq f;
                   (s', kept, os, found) = scan_fragments (s + (frag_len f - newLength)) fs
               in (s', kept, StreamData (drop (unat newLength) (frag_data f)) 0 (frag_time f) # os, True))
            else scan_fragments s fs)
      else
        (let (s', kept, os, found) = scan_fragments s fs in (s', f # kept, os, found)))"

lemma scan_shrinks:
  "scan_fragments s fs = (s', kept, os, found) \<Longrightarrow> length kept \<le> length fs \<and> (found \<longrightarrow> length kept < length fs)"
proof (induction fs arbitrary: s s' kept os found)
  case (Cons f fs)
  show ?case
  proof (cases "frag_seq f = s \<or> SEQ_LT (frag_seq f) s")
    case True
    with Cons.prems Cons.IH show ?thesis
      by (fastforce simp: Let_def split: if_splits prod.splits)
  next
    case False
    with Cons.prems obtain k where "scan_fragments s fs = (s', k, os, found)" "kept = f # k"
      by (auto split: prod.splits)
    with Cons.IH show ?thesis by fastforce
  qed
qed simp

text \<open>The passes are repeated while one has handed something over.\<close>

function drain :: "seqno \<Rightarrow> tcp_fragment list \<Rightarrow> seqno \<times> tcp_fragment list \<times> stream_data list" where
  "drain s fs =
     (case scan_fragments s fs of (s1, kept, os, found) \<Rightarrow>
        if found then (case drain s1 kept of (s2, kept2, os2) \<Rightarrow> (s2, kept2, os @ os2)) else (s1, kept, os))"
  by pat_completeness auto
termination
  by (relation "measure (\<lambda>(s, fs). length fs)") (auto dest!: sym [of _ "scan_fragments _ _"] scan_shrinks)

declare drain.simps [simp del]

text \<open>The second iteration: the first fragment whose sequence is the closest.\<close>

fun closest_from :: "nat \<Rightarrow> seqno \<Rightarrow> nat \<Rightarrow> tcp_fragment list \<Rightarrow> nat" where
  "closest_from best closest i [] = best"
| "closest_from best closest i (f # fs) =
     (if SEQ_LT (frag_seq f) closest then closest_from i (frag_seq f) (i + 1) fs
      else closest_from best closest (i + 1) fs)"

definition closest_index :: "tcp_fragment list \<Rightarrow> nat option" where
  "closest_index fs = (case fs of [] \<Rightarrow> None | f # fs' \<Rightarrow> Some (closest_from 0 (frag_seq f) 1 fs'))"

lemma drain_shrinks: "drain s fs = (s', kept, os) \<Longrightarrow> length kept \<le> length fs"
proof (induction s fs arbitrary: s' kept os rule: drain.induct)
  case (1 s fs)
  obtain s1 k1 o1 found where sc: "scan_fragments s fs = (s1, k1, o1, found)" by (metis prod_cases4)
  show ?case
  proof (cases found)
    case True
    obtain s2 k2 o2 where "drain s1 k1 = (s2, k2, o2)" by (metis prod_cases3)
    with 1 sc True scan_shrinks [OF sc] show ?thesis by (fastforce simp: drain.simps [of s fs])
  next
    case False
    with 1 sc scan_shrinks [OF sc] show ?thesis by (simp add: drain.simps [of s fs])
  qed
qed

lemma closest_from_bound: "best < i \<Longrightarrow> closest_from best c i fs < i + length fs"
  by (induction best c i fs rule: closest_from.induct) (auto simp: less_Suc_eq)

lemma closest_index_bound: "closest_index fs = Some i \<Longrightarrow> i < length fs"
  using closest_from_bound [of 0 1] by (fastforce simp: closest_index_def split: list.splits)

text \<open>
  \<open>checkOutOfOrderFragments\<close> on one side; \<open>maxf\<close> is \<open>m_MaxOutOfOrderFragments\<close> (zero for no
  limit). While the list has to be cleaned the closest fragment is handed over behind a
  message that says how much is missing, and all begins again.
\<close>

function checkOutOfOrderFragments ::
    "nat \<Rightarrow> bool \<Rightarrow> seqno \<Rightarrow> tcp_fragment list \<Rightarrow> seqno \<times> tcp_fragment list \<times> stream_data list" where
  "checkOutOfOrderFragments maxf clean s fs =
     (case drain s fs of (s1, kept, os) \<Rightarrow>
        if \<not> clean \<and> (maxf = 0 \<or> length kept \<le> maxf) then (s1, kept, os)
        else case closest_index kept of
          None \<Rightarrow> (s1, kept, os)
        | Some i \<Rightarrow>
            let f = kept ! i;
                missing = frag_seq f - s1;
                out = StreamData (prepareMissingDataMessage missing @ frag_data f) missing (frag_time f)
            in (case checkOutOfOrderFragments maxf clean (frag_seq f + frag_len f) (take i kept @ drop (i + 1) kept) of
                  (s2, kept2, os2) \<Rightarrow> (s2, kept2, os @ out # os2)))"
  by pat_completeness auto
termination
  by (relation "measure (\<lambda>(maxf, clean, s, fs). length fs)")
    (auto dest!: sym [of _ "drain _ _"] drain_shrinks closest_index_bound)

declare checkOutOfOrderFragments.simps [simp del]

text \<open>
  The end of \<open>reassemblePacket\<close>, from the sequence number on: a packet with the sequence \<open>seq\<close>
  on a side that expects \<open>s\<close>. What a FIN or RST does besides is left to the caller.
\<close>

datatype ReassemblyStatus =
    TcpMessageHandled
  | OutOfOrderTcpMessageBuffered
  | FIN_RSTWithNoData
  | Ignore_PacketWithNoData
  | Ignore_PacketOfClosedFlow
  | Ignore_Retransimission
  | NonIpPacket
  | NonTcpPacket
  | Error_PacketDoesNotMatchFlow

record tcp_segment =
  seq :: seqno
  tcp_payload :: "byte list"
  synFlag :: bool
  finOrRst :: bool
  seg_time :: timeval

definition receive_data ::
    "nat \<Rightarrow> bool \<Rightarrow> tcp_segment \<Rightarrow> seqno \<times> tcp_fragment list \<Rightarrow>
     ReassemblyStatus \<times> (seqno \<times> tcp_fragment list) \<times> stream_data list" where
  "receive_data maxf first p side =
     (let (s, fs) = side;
          size = of_nat (length (tcp_payload p));
          no_data = (if finOrRst p then FIN_RSTWithNoData else Ignore_PacketWithNoData)
      in if first then
           (TcpMessageHandled, (seq p + size + (if synFlag p then 1 else 0), fs),
            if tcp_payload p \<noteq> [] then [StreamData (tcp_payload p) 0 (seg_time p)] else [])
         else if SEQ_LT (seq p) s then
           (if SEQ_GT (seq p + size) s then
              let newLength = s - seq p
              in (TcpMessageHandled, (s + (size - newLength), fs),
                  [StreamData (drop (unat newLength) (tcp_payload p)) 0 (seg_time p)])
            else (Ignore_Retransimission, (s, fs), []))
         else if seq p = s then
           (if tcp_payload p = [] then (no_data, (s, fs), [])
            else
              (case checkOutOfOrderFragments maxf False (s + size + (if synFlag p then 1 else 0)) fs of
                 (s', kept, os) \<Rightarrow>
                   (TcpMessageHandled, (s', kept), StreamData (tcp_payload p) 0 (seg_time p) # os)))
         else
           (if tcp_payload p = [] then (no_data, (s, fs), [])
            else
              let fs' = fs @ [\<lparr>frag_seq = seq p, frag_data = tcp_payload p, frag_time = seg_time p\<rparr>]
              in if maxf > 0 \<and> length fs' > maxf then
                   (case checkOutOfOrderFragments maxf False s fs' of
                      (s', kept, os) \<Rightarrow> (OutOfOrderTcpMessageBuffered, (s', kept), os))
                 else (OutOfOrderTcpMessageBuffered, (s, fs'), [])))"

section \<open>Emptiness and bounds\<close>

lemma check_clean:
  "checkOutOfOrderFragments maxf clean s fs = (s', kept, os) \<Longrightarrow>
     length kept \<le> length fs \<and> (clean \<longrightarrow> kept = []) \<and> (maxf = 0 \<or> length kept \<le> maxf)"
proof (induction maxf clean s fs arbitrary: s' kept os rule: checkOutOfOrderFragments.induct)
  case (1 maxf clean s fs)
  obtain s1 k1 o1 where d: "drain s fs = (s1, k1, o1)" by (metis prod_cases3)
  note shr = drain_shrinks [OF d]
  consider "\<not> clean \<and> (maxf = 0 \<or> length k1 \<le> maxf)"
    | "\<not> (\<not> clean \<and> (maxf = 0 \<or> length k1 \<le> maxf))" "closest_index k1 = None"
    | i where "\<not> (\<not> clean \<and> (maxf = 0 \<or> length k1 \<le> maxf))" "closest_index k1 = Some i" by force
  then show ?case
  proof cases
    case 1
    with "1.prems" d shr show ?thesis by (auto simp: checkOutOfOrderFragments.simps [of maxf False s fs])
  next
    case 2
    then have "k1 = []" by (simp add: closest_index_def split: list.splits)
    with 2 "1.prems" d show ?thesis
      by (auto simp: checkOutOfOrderFragments.simps [of maxf clean s fs] checkOutOfOrderFragments.simps [of maxf True s fs])
  next
    case 3
    let ?f = "k1 ! i"
    obtain s2 k2 o2 where r: "checkOutOfOrderFragments maxf clean (frag_seq ?f + frag_len ?f)
        (take i k1 @ drop (i + 1) k1) = (s2, k2, o2)" by (metis prod_cases3)
    from 3 "1.prems" d r have "kept = k2"
      by (auto simp: checkOutOfOrderFragments.simps [of maxf clean s fs] Let_def)
    moreover note "1.IH" [OF d [symmetric] refl 3(1,2) refl refl refl r]
    ultimately show ?thesis using shr closest_index_bound [OF 3(2)] by auto
  qed
qed

section \<open>Segments of one stream\<close>

text \<open>
  \<open>whole\<close> is the stream a sender sends from the sequence number \<open>isn\<close> on; a segment is a
  part of it, at the offset \<open>at\<close>.
\<close>

definition segment :: "seqno \<Rightarrow> byte list \<Rightarrow> nat \<Rightarrow> tcp_fragment \<Rightarrow> bool" where
  "segment isn whole at f \<longleftrightarrow> frag_seq f = isn + of_nat at \<and> frag_data f \<noteq> []
     \<and> at + length (frag_data f) \<le> length whole \<and> frag_data f = take (length (frag_data f)) (drop at whole)"

definition some_segment :: "seqno \<Rightarrow> byte list \<Rightarrow> tcp_fragment \<Rightarrow> bool" where
  "some_segment isn whole f \<longleftrightarrow> (\<exists>at. segment isn whole at f)"

definition bytes_of :: "stream_data list \<Rightarrow> byte list" where
  "bytes_of os = concat (map (\<lambda>out. case out of StreamData d missing t \<Rightarrow> d) os)"

lemma bytes_of_simps [simp]:
  "bytes_of [] = []" "bytes_of (StreamData d m t # os) = d @ bytes_of os" "bytes_of (os @ ps) = bytes_of os @ bytes_of ps"
  by (simp_all add: bytes_of_def)

lemma seq_diff: "a < 2 ^ 31 \<Longrightarrow> b < 2 ^ 31 \<Longrightarrow> sint ((isn + of_nat a) - (isn + of_nat b) :: seqno) = int a - int b"
proof -
  assume "a < 2 ^ 31" "b < 2 ^ 31"
  then have "int a - int b \<in> {- (2 ^ 31)..<2 ^ 31}" by auto
  moreover have "(isn + of_nat a) - (isn + of_nat b) = (word_of_int (int a - int b) :: seqno)" by simp
  ultimately show ?thesis by (simp only: sint_small)
qed

lemma seq_order:
  assumes "a < 2 ^ 31" "b < 2 ^ 31"
  shows "SEQ_LT (isn + of_nat a) (isn + of_nat b) \<longleftrightarrow> a < b"
    and "SEQ_GT (isn + of_nat a) (isn + of_nat b) \<longleftrightarrow> b < a"
    and "isn + of_nat a = (isn + of_nat b :: seqno) \<longleftrightarrow> a = b"
proof -
  show "SEQ_LT (isn + of_nat a) (isn + of_nat b) \<longleftrightarrow> a < b" "SEQ_GT (isn + of_nat a) (isn + of_nat b) \<longleftrightarrow> b < a"
    by (simp_all only: SEQ_LT_def SEQ_GT_def seq_diff [OF assms]) simp_all
  show "isn + of_nat a = (isn + of_nat b :: seqno) \<longleftrightarrow> a = b"
    using seq_diff [OF assms, of isn] by auto
qed

lemma seq_unat_diff:
  assumes "a \<le> b" "b < 2 ^ 31"
  shows "unat ((isn + of_nat b) - (isn + of_nat a) :: seqno) = b - a"
proof -
  have "(isn + of_nat b) - (isn + of_nat a) = (of_nat (b - a) :: seqno)" by (simp only: of_nat_diff [OF assms(1)] add_diff_cancel_left)
  moreover have "unat (of_nat (b - a) :: seqno) = b - a"
    unfolding unat_of_nat using assms(2) by simp
  ultimately show ?thesis by simp
qed

text \<open>What a segment that starts at or before the position \<open>k\<close> adds to the first \<open>k\<close> bytes.\<close>

lemma segment_new_data:
  assumes "segment isn whole at f" "at \<le> k" "k \<le> at + length (frag_data f)"
  shows "take k whole @ drop (k - at) (frag_data f) = take (at + length (frag_data f)) whole"
proof -
  let ?n = "length (frag_data f)"
  have "drop (k - at) (frag_data f) = take (at + ?n - k) (drop k whole)"
  proof -
    have "drop (k - at) (frag_data f) = drop (k - at) (take ?n (drop at whole))"
      using assms(1) by (metis segment_def)
    also have "\<dots> = take (?n - (k - at)) (drop k whole)" using assms(2) by (simp add: drop_take)
    finally show ?thesis using assms(2,3) by (simp add: diff_diff_right add.commute)
  qed
  moreover have "take (at + ?n) whole = take k whole @ take (at + ?n - k) (drop k whole)"
    using assms(3) by (metis le_add_diff_inverse take_add)
  ultimately show ?thesis by simp
qed

text \<open>The offset of a segment is its distance from the first sequence number.\<close>

definition off :: "seqno \<Rightarrow> tcp_fragment \<Rightarrow> nat" where
  "off isn f = unat (frag_seq f - isn)"

definition off_end :: "seqno \<Rightarrow> tcp_fragment \<Rightarrow> nat" where
  "off_end isn f = off isn f + length (frag_data f)"

lemma some_segment_off:
  assumes "some_segment isn whole f" "length whole < 2 ^ 31"
  shows "segment isn whole (off isn f) f" "off isn f < off_end isn f" "off_end isn f \<le> length whole"
    "frag_seq f = isn + of_nat (off isn f)" "frag_seq f + frag_len f = isn + of_nat (off_end isn f)"
proof -
  obtain at where s: "segment isn whole at f" using assms(1) by (auto simp: some_segment_def)
  then have "at < 2 ^ 31" using assms(2) by (simp add: segment_def)
  with s have "off isn f = at"
    unfolding off_def using seq_unat_diff [of 0 at isn] by (simp add: segment_def)
  with s show "segment isn whole (off isn f) f" by simp
  then show "off isn f < off_end isn f" "off_end isn f \<le> length whole" "frag_seq f = isn + of_nat (off isn f)"
    by (simp_all add: segment_def off_end_def)
  then show "frag_seq f + frag_len f = isn + of_nat (off_end isn f)"
    by (simp add: off_end_def frag_len_def)
qed

text \<open>
  What a pass does: from the first \<open>k\<close> bytes to the first \<open>k'\<close>, without a gap, and no fragment is
  lost that holds anything behind them.
\<close>

definition moves_on ::
    "seqno \<Rightarrow> byte list \<Rightarrow> nat \<Rightarrow> tcp_fragment list \<Rightarrow> nat \<Rightarrow> tcp_fragment list \<Rightarrow> stream_data list \<Rightarrow> bool" where
  "moves_on isn whole k fs k' kept os \<longleftrightarrow> k \<le> k' \<and> k' \<le> length whole
     \<and> take k whole @ bytes_of os = take k' whole \<and> set kept \<subseteq> set fs
     \<and> (\<forall>f \<in> set fs. f \<in> set kept \<or> off_end isn f \<le> k')"

lemma scan_segments:
  assumes "length whole < 2 ^ 31"
  shows "k \<le> length whole \<Longrightarrow> \<forall>f \<in> set fs. some_segment isn whole f \<Longrightarrow>
     scan_fragments (isn + of_nat k) fs = (s', kept, os, found) \<Longrightarrow>
     \<exists>k'. s' = isn + of_nat k' \<and> moves_on isn whole k fs k' kept os \<and> (found \<longleftrightarrow> k < k')
       \<and> (\<not> found \<longrightarrow> (\<forall>f \<in> set kept. k < off isn f))"
proof (induction fs arbitrary: k s' kept os found)
  case Nil
  then show ?case by (auto simp: moves_on_def)
next
  case (Cons f fs)
  let ?a = "off isn f" and ?e = "off_end isn f"
  note seg = some_segment_off [OF _ assms, of isn f]
  have f: "some_segment isn whole f" using Cons.prems(2) by simp
  note sf = some_segment_off [OF f assms]
  have small: "?a < 2 ^ 31" "k < 2 ^ 31" "?e < 2 ^ 31"
    using sf assms Cons.prems(1) by auto
  have rest: "\<forall>g \<in> set fs. some_segment isn whole g" using Cons.prems(2) by simp
  have eqs: "frag_seq f = isn + of_nat k \<longleftrightarrow> ?a = k" "SEQ_LT (frag_seq f) (isn + of_nat k) \<longleftrightarrow> ?a < k"
      "SEQ_GT (frag_seq f + frag_len f) (isn + of_nat k) \<longleftrightarrow> k < ?e"
    unfolding sf(5) unfolding sf(4) by (simp_all only: seq_order [OF small(1,2)] seq_order [OF small(3,2)])
  show ?case
  proof (cases "?a \<le> k \<and> k < ?e")
    case True
    let ?d = "drop (k - ?a) (frag_data f)"
    have new: "take k whole @ ?d = take ?e whole"
      using segment_new_data [OF sf(1)] True by (simp add: off_end_def)
    have next_s: "isn + of_nat k + (frag_len f - ((isn + of_nat k) - frag_seq f)) = isn + of_nat ?e"
      using sf(5) by (simp add: algebra_simps)
    have n: "unat ((isn + of_nat k) - frag_seq f) = k - ?a"
      unfolding sf(4) using True small(2) by (intro seq_unat_diff) simp_all
    obtain s2 k2 o2 fd where r: "scan_fragments (isn + of_nat ?e) fs = (s2, k2, o2, fd)" by (metis prod_cases4)
    have here: "s' = s2 \<and> kept = k2 \<and> os = StreamData ?d 0 (frag_time f) # o2 \<and> found"
    proof (cases "?a = k")
      case eq: True
      have e: "isn + of_nat k + frag_len f = isn + of_nat ?e" using sf(5) unfolding sf(4) eq .
      have at_s: "frag_seq f = isn + of_nat k" using eqs(1) eq by simp
      have "scan_fragments (isn + of_nat k) (f # fs) = (s2, k2, StreamData (frag_data f) 0 (frag_time f) # o2, True)"
        unfolding scan_fragments.simps(2) if_P [OF at_s] e r by simp
      then show ?thesis using Cons.prems(3) eq by simp
    next
      case False
      with True have "?a < k" "k < ?e" by auto
      then show ?thesis using Cons.prems(3) r eqs False next_s n by (simp add: Let_def)
    qed
    from Cons.IH [OF sf(3) rest r] obtain k' where
        k': "s2 = isn + of_nat k'" "moves_on isn whole ?e fs k' k2 o2" by blast
    have "moves_on isn whole k (f # fs) k' kept os \<and> k < k'"
      using k'(2) here True new by (auto simp: moves_on_def simp flip: append_assoc)
    with k'(1) here show ?thesis by blast
  next
    case False
    show ?thesis
    proof (cases "?a \<le> k")
      case True
      with False sf(2) have "?a < k" "\<not> k < ?e" by auto
      then have r: "scan_fragments (isn + of_nat k) fs = (s', kept, os, found)"
        using Cons.prems(3) eqs by (simp add: Let_def)
      from Cons.IH [OF Cons.prems(1) rest r] obtain k' where
          k': "s' = isn + of_nat k'" "moves_on isn whole k fs k' kept os" "found \<longleftrightarrow> k < k'"
          "\<not> found \<longrightarrow> (\<forall>f \<in> set kept. k < off isn f)" by blast
      have "moves_on isn whole k (f # fs) k' kept os"
        using k'(2) \<open>\<not> k < ?e\<close> by (auto simp: moves_on_def)
      with k' show ?thesis by blast
    next
      case high: False
      obtain k2 where r: "scan_fragments (isn + of_nat k) fs = (s', k2, os, found)" "kept = f # k2"
        using Cons.prems(3) eqs high by (auto split: prod.splits)
      from Cons.IH [OF Cons.prems(1) rest r(1)] obtain k' where
          k': "s' = isn + of_nat k'" "moves_on isn whole k fs k' k2 os" "found \<longleftrightarrow> k < k'"
          "\<not> found \<longrightarrow> (\<forall>f \<in> set k2. k < off isn f)" by blast
      have "moves_on isn whole k (f # fs) k' kept os"
        using k'(2) r(2) by (auto simp: moves_on_def)
      with k' r(2) high show ?thesis by (intro exI [of _ k']) auto
    qed
  qed
qed

lemma moves_on_trans:
  "moves_on isn whole k fs k1 kept1 o1 \<Longrightarrow> moves_on isn whole k1 kept1 k2 kept2 o2 \<Longrightarrow>
     moves_on isn whole k fs k2 kept2 (o1 @ o2)"
  by (fastforce simp: moves_on_def simp flip: append_assoc)

lemma drain_segments:
  assumes "length whole < 2 ^ 31"
  shows "k \<le> length whole \<Longrightarrow> \<forall>f \<in> set fs. some_segment isn whole f \<Longrightarrow>
     drain (isn + of_nat k) fs = (s', kept, os) \<Longrightarrow>
     \<exists>k'. s' = isn + of_nat k' \<and> moves_on isn whole k fs k' kept os \<and> (\<forall>f \<in> set kept. k' < off isn f)"
proof (induction "length fs" arbitrary: k fs s' kept os rule: less_induct)
  case less
  obtain s1 k1 o1 found where sc: "scan_fragments (isn + of_nat k) fs = (s1, k1, o1, found)"
    by (metis prod_cases4)
  from scan_segments [OF assms less.prems(1,2) sc] obtain n where
      n: "s1 = isn + of_nat n" "moves_on isn whole k fs n k1 o1" "found \<longleftrightarrow> k < n"
      "\<not> found \<longrightarrow> (\<forall>f \<in> set k1. k < off isn f)" by blast
  show ?case
  proof (cases found)
    case True
    obtain s2 k2 o2 where r: "drain (isn + of_nat n) k1 = (s2, k2, o2)" by (metis prod_cases3)
    have "n \<le> length whole" "\<forall>f \<in> set k1. some_segment isn whole f"
      using n(2) less.prems(2) by (auto simp: moves_on_def)
    from less.hyps [OF _ this r] scan_shrinks [OF sc] True obtain n' where
        "s2 = isn + of_nat n'" "moves_on isn whole n k1 n' k2 o2" "\<forall>f \<in> set k2. n' < off isn f" by blast
    moreover have "s' = s2 \<and> kept = k2 \<and> os = o1 @ o2"
      using less.prems(3) sc True n(1) r by (simp add: drain.simps [of "isn + of_nat k" fs])
    ultimately show ?thesis using moves_on_trans [OF n(2)] by blast
  next
    case False
    then have "s' = s1 \<and> kept = k1 \<and> os = o1"
      using less.prems(3) sc by (simp add: drain.simps [of "isn + of_nat k" fs])
    moreover have "n = k" using n(2,3) False by (auto simp: moves_on_def)
    ultimately show ?thesis using n False by blast
  qed
qed

section \<open>A sender's stream, arriving\<close>

text \<open>
  A packet that carries a segment of the stream, and the state of the side after a number of
  them: the bytes handed over are the first \<open>k\<close>, and every segment that came is among those or
  still in the list.
\<close>

definition carries :: "seqno \<Rightarrow> byte list \<Rightarrow> tcp_segment \<Rightarrow> bool" where
  "carries isn whole p \<longleftrightarrow> \<not> synFlag p
     \<and> some_segment isn whole \<lparr>frag_seq = seq p, frag_data = tcp_payload p, frag_time = seg_time p\<rparr>"

abbreviation frag_of :: "tcp_segment \<Rightarrow> tcp_fragment" where
  "frag_of p \<equiv> \<lparr>frag_seq = seq p, frag_data = tcp_payload p, frag_time = seg_time p\<rparr>"

definition arrived :: "seqno \<Rightarrow> byte list \<Rightarrow> tcp_segment list \<Rightarrow> nat \<Rightarrow> tcp_fragment list \<Rightarrow> byte list \<Rightarrow> bool" where
  "arrived isn whole ps k fs given \<longleftrightarrow> k \<le> length whole \<and> given = take k whole
     \<and> (\<forall>f \<in> set fs. some_segment isn whole f)
     \<and> (\<forall>p \<in> set ps. frag_of p \<in> set fs \<or> off_end isn (frag_of p) \<le> k)"

text \<open>The packets of one side, one after the other.\<close>

fun receive_all :: "nat \<Rightarrow> tcp_segment list \<Rightarrow> seqno \<times> tcp_fragment list \<Rightarrow> (seqno \<times> tcp_fragment list) \<times> stream_data list" where
  "receive_all maxf [] side = (side, [])"
| "receive_all maxf (p # ps) side =
     (case receive_data maxf False p side of (status, side1, o1) \<Rightarrow>
        (case receive_all maxf ps side1 of (side2, o2) \<Rightarrow> (side2, o1 @ o2)))"

lemma check_unlimited: "checkOutOfOrderFragments 0 False s fs = drain s fs"
  by (simp add: checkOutOfOrderFragments.simps split: prod.split)

lemma receive_arrived:
  assumes l: "length whole < 2 ^ 31" and p: "carries isn whole p"
    and arr: "arrived isn whole ps k fs given"
    and r: "receive_data 0 False p (isn + of_nat k, fs) = (status, (s', fs'), os)"
  shows "\<exists>k'. s' = isn + of_nat k' \<and> arrived isn whole (ps @ [p]) k' fs' (given @ bytes_of os)"
proof -
  let ?f = "frag_of p" and ?s = "isn + of_nat k"
  have f: "some_segment isn whole ?f" "\<not> synFlag p" using p by (simp_all add: carries_def)
  define a e where ae: "a = off isn ?f" "e = off_end isn ?f"
  note sf = some_segment_off [OF f(1) l, folded ae]
  have ne: "tcp_payload p \<noteq> []" using sf(1) by (simp add: segment_def)
  have k: "k \<le> length whole" "given = take k whole" using arr by (simp_all add: arrived_def)
  have small: "a < 2 ^ 31" "k < 2 ^ 31" "e < 2 ^ 31" using sf l k by auto
  have sq: "seq p = isn + of_nat a" "seq p + of_nat (length (tcp_payload p)) = isn + of_nat e"
    using sf(4,5) by (simp_all add: frag_len_def)
  have eqs: "seq p = ?s \<longleftrightarrow> a = k" "SEQ_LT (seq p) ?s \<longleftrightarrow> a < k"
      "SEQ_GT (seq p + of_nat (length (tcp_payload p))) ?s \<longleftrightarrow> k < e"
    unfolding sq(2) unfolding sq(1) by (simp_all only: seq_order [OF small(1,2)] seq_order [OF small(3,2)])
  consider "a < k" "k < e" | "a < k" "\<not> k < e" | "a = k" | "k < a" by linarith
  then show ?thesis
  proof cases
    case 1
    have "unat (?s - seq p) = k - a" unfolding sq(1) using 1 small(2) by (intro seq_unat_diff) simp_all
    moreover have "?s + (of_nat (length (tcp_payload p)) - (?s - seq p)) = isn + of_nat e"
      using sq(2) by (simp add: algebra_simps)
    ultimately have "s' = isn + of_nat e \<and> fs' = fs \<and> bytes_of os = drop (k - a) (tcp_payload p)"
      using r 1 eqs by (auto simp: receive_data_def Let_def)
    moreover have "take k whole @ drop (k - a) (tcp_payload p) = take e whole"
      using segment_new_data [OF sf(1)] 1 by (simp add: ae off_end_def)
    ultimately show ?thesis using arr 1 sf(3) k unfolding arrived_def by (intro exI [of _ e]) (force simp: ae)
  next
    case 2
    then have "s' = ?s \<and> fs' = fs \<and> os = []" using r eqs by (auto simp: receive_data_def Let_def)
    then show ?thesis using arr 2 by (auto simp: arrived_def ae)
  next
    case 3
    obtain s1 k1 o1 where d: "drain (isn + of_nat e) fs = (s1, k1, o1)" by (metis prod_cases3)
    have lt: "\<not> SEQ_LT (seq p) ?s" and at_s: "seq p = ?s" using 3 eqs by simp_all
    have at_e: "?s + of_nat (length (tcp_payload p)) = isn + of_nat e" using sq(2) at_s by simp
    have "receive_data 0 False p (?s, fs) = (TcpMessageHandled, (s1, k1), StreamData (tcp_payload p) 0 (seg_time p) # o1)"
      unfolding receive_data_def Let_def prod.case
      using lt at_s ne f(2) by (simp add: check_unlimited at_e d)
    with r have r': "s' = s1" "fs' = k1" "bytes_of os = tcp_payload p @ bytes_of o1" by auto
    have segs: "\<forall>f \<in> set fs. some_segment isn whole f" using arr by (simp add: arrived_def)
    from drain_segments [OF l sf(3) segs d] obtain k' where
        k': "s1 = isn + of_nat k'" "moves_on isn whole e fs k' k1 o1" by blast
    have "take k whole @ tcp_payload p = take e whole"
      using segment_new_data [OF sf(1), of k] 3 by (simp add: ae off_end_def)
    then have "take k whole @ bytes_of os = take k' whole"
      using k'(2) r'(3) by (simp add: moves_on_def flip: append_assoc)
    moreover have "k \<le> e" "e \<le> k'" using 3 sf(2) k'(2) by (simp_all add: moves_on_def)
    ultimately have "arrived isn whole (ps @ [p]) k' k1 (given @ bytes_of os)"
      using arr k'(2) unfolding arrived_def moves_on_def by (fastforce simp: ae)
    with k'(1) r' show ?thesis by blast
  next
    case 4
    then have "s' = ?s \<and> fs' = fs @ [?f] \<and> os = []" using r eqs ne by (auto simp: receive_data_def Let_def)
    then show ?thesis using arr f by (auto simp: arrived_def)
  qed
qed

lemma receive_all_arrived:
  assumes l: "length whole < 2 ^ 31"
  shows "\<forall>p \<in> set qs. carries isn whole p \<Longrightarrow> arrived isn whole ps k fs given \<Longrightarrow>
     receive_all 0 qs (isn + of_nat k, fs) = ((s', fs'), os) \<Longrightarrow>
     \<exists>k'. s' = isn + of_nat k' \<and> arrived isn whole (ps @ qs) k' fs' (given @ bytes_of os)"
proof (induction qs arbitrary: ps k fs given s' fs' os)
  case Nil
  then show ?case by auto
next
  case (Cons q qs)
  obtain st s1 f1 o1 where r: "receive_data 0 False q (isn + of_nat k, fs) = (st, (s1, f1), o1)"
    using pair_right [of "receive_data 0 False q (isn + of_nat k, fs)"] by blast
  from receive_arrived [OF l _ Cons.prems(2) r] Cons.prems(1) obtain k1 where
      k1: "s1 = isn + of_nat k1" "arrived isn whole (ps @ [q]) k1 f1 (given @ bytes_of o1)" by auto
  obtain s2 f2 o2 where r2: "receive_all 0 qs (isn + of_nat k1, f1) = ((s2, f2), o2)"
    using pair_left [of "receive_all 0 qs (isn + of_nat k1, f1)"] by blast
  have "((s', fs'), os) = ((s2, f2), o1 @ o2)" using Cons.prems(3) r r2 k1(1) by simp
  with Cons.IH [OF _ k1(2) r2] Cons.prems(1) show ?case by auto
qed

text \<open>Cleaning a list whose fragments, with what was handed over, cover the stream.\<close>

lemma check_covered:
  assumes l: "length whole < 2 ^ 31" and a: "arrived isn whole ps k fs given"
    and c: "\<forall>i < length whole. \<exists>p \<in> set ps. off isn (frag_of p) \<le> i \<and> i < off_end isn (frag_of p)"
  shows "\<exists>os. checkOutOfOrderFragments 0 True (isn + of_nat k) fs = (isn + of_nat (length whole), [], os)
     \<and> given @ bytes_of os = whole"
proof -
  obtain s1 k1 o1 where d: "drain (isn + of_nat k) fs = (s1, k1, o1)" by (metis prod_cases3)
  have k: "k \<le> length whole" and segs: "\<forall>f \<in> set fs. some_segment isn whole f"
    using a by (simp_all add: arrived_def)
  from drain_segments [OF l k segs d] obtain n where
      n: "s1 = isn + of_nat n" "moves_on isn whole k fs n k1 o1" "\<forall>f \<in> set k1. n < off isn f" by blast
  have "n = length whole"
  proof (rule ccontr)
    assume "n \<noteq> length whole"
    then have "n < length whole" using n(2) by (simp add: moves_on_def)
    with c obtain p where p: "p \<in> set ps" "off isn (frag_of p) \<le> n" "n < off_end isn (frag_of p)" by blast
    then have "frag_of p \<in> set fs" using a n(2) by (fastforce simp: arrived_def moves_on_def)
    then have "frag_of p \<in> set k1" using n(2) p(3) by (fastforce simp: moves_on_def)
    then show False using n(3) p(2) by fastforce
  qed
  have "k1 = []"
  proof (rule ccontr)
    assume "k1 \<noteq> []"
    then obtain f where "f \<in> set k1" by (cases k1) auto
    moreover from this have "some_segment isn whole f" using segs n(2) by (auto simp: moves_on_def)
    ultimately show False
      using n(3) some_segment_off(2,3) [OF _ l, of isn f] \<open>n = length whole\<close> by fastforce
  qed
  moreover have "given @ bytes_of o1 = whole"
    using a n(2) \<open>n = length whole\<close> by (simp add: arrived_def moves_on_def)
  ultimately show ?thesis
    using d n(1) \<open>n = length whole\<close>
    by (simp add: checkOutOfOrderFragments.simps [of 0 True "isn + of_nat k" fs] closest_index_def)
qed

lemma first_syn:
  "synFlag p \<Longrightarrow> tcp_payload p = [] \<Longrightarrow>
     receive_data maxf True p (s, []) = (TcpMessageHandled, (seq p + 1, []), [])"
  by (simp add: receive_data_def)

section \<open>Properties\<close>

text \<open>
  C24. In order: after the SYN of a side, whatever segments of its stream arrive, in
  whatever order, repeated or overlapping, what has been handed to the callback is always a
  beginning of the stream, and the sequence number that is expected next is the one behind it.
\<close>

theorem reassembly_in_order:
  assumes "length whole < 2 ^ 31" "synFlag syn" "tcp_payload syn = []"
    and "\<forall>p \<in> set ps. carries (seq syn + 1) whole p"
    and "receive_data 0 True syn (s0, []) = (st, side, o0)"
    and "receive_all 0 ps side = ((s, fs), os)"
  shows "\<exists>k \<le> length whole. bytes_of os = take k whole \<and> s = seq syn + 1 + of_nat k"
proof -
  have "side = (seq syn + 1 + of_nat 0, [])" using assms(5) first_syn [OF assms(2,3)] by simp
  moreover have "arrived (seq syn + 1) whole [] 0 [] []" by (simp add: arrived_def)
  ultimately show ?thesis
    using receive_all_arrived [OF assms(1,4), of "[]" 0 "[]" "[]"] assms(6)
    by (fastforce simp: arrived_def)
qed

text \<open>
  Nothing is lost: when the segments that arrive cover the whole stream, in whatever
  order, then with the cleaning of the list that a FIN, a RST or data from the other side starts,
  the callback has been given exactly the stream, and nothing is reported as missing and
  nothing is left in the list.
\<close>

theorem reassembly_complete:
  assumes "length whole < 2 ^ 31" "synFlag syn" "tcp_payload syn = []"
    and "\<forall>p \<in> set ps. carries (seq syn + 1) whole p"
    and "\<forall>i < length whole. \<exists>p \<in> set ps. off (seq syn + 1) (frag_of p) \<le> i \<and> i < off_end (seq syn + 1) (frag_of p)"
    and "receive_data 0 True syn (s0, []) = (st, side, o0)"
    and "receive_all 0 ps side = ((s, fs), os)"
  shows "\<exists>os'. checkOutOfOrderFragments 0 True s fs = (seq syn + 1 + of_nat (length whole), [], os')
     \<and> bytes_of os @ bytes_of os' = whole"
proof -
  have side: "side = (seq syn + 1 + of_nat 0, [])" using assms(6) first_syn [OF assms(2,3)] by simp
  have "arrived (seq syn + 1) whole [] 0 [] []" by (simp add: arrived_def)
  from receive_all_arrived [OF assms(1,4) this assms(7) [unfolded side]] obtain k where
      "s = seq syn + 1 + of_nat k" "arrived (seq syn + 1) whole ([] @ ps) k fs ([] @ bytes_of os)" by blast
  with check_covered [OF assms(1) _ assms(5)] show ?thesis by fastforce
qed

definition demo_segment :: "seqno \<Rightarrow> byte list \<Rightarrow> tcp_segment" where
  "demo_segment s d = \<lparr>seq = s, tcp_payload = d, synFlag = False, finOrRst = False, seg_time = (0, 0)\<rparr>"

definition demo_syn :: tcp_segment where
  "demo_syn = \<lparr>seq = 99, tcp_payload = [], synFlag = True, finOrRst = False, seg_time = (0, 0)\<rparr>"

lemma demo_carries:
  "carries 100 [1, 2, 3, 4] (demo_segment 100 [1, 2])" "carries 100 [1, 2, 3, 4] (demo_segment 101 [2, 3, 4])"
  by (auto simp: carries_def demo_segment_def some_segment_def segment_def
      intro: exI [of _ 0] exI [of _ 1])

theorem reassembly_in_order_witness:
  "\<exists>s fs os. receive_all 0 [demo_segment 101 [2, 3, 4], demo_segment 100 [1, 2]] (100, []) = ((s, fs), os)
     \<and> (\<exists>k \<le> length [1 :: byte, 2, 3, 4]. bytes_of os = take k [1, 2, 3, 4])"
proof -
  let ?ps = "[demo_segment 101 [2, 3, 4], demo_segment 100 [1, 2]]"
  obtain s fs os where r: "receive_all 0 ?ps (100, []) = ((s, fs), os)"
    using pair_left [of "receive_all 0 ?ps (100, [])"] by blast
  have "receive_data 0 True demo_syn (0, []) = (TcpMessageHandled, (100, []), [])"
    using first_syn [of demo_syn 0 0] by (simp add: demo_syn_def)
  with reassembly_in_order [of "[1, 2, 3, 4]" demo_syn ?ps 0 _ _ _ s fs os] r demo_carries
  have "\<exists>k \<le> length [1 :: byte, 2, 3, 4]. bytes_of os = take k [1, 2, 3, 4] \<and> s = seq demo_syn + 1 + of_nat k"
    by (fastforce simp: demo_syn_def)
  with r show ?thesis by blast
qed

theorem reassembly_complete_witness:
  "\<exists>s fs os os'. receive_all 0 [demo_segment 101 [2, 3, 4], demo_segment 100 [1, 2]] (100, []) = ((s, fs), os)
     \<and> checkOutOfOrderFragments 0 True s fs = (104, [], os') \<and> bytes_of os @ bytes_of os' = [1, 2, 3, 4]"
proof -
  let ?ps = "[demo_segment 101 [2, 3, 4], demo_segment 100 [1, 2]]"
  obtain s fs os where r: "receive_all 0 ?ps (100, []) = ((s, fs), os)"
    using pair_left [of "receive_all 0 ?ps (100, [])"] by blast
  have q: "receive_data 0 True demo_syn (0, []) = (TcpMessageHandled, (100, []), [])"
    using first_syn [of demo_syn 0 0] by (simp add: demo_syn_def)
  have c: "\<forall>i < length [1 :: byte, 2, 3, 4]. \<exists>p \<in> set ?ps. off (seq demo_syn + 1) (frag_of p) \<le> i
      \<and> i < off_end (seq demo_syn + 1) (frag_of p)"
    by (auto simp: off_end_def off_def demo_segment_def demo_syn_def less_Suc_eq numeral_eq_Suc)
  from reassembly_complete [of "[1, 2, 3, 4]" demo_syn ?ps 0, OF _ _ _ _ c _ , of TcpMessageHandled "(100, [])" "[]" s fs os]
    r q demo_carries show ?thesis by (fastforce simp: demo_syn_def)
qed

end
