(* ===== verification/ByteOrder.thy ===== *)
theory ByteOrder
  imports Prelude
begin

text \<open>
  Bytes of words on a little-endian host, and the functions that turn the byte order: \<open>be32toh\<close>
  and \<open>htobe32\<close> are one function, and so are \<open>ntohs\<close> and \<open>htons\<close>.
\<close>

unbundle bit_operations_syntax

section \<open>Words and their bytes\<close>

definition bytes16 :: "16 word \<Rightarrow> byte list" where
  "bytes16 w = [ucast w, ucast (drop_bit 8 w)]"

definition bytes32 :: "32 word \<Rightarrow> byte list" where
  "bytes32 w = [ucast w, ucast (drop_bit 8 w), ucast (drop_bit 16 w), ucast (drop_bit 24 w)]"

text \<open>\<open>be32toh\<close> and \<open>htobe32\<close>: the four bytes in the opposite order.\<close>

definition be32toh :: "32 word \<Rightarrow> 32 word" where
  "be32toh w = push_bit 24 (take_bit 8 w) OR push_bit 16 (take_bit 8 (drop_bit 8 w))
     OR push_bit 8 (take_bit 8 (drop_bit 16 w)) OR take_bit 8 (drop_bit 24 w)"

text \<open>A word read from four bytes of memory.\<close>

definition le32 :: "byte list \<Rightarrow> 32 word" where
  "le32 bs = ucast (bs ! 0) OR push_bit 8 (ucast (bs ! 1)) OR push_bit 16 (ucast (bs ! 2)) OR push_bit 24 (ucast (bs ! 3))"

section \<open>Bits\<close>

lemma bit_range: "bit (w :: 'a::len word) n \<Longrightarrow> n < LENGTH('a)"
  by (rule bit_imp_le_length)

lemma bit_be32toh:
  "bit (be32toh w) n \<longleftrightarrow> (if n < 8 then bit w (n + 24) else if n < 16 then bit w (n + 8)
     else if n < 24 then bit w (n - 8) else n < 32 \<and> bit w (n - 24))"
proof -
  consider "n < 8" | "8 \<le> n" "n < 16" | "16 \<le> n" "n < 24" | "24 \<le> n" "n < 32" | "32 \<le> n" by linarith
  then show ?thesis
  proof cases
    case 5
    then show ?thesis by (auto dest: bit_range)
  qed (auto simp: be32toh_def bit_simps add.commute dest: bit_range)
qed

lemma be32toh_be32toh [simp]: "be32toh (be32toh w) = w"
proof (rule bit_word_eqI)
  fix n
  assume "n < LENGTH(32)"
  then have "n < 8 \<or> 8 \<le> n \<and> n < 16 \<or> (\<exists>m < 8. n = m + 16) \<or> (\<exists>m < 8. n = m + 24)"
    by simp presburger
  then show "bit (be32toh (be32toh w)) n = bit w n"
    by (auto simp: bit_be32toh)
qed

lemma ntohs_bits: "ntohs w = push_bit 8 (take_bit 8 w) OR drop_bit 8 w"
proof -
  have "ntohs w = word_of_nat (push_bit 8 (take_bit 8 (unat w)) OR drop_bit 8 (unat w))"
  proof -
    have "push_bit 8 (take_bit 8 (unat w)) OR drop_bit 8 (unat w) = push_bit 8 (take_bit 8 (unat w)) + drop_bit 8 (unat w)"
    proof (rule disjunctive_add [symmetric])
      fix n
      have "drop_bit 8 (unat w) < 2 ^ 8" using unat_u16_less [of w] by (simp add: drop_bit_eq_div)
      then show "\<not> bit (push_bit 8 (take_bit 8 (unat w))) n \<or> \<not> bit (drop_bit 8 (unat w)) n"
        by (metis bit_push_bit_iff bit_take_bit_iff not_le take_bit_nat_eq_self_iff)
    qed
    then show ?thesis by (simp add: ntohs_def push_bit_eq_mult take_bit_eq_mod drop_bit_eq_div)
  qed
  also have "\<dots> = push_bit 8 (take_bit 8 w) OR drop_bit 8 w"
    by (rule bit_word_eqI) (auto simp: bit_simps)
  finally show ?thesis .
qed

lemma bit_ntohs: "bit (ntohs w) n \<longleftrightarrow> (if n < 8 then bit w (n + 8) else n < 16 \<and> bit w (n - 8))"
proof -
  consider "n < 8" | "8 \<le> n" "n < 16" | "16 \<le> n" by linarith
  then show ?thesis
    by cases (auto simp: ntohs_bits bit_simps add.commute dest: bit_range)
qed

lemma bits_16: "(\<forall>n \<in> set [0..<16]. bit (w :: int) n = P n) \<Longrightarrow> n < 16 \<Longrightarrow> bit w n = P n"
  by simp

lemma htons_ntohs: "htons = ntohs"
  by (simp add: htons_def ntohs_def fun_eq_iff)

lemma ntohs_ntohs [simp]: "ntohs (ntohs w) = w"
  using ntohs_htons [of w] by (simp add: htons_ntohs)

lemma length_bytes [simp]: "length (bytes16 v) = 2" "length (bytes32 w) = 4"
  by (simp_all add: bytes16_def bytes32_def)

lemma bit_le32:
  "bit (le32 [a, b, c, d]) n \<longleftrightarrow> (if n < 8 then bit a n else if n < 16 then bit b (n - 8)
     else if n < 24 then bit c (n - 16) else n < 32 \<and> bit d (n - 24))"
proof -
  have l: "le32 [a, b, c, d] = ucast a OR push_bit 8 (ucast b) OR push_bit 16 (ucast c) OR push_bit 24 (ucast d)"
    by (simp add: le32_def)
  have r: "bit (x :: 8 word) m \<Longrightarrow> m < 8" for x m using bit_range [of x m] by simp
  consider "n < 8" | "8 \<le> n" "n < 16" | "16 \<le> n" "n < 24" | "24 \<le> n" "n < 32" | "32 \<le> n" by linarith
  then show ?thesis
    by cases (auto simp: l bit_simps dest: r)
qed

lemma le32_bytes32 [simp]: "le32 (bytes32 w) = w"
proof (rule bit_word_eqI)
  fix n
  assume "n < LENGTH(32)"
  then consider "n < 8" | "8 \<le> n" "n < 16" | "16 \<le> n" "n < 24" | "24 \<le> n" "n < 32" by fastforce
  then show "bit (le32 (bytes32 w)) n = bit w n"
    unfolding bytes32_def bit_le32 by cases (auto simp: bit_simps)
qed

end
