(* ===== verification/PacketUtils.thy ===== *)
theory PacketUtils
  imports ByteOrder
begin

text \<open>
  The helpers of \<open>Packet++/PacketUtils.cpp\<close>: the Internet checksum over a list of buffers and the
  hashes that name a flow. Sums of type \<open>uint32_t\<close> are natural numbers with the wrap-around
  written out; the host is little-endian.
\<close>

unbundle bit_operations_syntax

section \<open>The checksum\<close>

text \<open>A \<open>uint16_t\<close> read from memory, and \<open>be16toh\<close>.\<close>

definition le16 :: "byte \<Rightarrow> byte \<Rightarrow> nat" where
  "le16 a b = unat a + 256 * unat b"

definition be16toh :: "nat \<Rightarrow> nat" where
  "be16toh x = (x mod 256) * 256 + (x div 256) mod 256"

fun local_sum :: "nat \<Rightarrow> byte list \<Rightarrow> nat" where
  "local_sum acc (a # b # bs) = local_sum ((acc + le16 a b) mod 2 ^ 32) bs"
| "local_sum acc [a] = (acc + unat a) mod 2 ^ 32"
| "local_sum acc [] = acc"

text \<open>\<open>while (sum >> 16) sum = (sum & 0xffff) + (sum >> 16)\<close>.\<close>

function fold_carry :: "nat \<Rightarrow> nat" where
  "fold_carry x = (if x div 2 ^ 16 = 0 then x else fold_carry (x mod 2 ^ 16 + x div 2 ^ 16))"
  by pat_completeness auto
termination
proof (relation "measure id")
  fix x :: nat
  assume "x div 2 ^ 16 \<noteq> 0"
  then have "x div 65536 > 0" by simp
  with div_mult_mod_eq [of x 65536] have "x mod 65536 + x div 65536 < x" by linarith
  then show "(x mod 2 ^ 16 + x div 2 ^ 16, x) \<in> measure id" by simp
qed simp

declare fold_carry.simps [simp del]

definition computeChecksum :: "byte list list \<Rightarrow> nat" where
  "computeChecksum vec =
     (let sum = fold (\<lambda>v sum. (sum + be16toh (fold_carry (local_sum 0 v))) mod 2 ^ 32) vec 0
      in (2 ^ 32 - 1 - fold_carry sum) mod 2 ^ 16)"

section \<open>Hashes of a flow\<close>

definition FNV_PRIME :: "32 word" where "FNV_PRIME = 16777619"
definition OFFSET_BASIS :: "32 word" where "OFFSET_BASIS = 2166136261"

definition fnv_step :: "byte \<Rightarrow> 32 word \<Rightarrow> 32 word" where
  "fnv_step b h = (h * FNV_PRIME) XOR ucast b"

definition fnvHash :: "byte list list \<Rightarrow> 32 word" where
  "fnvHash vec = fold (\<lambda>v h. fold fnv_step v h) vec OFFSET_BASIS"

text \<open>
  What the hashes read of a packet: its first IP layer, with the addresses as the header holds
  them, and the ports of its last TCP or else UDP layer, in network byte order.
\<close>

datatype net_header =
    IPv4Header "32 word" "32 word" byte
  | IPv6Header "byte list" "byte list" byte

record flow_packet =
  net :: "net_header option"
  is_icmp :: bool
  ports :: "(16 word \<times> 16 word) option"

text \<open>
  The comparison of the IPv6 addresses is one of the places of the two arrays, which stand in one
  header at the offsets 8 and 24.
\<close>

definition ipv6_dst_before_src :: bool where
  "ipv6_dst_before_src \<longleftrightarrow> (24 :: nat) < 8"

text \<open>The entries \<open>n + position\<close> and \<open>n + 1 - position\<close> of the vector.\<close>

definition placed :: "bool \<Rightarrow> 'a \<Rightarrow> 'a \<Rightarrow> 'a list" where
  "placed swapped src dst = (if swapped then [dst, src] else [src, dst])"

definition hash5Tuple :: "flow_packet \<Rightarrow> bool \<Rightarrow> 32 word" where
  "hash5Tuple p directionUnique =
     (case net p of
        None \<Rightarrow> 0
      | Some hdr \<Rightarrow>
          if is_icmp p then 0
          else case ports p of
            None \<Rightarrow> 0
          | Some (portSrc, portDst) \<Rightarrow>
              let swapped = (\<not> directionUnique \<and> portDst < portSrc);
                  vec = placed swapped (bytes16 portSrc) (bytes16 portDst)
              in (case hdr of
                    IPv4Header ipSrc ipDst proto \<Rightarrow>
                      let swapped = (swapped \<or> portSrc = portDst \<and> ipDst < ipSrc)
                      in fnvHash (vec @ placed swapped (bytes32 ipSrc) (bytes32 ipDst) @ [[proto]])
                  | IPv6Header ipSrc ipDst nextHeader \<Rightarrow>
                      let swapped = (swapped \<or> portSrc = portDst \<and> ipv6_dst_before_src)
                      in fnvHash (vec @ placed swapped ipSrc ipDst @ [[nextHeader]])))"

definition hash2Tuple :: "flow_packet \<Rightarrow> 32 word" where
  "hash2Tuple p =
     (case net p of
        None \<Rightarrow> 0
      | Some (IPv4Header ipSrc ipDst proto) \<Rightarrow>
          fnvHash (placed (ipDst < ipSrc) (bytes32 ipSrc) (bytes32 ipDst))
      | Some (IPv6Header ipSrc ipDst nextHeader) \<Rightarrow>
          fnvHash (placed (ipv6_dst_before_src \<and> ipv6_dst_before_src) ipSrc ipDst))"

section \<open>The checksum of RFC 1071\<close>

text \<open>
  The reference: the sum of the big-endian words of each buffer, an odd byte padded with zero,
  brought to 16 bits by adding the carries back, that is modulo 65535 with zero only for zero.
\<close>

fun be_sum :: "byte list \<Rightarrow> nat" where
  "be_sum (a # b # bs) = 256 * unat a + unat b + be_sum bs"
| "be_sum [a] = 256 * unat a"
| "be_sum [] = 0"

definition ones_sum :: "nat \<Rightarrow> nat" where
  "ones_sum n = (if n = 0 then 0 else (n - 1) mod 65535 + 1)"

lemma ones_sum_bounds: "ones_sum n \<le> 65535" "ones_sum n = 0 \<longleftrightarrow> n = 0"
  by (simp_all add: ones_sum_def Suc_le_eq)

lemma ones_sum_unique:
  assumes "m \<le> 65535" "m = 0 \<longleftrightarrow> n = 0" "m mod 65535 = n mod 65535"
  shows "m = ones_sum n"
proof (cases "n = 0")
  case True
  then show ?thesis using assms by (simp add: ones_sum_def)
next
  case False
  have "((n - 1) mod 65535 + 1) mod 65535 = n mod 65535"
    using False by (simp add: mod_simps)
  then have "((n - 1) mod 65535 + 1) mod 65535 = m mod 65535" using assms(3) by simp
  moreover have "(n - 1) mod 65535 + 1 \<le> 65535" "0 < m" using False assms(2) by (simp_all add: Suc_le_eq)
  ultimately have "(n - 1) mod 65535 + 1 = m"
    using assms(1) by (cases "m = 65535"; cases "(n - 1) mod 65535 + 1 = 65535") auto
  then show ?thesis using False by (simp add: ones_sum_def)
qed

lemma ones_sum_mod: "ones_sum n mod 65535 = n mod 65535"
proof (cases "n = 0")
  case False
  have "ones_sum n mod 65535 = (n - 1 + 1) mod 65535" using False by (simp only: ones_sum_def if_False mod_add_left_eq)
  with False show ?thesis by simp
qed (simp add: ones_sum_def)

lemma ones_sum_cong: "m mod 65535 = n mod 65535 \<Longrightarrow> (m = 0 \<longleftrightarrow> n = 0) \<Longrightarrow> ones_sum m = ones_sum n"
  using ones_sum_unique [of "ones_sum m" n] ones_sum_bounds [of m] ones_sum_mod [of m] by simp

lemma fold_carry_ones: "fold_carry n = ones_sum n"
proof (induction n rule: fold_carry.induct)
  case (1 x)
  show ?case
  proof (cases "x div 2 ^ 16 = 0")
    case True
    then have "x < 65536" by (simp add: div_eq_0_iff)
    then have "x = ones_sum x" by (intro ones_sum_unique) auto
    then show ?thesis using True by (simp add: fold_carry.simps [of x])
  next
    case False
    let ?y = "x mod 2 ^ 16 + x div 2 ^ 16"
    have "x = ?y + 65535 * (x div 2 ^ 16)" by (simp add: algebra_simps flip: mult.assoc) 
    then have "?y mod 65535 = x mod 65535" by (metis mod_mult_self2)
    moreover have "?y = 0 \<longleftrightarrow> x = 0" using False by auto
    ultimately have "ones_sum ?y = ones_sum x" by (rule ones_sum_cong)
    then show ?thesis using 1 False by (simp add: fold_carry.simps [of x])
  qed
qed

text \<open>Little-endian words have the sum of the big-endian ones up to a swap of the bytes.\<close>

fun le_sum :: "byte list \<Rightarrow> nat" where
  "le_sum (a # b # bs) = le16 a b + le_sum bs"
| "le_sum [a] = unat a"
| "le_sum [] = 0"

lemma byte_le [simp]: "unat (a :: byte) \<le> 255"
  using unsigned_less [of a, where 'a = nat] by simp

lemma le_sum_bound: "le_sum bs \<le> 65535 * ((length bs + 1) div 2)"
proof (induction bs rule: le_sum.induct)
  case (1 a b bs)
  have "le16 a b \<le> 65535" unfolding le16_def using byte_le [of a] byte_le [of b] by linarith
  with 1 show ?case by simp
next
  case (2 a)
  show ?case using order_trans [OF byte_le [of a], of 65535] by simp
qed simp

lemma local_sum_exact: "acc + le_sum bs < 2 ^ 32 \<Longrightarrow> local_sum acc bs = acc + le_sum bs"
  by (induction acc bs rule: local_sum.induct) simp_all

lemma le_sum_be_sum: "(le_sum bs * 256) mod 65535 = be_sum bs mod 65535"
proof (induction bs rule: be_sum.induct)
  case (1 a b bs)
  have "le_sum (a # b # bs) * 256 = (256 * unat a + unat b + le_sum bs * 256) + 65535 * unat b"
    by (simp add: le16_def algebra_simps)
  then have "(le_sum (a # b # bs) * 256) mod 65535 = (256 * unat a + unat b + le_sum bs * 256) mod 65535"
    by (metis mod_mult_self2)
  also have "\<dots> = (256 * unat a + unat b + be_sum bs) mod 65535"
    using 1 by (metis mod_add_right_eq)
  finally show ?case by simp
qed (simp_all add: mult.commute)

lemma be16toh_mod: "x \<le> 65535 \<Longrightarrow> be16toh x mod 65535 = (x * 256) mod 65535"
proof -
  assume x: "x \<le> 65535"
  then have "x div 256 mod 256 = x div 256" by (simp add: div_less_dividend less_mult_imp_div_less)
  then have "x * 256 = be16toh x + 65535 * (x div 256)"
    using div_mult_mod_eq [of x 256] unfolding be16toh_def by linarith
  then show ?thesis by (metis mod_mult_self2)
qed

lemma be16toh_zero: "x \<le> 65535 \<Longrightarrow> be16toh x = 0 \<longleftrightarrow> x = 0"
  by (auto simp: be16toh_def)

lemma be_sum_zero: "be_sum bs = 0 \<longleftrightarrow> le_sum bs = 0"
  by (induction bs rule: be_sum.induct) (simp_all add: le16_def)

text \<open>One buffer: what the first loop adds is the reference sum of that buffer, reduced.\<close>

lemma buffer_sum:
  assumes "length bs < 2 ^ 17"
  shows "be16toh (fold_carry (local_sum 0 bs)) mod 65535 = be_sum bs mod 65535"
    and "be16toh (fold_carry (local_sum 0 bs)) = 0 \<longleftrightarrow> be_sum bs = 0"
    and "be16toh (fold_carry (local_sum 0 bs)) \<le> 65535"
proof -
  have "(length bs + 1) div 2 \<le> 2 ^ 16" using assms by simp
  then have "le_sum bs < 2 ^ 32" using le_sum_bound [of bs] by simp
  then have l: "fold_carry (local_sum 0 bs) = ones_sum (le_sum bs)"
    by (simp add: local_sum_exact fold_carry_ones)
  have b: "ones_sum (le_sum bs) \<le> 65535" by (rule ones_sum_bounds)
  show "be16toh (fold_carry (local_sum 0 bs)) mod 65535 = be_sum bs mod 65535"
    unfolding l be16toh_mod [OF b] by (metis le_sum_be_sum ones_sum_mod mod_mult_left_eq)
  show "be16toh (fold_carry (local_sum 0 bs)) = 0 \<longleftrightarrow> be_sum bs = 0"
    unfolding l be16toh_zero [OF b] by (simp add: ones_sum_bounds be_sum_zero)
  have "x mod 256 \<le> 255" for x :: nat by (simp add: Suc_leI less_Suc_eq_le [symmetric])
  from add_mono [OF mult_le_mono1 [OF this, of _ 256] this] show "be16toh (fold_carry (local_sum 0 bs)) \<le> 65535"
    unfolding be16toh_def by fastforce
qed

text \<open>The loop over the buffers, while the sum of the reduced sums stays in 32 bits.\<close>

definition short_buffers :: "byte list list \<Rightarrow> bool" where
  "short_buffers vec \<longleftrightarrow> length vec < 2 ^ 16 \<and> (\<forall>v \<in> set vec. length v < 2 ^ 17)"

lemma buffers_sum:
  "\<forall>v \<in> set vec. length v < 2 ^ 17 \<Longrightarrow> s + 65535 * length vec < 2 ^ 32 \<Longrightarrow>
     (let r = fold (\<lambda>v sum. (sum + be16toh (fold_carry (local_sum 0 v))) mod 2 ^ 32) vec s
      in r mod 65535 = (s + sum_list (map be_sum vec)) mod 65535
         \<and> (r = 0 \<longleftrightarrow> s + sum_list (map be_sum vec) = 0))"
proof (induction vec arbitrary: s)
  case (Cons v vec)
  let ?b = "be16toh (fold_carry (local_sum 0 v))"
  have v: "length v < 2 ^ 17" using Cons.prems(1) by simp
  note one = buffer_sum [OF v]
  have fits: "s + ?b + 65535 * length vec < 2 ^ 32" using Cons.prems(2) one(3) by simp
  then have small: "(s + ?b) mod 2 ^ 32 = s + ?b" by simp
  let ?r = "fold (\<lambda>v sum. (sum + be16toh (fold_carry (local_sum 0 v))) mod 2 ^ 32) vec (s + ?b)"
  have IH: "?r mod 65535 = (s + ?b + sum_list (map be_sum vec)) mod 65535"
      "?r = 0 \<longleftrightarrow> s + ?b + sum_list (map be_sum vec) = 0"
    using Cons.IH [OF _ fits] Cons.prems(1) by (auto simp: Let_def)
  have "(s + ?b + sum_list (map be_sum vec)) mod 65535 = (s + be_sum v + sum_list (map be_sum vec)) mod 65535"
    using one(1) by (metis mod_add_cong)
  with IH one(2) small show ?case by (simp add: Let_def add.assoc)
qed simp

lemma checksum_eq:
  assumes "short_buffers vec"
  shows "computeChecksum vec = 65535 - ones_sum (sum_list (map be_sum vec))"
proof -
  let ?r = "fold (\<lambda>v sum. (sum + be16toh (fold_carry (local_sum 0 v))) mod 2 ^ 32) vec 0"
  have "0 + 65535 * length vec < 2 ^ 32" using assms by (simp add: short_buffers_def)
  with buffers_sum [of vec 0] assms have "?r mod 65535 = sum_list (map be_sum vec) mod 65535"
      "?r = 0 \<longleftrightarrow> sum_list (map be_sum vec) = 0"
    by (simp_all add: short_buffers_def Let_def)
  then have r: "fold_carry ?r = ones_sum (sum_list (map be_sum vec))"
    unfolding fold_carry_ones by (intro ones_sum_cong) simp_all
  have "(2 ^ 32 - 1 - n) mod 2 ^ 16 = 65535 - n" if "n \<le> 65535" for n :: nat
  proof -
    have "2 ^ 32 - 1 - n = 65535 - n + 65535 * 2 ^ 16" using that by simp
    then have "(2 ^ 32 - 1 - n) mod 2 ^ 16 = (65535 - n) mod 2 ^ 16" by (metis mod_mult_self1)
    then show ?thesis by simp
  qed
  from this [OF ones_sum_bounds(1)] show ?thesis by (simp only: computeChecksum_def Let_def r)
qed

lemma be_sum_append: "even (length xs) \<Longrightarrow> be_sum (xs @ ys) = be_sum xs + be_sum ys"
  by (induction xs rule: be_sum.induct) simp_all

text \<open>The checksum as the two bytes of a header.\<close>

definition checksum_bytes :: "nat \<Rightarrow> byte list" where
  "checksum_bytes c = [of_nat (c div 256), of_nat (c mod 256)]"

lemma be_sum_bytes: "c \<le> 65535 \<Longrightarrow> be_sum (checksum_bytes c @ bs) = c + be_sum bs"
proof -
  assume "c \<le> 65535"
  then have "c div 256 < 256" by (simp add: less_mult_imp_div_less)
  then show ?thesis by (simp add: checksum_bytes_def unat_of_nat mult.commute)
qed

lemma ones_sum_complement: "0 < n \<Longrightarrow> ones_sum (n + (65535 - ones_sum n)) = 65535"
proof -
  assume n: "0 < n"
  have "ones_sum n \<le> n" using n by (simp add: ones_sum_def)
  then have "n + (65535 - ones_sum n) = 65535 + (n - ones_sum n)" using ones_sum_bounds [of n] by simp
  moreover have "(n - ones_sum n) mod 65535 = 0"
    using ones_sum_mod [of n] \<open>ones_sum n \<le> n\<close> by (metis mod_eq_dvd_iff_nat dvd_imp_mod_0)
  ultimately have "65535 mod 65535 = (n + (65535 - ones_sum n)) mod 65535" by simp
  then show ?thesis using n by (intro ones_sum_unique [symmetric]) auto
qed

section \<open>Properties\<close>

text \<open>
  C8. The checksum is that of RFC 1071: for up to 65535 buffers of less than 128 KiB each,
  the value the function returns is the complement of the one's complement sum of the
  big-endian words of the buffers, although it adds little-endian words and swaps the sums; no
  sum on the way wraps around.
\<close>

theorem checksum_rfc1071:
  assumes "short_buffers vec"
  shows "computeChecksum vec = 65535 - ones_sum (sum_list (map be_sum vec))"
  using assms by (rule checksum_eq)

theorem checksum_rfc1071_witness:
  "computeChecksum [[0x45, 0, 0, 0x1c], [0x0a]] = 65535 - ones_sum (sum_list (map be_sum [[0x45, 0, 0, 0x1c], [0x0a]]))"
  by (rule checksum_rfc1071) (simp add: short_buffers_def)

text \<open>
  A receiver accepts what a sender has filled in: when the checksum is computed with zero in
  its field, at an even place of some buffer, and then stored there in network byte order, the
  same computation over the filled buffers gives zero, unless all bytes are zero.
\<close>

theorem checksum_verifies:
  assumes "short_buffers (vs @ (xs @ [0, 0] @ ys) # ws)" "even (length xs)"
    and "sum_list (map be_sum (vs @ (xs @ [0, 0] @ ys) # ws)) > 0"
  shows "computeChecksum (vs @ (xs @ checksum_bytes (computeChecksum (vs @ (xs @ [0, 0] @ ys) # ws)) @ ys) # ws) = 0"
proof -
  let ?c = "computeChecksum (vs @ (xs @ [0, 0] @ ys) # ws)"
  let ?n = "sum_list (map be_sum (vs @ (xs @ [0, 0] @ ys) # ws))"
  have c: "?c = 65535 - ones_sum ?n" by (rule checksum_eq [OF assms(1)])
  have le: "?c \<le> 65535" unfolding c by (rule diff_le_self)
  have "be_sum (xs @ checksum_bytes ?c @ ys) = be_sum (xs @ [0, 0] @ ys) + ?c"
    using be_sum_bytes [OF le, of ys] by (simp add: be_sum_append [OF assms(2)])
  then have "sum_list (map be_sum (vs @ (xs @ checksum_bytes ?c @ ys) # ws)) = ?n + ?c" by simp
  moreover have "short_buffers (vs @ (xs @ checksum_bytes ?c @ ys) # ws)"
    using assms(1) by (auto simp: short_buffers_def checksum_bytes_def)
  ultimately have "computeChecksum (vs @ (xs @ checksum_bytes ?c @ ys) # ws) = 65535 - ones_sum (?n + ?c)"
    by (simp only: checksum_eq)
  also have "\<dots> = 0" unfolding c ones_sum_complement [OF assms(3)] by simp
  finally show ?thesis .
qed

theorem checksum_verifies_witness:
  "computeChecksum [[0x45, 0] @ checksum_bytes (computeChecksum [[0x45, 0] @ [0, 0] @ [0x40]]) @ [0x40]] = 0"
  using checksum_verifies [of "[]" "[0x45, 0]" "[0x40]" "[]"] by (simp add: short_buffers_def)

text \<open>The same packet in the other direction.\<close>

fun turned :: "net_header \<Rightarrow> net_header" where
  "turned (IPv4Header s d p) = IPv4Header d s p"
| "turned (IPv6Header s d p) = IPv6Header d s p"

definition reply_of :: "flow_packet \<Rightarrow> flow_packet" where
  "reply_of p = p\<lparr>net := map_option turned (net p), ports := map_option prod.swap (ports p)\<rparr>"

text \<open>
  Both directions of a connection have one key: the hash of the five fields, made without
  regard to the direction, is the same for a packet and for one from the other side, over IPv4
  always and over IPv6 when the two ports differ.
\<close>

theorem hash5_direction_free:
  assumes "\<And>s d n. net p = Some (IPv6Header s d n) \<Longrightarrow> ports p = Some (a, b) \<Longrightarrow> a \<noteq> b"
    and "ports p = Some (a, b)"
  shows "hash5Tuple (reply_of p) False = hash5Tuple p False"
proof (cases "net p")
  case None
  then show ?thesis by (simp add: hash5Tuple_def reply_of_def)
next
  case (Some h)
  show ?thesis
  proof (cases h)
    case (IPv4Header s d n)
    consider "a < b" | "b < a" | "a = b" "s < d" | "a = b" "d < s" | "a = b" "s = d"
      by (metis linorder_cases)
    then show ?thesis
      using Some IPv4Header assms(2) by cases (auto simp: hash5Tuple_def reply_of_def placed_def Let_def)
  next
    case (IPv6Header s d n)
    with Some assms have "a < b \<or> b < a" by (metis linorder_cases)
    then show ?thesis
      using Some IPv6Header assms(2) by (auto simp: hash5Tuple_def reply_of_def placed_def Let_def)
  qed
qed

theorem hash5_direction_free_witness:
  "hash5Tuple \<lparr>net = Some (IPv4Header 7 9 6), is_icmp = False, ports = Some (80, 5000)\<rparr> False
   = hash5Tuple \<lparr>net = Some (IPv4Header 9 7 6), is_icmp = False, ports = Some (5000, 80)\<rparr> False"
  using hash5_direction_free [of "\<lparr>net = Some (IPv4Header 9 7 6), is_icmp = False, ports = Some (5000, 80)\<rparr>" 5000 80]
  by (simp add: reply_of_def)

text \<open>
  Over IPv6 with equal ports the key depends on the direction: the addresses are compared by
  their places in the header, so they are never put in order.
\<close>

lemma hash5_ipv6_two_keys:
  "let p = \<lparr>net = Some (IPv6Header (replicate 16 1) (replicate 16 2) 6), is_icmp = False, ports = Some (5, 5)\<rparr>
   in hash5Tuple (reply_of p) False \<noteq> hash5Tuple p False"
  by code_simp

end
