(* ===== verification/OrderedMap.thy ===== *)
theory OrderedMap
  imports Prelude
begin

text \<open>
  \<open>std::map\<close> as the list of its entries in the order of their keys: insertion (or assignment)
  under a key, erasing a key, and the facts on them that the components share. Looking a key up is
  \<open>map_of\<close>.
\<close>

section \<open>Insertion and erasing\<close>

fun insert_key :: "'k::linorder \<Rightarrow> 'v \<Rightarrow> ('k \<times> 'v) list \<Rightarrow> ('k \<times> 'v) list" where
  "insert_key k v [] = [(k, v)]"
| "insert_key k v ((k', v') # m) =
     (if k < k' then (k, v) # (k', v') # m else if k = k' then (k, v) # m else (k', v') # insert_key k v m)"

definition erase_key :: "'k \<Rightarrow> ('k \<times> 'v) list \<Rightarrow> ('k \<times> 'v) list" where
  "erase_key k m = filter (\<lambda>e. fst e \<noteq> k) m"

definition sorted_keys :: "('k::linorder \<times> 'v) list \<Rightarrow> bool" where
  "sorted_keys m \<longleftrightarrow> sorted_wrt (<) (map fst m)"

lemma map_of_insert_key [simp]: "map_of (insert_key k v m) = (map_of m)(k \<mapsto> v)"
  by (induction k v m rule: insert_key.induct) auto

lemma keys_insert_key [simp]: "fst ` set (insert_key k v m) = insert k (fst ` set m)"
  by (induction k v m rule: insert_key.induct) auto

lemma sorted_insert_key [simp]: "sorted_keys m \<Longrightarrow> sorted_keys (insert_key k v m)"
proof (induction k v m rule: insert_key.induct)
  case (2 k v k' v' m)
  have "\<forall>y \<in> fst ` set (insert_key k v m). k' < y" if "k' < k"
    using 2(2) that by (auto simp: sorted_keys_def)
  with 2 show ?case by (auto simp: sorted_keys_def)
qed (simp add: sorted_keys_def)

lemma sorted_filter: "sorted_keys m \<Longrightarrow> sorted_keys (filter P m)"
  by (induction m) (auto simp: sorted_keys_def)

lemma fold_erase_key: "fold erase_key ks m = filter (\<lambda>e. fst e \<notin> set ks) m"
  by (induction ks arbitrary: m) (auto simp: erase_key_def intro: filter_cong)

lemma map_of_erase: "map_of (fold erase_key ks m) = (map_of m) |` (- set ks)"
proof -
  have "map_of (filter (\<lambda>e. fst e \<notin> set ks) m) = (map_of m) |` (- set ks)"
    by (induction m) (auto simp: restrict_map_def)
  then show ?thesis by (simp add: fold_erase_key)
qed

lemma sorted_distinct: "sorted_keys m \<Longrightarrow> distinct (map fst m)"
  by (simp add: sorted_keys_def strict_sorted_iff)

lemma sorted_Nil [simp]: "sorted_keys []"
  by (simp add: sorted_keys_def)

lemma length_insert_key:
  "sorted_keys m \<Longrightarrow> length (insert_key k v m) = (if k \<in> fst ` set m then length m else Suc (length m))"
  by (induction k v m rule: insert_key.induct) (auto simp: sorted_keys_def)

lemma map_of_erase_key: "map_of (erase_key k m) = (map_of m)(k := None)"
  unfolding erase_key_def by (induction m) auto

lemma keys_erase_key: "fst ` set (erase_key k m) = fst ` set m - {k}"
  by (auto simp: erase_key_def)

lemma sorted_erase_key: "sorted_keys m \<Longrightarrow> sorted_keys (erase_key k m)"
  by (simp add: erase_key_def sorted_filter)

lemma length_erase_key:
  "sorted_keys m \<Longrightarrow> length (erase_key k m) = (if k \<in> fst ` set m then length m - 1 else length m)"
proof (induction m)
  case (Cons e m)
  have "erase_key k m = m" if "k \<notin> fst ` set m"
    using that by (auto simp: erase_key_def filter_id_conv)
  moreover have "k \<in> fst ` set m \<Longrightarrow> length m > 0" by auto
  ultimately show ?case using Cons by (auto simp: sorted_keys_def erase_key_def)
qed (simp add: erase_key_def)

end
