(* ===== verification/TcpReassembly.thy ===== *)
theory TcpReassembly
  imports OutOfOrder PacketUtils OrderedMap Machine "HOL-Library.Multiset"
begin

text \<open>
  The connections of \<open>Packet++/TcpReassembly.cpp\<close>: two sides each, found by the hash of the
  packet, closed by FIN or RST on both sides or by the user, and removed some time later. The
  callbacks are the outputs, the data callback with the side and the data (the record of the
  connection that goes along is the one under the key); they do not call the object again. The
  clock is part of an event. The maps, which iterate by key, are lists in the order of their keys.
\<close>

section \<open>State\<close>

datatype ip_address = IPv4Address "32 word" | IPv6Address "128 word"

text \<open>\<open>isValid\<close>: not the unspecified address.\<close>

definition valid_ip :: "ip_address \<Rightarrow> bool" where
  "valid_ip a \<longleftrightarrow> a \<noteq> IPv4Address 0 \<and> a \<noteq> IPv6Address 0"

record conn_data =
  cd_src :: ip_address
  cd_dst :: ip_address
  cd_srcPort :: "16 word"
  cd_dstPort :: "16 word"
  cd_flowKey :: "32 word"
  startTime :: timeval
  endTime :: timeval

record one_side =
  side_ip :: ip_address
  side_port :: "16 word"
  side_seq :: seqno
  fragmentList :: "tcp_fragment list"
  gotFinOrRst :: bool

text \<open>\<open>prevSide\<close> and the sides are indexed from 0; \<open>-1\<close> is no side.\<close>

record conn =
  closed :: bool
  numOfSides :: int
  prevSide :: int
  twoSides :: "int \<Rightarrow> one_side"
  connData :: conn_data

datatype end_reason = ClosedByFIN_RST | ClosedManually

datatype reasm_out =
    MessageReady int stream_data
  | ConnStart conn_data
  | ConnEnd conn_data end_reason

record reasm_config =
  removeConnInfo :: bool
  closedConnectionDelay :: nat
  maxNumToClean :: nat
  maxOutOfOrderFragments :: nat
  enableBaseBufferClearCondition :: bool

record reassembly =
  ConnectionList :: "(32 word \<times> conn) list"
  ConnectionInfo :: "(32 word \<times> conn_data) list"
  CleanupList :: "(int \<times> 32 word list) list"
  RemoveConnInfo :: bool
  ClosedConnectionDelay :: nat
  MaxNumToClean :: nat
  MaxOutOfOrderFragments :: nat
  PurgeTimepoint :: int
  EnableBaseBufferClear :: bool

text \<open>What a packet brings: its addresses if it has an IP layer, its TCP layer, the hash fields.\<close>

record tcp_packet =
  pkt_ip :: "(ip_address \<times> ip_address) option"
  has_icmp :: bool
  tcp_ports :: "16 word \<times> 16 word"
  tcp_layer :: "tcp_segment option"
  hash_of :: flow_packet

section \<open>Operations\<close>

definition empty_side :: one_side where
  "empty_side = \<lparr>side_ip = IPv4Address 0, side_port = 0, side_seq = 0, fragmentList = [], gotFinOrRst = False\<rparr>"

definition new_conn :: "conn_data \<Rightarrow> conn" where
  "new_conn d = \<lparr>closed = False, numOfSides = 0, prevSide = -1, twoSides = (\<lambda>_. empty_side), connData = d\<rparr>"

definition tcp_reassembly :: "reasm_config \<Rightarrow> int \<Rightarrow> reassembly" where
  "tcp_reassembly cfg now =
     \<lparr>ConnectionList = [], ConnectionInfo = [], CleanupList = [], RemoveConnInfo = removeConnInfo cfg,
      ClosedConnectionDelay = (if closedConnectionDelay cfg > 0 then closedConnectionDelay cfg else 5),
      MaxNumToClean = (if removeConnInfo cfg \<and> maxNumToClean cfg = 0 then 30 else maxNumToClean cfg),
      MaxOutOfOrderFragments = maxOutOfOrderFragments cfg, PurgeTimepoint = now + 1,
      EnableBaseBufferClear = enableBaseBufferClearCondition cfg\<rparr>"

text \<open>The side of a connection with its index, and the fragments of one side checked.\<close>

definition set_side :: "int \<Rightarrow> seqno \<times> tcp_fragment list \<Rightarrow> conn \<Rightarrow> conn" where
  "set_side i sf c =
     c\<lparr>twoSides := (twoSides c)(i := (twoSides c i)\<lparr>side_seq := fst sf, fragmentList := snd sf\<rparr>)\<rparr>"

definition check_side :: "nat \<Rightarrow> int \<Rightarrow> bool \<Rightarrow> conn \<Rightarrow> conn \<times> reasm_out list" where
  "check_side maxf i clean c =
     (case checkOutOfOrderFragments maxf clean (side_seq (twoSides c i)) (fragmentList (twoSides c i)) of
        (s, fs, os) \<Rightarrow> (set_side i (s, fs) c, map (MessageReady i) os))"

text \<open>\<open>closeConnectionInternal\<close>, on the connection that was found; then the clean-up list.\<close>

definition close_conn :: "nat \<Rightarrow> end_reason \<Rightarrow> conn \<Rightarrow> conn \<times> reasm_out list" where
  "close_conn maxf reason c =
     (case check_side maxf 0 True c of (c1, o1) \<Rightarrow>
      case check_side maxf 1 True c1 of (c2, o2) \<Rightarrow>
        (c2\<lparr>closed := True\<rparr>, o1 @ o2 @ [ConnEnd (connData c2) reason]))"

definition insertIntoCleanupList :: "int \<Rightarrow> 32 word \<Rightarrow> reassembly \<Rightarrow> reassembly" where
  "insertIntoCleanupList now key r =
     (let t = now + int (ClosedConnectionDelay r);
          keys = (case map_of (CleanupList r) t of None \<Rightarrow> [] | Some ks \<Rightarrow> ks)
      in r\<lparr>CleanupList := insert_key t (key # keys) (CleanupList r)\<rparr>)"

definition put_conn :: "32 word \<Rightarrow> conn \<Rightarrow> reassembly \<Rightarrow> reassembly" where
  "put_conn key c r = r\<lparr>ConnectionList := insert_key key c (ConnectionList r)\<rparr>"

definition closeConnectionInternal :: "int \<Rightarrow> 32 word \<Rightarrow> end_reason \<Rightarrow> reassembly \<Rightarrow> reassembly \<times> reasm_out list" where
  "closeConnectionInternal now key reason r =
     (case map_of (ConnectionList r) key of
        None \<Rightarrow> (r, [])
      | Some c \<Rightarrow>
          if closed c then (r, [])
          else case close_conn (MaxOutOfOrderFragments r) reason c of
            (c', os) \<Rightarrow> (insertIntoCleanupList now key (put_conn key c' r), os))"

text \<open>\<open>handleFinOrRst\<close>; the connection is the one stored under the key.\<close>

definition handleFinOrRst :: "int \<Rightarrow> conn \<Rightarrow> int \<Rightarrow> 32 word \<Rightarrow> reassembly \<Rightarrow> reassembly \<times> reasm_out list" where
  "handleFinOrRst now c i key r =
     (if gotFinOrRst (twoSides c i) then (put_conn key c r, [])
      else
        let c1 = c\<lparr>twoSides := (twoSides c)(i := (twoSides c i)\<lparr>gotFinOrRst := True\<rparr>)\<rparr>
        in if gotFinOrRst (twoSides c1 (1 - i))
           then closeConnectionInternal now key ClosedByFIN_RST (put_conn key c1 r)
           else (case check_side (MaxOutOfOrderFragments r) i True c1 of (c2, os) \<Rightarrow> (put_conn key c2 r, os)))"

text \<open>\<open>purgeClosedConnections\<close>: the due entries in order, at most so many keys.\<close>

fun purge :: "int \<Rightarrow> nat \<Rightarrow> (int \<times> 32 word list) list \<Rightarrow> 32 word list \<times> (int \<times> 32 word list) list" where
  "purge now n [] = ([], [])"
| "purge now n ((t, keys) # cl) =
     (if t > now \<or> n = 0 then ([], (t, keys) # cl)
      else if length keys \<le> n then
        (case purge now (n - length keys) cl of (gone, rest) \<Rightarrow> (keys @ gone, rest))
      else (take n keys, (t, drop n keys) # cl))"

definition purgeClosedConnections :: "int \<Rightarrow> nat \<Rightarrow> reassembly \<Rightarrow> reassembly \<times> nat" where
  "purgeClosedConnections now maxn r =
     (let n = (if maxn = 0 then MaxNumToClean r else maxn)
      in case purge now n (CleanupList r) of
        (gone, rest) \<Rightarrow>
          (r\<lparr>CleanupList := rest,
             ConnectionInfo := fold erase_key gone (ConnectionInfo r),
             ConnectionList := fold erase_key gone (ConnectionList r)\<rparr>, length gone))"

text \<open>The automatic clean-up at the begin of \<open>reassemblePacket\<close>.\<close>

definition automatic_cleanup :: "int \<Rightarrow> reassembly \<Rightarrow> reassembly" where
  "automatic_cleanup now r =
     (if RemoveConnInfo r \<and> now \<ge> PurgeTimepoint r
      then (fst (purgeClosedConnections now 0 r))\<lparr>PurgeTimepoint := now + 1\<rparr> else r)"

text \<open>The time of the last packet of a connection, in both maps.\<close>

definition later :: "timeval \<Rightarrow> timeval \<Rightarrow> bool" where
  "later a b \<longleftrightarrow> fst a > fst b \<or> fst a = fst b \<and> snd a > snd b"

definition touch :: "timeval \<Rightarrow> 32 word \<Rightarrow> conn \<Rightarrow> reassembly \<Rightarrow> conn \<times> reassembly" where
  "touch t key c r =
     (if later t (endTime (connData c)) then
        (c\<lparr>connData := (connData c)\<lparr>endTime := t\<rparr>\<rparr>,
         r\<lparr>ConnectionInfo := map (\<lambda>(k, d). (k, if k = key then d\<lparr>endTime := t\<rparr> else d)) (ConnectionInfo r)\<rparr>)
      else (c, r))"

text \<open>Which side a packet is from, and whether it is the first of that side.\<close>

definition find_side :: "ip_address \<Rightarrow> 16 word \<Rightarrow> conn \<Rightarrow> (conn \<times> int \<times> bool) option" where
  "find_side ip port c =
     (let is_side = (\<lambda>i. side_port (twoSides c i) = port \<and> side_ip (twoSides c i) = ip);
          open_side = (\<lambda>i. c\<lparr>numOfSides := numOfSides c + 1,
             twoSides := (twoSides c)(i := (twoSides c i)\<lparr>side_ip := ip, side_port := port\<rparr>)\<rparr>)
      in if numOfSides c = 0 then Some (open_side 0, 0, True)
         else if numOfSides c = 1 then (if is_side 0 then Some (c, 0, False) else Some (open_side 1, 1, True))
         else if numOfSides c = 2 then
           (if is_side 0 then Some (c, 0, False) else if is_side 1 then Some (c, 1, False) else None)
         else None)"

text \<open>From the choice of the side to the end of \<open>reassemblePacket\<close>.\<close>

definition side_packet ::
    "int \<Rightarrow> 32 word \<Rightarrow> ip_address \<Rightarrow> 16 word \<Rightarrow> tcp_segment \<Rightarrow> conn \<Rightarrow> reassembly \<Rightarrow>
     (reassembly \<times> reasm_out list) \<times> ReassemblyStatus" where
  "side_packet now key srcIP srcPort p c r =
     (case find_side srcIP srcPort c of
        None \<Rightarrow> ((put_conn key c r, []), Error_PacketDoesNotMatchFlow)
      | Some (c1, i, first) \<Rightarrow>
          if gotFinOrRst (twoSides c1 i) then ((put_conn key c1 r, []), Ignore_PacketOfClosedFlow)
          else if finOrRst p \<and> tcp_payload p = [] then (handleFinOrRst now c1 i key r, FIN_RSTWithNoData)
          else
            let maxf = MaxOutOfOrderFragments r;
                (c2, o2) =
                  (if EnableBaseBufferClear r \<and> \<not> first \<and> tcp_payload p \<noteq> [] \<and> prevSide c1 \<noteq> -1
                      \<and> prevSide c1 \<noteq> i \<and> fragmentList (twoSides c1 (prevSide c1)) \<noteq> []
                   then check_side maxf (prevSide c1) True c1 else (c1, []));
                c3 = c2\<lparr>prevSide := i\<rparr>
            in case receive_data maxf first p (side_seq (twoSides c3 i), fragmentList (twoSides c3 i)) of
                 (status, side, os) \<Rightarrow>
                   let c4 = set_side i side c3;
                       o4 = o2 @ map (MessageReady i) os
                   in if finOrRst p
                      then (case handleFinOrRst now c4 i key r of (r5, o5) \<Rightarrow> ((r5, o4 @ o5), status))
                      else ((put_conn key c4 r, o4), status))"

text \<open>\<open>reassemblePacket\<close>.\<close>

definition reassemblePacket :: "int \<Rightarrow> tcp_packet \<Rightarrow> reassembly \<Rightarrow> (reassembly \<times> reasm_out list) \<times> ReassemblyStatus" where
  "reassemblePacket now pkt r0 =
     (let r = automatic_cleanup now r0
      in case pkt_ip pkt of
           None \<Rightarrow> ((r, []), NonIpPacket)
         | Some (srcIP, dstIP) \<Rightarrow>
             if \<not> valid_ip srcIP \<or> \<not> valid_ip dstIP then ((r, []), NonIpPacket)
             else case tcp_layer pkt of
               None \<Rightarrow> ((r, []), NonTcpPacket)
             | Some p \<Rightarrow>
                 if has_icmp pkt then ((r, []), NonTcpPacket)
                 else if tcp_payload p = [] \<and> \<not> synFlag p \<and> \<not> finOrRst p then ((r, []), Ignore_PacketWithNoData)
                 else
                   let key = hash5Tuple (hash_of pkt) False;
                       (srcPort, dstPort) = tcp_ports pkt
                   in case map_of (ConnectionList r) key of
                        None \<Rightarrow>
                          let d = \<lparr>cd_src = srcIP, cd_dst = dstIP, cd_srcPort = ntohs srcPort, cd_dstPort = ntohs dstPort,
                                   cd_flowKey = key, startTime = seg_time p, endTime = (0, 0)\<rparr>
                          in (case side_packet now key srcIP srcPort p (new_conn d)
                                     (r\<lparr>ConnectionInfo := insert_key key d (ConnectionInfo r)\<rparr>) of
                                ((r', os), status) \<Rightarrow> ((r', ConnStart d # os), status))
                      | Some c \<Rightarrow>
                          if closed c then ((r, []), Ignore_PacketOfClosedFlow)
                          else case touch (seg_time p) key c r of
                            (c', r') \<Rightarrow> side_packet now key srcIP srcPort p c' r')"

definition closeConnection :: "int \<Rightarrow> 32 word \<Rightarrow> reassembly \<Rightarrow> reassembly \<times> reasm_out list" where
  "closeConnection now key r = closeConnectionInternal now key ClosedManually r"

fun close_keys :: "int \<Rightarrow> 32 word list \<Rightarrow> reassembly \<Rightarrow> reassembly \<times> reasm_out list" where
  "close_keys now [] r = (r, [])"
| "close_keys now (k # ks) r =
     (case closeConnectionInternal now k ClosedManually r of (r1, o1) \<Rightarrow>
      case close_keys now ks r1 of (r2, o2) \<Rightarrow> (r2, o1 @ o2))"

definition closeAllConnections :: "int \<Rightarrow> reassembly \<Rightarrow> reassembly \<times> reasm_out list" where
  "closeAllConnections now r = close_keys now (map fst (ConnectionList r)) r"

definition isConnectionOpen :: "32 word \<Rightarrow> reassembly \<Rightarrow> int" where
  "isConnectionOpen key r =
     (case map_of (ConnectionList r) key of None \<Rightarrow> -1 | Some c \<Rightarrow> if closed c then 0 else 1)"

text \<open>The interface of the class as events.\<close>

datatype reasm_event = Packet int tcp_packet | Close int "32 word" | CloseAll int | Purge int nat

definition reasm_turn :: "(reassembly, reasm_event, reasm_out) handler" where
  "reasm_turn r e =
     Inr (case e of
        Packet now pkt \<Rightarrow> fst (reassemblePacket now pkt r)
      | Close now key \<Rightarrow> closeConnection now key r
      | CloseAll now \<Rightarrow> closeAllConnections now r
      | Purge now n \<Rightarrow> (fst (purgeClosedConnections now n r), []))"

section \<open>The clean-up list\<close>

definition keys_of :: "('t \<times> 'k list) list \<Rightarrow> 'k list" where
  "keys_of cl = concat (map snd cl)"

lemma keys_of_simps [simp]: "keys_of [] = []" "keys_of ((t, ks) # cl) = ks @ keys_of cl"
  by (simp_all add: keys_of_def)

lemma keys_of_insert:
  "sorted_keys cl \<Longrightarrow>
     mset (keys_of (insert_key t (k # (case map_of cl t of None \<Rightarrow> [] | Some ks \<Rightarrow> ks)) cl)) = add_mset k (mset (keys_of cl))"
proof (induction cl)
  case (Cons e cl)
  obtain t' ks where e: "e = (t', ks)" by force
  have "map_of cl t = None" if "t < t'"
    using Cons.prems that by (auto simp: e sorted_keys_def map_of_eq_None_iff)
  with Cons show ?case by (auto simp: e sorted_keys_def)
qed simp

lemma purge_split:
  "purge now n cl = (gone, rest) \<Longrightarrow> sorted_keys cl \<Longrightarrow>
     keys_of cl = gone @ keys_of rest \<and> length gone \<le> n \<and> sorted_keys rest \<and> fst ` set rest \<subseteq> fst ` set cl"
proof (induction now n cl arbitrary: gone rest rule: purge.induct)
  case (2 now n t keys cl)
  show ?case
  proof (cases "t > now \<or> n = 0")
    case True
    with 2 show ?thesis by auto
  next
    case False
    show ?thesis
    proof (cases "length keys \<le> n")
      case True
      obtain g r where "purge now (n - length keys) cl = (g, r)" by force
      with 2 False True show ?thesis by (auto simp: sorted_keys_def)
    next
      case l: False
      have "gone = take n keys" "rest = (t, drop n keys) # cl"
        using "2.prems"(1) False l by auto
      moreover have "take n keys @ drop n keys @ keys_of cl = keys @ keys_of cl" by (metis append_assoc append_take_drop_id)
      ultimately show ?thesis using "2.prems"(2) by (simp add: sorted_keys_def)
    qed
  qed
qed (auto simp: sorted_keys_def)

section \<open>The invariant\<close>

text \<open>
  A connection is stored under its own key, no side holds more fragments than the limit, and a
  closed connection holds none. The keys in the clean-up list are those of the closed connections,
  each once.
\<close>

definition side_ok :: "nat \<Rightarrow> tcp_fragment list \<Rightarrow> bool" where
  "side_ok maxf fs \<longleftrightarrow> maxf = 0 \<or> length fs \<le> maxf"

definition conn_ok :: "nat \<Rightarrow> 32 word \<Rightarrow> conn \<Rightarrow> bool" where
  "conn_ok maxf key c \<longleftrightarrow> cd_flowKey (connData c) = key
     \<and> (\<forall>i. side_ok maxf (fragmentList (twoSides c i)))
     \<and> (closed c \<longrightarrow> fragmentList (twoSides c 0) = [] \<and> fragmentList (twoSides c 1) = [])"

definition reasm_inv :: "reassembly \<Rightarrow> bool" where
  "reasm_inv r \<longleftrightarrow> sorted_keys (ConnectionList r) \<and> sorted_keys (CleanupList r)
     \<and> (\<forall>k c. map_of (ConnectionList r) k = Some c \<longrightarrow> conn_ok (MaxOutOfOrderFragments r) k c)
     \<and> distinct (keys_of (CleanupList r))
     \<and> set (keys_of (CleanupList r)) = {k. \<exists>c. map_of (ConnectionList r) k = Some c \<and> closed c}"

text \<open>How many connections are open under a key, and by how much a run of outputs changes it.\<close>

definition opened :: "reassembly \<Rightarrow> 32 word \<Rightarrow> int" where
  "opened r k = (case map_of (ConnectionList r) k of None \<Rightarrow> 0 | Some c \<Rightarrow> if closed c then 0 else 1)"

definition starts :: "32 word \<Rightarrow> reasm_out list \<Rightarrow> nat" where
  "starts k os = length (filter (\<lambda>out. case out of ConnStart d \<Rightarrow> cd_flowKey d = k | _ \<Rightarrow> False) os)"

definition ends :: "32 word \<Rightarrow> reasm_out list \<Rightarrow> nat" where
  "ends k os = length (filter (\<lambda>out. case out of ConnEnd d e \<Rightarrow> cd_flowKey d = k | _ \<Rightarrow> False) os)"

definition balance :: "reasm_out list \<Rightarrow> 32 word \<Rightarrow> int" where
  "balance os k = int (starts k os) - int (ends k os)"

named_theorems counting "callbacks counted over outputs"

lemma balance_simps [counting]:
  "balance [] k = 0"
  "balance (MessageReady i d # os) k = balance os k"
  "balance (ConnStart d' # os) k = (if cd_flowKey d' = k then 1 else 0) + balance os k"
  "balance (ConnEnd d' e # os) k = (if cd_flowKey d' = k then -1 else 0) + balance os k"
  "balance (os @ ps) k = balance os k + balance ps k"
  "balance (map (MessageReady i) ds) k = 0"
  by (simp_all add: balance_def starts_def ends_def filter_map comp_def)

section \<open>Every operation keeps it\<close>

lemma receive_data_bound:
  assumes "receive_data maxf first p (s, fs) = (st, (s', fs'), os)" "side_ok maxf fs"
  shows "side_ok maxf fs'"
  using assms check_clean [of maxf False]
  by (auto simp: receive_data_def side_ok_def Let_def split: if_splits prod.splits)

text \<open>Fragments of one side checked: a list that is no longer, or empty when it is to be cleaned.\<close>

lemma check_sideE:
  assumes "check_side maxf i clean c = (c', os)" "conn_ok maxf k c"
  obtains s fs ds where "c' = set_side i (s, fs) c" "os = map (MessageReady i) ds" "conn_ok maxf k c'"
    "clean \<Longrightarrow> fs = []" "side_ok maxf fs" "fragmentList (twoSides c i) = [] \<Longrightarrow> fs = []"
proof -
  obtain s fs ds where ch: "checkOutOfOrderFragments maxf clean (side_seq (twoSides c i)) (fragmentList (twoSides c i))
      = (s, fs, ds)" by (metis prod_cases3)
  note b = check_clean [OF ch]
  from assms ch have c': "c' = set_side i (s, fs) c" and os: "os = map (MessageReady i) ds"
    by (auto simp: check_side_def)
  have e: "fragmentList (twoSides c i) = [] \<Longrightarrow> fs = []" using b by simp
  have "conn_ok maxf k c'"
    using assms(2) b e by (auto simp: conn_ok_def c' set_side_def side_ok_def)
  with c' os b e that show thesis by (auto simp: side_ok_def)
qed

lemma set_side_simps [simp]:
  "closed (set_side i sf c) = closed c" "connData (set_side i sf c) = connData c"
  "numOfSides (set_side i sf c) = numOfSides c" "prevSide (set_side i sf c) = prevSide c"
  "fragmentList (twoSides (set_side i sf c) j) = (if j = i then snd sf else fragmentList (twoSides c j))"
  "gotFinOrRst (twoSides (set_side i sf c) j) = gotFinOrRst (twoSides c j)"
  by (simp_all add: set_side_def)

lemma close_conn_ok:
  assumes "close_conn maxf reason c = (c', os)" "conn_ok maxf k c"
  shows "conn_ok maxf k c' \<and> closed c' \<and> (\<forall>j. balance os j = (if j = k then -1 else 0))"
proof -
  obtain c1 o1 where 1: "check_side maxf 0 True c = (c1, o1)" by force
  obtain c2 o2 where 2: "check_side maxf 1 True c1 = (c2, o2)" by force
  from check_sideE [OF 1 assms(2)] obtain s1 ds1 where c1: "c1 = set_side 0 (s1, []) c" "o1 = map (MessageReady 0) ds1"
    "conn_ok maxf k c1" by metis
  from check_sideE [OF 2 c1(3)] obtain s2 ds2 where c2: "c2 = set_side 1 (s2, []) c1" "o2 = map (MessageReady 1) ds2"
    "conn_ok maxf k c2" by metis
  from assms(1) 1 2 have "c' = c2\<lparr>closed := True\<rparr>" "os = o1 @ o2 @ [ConnEnd (connData c2) reason]"
    by (auto simp: close_conn_def)
  with c1 c2 show ?thesis by (auto simp: conn_ok_def counting)
qed

lemma put_conn_ok:
  assumes "reasm_inv r" "opened r k = 1 \<or> map_of (ConnectionList r) k = None" "conn_ok (MaxOutOfOrderFragments r) k c" "\<not> closed c"
  shows "reasm_inv (put_conn k c r)" "opened (put_conn k c r) = (opened r)(k := 1)"
    "MaxOutOfOrderFragments (put_conn k c r) = MaxOutOfOrderFragments r" "map_of (ConnectionList (put_conn k c r)) k = Some c"
proof -
  have open_k: "closed c' \<Longrightarrow> map_of (ConnectionList r) k \<noteq> Some c'" for c'
    using assms(2) by (auto simp: opened_def)
  then have "k \<notin> set (keys_of (CleanupList r))" using assms(1) by (auto simp: reasm_inv_def)
  with open_k assms show "reasm_inv (put_conn k c r)" by (auto simp: reasm_inv_def put_conn_def)
qed (use assms in \<open>auto simp: put_conn_def opened_def\<close>)

lemma close_ok:
  assumes "closeConnectionInternal now k reason r = (r', os)" "reasm_inv r"
  shows "reasm_inv r' \<and> MaxOutOfOrderFragments r' = MaxOutOfOrderFragments r
    \<and> (\<forall>j. opened r' j = opened r j + balance os j) \<and> opened r' k = 0 \<and> (\<forall>j. j \<noteq> k \<longrightarrow> opened r' j = opened r j)
    \<and> fst ` set (ConnectionList r') = fst ` set (ConnectionList r)"
proof (cases "map_of (ConnectionList r) k")
  case None
  with assms show ?thesis by (auto simp: closeConnectionInternal_def opened_def counting)
next
  case (Some c)
  show ?thesis
  proof (cases "closed c")
    case True
    with assms Some show ?thesis by (auto simp: closeConnectionInternal_def opened_def counting)
  next
    case False
    obtain c' o' where cc: "close_conn (MaxOutOfOrderFragments r) reason c = (c', o')" by force
    from Some assms(2) have "conn_ok (MaxOutOfOrderFragments r) k c" by (auto simp: reasm_inv_def)
    from close_conn_ok [OF cc this] have c': "conn_ok (MaxOutOfOrderFragments r) k c'" "closed c'"
      "\<And>j. balance o' j = (if j = k then -1 else 0)" by auto
    from assms(1) Some False cc have r': "r' = insertIntoCleanupList now k (put_conn k c' r)" "os = o'"
      by (auto simp: closeConnectionInternal_def)
    have k: "k \<notin> set (keys_of (CleanupList r))" using Some False assms(2) by (auto simp: reasm_inv_def)
    have srt: "sorted_keys (CleanupList r)" using assms(2) by (simp add: reasm_inv_def)
    have m: "mset (keys_of (CleanupList r')) = add_mset k (mset (keys_of (CleanupList r)))"
      by (simp add: r' insertIntoCleanupList_def put_conn_def Let_def keys_of_insert [OF srt])
    have "set (keys_of (CleanupList r')) = insert k (set (keys_of (CleanupList r)))"
      using arg_cong [OF m, of set_mset] by simp
    moreover have "distinct (keys_of (CleanupList r'))"
    proof -
      have "distinct (k # keys_of (CleanupList r))" using k assms(2) by (simp add: reasm_inv_def)
      then show ?thesis using m by (metis mset.simps(2) mset_eq_imp_distinct_iff)
    qed
    ultimately have "reasm_inv r'"
      using assms(2) c' by (auto simp: reasm_inv_def r' insertIntoCleanupList_def put_conn_def Let_def)
    moreover have "opened r' = (opened r)(k := 0)" "opened r k = 1"
      using c' Some False by (auto simp: r' insertIntoCleanupList_def put_conn_def Let_def opened_def)
    moreover have "fst ` set (ConnectionList r') = fst ` set (ConnectionList r)"
      using Some by (auto simp: r' insertIntoCleanupList_def put_conn_def Let_def map_of_eq_None_iff image_iff dest!: map_of_SomeD) force
    ultimately show ?thesis using c'(3) by (auto simp: r' insertIntoCleanupList_def put_conn_def Let_def)
  qed
qed

text \<open>
  What the rest of \<open>reassemblePacket\<close> does once the connection \<open>c\<close> of the key is found or made.
\<close>

definition side_post :: "32 word \<Rightarrow> reassembly \<Rightarrow> reassembly \<times> reasm_out list \<Rightarrow> bool" where
  "side_post k r x \<longleftrightarrow> reasm_inv (fst x) \<and> MaxOutOfOrderFragments (fst x) = MaxOutOfOrderFragments r
     \<and> (\<forall>j. opened (fst x) j = ((opened r)(k := 1)) j + balance (snd x) j)"

definition conn_pre :: "32 word \<Rightarrow> conn \<Rightarrow> reassembly \<Rightarrow> bool" where
  "conn_pre k c r \<longleftrightarrow> reasm_inv r \<and> (opened r k = 1 \<or> map_of (ConnectionList r) k = None)
     \<and> conn_ok (MaxOutOfOrderFragments r) k c \<and> \<not> closed c"

lemma put_post: "conn_pre k c r \<Longrightarrow> (\<forall>j. balance os j = 0) \<Longrightarrow> side_post k r (put_conn k c r, os)"
  using put_conn_ok [of r k c] by (simp add: conn_pre_def side_post_def)

lemma side_post_more: "side_post k r (r', os) \<Longrightarrow> (\<forall>j. balance ps j = 0) \<Longrightarrow> side_post k r (r', ps @ os)"
  by (simp add: side_post_def counting)

lemma fin_post:
  assumes "conn_pre k c r"
  shows "side_post k r (handleFinOrRst now c i k r)"
proof (cases "gotFinOrRst (twoSides c i)")
  case True
  with put_post [OF assms, of "[]"] show ?thesis by (simp add: handleFinOrRst_def counting)
next
  case got: False
  define c1 where "c1 = c\<lparr>twoSides := (twoSides c)(i := (twoSides c i)\<lparr>gotFinOrRst := True\<rparr>)\<rparr>"
  have pre: "conn_pre k c1 r" using assms by (auto simp: conn_pre_def conn_ok_def c1_def)
  show ?thesis
  proof (cases "gotFinOrRst (twoSides c1 (1 - i))")
    case True
    obtain r' os where cl: "closeConnectionInternal now k ClosedByFIN_RST (put_conn k c1 r) = (r', os)" by force
    with got True have "handleFinOrRst now c i k r = (r', os)" by (simp add: handleFinOrRst_def Let_def c1_def)
    with close_ok [OF cl] put_conn_ok [of r k c1] pre show ?thesis by (simp add: conn_pre_def side_post_def)
  next
    case False
    obtain c2 os where ch: "check_side (MaxOutOfOrderFragments r) i True c1 = (c2, os)" by force
    from pre have "conn_ok (MaxOutOfOrderFragments r) k c1" by (simp add: conn_pre_def)
    from check_sideE [OF ch this] obtain s fs ds where "c2 = set_side i (s, fs) c1" "os = map (MessageReady i) ds"
      "conn_ok (MaxOutOfOrderFragments r) k c2" by metis
    with pre have "conn_pre k c2 r" "\<forall>j. balance os j = 0" by (auto simp: conn_pre_def counting)
    moreover have "handleFinOrRst now c i k r = (put_conn k c2 r, os)"
      using got False ch by (simp add: handleFinOrRst_def Let_def c1_def)
    ultimately show ?thesis using put_post by simp
  qed
qed

lemma find_side_pre: "find_side ip port c = Some (c1, i, first) \<Longrightarrow> conn_pre k c r \<Longrightarrow> conn_pre k c1 r"
  by (auto simp: find_side_def conn_pre_def conn_ok_def Let_def split: if_splits)

lemma side_packet_post:
  assumes "side_packet now k ip port p c r = (x, status)" "conn_pre k c r"
  shows "side_post k r x"
proof -
  let ?maxf = "MaxOutOfOrderFragments r"
  show ?thesis
  proof (cases "find_side ip port c")
    case None
    with assms(1) put_post [OF assms(2), of "[]"] show ?thesis by (auto simp: side_packet_def counting)
  next
    case (Some t)
    obtain c1 i first where t: "t = (c1, i, first)" by (metis prod_cases3)
    note pre = find_side_pre [OF Some [unfolded t] assms(2)]
    consider "gotFinOrRst (twoSides c1 i)" | "\<not> gotFinOrRst (twoSides c1 i)" "finOrRst p \<and> tcp_payload p = []"
      | "\<not> gotFinOrRst (twoSides c1 i)" "\<not> (finOrRst p \<and> tcp_payload p = [])" by blast
    then show ?thesis
    proof cases
      case 1
      with assms(1) Some t put_post [OF pre, of "[]"] show ?thesis by (auto simp: side_packet_def counting)
    next
      case 2
      with assms(1) Some t have "x = handleFinOrRst now c1 i k r" by (simp add: side_packet_def)
      with fin_post [OF pre] show ?thesis by simp
    next
      case 3
      let ?clear = "EnableBaseBufferClear r \<and> \<not> first \<and> tcp_payload p \<noteq> [] \<and> prevSide c1 \<noteq> -1
          \<and> prevSide c1 \<noteq> i \<and> fragmentList (twoSides c1 (prevSide c1)) \<noteq> []"
      obtain c2 o2 where c2: "(if ?clear then check_side ?maxf (prevSide c1) True c1 else (c1, [])) = (c2, o2)" by force
      have c2_pre: "conn_pre k c2 r \<and> (\<forall>j. balance o2 j = 0)"
      proof (cases ?clear)
        case True
        with c2 have ch: "check_side ?maxf (prevSide c1) True c1 = (c2, o2)" by simp
        from pre have "conn_ok ?maxf k c1" by (simp add: conn_pre_def)
        from check_sideE [OF ch this] pre show ?thesis by (metis conn_pre_def balance_simps(6) set_side_simps(1))
      next
        case False
        with c2 have "c2 = c1" "o2 = []" by (simp_all only: if_False prod.inject)
        with pre show ?thesis by (simp add: counting)
      qed
      define c3 where "c3 = c2\<lparr>prevSide := i\<rparr>"
      obtain st s' fs' os where rd: "receive_data ?maxf first p (side_seq (twoSides c2 i), fragmentList (twoSides c2 i))
          = (st, (s', fs'), os)" by (metis prod.exhaust)
      define c4 where "c4 = set_side i (s', fs') c3"
      have "side_ok ?maxf fs'"
        using receive_data_bound [OF rd] c2_pre by (auto simp: c3_def conn_pre_def conn_ok_def)
      then have pre4: "conn_pre k c4 r" using c2_pre by (auto simp: conn_pre_def conn_ok_def c4_def c3_def)
      have o4: "\<forall>j. balance (o2 @ map (MessageReady i) os) j = 0" using c2_pre by (simp add: counting)
      have x: "x = (if finOrRst p then (case handleFinOrRst now c4 i k r of (r5, o5) \<Rightarrow> (r5, (o2 @ map (MessageReady i) os) @ o5))
          else (put_conn k c4 r, o2 @ map (MessageReady i) os))"
        using assms(1) Some t 3 c2 rd
        by (simp add: side_packet_def Let_def c3_def [symmetric] c4_def [symmetric] split: prod.splits if_splits)
      show ?thesis
      proof (cases "finOrRst p")
        case True
        obtain r5 o5 where "handleFinOrRst now c4 i k r = (r5, o5)" by force
        with fin_post [OF pre4, of now i] side_post_more [OF _ o4] x True show ?thesis by simp
      next
        case False
        with put_post [OF pre4 o4] x show ?thesis by simp
      qed
    qed
  qed
qed

lemma purge_keeps:
  assumes "purge now n (CleanupList r) = (gone, rest)" "reasm_inv r"
  shows "reasm_inv (r\<lparr>CleanupList := rest, ConnectionInfo := fold erase_key gone (ConnectionInfo r),
      ConnectionList := fold erase_key gone (ConnectionList r)\<rparr>) \<and> (\<forall>k \<in> set gone. opened r k = 0)"
proof -
  have srt: "sorted_keys (CleanupList r)" using assms(2) by (simp add: reasm_inv_def)
  note sp = purge_split [OF assms(1) srt]
  have closed_all: "set gone \<union> set (keys_of rest) = {k. \<exists>c. map_of (ConnectionList r) k = Some c \<and> closed c}"
    and dist: "set gone \<inter> set (keys_of rest) = {}" "distinct (keys_of rest)"
    using assms(2) sp by (auto simp: reasm_inv_def)
  have "set (keys_of rest) = {k. \<exists>c. map_of (fold erase_key gone (ConnectionList r)) k = Some c \<and> closed c}"
    using closed_all dist by (auto simp: map_of_erase restrict_map_def)
  moreover have "sorted_keys (fold erase_key gone (ConnectionList r))"
    using assms(2) by (simp add: fold_erase_key sorted_filter reasm_inv_def)
  moreover have "conn_ok (MaxOutOfOrderFragments r) k c" if "map_of (fold erase_key gone (ConnectionList r)) k = Some c" for k c
    using assms(2) that by (auto simp: reasm_inv_def map_of_erase restrict_map_def split: if_splits)
  moreover have "opened r k = 0" if "k \<in> set gone" for k
    using closed_all that by (force simp: opened_def)
  ultimately show ?thesis using sp dist(2) by (auto simp: reasm_inv_def)
qed

lemma purgeClosed_ok:
  assumes "purgeClosedConnections now maxn r = (r', n)" "reasm_inv r"
  shows "reasm_inv r' \<and> MaxOutOfOrderFragments r' = MaxOutOfOrderFragments r \<and> opened r' = opened r
    \<and> n \<le> (if maxn = 0 then MaxNumToClean r else maxn)"
proof -
  let ?n = "if maxn = 0 then MaxNumToClean r else maxn"
  obtain gone rest where p: "purge now ?n (CleanupList r) = (gone, rest)" by force
  have srt: "sorted_keys (CleanupList r)" using assms(2) by (simp add: reasm_inv_def)
  from p assms(1) have r': "r' = r\<lparr>CleanupList := rest, ConnectionInfo := fold erase_key gone (ConnectionInfo r),
      ConnectionList := fold erase_key gone (ConnectionList r)\<rparr>" "n = length gone"
    by (simp_all add: purgeClosedConnections_def Let_def)
  note k = purge_keeps [OF p assms(2)]
  have "opened r' k = opened r k" for k
    using k by (auto simp: r' opened_def map_of_erase restrict_map_def)
  with k purge_split [OF p srt] r' show ?thesis by auto
qed

lemma cleanup_ok:
  assumes "reasm_inv r"
  shows "reasm_inv (automatic_cleanup now r) \<and> opened (automatic_cleanup now r) = opened r
    \<and> MaxOutOfOrderFragments (automatic_cleanup now r) = MaxOutOfOrderFragments r"
proof -
  obtain r' n where "purgeClosedConnections now 0 r = (r', n)" by force
  from purgeClosed_ok [OF this assms] this assms show ?thesis
    by (auto simp: automatic_cleanup_def reasm_inv_def opened_def fun_eq_iff)
qed

lemma touch_pre:
  assumes "touch t k c r = (c', r')" "conn_pre k c r"
  shows "conn_pre k c' r' \<and> opened r' = opened r \<and> MaxOutOfOrderFragments r' = MaxOutOfOrderFragments r"
  using assms by (auto simp: touch_def conn_pre_def conn_ok_def reasm_inv_def opened_def split: if_splits)

lemma new_conn_pre:
  assumes "reasm_inv r" "map_of (ConnectionList r) (cd_flowKey d) = None"
  shows "conn_pre (cd_flowKey d) (new_conn d) (r\<lparr>ConnectionInfo := ci\<rparr>)"
  using assms by (auto simp: conn_pre_def conn_ok_def new_conn_def empty_side_def side_ok_def reasm_inv_def opened_def)

definition counted :: "reassembly \<Rightarrow> reassembly \<times> reasm_out list \<Rightarrow> bool" where
  "counted r x \<longleftrightarrow> reasm_inv (fst x) \<and> MaxOutOfOrderFragments (fst x) = MaxOutOfOrderFragments r
     \<and> (\<forall>j. opened (fst x) j = opened r j + balance (snd x) j)"

lemma reassemble_ok:
  assumes "reassemblePacket now pkt r0 = (x, status)" "reasm_inv r0"
  shows "counted r0 x"
proof -
  define r where "r = automatic_cleanup now r0"
  have r: "reasm_inv r" "opened r = opened r0" "MaxOutOfOrderFragments r = MaxOutOfOrderFragments r0"
    using cleanup_ok [OF assms(2)] by (simp_all add: r_def)
  have same: "counted r0 (r, [])" using r by (simp add: counted_def counting)
  show ?thesis
  proof (cases "x = (r, [])")
    case True
    with same show ?thesis by simp
  next
    case False
    with assms(1) obtain srcIP dstIP p where pk: "pkt_ip pkt = Some (srcIP, dstIP)" "tcp_layer pkt = Some p"
      by (auto simp: reassemblePacket_def Let_def r_def [symmetric] split: option.splits if_splits prod.splits)
    obtain srcPort dstPort where po: "tcp_ports pkt = (srcPort, dstPort)" by force
    define k where "k = hash5Tuple (hash_of pkt) False"
    show ?thesis
    proof (cases "map_of (ConnectionList r) k")
      case None
      define d where "d = \<lparr>cd_src = srcIP, cd_dst = dstIP, cd_srcPort = ntohs srcPort, cd_dstPort = ntohs dstPort,
          cd_flowKey = k, startTime = seg_time p, endTime = (0, 0)\<rparr>"
      let ?r = "r\<lparr>ConnectionInfo := insert_key k d (ConnectionInfo r)\<rparr>"
      obtain r' os st where sp: "side_packet now k srcIP srcPort p (new_conn d) ?r = ((r', os), st)"
        by (metis prod.exhaust)
      have x: "x = (r', ConnStart d # os)"
        using assms(1) False pk po None sp
        by (auto simp: reassemblePacket_def Let_def r_def [symmetric] k_def [symmetric] d_def [symmetric] split: if_splits)
      have "conn_pre k (new_conn d) ?r"
        using new_conn_pre [of r d] r(1) None by (simp add: d_def)
      from side_packet_post [OF sp this] have "side_post k ?r (r', os)" .
      moreover have "opened ?r = opened r" by (simp add: opened_def fun_eq_iff)
      moreover have "opened r k = 0" using None by (simp add: opened_def)
      moreover have "cd_flowKey d = k" by (simp add: d_def)
      ultimately show ?thesis using r by (auto simp: x counted_def side_post_def counting)
    next
      case (Some c)
      obtain c' r' where t: "touch (seg_time p) k c r = (c', r')" by force
      have op: "\<not> closed c" and sp: "side_packet now k srcIP srcPort p c' r' = (x, status)"
        using assms(1) False pk po Some t
        by (auto simp: reassemblePacket_def Let_def r_def [symmetric] k_def [symmetric] split: if_splits)
      have one: "opened r k = 1" using Some op by (simp add: opened_def)
      then have pre: "conn_pre k c r" using r(1) Some op by (auto simp: conn_pre_def reasm_inv_def)
      note t' = touch_pre [OF t pre]
      from side_packet_post [OF sp] t' have "side_post k r' x" by simp
      moreover have "(opened r')(k := 1) = opened r0" using t' one r(2) by auto
      ultimately show ?thesis using r t' by (simp only: counted_def side_post_def) simp
    qed
  qed
qed

lemma close_keys_ok:
  "reasm_inv r \<Longrightarrow> close_keys now ks r = (r', os) \<Longrightarrow> counted r (r', os)
     \<and> (\<forall>k. opened r' k = (if k \<in> set ks then 0 else opened r k))"
proof (induction now ks r arbitrary: r' os rule: close_keys.induct)
  case (1 now r)
  then show ?case by (simp add: counted_def counting)
next
  case (2 now k ks r)
  obtain r1 o1 where c: "closeConnectionInternal now k ClosedManually r = (r1, o1)" by force
  obtain r2 o2 where cs: "close_keys now ks r1 = (r2, o2)" by force
  from "2.prems"(2) c cs have "r' = r2" "os = o1 @ o2" by simp_all
  moreover note r1 = close_ok [OF c "2.prems"(1)]
  moreover from r1 have "reasm_inv r1" by simp
  note r2 = "2.IH" [OF c [symmetric] this cs]
  moreover have "counted r (r2, o1 @ o2)" using r1 r2 by (simp add: counted_def counting)
  moreover have "opened r2 j = (if j \<in> set (k # ks) then 0 else opened r j)" for j
  proof -
    have "opened r2 j = (if j \<in> set ks then 0 else opened r1 j)" using r2 by blast
    moreover have "opened r1 j = (if j = k then 0 else opened r j)" using r1 by (metis (full_types))
    ultimately show ?thesis by (simp only: list.set insert_iff) (simp split: if_split)
  qed
  ultimately show ?case by simp
qed

lemma turn_counted:
  assumes "reasm_inv r" "reasm_turn r e = Inr (r', os)"
  shows "counted r (r', os)"
proof (cases e)
  case (Packet now pkt)
  obtain x status where "reassemblePacket now pkt r = (x, status)" by (cases "reassemblePacket now pkt r")
  with reassemble_ok [OF this assms(1)] assms(2) Packet show ?thesis by (simp add: reasm_turn_def)
next
  case (Close now k)
  with assms close_ok [of now k ClosedManually r r' os] show ?thesis
    by (simp add: reasm_turn_def closeConnection_def counted_def)
next
  case (CloseAll now)
  with assms close_keys_ok [of r now _ r' os] show ?thesis by (simp add: reasm_turn_def closeAllConnections_def)
next
  case (Purge now n)
  obtain r1 m where "purgeClosedConnections now n r = (r1, m)" by force
  with purgeClosed_ok [OF this assms(1)] assms(2) Purge show ?thesis by (simp add: reasm_turn_def counted_def counting)
qed

lemma new_inv: "reasm_inv (tcp_reassembly cfg now)"
  by (simp add: tcp_reassembly_def reasm_inv_def sorted_keys_def)

interpretation reasm: safe_machine reasm_turn reasm_inv "\<lambda>_. True"
proof
  fix r e
  assume "reasm_inv r"
  then show "\<exists>s' os. reasm_turn r e = Inr (s', os) \<and> reasm_inv s'"
    using turn_counted [of r e] by (simp add: reasm_turn_def counted_def) (metis prod.collapse)
qed

lemma run_counted:
  "reasm_inv r \<Longrightarrow> run reasm_turn r es = Inr (r', os) \<Longrightarrow> counted r (r', os)"
proof (induction es arbitrary: r os)
  case Nil
  then show ?case by (simp add: counted_def counting)
next
  case (Cons e es)
  then obtain r1 o1 o2 where 1: "reasm_turn r e = Inr (r1, o1)" "run reasm_turn r1 es = Inr (r', o2)" "os = o1 @ o2" by auto
  from turn_counted [OF Cons.prems(1) 1(1)] have "counted r (r1, o1)" .
  moreover from this Cons.IH [OF _ 1(2)] have "counted r1 (r', o2)" by (simp add: counted_def)
  ultimately show ?case by (simp add: counted_def counting 1(3))
qed

section \<open>The stream of one side through the object\<close>

text \<open>The object while it has seen only one side of the connection of a key, at \<open>side\<close>.\<close>

definition one_sided :: "32 word \<Rightarrow> ip_address \<Rightarrow> 16 word \<Rightarrow> seqno \<times> tcp_fragment list \<Rightarrow> reassembly \<Rightarrow> bool" where
  "one_sided k ip port side r \<longleftrightarrow> reasm_inv r \<and> (\<exists>c. map_of (ConnectionList r) k = Some c \<and> \<not> closed c
     \<and> numOfSides c = 1 \<and> side_port (twoSides c 0) = port \<and> side_ip (twoSides c 0) = ip
     \<and> \<not> gotFinOrRst (twoSides c 0) \<and> \<not> gotFinOrRst (twoSides c 1) \<and> prevSide c \<in> {-1, 0}
     \<and> (side_seq (twoSides c 0), fragmentList (twoSides c 0)) = side)"

text \<open>A packet of that side with the TCP layer \<open>p\<close>.\<close>

definition of_side :: "32 word \<Rightarrow> ip_address \<Rightarrow> 16 word \<Rightarrow> tcp_segment \<Rightarrow> tcp_packet \<Rightarrow> bool" where
  "of_side k ip port p pkt \<longleftrightarrow> (\<exists>dst. pkt_ip pkt = Some (ip, dst) \<and> valid_ip ip \<and> valid_ip dst)
     \<and> tcp_layer pkt = Some p \<and> \<not> has_icmp pkt \<and> fst (tcp_ports pkt) = port \<and> hash5Tuple (hash_of pkt) False = k"

lemma cleanup_open:
  assumes "reasm_inv r" "map_of (ConnectionList r) k = Some c" "\<not> closed c"
  shows "map_of (ConnectionList (automatic_cleanup now r)) k = Some c"
proof -
  obtain gone rest where p: "purge now (MaxNumToClean r) (CleanupList r) = (gone, rest)" by force
  have "k \<notin> set gone" using purge_keeps [OF p assms(1)] assms(2,3) by (force simp: opened_def)
  with p assms(2) show ?thesis
    by (simp add: automatic_cleanup_def purgeClosedConnections_def map_of_erase restrict_map_def)
qed

lemma touch_same:
  "touch t k c r = (c', r') \<Longrightarrow> closed c' = closed c \<and> numOfSides c' = numOfSides c \<and> twoSides c' = twoSides c
     \<and> prevSide c' = prevSide c \<and> MaxOutOfOrderFragments r' = MaxOutOfOrderFragments r"
  by (auto simp: touch_def split: if_splits)

text \<open>Up to the choice of the side, such a packet finds the connection and side 0.\<close>

lemma one_sided_reaches:
  assumes "one_sided k ip port side r0" "of_side k ip port p pkt" "tcp_payload p \<noteq> [] \<or> finOrRst p"
  obtains r c where "reassemblePacket now pkt r0 = side_packet now k ip port p c r"
    "find_side ip port c = Some (c, 0, False)" "\<not> gotFinOrRst (twoSides c 0)" "\<not> gotFinOrRst (twoSides c 1)"
    "prevSide c \<in> {-1, 0}" "numOfSides c = 1" "side_port (twoSides c 0) = port" "side_ip (twoSides c 0) = ip" "\<not> closed c"
    "(side_seq (twoSides c 0), fragmentList (twoSides c 0)) = side" "MaxOutOfOrderFragments r = MaxOutOfOrderFragments r0"
proof -
  obtain c0 where c0: "reasm_inv r0" "map_of (ConnectionList r0) k = Some c0" "\<not> closed c0" "numOfSides c0 = 1"
      "side_port (twoSides c0 0) = port" "side_ip (twoSides c0 0) = ip" "\<not> gotFinOrRst (twoSides c0 0)"
      "\<not> gotFinOrRst (twoSides c0 1)"
      "prevSide c0 \<in> {-1, 0}" "(side_seq (twoSides c0 0), fragmentList (twoSides c0 0)) = side"
    using assms(1) by (auto simp: one_sided_def)
  obtain dst dport where pk: "pkt_ip pkt = Some (ip, dst)" "valid_ip ip" "valid_ip dst" "tcp_layer pkt = Some p" "\<not> has_icmp pkt"
      "tcp_ports pkt = (port, dport)" "hash5Tuple (hash_of pkt) False = k"
    using assms(2) by (cases "tcp_ports pkt") (auto simp: of_side_def)
  define r1 where "r1 = automatic_cleanup now r0"
  have f: "map_of (ConnectionList r1) k = Some c0" using cleanup_open [OF c0(1-3)] by (simp add: r1_def)
  obtain c r where t: "touch (seg_time p) k c0 r1 = (c, r)" by force
  have "reassemblePacket now pkt r0 = side_packet now k ip port p c r"
    using pk assms(3) f c0(3) t by (auto simp: reassemblePacket_def Let_def r1_def [symmetric])
  moreover have "find_side ip port c = Some (c, 0, False)"
    using touch_same [OF t] c0 by (simp add: find_side_def)
  moreover have "MaxOutOfOrderFragments r = MaxOutOfOrderFragments r0"
    using touch_same [OF t] cleanup_ok [OF c0(1), of now] by (simp add: r1_def)
  ultimately show thesis using touch_same [OF t] c0 by (intro that [of c r]) simp_all
qed

lemma one_sided_data:
  assumes "one_sided k ip port side r0" "of_side k ip port p pkt" "tcp_payload p \<noteq> []" "\<not> finOrRst p"
    and rd: "receive_data (MaxOutOfOrderFragments r0) False p side = (st, side', os)"
  shows "\<exists>r'. reasm_turn r0 (Packet now pkt) = Inr (r', map (MessageReady 0) os)
    \<and> one_sided k ip port side' r' \<and> MaxOutOfOrderFragments r' = MaxOutOfOrderFragments r0"
proof -
  from one_sided_reaches [OF assms(1,2), of now] assms(3) obtain r c where
    rc: "reassemblePacket now pkt r0 = side_packet now k ip port p c r"
    "find_side ip port c = Some (c, 0, False)" "\<not> gotFinOrRst (twoSides c 0)" "\<not> gotFinOrRst (twoSides c 1)"
    "prevSide c \<in> {-1, 0}" "numOfSides c = 1" "side_port (twoSides c 0) = port" "side_ip (twoSides c 0) = ip" "\<not> closed c"
    "(side_seq (twoSides c 0), fragmentList (twoSides c 0)) = side" "MaxOutOfOrderFragments r = MaxOutOfOrderFragments r0" by metis
  let ?c = "set_side 0 side' (c\<lparr>prevSide := 0\<rparr>)"
  have "side_packet now k ip port p c r = ((put_conn k ?c r, map (MessageReady 0) os), st)"
    using rc(2-) assms(3,4) rd by (auto simp: side_packet_def Let_def)
  with rc(1) have t: "reasm_turn r0 (Packet now pkt) = Inr (put_conn k ?c r, map (MessageReady 0) os)"
    by (simp add: reasm_turn_def)
  have "reasm_inv r0" using assms(1) by (simp add: one_sided_def)
  from turn_counted [OF this t] have "reasm_inv (put_conn k ?c r)" by (simp add: counted_def)
  then have "one_sided k ip port side' (put_conn k ?c r)"
    using rc by (cases side') (auto simp: one_sided_def put_conn_def set_side_def)
  with t rc(11) show ?thesis by (auto simp: put_conn_def)
qed

text \<open>A FIN or RST without data hands over what is left.\<close>

lemma one_sided_fin:
  assumes "one_sided k ip port (s, fs) r0" "of_side k ip port p pkt" "tcp_payload p = []" "finOrRst p"
    and ch: "checkOutOfOrderFragments (MaxOutOfOrderFragments r0) True s fs = (s', kept, os)"
  shows "\<exists>r'. reasm_turn r0 (Packet now pkt) = Inr (r', map (MessageReady 0) os)"
proof -
  from one_sided_reaches [OF assms(1,2), of now] assms(4) obtain r c where
    rc: "reassemblePacket now pkt r0 = side_packet now k ip port p c r"
    "find_side ip port c = Some (c, 0, False)" "\<not> gotFinOrRst (twoSides c 0)" "\<not> gotFinOrRst (twoSides c 1)"
    "(side_seq (twoSides c 0), fragmentList (twoSides c 0)) = (s, fs)" "MaxOutOfOrderFragments r = MaxOutOfOrderFragments r0" by metis
  have "\<exists>r'. side_packet now k ip port p c r = ((r', map (MessageReady 0) os), FIN_RSTWithNoData)"
    using rc(2-) assms(3,4) ch by (simp add: side_packet_def handleFinOrRst_def check_side_def Let_def)
  with rc(1) show ?thesis by (auto simp: reasm_turn_def)
qed

lemma one_sided_all:
  "one_sided k ip port side r0 \<Longrightarrow> MaxOutOfOrderFragments r0 = maxf \<Longrightarrow>
     \<forall>(now, pkt, p) \<in> set es. of_side k ip port p pkt \<and> tcp_payload p \<noteq> [] \<and> \<not> finOrRst p \<Longrightarrow>
     receive_all maxf (map (snd \<circ> snd) es) side = (side', os) \<Longrightarrow>
     \<exists>r'. run reasm_turn r0 (map (\<lambda>(now, pkt, p). Packet now pkt) es) = Inr (r', map (MessageReady 0) os)
       \<and> one_sided k ip port side' r' \<and> MaxOutOfOrderFragments r' = maxf"
proof (induction es arbitrary: side r0 os)
  case Nil
  then show ?case by auto
next
  case (Cons e es)
  obtain now pkt p where e: "e = (now, pkt, p)" by (metis prod_cases3)
  obtain st side1 o1 where rd: "receive_data maxf False p side = (st, side1, o1)" by (metis prod_cases3)
  obtain side2 o2 where ra: "receive_all maxf (map (snd \<circ> snd) es) side1 = (side2, o2)" by (rule prod.exhaust)
  have out: "side' = side2" "os = o1 @ o2" using Cons.prems(4) e rd ra by (auto simp: comp_def)
  from Cons.prems(1-3) e rd one_sided_data [of k ip port side r0 p pkt st side1 o1 now] obtain r1 where
      r1: "reasm_turn r0 (Packet now pkt) = Inr (r1, map (MessageReady 0) o1)" "one_sided k ip port side1 r1"
      "MaxOutOfOrderFragments r1 = maxf" by auto
  from Cons.prems(3) have es: "\<forall>(now, pkt, p) \<in> set es. of_side k ip port p pkt \<and> tcp_payload p \<noteq> [] \<and> \<not> finOrRst p" by simp
  from Cons.IH [OF r1(2,3) es] ra out(1) obtain r2 where
      "run reasm_turn r1 (map (\<lambda>(now, pkt, p). Packet now pkt) es) = Inr (r2, map (MessageReady 0) o2)"
      "one_sided k ip port side2 r2" "MaxOutOfOrderFragments r2 = maxf" by blast
  with r1(1) out e show ?case by auto
qed

text \<open>The first packet of the connection, a SYN without data.\<close>

lemma one_sided_begin:
  assumes "of_side k ip port p pkt" "synFlag p" "tcp_payload p = []" "\<not> finOrRst p"
  shows "\<exists>r d. reasm_turn (tcp_reassembly cfg now) (Packet t pkt) = Inr (r, [ConnStart d])
    \<and> one_sided k ip port (seq p + 1, []) r \<and> MaxOutOfOrderFragments r = maxOutOfOrderFragments cfg"
proof -
  obtain dst dport where pk: "pkt_ip pkt = Some (ip, dst)" "valid_ip ip" "valid_ip dst" "tcp_layer pkt = Some p" "\<not> has_icmp pkt"
      "tcp_ports pkt = (port, dport)" "hash5Tuple (hash_of pkt) False = k"
    using assms(1) by (cases "tcp_ports pkt") (auto simp: of_side_def)
  define r0 where "r0 = automatic_cleanup t (tcp_reassembly cfg now)"
  have emp: "ConnectionList r0 = [] \<and> MaxOutOfOrderFragments r0 = maxOutOfOrderFragments cfg"
    by (auto simp: r0_def automatic_cleanup_def purgeClosedConnections_def tcp_reassembly_def)
  obtain x status where x: "reassemblePacket t pkt (tcp_reassembly cfg now) = (x, status)" by (rule prod.exhaust)
  have "counted (tcp_reassembly cfg now) x" by (rule reassemble_ok [OF x new_inv])
  then have "reasm_inv (fst x)" by (simp add: counted_def)
  with x emp pk assms(2-4) show ?thesis
    by (auto simp: reasm_turn_def reassemblePacket_def Let_def r0_def [symmetric] one_sided_def side_packet_def
        find_side_def new_conn_def empty_side_def receive_data_def put_conn_def set_side_def)
qed

text \<open>The bytes that the data callback gets for a side.\<close>

definition delivered :: "int \<Rightarrow> reasm_out list \<Rightarrow> byte list" where
  "delivered i os = concat (map (\<lambda>out. case out of MessageReady j (StreamData d m t) \<Rightarrow> (if j = i then d else []) | _ \<Rightarrow> []) os)"

lemma delivered_simps [simp]:
  "delivered i [] = []" "delivered i (os @ ps) = delivered i os @ delivered i ps"
  "delivered i (ConnStart d # os) = delivered i os"
  by (simp_all add: delivered_def)

lemma delivered_messages [simp]: "delivered i (map (MessageReady i) ds) = bytes_of ds"
  by (induction ds) (auto simp: delivered_def bytes_of_def split: stream_data.splits)

section \<open>Properties\<close>

text \<open>
  C9. Every connection is announced once and ended at most once: after any sequence of packets,
  closings and clean-ups, the connections announced under a key are those ended under it, and one
  more exactly if one is open at the end.
\<close>

theorem reasm_start_end:
  assumes "run reasm_turn (tcp_reassembly cfg now) es = Inr (r, os)"
  shows "starts k os = ends k os + (if isConnectionOpen k r = 1 then 1 else 0)"
proof -
  have "counted (tcp_reassembly cfg now) (r, os)" by (rule run_counted [OF new_inv assms])
  then have "opened r k = balance os k" by (simp add: counted_def opened_def tcp_reassembly_def)
  then show ?thesis by (auto simp: balance_def opened_def isConnectionOpen_def split: option.splits if_splits)
qed

text \<open>
  C29. However packets arrive, no side of a connection ever keeps more out-of-order fragments than the
  configured number, and a connection that is closed keeps none.
\<close>

theorem reasm_fragments_bounded:
  assumes "run reasm_turn (tcp_reassembly cfg now) es = Inr (r, os)" "map_of (ConnectionList r) k = Some c"
  shows "(maxOutOfOrderFragments cfg = 0 \<or> length (fragmentList (twoSides c i)) \<le> maxOutOfOrderFragments cfg)
    \<and> \<not> (closed c \<and> i \<in> {0, 1} \<and> fragmentList (twoSides c i) \<noteq> [])"
proof -
  have "counted (tcp_reassembly cfg now) (r, os)" by (rule run_counted [OF new_inv assms(1)])
  then have "reasm_inv r" "MaxOutOfOrderFragments r = maxOutOfOrderFragments cfg"
    by (simp_all add: counted_def tcp_reassembly_def)
  with assms(2) show ?thesis by (auto simp: reasm_inv_def conn_ok_def side_ok_def)
qed

text \<open>
  The clean-up list is exact: at any time it holds the key of every closed connection that is not
  removed yet, once, and of no other; so a clean-up never removes an open connection, and it
  removes at most as many as it was told.
\<close>

theorem reasm_cleanup_exact:
  assumes "run reasm_turn (tcp_reassembly cfg now) es = Inr (r, os)"
  shows "distinct (keys_of (CleanupList r)) \<and> set (keys_of (CleanupList r)) = {k. isConnectionOpen k r = 0}
    \<and> opened (fst (purgeClosedConnections t n r)) = opened r
    \<and> snd (purgeClosedConnections t n r) \<le> (if n = 0 then MaxNumToClean r else n)"
proof -
  have "counted (tcp_reassembly cfg now) (r, os)" by (rule run_counted [OF new_inv assms])
  then have inv: "reasm_inv r" by (simp add: counted_def)
  obtain r' m where "purgeClosedConnections t n r = (r', m)" by force
  with purgeClosed_ok [OF this inv] inv show ?thesis
    by (auto simp: reasm_inv_def isConnectionOpen_def split: option.splits if_splits)
qed

text \<open>
  After \<open>closeAllConnections\<close> no connection is open, whatever happened before, and every connection
  ever announced has been ended.
\<close>

theorem reasm_close_all:
  assumes "run reasm_turn (tcp_reassembly cfg now) (es @ [CloseAll t]) = Inr (r, os)"
  shows "isConnectionOpen k r \<noteq> 1 \<and> starts k os = ends k os"
proof -
  obtain r1 o1 o2 where 1: "run reasm_turn (tcp_reassembly cfg now) es = Inr (r1, o1)"
      "closeAllConnections t r1 = (r, o2)" "os = o1 @ o2"
    using assms by (auto simp: run_append reasm_turn_def split: sum.splits prod.splits)
  have c1: "counted (tcp_reassembly cfg now) (r1, o1)" by (rule run_counted [OF new_inv 1(1)])
  then have "reasm_inv r1" by (simp add: counted_def)
  from close_keys_ok [OF this 1(2) [unfolded closeAllConnections_def]]
  have "\<forall>k. opened r k = (if k \<in> set (map fst (ConnectionList r1)) then 0 else opened r1 k)" by blast
  moreover have "k \<notin> set (map fst (ConnectionList r1)) \<Longrightarrow> opened r1 k = 0"
    by (simp add: opened_def map_of_eq_None_iff [THEN iffD2])
  ultimately have z: "opened r k = 0" by (cases "k \<in> set (map fst (ConnectionList r1))") simp_all
  have "counted (tcp_reassembly cfg now) (r, os)" by (rule run_counted [OF new_inv assms])
  then have "opened r k = balance os k" by (simp add: counted_def opened_def tcp_reassembly_def)
  with z show ?thesis by (auto simp: balance_def opened_def isConnectionOpen_def split: option.splits if_splits)
qed

text \<open>
  C2. The whole way of a stream: a SYN, then the segments of a stream of less than 2 GB in any order,
  repeated or overlapping but together covering it, then a FIN, all of one side and with no limit
  set: the data callback is given exactly the bytes of the stream, in order.
\<close>

theorem reasm_delivers_stream:
  assumes "length whole < 2 ^ 31" "maxOutOfOrderFragments cfg = 0"
    and "of_side k ip port syn spkt" "synFlag syn" "tcp_payload syn = []" "\<not> finOrRst syn"
    and "\<forall>(t, pkt, p) \<in> set es. of_side k ip port p pkt \<and> \<not> finOrRst p \<and> carries (seq syn + 1) whole p"
    and "\<forall>i < length whole. \<exists>(t, pkt, p) \<in> set es. off (seq syn + 1) (frag_of p) \<le> i \<and> i < off_end (seq syn + 1) (frag_of p)"
    and "of_side k ip port fin fpkt" "tcp_payload fin = []" "finOrRst fin"
  shows "\<exists>r os. run reasm_turn (tcp_reassembly cfg now)
      (Packet t0 spkt # map (\<lambda>(t, pkt, p). Packet t pkt) es @ [Packet t1 fpkt]) = Inr (r, os) \<and> delivered 0 os = whole"
proof -
  obtain r0 d where r0: "reasm_turn (tcp_reassembly cfg now) (Packet t0 spkt) = Inr (r0, [ConnStart d])"
      "one_sided k ip port (seq syn + 1, []) r0" "MaxOutOfOrderFragments r0 = 0"
    using one_sided_begin [OF assms(3-6), of cfg now t0] assms(2) by auto
  obtain s fs os where ra: "receive_all 0 (map (snd \<circ> snd) es) (seq syn + 1 + of_nat 0, []) = ((s, fs), os)"
    using pair_left [of "receive_all 0 (map (snd \<circ> snd) es) (seq syn + 1 + of_nat 0, [])"] by blast
  have sg: "\<forall>p \<in> set (map (snd \<circ> snd) es). carries (seq syn + 1) whole p" using assms(7) by auto
  have cov: "\<forall>i < length whole. \<exists>p \<in> set (map (snd \<circ> snd) es). off (seq syn + 1) (frag_of p) \<le> i \<and> i < off_end (seq syn + 1) (frag_of p)"
  proof (intro allI impI)
    fix i
    assume "i < length whole"
    with assms(8) obtain e where "e \<in> set es" "case e of (t, pkt, p) \<Rightarrow> off (seq syn + 1) (frag_of p) \<le> i \<and> i < off_end (seq syn + 1) (frag_of p)"
      by blast
    then show "\<exists>p \<in> set (map (snd \<circ> snd) es). off (seq syn + 1) (frag_of p) \<le> i \<and> i < off_end (seq syn + 1) (frag_of p)"
      by (intro bexI [of _ "snd (snd e)"]) (auto split: prod.splits)
  qed
  have "\<forall>(t, pkt, p) \<in> set es. of_side k ip port p pkt \<and> tcp_payload p \<noteq> [] \<and> \<not> finOrRst p"
    using assms(7) by (fastforce simp: carries_def some_segment_def segment_def)
  from one_sided_all [OF r0(2,3) this] ra obtain r1 where
      r1: "run reasm_turn r0 (map (\<lambda>(t, pkt, p). Packet t pkt) es) = Inr (r1, map (MessageReady 0) os)"
      "one_sided k ip port (s, fs) r1" "MaxOutOfOrderFragments r1 = 0" by auto
  have "arrived (seq syn + 1) whole [] 0 [] []" by (simp add: arrived_def)
  from receive_all_arrived [OF assms(1) sg this ra] obtain n where
      n: "s = seq syn + 1 + of_nat n" "arrived (seq syn + 1) whole (map (snd \<circ> snd) es) n fs (bytes_of os)" by auto
  from check_covered [OF assms(1) n(2) cov] obtain os' where
      os': "checkOutOfOrderFragments 0 True s fs = (seq syn + 1 + of_nat (length whole), [], os')" "bytes_of os @ bytes_of os' = whole"
    using n(1) by auto
  from one_sided_fin [OF r1(2) assms(9-11), of "seq syn + 1 + of_nat (length whole)" "[]" os' t1] os'(1) r1(3) obtain r2 where
      "reasm_turn r1 (Packet t1 fpkt) = Inr (r2, map (MessageReady 0) os')" by auto
  then have "run reasm_turn r1 [Packet t1 fpkt] = Inr (r2, map (MessageReady 0) os')" by simp
  then have full: "run reasm_turn (tcp_reassembly cfg now) (Packet t0 spkt # map (\<lambda>(t, pkt, p). Packet t pkt) es @ [Packet t1 fpkt])
      = Inr (r2, [ConnStart d] @ map (MessageReady 0) os @ map (MessageReady 0) os')"
    using run_Cons_ok [OF r0(1) run_append_ok [OF r1(1)]] by blast
  have "delivered 0 ([ConnStart d] @ map (MessageReady 0) os @ map (MessageReady 0) os') = whole" using os'(2) by simp
  with full show ?thesis by blast
qed

section \<open>Witnesses\<close>

definition demo_cfg :: reasm_config where
  "demo_cfg = \<lparr>removeConnInfo = True, closedConnectionDelay = 5, maxNumToClean = 0, maxOutOfOrderFragments = 0,
     enableBaseBufferClearCondition = True\<rparr>"

definition demo_packet :: "tcp_segment \<Rightarrow> tcp_packet" where
  "demo_packet p = \<lparr>pkt_ip = Some (IPv4Address 1, IPv4Address 2), has_icmp = False, tcp_ports = (80, 1025), tcp_layer = Some p,
     hash_of = \<lparr>net = Some (IPv4Header 1 2 6), is_icmp = False, ports = Some (80, 1025)\<rparr>\<rparr>"

definition demo_fin :: tcp_segment where
  "demo_fin = \<lparr>seq = 104, tcp_payload = [], synFlag = False, finOrRst = True, seg_time = (3, 0)\<rparr>"

abbreviation "demo_events \<equiv>
  [(1, demo_packet (demo_segment 101 [2, 3, 4]), demo_segment 101 [2, 3, 4]),
   (2 :: int, demo_packet (demo_segment 100 [1, 2]), demo_segment 100 [1, 2])]"

lemma demo_hash: "hash_of (demo_packet p) = hash_of (demo_packet demo_syn)"
  by (simp add: demo_packet_def)

lemma demo_of_side: "of_side (hash5Tuple (hash_of (demo_packet demo_syn)) False) (IPv4Address 1) 80 p (demo_packet p)"
  unfolding of_side_def demo_hash [of p] by (simp add: demo_packet_def valid_ip_def)

lemma demo_covered:
  "\<forall>i < length [1 :: byte, 2, 3, 4]. \<exists>(t, pkt, p) \<in> set demo_events. off (seq demo_syn + 1) (frag_of p) \<le> i
      \<and> i < off_end (seq demo_syn + 1) (frag_of p)"
  by (auto simp: off_end_def off_def demo_segment_def demo_syn_def less_Suc_eq numeral_eq_Suc)

lemma demo_stream:
  "\<forall>(t, pkt, p) \<in> set demo_events. of_side (hash5Tuple (hash_of (demo_packet demo_syn)) False) (IPv4Address 1) 80 p pkt
      \<and> \<not> finOrRst p \<and> carries (seq demo_syn + 1) [1, 2, 3, 4] p"
proof -
  have "seq demo_syn + 1 = 100" "\<not> finOrRst (demo_segment a d)" for a d by (simp_all add: demo_syn_def demo_segment_def)
  then show ?thesis using demo_of_side demo_carries by simp
qed

theorem reasm_delivers_stream_witness:
  "\<exists>r os. run reasm_turn (tcp_reassembly demo_cfg 0)
      (Packet 0 (demo_packet demo_syn) # map (\<lambda>(t, pkt, p). Packet t pkt) demo_events
        @ [Packet 3 (demo_packet demo_fin)]) = Inr (r, os) \<and> delivered 0 os = [1, 2, 3, 4]"
  by (rule reasm_delivers_stream [OF _ _ demo_of_side _ _ _ demo_stream demo_covered demo_of_side])
    (simp_all add: demo_syn_def demo_fin_def demo_cfg_def)

lemma demo_run: "\<exists>r os. run reasm_turn (tcp_reassembly cfg 0) es = Inr (r, os)"
  using reasm.run_safe [OF new_inv, of es cfg 0] by (auto simp: list_all_iff)

theorem reasm_start_end_witness:
  "\<exists>r os. run reasm_turn (tcp_reassembly demo_cfg 0) [Packet 0 (demo_packet demo_syn), Close 1 7] = Inr (r, os)
     \<and> starts 7 os = ends 7 os + (if isConnectionOpen 7 r = 1 then 1 else 0)"
  using demo_run [of demo_cfg "[Packet 0 (demo_packet demo_syn), Close 1 7]"] reasm_start_end by blast

theorem reasm_cleanup_exact_witness:
  "\<exists>r os. run reasm_turn (tcp_reassembly demo_cfg 0) [Packet 0 (demo_packet demo_syn), CloseAll 1] = Inr (r, os)
     \<and> distinct (keys_of (CleanupList r)) \<and> set (keys_of (CleanupList r)) = {k. isConnectionOpen k r = 0}
     \<and> snd (purgeClosedConnections 9 1 r) \<le> 1"
proof -
  obtain r os where r: "run reasm_turn (tcp_reassembly demo_cfg 0) [Packet 0 (demo_packet demo_syn), CloseAll 1] = Inr (r, os)"
    using demo_run by blast
  with reasm_cleanup_exact [OF r, of 9 1] show ?thesis by (metis one_neq_zero)
qed

theorem reasm_close_all_witness:
  "\<exists>r os. run reasm_turn (tcp_reassembly demo_cfg 0) ([Packet 0 (demo_packet demo_syn)] @ [CloseAll 1]) = Inr (r, os)
     \<and> isConnectionOpen 7 r \<noteq> 1 \<and> starts 7 os = ends 7 os"
  using demo_run [of demo_cfg "[Packet 0 (demo_packet demo_syn)] @ [CloseAll 1]"] reasm_close_all by blast

theorem reasm_fragments_bounded_witness:
  "\<exists>r os c. run reasm_turn (tcp_reassembly (demo_cfg\<lparr>maxOutOfOrderFragments := 1\<rparr>) 0) [Packet 0 (demo_packet demo_syn)] = Inr (r, os)
     \<and> map_of (ConnectionList r) (hash5Tuple (hash_of (demo_packet demo_syn)) False) = Some c
     \<and> length (fragmentList (twoSides c 0)) \<le> 1"
proof -
  let ?k = "hash5Tuple (hash_of (demo_packet demo_syn)) False" and ?cfg = "demo_cfg\<lparr>maxOutOfOrderFragments := 1\<rparr>"
  obtain r d where r: "reasm_turn (tcp_reassembly ?cfg 0) (Packet 0 (demo_packet demo_syn)) = Inr (r, [ConnStart d])"
      "one_sided ?k (IPv4Address 1) 80 (seq demo_syn + 1, []) r"
    using one_sided_begin [of ?k "IPv4Address 1" 80 demo_syn "demo_packet demo_syn" ?cfg 0 0] demo_of_side
    by (auto simp: demo_syn_def)
  then have run: "run reasm_turn (tcp_reassembly ?cfg 0) [Packet 0 (demo_packet demo_syn)] = Inr (r, [ConnStart d])" by simp
  obtain c where c: "map_of (ConnectionList r) ?k = Some c" using r(2) by (auto simp: one_sided_def)
  have "maxOutOfOrderFragments ?cfg = 1" by simp
  with reasm_fragments_bounded [OF run c, of 0] have "length (fragmentList (twoSides c 0)) \<le> 1" by (metis one_neq_zero)
  with run c show ?thesis by blast
qed

end
