(* ===== verification/LruList.thy ===== *)
theory LruList
  imports OrderedMap Machine
begin

text \<open>
  \<open>Packet++\<close>'s \<open>LRUList.h\<close>: a list of elements, the most recently used first, and a map from each
  element to its place in the list. A place is a node of \<open>std::list\<close>, which stays the same while
  others come and go, so the nodes have numbers; erasing a node that is gone is \<open>Dangling\<close>.
\<close>

section \<open>State and operations\<close>

record 'a lru =
  cacheItemsList :: "(nat \<times> 'a) list"
  cacheItemsMap :: "('a \<times> nat) list"
  maxSize :: nat
  nextNode :: nat

definition lru_new :: "nat \<Rightarrow> 'a lru" where
  "lru_new n = \<lparr>cacheItemsList = [], cacheItemsMap = [], maxSize = n, nextNode = 0\<rparr>"

definition erase_node :: "nat \<Rightarrow> (nat \<times> 'a) list \<Rightarrow> (nat \<times> 'a) list outcome" where
  "erase_node n l = (if n \<in> set (map fst l) then Inr (filter (\<lambda>e. fst e \<noteq> n) l) else Inl Dangling)"

text \<open>
  The insertion at the head; an element that is there already changes its place.
\<close>

definition lru_insert :: "'a::linorder \<Rightarrow> 'a lru \<Rightarrow> 'a lru outcome" where
  "lru_insert x s =
     (let n = nextNode s;
          items = (n, x) # cacheItemsList s
      in bind_out (case map_of (cacheItemsMap s) x of None \<Rightarrow> Inr items | Some old \<Rightarrow> erase_node old items)
           (\<lambda>items'. Inr (s\<lparr>cacheItemsList := items', cacheItemsMap := insert_key x n (cacheItemsMap s),
                             nextNode := n + 1\<rparr>)))"

text \<open>
  \<open>put\<close>: \<open>want\<close> says whether the caller asked for the deleted value, which is then moved out of the
  list; \<open>moved v\<close> is what stays behind, and it is by this value that the map is searched. The result
  is the deleted element, \<open>None\<close> for the return value 0.
\<close>

definition put :: "('a \<Rightarrow> 'a) \<Rightarrow> bool \<Rightarrow> 'a::linorder \<Rightarrow> 'a lru \<Rightarrow> ('a lru \<times> 'a option) outcome" where
  "put moved want x s0 =
     bind_out (lru_insert x s0) (\<lambda>s.
       if length (cacheItemsMap s) > maxSize s then
         (let (n, v) = last (cacheItemsList s);
              left = (if want then moved v else v)
          in Inr (s\<lparr>cacheItemsMap := erase_key left (cacheItemsMap s), cacheItemsList := butlast (cacheItemsList s)\<rparr>,
                  Some v))
       else Inr (s, None))"

definition getMRUElement :: "'a lru \<Rightarrow> 'a outcome" where
  "getMRUElement s = (case cacheItemsList s of [] \<Rightarrow> Inl OutOfBounds | (n, x) # _ \<Rightarrow> Inr x)"

definition getLRUElement :: "'a lru \<Rightarrow> 'a outcome" where
  "getLRUElement s = (if cacheItemsList s = [] then Inl OutOfBounds else Inr (snd (last (cacheItemsList s))))"

definition eraseElement :: "'a \<Rightarrow> 'a lru \<Rightarrow> 'a lru outcome" where
  "eraseElement x s =
     (case map_of (cacheItemsMap s) x of
        None \<Rightarrow> Inr s
      | Some n \<Rightarrow> bind_out (erase_node n (cacheItemsList s))
          (\<lambda>items. Inr (s\<lparr>cacheItemsList := items, cacheItemsMap := erase_key x (cacheItemsMap s)\<rparr>)))"


section \<open>The recency list\<close>

text \<open>
  What the class promises, on a list of different elements.
\<close>

definition touched :: "'a \<Rightarrow> 'a list \<Rightarrow> 'a list" where
  "touched x l = x # filter (\<lambda>y. y \<noteq> x) l"

definition recent_put :: "nat \<Rightarrow> 'a \<Rightarrow> 'a list \<Rightarrow> 'a list \<times> 'a option" where
  "recent_put maxn x l =
     (if length (touched x l) > maxn then (butlast (touched x l), Some (last (touched x l))) else (touched x l, None))"

definition elements :: "'a lru \<Rightarrow> 'a list" where
  "elements s = map snd (cacheItemsList s)"

text \<open>The list and the map agree, every node is older than the next one, and there is room.\<close>

definition lru_core :: "('a::linorder) lru \<Rightarrow> bool" where
  "lru_core s \<longleftrightarrow> distinct (map fst (cacheItemsList s)) \<and> distinct (elements s) \<and> sorted_keys (cacheItemsMap s)
     \<and> (\<forall>x n. map_of (cacheItemsMap s) x = Some n \<longleftrightarrow> (n, x) \<in> set (cacheItemsList s))
     \<and> (\<forall>n \<in> fst ` set (cacheItemsList s). n < nextNode s)"

definition lru_inv :: "('a::linorder) lru \<Rightarrow> bool" where
  "lru_inv s \<longleftrightarrow> lru_core s \<and> length (elements s) \<le> maxSize s"

lemma new_lru_inv [simp]: "lru_inv (lru_new n)" "elements (lru_new n) = []" "maxSize (lru_new n) = n"
  by (simp_all add: lru_inv_def lru_core_def lru_new_def elements_def)

lemma lru_keys: "lru_core s \<Longrightarrow> fst ` set (cacheItemsMap s) = set (elements s)"
  unfolding lru_core_def elements_def
  by (auto simp: image_iff) (metis map_of_is_SomeI sorted_distinct snd_conv, metis map_of_SomeD fst_conv)

lemma lru_length:
  assumes "lru_core s"
  shows "length (cacheItemsMap s) = length (elements s)"
proof -
  have "distinct (map fst (cacheItemsMap s))" using assms by (simp add: lru_core_def sorted_distinct)
  then have "length (cacheItemsMap s) = card (set (map fst (cacheItemsMap s)))" by (metis distinct_card length_map)
  also have "\<dots> = card (set (elements s))" using lru_keys [OF assms] by simp
  also have "\<dots> = length (elements s)" using assms by (simp add: lru_core_def distinct_card)
  finally show ?thesis .
qed

lemma filter_node:
  assumes "distinct (map fst l)" "distinct (map snd l)" "(n, x) \<in> set l"
  shows "filter (\<lambda>e. fst e \<noteq> n) l = filter (\<lambda>e. snd e \<noteq> x) l"
proof (rule filter_cong [OF refl])
  fix e
  assume "e \<in> set l"
  with assms show "fst e \<noteq> n \<longleftrightarrow> snd e \<noteq> x"
    by (metis eq_key_imp_eq_value distinct_map inj_on_eq_iff fst_conv snd_conv prod.collapse)
qed

lemma map_snd_filter: "map snd (filter (\<lambda>e. snd e \<noteq> x) l) = filter (\<lambda>y. y \<noteq> x) (map snd l)"
  by (simp add: filter_map comp_def)

lemma lru_insert_core:
  assumes "lru_core s"
  shows "\<exists>s'. lru_insert x s = Inr s' \<and> lru_core s' \<and> elements s' = touched x (elements s) \<and> maxSize s' = maxSize s"
proof -
  let ?n = "nextNode s"
  let ?items = "(?n, x) # filter (\<lambda>e. snd e \<noteq> x) (cacheItemsList s)"
  have fresh: "n < ?n" if "(n, y) \<in> set (cacheItemsList s)" for n y
    using assms that by (force simp: lru_core_def)
  have ins: "lru_insert x s = Inr (s\<lparr>cacheItemsList := ?items, cacheItemsMap := insert_key x ?n (cacheItemsMap s),
      nextNode := ?n + 1\<rparr>)"
  proof (cases "map_of (cacheItemsMap s) x")
    case None
    then have "\<forall>e \<in> set (cacheItemsList s). snd e \<noteq> x" using assms by (metis lru_core_def not_None_eq prod.collapse)
    then have "filter (\<lambda>e. snd e \<noteq> x) (cacheItemsList s) = cacheItemsList s" by (simp add: filter_id_conv)
    with None show ?thesis by (simp add: lru_insert_def Let_def)
  next
    case (Some old)
    then have mem: "(old, x) \<in> set (cacheItemsList s)" using assms by (simp add: lru_core_def)
    then have "old \<noteq> ?n" using fresh by force
    moreover have "filter (\<lambda>e. fst e \<noteq> old) (cacheItemsList s) = filter (\<lambda>e. snd e \<noteq> x) (cacheItemsList s)"
      using assms mem by (intro filter_node) (simp_all add: lru_core_def elements_def)
    moreover have "old \<in> fst ` set (cacheItemsList s)" using mem by force
    ultimately show ?thesis using Some by (simp add: lru_insert_def erase_node_def Let_def)
  qed
  have el: "map snd ?items = touched x (elements s)" by (simp add: touched_def elements_def map_snd_filter)
  moreover have "distinct (map snd ?items)"
    using assms unfolding el by (simp add: touched_def lru_core_def)
  moreover have "distinct (map fst ?items)"
    using assms fresh by (force simp: lru_core_def distinct_map_filter)
  moreover have "(map_of (insert_key x ?n (cacheItemsMap s)) y = Some m) \<longleftrightarrow> ((m, y) \<in> set ?items)" for y m
    using assms by (auto simp: lru_core_def)
  moreover have "\<forall>m \<in> fst ` set ?items. m < ?n + 1" using fresh by (auto simp: less_Suc_eq)
  moreover have "sorted_keys (insert_key x ?n (cacheItemsMap s))" using assms by (simp add: lru_core_def)
  ultimately show ?thesis unfolding ins by (auto simp: lru_core_def elements_def)
qed

text \<open>Dropping the last one, the map searched by its own value.\<close>

lemma lru_drop_core:
  assumes "lru_core s" "cacheItemsList s \<noteq> []" "last (cacheItemsList s) = (n, v)"
  shows "lru_core (s\<lparr>cacheItemsMap := erase_key v (cacheItemsMap s), cacheItemsList := butlast (cacheItemsList s)\<rparr>)"
proof -
  obtain l where l: "cacheItemsList s = l @ [(n, v)]" using assms(2,3) by (metis append_butlast_last_id)
  have "v \<notin> snd ` set l" "n \<notin> fst ` set l" using assms(1) by (auto simp: lru_core_def elements_def l)
  then have "(map_of (erase_key v (cacheItemsMap s)) y = Some m) \<longleftrightarrow> ((m, y) \<in> set l)" for y m
    using assms(1) by (force simp: map_of_erase_key lru_core_def l)
  with assms(1) show ?thesis by (auto simp: lru_core_def elements_def l sorted_erase_key)
qed

lemma put_recent:
  assumes "lru_inv s" "want \<Longrightarrow> moved = (\<lambda>v. v)"
  shows "\<exists>s'. put moved want x s = Inr (s', snd (recent_put (maxSize s) x (elements s))) \<and> lru_inv s'
    \<and> elements s' = fst (recent_put (maxSize s) x (elements s)) \<and> maxSize s' = maxSize s"
proof -
  from assms(1) have core: "lru_core s" by (simp add: lru_inv_def)
  from lru_insert_core [OF core] obtain s1 where
    s1: "lru_insert x s = Inr s1" "lru_core s1" "elements s1 = touched x (elements s)" "maxSize s1 = maxSize s" by blast
  have len: "length (touched x (elements s)) \<le> Suc (length (elements s))"
    by (simp add: touched_def)
  show ?thesis
  proof (cases "length (elements s1) > maxSize s")
    case False
    with s1 show ?thesis by (auto simp: put_def lru_length lru_inv_def recent_put_def)
  next
    case True
    have ne: "cacheItemsList s1 \<noteq> []" using s1(3) by (auto simp: elements_def touched_def)
    obtain n v where nv: "last (cacheItemsList s1) = (n, v)" by force
    then have v: "v = last (elements s1)" using ne by (simp add: elements_def last_map)
    let ?s = "s1\<lparr>cacheItemsMap := erase_key v (cacheItemsMap s1), cacheItemsList := butlast (cacheItemsList s1)\<rparr>"
    have "put moved want x s = Inr (?s, Some v)"
      using s1 True nv assms(2) by (cases want) (simp_all add: put_def lru_length)
    moreover have "elements ?s = butlast (elements s1)" by (simp add: elements_def map_butlast)
    moreover have "lru_core ?s" by (rule lru_drop_core [OF s1(2) ne nv])
    ultimately show ?thesis using s1 True v len assms(1) by (auto simp: lru_inv_def recent_put_def)
  qed
qed

lemma erase_recent:
  assumes "lru_inv s"
  shows "\<exists>s'. eraseElement x s = Inr s' \<and> lru_inv s' \<and> elements s' = filter (\<lambda>y. y \<noteq> x) (elements s) \<and> maxSize s' = maxSize s"
proof (cases "map_of (cacheItemsMap s) x")
  case None
  then have "x \<notin> set (elements s)" using assms lru_keys [of s] by (auto simp: lru_inv_def map_of_eq_None_iff)
  then have "filter (\<lambda>y. y \<noteq> x) (elements s) = elements s" by (auto simp: filter_id_conv)
  with None assms show ?thesis by (simp add: eraseElement_def)
next
  case (Some n)
  from assms have core: "lru_core s" by (simp add: lru_inv_def)
  have mem: "(n, x) \<in> set (cacheItemsList s)" using core Some by (simp add: lru_core_def)
  let ?items = "filter (\<lambda>e. snd e \<noteq> x) (cacheItemsList s)"
  have "filter (\<lambda>e. fst e \<noteq> n) (cacheItemsList s) = ?items"
    using core mem by (intro filter_node) (simp_all add: lru_core_def elements_def)
  moreover have "n \<in> fst ` set (cacheItemsList s)" using mem by force
  ultimately have er: "eraseElement x s = Inr (s\<lparr>cacheItemsList := ?items, cacheItemsMap := erase_key x (cacheItemsMap s)\<rparr>)"
    using Some by (simp add: eraseElement_def erase_node_def)
  have el: "map snd ?items = filter (\<lambda>y. y \<noteq> x) (elements s)" by (simp add: elements_def map_snd_filter)
  have "(map_of (erase_key x (cacheItemsMap s)) y = Some m) \<longleftrightarrow> ((m, y) \<in> set ?items)" for y m
    using core by (auto simp: map_of_erase_key lru_core_def)
  moreover have "distinct (map snd ?items)" using core unfolding el by (simp add: lru_core_def)
  moreover have "length (map snd ?items) \<le> maxSize s"
    unfolding el using assms by (meson length_filter_le lru_inv_def order_trans)
  ultimately show ?thesis unfolding er using core el
    by (auto simp: lru_inv_def lru_core_def elements_def distinct_map_filter sorted_erase_key comp_def)
qed

section \<open>Refinement\<close>

text \<open>The object driven by its two operations, and the recency list driven by the same.\<close>

datatype 'a lru_call = Put bool 'a | EraseElement 'a

definition lru_turn :: "('a \<Rightarrow> 'a) \<Rightarrow> ('a::linorder lru, 'a lru_call, 'a option) handler" where
  "lru_turn moved s e =
     (case e of
        Put want x \<Rightarrow> bind_out (put moved want x s) (\<lambda>(s', del). Inr (s', [del]))
      | EraseElement x \<Rightarrow> bind_out (eraseElement x s) (\<lambda>s'. Inr (s', [])))"

fun recent_turn :: "nat \<Rightarrow> 'a list \<Rightarrow> 'a lru_call \<Rightarrow> 'a list \<times> 'a option list" where
  "recent_turn maxn l (Put want x) = (fst (recent_put maxn x l), [snd (recent_put maxn x l)])"
| "recent_turn maxn l (EraseElement x) = (filter (\<lambda>y. y \<noteq> x) l, [])"

definition lru_rel :: "nat \<Rightarrow> ('a::linorder) lru \<Rightarrow> 'a list \<Rightarrow> bool" where
  "lru_rel maxn s l \<longleftrightarrow> lru_inv s \<and> elements s = l \<and> maxSize s = maxn"

text \<open>A call is harmless if it does not ask for the deleted value or the value is only copied.\<close>

definition harmless :: "('a \<Rightarrow> 'a) \<Rightarrow> 'a lru_call \<Rightarrow> bool" where
  "harmless moved e \<longleftrightarrow> (case e of Put want x \<Rightarrow> want \<longrightarrow> moved = (\<lambda>v. v) | EraseElement x \<Rightarrow> True)"

interpretation lru: simulation "lru_turn moved" "recent_turn maxn" "lru_rel maxn" "\<lambda>os. os" "harmless moved"
proof
  fix s :: "'a lru" and l e
  assume r: "lru_rel maxn s l" and ok: "harmless moved e"
  then have inv: "lru_inv s" by (simp add: lru_rel_def)
  show "\<exists>s' os. lru_turn moved s e = Inr (s', os) \<and> lru_rel maxn s' (fst (recent_turn maxn l e)) \<and> os = snd (recent_turn maxn l e)"
  proof (cases e)
    case (Put want x)
    with ok have "want \<Longrightarrow> moved = (\<lambda>v. v)" by (simp add: harmless_def)
    from put_recent [OF inv this] r Put show ?thesis by (force simp: lru_turn_def lru_rel_def)
  next
    case (EraseElement x)
    with erase_recent [OF inv] r show ?thesis by (force simp: lru_turn_def lru_rel_def)
  qed
qed simp_all

section \<open>Properties\<close>


text \<open>
  With a type whose values are emptied by a move (\<open>std::string\<close> in C++11), a put that asks for the
  deleted value searches the map for the emptied one. The entry stays, and the next put of that
  element erases a list node that is gone.
\<close>

lemma lru_moved_dangles:
  assumes "moved (a :: 'a::linorder) = e" "e \<noteq> a" "e \<noteq> b" "a \<noteq> b"
  shows "run (lru_turn moved) (lru_new 1) [Put True a, Put True b, Put True a] = Inl Dangling"
proof -
  consider "a < b" | "b < a" using assms(4) by (meson neqE)
  then show ?thesis
    using assms
    by cases (auto simp: run.simps(2) lru_turn_def put_def lru_insert_def lru_new_def erase_key_def erase_node_def)
qed


end
