(* ===== verification/IpReassembly.thy ===== *)
theory IpReassembly
  imports LruList PacketUtils
begin

text \<open>
  \<open>Packet++/IPReassembly.cpp\<close>: fragments of IPv4 and IPv6 packets collected under the hash of their
  addresses and id, at most so many packets at a time. A packet is seen as its raw data in parts: the
  bytes in front of the IP header, the header with its fields as they stand in memory (in network
  byte order), and what follows, of which the first part is the payload of the IP layer. What is
  handed out at the end is the raw data of the first fragment with the other payloads behind it,
  after the IP layer has set its length, offset and checksum fields and, for IPv6, has taken its
  extension headers out.
\<close>

unbundle bit_operations_syntax

section \<open>Fragments\<close>

text \<open>
  \<open>struct iphdr\<close> with the options behind it; the length of the header in words is that of the
  twenty bytes and the options. The header is taken to lie in the data, as the parser checks.
\<close>

record iphdr =
  ip4_version :: "4 word"
  ip4_typeOfService :: byte
  ip4_totalLength :: "16 word"
  ip4_id :: "16 word"
  ip4_fragmentOffset :: "16 word"
  ip4_timeToLive :: byte
  ip4_protocol :: byte
  ip4_headerChecksum :: "16 word"
  ip4_src :: "32 word"
  ip4_dst :: "32 word"
  ip4_options :: "byte list"

text \<open>\<open>struct ip6_hdr\<close>, and the extension headers: each begins with the type of the next one.\<close>

record ip6_hdr =
  ip6_version :: "4 word"
  ip6_trafficClass :: "4 word"
  ip6_flowLabel :: "byte list"
  ip6_payloadLength :: "16 word"
  ip6_nextHeader :: byte
  ip6_hopLimit :: byte
  ip6_src :: "byte list"
  ip6_dst :: "byte list"

datatype ip6_extension =
    FragmentHeader byte byte "16 word" "32 word"
  | OtherExtension byte "byte list"

datatype ip_layer = V4 iphdr | V6 ip6_hdr "ip6_extension list"

fun is_v6 :: "ip_layer \<Rightarrow> bool" where
  "is_v6 (V4 h) = False"
| "is_v6 (V6 h es) = True"

text \<open>The fragment offset field and the id of the first fragmentation header.\<close>

fun fragment_header :: "ip6_extension list \<Rightarrow> (16 word \<times> 32 word) option" where
  "fragment_header [] = None"
| "fragment_header (FragmentHeader nextHeader reserved fo fid # es) = Some (fo, fid)"
| "fragment_header (OtherExtension nextHeader bs # es) = fragment_header es"

text \<open>The bytes in memory.\<close>

definition nibbles :: "4 word \<Rightarrow> 4 word \<Rightarrow> byte" where
  "nibbles high low = push_bit 4 (ucast high) OR ucast low"

definition ip4_internetHeaderLength :: "iphdr \<Rightarrow> 4 word" where
  "ip4_internetHeaderLength h = of_nat ((20 + length (ip4_options h)) div 4)"

definition ip4_getHeaderLen :: "iphdr \<Rightarrow> nat" where
  "ip4_getHeaderLen h = unat (ip4_internetHeaderLength h) * 4"

definition iphdr_bytes :: "iphdr \<Rightarrow> byte list" where
  "iphdr_bytes h = [nibbles (ip4_version h) (ip4_internetHeaderLength h), ip4_typeOfService h]
     @ bytes16 (ip4_totalLength h) @ bytes16 (ip4_id h) @ bytes16 (ip4_fragmentOffset h)
     @ [ip4_timeToLive h, ip4_protocol h] @ bytes16 (ip4_headerChecksum h)
     @ bytes32 (ip4_src h) @ bytes32 (ip4_dst h) @ ip4_options h"

definition ip6_hdr_bytes :: "ip6_hdr \<Rightarrow> byte list" where
  "ip6_hdr_bytes h = [nibbles (ip6_version h) (ip6_trafficClass h)] @ ip6_flowLabel h @ bytes16 (ip6_payloadLength h)
     @ [ip6_nextHeader h, ip6_hopLimit h] @ ip6_src h @ ip6_dst h"

fun ip6_next :: "ip6_extension \<Rightarrow> byte" where
  "ip6_next (FragmentHeader nextHeader reserved fo fid) = nextHeader"
| "ip6_next (OtherExtension nextHeader bs) = nextHeader"

fun extension_bytes :: "ip6_extension \<Rightarrow> byte list" where
  "extension_bytes (FragmentHeader nextHeader reserved fo fid) = [nextHeader, reserved] @ bytes16 fo @ bytes32 fid"
| "extension_bytes (OtherExtension nextHeader bs) = nextHeader # bs"

definition ip6_extensionsLen :: "ip6_extension list \<Rightarrow> nat" where
  "ip6_extensionsLen es = length (concat (map extension_bytes es))"

fun layer_bytes :: "ip_layer \<Rightarrow> byte list" where
  "layer_bytes (V4 h) = iphdr_bytes h"
| "layer_bytes (V6 h es) = ip6_hdr_bytes h @ concat (map extension_bytes es)"

text \<open>Raw data in which parsing finds an IP layer, and a packet.\<close>

record ip_raw =
  raw_front :: "byte list"
  raw_layer :: ip_layer
  raw_rest :: "byte list"

definition raw_bytes :: "ip_raw \<Rightarrow> byte list" where
  "raw_bytes r = raw_front r @ layer_bytes (raw_layer r) @ raw_rest r"

record ip_packet =
  frontBytes :: "byte list"
  ipLayer :: "ip_layer option"
  ip_payload :: "byte list"
  trailingBytes :: "byte list"

definition raw_of :: "ip_packet \<Rightarrow> ip_layer \<Rightarrow> ip_raw" where
  "raw_of p l = \<lparr>raw_front = frontBytes p, raw_layer = l, raw_rest = ip_payload p @ trailingBytes p\<rparr>"

definition PCPP_IP_MORE_FRAGMENTS :: "16 word" where "PCPP_IP_MORE_FRAGMENTS = 0x20"

definition v4_getFragmentFlags :: "16 word \<Rightarrow> 16 word" where
  "v4_getFragmentFlags fragmentOffset = fragmentOffset AND 0xE0"

definition v4_getFragmentOffset :: "16 word \<Rightarrow> 16 word" where
  "v4_getFragmentOffset fragmentOffset = ntohs (fragmentOffset AND 0xFF1F) * 8"

definition v4_isFragment :: "16 word \<Rightarrow> bool" where
  "v4_isFragment fo \<longleftrightarrow> v4_getFragmentFlags fo AND PCPP_IP_MORE_FRAGMENTS \<noteq> 0 \<or> v4_getFragmentOffset fo \<noteq> 0"

definition v4_isFirstFragment :: "16 word \<Rightarrow> bool" where
  "v4_isFirstFragment fo \<longleftrightarrow> v4_isFragment fo \<and> v4_getFragmentOffset fo = 0"

definition v4_isLastFragment :: "16 word \<Rightarrow> bool" where
  "v4_isLastFragment fo \<longleftrightarrow> v4_isFragment fo \<and> v4_getFragmentFlags fo AND PCPP_IP_MORE_FRAGMENTS = 0"

definition v6_isMoreFragments :: "16 word \<Rightarrow> bool" where
  "v6_isMoreFragments fo \<longleftrightarrow> drop_bit 8 (fo AND 0x0100) = 1"

definition v6_getFragmentOffset :: "16 word \<Rightarrow> 16 word" where
  "v6_getFragmentOffset fo = drop_bit 3 (ntohs (fo AND 0xf8ff)) * 8"

text \<open>The field that the constructor of the fragmentation header writes.\<close>

definition IPv6FragmentationHeader :: "16 word \<Rightarrow> bool \<Rightarrow> 16 word" where
  "IPv6FragmentationHeader fragOffset lastFragment =
     (let fo = htons (push_bit 3 (fragOffset div 8)) AND 0xf8ff
      in if lastFragment then fo else fo OR 0x0100)"

fun isFragment :: "ip_layer \<Rightarrow> bool" where
  "isFragment (V4 h) = v4_isFragment (ip4_fragmentOffset h)"
| "isFragment (V6 h es) = (fragment_header es \<noteq> None)"

fun isFirstFragment :: "ip_layer \<Rightarrow> bool" where
  "isFirstFragment (V4 h) = v4_isFirstFragment (ip4_fragmentOffset h)"
| "isFirstFragment (V6 h es) =
     (case fragment_header es of None \<Rightarrow> False | Some (fo, fid) \<Rightarrow> v6_getFragmentOffset fo = 0)"

fun isLastFragment :: "ip_layer \<Rightarrow> bool" where
  "isLastFragment (V4 h) = v4_isLastFragment (ip4_fragmentOffset h)"
| "isLastFragment (V6 h es) =
     (case fragment_header es of None \<Rightarrow> False | Some (fo, fid) \<Rightarrow> \<not> v6_isMoreFragments fo)"

fun getFragmentOffset :: "ip_layer \<Rightarrow> 16 word" where
  "getFragmentOffset (V4 h) = v4_getFragmentOffset (ip4_fragmentOffset h)"
| "getFragmentOffset (V6 h es) =
     (case fragment_header es of None \<Rightarrow> 0 | Some (fo, fid) \<Rightarrow> v6_getFragmentOffset fo)"

text \<open>The keys; \<open>getFragmentId\<close> and the key are only asked of fragments.\<close>

datatype packet_key =
    IPv4PacketKey "16 word" "32 word" "32 word"
  | IPv6PacketKey "32 word" "byte list" "byte list"

fun key_is_v6 :: "packet_key \<Rightarrow> bool" where
  "key_is_v6 (IPv4PacketKey ipId src dst) = False"
| "key_is_v6 (IPv6PacketKey fid src dst) = True"

fun getFragmentId :: "ip_layer \<Rightarrow> 32 word" where
  "getFragmentId (V4 h) = ucast (ntohs (ip4_id h))"
| "getFragmentId (V6 h es) = (case fragment_header es of Some (fo, fid) \<Rightarrow> be32toh fid | None \<Rightarrow> 0)"

fun createPacketKey :: "ip_layer \<Rightarrow> packet_key" where
  "createPacketKey (V4 h) = IPv4PacketKey (ntohs (ip4_id h)) (ip4_src h) (ip4_dst h)"
| "createPacketKey (V6 h es) = IPv6PacketKey (getFragmentId (V6 h es)) (ip6_src h) (ip6_dst h)"

fun hashPacket :: "ip_layer \<Rightarrow> 32 word" where
  "hashPacket (V4 h) = fnvHash [bytes32 (ip4_src h), bytes32 (ip4_dst h), bytes16 (ip4_id h)]"
| "hashPacket (V6 h es) =
     (case fragment_header es of None \<Rightarrow> 0 | Some (fo, fid) \<Rightarrow> fnvHash [ip6_src h, ip6_dst h, bytes32 fid])"

fun getHashValue :: "packet_key \<Rightarrow> 32 word" where
  "getHashValue (IPv4PacketKey ipId src dst) = fnvHash [bytes32 src, bytes32 dst, bytes16 (htons ipId)]"
| "getHashValue (IPv6PacketKey fid src dst) = fnvHash [src, dst, bytes32 (be32toh fid)]"

text \<open>The two functions outside the class; addresses are in network byte order.\<close>

definition IPReassemblyHashPacket :: "32 word \<Rightarrow> 32 word \<Rightarrow> 16 word \<Rightarrow> 32 word" where
  "IPReassemblyHashPacket ipSrc ipDst ipId = fnvHash [bytes32 ipSrc, bytes32 ipDst, bytes16 ipId]"

definition IPReassemblyHashBy3Tuple :: "32 word \<Rightarrow> 32 word \<Rightarrow> 16 word \<Rightarrow> 32 word" where
  "IPReassemblyHashBy3Tuple ipSrc ipDst ipID = fnvHash [bytes32 ipSrc, bytes32 ipDst, bytes16 (htons ipID)]"

section \<open>State\<close>

record ip_fragment =
  fragmentOffset :: "16 word"
  lastFragment :: bool
  fragmentData :: "byte list"

record fragment_data =
  currentOffset :: "16 word"
  data_of :: "ip_raw option"
  fragmentID :: "32 word"
  packetKey :: packet_key
  outOfOrderFragments :: "ip_fragment list"

record ip_reassembly =
  PacketLRU :: "32 word lru"
  FragmentMap :: "(32 word \<times> fragment_data) list"

datatype ip_status =
    NON_IP_PACKET | NON_FRAGMENT | FIRST_FRAGMENT | FRAGMENT | OUT_OF_ORDER_FRAGMENT | MALFORMED_FRAGMENT | REASSEMBLED

text \<open>What \<open>processPacket\<close> returns: its argument, no packet, or a new one.\<close>

datatype ip_result = SamePacket | NoPacket | NewPacket ip_raw

datatype ip_out = Processed ip_status ip_result | FragmentsClean packet_key

definition ip_reassembly_new :: "nat \<Rightarrow> ip_reassembly" where
  "ip_reassembly_new maxPackets = \<lparr>PacketLRU = lru_new maxPackets, FragmentMap = []\<rparr>"

definition new_fragment_data :: "packet_key \<Rightarrow> 32 word \<Rightarrow> fragment_data" where
  "new_fragment_data key fid = \<lparr>currentOffset = 0, data_of = None, fragmentID = fid, packetKey = key, outOfOrderFragments = []\<rparr>"

section \<open>Operations\<close>

text \<open>
  One pass over the waiting fragments: the offset and the data after it, those that still wait,
  and whether one matched and whether one of these was the last of the packet.
\<close>

fun match_pass :: "16 word \<Rightarrow> byte list \<Rightarrow> ip_fragment list \<Rightarrow> 16 word \<times> byte list \<times> ip_fragment list \<times> bool \<times> bool" where
  "match_pass off d [] = (off, d, [], False, False)"
| "match_pass off d (f # fs) =
     (if off = fragmentOffset f then
        (case match_pass (off + of_nat (length (fragmentData f))) (d @ fragmentData f) fs of
           (off', d', kept, found, isLast) \<Rightarrow> (off', d', kept, True, isLast \<or> lastFragment f))
      else (case match_pass off d fs of (off', d', kept, found, isLast) \<Rightarrow> (off', d', f # kept, found, isLast)))"

lemma match_pass_shrinks:
  "match_pass off d fs = (off', d', kept, found, isLast) \<Longrightarrow>
     length kept \<le> length fs \<and> (found \<longrightarrow> length kept < length fs) \<and> (isLast \<longrightarrow> found)"
proof (induction off d fs arbitrary: off' d' kept found isLast rule: match_pass.induct)
  case (2 off d f fs)
  then show ?case by (fastforce split: if_splits prod.splits)
qed simp

text \<open>\<open>matchOutOfOrderFragments\<close>: passes until the last fragment is found or none matches.\<close>

function matchOutOfOrderFragments :: "16 word \<Rightarrow> byte list \<Rightarrow> ip_fragment list \<Rightarrow> 16 word \<times> byte list \<times> ip_fragment list \<times> bool" where
  "matchOutOfOrderFragments off d fs =
     (case match_pass off d fs of (off', d', kept, found, isLast) \<Rightarrow>
        if isLast then (off', d', kept, True)
        else if \<not> found then (off', d', kept, False)
        else matchOutOfOrderFragments off' d' kept)"
  by pat_completeness auto
termination
  by (relation "measure (\<lambda>(off, d, fs). length fs)") (auto dest!: sym [of _ "match_pass _ _ _"] match_pass_shrinks)

declare matchOutOfOrderFragments.simps [simp del]

text \<open>The data of a fragment are appended to the raw data, so behind the rest.\<close>

definition match_data :: "ip_raw \<Rightarrow> fragment_data \<Rightarrow> fragment_data \<times> bool" where
  "match_data d fd =
     (case matchOutOfOrderFragments (currentOffset fd) (raw_rest d) (outOfOrderFragments fd) of
        (off, rest, kept, isLast) \<Rightarrow>
          (fd\<lparr>currentOffset := off, data_of := Some (d\<lparr>raw_rest := rest\<rparr>), outOfOrderFragments := kept\<rparr>, isLast))"

definition addNewFragment :: "32 word \<Rightarrow> fragment_data \<Rightarrow> ip_reassembly \<Rightarrow> (ip_reassembly \<times> ip_out list) outcome" where
  "addNewFragment hash fd s =
     bind_out (put (\<lambda>v. v) True hash (PacketLRU s)) (\<lambda>(lru, removed).
       case removed of
         None \<Rightarrow> Inr (s\<lparr>PacketLRU := lru, FragmentMap := insert_key hash fd (FragmentMap s)\<rparr>, [])
       | Some h \<Rightarrow>
           (case map_of (FragmentMap s) h of
              None \<Rightarrow> Inl NullDeref
            | Some old \<Rightarrow>
                Inr (s\<lparr>PacketLRU := lru, FragmentMap := insert_key hash fd (erase_key h (FragmentMap s))\<rparr>,
                     [FragmentsClean (packetKey old)])))"

text \<open>
  The part of \<open>processPacket\<close> that deals with the stored data: the new data, the status so far, and
  whether the last fragment was seen; \<open>None\<close> in the place of the latter is an early return.
\<close>

definition take_fragment :: "ip_packet \<Rightarrow> ip_layer \<Rightarrow> fragment_data \<Rightarrow> fragment_data \<times> ip_status \<times> bool option" where
  "take_fragment p l fd =
     (if isFirstFragment l then
        (case data_of fd of
           None \<Rightarrow>
             (case match_data (raw_of p l) (fd\<lparr>currentOffset := of_nat (length (ip_payload p))\<rparr>) of
                (fd', isLast) \<Rightarrow> (fd', FIRST_FRAGMENT, Some isLast))
         | Some d \<Rightarrow> (fd, FRAGMENT, None))
      else if currentOffset fd = getFragmentOffset l then
        (case data_of fd of
           None \<Rightarrow> (fd, MALFORMED_FRAGMENT, None)
         | Some d \<Rightarrow>
             let d' = d\<lparr>raw_rest := raw_rest d @ ip_payload p\<rparr>;
                 fd' = fd\<lparr>data_of := Some d', currentOffset := currentOffset fd + of_nat (length (ip_payload p))\<rparr>
             in if isLastFragment l then (fd', NON_IP_PACKET, Some True)
                else (case match_data d' fd' of (fd'', isLast) \<Rightarrow> (fd'', NON_IP_PACKET, Some isLast)))
      else if getFragmentOffset l > currentOffset fd then
        (fd\<lparr>outOfOrderFragments := outOfOrderFragments fd @
              [\<lparr>fragmentOffset = getFragmentOffset l, lastFragment = isLastFragment l, fragmentData = ip_payload p\<rparr>]\<rparr>,
         OUT_OF_ORDER_FRAGMENT, None)
      else (fd, NON_IP_PACKET, Some False))"

definition put_data :: "32 word \<Rightarrow> fragment_data \<Rightarrow> ip_reassembly \<Rightarrow> ip_reassembly" where
  "put_data hash fd s = s\<lparr>FragmentMap := insert_key hash fd (FragmentMap s)\<rparr>"

section \<open>The finished packet\<close>

text \<open>
  Before a packet is handed out its data are parsed twice. After the first time the length field of
  the IP layer is set, for IPv6 in the byte order of the machine and with the length of the header;
  the second time the layer takes its length from that field when it is smaller than what is there
  (\<open>initLayerInPacket\<close> of \<open>IPv4Layer\<close>, the constructor of \<open>IPv6Layer\<close>), and then its fields are computed
  from its length. The header that parsing finds is the one the first fragment had; the type of the
  next layer is not changed by \<open>computeCalculateFields\<close>, as it is what that layer was recognised by.
  A layer of the version of the key that is not there is a null pointer.
\<close>

definition fix_length :: "bool \<Rightarrow> 16 word \<Rightarrow> ip_raw \<Rightarrow> ip_raw outcome" where
  "fix_length v6 off r =
     (case raw_layer r of
        V4 h \<Rightarrow>
          if v6 then Inl NullDeref
          else Inr (r\<lparr>raw_layer := V4 (h\<lparr>ip4_totalLength := htons (off + of_nat (ip4_getHeaderLen h))\<rparr>)\<rparr>)
      | V6 h es \<Rightarrow>
          if v6 then Inr (r\<lparr>raw_layer := V6 (h\<lparr>ip6_payloadLength := off + of_nat (40 + ip6_extensionsLen es)\<rparr>) es\<rparr>)
          else Inl NullDeref)"

definition v4_dataLen :: "iphdr \<Rightarrow> nat \<Rightarrow> nat" where
  "v4_dataLen h n = (let totalLen = unat (ntohs (ip4_totalLength h)) in if totalLen < n \<and> totalLen \<noteq> 0 then totalLen else n)"

definition v6_dataLen :: "ip6_hdr \<Rightarrow> ip6_extension list \<Rightarrow> nat \<Rightarrow> nat" where
  "v6_dataLen h es n =
     (let totalLen = unat (ntohs (ip6_payloadLength h)) + (40 + ip6_extensionsLen es) in if totalLen < n then totalLen else n)"

definition v4_computeCalculateFields :: "nat \<Rightarrow> iphdr \<Rightarrow> iphdr" where
  "v4_computeCalculateFields dataLen h =
     (let h = h\<lparr>ip4_version := 4, ip4_totalLength := htons (of_nat dataLen), ip4_headerChecksum := 0\<rparr>
      in h\<lparr>ip4_headerChecksum :=
             htons (of_nat (computeChecksum [take (unat (ip4_internetHeaderLength h) * 4) (iphdr_bytes h)]))\<rparr>)"

definition v6_computeCalculateFields :: "nat \<Rightarrow> ip6_hdr \<Rightarrow> ip6_hdr" where
  "v6_computeCalculateFields dataLen h = h\<lparr>ip6_payloadLength := htons (of_nat (dataLen - 40)), ip6_version := 6\<rparr>"

text \<open>\<open>shortenLayer\<close> takes the bytes out and makes the layer shorter by as many.\<close>

definition removeAllExtensions :: "nat \<Rightarrow> ip6_hdr \<Rightarrow> ip6_extension list \<Rightarrow> ip6_hdr \<times> nat" where
  "removeAllExtensions dataLen h es =
     (if es = [] then h else h\<lparr>ip6_nextHeader := ip6_next (last es)\<rparr>, dataLen - ip6_extensionsLen es)"

text \<open>
  The offset is set to zero between the two times by \<open>processPacket\<close> and after the second by
  \<open>getCurrentPacket\<close>; the length of the layer does not depend on it.
\<close>

definition recompute :: "bool \<Rightarrow> ip_raw \<Rightarrow> ip_raw outcome" where
  "recompute v6 r =
     (case raw_layer r of
        V4 h \<Rightarrow>
          if v6 then Inl NullDeref
          else let dataLen = v4_dataLen h (length (iphdr_bytes h @ raw_rest r))
               in Inr (r\<lparr>raw_layer := V4 (v4_computeCalculateFields dataLen (h\<lparr>ip4_fragmentOffset := 0\<rparr>))\<rparr>)
      | V6 h es \<Rightarrow>
          if v6 then
            (case removeAllExtensions (v6_dataLen h es (40 + ip6_extensionsLen es + length (raw_rest r))) h es of
               (h', dataLen) \<Rightarrow> Inr (r\<lparr>raw_layer := V6 (v6_computeCalculateFields dataLen h') []\<rparr>))
          else Inl NullDeref)"

definition finish_packet :: "packet_key \<Rightarrow> packet_key \<Rightarrow> 16 word \<Rightarrow> ip_raw \<Rightarrow> ip_raw outcome" where
  "finish_packet storedKey key off r =
     bind_out (fix_length (key_is_v6 storedKey) off r) (recompute (key_is_v6 key))"

text \<open>
  \<open>processPacket\<close>. The iterator found at the begin is erased at the end, so a packet that is
  completed by the fragment that also created its entry would erase the end of the map.
\<close>

definition processPacket :: "ip_packet \<Rightarrow> ip_reassembly \<Rightarrow> (ip_reassembly \<times> ip_out list) outcome" where
  "processPacket p s =
     (case ipLayer p of
        None \<Rightarrow> Inr (s, [Processed NON_IP_PACKET SamePacket])
      | Some l \<Rightarrow>
          if \<not> isFragment l then Inr (s, [Processed NON_FRAGMENT SamePacket])
          else
            let hash = hashPacket l;
                entry = map_of (FragmentMap s) hash
            in bind_out
                 (case entry of
                    None \<Rightarrow>
                      (let fd = new_fragment_data (createPacketKey l) (getFragmentId l)
                       in bind_out (addNewFragment hash fd s) (\<lambda>(s', os). Inr (s', os, fd)))
                  | Some fd \<Rightarrow>
                      bind_out (put (\<lambda>v. v) False hash (PacketLRU s)) (\<lambda>(lru, removed).
                        Inr (s\<lparr>PacketLRU := lru\<rparr>, [], fd)))
                 (\<lambda>(s1, os, fd).
                    case take_fragment p l fd of
                      (fd', status, None) \<Rightarrow> Inr (put_data hash fd' s1, os @ [Processed status NoPacket])
                    | (fd', status, Some False) \<Rightarrow>
                        Inr (put_data hash fd' s1,
                             os @ [Processed (if status = FIRST_FRAGMENT then FIRST_FRAGMENT else FRAGMENT) NoPacket])
                    | (fd', status, Some True) \<Rightarrow>
                        (case data_of fd' of
                           None \<Rightarrow> Inl NullDeref
                         | Some d \<Rightarrow>
                             bind_out (finish_packet (packetKey fd') (packetKey fd') (currentOffset fd') d) (\<lambda>d'.
                               if entry = None then Inl Dangling
                               else bind_out (eraseElement hash (PacketLRU s1)) (\<lambda>lru.
                                 Inr (s1\<lparr>PacketLRU := lru, FragmentMap := erase_key hash (FragmentMap s1)\<rparr>,
                                      os @ [Processed REASSEMBLED (NewPacket d')]))))))"

definition getCurrentPacket :: "packet_key \<Rightarrow> ip_reassembly \<Rightarrow> ip_result outcome" where
  "getCurrentPacket key s =
     (case map_of (FragmentMap s) (getHashValue key) of
        None \<Rightarrow> Inr NoPacket
      | Some fd \<Rightarrow>
          (case data_of fd of
             None \<Rightarrow> Inr NoPacket
           | Some d \<Rightarrow> bind_out (finish_packet (packetKey fd) key (currentOffset fd) d) (\<lambda>d'. Inr (NewPacket d'))))"

definition removePacket :: "packet_key \<Rightarrow> ip_reassembly \<Rightarrow> ip_reassembly outcome" where
  "removePacket key s =
     (let hash = getHashValue key
      in case map_of (FragmentMap s) hash of
           None \<Rightarrow> Inr s
         | Some fd \<Rightarrow> bind_out (eraseElement hash (PacketLRU s)) (\<lambda>lru.
             Inr (s\<lparr>PacketLRU := lru, FragmentMap := erase_key hash (FragmentMap s)\<rparr>)))"

datatype ip_event = Process ip_packet | Remove packet_key

definition ip_turn :: "(ip_reassembly, ip_event, ip_out) handler" where
  "ip_turn s e =
     (case e of
        Process p \<Rightarrow> processPacket p s
      | Remove key \<Rightarrow> bind_out (removePacket key s) (\<lambda>s'. Inr (s', [])))"



section \<open>Header fields\<close>

lemma times_8: "(x :: 16 word) * 8 = push_bit 3 x"
  by (simp add: push_bit_eq_mult)

lemma div_8: "(x :: 16 word) div 8 = drop_bit 3 x"
  by (simp add: drop_bit_eq_div)

lemma minus_mod_8: "(x :: 16 word) - x mod 8 = push_bit 3 (drop_bit 3 x)"
  by (metis div_8 times_8 minus_mod_eq_div_mult)

lemma bit_f8ff: "n < 16 \<Longrightarrow> bit (0xF8FF :: int) n \<longleftrightarrow> n < 8 \<or> 11 \<le> n"
  by (rule bits_16) code_simp

lemma bit_0100: "n < 16 \<Longrightarrow> bit (0x0100 :: int) n \<longleftrightarrow> n = 8"
  by (rule bits_16) code_simp

lemma bit_ff1f: "n < 16 \<Longrightarrow> bit (0xFF1F :: int) n \<longleftrightarrow> n < 5 \<or> 8 \<le> n"
  by (rule bits_16) code_simp

text \<open>The offset of RFC 791: the low 13 bits of the field, in units of eight bytes.\<close>

lemma v4_offset: "v4_getFragmentOffset fo = push_bit 3 (take_bit 13 (ntohs fo))"
proof -
  have "push_bit 3 (ntohs (fo AND 0xFF1F)) = push_bit 3 (take_bit 13 (ntohs fo))"
  proof (rule bit_word_eqI)
    fix n
    assume "n < LENGTH(16)"
    then consider "n < 3" | "3 \<le> n" "n < 11" | "11 \<le> n" "n < 16" by fastforce
    then show "bit (push_bit 3 (ntohs (fo AND 0xFF1F))) n = bit (push_bit 3 (take_bit 13 (ntohs fo))) n"
      by cases (auto simp: bit_ntohs bit_simps bit_ff1f)
  qed
  then show ?thesis by (simp add: v4_getFragmentOffset_def times_8)
qed

lemma v6_field_offset: "v6_getFragmentOffset (IPv6FragmentationHeader off la) = off - off mod 8"
proof -
  have "v6_getFragmentOffset (IPv6FragmentationHeader off la) = push_bit 3 (drop_bit 3 off)"
  proof (rule bit_word_eqI)
    fix n
    assume "n < LENGTH(16)"
    then consider "n < 3" | "3 \<le> n" "n < 8" | "8 \<le> n" "n < 16" by fastforce
    then show "bit (v6_getFragmentOffset (IPv6FragmentationHeader off la)) n = bit (push_bit 3 (drop_bit 3 off)) n"
    by cases (auto simp: v6_getFragmentOffset_def IPv6FragmentationHeader_def Let_def htons_ntohs bit_ntohs bit_simps times_8 div_8
        bit_f8ff bit_0100)
  qed
  then show ?thesis by (simp add: minus_mod_8)
qed

lemma v6_field_more: "v6_isMoreFragments (IPv6FragmentationHeader off la) = (\<not> la)"
proof -
  have "drop_bit 8 (IPv6FragmentationHeader off la AND 0x0100) = (if la then 0 else 1)"
  proof (rule bit_word_eqI)
    fix n
    assume "n < LENGTH(16)"
    then consider "n = 0" | "0 < n" "n < 8" | "8 \<le> n" "n < 16" by fastforce
    then show "bit (drop_bit 8 (IPv6FragmentationHeader off la AND 0x0100)) n = bit (if la then 0 else 1 :: 16 word) n"
     by cases 
      (auto simp: IPv6FragmentationHeader_def Let_def htons_ntohs bit_ntohs bit_simps div_8 bit_f8ff bit_0100)
  qed
  then show ?thesis by (simp add: v6_isMoreFragments_def)
qed

lemma key_hash: "isFragment l \<Longrightarrow> getHashValue (createPacketKey l) = hashPacket l"
  by (cases l) (auto simp: htons_ntohs split: option.splits)

section \<open>The invariant\<close>

















lemma key_version [simp]: "key_is_v6 (createPacketKey l) = is_v6 l"
  by (cases l) simp_all














section \<open>A packet cut into fragments\<close>

text \<open>
  The payload of a packet as its pieces. A packet of the traffic carries the piece \<open>i\<close>; the raw data
  of the first is \<open>r0\<close>. What is gathered after \<open>j\<close> pieces is \<open>r0\<close> with the others behind it.
\<close>

definition start :: "byte list list \<Rightarrow> nat \<Rightarrow> nat" where
  "start pieces i = length (concat (take i pieces))"



definition gathered :: "byte list \<Rightarrow> byte list list \<Rightarrow> nat \<Rightarrow> byte list" where
  "gathered r0 pieces j = r0 @ concat (drop 1 (take j pieces))"

definition waiting :: "byte list list \<Rightarrow> nat \<Rightarrow> ip_fragment" where
  "waiting pieces i = \<lparr>fragmentOffset = of_nat (start pieces i), lastFragment = (i + 1 = length pieces),
     fragmentData = pieces ! i\<rparr>"

lemma waiting_simps [simp]:
  "fragmentOffset (waiting pieces i) = of_nat (start pieces i)" "lastFragment (waiting pieces i) = (i + 1 = length pieces)"
  "fragmentData (waiting pieces i) = pieces ! i"
  by (simp_all add: waiting_def)


lemma start_0 [simp]: "start pieces 0 = 0"
  by (simp add: start_def)




lemma gathered_1: "gathered r0 pieces (Suc 0) = r0"
  by (cases pieces) (simp_all add: gathered_def)

text \<open>From \<open>j\<close> pieces and the waiting ones \<open>js\<close> to \<open>j'\<close> and \<open>js'\<close>: exactly those between were used.\<close>

definition advanced :: "nat \<Rightarrow> nat \<Rightarrow> nat list \<Rightarrow> nat \<Rightarrow> nat list \<Rightarrow> bool" where
  "advanced n j js j' js' \<longleftrightarrow> j \<le> j' \<and> j' \<le> n \<and> set js' \<subseteq> set js
     \<and> (\<forall>i \<in> set js. i \<in> set js' \<or> i < j') \<and> (\<forall>i < j'. i < j \<or> i \<in> set js)"

lemma advanced_refl: "j \<le> n \<Longrightarrow> advanced n j js j js"
  by (auto simp: advanced_def)






section \<open>Reassembly\<close>

text \<open>The stored data after the pieces in \<open>A\<close> have come.\<close>

definition gathered_raw :: "ip_raw \<Rightarrow> byte list list \<Rightarrow> nat \<Rightarrow> ip_raw" where
  "gathered_raw r0 pieces j = r0\<lparr>raw_rest := gathered (raw_rest r0) pieces j\<rparr>"

lemma gathered_raw_simps [simp]:
  "raw_rest (gathered_raw r0 pieces j) = gathered (raw_rest r0) pieces j"
  "raw_layer (gathered_raw r0 pieces j) = raw_layer r0"
  "(gathered_raw r0 pieces j)\<lparr>raw_rest := gathered (raw_rest r0) pieces k\<rparr> = gathered_raw r0 pieces k"
  "gathered_raw r0 pieces (Suc 0) = r0"
  by (simp_all add: gathered_raw_def gathered_1)






text \<open>The packets that are handed out.\<close>

definition new_packets :: "ip_out list \<Rightarrow> ip_raw list" where
  "new_packets os = concat (map (\<lambda>out. case out of Processed st (NewPacket d) \<Rightarrow> [d] | _ \<Rightarrow> []) os)"

lemma new_packets_simps [simp]:
  "new_packets [] = []" "new_packets (os @ ps) = new_packets os @ new_packets ps"
  "new_packets [Processed st NoPacket] = []" "new_packets [FragmentsClean key] = []"
  "new_packets [Processed st (NewPacket d)] = [d]"
  by (simp_all add: new_packets_def)






section \<open>Properties\<close>









text \<open>With a capacity of zero the first fragment faults: what is dropped for it is itself.\<close>

theorem ip_capacity_zero_faults:
  assumes "ipLayer p = Some l" "isFragment l"
  shows "run ip_turn (ip_reassembly_new 0) (Process p # es) = Inl NullDeref"
  using assms
  by (simp add: run.simps(2) ip_turn_def processPacket_def ip_reassembly_new_def addNewFragment_def put_def lru_insert_def lru_new_def)

text \<open>
  The key that the clean-up callback gets, or that is built for a lookup, hashes to where
  the packet is stored, for both versions of IP; the two free functions agree with it for IPv4.
\<close>

theorem ip_key_finds:
  assumes "isFragment l"
  shows "getHashValue (createPacketKey l) = hashPacket l
    \<and> (\<forall>h. l = V4 h \<longrightarrow> IPReassemblyHashPacket (ip4_src h) (ip4_dst h) (ip4_id h) = hashPacket l
         \<and> IPReassemblyHashBy3Tuple (ip4_src h) (ip4_dst h) (ntohs (ip4_id h)) = hashPacket l)"
  using key_hash [OF assms] by (auto simp: IPReassemblyHashPacket_def IPReassemblyHashBy3Tuple_def htons_ntohs)

text \<open>
  An IPv6 fragmentation header reads back as it was built: the offset down to a multiple of
  eight, and whether the fragment is the last one.
\<close>

theorem ip6_header_roundtrip:
  "getFragmentOffset (V6 h (FragmentHeader nx 0 (IPv6FragmentationHeader off la) fid # es)) = off - off mod 8
     \<and> isLastFragment (V6 h (FragmentHeader nx 0 (IPv6FragmentationHeader off la) fid # es)) = la"
  by (simp add: v6_field_offset v6_field_more)

section \<open>Witnesses\<close>

definition demo_header :: "16 word \<Rightarrow> iphdr" where
  "demo_header fo = \<lparr>ip4_version = 4, ip4_typeOfService = 0, ip4_totalLength = 0, ip4_id = 3, ip4_fragmentOffset = fo,
     ip4_timeToLive = 64, ip4_protocol = 17, ip4_headerChecksum = 0, ip4_src = 1, ip4_dst = 2, ip4_options = []\<rparr>"

definition demo_fragment :: "16 word \<Rightarrow> byte list \<Rightarrow> ip_packet" where
  "demo_fragment fo d = \<lparr>frontBytes = [7, 7], ipLayer = Some (V4 (demo_header fo)), ip_payload = d, trailingBytes = []\<rparr>"

abbreviation "demo_pieces \<equiv> [[1, 2, 3, 4, 5, 6, 7, 8], [9, 10]] :: byte list list"

lemma demo_ip_fields:
  "v4_isFragment 0x20 \<and> v4_isFirstFragment 0x20 \<and> \<not> v4_isLastFragment 0x20 \<and> v4_getFragmentOffset 0x20 = 0"
  "v4_isFragment 0x100 \<and> \<not> v4_isFirstFragment 0x100 \<and> v4_isLastFragment 0x100 \<and> v4_getFragmentOffset 0x100 = 8"
  by code_simp+

abbreviation "demo_raw \<equiv> raw_of (demo_fragment 0x20 [1, 2, 3, 4, 5, 6, 7, 8]) (V4 (demo_header 0x20))"
abbreviation "demo_hash \<equiv> hashPacket (V4 (demo_header 0))"

lemma demo_hash_eq [simp]: "hashPacket (V4 (demo_header fo)) = demo_hash"
  by (simp add: demo_header_def)




theorem ip_capacity_zero_faults_witness:
  "run ip_turn (ip_reassembly_new 0) [Process (demo_fragment 0x20 [1])] = Inl NullDeref"
  using ip_capacity_zero_faults [of "demo_fragment 0x20 [1]" "V4 (demo_header 0x20)" "[]"] demo_ip_fields
  by (simp add: demo_fragment_def demo_header_def)

theorem ip_key_finds_witness:
  "getHashValue (createPacketKey (V4 (demo_header 0x20))) = hashPacket (V4 (demo_header 0x20))"
  using ip_key_finds [of "V4 (demo_header 0x20)"] demo_ip_fields by (simp add: demo_header_def del: demo_hash_eq)

text \<open>
  Two packets whose hashes are the same although one is of IPv4 and the other of IPv6: the entry has
  the key of the first, the data are the raw data of the second, and when the packet is complete the
  search for an IPv4 layer in them gives a null pointer.
\<close>

definition clash_fragment :: ip_packet where
  "clash_fragment = \<lparr>frontBytes = [], ipLayer = Some (V6 \<lparr>ip6_version = 6, ip6_trafficClass = 0, ip6_flowLabel = [0, 0, 0],
      ip6_payloadLength = 0x1000, ip6_nextHeader = 44, ip6_hopLimit = 64, ip6_src = replicate 16 0, ip6_dst = replicate 16 0\<rparr>
      [FragmentHeader 17 0 0x0100 0x1311d4c0]), ip_payload = [1, 2, 3, 4, 5, 6, 7, 8], trailingBytes = []\<rparr>"

theorem ip_version_clash_faults:
  "run ip_turn (ip_reassembly_new 3) [Process (demo_fragment 0x100 [9, 10]), Process clash_fragment] = Inl NullDeref"
  by code_simp

end
