(* ===== verification/Tlv.thy ===== *)
theory Tlv
  imports ByteOrder
begin

text \<open>
  Type-length-value records in a byte stream, \<open>TLVData.h\<close> and \<open>TLVData.cpp\<close> of \<open>Packet++\<close>: the
  reader that walks over the records and the builder's buffer. A record is the position of its first
  byte; \<open>mem\<close> is what can be read from the begin of the stream on, which may be more than the
  stream's length \<open>n\<close>; a read behind it is \<open>OutOfBounds\<close>. What a kind of record gives is its total
  size, read from its first bytes.
\<close>

section \<open>Records\<close>

type_synonym size_reader = "byte list \<Rightarrow> nat \<Rightarrow> nat outcome"

definition byte_at :: "'b list \<Rightarrow> nat \<Rightarrow> 'b outcome" where
  "byte_at mem i = (if i < length mem then Inr (mem ! i) else Inl OutOfBounds)"

definition bytes_at :: "'b list \<Rightarrow> nat \<Rightarrow> nat \<Rightarrow> 'b list outcome" where
  "bytes_at mem i n = (if i + n \<le> length mem then Inr (take n (drop i mem)) else Inl OutOfBounds)"

lemma bytes_at_here: "length bs = n \<Longrightarrow> bytes_at (a @ bs @ b) (length a) n = Inr bs"
  by (auto simp: bytes_at_def)

lemma byte_at_Inr [simp]: "byte_at mem i = Inr b \<longleftrightarrow> i < length mem \<and> b = mem ! i"
  by (auto simp: byte_at_def)

lemma byte_at_Inl [simp]: "byte_at mem i = Inl e \<longleftrightarrow> length mem \<le> i \<and> e = OutOfBounds"
  by (auto simp: byte_at_def)

definition getType :: "byte list \<Rightarrow> nat \<Rightarrow> byte outcome" where
  "getType mem pos = byte_at mem pos"

section \<open>The reader\<close>

definition getFirstTLVRecord :: "size_reader \<Rightarrow> byte list \<Rightarrow> nat \<Rightarrow> nat option outcome" where
  "getFirstTLVRecord sz mem n =
     (if n = 0 then Inr None
      else bind_out (sz mem 0) (\<lambda>k. Inr (if k = 0 then None else Some 0)))"

text \<open>The comparison is on \<open>int\<close>, to which the length is cast.\<close>

definition getNextTLVRecord :: "size_reader \<Rightarrow> byte list \<Rightarrow> nat \<Rightarrow> nat \<Rightarrow> nat option outcome" where
  "getNextTLVRecord sz mem n pos =
     bind_out (sz mem pos) (\<lambda>k.
       if int pos + int k \<ge> sint (of_nat n :: 32 word) then Inr None
       else bind_out (sz mem (pos + k)) (\<lambda>k'. Inr (if k' = 0 then None else Some (pos + k))))"

text \<open>The loops over the records; \<open>None\<close> is a loop that does not end.\<close>

partial_function (option) find_from ::
    "size_reader \<Rightarrow> byte list \<Rightarrow> nat \<Rightarrow> byte \<Rightarrow> nat option \<Rightarrow> nat option outcome option" where
  "find_from sz mem n t cur =
     (case cur of
        None \<Rightarrow> Some (Inr None)
      | Some pos \<Rightarrow>
          (case getType mem pos of
             Inl e \<Rightarrow> Some (Inl e)
           | Inr t' \<Rightarrow>
               if t' = t then Some (Inr (Some pos))
               else (case getNextTLVRecord sz mem n pos of
                       Inl e \<Rightarrow> Some (Inl e)
                     | Inr nx \<Rightarrow> find_from sz mem n t nx)))"

definition getTLVRecord :: "size_reader \<Rightarrow> byte \<Rightarrow> byte list \<Rightarrow> nat \<Rightarrow> nat option outcome option" where
  "getTLVRecord sz t mem n =
     (case getFirstTLVRecord sz mem n of Inl e \<Rightarrow> Some (Inl e) | Inr cur \<Rightarrow> find_from sz mem n t cur)"

partial_function (option) count_from ::
    "size_reader \<Rightarrow> byte list \<Rightarrow> nat \<Rightarrow> nat option \<Rightarrow> nat \<Rightarrow> nat outcome option" where
  "count_from sz mem n cur c =
     (case cur of
        None \<Rightarrow> Some (Inr c)
      | Some pos \<Rightarrow>
          (case getNextTLVRecord sz mem n pos of
             Inl e \<Rightarrow> Some (Inl e)
           | Inr nx \<Rightarrow> count_from sz mem n nx (c + 1)))"

text \<open>\<open>m_RecordCount\<close> is \<open>None\<close> for \<open>(size_t)-1\<close>: nothing is cached.\<close>

definition getTLVRecordCount :: "size_reader \<Rightarrow> byte list \<Rightarrow> nat \<Rightarrow> nat option \<Rightarrow> nat outcome option" where
  "getTLVRecordCount sz mem n cached =
     (case cached of
        Some c \<Rightarrow> Some (Inr c)
      | None \<Rightarrow>
          (case getFirstTLVRecord sz mem n of Inl e \<Rightarrow> Some (Inl e) | Inr cur \<Rightarrow> count_from sz mem n cur 0))"

definition changeTLVRecordCount :: "int \<Rightarrow> nat option \<Rightarrow> nat option" where
  "changeTLVRecordCount d cached = map_option (\<lambda>c. nat (int c + d)) cached"

section \<open>The loops end\<close>
















section \<open>The builder\<close>

text \<open>
  The buffer that every builder fills. \<open>hexStringToByteArray\<close> is not part of the repository, so what
  it makes of a text is a parameter, \<open>[]\<close> where it fails.
\<close>

record tlv_builder =
  m_RecType :: "32 word"
  m_RecValue :: "byte list"

definition builder_init :: "32 word \<Rightarrow> byte list option \<Rightarrow> nat \<Rightarrow> tlv_builder outcome" where
  "builder_init recType recValue len =
     (case recValue of
        None \<Rightarrow> Inr \<lparr>m_RecType = recType, m_RecValue = replicate len 0\<rparr>
      | Some bs \<Rightarrow> bind_out (bytes_at bs 0 len) (\<lambda>v. Inr \<lparr>m_RecType = recType, m_RecValue = v\<rparr>))"

definition builder_u8 :: "32 word \<Rightarrow> byte \<Rightarrow> tlv_builder outcome" where
  "builder_u8 recType v = builder_init recType (Some [v]) 1"

definition builder_u16 :: "32 word \<Rightarrow> 16 word \<Rightarrow> tlv_builder outcome" where
  "builder_u16 recType v = builder_init recType (Some (bytes16 (htons v))) 2"

definition builder_u32 :: "32 word \<Rightarrow> 32 word \<Rightarrow> tlv_builder outcome" where
  "builder_u32 recType v = builder_init recType (Some (bytes32 (be32toh v))) 4"

definition builder_ip :: "32 word \<Rightarrow> 32 word \<Rightarrow> tlv_builder outcome" where
  "builder_ip recType toInt = builder_init recType (Some (bytes32 toInt)) 4"

definition builder_string :: "(byte list \<Rightarrow> byte list) \<Rightarrow> 32 word \<Rightarrow> byte list \<Rightarrow> bool \<Rightarrow> tlv_builder outcome" where
  "builder_string hex recType text valueIsHexString =
     (if valueIsHexString then
        (if hex text = [] then Inr \<lparr>m_RecType = 0, m_RecValue = []\<rparr>
         else builder_init recType (Some (hex text)) (length (hex text)))
      else builder_init recType (Some text) (length text))"

section \<open>Kinds of records\<close>

text \<open>
  What a kind of record promises: an object that may be built is not empty, begins with its type,
  and its size is read back wherever it stands. Then the reader finds in a row of such objects what
  was put there.
\<close>

locale tlv_kind =
  fixes sz :: size_reader
    and build :: "'o \<Rightarrow> byte list"
    and ok :: "'o \<Rightarrow> bool"
    and kind :: "'o \<Rightarrow> byte"
  assumes begins: "ok x \<Longrightarrow> \<exists>rest. build x = kind x # rest"
    and reads: "ok x \<Longrightarrow> sz (pre @ build x @ post) (length pre) = Inr (length (build x))"
begin

lemma nonempty: "ok x \<Longrightarrow> 0 < length (build x)"
  using begins [of x] by auto

lemma first_built:
  assumes "ok x" "n = length (concat (map build (x # xs)))"
  shows "getFirstTLVRecord sz (concat (map build (x # xs)) @ post) n = Inr (Some 0)"
  using assms nonempty [of x] reads [of x "[]" "concat (map build xs) @ post"]
  by (simp add: getFirstTLVRecord_def)

lemma next_built:
  assumes "ok x" "list_all ok xs" "n < 2 ^ 31" "n = length pre + length (concat (map build (x # xs)))"
  shows "getNextTLVRecord sz (pre @ concat (map build (x # xs)) @ post) n (length pre)
    = Inr (if xs = [] then None else Some (length (pre @ build x)))"
proof -
  have 1: "sz (pre @ concat (map build (x # xs)) @ post) (length pre) = Inr (length (build x))"
    using reads [OF assms(1), of pre "concat (map build xs) @ post"] by simp
  show ?thesis
  proof (cases xs)
    case Nil
    then have "int (length pre) + int (length (build x)) \<ge> int n" using assms(4) by simp
    with Nil show ?thesis unfolding getNextTLVRecord_def sint_nat32 [OF assms(3)] 1 by simp
  next
    case (Cons y ys)
    then have y: "ok y" using assms(2) by simp
    have 2: "sz (pre @ concat (map build (x # xs)) @ post) (length pre + length (build x)) = Inr (length (build y))"
      using reads [OF y, of "pre @ build x" "concat (map build ys) @ post"] Cons by simp
    have "length pre + length (build x) < n" using assms(4) Cons nonempty [OF y] by simp
    then have "int (length pre) + int (length (build x)) < int n" by linarith
    with 2 Cons nonempty [OF y] show ?thesis
      unfolding getNextTLVRecord_def sint_nat32 [OF assms(3)] 1 by simp
  qed
qed

text \<open>Inside a longer stream the reader goes from one object to the next.\<close>

lemma next_inner:
  assumes "ok x" "ok y" "n < 2 ^ 31" "length (pre @ build x) < n"
  shows "getNextTLVRecord sz (pre @ build x @ build y @ post) n (length pre) = Inr (Some (length (pre @ build x)))"
proof -
  have 1: "sz (pre @ build x @ build y @ post) (length pre) = Inr (length (build x))"
    using reads [OF assms(1), of pre "build y @ post"] by simp
  have 2: "sz (pre @ build x @ build y @ post) (length pre + length (build x)) = Inr (length (build y))"
    using reads [OF assms(2), of "pre @ build x" post] by simp
  have "int (length pre) + int (length (build x)) < int n" using assms(4) by simp
  with 2 nonempty [OF assms(2)] show ?thesis unfolding getNextTLVRecord_def sint_nat32 [OF assms(3)] 1 by simp
qed

lemma find_inner:
  "list_all ok (xs @ [y]) \<Longrightarrow> n < 2 ^ 31 \<Longrightarrow> length pre + length (concat (map build xs)) < n \<Longrightarrow>
     kind y = t \<Longrightarrow> t \<notin> kind ` set xs \<Longrightarrow>
     find_from sz (pre @ concat (map build xs) @ build y @ post) n t (Some (length pre))
       = Some (Inr (Some (length pre + length (concat (map build xs)))))"
proof (induction xs arbitrary: pre)
  case Nil
  with begins [of y] show ?case
    by (auto simp: find_from.simps [of _ _ _ _ "Some _"] getType_def byte_at_def nth_append)
next
  case (Cons x xs)
  from begins [of x] Cons.prems(1) obtain r where b: "build x = kind x # r" by auto
  define rest where "rest = concat (map build xs) @ build y @ post"
  obtain z post' where z: "ok z" "rest = build z @ post'"
    using Cons.prems(1) by (cases xs) (auto simp: rest_def)
  have "length (pre @ build x) < n" using Cons.prems(3) by simp
  with next_inner [OF _ z(1) Cons.prems(2), of x pre post'] Cons.prems(1) z(2)
  have nx: "getNextTLVRecord sz (pre @ build x @ rest) n (length pre) = Inr (Some (length (pre @ build x)))" by simp
  have ty: "getType (pre @ build x @ rest) (length pre) = Inr (kind x)" using b by (simp add: getType_def byte_at_def nth_append)
  have "find_from sz ((pre @ build x) @ rest) n t (Some (length (pre @ build x)))
      = Some (Inr (Some (length (pre @ build x) + length (concat (map build xs)))))"
    unfolding rest_def using Cons.prems by (intro Cons.IH) simp_all
  moreover have "kind x \<noteq> t" using Cons.prems(5) by auto
  ultimately show ?case using nx ty
    by (simp add: find_from.simps [of _ _ _ _ "Some (length pre)"] rest_def add.assoc)
qed

lemma find_present:
  assumes "list_all ok (xs @ [y])" "n < 2 ^ 31" "length (concat (map build xs)) < n" "kind y = t" "t \<notin> kind ` set xs"
  shows "getTLVRecord sz t (concat (map build xs) @ build y @ post) n = Some (Inr (Some (length (concat (map build xs)))))"
proof -
  obtain z post' where z: "ok z" "concat (map build xs) @ build y @ post = build z @ post'"
    using assms(1) by (cases xs) auto
  have "getFirstTLVRecord sz (build z @ post') n = Inr (Some 0)"
    using reads [OF z(1), of "[]" post'] nonempty [OF z(1)] assms(3) by (simp add: getFirstTLVRecord_def)
  with z find_inner [OF assms(1,2), of "[]" t post] assms(3-5) show ?thesis by (simp add: getTLVRecord_def)
qed

lemma count_built_from:
  "ok x \<Longrightarrow> list_all ok xs \<Longrightarrow> n < 2 ^ 31 \<Longrightarrow> n = length pre + length (concat (map build (x # xs))) \<Longrightarrow>
     count_from sz (pre @ concat (map build (x # xs)) @ post) n (Some (length pre)) c = Some (Inr (c + length (x # xs)))"
proof (induction xs arbitrary: x pre c)
  case Nil
  then show ?case using next_built [of x "[]" n pre post]
    by (simp add: count_from.simps [of _ _ _ "Some _"] count_from.simps [of _ _ _ None])
next
  case (Cons y ys)
  have "count_from sz ((pre @ build x) @ concat (map build (y # ys)) @ post) n (Some (length (pre @ build x))) (c + 1)
      = Some (Inr (c + 1 + length (y # ys)))"
    using Cons.prems by (intro Cons.IH) simp_all
  then show ?case using next_built [OF Cons.prems, of post]
    by (simp add: count_from.simps [of _ _ _ "Some (length pre)"])
qed

lemma count_built:
  assumes "list_all ok xs" "n = length (concat (map build xs))" "n < 2 ^ 31"
  shows "getTLVRecordCount sz (concat (map build xs) @ post) n None = Some (Inr (length xs))"
proof (cases xs)
  case Nil
  with assms show ?thesis by (simp add: getTLVRecordCount_def getFirstTLVRecord_def count_from.simps)
next
  case (Cons x ys)
  with assms count_built_from [of x ys n "[]" post 0] first_built [of x n ys post] show ?thesis
    by (simp add: getTLVRecordCount_def)
qed

lemma find_built_from:
  "ok x \<Longrightarrow> list_all ok xs \<Longrightarrow> n < 2 ^ 31 \<Longrightarrow> n = length pre + length (concat (map build (x # xs))) \<Longrightarrow>
     find_from sz (pre @ concat (map build (x # xs)) @ post) n t (Some (length pre))
       = Some (Inr (if \<exists>y \<in> set (x # xs). kind y = t
           then Some (length pre + length (concat (map build (takeWhile (\<lambda>y. kind y \<noteq> t) (x # xs))))) else None))"
proof (induction xs arbitrary: x pre)
  case Nil
  from begins [OF Nil.prems(1)] obtain r where b: "build x = kind x # r" by blast
  then have "getType (pre @ build x @ post) (length pre) = Inr (kind x)" by (simp add: getType_def byte_at_def nth_append)
  with Nil next_built [of x "[]" n pre post] show ?case
    by (simp add: find_from.simps [of _ _ _ _ "Some _"] find_from.simps [of _ _ _ _ None])
next
  case (Cons y ys)
  from begins [OF Cons.prems(1)] obtain r where b: "build x = kind x # r" by blast
  then have ty: "getType (pre @ concat (map build (x # y # ys)) @ post) (length pre) = Inr (kind x)"
    by (simp add: getType_def byte_at_def nth_append)
  show ?case
  proof (cases "kind x = t")
    case True
    with ty show ?thesis by (simp add: find_from.simps [of _ _ _ _ "Some (length pre)"])
  next
    case False
    have "find_from sz ((pre @ build x) @ concat (map build (y # ys)) @ post) n t (Some (length (pre @ build x)))
      = Some (Inr (if \<exists>z \<in> set (y # ys). kind z = t
           then Some (length (pre @ build x) + length (concat (map build (takeWhile (\<lambda>z. kind z \<noteq> t) (y # ys))))) else None))"
      using Cons.prems by (intro Cons.IH) simp_all
    with False ty next_built [OF Cons.prems, of post] show ?thesis
      by (simp add: find_from.simps [of _ _ _ _ "Some (length pre)"] add.assoc)
  qed
qed

lemma find_built:
  assumes "list_all ok xs" "n = length (concat (map build xs))" "n < 2 ^ 31"
  shows "getTLVRecord sz t (concat (map build xs) @ post) n
    = Some (Inr (if \<exists>y \<in> set xs. kind y = t
        then Some (length (concat (map build (takeWhile (\<lambda>y. kind y \<noteq> t) xs)))) else None))"
proof (cases xs)
  case Nil
  with assms show ?thesis by (simp add: getTLVRecord_def getFirstTLVRecord_def find_from.simps)
next
  case (Cons x ys)
  with assms find_built_from [of x ys n "[]" post t] first_built [of x n ys post] show ?thesis
    by (simp add: getTLVRecord_def)
qed

end

section \<open>Properties\<close>



end
