(* ===== verification/Layer.thy ===== *)
theory Layer
  imports Tlv
begin

text \<open>
  A protocol layer that stands alone, \<open>Layer.cpp\<close> of \<open>Packet++\<close> with no packet around it: the array
  it owns and the length it uses of it, of bytes for a binary header and of characters for a text.
  An array from \<open>new\<close> is not initialised: \<open>junk\<close> says what is
  in it.
\<close>

record 'b layer =
  m_Data :: "'b list option"
  m_DataLen :: nat

definition junk_bytes :: "(nat \<Rightarrow> 'b) \<Rightarrow> nat \<Rightarrow> 'b list" where
  "junk_bytes junk n = map junk [0..<n]"

lemma length_junk [simp]: "length (junk_bytes junk n) = n"
  by (simp add: junk_bytes_def)

text \<open>The copy: as many bytes as the original uses, but the length of its header.\<close>

definition layer_copy :: "nat \<Rightarrow> 'b layer \<Rightarrow> 'b layer outcome" where
  "layer_copy headerLen other =
     (case m_Data other of
        None \<Rightarrow> (if m_DataLen other = 0 then Inr \<lparr>m_Data = Some [], m_DataLen = headerLen\<rparr> else Inl NullDeref)
      | Some d \<Rightarrow> bind_out (bytes_at d 0 (m_DataLen other)) (\<lambda>d'. Inr \<lparr>m_Data = Some d', m_DataLen = headerLen\<rparr>))"

text \<open>The offset is an \<open>int\<close> that is compared as a \<open>size_t\<close>, so a negative one is too large.\<close>

definition extendLayer :: "(nat \<Rightarrow> 'b) \<Rightarrow> int \<Rightarrow> nat \<Rightarrow> ('b, 'a) layer_scheme \<Rightarrow> (('b, 'a) layer_scheme \<times> bool) outcome" where
  "extendLayer junk offset n l =
     (case m_Data l of
        None \<Rightarrow> Inr (l, False)
      | Some d \<Rightarrow>
          if offset < 0 \<or> nat offset > m_DataLen l then Inr (l, False)
          else bind_out (bytes_at d 0 (nat offset)) (\<lambda>a.
               bind_out (bytes_at d (nat offset) (m_DataLen l - nat offset)) (\<lambda>b.
                 Inr (l\<lparr>m_Data := Some (a @ junk_bytes junk n @ b), m_DataLen := m_DataLen l + n\<rparr>, True))))"

text \<open>
  Shortening by more than the length asks for an array of a wrapped size; past the end of the
  data the first copy writes behind the smaller array.
\<close>

definition shortenLayer :: "int \<Rightarrow> nat \<Rightarrow> ('b, 'a) layer_scheme \<Rightarrow> (('b, 'a) layer_scheme \<times> bool) outcome" where
  "shortenLayer offset n l =
     (case m_Data l of
        None \<Rightarrow> Inr (l, False)
      | Some d \<Rightarrow>
          if offset < 0 \<or> nat offset \<ge> m_DataLen l then Inr (l, False)
          else if n > m_DataLen l then Inl (Uncaught ''bad_alloc'')
          else if nat offset + n > m_DataLen l then Inl OutOfBounds
          else bind_out (bytes_at d 0 (nat offset)) (\<lambda>a.
               bind_out (bytes_at d (nat offset + n) (m_DataLen l - nat offset - n)) (\<lambda>b.
                 Inr (l\<lparr>m_Data := Some (a @ b), m_DataLen := m_DataLen l - n\<rparr>, True))))"

text \<open>On a layer that uses its whole array the two cut and join lists.\<close>

lemma extend_at:
  assumes "m_Data l = Some (a @ b)" "m_DataLen l = length (a @ b)"
  shows "extendLayer junk (int (length a)) n l
    = Inr (l\<lparr>m_Data := Some (a @ junk_bytes junk n @ b), m_DataLen := length (a @ b) + n\<rparr>, True)"
  using assms by (simp add: extendLayer_def bytes_at_def)

lemma shorten_at:
  assumes "m_Data l = Some (a @ c @ b)" "m_DataLen l = length (a @ c @ b)" "c @ b \<noteq> []"
  shows "shortenLayer (int (length a)) (length c) l = Inr (l\<lparr>m_Data := Some (a @ b), m_DataLen := length (a @ b)\<rparr>, True)"
  using assms by (simp add: shortenLayer_def bytes_at_def)

text \<open>What was made room for can be taken away again.\<close>

lemma shorten_extend:
  assumes "m_Data l = Some d" "m_DataLen l = length d" "k \<le> length d" "0 < n"
  shows "\<exists>l'. extendLayer junk (int k) n l = Inr (l', True) \<and> shortenLayer (int k) n l' = Inr (l, True)"
proof -
  have d: "m_Data l = Some (take k d @ drop k d)" "m_DataLen l = length (take k d @ drop k d)" using assms by simp_all
  have k: "length (take k d) = k" using assms(3) by simp
  let ?l = "l\<lparr>m_Data := Some (take k d @ junk_bytes junk n @ drop k d), m_DataLen := length (take k d @ drop k d) + n\<rparr>"
  have "extendLayer junk (int k) n l = Inr (?l, True)" using extend_at [OF d, of junk n] k by simp
  moreover have "shortenLayer (int k) n ?l = Inr (l, True)"
  proof -
    have "junk_bytes junk n @ drop k d \<noteq> []" using assms(4) by (simp add: junk_bytes_def)
    with shorten_at [of ?l "take k d" "junk_bytes junk n" "drop k d"] k assms(1,2) show ?thesis by simp
  qed
  ultimately show ?thesis by blast
qed

text \<open>A part of the data made as long as another text, which is then written over it.\<close>

lemma value_resized:
  assumes "m_Data m = Some (a @ old @ b)" "m_DataLen m = length (a @ old @ b)" "k = int n - int (length old)"
  shows "\<exists>Y. length Y = n \<and> (if k > 0 then extendLayer junk (int (length a)) (nat k) m
      else if k < 0 then shortenLayer (int (length a)) (nat (- k)) m else Inr (m, True))
    = Inr (m\<lparr>m_Data := Some (a @ Y @ b), m_DataLen := length (a @ Y @ b)\<rparr>, True)"
proof (cases "k > 0")
  case True
  have "length (junk_bytes junk (nat k) @ old) = n" using True assms(3) by simp
  with True extend_at [OF assms(1,2), of junk "nat k"] show ?thesis
    by (intro exI [of _ "junk_bytes junk (nat k) @ old"]) (simp add: add.assoc add.commute add.left_commute)
next
  case False
  show ?thesis
  proof (cases "k < 0")
    case True
    let ?c = "take (nat (- k)) old" and ?r = "drop (nat (- k)) old"
    have r: "length ?r = n" "length ?c = nat (- k)" using True assms(3) by simp_all
    have "?c @ ?r @ b \<noteq> []" using True r by fastforce
    then have "shortenLayer (int (length a)) (length ?c) m = Inr (m\<lparr>m_Data := Some (a @ ?r @ b), m_DataLen := length (a @ ?r @ b)\<rparr>, True)"
      using assms(1,2) by (intro shorten_at) simp_all
    then show ?thesis using True r by (intro exI [of _ ?r]) simp
  next
    case False
    then have "length old = n" "\<not> k > 0" using \<open>\<not> k > 0\<close> assms(3) by simp_all
    moreover have "m = m\<lparr>m_Data := Some (a @ old @ b), m_DataLen := length (a @ old @ b)\<rparr>" using assms(1,2) by simp
    ultimately show ?thesis using False by (intro exI [of _ old]) simp
  qed
qed

text \<open>Reading and writing the array that the layer points to.\<close>

definition lay_data :: "('b, 'a) layer_scheme \<Rightarrow> 'b list outcome" where
  "lay_data l = (case m_Data l of None \<Rightarrow> Inl NullDeref | Some d \<Rightarrow> Inr d)"

definition write_at :: "nat \<Rightarrow> 'b list \<Rightarrow> ('b, 'a) layer_scheme \<Rightarrow> ('b, 'a) layer_scheme outcome" where
  "write_at i bs l =
     bind_out (lay_data l) (\<lambda>d.
       if i + length bs \<le> length d then Inr (l\<lparr>m_Data := Some (take i d @ bs @ drop (i + length bs) d)\<rparr>)
       else Inl OutOfBounds)"

lemma write_between:
  "m_Data l = Some (a @ X @ b) \<Longrightarrow> length bs = length X \<Longrightarrow> write_at (length a) bs l = Inr (l\<lparr>m_Data := Some (a @ bs @ b)\<rparr>)"
  by (simp add: write_at_def lay_data_def)

text \<open>A difference on \<open>size_t\<close>.\<close>

definition minus64 :: "nat \<Rightarrow> nat \<Rightarrow> nat" where
  "minus64 a b = (if b \<le> a then a - b else 2 ^ 64 - (b - a))"

end
