(* ===== verification/TcpOptions.thy ===== *)
theory TcpOptions
  imports Layer
begin

text \<open>
  The options of a TCP header, \<open>TcpLayer.cpp\<close> of \<open>Packet++\<close>, on a layer that stands alone: the
  builder, the walk over the options, adding and removing, and the trailing bytes that keep the
  header a multiple of four. The header's \<open>dataOffset\<close> is the high half of its byte 12.
\<close>

section \<open>Options and their builder\<close>

definition PCPP_TCPOPT_EOL :: byte where "PCPP_TCPOPT_EOL = 0"
definition PCPP_TCPOPT_NOP :: byte where "PCPP_TCPOPT_NOP = 1"
definition TCPOPT_DUMMY :: byte where "TCPOPT_DUMMY = 0xff"

definition TcpOption_getTotalSize :: size_reader where
  "TcpOption_getTotalSize mem pos =
     bind_out (byte_at mem pos) (\<lambda>t.
       if t = PCPP_TCPOPT_NOP \<or> t = PCPP_TCPOPT_EOL then Inr 1
       else bind_out (byte_at mem (pos + 1)) (\<lambda>l. Inr (unat l)))"

text \<open>\<open>getDataSize\<close> subtracts on \<open>size_t\<close>.\<close>

definition TcpOption_getDataSize :: "byte list \<Rightarrow> nat \<Rightarrow> 64 word outcome" where
  "TcpOption_getDataSize mem pos =
     bind_out (byte_at mem pos) (\<lambda>t.
       if t = PCPP_TCPOPT_NOP \<or> t = PCPP_TCPOPT_EOL then Inr 0
       else bind_out (byte_at mem (pos + 1)) (\<lambda>l. Inr (of_nat (unat l) - 2)))"

definition TcpOptionBuilder_NopEol :: "bool \<Rightarrow> tlv_builder outcome" where
  "TcpOptionBuilder_NopEol isEol = builder_init (ucast (if isEol then PCPP_TCPOPT_EOL else PCPP_TCPOPT_NOP)) None 0"

text \<open>\<open>build\<close>: the record's buffer, \<open>None\<close> for the null option; the size is cut to a byte.\<close>

definition TcpOption_build :: "tlv_builder \<Rightarrow> byte list option" where
  "TcpOption_build b =
     (let recType = ucast (m_RecType b) :: byte;
          optionSize = length (m_RecValue b) + 2
      in if recType = PCPP_TCPOPT_EOL \<or> recType = PCPP_TCPOPT_NOP then
           (if m_RecValue b \<noteq> [] then None else Some [recType])
         else Some (recType # of_nat optionSize # m_RecValue b))"

section \<open>The layer\<close>

record tcp_lay = "byte layer" +
  m_NumOfTrailingBytes :: nat
  m_RecordCount :: "nat option"

abbreviation sizeof_tcphdr :: nat where "sizeof_tcphdr \<equiv> 20"

definition get_dataOffset :: "(byte, 'a) layer_scheme \<Rightarrow> nat outcome" where
  "get_dataOffset l = bind_out (lay_data l) (\<lambda>d. bind_out (byte_at d 12) (\<lambda>b. Inr (unat b div 16)))"

definition set_dataOffset :: "nat \<Rightarrow> (byte, 'a) layer_scheme \<Rightarrow> (byte, 'a) layer_scheme outcome" where
  "set_dataOffset v l =
     bind_out (lay_data l) (\<lambda>d. bind_out (byte_at d 12) (\<lambda>b.
       write_at 12 [of_nat (v mod 16 * 16 + unat b mod 16)] l))"

definition TcpLayer_getHeaderLen :: "(byte, 'a) layer_scheme \<Rightarrow> nat outcome" where
  "TcpLayer_getHeaderLen l = bind_out (get_dataOffset l) (\<lambda>v. Inr (v * 4))"

text \<open>\<open>initLayer\<close>, \<open>TcpLayer()\<close> and \<open>TcpLayer(portSrc, portDst)\<close>.\<close>

definition TcpLayer_new :: tcp_lay where
  "TcpLayer_new = \<lparr>m_Data = Some ((replicate sizeof_tcphdr 0)[12 := 0x50]), m_DataLen = sizeof_tcphdr,
     m_NumOfTrailingBytes = 0, m_RecordCount = None\<rparr>"

definition TcpLayer_ports :: "16 word \<Rightarrow> 16 word \<Rightarrow> tcp_lay" where
  "TcpLayer_ports portSrc portDst =
     TcpLayer_new\<lparr>m_Data := Some (bytes16 (htons portSrc) @ bytes16 (htons portDst)
       @ drop 4 ((replicate sizeof_tcphdr 0)[12 := 0x50]))\<rparr>"

text \<open>
  The options begin behind the fixed header; their length is the difference on \<open>size_t\<close>. The walks
  can read to the end of the array.
\<close>

definition with_options :: "(byte, 'a) layer_scheme \<Rightarrow> (byte list \<Rightarrow> nat \<Rightarrow> 'b outcome) \<Rightarrow> 'b outcome" where
  "with_options l f =
     bind_out (lay_data l) (\<lambda>d. bind_out (TcpLayer_getHeaderLen l) (\<lambda>hl.
       f (drop sizeof_tcphdr d) (minus64 hl sizeof_tcphdr)))"

definition getTcpOption :: "byte \<Rightarrow> (byte, 'a) layer_scheme \<Rightarrow> nat option outcome option" where
  "getTcpOption t l =
     (case with_options l (\<lambda>mem n. Inr (getTLVRecord TcpOption_getTotalSize t mem n)) of Inl e \<Rightarrow> Some (Inl e) | Inr r \<Rightarrow> r)"

definition getFirstTcpOption :: "(byte, 'a) layer_scheme \<Rightarrow> nat option outcome" where
  "getFirstTcpOption l = with_options l (getFirstTLVRecord TcpOption_getTotalSize)"

text \<open>The trailing bytes look like an option of their own; the walk stops at it.\<close>

definition next_tcp_option :: "byte list \<Rightarrow> nat \<Rightarrow> nat \<Rightarrow> nat option outcome" where
  "next_tcp_option mem n pos =
     bind_out (getNextTLVRecord TcpOption_getTotalSize mem n pos) (\<lambda>nx.
       case nx of
         None \<Rightarrow> Inr None
       | Some pos' \<Rightarrow> bind_out (getType mem pos') (\<lambda>t. Inr (if t = TCPOPT_DUMMY then None else Some pos')))"

definition getNextTcpOption :: "nat \<Rightarrow> (byte, 'a) layer_scheme \<Rightarrow> nat option outcome" where
  "getNextTcpOption pos l = with_options l (\<lambda>mem n. next_tcp_option mem n pos)"

definition getTcpOptionCount :: "tcp_lay \<Rightarrow> nat outcome option" where
  "getTcpOptionCount l =
     (case with_options l (\<lambda>mem n. Inr (getTLVRecordCount TcpOption_getTotalSize mem n (m_RecordCount l))) of
        Inl e \<Rightarrow> Some (Inl e) | Inr r \<Rightarrow> r)"

text \<open>The sum of the sizes, over the walk of \<open>getFirstTcpOption\<close> and \<open>getNextTcpOption\<close>.\<close>

partial_function (option) total_from :: "byte list \<Rightarrow> nat \<Rightarrow> nat option \<Rightarrow> nat \<Rightarrow> nat outcome option" where
  "total_from mem n cur acc =
     (case cur of
        None \<Rightarrow> Some (Inr acc)
      | Some pos \<Rightarrow>
          (case TcpOption_getTotalSize mem pos of
             Inl e \<Rightarrow> Some (Inl e)
           | Inr k \<Rightarrow>
               (case next_tcp_option mem n pos of
                  Inl e \<Rightarrow> Some (Inl e)
                | Inr nx \<Rightarrow> total_from mem n nx (acc + k))))"

definition total_options :: "(byte, 'a) layer_scheme \<Rightarrow> nat outcome option" where
  "total_options l =
     (case with_options l (\<lambda>mem n. Inr (case getFirstTLVRecord TcpOption_getTotalSize mem n of
          Inl e \<Rightarrow> Some (Inl e) | Inr cur \<Rightarrow> total_from mem n cur 0)) of
        Inl e \<Rightarrow> Some (Inl e) | Inr r \<Rightarrow> r)"

text \<open>\<open>adjustTcpOptionTrailer\<close>; the first loop counts up to the next multiple of four.\<close>

definition trailing :: "nat \<Rightarrow> nat" where
  "trailing optSize = (4 - optSize mod 4) mod 4"

definition adjustTcpOptionTrailer :: "(nat \<Rightarrow> byte) \<Rightarrow> nat \<Rightarrow> tcp_lay \<Rightarrow> tcp_lay outcome" where
  "adjustTcpOptionTrailer junk optSize l =
     (let new = trailing optSize;
          old = m_NumOfTrailingBytes l;
          off = sizeof_tcphdr + optSize
      in bind_out (if new < old then shortenLayer (int off) (old - new) l
                   else if new > old then extendLayer junk (int off) (new - old) l
                   else Inr (l, True)) (\<lambda>(l1, _).
         bind_out (write_at off (replicate new TCPOPT_DUMMY) (l1\<lparr>m_NumOfTrailingBytes := new\<rparr>)) (\<lambda>l2.
           set_dataOffset ((off + new) div 4) l2)))"

text \<open>
  \<open>addTcpOptionAt\<close>, \<open>addTcpOption\<close>, \<open>addTcpOptionAfter\<close>: the layer and the place of the new option
  in it, \<open>None\<close> for the null option. The outer \<open>option\<close> is a walk that does not end.
\<close>

definition addTcpOptionAt :: "(nat \<Rightarrow> byte) \<Rightarrow> tlv_builder \<Rightarrow> int \<Rightarrow> tcp_lay \<Rightarrow> (tcp_lay \<times> int option) outcome option" where
  "addTcpOptionAt junk b offset l =
     (case TcpOption_build b of
        None \<Rightarrow> Some (Inr (l, None))
      | Some buf \<Rightarrow>
          (case total_options l of
             None \<Rightarrow> None
           | Some r \<Rightarrow> Some
               (bind_out r (\<lambda>total0.
                bind_out (TcpOption_getTotalSize buf 0) (\<lambda>k.
                bind_out (extendLayer junk offset k l) (\<lambda>(l1, extended).
                  if \<not> extended then Inr (l1, None)
                  else
                    bind_out (bytes_at buf 0 k) (\<lambda>bs.
                    bind_out (write_at (nat offset) bs l1) (\<lambda>l2.
                    bind_out (adjustTcpOptionTrailer junk (total0 + k) l2) (\<lambda>l3.
                      Inr (l3\<lparr>m_RecordCount := changeTLVRecordCount 1 (m_RecordCount l3)\<rparr>, Some offset))))))))))"

definition addTcpOption :: "(nat \<Rightarrow> byte) \<Rightarrow> tlv_builder \<Rightarrow> tcp_lay \<Rightarrow> (tcp_lay \<times> int option) outcome option" where
  "addTcpOption junk b l =
     (case TcpLayer_getHeaderLen l of
        Inl e \<Rightarrow> Some (Inl e)
      | Inr hl \<Rightarrow> addTcpOptionAt junk b (int hl - int (m_NumOfTrailingBytes l)) l)"

definition addTcpOptionAfter ::
    "(nat \<Rightarrow> byte) \<Rightarrow> tlv_builder \<Rightarrow> byte \<Rightarrow> tcp_lay \<Rightarrow> (tcp_lay \<times> int option) outcome option" where
  "addTcpOptionAfter junk b prevOptionType l =
     (if prevOptionType = 255 then addTcpOptionAt junk b (int sizeof_tcphdr) l
      else case getTcpOption prevOptionType l of
        None \<Rightarrow> None
      | Some (Inl e) \<Rightarrow> Some (Inl e)
      | Some (Inr None) \<Rightarrow> Some (Inr (l, None))
      | Some (Inr (Some pos)) \<Rightarrow>
          (case with_options l (\<lambda>mem n. TcpOption_getTotalSize mem pos) of
             Inl e \<Rightarrow> Some (Inl e)
           | Inr k \<Rightarrow> addTcpOptionAt junk b (int (sizeof_tcphdr + pos + k)) l))"


definition removeAllTcpOptions :: "tcp_lay \<Rightarrow> (tcp_lay \<times> bool) outcome option" where
  "removeAllTcpOptions l =
     (case TcpLayer_getHeaderLen l of
        Inl e \<Rightarrow> Some (Inl e)
      | Inr hl \<Rightarrow>
          (case shortenLayer (int sizeof_tcphdr) (minus64 hl sizeof_tcphdr) l of
             Inl e \<Rightarrow> Some (Inl e)
           | Inr (l1, False) \<Rightarrow> Some (Inr (l1, False))
           | Inr (l1, True) \<Rightarrow>
               (case set_dataOffset (sizeof_tcphdr div 4) l1 of
                  Inl e \<Rightarrow> Some (Inl e)
                | Inr l2 \<Rightarrow>
                    let l3 = l2\<lparr>m_NumOfTrailingBytes := 0\<rparr>
                    in (case getTcpOptionCount l3 of
                          None \<Rightarrow> None
                        | Some (Inl e) \<Rightarrow> Some (Inl e)
                        | Some (Inr c) \<Rightarrow>
                            Some (Inr (l3\<lparr>m_RecordCount := changeTLVRecordCount (- int c) (m_RecordCount l3)\<rparr>, True))))))"

section \<open>A row of options\<close>

text \<open>An option as its type and value; those that can be written, and their bytes.\<close>

type_synonym tcp_opt = "byte \<times> byte list"

definition opt_bytes :: "tcp_opt \<Rightarrow> byte list" where
  "opt_bytes x = (if fst x = PCPP_TCPOPT_EOL \<or> fst x = PCPP_TCPOPT_NOP then [fst x]
     else fst x # of_nat (length (snd x) + 2) # snd x)"

definition opt_ok :: "tcp_opt \<Rightarrow> bool" where
  "opt_ok x \<longleftrightarrow> fst x \<noteq> TCPOPT_DUMMY \<and> length (snd x) \<le> 253
     \<and> (fst x = PCPP_TCPOPT_EOL \<or> fst x = PCPP_TCPOPT_NOP \<longrightarrow> snd x = [])"

abbreviation row :: "tcp_opt list \<Rightarrow> byte list" where
  "row opts \<equiv> concat (map opt_bytes opts)"

lemma byte_of_nat: "n < 256 \<Longrightarrow> unat (of_nat n :: byte) = n"
  by (simp add: unsigned_of_nat take_bit_nat_eq_self)

lemma opt_size:
  assumes "opt_ok x"
  shows "TcpOption_getTotalSize (pre @ opt_bytes x @ post) (length pre) = Inr (length (opt_bytes x))"
proof (cases "fst x = PCPP_TCPOPT_EOL \<or> fst x = PCPP_TCPOPT_NOP")
  case True
  then show ?thesis by (auto simp: TcpOption_getTotalSize_def opt_bytes_def byte_at_def nth_append)
next
  case False
  then have "unat (of_nat (length (snd x) + 2) :: byte) = length (snd x) + 2"
    using assms by (intro byte_of_nat) (simp add: opt_ok_def)
  with False show ?thesis
    by (auto simp: TcpOption_getTotalSize_def opt_bytes_def byte_at_def nth_append)
qed

interpretation tcp_opts: tlv_kind TcpOption_getTotalSize opt_bytes opt_ok fst
proof
  fix x pre post
  show "opt_ok x \<Longrightarrow> \<exists>rest. opt_bytes x = fst x # rest" by (simp add: opt_bytes_def)
  show "opt_ok x \<Longrightarrow> TcpOption_getTotalSize (pre @ opt_bytes x @ post) (length pre) = Inr (length (opt_bytes x))"
    by (rule opt_size)
qed

lemma byte_of_type: "ucast (ucast b :: 32 word) = (b :: byte)"
  by (rule bit_word_eqI) (simp add: bit_simps)

lemma build_opt: "opt_ok x \<Longrightarrow> TcpOption_build \<lparr>m_RecType = ucast (fst x), m_RecValue = snd x\<rparr> = Some (opt_bytes x)"
  by (auto simp: TcpOption_build_def opt_bytes_def opt_ok_def Let_def byte_of_type)

text \<open>The trailing bytes; with a single one the walk reads one byte behind it.\<close>

definition trailer :: "nat \<Rightarrow> byte list" where
  "trailer t = replicate t TCPOPT_DUMMY"

definition readable_end :: "nat \<Rightarrow> byte list \<Rightarrow> bool" where
  "readable_end t payload \<longleftrightarrow> t \<noteq> 1 \<or> payload \<noteq> []"

lemma dummy_size:
  assumes "0 < t" "readable_end t payload"
  shows "\<exists>k. TcpOption_getTotalSize (pre @ trailer t @ payload) (length pre) = Inr k"
proof -
  obtain s where s: "t = Suc s" using assms(1) by (cases t) auto
  have "\<exists>b rest. trailer s @ payload = b # rest"
    using assms(2) s by (cases s; cases payload) (auto simp: readable_end_def trailer_def)
  then obtain b rest where "trailer t @ payload = TCPOPT_DUMMY # b # rest" by (auto simp: s trailer_def)
  then show ?thesis
    by (simp add: TcpOption_getTotalSize_def byte_at_def nth_append TCPOPT_DUMMY_def PCPP_TCPOPT_EOL_def PCPP_TCPOPT_NOP_def)
qed

lemma dummy_overread:
  "\<not> readable_end t payload \<Longrightarrow> TcpOption_getTotalSize (pre @ trailer t @ payload) (length pre) = Inl OutOfBounds"
  by (simp add: TcpOption_getTotalSize_def byte_at_def nth_append readable_end_def trailer_def TCPOPT_DUMMY_def
      PCPP_TCPOPT_EOL_def PCPP_TCPOPT_NOP_def)

lemma last_option:
  assumes "opt_ok x" "n = length pre + length (opt_bytes x) + t" "n < 2 ^ 31"
  shows "next_tcp_option (pre @ opt_bytes x @ trailer t @ payload) n (length pre)
    = (if readable_end t payload then Inr None else Inl OutOfBounds)"
proof -
  let ?mem = "pre @ opt_bytes x @ trailer t @ payload"
  have 1: "TcpOption_getTotalSize ?mem (length pre) = Inr (length (opt_bytes x))" using opt_size [OF assms(1)] by simp
  note unfolds = next_tcp_option_def getNextTLVRecord_def sint_nat32 [OF assms(3)] 1
  consider "t = 0" | "t > 0" "readable_end t payload" | "\<not> readable_end t payload" by blast
  then show ?thesis
  proof cases
    case 1
    then have "int (length pre) + int (length (opt_bytes x)) \<ge> int n" using assms(2) by simp
    then show ?thesis using 1 unfolding unfolds by (simp add: readable_end_def)
  next
    case 2
    from dummy_size [OF this, of "pre @ opt_bytes x"] obtain k where
      k: "TcpOption_getTotalSize ?mem (length pre + length (opt_bytes x)) = Inr k" by auto
    have "getType ?mem (length pre + length (opt_bytes x)) = Inr TCPOPT_DUMMY"
      using 2 by (cases t) (simp_all add: getType_def byte_at_def nth_append trailer_def)
    then show ?thesis using 2 assms(2) unfolding unfolds by (simp add: k)
  next
    case 3
    then have "t = 1" by (simp add: readable_end_def)
    then show ?thesis using 3 assms(2) dummy_overread [OF 3, of "pre @ opt_bytes x"] unfolding unfolds by simp
  qed
qed

lemma inner_option:
  assumes "opt_ok x" "opt_ok y" "n < 2 ^ 31" "length (pre @ opt_bytes x) < n"
  shows "next_tcp_option (pre @ opt_bytes x @ opt_bytes y @ post) n (length pre) = Inr (Some (length (pre @ opt_bytes x)))"
proof -
  have "getType (pre @ opt_bytes x @ opt_bytes y @ post) (length (pre @ opt_bytes x)) = Inr (fst y)"
    using tcp_opts.begins [OF assms(2)] by (auto simp: getType_def byte_at_def nth_append)
  then show ?thesis using tcp_opts.next_inner [OF assms, of post] assms(2) by (simp add: next_tcp_option_def opt_ok_def)
qed

lemma total_row_from:
  "list_all opt_ok (x # xs) \<Longrightarrow> n = length pre + length (row (x # xs)) + t \<Longrightarrow> n < 2 ^ 31 \<Longrightarrow>
     total_from (pre @ row (x # xs) @ trailer t @ payload) n (Some (length pre)) acc
       = Some (if readable_end t payload then Inr (acc + length (row (x # xs))) else Inl OutOfBounds)"
proof (induction xs arbitrary: x pre acc)
  case Nil
  then have "TcpOption_getTotalSize (pre @ opt_bytes x @ trailer t @ payload) (length pre) = Inr (length (opt_bytes x))"
    using opt_size [of x pre "trailer t @ payload"] by simp
  with Nil last_option [of x n pre t payload] show ?case
    by (simp add: total_from.simps [of _ _ "Some _"] total_from.simps [of _ _ None])
next
  case (Cons y ys)
  let ?rest = "row ys @ trailer t @ payload"
  have 1: "TcpOption_getTotalSize (pre @ opt_bytes x @ opt_bytes y @ ?rest) (length pre) = Inr (length (opt_bytes x))"
    using opt_size [of x pre "opt_bytes y @ ?rest"] Cons.prems(1) by simp
  have "length (pre @ opt_bytes x) < n" using Cons.prems(1,2) tcp_opts.nonempty [of y] by simp
  with inner_option [of x y n pre ?rest] Cons.prems(1,3)
  have 2: "next_tcp_option (pre @ opt_bytes x @ opt_bytes y @ ?rest) n (length pre) = Inr (Some (length (pre @ opt_bytes x)))" by simp
  have "total_from ((pre @ opt_bytes x) @ row (y # ys) @ trailer t @ payload) n (Some (length (pre @ opt_bytes x))) (acc + length (opt_bytes x))
      = Some (if readable_end t payload then Inr (acc + length (opt_bytes x) + length (row (y # ys))) else Inl OutOfBounds)"
    using Cons.prems by (intro Cons.IH) simp_all
  with 1 2 show ?case by (simp add: total_from.simps [of _ _ "Some (length pre)"] add.assoc)
qed

section \<open>Layers with a row of options\<close>

text \<open>
  The fixed header, the options, the trailing bytes and what follows; the header length covers the
  first three.
\<close>

definition laid_out :: "byte list \<Rightarrow> tcp_opt list \<Rightarrow> byte list \<Rightarrow> tcp_lay \<Rightarrow> bool" where
  "laid_out h opts payload l \<longleftrightarrow> length h = sizeof_tcphdr \<and> list_all opt_ok opts
     \<and> m_Data l = Some (h @ row opts @ trailer (m_NumOfTrailingBytes l) @ payload)
     \<and> m_DataLen l = length (h @ row opts @ trailer (m_NumOfTrailingBytes l) @ payload)
     \<and> m_NumOfTrailingBytes l = trailing (length (row opts)) \<and> length (row opts) \<le> 40
     \<and> unat (h ! 12) div 16 * 4 = sizeof_tcphdr + length (row opts) + m_NumOfTrailingBytes l"

lemma trailing_less: "trailing n < 4"
  by (simp add: trailing_def)




lemma options_of:
  assumes "laid_out h opts payload l"
  shows "with_options l f = f (row opts @ trailer (m_NumOfTrailingBytes l) @ payload) (length (row opts) + m_NumOfTrailingBytes l)"
proof -
  have "TcpLayer_getHeaderLen l = Inr (sizeof_tcphdr + length (row opts) + m_NumOfTrailingBytes l)"
    using assms by (simp add: TcpLayer_getHeaderLen_def get_dataOffset_def lay_data_def byte_at_def nth_append laid_out_def)
  with assms show ?thesis
    by (simp add: with_options_def lay_data_def minus64_def laid_out_def)
qed

lemma total_laid_out:
  assumes "laid_out h opts payload l"
  shows "total_options l = Some (if readable_end (m_NumOfTrailingBytes l) payload then Inr (length (row opts)) else Inl OutOfBounds)"
proof (cases opts)
  case Nil
  then have "m_NumOfTrailingBytes l = 0" using assms(1) by (simp add: laid_out_def trailing_def)
  with Nil show ?thesis
    by (simp add: total_options_def options_of [OF assms(1)] getFirstTLVRecord_def total_from.simps readable_end_def)
next
  case (Cons x xs)
  let ?n = "length (row opts) + m_NumOfTrailingBytes l" and ?post = "trailer (m_NumOfTrailingBytes l) @ payload"
  have ok: "list_all opt_ok (x # xs)" and small: "?n < 2 ^ 31"
    using assms(1) Cons trailing_less [of "length (row opts)"] by (simp_all add: laid_out_def)
  have "TcpOption_getTotalSize (row opts @ ?post) 0 = Inr (length (opt_bytes x))"
    using opt_size [of x "[]" "row xs @ ?post"] ok Cons by simp
  then have "getFirstTLVRecord TcpOption_getTotalSize (row opts @ ?post) ?n = Inr (Some 0)"
    using tcp_opts.nonempty [of x] ok Cons by (simp add: getFirstTLVRecord_def)
  moreover have "total_from (row opts @ ?post) ?n (Some 0) 0 =
      Some (if readable_end (m_NumOfTrailingBytes l) payload then Inr (length (row opts)) else Inl OutOfBounds)"
    using total_row_from [OF ok _ small, of "[]"] Cons by simp
  ultimately show ?thesis by (simp add: total_options_def options_of [OF assms(1)])
qed

section \<open>Adding and removing\<close>












text \<open>
  On a layer without payload whose options leave one trailing byte, adding any option reads one
  byte behind the array: the length of the single dummy byte.
\<close>

theorem tcp_option_overread:
  assumes "laid_out h opts [] l" "length (row opts) mod 4 = 3" "opt_ok x"
  shows "addTcpOption junk \<lparr>m_RecType = ucast (fst x), m_RecValue = snd x\<rparr> l = Some (Inl OutOfBounds)"
proof -
  have "TcpLayer_getHeaderLen l = Inr (sizeof_tcphdr + length (row opts) + m_NumOfTrailingBytes l)"
    using assms by (simp add: TcpLayer_getHeaderLen_def get_dataOffset_def lay_data_def byte_at_def nth_append laid_out_def)
  moreover have "\<not> readable_end (m_NumOfTrailingBytes l) []" using assms(1,2) by (simp add: laid_out_def trailing_def readable_end_def)
  ultimately show ?thesis
    using total_laid_out [OF assms(1)] by (simp add: addTcpOption_def addTcpOptionAt_def build_opt [OF assms(3)])
qed

lemma tcp_option_overread_witness:
  "addTcpOption (\<lambda>_. 7) \<lparr>m_RecType = ucast (2 :: byte), m_RecValue = [5, 180]\<rparr>
     \<lparr>m_Data = Some ((replicate sizeof_tcphdr 0)[12 := 0x60] @ [3, 3, 7, 255]), m_DataLen = 24, m_NumOfTrailingBytes = 1, m_RecordCount = None\<rparr>
     = Some (Inl OutOfBounds)"
proof -
  have "laid_out ((replicate sizeof_tcphdr 0)[12 := 0x60]) [(3, [7])] []
     \<lparr>m_Data = Some ((replicate sizeof_tcphdr 0)[12 := 0x60] @ [3, 3, 7, 255]), m_DataLen = 24, m_NumOfTrailingBytes = 1, m_RecordCount = None\<rparr>"
    by (simp add: laid_out_def trailer_def trailing_def opt_ok_def opt_bytes_def TCPOPT_DUMMY_def PCPP_TCPOPT_EOL_def PCPP_TCPOPT_NOP_def)
  from tcp_option_overread [OF this, where x = "(2, [5, 180])" and junk = "\<lambda>_. 7"]
  show ?thesis by (simp add: opt_ok_def opt_bytes_def TCPOPT_DUMMY_def PCPP_TCPOPT_EOL_def PCPP_TCPOPT_NOP_def)
qed

end
