(* ===== verification/TransportChecksum.thy ===== *)
theory TransportChecksum
  imports TcpOptions PacketUtils
begin

text \<open>
  The checksums of \<open>TcpLayer.cpp\<close> and \<open>UdpLayer.cpp\<close>: over the segment with a zero in its checksum
  field and a pseudo header with the addresses of the IP layer before it. IPv4 addresses are the
  32-bit integers that \<open>toInt\<close> returns, with the bytes as in the packet.
\<close>

unbundle bit_operations_syntax

section \<open>The pseudo header\<close>

datatype prev_layer = PrevIPv4 "32 word" "32 word" | PrevIPv6 "byte list" "byte list" | PrevOther

definition PACKETPP_IPPROTO_TCP :: byte where "PACKETPP_IPPROTO_TCP = 6"
definition PACKETPP_IPPROTO_UDP :: byte where "PACKETPP_IPPROTO_UDP = 17"

text \<open>
  The array of 16-bit numbers, in memory. \<open>len\<close> is the number that is stored for the length, in
  network byte order already.
\<close>

fun pseudoHeader :: "prev_layer \<Rightarrow> byte \<Rightarrow> 16 word \<Rightarrow> byte list option" where
  "pseudoHeader (PrevIPv4 srcIP dstIP) proto len =
     Some (bytes16 (ucast (drop_bit 16 srcIP)) @ bytes16 (ucast (srcIP AND 0xFFFF))
       @ bytes16 (ucast (drop_bit 16 dstIP)) @ bytes16 (ucast (dstIP AND 0xFFFF))
       @ bytes16 (0xffff AND len) @ bytes16 (htons (ucast proto)))"
| "pseudoHeader (PrevIPv6 src dst) proto len =
     Some (src @ dst @ bytes16 (0xffff AND len) @ bytes16 (htons (ucast proto)))"
| "pseudoHeader PrevOther proto len = None"

section \<open>The two functions\<close>

text \<open>
  What both share: the field at \<open>at\<close> is cleared, and the sum is taken of the bytes of the layer and
  of the pseudo header, if there is one. The length number is read from the layer by \<open>len\<close>.
\<close>

definition sum_cleared ::
    "nat \<Rightarrow> byte \<Rightarrow> ((byte, 'a) layer_scheme \<Rightarrow> 16 word outcome) \<Rightarrow> prev_layer \<Rightarrow> (byte, 'a) layer_scheme \<Rightarrow> (nat \<times> (byte, 'a) layer_scheme) outcome" where
  "sum_cleared at proto len prev l =
     bind_out (write_at at [0, 0] l) (\<lambda>l0.
     bind_out (len l0) (\<lambda>n.
       case pseudoHeader prev proto n of
         None \<Rightarrow> Inr (0, l0)
       | Some ph \<Rightarrow>
           bind_out (lay_data l0) (\<lambda>d. bind_out (bytes_at d 0 (m_DataLen l0)) (\<lambda>seg.
             Inr (computeChecksum [seg, ph], l0)))))"

text \<open>The result is written into the packet, or the old value is written back.\<close>

definition store_checksum ::
    "nat \<Rightarrow> bool \<Rightarrow> byte list \<Rightarrow> nat \<Rightarrow> (byte, 'a) layer_scheme \<Rightarrow> (nat \<times> (byte, 'a) layer_scheme) outcome" where
  "store_checksum at writeResult currValue res l =
     bind_out (write_at at (if writeResult then bytes16 (htons (of_nat res)) else currValue) l) (\<lambda>l'. Inr (res, l'))"

definition tcp_calculateChecksum ::
    "prev_layer option \<Rightarrow> bool \<Rightarrow> (byte, 'a) layer_scheme \<Rightarrow> (nat \<times> (byte, 'a) layer_scheme) outcome" where
  "tcp_calculateChecksum prev writeResult l =
     bind_out (lay_data l) (\<lambda>d. bind_out (bytes_at d 16 2) (\<lambda>currValue.
     bind_out (case prev of
                 None \<Rightarrow> Inr (0, l)
               | Some p \<Rightarrow> sum_cleared 16 PACKETPP_IPPROTO_TCP (\<lambda>l. Inr (htons (of_nat (m_DataLen l)))) p l)
       (\<lambda>(res, l1). store_checksum 16 writeResult currValue res l1)))"

text \<open>UDP takes the length from its header, and stores a sum of zero as all ones.\<close>

definition udp_length :: "(byte, 'a) layer_scheme \<Rightarrow> 16 word outcome" where
  "udp_length l =
     bind_out (lay_data l) (\<lambda>d. bind_out (byte_at d 4) (\<lambda>a. bind_out (byte_at d 5) (\<lambda>b.
       Inr (ucast a OR push_bit 8 (ucast b)))))"

definition udp_calculateChecksum ::
    "prev_layer option \<Rightarrow> bool \<Rightarrow> (byte, 'a) layer_scheme \<Rightarrow> (nat \<times> (byte, 'a) layer_scheme) outcome" where
  "udp_calculateChecksum prev writeResult l =
     bind_out (lay_data l) (\<lambda>d. bind_out (bytes_at d 6 2) (\<lambda>currValue.
     bind_out (case prev of None \<Rightarrow> Inr (0, l) | Some p \<Rightarrow> sum_cleared 6 PACKETPP_IPPROTO_UDP udp_length p l)
       (\<lambda>(res, l1). store_checksum 6 writeResult currValue (if res = 0 then 0xffff else res) l1)))"

text \<open>\<open>computeCalculateFields\<close> of both, and the constructor of \<open>UdpLayer\<close>.\<close>

definition tcp_computeCalculateFields :: "prev_layer option \<Rightarrow> (byte, 'a) layer_scheme \<Rightarrow> (byte, 'a) layer_scheme outcome" where
  "tcp_computeCalculateFields prev l =
     bind_out (TcpLayer_getHeaderLen l) (\<lambda>hl. bind_out (set_dataOffset (drop_bit 2 hl) l) (\<lambda>l1.
     bind_out (tcp_calculateChecksum prev True l1) (\<lambda>(_, l2). Inr l2)))"

definition udp_computeCalculateFields :: "prev_layer option \<Rightarrow> (byte, 'a) layer_scheme \<Rightarrow> (byte, 'a) layer_scheme outcome" where
  "udp_computeCalculateFields prev l =
     bind_out (write_at 4 (bytes16 (htons (of_nat (m_DataLen l)))) l) (\<lambda>l1.
     bind_out (udp_calculateChecksum prev True l1) (\<lambda>(_, l2). Inr l2))"

abbreviation (input) sizeof_udphdr :: nat where "sizeof_udphdr \<equiv> 8"

definition UdpLayer_ports :: "16 word \<Rightarrow> 16 word \<Rightarrow> byte layer" where
  "UdpLayer_ports portSrc portDst =
     \<lparr>m_Data = Some (bytes16 (htons portSrc) @ bytes16 (htons portDst) @ replicate 4 0), m_DataLen = sizeof_udphdr\<rparr>"

section \<open>The reference\<close>

text \<open>
  The pseudo header of RFC 793 and RFC 768: the addresses as they stand in the packet, a zero and
  the protocol, and the length in network byte order; and that of RFC 8200, whose length and
  protocol take four bytes each.
\<close>

fun rfc_pseudo :: "prev_layer \<Rightarrow> byte \<Rightarrow> nat \<Rightarrow> byte list" where
  "rfc_pseudo (PrevIPv4 src dst) proto n = bytes32 src @ bytes32 dst @ [0, proto] @ checksum_bytes n"
| "rfc_pseudo (PrevIPv6 src dst) proto n = src @ dst @ [0, 0] @ checksum_bytes n @ [0, 0, 0, proto]"
| "rfc_pseudo PrevOther proto n = []"

fun ip_prev :: "prev_layer \<Rightarrow> bool" where
  "ip_prev (PrevIPv4 src dst) = True"
| "ip_prev (PrevIPv6 src dst) = (length src = 16 \<and> length dst = 16)"
| "ip_prev PrevOther = False"

lemma bytes16_htons: "n < 65536 \<Longrightarrow> bytes16 (htons (of_nat n)) = checksum_bytes n"
proof -
  have "ucast (ntohs (of_nat n)) = (of_nat (drop_bit 8 n) :: byte)"
    by (rule bit_word_eqI) (simp add: bit_ntohs bit_simps add.commute)
  moreover have "ucast (drop_bit 8 (ntohs (of_nat n))) = (of_nat (take_bit 8 n) :: byte)"
    by (rule bit_word_eqI) (simp add: bit_ntohs bit_simps)
  ultimately show ?thesis
    by (simp add: bytes16_def checksum_bytes_def htons_ntohs drop_bit_eq_div take_bit_eq_mod)
qed

lemma bytes16_halves:
  "bytes16 (ucast (drop_bit 16 w)) = drop 2 (bytes32 w)" "bytes16 (ucast (w AND 0xFFFF)) = take 2 (bytes32 w)"
proof -
  have "ucast (ucast (drop_bit 16 w) :: 16 word) = (ucast (drop_bit 16 w) :: byte)"
    "ucast (drop_bit 8 (ucast (drop_bit 16 w) :: 16 word)) = (ucast (drop_bit 24 w) :: byte)"
    by (rule bit_word_eqI, simp add: bit_simps)+
  then show "bytes16 (ucast (drop_bit 16 w)) = drop 2 (bytes32 w)" by (simp add: bytes16_def bytes32_def)
  have m: "w AND 0xFFFF = take_bit 16 w" by (simp add: take_bit_eq_mask mask_eq_exp_minus_1)
  have "ucast (ucast (take_bit 16 w) :: 16 word) = (ucast w :: byte)"
    "ucast (drop_bit 8 (ucast (take_bit 16 w) :: 16 word)) = (ucast (drop_bit 8 w) :: byte)"
    by (rule bit_word_eqI, simp add: bit_simps)+
  then show "bytes16 (ucast (w AND 0xFFFF)) = take 2 (bytes32 w)" by (simp add: bytes16_def bytes32_def m)
qed

lemma mask16: "0xffff AND (w :: 16 word) = w"
proof -
  have "0xffff AND w = take_bit 16 w" by (simp add: take_bit_eq_mask mask_eq_exp_minus_1 and.commute)
  then show ?thesis by (simp add: take_bit_word_eq_self)
qed

lemma no_byte_bit: "\<not> bit (b :: byte) (n + 8)"
  using bit_range [of b "n + 8"] by auto

lemma bytes16_proto: "bytes16 (htons (ucast (b :: byte))) = [0, b]"
  by (rule nth_equalityI) (auto simp: bytes16_def htons_ntohs bit_ntohs bit_simps less_Suc_eq no_byte_bit intro!: bit_word_eqI)

lemma be_sum_halves: "be_sum (drop 2 (bytes32 w) @ take 2 (bytes32 w) @ bs) = be_sum (bytes32 w @ bs)"
  by (simp add: bytes32_def)

lemma pseudo_sum:
  assumes "ip_prev prev" "n < 65536"
  shows "\<exists>ph. pseudoHeader prev proto (htons (of_nat n)) = Some ph \<and> length ph \<le> 36
     \<and> be_sum ph = be_sum (rfc_pseudo prev proto n)"
proof (cases prev)
  case (PrevIPv4 src dst)
  then show ?thesis using assms(2)
    by (simp add: bytes16_halves bytes16_htons mask16 bytes16_proto be_sum_halves checksum_bytes_def)
      (simp add: bytes32_def)
next
  case (PrevIPv6 src dst)
  then show ?thesis using assms
    by (simp add: bytes16_htons mask16 bytes16_proto be_sum_append checksum_bytes_def)
qed (use assms in simp)

section \<open>Properties\<close>

lemma sum_is:
  assumes "ip_prev prev" "n < 65536" "length seg < 131072" "0 < proto"
  shows "\<exists>ph. pseudoHeader prev proto (htons (of_nat n)) = Some ph
     \<and> computeChecksum [seg, ph] = 65535 - ones_sum (be_sum seg + be_sum (rfc_pseudo prev proto n))
     \<and> computeChecksum [seg, rfc_pseudo prev proto n] = computeChecksum [seg, ph]"
proof -
  from pseudo_sum [OF assms(1,2)] obtain ph where
    ph: "pseudoHeader prev proto (htons (of_nat n)) = Some ph" "length ph \<le> 36" "be_sum ph = be_sum (rfc_pseudo prev proto n)"
    by blast
  have "length (rfc_pseudo prev proto n) \<le> 40" using assms(1) by (cases prev) (simp_all add: checksum_bytes_def)
  then have "short_buffers [seg, ph]" "short_buffers [seg, rfc_pseudo prev proto n]"
    using ph(2) assms(3) by (simp_all add: short_buffers_def)
  then show ?thesis using ph by (simp add: checksum_eq)
qed

text \<open>
  What both functions do on a layer that uses its whole array: the field at an even place gets the
  complement of the sum, and the sum over the result is accepted.
\<close>

definition cleared :: "nat \<Rightarrow> byte list \<Rightarrow> byte list" where
  "cleared at d = take at d @ [0, 0] @ drop (at + 2) d"

definition filled :: "nat \<Rightarrow> nat \<Rightarrow> byte list \<Rightarrow> byte list" where
  "filled at c d = take at d @ checksum_bytes c @ drop (at + 2) d"

lemma write_field: "m_Data l = Some d \<Longrightarrow> at + 2 \<le> length d \<Longrightarrow> length bs = 2
    \<Longrightarrow> write_at at bs l = Inr (l\<lparr>m_Data := Some (take at d @ bs @ drop (at + 2) d)\<rparr>)"
  by (simp add: write_at_def lay_data_def)

lemma sum_cleared_is:
  assumes "ip_prev prev" "n < 65536" "0 < proto" "m_Data l = Some d" "m_DataLen l = length d" "length d < 131072" "at + 2 \<le> length d"
    and "len (l\<lparr>m_Data := Some (cleared at d)\<rparr>) = Inr (htons (of_nat n))"
  shows "sum_cleared at proto len prev l
    = Inr (65535 - ones_sum (be_sum (cleared at d) + be_sum (rfc_pseudo prev proto n)), l\<lparr>m_Data := Some (cleared at d)\<rparr>)"
proof -
  have "length (cleared at d) = length d" using assms(7) by (simp add: cleared_def)
  with sum_is [OF assms(1,2) _ assms(3), of "cleared at d"] assms(6) obtain ph where
    "pseudoHeader prev proto (htons (of_nat n)) = Some ph"
    "computeChecksum [cleared at d, ph] = 65535 - ones_sum (be_sum (cleared at d) + be_sum (rfc_pseudo prev proto n))" by auto
  moreover have "write_at at [0, 0] l = Inr (l\<lparr>m_Data := Some (cleared at d)\<rparr>)"
    using write_field [of l d at "[0, 0]"] assms(4,7) by (simp add: cleared_def)
  ultimately show ?thesis
    using assms(5,8) \<open>length (cleared at d) = length d\<close> by (simp add: sum_cleared_def lay_data_def bytes_at_def)
qed

lemma store_is:
  assumes "m_Data l = Some (cleared at d)" "at + 2 \<le> length d" "c < 65536"
  shows "store_checksum at True old c l = Inr (c, l\<lparr>m_Data := Some (filled at c d)\<rparr>)"
proof -
  have "length (cleared at d) = length d" "take at (cleared at d) = take at d" "drop (at + 2) (cleared at d) = drop (at + 2) d"
    using assms(2) by (simp_all add: cleared_def)
  then show ?thesis
    using write_field [OF assms(1), where bs = "bytes16 (htons (of_nat c))"] assms(2,3)
    by (simp add: store_checksum_def bytes16_htons [OF assms(3)] filled_def checksum_bytes_def)
qed

lemma ones_sum_again: "0 < n \<Longrightarrow> ones_sum (n + 65535) = ones_sum n"
  using ones_sum_bounds [of n] ones_sum_mod [of n] by (intro ones_sum_unique [symmetric]) simp_all

lemma accepted:
  assumes "ip_prev prev" "n < 65536" "0 < proto" "at + 2 \<le> length d" "even at" "length d < 131072"
    and S: "S = be_sum (cleared at d) + be_sum (rfc_pseudo prev proto n)" and "c = 65535 - ones_sum S \<or> ones_sum S = 65535 \<and> c = 65535"
  shows "computeChecksum [filled at c d, rfc_pseudo prev proto n] = 0"
proof -
  have "0 < be_sum (rfc_pseudo prev proto n)"
    using assms(1,3) by (cases prev) (auto simp: be_sum_append checksum_bytes_def bytes32_def unat_gt_0 word_gt_0)
  then have pos: "0 < S" unfolding S by simp
  have c: "c \<le> 65535" using assms(8) by auto
  have "be_sum (filled at c d) = be_sum (cleared at d) + c"
    using assms(4,5) be_sum_bytes [OF c] by (simp add: filled_def cleared_def be_sum_append)
  moreover have "short_buffers [filled at c d, rfc_pseudo prev proto n]"
    using assms(1,4,6) by (cases prev) (simp_all add: short_buffers_def filled_def checksum_bytes_def)
  ultimately have "computeChecksum [filled at c d, rfc_pseudo prev proto n] = 65535 - ones_sum (S + c)"
    using S by (simp add: checksum_eq add.commute add.left_commute)
  moreover have "ones_sum (S + c) = 65535"
    using assms(8)
  proof
    assume "c = 65535 - ones_sum S"
    then show ?thesis using ones_sum_complement [OF pos] by simp
  next
    assume "ones_sum S = 65535 \<and> c = 65535"
    then show ?thesis using ones_sum_again [OF pos] by simp
  qed
  ultimately show ?thesis by simp
qed

text \<open>
  C17. A segment whose checksum is filled in by \<open>TcpLayer\<close> over IPv4 or IPv6 carries the complement of
  the sum over it and the pseudo header of the RFC, and whoever sums segment and pseudo header
  gets zero; nothing else of the segment changes.
\<close>

theorem tcp_checksum_accepted:
  assumes "ip_prev prev" "m_Data l = Some d" "m_DataLen l = length d" "sizeof_tcphdr \<le> length d" "length d < 65536"
  shows "\<exists>c. tcp_calculateChecksum (Some prev) True l = Inr (c, l\<lparr>m_Data := Some (filled 16 c d)\<rparr>)
    \<and> c = 65535 - ones_sum (be_sum (cleared 16 d) + be_sum (rfc_pseudo prev PACKETPP_IPPROTO_TCP (length d)))
    \<and> computeChecksum [filled 16 c d, rfc_pseudo prev PACKETPP_IPPROTO_TCP (length d)] = 0"
proof -
  have p: "0 < PACKETPP_IPPROTO_TCP" by (simp add: PACKETPP_IPPROTO_TCP_def)
  define S where "S = be_sum (cleared 16 d) + be_sum (rfc_pseudo prev PACKETPP_IPPROTO_TCP (length d))"
  let ?c = "65535 - ones_sum S"
  have "sum_cleared 16 PACKETPP_IPPROTO_TCP (\<lambda>l. Inr (htons (of_nat (m_DataLen l)))) prev l
      = Inr (?c, l\<lparr>m_Data := Some (cleared 16 d)\<rparr>)"
    unfolding S_def using assms p by (intro sum_cleared_is) simp_all
  moreover have "bytes_at d 16 2 = Inr (take 2 (drop 16 d))" using assms(4) by (simp add: bytes_at_def)
  ultimately have "tcp_calculateChecksum (Some prev) True l = Inr (?c, l\<lparr>m_Data := Some (filled 16 ?c d)\<rparr>)"
    using store_is [of "l\<lparr>m_Data := Some (cleared 16 d)\<rparr>" 16 d ?c] assms(2,4)
    by (simp add: tcp_calculateChecksum_def lay_data_def)
  moreover have "computeChecksum [filled 16 ?c d, rfc_pseudo prev PACKETPP_IPPROTO_TCP (length d)] = 0"
    by (rule accepted [OF assms(1,5) p _ _ _ S_def]) (use assms in simp_all)
  ultimately show ?thesis unfolding S_def by blast
qed

lemma tcp_checksum_accepted_witness:
  "\<exists>c. tcp_calculateChecksum (Some (PrevIPv4 0x0100007f 0x0200007f)) True TcpLayer_new
      = Inr (c, TcpLayer_new\<lparr>m_Data := Some (filled 16 c ((replicate sizeof_tcphdr 0)[12 := 0x50]))\<rparr>)
    \<and> c = 65535 - ones_sum (be_sum (cleared 16 ((replicate sizeof_tcphdr 0)[12 := 0x50]))
        + be_sum (rfc_pseudo (PrevIPv4 0x0100007f 0x0200007f) PACKETPP_IPPROTO_TCP 20))
    \<and> computeChecksum [filled 16 c ((replicate sizeof_tcphdr 0)[12 := 0x50]),
        rfc_pseudo (PrevIPv4 0x0100007f 0x0200007f) PACKETPP_IPPROTO_TCP 20] = 0"
  using tcp_checksum_accepted [of "PrevIPv4 0x0100007f 0x0200007f" TcpLayer_new "(replicate sizeof_tcphdr 0)[12 := 0x50]"]
  by (simp add: TcpLayer_new_def)

lemma word_of_bytes16: "ucast (bytes16 w ! 0) OR push_bit 8 (ucast (bytes16 w ! 1)) = w"
  by (rule bit_word_eqI) (auto simp: bytes16_def bit_simps)

lemma udp_length_is:
  "m_Data l = Some (take 4 d @ bytes16 w @ rest) \<Longrightarrow> 4 \<le> length d \<Longrightarrow> udp_length l = Inr w"
  using word_of_bytes16 [of w] by (simp add: udp_length_def lay_data_def byte_at_def nth_append)

text \<open>
  The same for UDP, whose length field the function reads: \<open>computeCalculateFields\<close> stores the
  length and a checksum that is never zero, and the sum over the result and the pseudo header is
  accepted. The segment keeps its ports and its data.
\<close>

theorem udp_checksum_accepted:
  assumes "ip_prev prev" "m_Data l = Some d" "m_DataLen l = length d" "sizeof_udphdr \<le> length d" "length d < 65536"
  shows "\<exists>c d'. udp_computeCalculateFields (Some prev) l = Inr (l\<lparr>m_Data := Some d'\<rparr>) \<and> 0 < c
    \<and> d' = take 4 d @ checksum_bytes (length d) @ checksum_bytes c @ drop sizeof_udphdr d
    \<and> computeChecksum [d', rfc_pseudo prev PACKETPP_IPPROTO_UDP (length d)] = 0"
proof -
  let ?n = "length d" let ?p = PACKETPP_IPPROTO_UDP
  let ?d1 = "take 4 d @ checksum_bytes ?n @ drop 6 d"
  have p: "0 < ?p" by (simp add: PACKETPP_IPPROTO_UDP_def)
  have len: "length ?d1 = ?n" using assms(4) by (simp add: checksum_bytes_def)
  have 1: "write_at 4 (bytes16 (htons (of_nat ?n))) l = Inr (l\<lparr>m_Data := Some ?d1\<rparr>)"
    using write_field [OF assms(2), where bs = "checksum_bytes ?n" and at = 4] assms(4)
    by (simp add: bytes16_htons [OF assms(5)] checksum_bytes_def)
  have c1: "cleared 6 ?d1 = take 4 d @ bytes16 (htons (of_nat ?n)) @ 0 # 0 # drop 8 d"
    using assms(4) by (simp add: bytes16_htons [OF assms(5)] cleared_def checksum_bytes_def min_def)
  define S where "S = be_sum (cleared 6 ?d1) + be_sum (rfc_pseudo prev ?p ?n)"
  define c where "c = (if ones_sum S = 65535 then 65535 else 65535 - ones_sum S)"
  have 2: "sum_cleared 6 ?p udp_length prev (l\<lparr>m_Data := Some ?d1\<rparr>) = Inr (65535 - ones_sum S, l\<lparr>m_Data := Some (cleared 6 ?d1)\<rparr>)"
  proof -
    have "udp_length (l\<lparr>m_Data := Some (cleared 6 ?d1)\<rparr>) = Inr (htons (of_nat ?n))"
      by (rule udp_length_is [where d = d]) (use assms(4) in \<open>simp_all add: c1\<close>)
    then show ?thesis unfolding S_def using sum_cleared_is [OF assms(1,5) p, of "l\<lparr>m_Data := Some ?d1\<rparr>" ?d1 6 udp_length] len assms(3,4,5)
      by simp
  qed
  have 3: "(if 65535 \<le> ones_sum S then 65535 else 65535 - ones_sum S) = c" "c < 65536" "0 < c"
    using ones_sum_bounds(1) [of S] by (auto simp: c_def)
  have "store_checksum 6 True old c (l\<lparr>m_Data := Some (cleared 6 ?d1)\<rparr>) = Inr (c, l\<lparr>m_Data := Some (filled 6 c ?d1)\<rparr>)" for old
    using store_is [of "l\<lparr>m_Data := Some (cleared 6 ?d1)\<rparr>" 6 ?d1 c old] 3(2) len assms(4) by simp
  moreover have "bytes_at ?d1 6 2 = Inr (take 2 (drop 6 ?d1))" using len assms(4) by (simp add: bytes_at_def)
  ultimately have "udp_calculateChecksum (Some prev) True (l\<lparr>m_Data := Some ?d1\<rparr>) = Inr (c, l\<lparr>m_Data := Some (filled 6 c ?d1)\<rparr>)"
    by (simp add: udp_calculateChecksum_def lay_data_def 2 3(1))
  then have "udp_computeCalculateFields (Some prev) l = Inr (l\<lparr>m_Data := Some (filled 6 c ?d1)\<rparr>)"
    by (simp add: udp_computeCalculateFields_def assms(3) 1)
  moreover have "filled 6 c ?d1 = take 4 d @ checksum_bytes ?n @ checksum_bytes c @ drop 8 d"
    using assms(4) by (simp add: filled_def checksum_bytes_def min_def)
  moreover have "computeChecksum [filled 6 c ?d1, rfc_pseudo prev ?p ?n] = 0"
    by (rule accepted [OF assms(1,5) p _ _ _ S_def]) (use assms len in \<open>auto simp: c_def\<close>)
  ultimately show ?thesis using 3(3) by metis
qed

lemma udp_checksum_accepted_witness:
  "\<exists>c d'. udp_computeCalculateFields (Some (PrevIPv4 1 2)) \<lparr>m_Data = Some [0, 53, 4, 0, 0, 0, 0, 0, 7], m_DataLen = 9\<rparr>
      = Inr \<lparr>m_Data = Some d', m_DataLen = 9\<rparr> \<and> 0 < c
    \<and> d' = [0, 53, 4, 0] @ checksum_bytes 9 @ checksum_bytes c @ [7]
    \<and> computeChecksum [d', rfc_pseudo (PrevIPv4 1 2) PACKETPP_IPPROTO_UDP 9] = 0"
proof -
  let ?d = "[0, 53, 4, 0, 0, 0, 0, 0, 7] :: byte list"
  have d: "length ?d = 9" "take 4 ?d = [0, 53, 4, 0]" "drop 8 ?d = [7]" by simp_all
  have "ip_prev (PrevIPv4 1 2)" "8 \<le> (9 :: nat)" "(9 :: nat) < 65536" by simp_all
  with udp_checksum_accepted [of "PrevIPv4 1 2" "\<lparr>m_Data = Some ?d, m_DataLen = 9\<rparr>" ?d]
  show ?thesis by (simp only: d layer.simps)
qed

end
