(* ===== verification/RawPacket.thy ===== *)
theory RawPacket
  imports Layer
begin

text \<open>
  \<open>RawPacket.cpp\<close> of \<open>Packet++\<close>: a buffer with the bytes of a packet in front. The buffer may be
  longer than the packet, so data can be inserted in place; a write behind it is \<open>OutOfBounds\<close>.
  Lengths of type \<open>int\<close> are natural numbers, which holds for packets below two gigabytes; an index
  that a caller computes may be negative.
\<close>

section \<open>State\<close>

record raw_packet =
  m_RawData :: "byte list option"
  m_RawDataLen :: nat
  m_FrameLength :: nat
  m_TimeStamp :: "int \<times> int"
  m_DeleteRawDataAtDestructor :: bool
  m_RawPacketSet :: bool
  m_LinkLayerType :: int

definition LINKTYPE_ETHERNET :: int where "LINKTYPE_ETHERNET = 1"

definition raw_init :: "bool \<Rightarrow> (int \<times> int) \<Rightarrow> raw_packet" where
  "raw_init del t = \<lparr>m_RawData = None, m_RawDataLen = 0, m_FrameLength = 0, m_TimeStamp = t,
     m_DeleteRawDataAtDestructor = del, m_RawPacketSet = False, m_LinkLayerType = LINKTYPE_ETHERNET\<rparr>"

text \<open>A missing frame length is -1 in the code.\<close>

definition setRawData :: "byte list \<Rightarrow> nat \<Rightarrow> int \<times> int \<Rightarrow> int \<Rightarrow> nat option \<Rightarrow> raw_packet \<Rightarrow> raw_packet" where
  "setRawData d n t lt frameLength r =
     r\<lparr>m_FrameLength := (case frameLength of None \<Rightarrow> n | Some f \<Rightarrow> f), m_RawData := Some d, m_RawDataLen := n,
       m_TimeStamp := t, m_RawPacketSet := True, m_LinkLayerType := lt\<rparr>"

definition RawPacket_new :: "byte list \<Rightarrow> nat \<Rightarrow> int \<times> int \<Rightarrow> bool \<Rightarrow> int \<Rightarrow> raw_packet" where
  "RawPacket_new d n t del lt = setRawData d n t lt None (raw_init del t)"

definition raw_clear :: "raw_packet \<Rightarrow> raw_packet" where
  "raw_clear r = r\<lparr>m_RawData := None, m_RawDataLen := 0, m_FrameLength := 0, m_RawPacketSet := False\<rparr>"

text \<open>The buffer; a null pointer faults when it is written or read.\<close>

definition raw_buffer :: "raw_packet \<Rightarrow> byte list outcome" where
  "raw_buffer r = (case m_RawData r of None \<Rightarrow> Inl NullDeref | Some b \<Rightarrow> Inr b)"

text \<open>
  \<open>copyDataFrom\<close> with a new array: \<open>r\<close> is the object before, whose fields an unset packet leaves.
\<close>

definition raw_copyDataFrom :: "raw_packet \<Rightarrow> raw_packet \<Rightarrow> raw_packet outcome" where
  "raw_copyDataFrom other r =
     (if \<not> m_RawPacketSet other then Inr r
      else bind_out (raw_buffer other) (\<lambda>b. bind_out (bytes_at b 0 (m_RawDataLen other)) (\<lambda>d.
        Inr (r\<lparr>m_TimeStamp := m_TimeStamp other, m_DeleteRawDataAtDestructor := True, m_RawData := Some d,
          m_RawDataLen := m_RawDataLen other, m_LinkLayerType := m_LinkLayerType other,
          m_FrameLength := m_FrameLength other, m_RawPacketSet := True\<rparr>))))"

section \<open>Moving bytes\<close>

text \<open>\<open>memmove\<close> inside a buffer: nothing is touched when there is nothing to move.\<close>

definition memmove :: "nat \<Rightarrow> nat \<Rightarrow> nat \<Rightarrow> byte list \<Rightarrow> byte list outcome" where
  "memmove dst src n b =
     (if n = 0 then Inr b
      else if dst + n > length b \<or> src + n > length b then Inl OutOfBounds
      else Inr (take dst b @ take n (drop src b) @ drop (dst + n) b))"

definition memcpy_at :: "nat \<Rightarrow> byte list \<Rightarrow> byte list \<Rightarrow> byte list outcome" where
  "memcpy_at i bs b =
     (if bs = [] then Inr b
      else if i + length bs > length b then Inl OutOfBounds
      else Inr (take i b @ bs @ drop (i + length bs) b))"

section \<open>Operations\<close>

definition appendData :: "byte list \<Rightarrow> raw_packet \<Rightarrow> raw_packet outcome" where
  "appendData bs r =
     bind_out (raw_buffer r) (\<lambda>b. bind_out (memcpy_at (m_RawDataLen r) bs b) (\<lambda>b'.
       Inr (r\<lparr>m_RawData := Some b', m_RawDataLen := m_RawDataLen r + length bs,
              m_FrameLength := m_RawDataLen r + length bs\<rparr>)))"

text \<open>
  \<open>insertData\<close>: without data (\<open>None\<close>) the gap of \<open>n\<close> bytes keeps what was there. An index behind
  the data would move a length below zero, taken as a \<open>size_t\<close>.
\<close>

definition insertData :: "int \<Rightarrow> byte list option \<Rightarrow> nat \<Rightarrow> raw_packet \<Rightarrow> raw_packet outcome" where
  "insertData atIndex dataToInsert n r =
     bind_out (raw_buffer r) (\<lambda>b.
       if atIndex < 0 \<or> nat atIndex > m_RawDataLen r then Inl OutOfBounds
       else bind_out (memmove (nat atIndex + n) (nat atIndex) (m_RawDataLen r - nat atIndex) b) (\<lambda>b1.
            bind_out (case dataToInsert of None \<Rightarrow> Inr b1
                      | Some d \<Rightarrow> bind_out (bytes_at d 0 n) (\<lambda>d'. memcpy_at (nat atIndex) d' b1)) (\<lambda>b2.
              Inr (r\<lparr>m_RawData := Some b2, m_RawDataLen := m_RawDataLen r + n, m_FrameLength := m_RawDataLen r + n\<rparr>))))"

definition reallocateData :: "nat \<Rightarrow> raw_packet \<Rightarrow> (raw_packet \<times> bool) outcome" where
  "reallocateData n r =
     (if n = m_RawDataLen r then Inr (r, True)
      else if n < m_RawDataLen r then Inr (r, False)
      else bind_out (if m_RawDataLen r = 0 then Inr [] else bind_out (raw_buffer r) (\<lambda>b. bytes_at b 0 (m_RawDataLen r))) (\<lambda>d.
        Inr (r\<lparr>m_DeleteRawDataAtDestructor := True, m_RawData := Some (d @ replicate (n - length d) 0)\<rparr>, True)))"

definition removeData :: "int \<Rightarrow> nat \<Rightarrow> raw_packet \<Rightarrow> (raw_packet \<times> bool) outcome" where
  "removeData atIndex n r =
     (if atIndex + int n > int (m_RawDataLen r) then Inr (r, False)
      else if atIndex + int n = int (m_RawDataLen r) then
        Inr (r\<lparr>m_RawDataLen := m_RawDataLen r - n, m_FrameLength := m_RawDataLen r - n\<rparr>, True)
      else if atIndex < 0 then Inl OutOfBounds
      else bind_out (raw_buffer r) (\<lambda>b.
           bind_out (memmove (nat atIndex) (nat atIndex + n) (m_RawDataLen r - (nat atIndex + n)) b) (\<lambda>b'.
             Inr (r\<lparr>m_RawData := Some b', m_RawDataLen := m_RawDataLen r - n, m_FrameLength := m_RawDataLen r - n\<rparr>, True))))"

text \<open>\<open>isLinkTypeValid\<close>, by the numbers of the enumerators it lists.\<close>

definition valid_link_types :: "int list" where
  "valid_link_types =
     [1, 113, 101, 12, 14, 0, 3, 6, 7, 8, 9, 10, 50, 51, 100, 104, 105, 107, 108, 114, 117, 119, 122, 123, 127, 129,
      138, 139, 140, 141, 142, 143, 144, 163, 165, 166, 169, 170, 171, 177, 187, 189, 192, 195, 196, 197, 201, 202,
      203, 204, 205, 206, 209, 215, 220, 224, 225, 226, 227, 228, 229, 230, 231, 235, 236, 237, 239, 240, 241, 242,
      243, 244, 245, 247, 248, 249, 250, 251, 253, 254, 255, 256, 257, 258, 259, 260, 261, 262, 263, 264]"

definition isLinkTypeValid :: "int \<Rightarrow> bool" where
  "isLinkTypeValid v \<longleftrightarrow> 0 \<le> v \<and> v \<le> 264 \<and> v \<in> set valid_link_types"

section \<open>The packet in the buffer\<close>

text \<open>\<open>raw_is r d cap\<close>: the packet is \<open>d\<close> and its buffer has room for \<open>cap\<close> bytes.\<close>

definition raw_is :: "raw_packet \<Rightarrow> byte list \<Rightarrow> nat \<Rightarrow> bool" where
  "raw_is r d cap \<longleftrightarrow> (\<exists>b. m_RawData r = Some b \<and> cap \<le> length b \<and> length d \<le> length b
     \<and> m_RawDataLen r = length d \<and> take (length d) b = d)"

lemma raw_isE:
  assumes "raw_is r d cap"
  obtains rest where "m_RawData r = Some (d @ rest)" "cap \<le> length d + length rest" "m_RawDataLen r = length d"
proof -
  from assms obtain b where b: "m_RawData r = Some b" "cap \<le> length b" "length d \<le> length b" "m_RawDataLen r = length d"
    "take (length d) b = d" by (auto simp: raw_is_def)
  then have "b = d @ drop (length d) b" by (metis append_take_drop_id)
  with b that [of "drop (length d) b"] show ?thesis by auto
qed

lemma raw_isI:
  "m_RawData r = Some (d @ rest) \<Longrightarrow> cap \<le> length d + length rest \<Longrightarrow> m_RawDataLen r = length d \<Longrightarrow> raw_is r d cap"
  by (simp add: raw_is_def)

lemma raw_reallocated:
  assumes "raw_is r d cap" "length d < n"
  shows "\<exists>r'. reallocateData n r = Inr (r', True) \<and> raw_is r' d n"
proof -
  from raw_isE [OF assms(1)] obtain rest where
    r: "m_RawData r = Some (d @ rest)" "m_RawDataLen r = length d" by blast
  then have "(if m_RawDataLen r = 0 then Inr [] else bind_out (raw_buffer r) (\<lambda>b. bytes_at b 0 (m_RawDataLen r))) = Inr d"
    by (simp add: raw_buffer_def bytes_at_def)
  with assms(2) r show ?thesis
    by (simp add: reallocateData_def) (rule raw_isI [where rest = "replicate (n - length d) 0"], simp_all)
qed

lemma memmove_gap:
  assumes "n \<le> length rest"
  obtains gap where "memmove (length d + n) (length d) (length e) (d @ e @ rest) = Inr (d @ gap @ e @ drop n rest)" "length gap = n"
proof (cases "e = []")
  case True
  with assms that [of "take n rest"] show ?thesis by (simp add: memmove_def)
next
  case False
  have "length d + n + length e \<le> length (d @ e @ rest)" using assms by simp
  with False that [of "take n (e @ rest)"] assms show ?thesis by (simp add: memmove_def)
qed

text \<open>Bytes inserted without content leave a gap of unspecified bytes.\<close>

lemma raw_gap:
  assumes "raw_is r (d @ e) cap" "length (d @ e) + n \<le> cap"
  obtains r' gap where "insertData (int (length d)) None n r = Inr r'" "length gap = n" "raw_is r' (d @ gap @ e) cap"
proof -
  from raw_isE [OF assms(1)] obtain rest where
    r: "m_RawData r = Some ((d @ e) @ rest)" "cap \<le> length (d @ e) + length rest" "m_RawDataLen r = length (d @ e)" by blast
  have room: "n \<le> length rest" using r(2) assms(2) by simp
  from memmove_gap [OF room, of d e] obtain gap where
    g: "memmove (length d + n) (length d) (length e) (d @ e @ rest) = Inr (d @ gap @ e @ drop n rest)" "length gap = n" .
  let ?r = "r\<lparr>m_RawData := Some ((d @ gap @ e) @ drop n rest), m_RawDataLen := length (d @ e) + n, m_FrameLength := length (d @ e) + n\<rparr>"
  have "insertData (int (length d)) None n r = Inr ?r" using r(1,3) g by (simp add: insertData_def raw_buffer_def)
  moreover have "raw_is ?r (d @ gap @ e) cap" using r(2) room g(2) by (intro raw_isI [where rest = "drop n rest"]) simp_all
  ultimately show thesis using that g(2) by blast
qed

lemma raw_inserted:
  assumes "raw_is r (d @ e) cap" "length (d @ e) + length x \<le> cap"
  shows "\<exists>r'. insertData (int (length d)) (Some (x @ y)) (length x) r = Inr r' \<and> raw_is r' (d @ x @ e) cap"
proof -
  from raw_isE [OF assms(1)] obtain rest where
    r: "m_RawData r = Some ((d @ e) @ rest)" "cap \<le> length (d @ e) + length rest" "m_RawDataLen r = length (d @ e)" by blast
  have room: "length x \<le> length rest" using r(2) assms(2) by simp
  from memmove_gap [OF room, of d e] obtain gap where
    1: "memmove (length d + length x) (length d) (length e) (d @ e @ rest) = Inr (d @ gap @ e @ drop (length x) rest)"
      "length gap = length x" .
  have 2: "memcpy_at (length d) x (d @ gap @ e @ drop (length x) rest) = Inr (d @ x @ e @ drop (length x) rest)"
    using 1(2) by (auto simp: memcpy_at_def)
  let ?r = "r\<lparr>m_RawData := Some ((d @ x @ e) @ drop (length x) rest), m_RawDataLen := length (d @ e) + length x,
    m_FrameLength := length (d @ e) + length x\<rparr>"
  have "insertData (int (length d)) (Some (x @ y)) (length x) r = Inr ?r"
    using r(1,3) 1(1) 2 by (simp add: insertData_def raw_buffer_def bytes_at_def)
  moreover have "raw_is ?r (d @ x @ e) cap" using r(2) room by (intro raw_isI [where rest = "drop (length x) rest"]) simp_all
  ultimately show ?thesis by blast
qed

lemma raw_removed:
  assumes "raw_is r (d @ x @ e) cap"
  shows "\<exists>r'. removeData (int (length d)) (length x) r = Inr (r', True) \<and> raw_is r' (d @ e) cap"
proof -
  from raw_isE [OF assms] obtain rest where
    r: "m_RawData r = Some ((d @ x @ e) @ rest)" "cap \<le> length (d @ x @ e) + length rest" "m_RawDataLen r = length (d @ x @ e)" by blast
  show ?thesis
  proof (cases "e = []")
    case True
    let ?r = "r\<lparr>m_RawDataLen := length d, m_FrameLength := length d\<rparr>"
    have "removeData (int (length d)) (length x) r = Inr (?r, True)" using r(3) True by (simp add: removeData_def)
    moreover have "raw_is ?r (d @ e) cap" using r True by (intro raw_isI [where rest = "x @ rest"]) simp_all
    ultimately show ?thesis by blast
  next
    case False
    have "memmove (length d) (length d + length x) (length e) (d @ x @ e @ rest) = Inr ((d @ e) @ drop (length e) (x @ e @ rest))"
      using False by (simp add: memmove_def)
    then have "removeData (int (length d)) (length x) r
        = Inr (r\<lparr>m_RawData := Some ((d @ e) @ drop (length e) (x @ e @ rest)), m_RawDataLen := length (d @ e),
            m_FrameLength := length (d @ e)\<rparr>, True)"
      using r(1,3) False by (simp add: removeData_def raw_buffer_def nat_int_add)
    moreover have "raw_is (r\<lparr>m_RawData := Some ((d @ e) @ drop (length e) (x @ e @ rest)), m_RawDataLen := length (d @ e),
            m_FrameLength := length (d @ e)\<rparr>) (d @ e) cap"
      using r(2) by (intro raw_isI [where rest = "drop (length e) (x @ e @ rest)"]) simp_all
    ultimately show ?thesis by blast
  qed
qed

end
