(* ===== verification/Packet.thy ===== *)
theory Packet
  imports RawPacket
begin

text \<open>
  \<open>Packet.cpp\<close> of \<open>Packet++\<close>: the layers of a packet as a doubly linked list of objects whose data
  pointers lie in the buffer of the raw packet. The objects are in a store, a pointer to a layer is
  its key there. What a layer class contributes is its protocol, whether it belongs to the data
  link layer, and how \<open>getHeaderLen\<close> finds the length of its header. Parsing a raw packet into layers
  (\<open>setRawPacket\<close>, \<open>createFirstLayer\<close>) calls every protocol class and is not modelled.
\<close>

unbundle bit_operations_syntax

section \<open>Layers in a packet\<close>

text \<open>
  The header has a constant length (Ethernet, VLAN, MPLS, UDP, ARP and others), a length in 32-bit
  words in its first byte (IPv4) or its thirteenth (TCP), or it is all of the layer (payload,
  trailer, DNS, DHCP, NTP).
\<close>

datatype header_kind = FixedLen nat | IPv4Len | TcpLen | WholeLen

datatype layer_ptr = OwnArray "byte list" | IntoRaw nat

record pkt_layer =
  pl_kind :: header_kind
  pl_protocol :: "64 word"
  pl_datalink :: bool
  pl_data :: layer_ptr
  pl_dataLen :: nat
  pl_packet :: "nat option"
  pl_next :: "nat option"
  pl_prev :: "nat option"
  pl_allocated :: bool

record packet =
  self :: nat
  rawPacket :: raw_packet
  pkt_layers :: "nat \<Rightarrow> pkt_layer option"
  firstLayer :: "nat option"
  lastLayer :: "nat option"
  protocolTypes :: "64 word"
  maxPacketLen :: nat
  canReallocate :: bool

definition PacketTrailer :: "64 word" where "PacketTrailer = 0x20000000"

text \<open>\<open>Packet(maxPacketLen)\<close> and \<open>Packet(buffer, bufferSize)\<close>, which clears the buffer.\<close>

definition packet_new :: "nat \<Rightarrow> int \<times> int \<Rightarrow> (nat \<Rightarrow> pkt_layer option) \<Rightarrow> nat \<Rightarrow> packet" where
  "packet_new me t objs maxLen =
     \<lparr>self = me, rawPacket = RawPacket_new (replicate maxLen 0) 0 t True LINKTYPE_ETHERNET, pkt_layers = objs,
      firstLayer = None, lastLayer = None, protocolTypes = 0, maxPacketLen = maxLen, canReallocate = True\<rparr>"

definition packet_in_buffer :: "nat \<Rightarrow> int \<times> int \<Rightarrow> (nat \<Rightarrow> pkt_layer option) \<Rightarrow> byte list \<Rightarrow> packet" where
  "packet_in_buffer me t objs buf =
     \<lparr>self = me, rawPacket = RawPacket_new (replicate (length buf) 0) 0 t False LINKTYPE_ETHERNET, pkt_layers = objs,
      firstLayer = None, lastLayer = None, protocolTypes = 0, maxPacketLen = length buf, canReallocate = False\<rparr>"

section \<open>Access\<close>

definition layer_obj :: "nat \<Rightarrow> packet \<Rightarrow> pkt_layer outcome" where
  "layer_obj i p = (case pkt_layers p i of None \<Rightarrow> Inl Dangling | Some l \<Rightarrow> Inr l)"

definition put_layer :: "nat \<Rightarrow> pkt_layer \<Rightarrow> packet \<Rightarrow> packet" where
  "put_layer i l p = p\<lparr>pkt_layers := (pkt_layers p)(i \<mapsto> l)\<rparr>"

definition modify_layer :: "nat \<Rightarrow> (pkt_layer \<Rightarrow> pkt_layer) \<Rightarrow> packet \<Rightarrow> packet outcome" where
  "modify_layer i f p = bind_out (layer_obj i p) (\<lambda>l. Inr (put_layer i (f l) p))"

text \<open>What can be read from the data pointer of a layer on.\<close>

definition layer_mem :: "packet \<Rightarrow> pkt_layer \<Rightarrow> byte list outcome" where
  "layer_mem p l =
     (case pl_data l of
        OwnArray d \<Rightarrow> Inr d
      | IntoRaw off \<Rightarrow> bind_out (raw_buffer (rawPacket p)) (\<lambda>b. Inr (drop off b)))"

definition getHeaderLen :: "packet \<Rightarrow> pkt_layer \<Rightarrow> nat outcome" where
  "getHeaderLen p l =
     (case pl_kind l of
        FixedLen n \<Rightarrow> Inr n
      | WholeLen \<Rightarrow> Inr (pl_dataLen l)
      | IPv4Len \<Rightarrow> bind_out (layer_mem p l) (\<lambda>mem. bind_out (byte_at mem 0) (\<lambda>b. Inr (4 * (unat b mod 16))))
      | TcpLen \<Rightarrow> bind_out (layer_mem p l) (\<lambda>mem. bind_out (byte_at mem 12) (\<lambda>b. Inr (4 * (unat b div 16)))))"

text \<open>The distance of a layer's data from the begin of the raw data; other arrays have none.\<close>

definition data_index :: "pkt_layer \<Rightarrow> nat outcome" where
  "data_index l = (case pl_data l of OwnArray d \<Rightarrow> Inl OutOfBounds | IntoRaw off \<Rightarrow> Inr off)"

section \<open>Loops over the layers\<close>

text \<open>A step that may not end, \<open>None\<close>, before another.\<close>

definition then_do :: "'a outcome option \<Rightarrow> ('a \<Rightarrow> 'b outcome option) \<Rightarrow> 'b outcome option" where
  "then_do m f = (case m of None \<Rightarrow> None | Some (Inl e) \<Rightarrow> Some (Inl e) | Some (Inr a) \<Rightarrow> f a)"

lemma then_do_simps [simp]:
  "then_do (Some (Inr a)) f = f a" "then_do (Some (Inl e)) f = Some (Inl e)" "then_do None f = None"
  by (simp_all add: then_do_def)

text \<open>\<open>while (curLayer != NULL)\<close>: the step gives the packet, the next layer and the loop's variables.\<close>

type_synonym 'x layer_step = "packet \<Rightarrow> nat \<Rightarrow> 'x \<Rightarrow> (packet \<times> nat option \<times> 'x) outcome"

partial_function (option) walk :: "'x layer_step \<Rightarrow> packet \<Rightarrow> nat option \<Rightarrow> 'x \<Rightarrow> (packet \<times> 'x) outcome option" where
  "walk step p cur x =
     (case cur of
        None \<Rightarrow> Some (Inr (p, x))
      | Some i \<Rightarrow>
          (case step p i x of
             Inl e \<Rightarrow> Some (Inl e)
           | Inr (p', nx, x') \<Rightarrow> walk step p' nx x'))"

lemma walk_simps:
  "walk step p None x = Some (Inr (p, x))"
  "step p i x = Inr (p', nx, x') \<Longrightarrow> walk step p (Some i) x = walk step p' nx x'"
  by (simp_all add: walk.simps [of step p None] walk.simps [of step p "Some i"])

text \<open>The loop of \<open>reallocateRawData\<close>.\<close>

definition repoint_step :: "nat layer_step" where
  "repoint_step p i off =
     bind_out (layer_obj i p) (\<lambda>l0.
       let l = l0\<lparr>pl_data := IntoRaw off\<rparr>; p1 = put_layer i l p
       in bind_out (getHeaderLen p1 l) (\<lambda>hl. Inr (p1, pl_next l, off + hl)))"

definition reallocateRawData :: "nat \<Rightarrow> packet \<Rightarrow> packet outcome option" where
  "reallocateRawData newSize p0 =
     (let p = p0\<lparr>maxPacketLen := newSize\<rparr>
      in then_do (Some (reallocateData newSize (rawPacket p))) (\<lambda>(r, ok).
           if \<not> ok then Some (Inr p)
           else then_do (walk repoint_step (p\<lparr>rawPacket := r\<rparr>) (firstLayer p) 0) (\<lambda>(p', _). Some (Inr p'))))"

text \<open>
  The room for more bytes, as \<open>insertLayer\<close> and \<open>extendLayer\<close> make it; \<open>None\<close> inside when the buffer
  is fixed and too small.
\<close>

definition make_room :: "nat \<Rightarrow> packet \<Rightarrow> packet option outcome option" where
  "make_room n p =
     (let len = m_RawDataLen (rawPacket p)
      in if len + n > maxPacketLen p then
           (if \<not> canReallocate p then Some (Inr None)
            else then_do (reallocateRawData (if len + n > maxPacketLen p * 2 then len + n + maxPacketLen p else maxPacketLen p * 2) p)
              (\<lambda>p'. Some (Inr (Some p'))))
         else Some (Inr (Some p)))"

text \<open>
  The loop that gives every layer its data pointer and length again; \<open>same\<close> notes a layer of the
  protocol \<open>proto\<close>.
\<close>

definition relayout_step :: "nat \<Rightarrow> 64 word \<Rightarrow> (nat \<times> nat \<times> bool) layer_step" where
  "relayout_step trailerLen proto p i = (\<lambda>(off, len, same).
     bind_out (layer_obj i p) (\<lambda>l0.
       let l = l0\<lparr>pl_data := IntoRaw off, pl_dataLen := (if pl_datalink l0 then len else minus64 len trailerLen)\<rparr>;
           p1 = put_layer i l p
       in bind_out (getHeaderLen p1 l) (\<lambda>hl.
            Inr (p1, pl_next l, (off + hl, minus64 len hl, same \<or> pl_protocol l = proto)))))"

definition trailer_len :: "packet \<Rightarrow> nat outcome" where
  "trailer_len p =
     (case lastLayer p of
        None \<Rightarrow> Inr 0
      | Some i \<Rightarrow> bind_out (layer_obj i p) (\<lambda>l. Inr (if pl_protocol l = PacketTrailer then pl_dataLen l else 0)))"

definition relayout :: "64 word \<Rightarrow> packet \<Rightarrow> (packet \<times> bool) outcome option" where
  "relayout proto p =
     then_do (Some (trailer_len p)) (\<lambda>t.
       then_do (walk (relayout_step t proto) p (firstLayer p) (0, m_RawDataLen (rawPacket p), False))
         (\<lambda>(p', _, _, same). Some (Inr (p', same))))"

section \<open>Inserting\<close>

definition link_layer :: "nat option \<Rightarrow> nat \<Rightarrow> packet \<Rightarrow> packet outcome" where
  "link_layer prev n p0 =
     bind_out
       (case prev of
          Some q \<Rightarrow>
            bind_out (layer_obj q p0) (\<lambda>lq.
            bind_out (modify_layer n (\<lambda>l. l\<lparr>pl_next := pl_next lq, pl_prev := Some q\<rparr>) p0) (\<lambda>p.
              modify_layer q (\<lambda>l. l\<lparr>pl_next := Some n\<rparr>) p))
        | None \<Rightarrow>
            bind_out (modify_layer n (\<lambda>l. l\<lparr>pl_next := firstLayer p0\<rparr>) p0) (\<lambda>p.
            bind_out (case firstLayer p of None \<Rightarrow> Inr p | Some f \<Rightarrow> modify_layer f (\<lambda>l. l\<lparr>pl_prev := Some n\<rparr>) p)
              (\<lambda>p. Inr (p\<lparr>firstLayer := Some n\<rparr>))))
       (\<lambda>p. bind_out (layer_obj n p) (\<lambda>l.
          case pl_next l of
            None \<Rightarrow> Inr (p\<lparr>lastLayer := Some n\<rparr>)
          | Some j \<Rightarrow> modify_layer j (\<lambda>l. l\<lparr>pl_prev := Some n\<rparr>) p))"

definition insert_index :: "nat option \<Rightarrow> packet \<Rightarrow> nat outcome" where
  "insert_index prev p =
     (case prev of
        None \<Rightarrow> Inr 0
      | Some q \<Rightarrow> bind_out (layer_obj q p) (\<lambda>l. bind_out (data_index l) (\<lambda>off.
          bind_out (getHeaderLen p l) (\<lambda>hl. Inr (off + hl)))))"

definition after_trailer :: "nat option \<Rightarrow> packet \<Rightarrow> bool outcome" where
  "after_trailer prev p =
     (case prev of None \<Rightarrow> Inr False | Some q \<Rightarrow> bind_out (layer_obj q p) (\<lambda>l. Inr (pl_protocol l = PacketTrailer)))"

definition insertLayer :: "nat option \<Rightarrow> nat option \<Rightarrow> bool \<Rightarrow> packet \<Rightarrow> (packet \<times> bool) outcome option" where
  "insertLayer prev new ownInPacket p =
     (case new of
        None \<Rightarrow> Some (Inr (p, False))
      | Some n \<Rightarrow>
          then_do (Some (layer_obj n p)) (\<lambda>l.
          if pl_packet l \<noteq> None then Some (Inr (p, False))
          else then_do (Some (after_trailer prev p)) (\<lambda>bad.
          if bad then Some (Inr (p, False))
          else then_do (Some (getHeaderLen p l)) (\<lambda>hl.
          then_do (make_room hl p) (\<lambda>room.
          case room of
            None \<Rightarrow> Some (Inr (p, False))
          | Some p1 \<Rightarrow>
              then_do (Some (insert_index prev p1)) (\<lambda>idx.
              then_do (Some (layer_mem p1 l)) (\<lambda>d.
              then_do (Some (insertData (int idx) (Some d) hl (rawPacket p1))) (\<lambda>r.
              then_do (Some (link_layer prev n (p1\<lparr>rawPacket := r\<rparr>))) (\<lambda>p2.
              then_do (Some (modify_layer n (\<lambda>l. l\<lparr>pl_packet := Some (self p2), pl_allocated := pl_allocated l \<or> ownInPacket\<rparr>) p2)) (\<lambda>p3.
              then_do (relayout 0 p3) (\<lambda>(p4, _).
                Some (Inr (p4\<lparr>protocolTypes := protocolTypes p4 OR pl_protocol l\<rparr>, True)))))))))))))"

definition addLayer :: "nat option \<Rightarrow> bool \<Rightarrow> packet \<Rightarrow> (packet \<times> bool) outcome option" where
  "addLayer new ownInPacket p = insertLayer (lastLayer p) new ownInPacket p"

section \<open>Removing\<close>

text \<open>From a layer to the first of its list.\<close>

partial_function (option) first_of :: "packet \<Rightarrow> nat \<Rightarrow> nat outcome option" where
  "first_of p i =
     (case layer_obj i p of
        Inl e \<Rightarrow> Some (Inl e)
      | Inr l \<Rightarrow> (case pl_prev l of None \<Rightarrow> Some (Inr i) | Some j \<Rightarrow> first_of p j))"

definition unlink_layer :: "nat \<Rightarrow> packet \<Rightarrow> packet outcome" where
  "unlink_layer i p0 =
     bind_out (layer_obj i p0) (\<lambda>l.
     bind_out (case pl_prev l of None \<Rightarrow> Inr p0 | Some j \<Rightarrow> modify_layer j (\<lambda>lj. lj\<lparr>pl_next := pl_next l\<rparr>) p0) (\<lambda>p1.
     bind_out (case pl_next l of None \<Rightarrow> Inr p1 | Some j \<Rightarrow> modify_layer j (\<lambda>lj. lj\<lparr>pl_prev := pl_prev l\<rparr>) p1) (\<lambda>p2.
       let p3 = (if firstLayer p2 = Some i then p2\<lparr>firstLayer := pl_next l\<rparr> else p2);
           p4 = (if lastLayer p3 = Some i then p3\<lparr>lastLayer := pl_prev l\<rparr> else p3)
       in modify_layer i (\<lambda>l. l\<lparr>pl_next := None, pl_prev := None\<rparr>) p4)))"

definition removeLayer :: "nat option \<Rightarrow> bool \<Rightarrow> packet \<Rightarrow> (packet \<times> bool) outcome option" where
  "removeLayer layer tryToDelete p =
     (case layer of
        None \<Rightarrow> Some (Inr (p, False))
      | Some i \<Rightarrow>
          then_do (Some (layer_obj i p)) (\<lambda>l.
          if pl_packet l = None then Some (Inr (p, False))
          else then_do (first_of p i) (\<lambda>f.
          if Some f \<noteq> firstLayer p then Some (Inr (p, False))
          else then_do (Some (getHeaderLen p l)) (\<lambda>hl.
          then_do (Some (bind_out (layer_mem p l) (\<lambda>mem. bytes_at mem 0 hl))) (\<lambda>old.
          then_do (Some (data_index l)) (\<lambda>idx.
          then_do (Some (removeData (int idx) hl (rawPacket p))) (\<lambda>(r, removed).
          if \<not> removed then Some (Inr (p, False))
          else
            then_do (Some (unlink_layer i (p\<lparr>rawPacket := r\<rparr>))) (\<lambda>p1.
            then_do (relayout (pl_protocol l) p1) (\<lambda>(p2, same).
            let p3 = (if same then p2 else p2\<lparr>protocolTypes := protocolTypes p2 AND NOT (pl_protocol l)\<rparr>)
            in if tryToDelete \<and> pl_allocated l then Some (Inr (p3\<lparr>pkt_layers := (pkt_layers p3)(i := None)\<rparr>, True))
               else then_do (Some (modify_layer i (\<lambda>l. l\<lparr>pl_packet := None, pl_data := OwnArray old, pl_dataLen := hl\<rparr>) p3))
                      (\<lambda>p4. Some (Inr (p4, True))))))))))))"

text \<open>\<open>getLayerOfType\<close>, and the operations that look for the layer to remove.\<close>

definition type_step :: "64 word \<Rightarrow> int \<Rightarrow> (int \<times> nat option) layer_step" where
  "type_step t index p i = (\<lambda>(cur, found).
     bind_out (layer_obj i p) (\<lambda>l.
       if pl_protocol l = t then
         (if cur < index then Inr (p, pl_next l, (cur + 1, None)) else Inr (p, None, (cur, Some i)))
       else Inr (p, pl_next l, (cur, None))))"

definition getLayerOfType :: "64 word \<Rightarrow> int \<Rightarrow> packet \<Rightarrow> nat option outcome option" where
  "getLayerOfType t index p =
     then_do (walk (type_step t index) p (firstLayer p) (0, None)) (\<lambda>(_, _, found). Some (Inr found))"

definition removeLayerOfType :: "64 word \<Rightarrow> int \<Rightarrow> packet \<Rightarrow> (packet \<times> bool) outcome option" where
  "removeLayerOfType t index p = then_do (getLayerOfType t index p) (\<lambda>i. removeLayer i True p)"

definition removeFirstLayer :: "packet \<Rightarrow> (packet \<times> bool) outcome option" where
  "removeFirstLayer p = removeLayer (firstLayer p) True p"

definition removeLastLayer :: "packet \<Rightarrow> (packet \<times> bool) outcome option" where
  "removeLastLayer p = removeLayer (lastLayer p) True p"

definition detachLayer :: "64 word \<Rightarrow> int \<Rightarrow> packet \<Rightarrow> (packet \<times> nat option) outcome option" where
  "detachLayer t index p =
     then_do (getLayerOfType t index p) (\<lambda>found.
       then_do (removeLayer found False p) (\<lambda>(p', ok). Some (Inr (p', if ok then found else None))))"

partial_function (option) remove_from :: "nat option \<Rightarrow> packet \<Rightarrow> (packet \<times> bool) outcome option" where
  "remove_from cur p =
     (case cur of
        None \<Rightarrow> Some (Inr (p, True))
      | Some i \<Rightarrow>
          (case layer_obj i p of
             Inl e \<Rightarrow> Some (Inl e)
           | Inr l \<Rightarrow>
               (case removeLayer (Some i) True p of
                  None \<Rightarrow> None
                | Some (Inl e) \<Rightarrow> Some (Inl e)
                | Some (Inr (p', ok)) \<Rightarrow> if \<not> ok then Some (Inr (p', False)) else remove_from (pl_next l) p')))"

definition removeAllLayersAfter :: "nat \<Rightarrow> packet \<Rightarrow> (packet \<times> bool) outcome option" where
  "removeAllLayersAfter i p = then_do (Some (layer_obj i p)) (\<lambda>l. remove_from (pl_next l) p)"

section \<open>Making a layer longer or shorter\<close>

text \<open>The loops of \<open>extendLayer\<close> and \<open>shortenLayer\<close>; \<open>change\<close> adds or takes away the bytes.\<close>

definition resize_step :: "(nat \<Rightarrow> nat) \<Rightarrow> nat \<Rightarrow> (nat \<times> bool) layer_step" where
  "resize_step change layer p i = (\<lambda>(off, passed0).
     bind_out (layer_obj i p) (\<lambda>l0.
       let passed = (passed0 \<or> pl_prev l0 = Some layer);
           l = l0\<lparr>pl_data := IntoRaw off, pl_dataLen := (if passed then pl_dataLen l0 else change (pl_dataLen l0))\<rparr>;
           p1 = put_layer i l p
       in bind_out (getHeaderLen p1 l) (\<lambda>hl. Inr (p1, pl_next l, (off + (if i = layer then change hl else hl), passed)))))"

definition packet_extendLayer :: "nat option \<Rightarrow> int \<Rightarrow> nat \<Rightarrow> packet \<Rightarrow> (packet \<times> bool) outcome option" where
  "packet_extendLayer layer offset n p =
     (case layer of
        None \<Rightarrow> Some (Inr (p, False))
      | Some i \<Rightarrow>
          then_do (Some (layer_obj i p)) (\<lambda>l.
          if pl_packet l \<noteq> Some (self p) then Some (Inr (p, False))
          else then_do (make_room n p) (\<lambda>room.
          case room of
            None \<Rightarrow> Some (Inr (p, False))
          | Some p1 \<Rightarrow>
              then_do (Some (bind_out (layer_obj i p1) data_index)) (\<lambda>idx.
              then_do (Some (insertData (int idx + offset) None n (rawPacket p1))) (\<lambda>r.
              then_do (walk (resize_step (\<lambda>x. x + n) i) (p1\<lparr>rawPacket := r\<rparr>) (firstLayer p1) (0, False)) (\<lambda>(p2, _).
                Some (Inr (p2, True))))))))"

definition packet_shortenLayer :: "nat option \<Rightarrow> int \<Rightarrow> nat \<Rightarrow> packet \<Rightarrow> (packet \<times> bool) outcome option" where
  "packet_shortenLayer layer offset n p =
     (case layer of
        None \<Rightarrow> Some (Inr (p, False))
      | Some i \<Rightarrow>
          then_do (Some (layer_obj i p)) (\<lambda>l.
          if pl_packet l \<noteq> Some (self p) then Some (Inr (p, False))
          else then_do (Some (data_index l)) (\<lambda>idx.
          then_do (Some (removeData (int idx + offset) n (rawPacket p))) (\<lambda>(r, removed).
          if \<not> removed then Some (Inr (p, False))
          else then_do (walk (resize_step (\<lambda>x. minus64 x n) i) (p\<lparr>rawPacket := r\<rparr>) (firstLayer p) (0, False)) (\<lambda>(p1, _).
            Some (Inr (p1, True)))))))"

section \<open>A packet as its row of headers\<close>

text \<open>
  The abstract packet: the layers in order, each with the bytes of its header; its raw data are
  these bytes one after another. A layer that is all header can only be the last.
\<close>

type_synonym headers = "(nat \<times> byte list) list"

abbreviation bytes_in :: "headers \<Rightarrow> byte list" where
  "bytes_in hs \<equiv> concat (map snd hs)"

fun first_or :: "headers \<Rightarrow> nat option \<Rightarrow> nat option" where
  "first_or [] nx = nx"
| "first_or ((i, h) # hs) nx = Some i"

definition last_or :: "nat option \<Rightarrow> headers \<Rightarrow> nat option" where
  "last_or pv hs = (if hs = [] then pv else Some (fst (last hs)))"

lemma last_or_simps [simp]:
  "last_or pv [] = pv" "last_or pv ((i, h) # hs) = last_or (Some i) hs" "last_or pv (hs @ [(i, h)]) = Some i"
  by (simp_all add: last_or_def)

lemma first_or_append [simp]: "first_or (hs @ ks) nx = first_or hs (first_or ks nx)"
  by (cases hs) auto

lemma last_or_append [simp]: "last_or pv (hs @ ks) = last_or (last_or pv hs) ks"
  by (simp add: last_or_def)

fun sized :: "header_kind \<Rightarrow> byte list \<Rightarrow> bool \<Rightarrow> bool" where
  "sized (FixedLen n) h fin \<longleftrightarrow> length h = n"
| "sized IPv4Len h fin \<longleftrightarrow> h \<noteq> [] \<and> 4 * (unat (h ! 0) mod 16) = length h"
| "sized TcpLen h fin \<longleftrightarrow> 12 < length h \<and> 4 * (unat (h ! 12) div 16) = length h"
| "sized WholeLen h fin \<longleftrightarrow> fin"

definition node_ok :: "nat \<Rightarrow> nat option \<Rightarrow> nat option \<Rightarrow> byte list \<Rightarrow> pkt_layer \<Rightarrow> bool" where
  "node_ok me pv nx h l \<longleftrightarrow> pl_prev l = pv \<and> pl_next l = nx \<and> pl_packet l = Some me
     \<and> pl_protocol l \<noteq> PacketTrailer \<and> sized (pl_kind l) h (nx = None)"

text \<open>The list from one layer on, between what is before and behind it.\<close>

fun linked :: "nat \<Rightarrow> (nat \<Rightarrow> pkt_layer option) \<Rightarrow> nat option \<Rightarrow> headers \<Rightarrow> nat option \<Rightarrow> bool" where
  "linked me m pv [] nx = True"
| "linked me m pv ((i, h) # hs) nx \<longleftrightarrow>
     (\<exists>l. m i = Some l \<and> node_ok me pv (first_or hs nx) h l) \<and> linked me m (Some i) hs nx"

text \<open>Where the data of the layers are, from an offset on, the length being up to the end of all.\<close>

fun spread :: "(nat \<Rightarrow> pkt_layer option) \<Rightarrow> nat \<Rightarrow> headers \<Rightarrow> bool" where
  "spread m off [] = True"
| "spread m off ((i, h) # hs) \<longleftrightarrow>
     (\<exists>l. m i = Some l \<and> pl_data l = IntoRaw off \<and> pl_dataLen l = length h + length (bytes_in hs))
     \<and> spread m (off + length h) hs"

definition pkt_is :: "packet \<Rightarrow> headers \<Rightarrow> bool" where
  "pkt_is p hs \<longleftrightarrow> distinct (map fst hs) \<and> firstLayer p = first_or hs None \<and> lastLayer p = last_or None hs
     \<and> linked (self p) (pkt_layers p) None hs None \<and> spread (pkt_layers p) 0 hs
     \<and> raw_is (rawPacket p) (bytes_in hs) (maxPacketLen p) \<and> length (bytes_in hs) \<le> maxPacketLen p"

lemma linked_append:
  "linked me m pv (hs @ ks) nx \<longleftrightarrow> linked me m pv hs (first_or ks nx) \<and> linked me m (last_or pv hs) ks nx"
  by (induction hs arbitrary: pv) auto

lemma spread_append:
  "spread m off (hs @ ks) \<Longrightarrow> spread m (off + length (bytes_in hs)) ks"
  by (induction hs arbitrary: off) (auto simp flip: add.assoc)

lemma linked_cong: "(\<And>i. i \<in> fst ` set hs \<Longrightarrow> m' i = m i) \<Longrightarrow> linked me m pv hs nx \<Longrightarrow> linked me m' pv hs nx"
  by (induction hs arbitrary: pv) auto

lemma spread_cong: "(\<And>i. i \<in> fst ` set hs \<Longrightarrow> m' i = m i) \<Longrightarrow> spread m off hs \<Longrightarrow> spread m' off hs"
  by (induction hs arbitrary: off) auto

lemma header_known:
  assumes "layer_mem p l = Inr (h @ rest)" "sized (pl_kind l) h fin" "pl_kind l = WholeLen \<Longrightarrow> pl_dataLen l = length h"
  shows "getHeaderLen p l = Inr (length h)"
  using assms by (cases "pl_kind l") (auto simp: getHeaderLen_def byte_at_def nth_append)

lemma put_same: "pkt_layers p i = Some l \<Longrightarrow> put_layer i l p = p"
  by (simp add: put_layer_def fun_upd_idem)

lemma layer_obj_put [simp]: "layer_obj i (put_layer j l p) = (if i = j then Inr l else layer_obj i p)"
  by (simp add: layer_obj_def put_layer_def)

lemma layer_mem_raw:
  "m_RawData (rawPacket p) = Some (pre @ x) \<Longrightarrow> pl_data l = IntoRaw (length pre) \<Longrightarrow> layer_mem p l = Inr x"
  by (simp add: layer_mem_def raw_buffer_def)

lemma put_layer_simps [simp]:
  "rawPacket (put_layer i l p) = rawPacket p" "self (put_layer i l p) = self p" "firstLayer (put_layer i l p) = firstLayer p"
  "lastLayer (put_layer i l p) = lastLayer p" "maxPacketLen (put_layer i l p) = maxPacketLen p"
  "protocolTypes (put_layer i l p) = protocolTypes p" "canReallocate (put_layer i l p) = canReallocate p"
  "pkt_layers (put_layer i l p) = (pkt_layers p)(i \<mapsto> l)"
  by (simp_all add: put_layer_def)

text \<open>What the operations never change of a layer.\<close>

definition core :: "pkt_layer \<Rightarrow> header_kind \<times> 64 word \<times> bool" where
  "core l = (pl_kind l, pl_protocol l, pl_datalink l)"

definition same_core :: "(nat \<Rightarrow> pkt_layer option) \<Rightarrow> (nat \<Rightarrow> pkt_layer option) \<Rightarrow> bool" where
  "same_core m m' \<longleftrightarrow> (\<forall>i. map_option core (m' i) = map_option core (m i))"

lemma same_core_trans: "same_core m m' \<Longrightarrow> same_core m' m'' \<Longrightarrow> same_core m m''"
  by (simp add: same_core_def)

lemma same_core_refl: "same_core m m"
  by (simp add: same_core_def)

lemma same_core_upd: "m i = Some l \<Longrightarrow> core l' = core l \<Longrightarrow> same_core m (m(i \<mapsto> l'))"
  by (simp add: same_core_def)

lemma same_coreD: "same_core m m' \<Longrightarrow> m' i = Some l' \<Longrightarrow> \<exists>l. m i = Some l \<and> core l' = core l"
proof -
  assume "same_core m m'" "m' i = Some l'"
  then have "map_option core (m i) = Some (core l')" by (metis same_core_def option.map(2))
  then show ?thesis by (cases "m i") auto
qed

section \<open>The loops on a well-formed packet\<close>

lemma repoint_walk:
  assumes "linked me (pkt_layers p) pv hs None" "spread (pkt_layers p) (length pre) hs"
    and "m_RawData (rawPacket p) = Some (pre @ bytes_in hs @ rest)"
  shows "\<exists>off. walk repoint_step p (first_or hs None) (length pre) = Some (Inr (p, off))"
  using assms
proof (induction hs arbitrary: pv pre)
  case Nil
  then show ?case by (simp add: walk_simps)
next
  case (Cons x hs)
  obtain i h where x: "x = (i, h)" by (cases x)
  from Cons.prems obtain l where l: "pkt_layers p i = Some l" "node_ok me pv (first_or hs None) h l"
      "pl_data l = IntoRaw (length pre)" "pl_dataLen l = length h + length (bytes_in hs)" by (auto simp: x)
  have "layer_mem p l = Inr (h @ bytes_in hs @ rest)" using Cons.prems(3) l(3) by (intro layer_mem_raw [where pre = pre]) (simp_all add: x)
  moreover have "pl_dataLen l = length h" if "pl_kind l = WholeLen"
  proof -
    have "hs = []" using l(2) that by (cases hs) (auto simp: node_ok_def)
    then show ?thesis using l(4) by simp
  qed
  ultimately have "getHeaderLen p l = Inr (length h)" using l(2) by (intro header_known) (auto simp: node_ok_def)
  moreover have "l\<lparr>pl_data := IntoRaw (length pre)\<rparr> = l" using l(3) by simp
  ultimately have "repoint_step p i (length pre) = Inr (p, first_or hs None, length (pre @ h))"
    using l(1,2) by (simp add: repoint_step_def layer_obj_def put_same Let_def node_ok_def)
  moreover have "\<exists>off. walk repoint_step p (first_or hs None) (length (pre @ h)) = Some (Inr (p, off))"
    using Cons.prems by (intro Cons.IH [of "Some i"]) (simp_all add: x)
  ultimately show ?case by (simp add: x walk_simps(2) [of repoint_step])
qed

lemma relayout_walk:
  assumes "linked me (pkt_layers p) pv hs None" "distinct (map fst hs)"
    and "m_RawData (rawPacket p) = Some (pre @ bytes_in hs @ rest)"
  shows "\<exists>m' x. walk (relayout_step 0 proto) p (first_or hs None) (length pre, length (bytes_in hs), s)
      = Some (Inr (p\<lparr>pkt_layers := m'\<rparr>, x)) \<and> linked me m' pv hs None \<and> spread m' (length pre) hs
    \<and> (\<forall>i. i \<notin> fst ` set hs \<longrightarrow> m' i = pkt_layers p i) \<and> same_core (pkt_layers p) m'"
  using assms
proof (induction hs arbitrary: p pv pre s)
  case Nil
  then show ?case by (intro exI [of _ "pkt_layers p"]) (simp add: walk_simps same_core_refl)
next
  case (Cons x hs)
  obtain i h where x: "x = (i, h)" by (cases x)
  from Cons.prems obtain l0 where l0: "pkt_layers p i = Some l0" "node_ok me pv (first_or hs None) h l0" by (auto simp: x)
  let ?n = "length h + length (bytes_in hs)"
  define l where "l = l0\<lparr>pl_data := IntoRaw (length pre), pl_dataLen := ?n\<rparr>"
  let ?p1 = "put_layer i l p"
  have node: "node_ok me pv (first_or hs None) h l" using l0(2) by (simp add: node_ok_def l_def)
  have "layer_mem ?p1 l = Inr (h @ bytes_in hs @ rest)"
    using Cons.prems(3) by (intro layer_mem_raw [where pre = pre]) (simp_all add: x l_def)
  moreover have "pl_dataLen l = length h" if "pl_kind l = WholeLen"
  proof -
    have "hs = []" using node that by (cases hs) (auto simp: node_ok_def)
    then show ?thesis by (simp add: l_def)
  qed
  ultimately have hl: "getHeaderLen ?p1 l = Inr (length h)" using node by (intro header_known) (auto simp: node_ok_def)
  have step: "relayout_step 0 proto p i (length pre, ?n, s)
      = Inr (?p1, first_or hs None, (length (pre @ h), length (bytes_in hs), s \<or> pl_protocol l = proto))"
    using l0 hl by (simp add: relayout_step_def layer_obj_def Let_def minus64_def l_def node_ok_def)
  have i: "i \<notin> fst ` set hs" using Cons.prems(2) by (simp add: x)
  have "linked me (pkt_layers ?p1) (Some i) hs None"
    by (rule linked_cong [where m = "pkt_layers p"]) (use i Cons.prems(1) in \<open>auto simp: x\<close>)
  moreover have "distinct (map fst hs)" "m_RawData (rawPacket ?p1) = Some ((pre @ h) @ bytes_in hs @ rest)"
    using Cons.prems(2,3) by (simp_all add: x)
  ultimately obtain m' y where
    m': "walk (relayout_step 0 proto) ?p1 (first_or hs None) (length (pre @ h), length (bytes_in hs), s \<or> pl_protocol l = proto)
        = Some (Inr (?p1\<lparr>pkt_layers := m'\<rparr>, y))"
      "linked me m' (Some i) hs None" "spread m' (length (pre @ h)) hs" "\<forall>j. j \<notin> fst ` set hs \<longrightarrow> m' j = pkt_layers ?p1 j"
      "same_core (pkt_layers ?p1) m'"
    using Cons.IH [of ?p1 "Some i" "pre @ h" "s \<or> pl_protocol l = proto"] by blast
  have "same_core (pkt_layers p) (pkt_layers ?p1)" using same_core_upd [where m = "pkt_layers p" and i = i and l = l0 and l' = l] l0(1) by (simp add: core_def l_def)
  then have sc: "same_core (pkt_layers p) m'" using m'(5) by (rule same_core_trans)
  have mi: "m' i = Some l" using m'(4) i by simp
  have "walk (relayout_step 0 proto) p (Some i) (length pre, ?n, s) = Some (Inr (p\<lparr>pkt_layers := m'\<rparr>, y))"
    using m'(1) by (simp add: walk_simps(2) [of "relayout_step 0 proto", OF step] put_layer_def)
  moreover have "linked me m' pv ((i, h) # hs) None" using m'(2) mi node by simp
  moreover have "spread m' (length pre) ((i, h) # hs)" using m'(3) mi by (simp add: l_def)
  moreover have "\<forall>j. j \<notin> fst ` set ((i, h) # hs) \<longrightarrow> m' j = pkt_layers p j" using m'(4) by simp
  ultimately show ?case using sc unfolding x by (intro exI [of _ m'] exI [of _ y]) simp
qed

lemma linked_last:
  "linked me m pv (hs @ [(i, h)]) nx \<Longrightarrow> \<exists>l. m i = Some l \<and> node_ok me (last_or pv hs) nx h l"
  by (simp add: linked_append)

lemma trailer_none:
  assumes "lastLayer p = last_or None hs" "linked me (pkt_layers p) None hs None"
  shows "trailer_len p = Inr 0"
proof (cases hs rule: rev_cases)
  case (snoc ks x)
  then show ?thesis using assms linked_last [of me "pkt_layers p" None ks "fst x" "snd x" None]
    by (cases x) (auto simp: trailer_len_def layer_obj_def node_ok_def)
qed (use assms in \<open>simp add: trailer_len_def\<close>)

lemma relayout_ok:
  assumes "linked (self p) (pkt_layers p) None hs None" "distinct (map fst hs)" "firstLayer p = first_or hs None"
    "lastLayer p = last_or None hs" "raw_is (rawPacket p) (bytes_in hs) (maxPacketLen p)" "length (bytes_in hs) \<le> maxPacketLen p"
  shows "\<exists>m' same. relayout proto p = Some (Inr (p\<lparr>pkt_layers := m'\<rparr>, same)) \<and> pkt_is (p\<lparr>pkt_layers := m'\<rparr>) hs
    \<and> (\<forall>i. i \<notin> fst ` set hs \<longrightarrow> m' i = pkt_layers p i) \<and> same_core (pkt_layers p) m'"
proof -
  from raw_isE [OF assms(5)] obtain rest where
    r: "m_RawData (rawPacket p) = Some ([] @ bytes_in hs @ rest)" "m_RawDataLen (rawPacket p) = length (bytes_in hs)" by auto
  from relayout_walk [OF assms(1,2) r(1), of proto False] obtain m' x where
    w: "walk (relayout_step 0 proto) p (first_or hs None) (0, length (bytes_in hs), False) = Some (Inr (p\<lparr>pkt_layers := m'\<rparr>, x))"
      "linked (self p) m' None hs None" "spread m' 0 hs" "\<forall>i. i \<notin> fst ` set hs \<longrightarrow> m' i = pkt_layers p i" "same_core (pkt_layers p) m'" by auto
  obtain a b c where x: "x = (a, b, c)" by (cases x)
  have "relayout proto p = Some (Inr (p\<lparr>pkt_layers := m'\<rparr>, c))"
    using w(1) r(2) trailer_none [OF assms(4,1)] assms(3) by (simp add: relayout_def x)
  moreover have "pkt_is (p\<lparr>pkt_layers := m'\<rparr>) hs" using assms w(2,3) by (simp add: pkt_is_def)
  ultimately show ?thesis using w(4,5) by blast
qed

lemma reallocated:
  assumes "pkt_is p hs" "length (bytes_in hs) < n"
  shows "\<exists>r. reallocateRawData n p = Some (Inr (p\<lparr>maxPacketLen := n, rawPacket := r\<rparr>)) \<and> raw_is r (bytes_in hs) n"
proof -
  from assms(1) have "raw_is (rawPacket p) (bytes_in hs) (maxPacketLen p)" by (simp add: pkt_is_def)
  from raw_reallocated [OF this assms(2)] obtain r where
    r: "reallocateData n (rawPacket p) = Inr (r, True)" "raw_is r (bytes_in hs) n" by blast
  let ?p = "p\<lparr>maxPacketLen := n, rawPacket := r\<rparr>"
  from raw_isE [OF r(2)] obtain rest where "m_RawData (rawPacket ?p) = Some ([] @ bytes_in hs @ rest)" by auto
  moreover have "linked (self p) (pkt_layers ?p) None hs None" "spread (pkt_layers ?p) (length ([] :: byte list)) hs"
    using assms(1) by (simp_all add: pkt_is_def)
  ultimately obtain off where "walk repoint_step ?p (first_or hs None) 0 = Some (Inr (?p, off))"
    using repoint_walk [of "self p" ?p None hs "[]" rest] by auto
  moreover have "firstLayer p = first_or hs None" using assms(1) by (simp add: pkt_is_def)
  ultimately have "reallocateRawData n p = Some (Inr ?p)" using r(1) by (simp add: reallocateRawData_def Let_def)
  with r(2) show ?thesis by blast
qed

lemma room_made:
  assumes "pkt_is p hs" "canReallocate p \<or> length (bytes_in hs) + n \<le> maxPacketLen p"
  shows "\<exists>max r. make_room n p = Some (Inr (Some (p\<lparr>maxPacketLen := max, rawPacket := r\<rparr>)))
    \<and> pkt_is (p\<lparr>maxPacketLen := max, rawPacket := r\<rparr>) hs \<and> length (bytes_in hs) + n \<le> max
    \<and> (canReallocate p \<or> max = maxPacketLen p)"
proof -
  let ?len = "length (bytes_in hs)"
  have len: "m_RawDataLen (rawPacket p) = ?len" "?len \<le> maxPacketLen p"
    using assms(1) by (auto simp: pkt_is_def raw_is_def)
  show ?thesis
  proof (cases "?len + n \<le> maxPacketLen p")
    case True
    then have "make_room n p = Some (Inr (Some (p\<lparr>maxPacketLen := maxPacketLen p, rawPacket := rawPacket p\<rparr>)))"
      using len by (simp add: make_room_def)
    then show ?thesis using True assms(1)
      by (intro exI [of _ "maxPacketLen p"] exI [of _ "rawPacket p"]) simp
  next
    case False
    let ?max = "if ?len + n > maxPacketLen p * 2 then ?len + n + maxPacketLen p else maxPacketLen p * 2"
    have big: "?len < ?max" "?len + n \<le> ?max" using False len(2) by auto
    from reallocated [OF assms(1) big(1)] obtain r where
      r: "reallocateRawData ?max p = Some (Inr (p\<lparr>maxPacketLen := ?max, rawPacket := r\<rparr>))" "raw_is r (bytes_in hs) ?max" by blast
    have "make_room n p = Some (Inr (Some (p\<lparr>maxPacketLen := ?max, rawPacket := r\<rparr>)))"
      unfolding make_room_def Let_def len(1) using False assms(2) r(1) by simp
    moreover have "pkt_is (p\<lparr>maxPacketLen := ?max, rawPacket := r\<rparr>) hs"
      using assms(1) r(2) big by (simp add: pkt_is_def)
    moreover have "canReallocate p" using False assms(2) by simp
    ultimately show ?thesis using big(2) by blast
  qed
qed

text \<open>The header length of a layer of the packet, and where its data begin.\<close>

lemma layer_in:
  assumes "pkt_is p (as @ (i, h) # bs)"
  shows "\<exists>l. layer_obj i p = Inr l \<and> pkt_layers p i = Some l \<and> node_ok (self p) (last_or None as) (first_or bs None) h l
    \<and> pl_data l = IntoRaw (length (bytes_in as)) \<and> getHeaderLen p l = Inr (length h) \<and> (\<exists>rest. layer_mem p l = Inr (h @ rest))"
proof -
  have "linked (self p) (pkt_layers p) (last_or None as) ((i, h) # bs) None"
    using assms by (simp add: pkt_is_def linked_append)
  then obtain l where l: "pkt_layers p i = Some l" "node_ok (self p) (last_or None as) (first_or bs None) h l" by auto
  have "spread (pkt_layers p) (0 + length (bytes_in as)) ((i, h) # bs)"
    using assms spread_append [of "pkt_layers p" 0 as "(i, h) # bs"] by (simp add: pkt_is_def)
  with l have d: "pl_data l = IntoRaw (length (bytes_in as))" "pl_dataLen l = length h + length (bytes_in bs)" by auto
  have "raw_is (rawPacket p) (bytes_in as @ h @ bytes_in bs) (maxPacketLen p)" using assms by (simp add: pkt_is_def)
  from raw_isE [OF this] obtain rest where "m_RawData (rawPacket p) = Some (bytes_in as @ h @ bytes_in bs @ rest)" by auto
  then have mem: "layer_mem p l = Inr (h @ bytes_in bs @ rest)" using d(1) by (intro layer_mem_raw)
  moreover have "pl_dataLen l = length h" if "pl_kind l = WholeLen"
  proof -
    have "bs = []" using l(2) that by (cases bs) (auto simp: node_ok_def)
    then show ?thesis using d(2) by simp
  qed
  ultimately have "getHeaderLen p l = Inr (length h)" using l(2) by (intro header_known) (auto simp: node_ok_def)
  with l d(1) mem show ?thesis by (auto simp: layer_obj_def)
qed

lemma index_after:
  assumes "pkt_is p (as @ bs)"
  shows "insert_index (last_or None as) p = Inr (length (bytes_in as))" "after_trailer (last_or None as) p = Inr False"
proof -
  have "insert_index (last_or None as) p = Inr (length (bytes_in as)) \<and> after_trailer (last_or None as) p = Inr False"
  proof (cases as rule: rev_cases)
    case (snoc ks x)
    obtain i h where x: "x = (i, h)" by (cases x)
    from layer_in [of p ks i h bs] assms show ?thesis
      by (auto simp: snoc x insert_index_def after_trailer_def data_index_def node_ok_def)
  qed (simp add: insert_index_def after_trailer_def)
  then show "insert_index (last_or None as) p = Inr (length (bytes_in as))" "after_trailer (last_or None as) p = Inr False" by simp_all
qed

section \<open>Linking and unlinking\<close>

definition set_next :: "nat option \<Rightarrow> nat option \<Rightarrow> (nat \<Rightarrow> pkt_layer option) \<Rightarrow> nat \<Rightarrow> pkt_layer option" where
  "set_next q nx m = (case q of None \<Rightarrow> m | Some i \<Rightarrow> m(i := map_option (\<lambda>l. l\<lparr>pl_next := nx\<rparr>) (m i)))"

definition set_prev :: "nat option \<Rightarrow> nat option \<Rightarrow> (nat \<Rightarrow> pkt_layer option) \<Rightarrow> nat \<Rightarrow> pkt_layer option" where
  "set_prev j pv m = (case j of None \<Rightarrow> m | Some i \<Rightarrow> m(i := map_option (\<lambda>l. l\<lparr>pl_prev := pv\<rparr>) (m i)))"

lemma set_other:
  "q \<noteq> Some i \<Longrightarrow> set_next q nx m i = m i" "q \<noteq> Some i \<Longrightarrow> set_prev q nx m i = m i"
  by (auto simp: set_next_def set_prev_def split: option.splits)

lemma modify_layer_next:
  "pkt_layers p q \<noteq> None \<Longrightarrow> modify_layer q (\<lambda>l. l\<lparr>pl_next := nx\<rparr>) p = Inr (p\<lparr>pkt_layers := set_next (Some q) nx (pkt_layers p)\<rparr>)"
  by (auto simp: modify_layer_def layer_obj_def put_layer_def set_next_def)

lemma modify_layer_prev:
  "pkt_layers p q \<noteq> None \<Longrightarrow> modify_layer q (\<lambda>l. l\<lparr>pl_prev := nx\<rparr>) p = Inr (p\<lparr>pkt_layers := set_prev (Some q) nx (pkt_layers p)\<rparr>)"
  by (auto simp: modify_layer_def layer_obj_def put_layer_def set_prev_def)

text \<open>The last of a row may not be all header when something comes behind it.\<close>

definition open_end :: "(nat \<Rightarrow> pkt_layer option) \<Rightarrow> headers \<Rightarrow> bool" where
  "open_end m as \<longleftrightarrow> (\<forall>q l. last_or None as = Some q \<longrightarrow> m q = Some l \<longrightarrow> pl_kind l \<noteq> WholeLen)"

lemma linked_set_next:
  assumes "linked me m None as nx" "distinct (map fst as)" "open_end m as \<or> nx' = None"
  shows "linked me (set_next (last_or None as) nx' m) None as nx'"
proof (cases as rule: rev_cases)
  case (snoc ks x)
  obtain q g where x: "x = (q, g)" by (cases x)
  let ?m = "set_next (Some q) nx' m"
  from assms(1) obtain l where l: "m q = Some l" "node_ok me (last_or None ks) nx g l" by (auto simp: snoc x linked_append)
  have "sized (pl_kind l) g (nx' = None)"
  proof (cases "pl_kind l = WholeLen")
    case True
    then have "nx' = None" using assms(3) l(1) by (auto simp: open_end_def snoc x)
    then show ?thesis using True by simp
  next
    case False
    then show ?thesis using l(2) by (cases "pl_kind l") (auto simp: node_ok_def)
  qed
  then have "node_ok me (last_or None ks) nx' g (l\<lparr>pl_next := nx'\<rparr>)" using l(2) by (simp add: node_ok_def)
  moreover have "linked me ?m None ks (Some q)"
    by (rule linked_cong [where m = m]) (use assms(1,2) in \<open>auto simp: snoc x linked_append set_next_def\<close>)
  ultimately show ?thesis using l(1) by (simp add: snoc x linked_append set_next_def)
qed (simp add: set_next_def)

lemma linked_set_prev:
  assumes "linked me m pv bs None" "distinct (map fst bs)"
  shows "linked me (set_prev (first_or bs None) pv' m) pv' bs None"
proof (cases bs)
  case (Cons x ks)
  obtain j g where x: "x = (j, g)" by (cases x)
  from assms(1) obtain l where l: "m j = Some l" "node_ok me pv (first_or ks None) g l" by (auto simp: Cons x)
  have "linked me (set_prev (Some j) pv' m) (Some j) ks None"
    by (rule linked_cong [where m = m]) (use assms in \<open>auto simp: Cons x set_prev_def\<close>)
  then show ?thesis using l by (simp add: Cons x set_prev_def node_ok_def)
qed (simp add: set_prev_def)

lemma first_in: "first_or hs None = Some i \<Longrightarrow> i \<in> fst ` set hs"
  by (cases hs) auto

lemma last_in: "last_or None hs = Some i \<Longrightarrow> i \<in> fst ` set hs"
  by (cases hs rule: rev_cases) (auto simp: last_or_def)

lemma linked_there: "linked me m pv hs nx \<Longrightarrow> i \<in> fst ` set hs \<Longrightarrow> m i \<noteq> None"
  by (induction hs arbitrary: pv) fastforce+

lemma link_eq:
  assumes "linked me (pkt_layers p) None (as @ bs) None" "distinct (map fst (as @ bs))" "firstLayer p = first_or (as @ bs) None"
    and "lastLayer p = last_or None (as @ bs)" "n \<notin> fst ` set (as @ bs)" "pkt_layers p n = Some l" "pl_prev l = None"
  shows "link_layer (last_or None as) n p = Inr (p\<lparr>
      pkt_layers := set_prev (first_or bs None) (Some n) (set_next (last_or None as) (Some n)
        ((pkt_layers p)(n \<mapsto> l\<lparr>pl_next := first_or bs None, pl_prev := last_or None as\<rparr>))),
      firstLayer := first_or (as @ (n, h) # bs) None, lastLayer := last_or None (as @ (n, h) # bs)\<rparr>)"
proof -
  let ?l = "l\<lparr>pl_next := first_or bs None, pl_prev := last_or None as\<rparr>"
  let ?m1 = "(pkt_layers p)(n \<mapsto> ?l)"
  let ?m2 = "set_next (last_or None as) (Some n) ?m1"
  have there: "pkt_layers p i \<noteq> None" if "i \<in> fst ` set (as @ bs)" for i
    using linked_there [OF assms(1) that] .
  have j: "j \<noteq> n \<and> last_or None as \<noteq> Some j \<and> ?m2 j \<noteq> None" if "first_or bs None = Some j" for j
  proof -
    have "j \<in> fst ` set bs" using that by (rule first_in)
    moreover have "last_or None as \<noteq> Some j" using last_in [of as j] calculation assms(2) by auto
    ultimately show ?thesis using assms(5) there [of j] by (auto simp: set_other)
  qed
  have n: "?m2 n = Some ?l" using assms(5) last_in [of as n] by (subst set_other) auto
  show ?thesis
  proof (cases as rule: rev_cases)
    case Nil
    have f: "firstLayer p = first_or bs None" using assms(3) Nil by simp
    have "l\<lparr>pl_next := first_or bs None, pl_prev := None\<rparr> = l\<lparr>pl_next := first_or bs None\<rparr>"
      using assms(7) by (cases l) simp
    then have 1: "modify_layer n (\<lambda>l. l\<lparr>pl_next := firstLayer p\<rparr>) p = Inr (p\<lparr>pkt_layers := ?m1\<rparr>)"
      using assms(6) Nil f by (simp add: modify_layer_def layer_obj_def put_layer_def)
    show ?thesis
    proof (cases bs)
      case bs: Nil
      then show ?thesis using 1 f Nil n assms(3,4)
        by (simp add: link_layer_def layer_obj_def set_prev_def set_next_def)
    next
      case (Cons x ks)
      obtain i g where x: "x = (i, g)" by (cases x)
      from j [of i] obtain li where li: "pkt_layers p i = Some li" "i \<noteq> n" by (auto simp: Cons x Nil set_next_def)
      show ?thesis using 1 f n li assms(4)
        by (simp add: Nil Cons x link_layer_def layer_obj_def set_prev_def set_next_def modify_layer_prev)
    qed
  next
    case (snoc ks x)
    obtain q g where x: "x = (q, g)" by (cases x)
    have q: "last_or None as = Some q" by (simp add: snoc x)
    obtain lq where lq: "pkt_layers p q = Some lq" "q \<noteq> n" using there [of q] assms(5) by (auto simp: snoc x)
    have nxq: "pl_next lq = first_or bs None"
      using assms(1) lq(1) by (auto simp: snoc x linked_append node_ok_def)
    have 1: "modify_layer n (\<lambda>l. l\<lparr>pl_next := pl_next lq, pl_prev := Some q\<rparr>) p = Inr (p\<lparr>pkt_layers := ?m1\<rparr>)"
      using assms(6) nxq q by (simp add: modify_layer_def layer_obj_def put_layer_def)
    have 2: "modify_layer q (\<lambda>l. l\<lparr>pl_next := Some n\<rparr>) (p\<lparr>pkt_layers := ?m1\<rparr>) = Inr (p\<lparr>pkt_layers := ?m2\<rparr>)"
      using lq q by (simp add: modify_layer_next)
    have both: "link_layer (Some q) n p =
        (case first_or bs None of None \<Rightarrow> Inr (p\<lparr>pkt_layers := ?m2, lastLayer := Some n\<rparr>)
         | Some j \<Rightarrow> modify_layer j (\<lambda>l. l\<lparr>pl_prev := Some n\<rparr>) (p\<lparr>pkt_layers := ?m2\<rparr>))"
      using 1 2 lq(1) n by (simp add: link_layer_def layer_obj_def)
    have keep: "p\<lparr>firstLayer := first_or (as @ bs) None\<rparr> = p" using assms(3) by simp
    show ?thesis
    proof (cases bs)
      case Nil
      then show ?thesis using both q assms(3) by (simp add: set_prev_def snoc x)
    next
      case (Cons y ls)
      obtain i e where y: "y = (i, e)" by (cases y)
      have "modify_layer i (\<lambda>l. l\<lparr>pl_prev := Some n\<rparr>) (p\<lparr>pkt_layers := ?m2\<rparr>)
          = Inr (p\<lparr>pkt_layers := set_prev (Some i) (Some n) ?m2\<rparr>)"
        using j [of i] by (simp add: modify_layer_prev Cons y)
      then show ?thesis using both q assms(3,4) by (simp add: Cons y snoc x last_or_def)
    qed
  qed
qed

section \<open>Inserting and removing on the row of headers\<close>

text \<open>A layer that stands alone: it has its own array, whose front is its header \<open>h\<close>.\<close>

definition alone :: "pkt_layer \<Rightarrow> byte list \<Rightarrow> bool" where
  "alone l h \<longleftrightarrow> pl_packet l = None \<and> pl_prev l = None \<and> pl_protocol l \<noteq> PacketTrailer
     \<and> (\<exists>d. pl_data l = OwnArray (h @ d)) \<and> (pl_kind l = WholeLen \<longrightarrow> pl_dataLen l = length h)"

lemma alone_header:
  assumes "alone l h" "sized (pl_kind l) h fin"
  shows "getHeaderLen p l = Inr (length h)"
proof -
  from assms(1) obtain d where "pl_data l = OwnArray (h @ d)" by (auto simp: alone_def)
  then have "layer_mem p l = Inr (h @ d)" by (simp add: layer_mem_def)
  then show ?thesis using assms by (intro header_known) (auto simp: alone_def)
qed

text \<open>
  \<open>insertLayer\<close> puts the header of the new layer between those before and behind it, makes the
  buffer longer when it has to, and leaves every layer with its data pointer and length.
\<close>

lemma set_core: "same_core m (set_next q nx m)" "same_core m (set_prev q nx m)"
  by (auto simp: same_core_def set_next_def set_prev_def core_def map_option_case split: option.splits)

lemma inserted:
  assumes p: "pkt_is p (as @ bs)" and n: "n \<notin> fst ` set (as @ bs)" "pkt_layers p n = Some l" "alone l h" "sized (pl_kind l) h (bs = [])"
    and oe: "open_end (pkt_layers p) as" and room: "canReallocate p \<or> length (bytes_in (as @ bs)) + length h \<le> maxPacketLen p"
  shows "\<exists>p'. insertLayer (last_or None as) (Some n) own p = Some (Inr (p', True)) \<and> pkt_is p' (as @ (n, h) # bs)
    \<and> self p' = self p \<and> canReallocate p' = canReallocate p \<and> protocolTypes p' = protocolTypes p OR pl_protocol l
    \<and> (canReallocate p \<or> maxPacketLen p' = maxPacketLen p)
    \<and> (\<forall>i. i \<notin> fst ` set (as @ (n, h) # bs) \<longrightarrow> pkt_layers p' i = pkt_layers p i) \<and> same_core (pkt_layers p) (pkt_layers p')"
proof -
  let ?ks = "as @ (n, h) # bs"
  have hl: "getHeaderLen p l = Inr (length h)" using n(3,4) by (rule alone_header)
  from room_made [OF p room] obtain mx r1 where
    1: "make_room (length h) p = Some (Inr (Some (p\<lparr>maxPacketLen := mx, rawPacket := r1\<rparr>)))"
      "pkt_is (p\<lparr>maxPacketLen := mx, rawPacket := r1\<rparr>) (as @ bs)" "length (bytes_in (as @ bs)) + length h \<le> mx"
      "canReallocate p \<or> mx = maxPacketLen p" by blast
  let ?p1 = "p\<lparr>maxPacketLen := mx, rawPacket := r1\<rparr>"
  note idx = index_after [OF 1(2)] and idx0 = index_after [OF p]
  from n(3) obtain d where d: "layer_mem ?p1 l = Inr (h @ d)" by (auto simp: alone_def layer_mem_def)
  have "raw_is r1 (bytes_in as @ bytes_in bs) mx" using 1(2) by (simp add: pkt_is_def)
  from raw_inserted [OF this, of h d] 1(3) obtain r2 where
    2: "insertData (int (length (bytes_in as))) (Some (h @ d)) (length h) r1 = Inr r2" "raw_is r2 (bytes_in as @ h @ bytes_in bs) mx" by auto
  let ?p2 = "?p1\<lparr>rawPacket := r2\<rparr>"
  let ?l = "l\<lparr>pl_next := first_or bs None, pl_prev := last_or None as\<rparr>"
  let ?m = "set_prev (first_or bs None) (Some n) (set_next (last_or None as) (Some n) ((pkt_layers p)(n \<mapsto> ?l)))"
  let ?p3 = "?p2\<lparr>pkt_layers := ?m, firstLayer := first_or ?ks None, lastLayer := last_or None ?ks\<rparr>"
  have lk: "linked (self p) (pkt_layers p) None (as @ bs) None" "distinct (map fst (as @ bs))"
    "firstLayer p = first_or (as @ bs) None" "lastLayer p = last_or None (as @ bs)"
    using p by (simp_all add: pkt_is_def)
  have 3: "link_layer (last_or None as) n ?p2 = Inr ?p3"
    using link_eq [of "self p" ?p2 as bs n l h] lk n(1,2,3) by (simp add: alone_def)
  have mn: "?m n = Some ?l" using n(1) first_in [of bs n] last_in [of as n] by (subst set_other, force)+ simp
  let ?l4 = "?l\<lparr>pl_packet := Some (self p), pl_allocated := pl_allocated l \<or> own\<rparr>"
  let ?p4 = "put_layer n ?l4 ?p3"
  have 4: "modify_layer n (\<lambda>l. l\<lparr>pl_packet := Some (self ?p3), pl_allocated := pl_allocated l \<or> own\<rparr>) ?p3 = Inr ?p4"
    using mn by (simp add: modify_layer_def layer_obj_def)
  have la: "linked (self p) (pkt_layers p) None as (first_or bs None)" "linked (self p) (pkt_layers p) (last_or None as) bs None"
    using lk(1) by (simp_all add: linked_append)
  have "linked (self p) (set_next (last_or None as) (Some n) (pkt_layers p)) None as (Some n)"
    using linked_set_next [OF la(1)] lk(2) oe by simp
  then have A: "linked (self p) (pkt_layers ?p4) None as (Some n)"
  proof (rule linked_cong [rotated])
    fix i
    assume i: "i \<in> fst ` set as"
    then have "i \<noteq> n" "first_or bs None \<noteq> Some i" using n(1) lk(2) first_in [of bs i] by auto
    then show "pkt_layers ?p4 i = set_next (last_or None as) (Some n) (pkt_layers p) i"
      by (auto simp: set_other set_next_def split: option.splits)
  qed
  have "linked (self p) (set_prev (first_or bs None) (Some n) (pkt_layers p)) (Some n) bs None"
    using linked_set_prev [OF la(2)] lk(2) by simp
  then have B: "linked (self p) (pkt_layers ?p4) (Some n) bs None"
  proof (rule linked_cong [rotated])
    fix i
    assume i: "i \<in> fst ` set bs"
    then have "i \<noteq> n" "last_or None as \<noteq> Some i" using n(1) lk(2) last_in [of as i] by auto
    then show "pkt_layers ?p4 i = set_prev (first_or bs None) (Some n) (pkt_layers p) i"
      by (auto simp: set_other set_prev_def split: option.splits)
  qed
  have "node_ok (self p) (last_or None as) (first_or bs None) h ?l4"
    using n(3,4) by (cases bs) (auto simp: node_ok_def alone_def)
  then have "linked (self ?p4) (pkt_layers ?p4) None ?ks None" using A B by (simp add: linked_append)
  moreover have "distinct (map fst ?ks)" using lk(2) n(1) by auto
  moreover have "raw_is (rawPacket ?p4) (bytes_in ?ks) (maxPacketLen ?p4)" using 2(2) by simp
  moreover have "length (bytes_in ?ks) \<le> maxPacketLen ?p4" using 1(3) by simp
  ultimately obtain m' same where
    5: "relayout 0 ?p4 = Some (Inr (?p4\<lparr>pkt_layers := m'\<rparr>, same))" "pkt_is (?p4\<lparr>pkt_layers := m'\<rparr>) ?ks"
      "\<forall>i. i \<notin> fst ` set ?ks \<longrightarrow> m' i = pkt_layers ?p4 i" "same_core (pkt_layers ?p4) m'"
    using relayout_ok [of ?p4 ?ks 0] by auto
  let ?p5 = "?p4\<lparr>pkt_layers := m', protocolTypes := protocolTypes p OR pl_protocol l\<rparr>"
  have "insertLayer (last_or None as) (Some n) own p = Some (Inr (?p5, True))"
    using n(2,3) hl 1(1) idx idx0 d 2(1) 3 4 5(1)
    by (simp add: insertLayer_def layer_obj_def alone_def)
  moreover have "pkt_is ?p5 ?ks" using 5(2) by (simp add: pkt_is_def)
  moreover have "pkt_layers ?p5 i = pkt_layers p i" if "i \<notin> fst ` set ?ks" for i
  proof -
    have "pkt_layers ?p5 i = ?m i" using 5(3) that by simp
    also have "\<dots> = pkt_layers p i"
      using that first_in [of bs i] last_in [of as i] by (subst set_other, force)+ simp
    finally show ?thesis .
  qed
  moreover have "same_core (pkt_layers p) (pkt_layers ?p5)"
  proof -
    have "same_core (pkt_layers p) ((pkt_layers p)(n \<mapsto> ?l))" using n(2) by (rule same_core_upd) (simp add: core_def)
    from same_core_trans [OF same_core_trans [OF this set_core(1)] set_core(2)] have "same_core (pkt_layers p) ?m" .
    moreover have "same_core ?m (pkt_layers ?p4)" using same_core_upd [where m = ?m and i = n and l' = ?l4 and l = ?l] mn by (simp add: core_def)
    moreover have "same_core (pkt_layers ?p4) (pkt_layers ?p5)" proof -
      have "pkt_layers ?p5 = m'" by simp
      show ?thesis unfolding \<open>pkt_layers ?p5 = m'\<close> by (rule 5(4))
    qed
    ultimately show ?thesis by (meson same_core_trans)
  qed
  moreover have "self ?p5 = self p" "canReallocate ?p5 = canReallocate p" "protocolTypes ?p5 = protocolTypes p OR pl_protocol l"
    by (simp_all add: put_layer_def)
  moreover have "canReallocate p \<or> maxPacketLen ?p5 = maxPacketLen p" using 1(4) by (simp add: put_layer_def)
  ultimately show ?thesis by (intro exI [of _ ?p5] conjI allI impI) (assumption | rule refl)+
qed

text \<open>The way back to the first layer, and the links without a layer.\<close>

lemma first_found:
  "linked me (pkt_layers p) None (as @ (i, h) # bs) nx \<Longrightarrow> \<exists>f. first_of p i = Some (Inr f) \<and> first_or (as @ [(i, h)]) None = Some f"
proof (induction as arbitrary: i h bs rule: rev_induct)
  case Nil
  then show ?case by (auto simp: first_of.simps [of p i] layer_obj_def node_ok_def)
next
  case (snoc x as)
  obtain j g where x: "x = (j, g)" by (cases x)
  from snoc.prems obtain l where "pkt_layers p i = Some l" "pl_prev l = Some j" by (auto simp: x linked_append node_ok_def)
  moreover from snoc.IH [of j g "(i, h) # bs"] snoc.prems obtain f where
    "first_of p j = Some (Inr f)" "first_or (as @ [(j, g)]) None = Some f" by (auto simp: x)
  moreover have "first_or ((as @ [(j, g)]) @ [(i, h)]) None = first_or (as @ [(j, g)]) None" by (cases as) auto
  ultimately show ?case by (simp add: first_of.simps [of p i] layer_obj_def x)
qed

lemma unlink_eq:
  assumes "linked me (pkt_layers p) None (as @ (i, h) # bs) None" "distinct (map fst (as @ (i, h) # bs))"
    and "firstLayer p = first_or (as @ (i, h) # bs) None" "lastLayer p = last_or None (as @ (i, h) # bs)" "pkt_layers p i = Some l"
  shows "unlink_layer i p = Inr (p\<lparr>
      pkt_layers := (set_prev (first_or bs None) (last_or None as) (set_next (last_or None as) (first_or bs None) (pkt_layers p)))
        (i \<mapsto> l\<lparr>pl_next := None, pl_prev := None\<rparr>),
      firstLayer := first_or (as @ bs) None, lastLayer := last_or None (as @ bs)\<rparr>)"
proof -
  let ?m1 = "set_next (last_or None as) (first_or bs None) (pkt_layers p)"
  let ?m2 = "set_prev (first_or bs None) (last_or None as) ?m1"
  have nd: "pl_prev l = last_or None as" "pl_next l = first_or bs None"
    using assms(1,5) by (auto simp: linked_append node_ok_def)
  have out: "i \<notin> fst ` set as" "i \<notin> fst ` set bs" using assms(2) by auto
  have there: "pkt_layers p j \<noteq> None" if "j \<in> fst ` set (as @ (i, h) # bs)" for j
    using linked_there [OF assms(1) that] .
  have 1: "(case pl_prev l of None \<Rightarrow> Inr p | Some j \<Rightarrow> modify_layer j (\<lambda>lj. lj\<lparr>pl_next := pl_next l\<rparr>) p) = Inr (p\<lparr>pkt_layers := ?m1\<rparr>)"
  proof (cases "last_or None as")
    case (Some j)
    then have "pkt_layers p j \<noteq> None" using there [of j] last_in [of as j] by auto
    then show ?thesis using Some by (simp add: nd modify_layer_next)
  qed (simp add: nd set_next_def)
  have 2: "(case pl_next l of None \<Rightarrow> Inr (p\<lparr>pkt_layers := ?m1\<rparr>) | Some j \<Rightarrow> modify_layer j (\<lambda>lj. lj\<lparr>pl_prev := pl_prev l\<rparr>) (p\<lparr>pkt_layers := ?m1\<rparr>))
      = Inr (p\<lparr>pkt_layers := ?m2\<rparr>)"
  proof (cases "first_or bs None")
    case (Some j)
    then have "j \<in> fst ` set bs" by (rule first_in)
    moreover from this have "last_or None as \<noteq> Some j" using assms(2) last_in [of as j] by auto
    ultimately have "?m1 j \<noteq> None" using there [of j] by (auto simp: set_other)
    then show ?thesis using Some by (simp add: nd modify_layer_prev)
  qed (simp add: nd set_prev_def)
  have mi: "?m2 i = Some l"
    using out first_in [of bs i] last_in [of as i] assms(5) by (subst set_other, force)+ simp
  have f: "(firstLayer p = Some i) = (as = [])" using assms(3) out(1) by (cases as) auto
  have l: "(lastLayer p = Some i) = (bs = [])"
    using assms(4) out(2) by (cases bs rule: rev_cases) (auto simp: last_or_def)
  have ff: "(if firstLayer p = Some i then first_or bs None else firstLayer p) = first_or (as @ bs) None"
    using assms(3) by (cases as) (auto simp: f)
  have ll: "(if lastLayer p = Some i then last_or None as else lastLayer p) = last_or None (as @ bs)"
    using assms(4) by (cases bs rule: rev_cases) (auto simp: l last_or_def)
  let ?p2 = "p\<lparr>pkt_layers := ?m2\<rparr>"
  let ?p3 = "?p2\<lparr>firstLayer := first_or (as @ bs) None\<rparr>" let ?p4 = "?p3\<lparr>lastLayer := last_or None (as @ bs)\<rparr>"
  have 3: "(if firstLayer ?p2 = Some i then ?p2\<lparr>firstLayer := pl_next l\<rparr> else ?p2) = ?p3"
    using ff by (auto simp: nd)
  have 4: "(if lastLayer ?p3 = Some i then ?p3\<lparr>lastLayer := pl_prev l\<rparr> else ?p3) = ?p4"
    using ll by (auto simp: nd)
  show ?thesis
    unfolding unlink_layer_def layer_obj_def assms(5) option.case bind_out_simps 1 2 Let_def 3 4
    using mi by (simp add: modify_layer_def layer_obj_def put_layer_def)
qed

text \<open>
  \<open>removeLayer\<close> takes the header out; the layer stands alone again with a copy of its header, or is
  deleted when the packet owns it and deletion is asked for.
\<close>

lemma removed:
  assumes p: "pkt_is p (as @ (i, h) # bs)" and l: "pkt_layers p i = Some l"
  shows "\<exists>p'. removeLayer (Some i) del p = Some (Inr (p', True)) \<and> pkt_is p' (as @ bs) \<and> self p' = self p
    \<and> canReallocate p' = canReallocate p \<and> maxPacketLen p' = maxPacketLen p
    \<and> (\<forall>j. j \<notin> fst ` set (as @ (i, h) # bs) \<longrightarrow> pkt_layers p' j = pkt_layers p j)
    \<and> (if del \<and> pl_allocated l then pkt_layers p' i = None
       else pkt_layers p' i = Some (l\<lparr>pl_next := None, pl_prev := None, pl_packet := None, pl_data := OwnArray h, pl_dataLen := length h\<rparr>))"
proof -
  let ?ks = "as @ (i, h) # bs"
  have lk: "linked (self p) (pkt_layers p) None ?ks None" "distinct (map fst ?ks)" "firstLayer p = first_or ?ks None"
    "lastLayer p = last_or None ?ks" "raw_is (rawPacket p) (bytes_in as @ h @ bytes_in bs) (maxPacketLen p)"
    "length (bytes_in ?ks) \<le> maxPacketLen p" using p by (simp_all add: pkt_is_def)
  from layer_in [OF p] l obtain rest where
    1: "layer_obj i p = Inr l" "node_ok (self p) (last_or None as) (first_or bs None) h l" "pl_data l = IntoRaw (length (bytes_in as))"
      "getHeaderLen p l = Inr (length h)" "layer_mem p l = Inr (h @ rest)" by auto
  from first_found [OF lk(1)] obtain f where f: "first_of p i = Some (Inr f)" "first_or (as @ [(i, h)]) None = Some f" by blast
  have ff: "firstLayer p = Some f" using lk(3) f(2) by simp
  from raw_removed [OF lk(5)] obtain r where
    r: "removeData (int (length (bytes_in as))) (length h) (rawPacket p) = Inr (r, True)" "raw_is r (bytes_in as @ bytes_in bs) (maxPacketLen p)"
    by blast
  let ?m2 = "set_prev (first_or bs None) (last_or None as) (set_next (last_or None as) (first_or bs None) (pkt_layers p))"
  let ?l = "l\<lparr>pl_next := None, pl_prev := None\<rparr>"
  let ?p1 = "p\<lparr>rawPacket := r, pkt_layers := ?m2(i \<mapsto> ?l), firstLayer := first_or (as @ bs) None, lastLayer := last_or None (as @ bs)\<rparr>"
  have 2: "unlink_layer i (p\<lparr>rawPacket := r\<rparr>) = Inr ?p1"
    using unlink_eq [of "self p" "p\<lparr>rawPacket := r\<rparr>" as i h bs l] lk l by simp
  have out: "i \<notin> fst ` set as" "i \<notin> fst ` set bs" using lk(2) by auto
  have la: "linked (self p) (pkt_layers p) None as (Some i)" "linked (self p) (pkt_layers p) (Some i) bs None"
    using lk(1) by (simp_all add: linked_append)
  have oe: "open_end (pkt_layers p) as"
  proof (cases as rule: rev_cases)
    case (snoc ks x)
    then show ?thesis using la(1) by (cases x) (auto simp: open_end_def linked_append node_ok_def)
  qed (simp add: open_end_def)
  have "linked (self p) (set_next (last_or None as) (first_or bs None) (pkt_layers p)) None as (first_or bs None)"
    using linked_set_next [OF la(1)] lk(2) oe by simp
  then have A: "linked (self p) (pkt_layers ?p1) None as (first_or bs None)"
  proof (rule linked_cong [rotated])
    fix j
    assume j: "j \<in> fst ` set as"
    then have "j \<noteq> i" "first_or bs None \<noteq> Some j" using out lk(2) first_in [of bs j] by auto
    then show "pkt_layers ?p1 j = set_next (last_or None as) (first_or bs None) (pkt_layers p) j" by (simp add: set_other)
  qed
  have "linked (self p) (set_prev (first_or bs None) (last_or None as) (pkt_layers p)) (last_or None as) bs None"
    using linked_set_prev [OF la(2)] lk(2) by simp
  then have B: "linked (self p) (pkt_layers ?p1) (last_or None as) bs None"
  proof (rule linked_cong [rotated])
    fix j
    assume j: "j \<in> fst ` set bs"
    then have "j \<noteq> i" "last_or None as \<noteq> Some j" using out lk(2) last_in [of as j] by auto
    then show "pkt_layers ?p1 j = set_prev (first_or bs None) (last_or None as) (pkt_layers p) j"
      by (auto simp: set_other set_prev_def split: option.splits)
  qed
  have "linked (self ?p1) (pkt_layers ?p1) None (as @ bs) None" using A B by (simp add: linked_append)
  moreover have "distinct (map fst (as @ bs))" using lk(2) by auto
  moreover have "raw_is (rawPacket ?p1) (bytes_in (as @ bs)) (maxPacketLen ?p1)" using r(2) by simp
  moreover have "length (bytes_in (as @ bs)) \<le> maxPacketLen ?p1" using lk(6) by simp
  ultimately obtain m' same where
    3: "relayout (pl_protocol l) ?p1 = Some (Inr (?p1\<lparr>pkt_layers := m'\<rparr>, same))" "pkt_is (?p1\<lparr>pkt_layers := m'\<rparr>) (as @ bs)"
      "\<forall>j. j \<notin> fst ` set (as @ bs) \<longrightarrow> m' j = pkt_layers ?p1 j"
    using relayout_ok [of ?p1 "as @ bs" "pl_protocol l"] by auto
  have "i \<notin> fst ` set (as @ bs)" using out by auto
  then have "m' i = pkt_layers ?p1 i" using 3(3) by blast
  then have mi: "m' i = Some ?l" by simp
  have mo: "m' j = pkt_layers p j" if "j \<notin> fst ` set ?ks" for j
    using 3(3) that first_in [of bs j] last_in [of as j] by (simp, subst set_other, force)+ simp
  let ?p3 = "if same then ?p1\<lparr>pkt_layers := m'\<rparr> else ?p1\<lparr>pkt_layers := m', protocolTypes := protocolTypes p AND NOT (pl_protocol l)\<rparr>"
  let ?p4 = "if del \<and> pl_allocated l then ?p3\<lparr>pkt_layers := m'(i := None)\<rparr>
    else ?p3\<lparr>pkt_layers := m'(i \<mapsto> ?l\<lparr>pl_packet := None, pl_data := OwnArray h, pl_dataLen := length h\<rparr>)\<rparr>"
  have "removeLayer (Some i) del p = Some (Inr (?p4, True))"
    using 1 f(1) ff r(1) 2 3(1) mi
    by (simp add: removeLayer_def node_ok_def bytes_at_def data_index_def modify_layer_def layer_obj_def put_layer_def Let_def)
  moreover have "pkt_is ?p4 (as @ bs)"
  proof -
    have "linked me m None (as @ bs) None \<Longrightarrow> linked me (m(i := y)) None (as @ bs) None"
      "spread m 0 (as @ bs) \<Longrightarrow> spread (m(i := y)) 0 (as @ bs)" for me m y
      by (rule linked_cong [rotated], assumption, use out in auto) (rule spread_cong [rotated], assumption, use out in auto)
    then show ?thesis using 3(2) by (simp add: pkt_is_def)
  qed
  ultimately show ?thesis using mo by (intro exI [of _ ?p4]) auto
qed

section \<open>Properties\<close>

definition packet_bytes :: "packet \<Rightarrow> byte list" where
  "packet_bytes p = (case m_RawData (rawPacket p) of None \<Rightarrow> [] | Some b \<Rightarrow> take (m_RawDataLen (rawPacket p)) b)"

lemma packet_bytes_is: "pkt_is p hs \<Longrightarrow> packet_bytes p = bytes_in hs"
  by (auto simp: pkt_is_def packet_bytes_def raw_is_def)

lemma packet_new_is: "pkt_is (packet_new me t objs maxLen) []"
proof -
  have "raw_is (rawPacket (packet_new me t objs maxLen)) [] maxLen"
    by (rule raw_isI [where rest = "replicate maxLen 0"]) (simp_all add: packet_new_def RawPacket_new_def setRawData_def)
  then show ?thesis by (simp add: pkt_is_def packet_new_def)
qed

text \<open>The calls of \<open>addLayer\<close> one after another; every one has to succeed.\<close>

fun add_all :: "bool \<Rightarrow> nat list \<Rightarrow> packet \<Rightarrow> packet option" where
  "add_all own [] p = Some p"
| "add_all own (n # ns) p =
     (case addLayer (Some n) own p of Some (Inr (p', True)) \<Rightarrow> add_all own ns p' | _ \<Rightarrow> None)"

text \<open>Layers that stand alone, in the order they are to have; one that is all header only at the end.\<close>

fun new_layers :: "(nat \<Rightarrow> pkt_layer option) \<Rightarrow> headers \<Rightarrow> bool" where
  "new_layers m [] = True"
| "new_layers m ((i, h) # hs) \<longleftrightarrow>
     (\<exists>l. m i = Some l \<and> alone l h \<and> sized (pl_kind l) h True \<and> (hs \<noteq> [] \<longrightarrow> pl_kind l \<noteq> WholeLen)) \<and> new_layers m hs"

lemma new_layers_cong: "(\<And>i. i \<in> fst ` set hs \<Longrightarrow> m' i = m i) \<Longrightarrow> new_layers m hs \<Longrightarrow> new_layers m' hs"
  by (induction hs rule: new_layers.induct) auto

lemma added:
  assumes "pkt_is p ks" "distinct (map fst (ks @ hs))" "new_layers (pkt_layers p) hs" "hs \<noteq> [] \<longrightarrow> open_end (pkt_layers p) ks"
    and "canReallocate p \<or> length (bytes_in (ks @ hs)) \<le> maxPacketLen p"
  shows "\<exists>p'. add_all own (map fst hs) p = Some p' \<and> pkt_is p' (ks @ hs)"
  using assms
proof (induction hs arbitrary: ks p)
  case (Cons x hs)
  obtain n h where x: "x = (n, h)" by (cases x)
  from Cons.prems(3) obtain l where l: "pkt_layers p n = Some l" "alone l h" "sized (pl_kind l) h True"
    "hs \<noteq> [] \<longrightarrow> pl_kind l \<noteq> WholeLen" by (auto simp: x)
  have n: "n \<notin> fst ` set ks" using Cons.prems(2) by (auto simp: x)
  have "canReallocate p \<or> length (bytes_in (ks @ [])) + length h \<le> maxPacketLen p" using Cons.prems(5) by (auto simp: x)
  with inserted [of p ks "[]" n l h own] Cons.prems(1,4) n l(1,2,3) obtain p1 where
    p1: "insertLayer (last_or None ks) (Some n) own p = Some (Inr (p1, True))" "pkt_is p1 (ks @ [(n, h)])"
      "canReallocate p1 = canReallocate p" "\<forall>i. i \<notin> fst ` set (ks @ [(n, h)]) \<longrightarrow> pkt_layers p1 i = pkt_layers p i"
      "same_core (pkt_layers p) (pkt_layers p1)" "canReallocate p \<or> maxPacketLen p1 = maxPacketLen p" by auto
  have last: "lastLayer p = last_or None ks" using Cons.prems(1) by (simp add: pkt_is_def)
  have "fst ` set hs \<inter> fst ` set (ks @ [(n, h)]) = {}" using Cons.prems(2) by (auto simp: x)
  then have "pkt_layers p1 i = pkt_layers p i" if "i \<in> fst ` set hs" for i using p1(4) that by blast
  moreover have "new_layers (pkt_layers p) hs" using Cons.prems(3) by (simp add: x)
  ultimately have "new_layers (pkt_layers p1) hs" by (rule new_layers_cong)
  moreover have "hs \<noteq> [] \<longrightarrow> open_end (pkt_layers p1) (ks @ [(n, h)])"
  proof -
    from layer_in [OF p1(2)] obtain l1 where l1: "pkt_layers p1 n = Some l1" by auto
    then have "core l1 = core l" using same_coreD [OF p1(5), of n] l(1) by force
    then have "pl_kind l1 = pl_kind l" by (simp add: core_def)
    then show ?thesis using l1 l(4) by (simp add: open_end_def)
  qed
  moreover have "distinct (map fst ((ks @ [(n, h)]) @ hs))" using Cons.prems(2) by (simp add: x)
  moreover have "canReallocate p1 \<or> length (bytes_in ((ks @ [(n, h)]) @ hs)) \<le> maxPacketLen p1"
  proof (cases "canReallocate p")
    case True
    then show ?thesis by (simp only: p1(3) simp_thms)
  next
    case False
    moreover have "maxPacketLen p1 = maxPacketLen p" using False p1(6) by (simp only: simp_thms)
    ultimately show ?thesis using Cons.prems(5) by (simp add: x)
  qed
  ultimately have "\<exists>p'. add_all own (map fst hs) p1 = Some p' \<and> pkt_is p' ((ks @ [(n, h)]) @ hs)"
    using Cons.IH [OF p1(2)] by (simp only: simp_thms)
  then show ?case using p1(1) last by (auto simp: x addLayer_def)
qed simp

text \<open>
  C10. A packet put together from layers that stood alone, by \<open>addLayer\<close>, has the bytes of their headers
  one after another as its raw data, whatever the buffer was at first, and every layer points to its
  own bytes and knows the length from there to the end.
\<close>

theorem packet_built:
  assumes "new_layers objs hs" "distinct (map fst hs)"
  shows "\<exists>p. add_all own (map fst hs) (packet_new me t objs maxLen) = Some p \<and> pkt_is p hs \<and> packet_bytes p = bytes_in hs"
proof -
  let ?p = "packet_new me t objs maxLen"
  have "pkt_is ?p []" by (rule packet_new_is)
  moreover have "new_layers (pkt_layers ?p) hs" "canReallocate ?p" using assms(1) by (simp_all add: packet_new_def)
  ultimately obtain p where "add_all own (map fst hs) ?p = Some p" "pkt_is p hs"
    using added [of ?p "[]" hs own] assms(2) by (auto simp: open_end_def)
  then show ?thesis using packet_bytes_is by blast
qed

text \<open>Two layers to try things on: a UDP header and a payload.\<close>

definition lone_layer :: "header_kind \<Rightarrow> 64 word \<Rightarrow> byte list \<Rightarrow> pkt_layer" where
  "lone_layer k proto d = \<lparr>pl_kind = k, pl_protocol = proto, pl_datalink = False, pl_data = OwnArray d, pl_dataLen = length d,
     pl_packet = None, pl_next = None, pl_prev = None, pl_allocated = False\<rparr>"

definition demo_objs :: "nat \<Rightarrow> pkt_layer option" where
  "demo_objs = [0 \<mapsto> lone_layer (FixedLen 8) 0x10 [0, 53, 4, 0, 0, 10, 0, 0], 1 \<mapsto> lone_layer WholeLen 0x1000000 [104, 105]]"

lemma demo_new:
  "new_layers demo_objs [(0, [0, 53, 4, 0, 0, 10, 0, 0]), (1, [104, 105])]"
  by (simp add: demo_objs_def lone_layer_def alone_def PacketTrailer_def)

theorem packet_built_witness:
  "\<exists>p. add_all False [0, 1] (packet_new 7 (0, 0) demo_objs 4) = Some p
    \<and> pkt_is p [(0, [0, 53, 4, 0, 0, 10, 0, 0]), (1, [104, 105])] \<and> packet_bytes p = [0, 53, 4, 0, 0, 10, 0, 0, 104, 105]"
  using packet_built [OF demo_new, of False 7 "(0, 0)" 4] by simp

text \<open>
  C11. Inserting a layer anywhere it may stand and taking it out again gives back the packet, byte for
  byte and layer for layer, and the layer with its header in an array of its own.
\<close>

theorem packet_insert_remove:
  assumes "pkt_is p (as @ bs)" "n \<notin> fst ` set (as @ bs)" "pkt_layers p n = Some l" "alone l h" "sized (pl_kind l) h (bs = [])"
    and "open_end (pkt_layers p) as" "canReallocate p \<or> length (bytes_in (as @ bs)) + length h \<le> maxPacketLen p"
  shows "\<exists>p1 p2. insertLayer (last_or None as) (Some n) own p = Some (Inr (p1, True)) \<and> pkt_is p1 (as @ (n, h) # bs)
    \<and> packet_bytes p1 = bytes_in as @ h @ bytes_in bs
    \<and> removeLayer (Some n) False p1 = Some (Inr (p2, True)) \<and> pkt_is p2 (as @ bs) \<and> packet_bytes p2 = packet_bytes p
    \<and> (\<exists>l'. pkt_layers p2 n = Some l' \<and> alone l' h \<and> pl_data l' = OwnArray h \<and> pl_protocol l' = pl_protocol l)"
proof -
  from inserted [OF assms, of own] obtain p1 where
    1: "insertLayer (last_or None as) (Some n) own p = Some (Inr (p1, True))" "pkt_is p1 (as @ (n, h) # bs)"
      "same_core (pkt_layers p) (pkt_layers p1)" by blast
  from layer_in [OF 1(2)] obtain l1 where l1: "pkt_layers p1 n = Some l1" by blast
  then have c: "core l1 = core l" using same_coreD [OF 1(3)] assms(3) by force
  from removed [OF 1(2) l1, of False] obtain p2 where
    2: "removeLayer (Some n) False p1 = Some (Inr (p2, True))" "pkt_is p2 (as @ bs)"
      "pkt_layers p2 n = Some (l1\<lparr>pl_next := None, pl_prev := None, pl_packet := None, pl_data := OwnArray h, pl_dataLen := length h\<rparr>)"
    by auto
  have "pl_protocol l1 \<noteq> PacketTrailer" "pl_protocol l1 = pl_protocol l" using c assms(4) by (simp_all add: core_def alone_def)
  then show ?thesis using 1(1,2) 2 packet_bytes_is [OF 1(2)] packet_bytes_is [OF 2(2)] packet_bytes_is [OF assms(1)]
    by (simp add: alone_def)
qed

theorem packet_insert_remove_witness:
  "\<exists>p1 p2. insertLayer None (Some 0) True (packet_new 7 (0, 0) demo_objs 4) = Some (Inr (p1, True))
    \<and> packet_bytes p1 = [0, 53, 4, 0, 0, 10, 0, 0]
    \<and> removeLayer (Some 0) False p1 = Some (Inr (p2, True)) \<and> packet_bytes p2 = []"
proof -
  let ?p = "packet_new 7 (0, 0) demo_objs 4"
  have "pkt_is ?p ([] @ [])" using packet_new_is by simp
  moreover have "pkt_layers ?p 0 = Some (lone_layer (FixedLen 8) 0x10 [0, 53, 4, 0, 0, 10, 0, 0])"
    by (simp add: packet_new_def demo_objs_def)
  moreover have "alone (lone_layer (FixedLen 8) 0x10 [0, 53, 4, 0, 0, 10, 0, 0]) [0, 53, 4, 0, 0, 10, 0, 0]"
    by (simp add: alone_def lone_layer_def PacketTrailer_def)
  moreover have "canReallocate ?p" "packet_bytes ?p = []" by (simp_all add: packet_new_def packet_bytes_def RawPacket_new_def setRawData_def)
  ultimately show ?thesis
    using packet_insert_remove [of ?p "[]" "[]" 0 _ "[0, 53, 4, 0, 0, 10, 0, 0]" True]
    by (simp add: open_end_def lone_layer_def) blast
qed

text \<open>A packet of a layer that is all header and a trailer behind it.\<close>

definition with_trailer :: "byte list \<Rightarrow> byte list \<Rightarrow> nat \<Rightarrow> packet" where
  "with_trailer h tr room =
     (let blank = \<lparr>pl_kind = WholeLen, pl_protocol = 0x1000, pl_datalink = False, pl_data = IntoRaw 0, pl_dataLen = length h,
                   pl_packet = Some 0, pl_next = Some 1, pl_prev = None, pl_allocated = True\<rparr>
      in \<lparr>self = 0, rawPacket = RawPacket_new (h @ tr @ replicate room 0) (length (h @ tr)) (0, 0) True LINKTYPE_ETHERNET,
          pkt_layers = [0 \<mapsto> blank, 1 \<mapsto> blank\<lparr>pl_protocol := PacketTrailer, pl_datalink := True, pl_data := IntoRaw (length h),
            pl_dataLen := length tr, pl_next := None, pl_prev := Some 0\<rparr>],
          firstLayer = Some 0, lastLayer = Some 1, protocolTypes = 0x20001000, maxPacketLen = length (h @ tr) + room, canReallocate = True\<rparr>)"

text \<open>
  After \<open>extendLayer\<close> on a layer that is all header the data pointer of the trailer behind it is too
  far by the bytes added, because they are counted in the length of the layer already; the raw
  data themselves are right.
\<close>

theorem packet_extend_trailer:
  assumes "k \<le> length h" "n \<le> room"
  shows "\<exists>p l. packet_extendLayer (Some 0) (int k) n (with_trailer h tr room) = Some (Inr (p, True))
    \<and> pkt_layers p 1 = Some l \<and> pl_data l = IntoRaw (length h + n + n)
    \<and> take (length tr) (drop (length h + n) (packet_bytes p)) = tr"
proof -
  let ?p = "with_trailer h tr room"
  let ?raw = "rawPacket ?p"
  have room: "make_room n ?p = Some (Inr (Some ?p))"
    using assms(2) by (simp add: make_room_def with_trailer_def Let_def RawPacket_new_def setRawData_def)
  have "raw_is ?raw (take k h @ (drop k h @ tr)) (length (h @ tr) + room)"
    by (rule raw_isI [where rest = "replicate room 0"]) (simp_all add: with_trailer_def Let_def RawPacket_new_def setRawData_def)
  moreover have "length (take k h @ (drop k h @ tr)) + n \<le> length (h @ tr) + room" using assms by simp
  ultimately obtain r gap where r: "insertData (int (length (take k h))) None n ?raw = Inr r" "length gap = n"
    "raw_is r (take k h @ gap @ (drop k h @ tr)) (length (h @ tr) + room)" by (rule raw_gap)
  have k: "length (take k h) = k" using assms(1) by simp
  let ?p1 = "?p\<lparr>rawPacket := r\<rparr>"
  have w: "\<exists>p l. walk (resize_step (\<lambda>x. x + n) 0) ?p1 (Some 0) (0, False) = Some (Inr (p, (length h + n + n + length tr, True)))
      \<and> rawPacket p = r \<and> pkt_layers p 1 = Some l \<and> pl_data l = IntoRaw (length h + n + n)"
    by (simp add: walk.simps [of _ _ "Some _"] walk.simps [of _ _ None] resize_step_def with_trailer_def layer_obj_def
        put_layer_def getHeaderLen_def Let_def)
  then obtain p l where
    p: "walk (resize_step (\<lambda>x. x + n) 0) ?p1 (Some 0) (0, False) = Some (Inr (p, (length h + n + n + length tr, True)))"
      "rawPacket p = r" "pkt_layers p 1 = Some l" "pl_data l = IntoRaw (length h + n + n)" by blast
  have o: "layer_obj 0 ?p = Inr (the (pkt_layers ?p 0))" "pl_packet (the (pkt_layers ?p 0)) = Some (self ?p)"
    "data_index (the (pkt_layers ?p 0)) = Inr 0" "firstLayer ?p = Some 0"
    by (simp_all add: with_trailer_def layer_obj_def data_index_def Let_def)
  have "packet_extendLayer (Some 0) (int k) n ?p = Some (Inr (p, True))"
    using room o r(1)[unfolded k] p(1) by (simp add: packet_extendLayer_def)
  moreover have "packet_bytes p = take k h @ gap @ (drop k h @ tr)"
    using r(3) p(2) by (auto simp: packet_bytes_def raw_is_def)
  then have "take (length tr) (drop (length h + n) (packet_bytes p)) = tr" using r(2) assms(1) by simp
  ultimately show ?thesis using p(3,4) by blast
qed

theorem packet_extend_trailer_witness:
  "\<exists>p l. packet_extendLayer (Some 0) 2 1 (with_trailer [1, 2] [9, 9] 4) = Some (Inr (p, True))
    \<and> pkt_layers p 1 = Some l \<and> pl_data l = IntoRaw 4 \<and> take 2 (drop 3 (packet_bytes p)) = [9, 9]"
proof -
  have l: "length [1, 2 :: byte] = 2" "length [9, 9 :: byte] = 2" "(2::nat) + 1 = 3" "(2::nat) + 1 + 1 = 4" by simp_all
  show ?thesis using packet_extend_trailer [of 2 "[1, 2]" 1 4 "[9, 9]", unfolded l] by simp
qed

end
