(* ===== verification/PacketRuns.thy ===== *)
theory PacketRuns
  imports Packet
begin

text \<open>
  Packets under any calls that insert and remove layers (\<open>Packet.cpp\<close>): the well-formedness of
  \<open>Packet\<close> as the type of a packet, the calls that the interface allows, and that a run of allowed
  calls always returns and never leaves the type.
\<close>

section \<open>The calls\<close>

datatype packet_op = InsertOp "nat option" nat bool | RemoveOp nat bool

fun packet_do :: "packet_op \<Rightarrow> packet \<Rightarrow> (packet \<times> bool) outcome option" where
  "packet_do (InsertOp prev n own) p = insertLayer prev (Some n) own p"
| "packet_do (RemoveOp i del) p = removeLayer (Some i) del p"

text \<open>A run ends without a value when a call faults, does not return or reports a failure.\<close>

fun packet_run :: "packet_op list \<Rightarrow> packet \<Rightarrow> packet option" where
  "packet_run [] p = Some p"
| "packet_run (c # cs) p =
     (case packet_do c p of Some (Inr (p', True)) \<Rightarrow> packet_run cs p' | _ \<Rightarrow> None)"

definition in_packet :: "packet \<Rightarrow> nat \<Rightarrow> bool" where
  "in_packet p i \<longleftrightarrow> (\<exists>l. pkt_layers p i = Some l \<and> pl_packet l = Some (self p))"

text \<open>
  A layer may be inserted when it stands alone, first or behind a layer of the packet that is not
  all header; a layer that is all header itself only at the end. A layer of the packet may be
  removed.
\<close>

fun may :: "packet \<Rightarrow> packet_op \<Rightarrow> bool" where
  "may p (InsertOp prev n own) \<longleftrightarrow>
     (\<exists>l h. pkt_layers p n = Some l \<and> alone l h \<and> sized (pl_kind l) h (prev = lastLayer p))
     \<and> (\<forall>q. prev = Some q \<longrightarrow> in_packet p q \<and> map_option pl_kind (pkt_layers p q) \<noteq> Some WholeLen)"
| "may p (RemoveOp i del) \<longleftrightarrow> in_packet p i"

fun all_may :: "packet \<Rightarrow> packet_op list \<Rightarrow> bool" where
  "all_may p [] = True"
| "all_may p (c # cs) \<longleftrightarrow>
     may p c \<and> (case packet_do c p of Some (Inr (p', True)) \<Rightarrow> all_may p' cs | _ \<Rightarrow> True)"

section \<open>The type of a packet\<close>

definition well_formed :: "packet \<Rightarrow> headers \<Rightarrow> bool" where
  "well_formed p hs \<longleftrightarrow> pkt_is p hs \<and> canReallocate p \<and> (\<forall>i. in_packet p i \<longrightarrow> i \<in> fst ` set hs)"

lemma well_formed_in: "well_formed p hs \<Longrightarrow> in_packet p i \<longleftrightarrow> i \<in> fst ` set hs"
proof
  assume w: "well_formed p hs" and "i \<in> fst ` set hs"
  then obtain as h bs where "hs = as @ (i, h) # bs" by (metis imageE prod.collapse split_list)
  with w have "pkt_is p (as @ (i, h) # bs)" by (simp add: well_formed_def)
  from layer_in [OF this] show "in_packet p i" by (auto simp: in_packet_def node_ok_def)
qed (simp add: well_formed_def)

lemma split_at:
  assumes "well_formed p hs" "in_packet p i"
  obtains as h bs where "hs = as @ (i, h) # bs"
  using assms by (metis well_formed_in imageE prod.collapse split_list)

lemma well_formed_insert:
  assumes w: "well_formed p hs" and m: "may p (InsertOp prev n own)"
  shows "\<exists>p' hs'. insertLayer prev (Some n) own p = Some (Inr (p', True)) \<and> well_formed p' hs'"
proof -
  from m obtain l h where l: "pkt_layers p n = Some l" "alone l h" "sized (pl_kind l) h (prev = lastLayer p)" by auto
  have p: "pkt_is p hs" "canReallocate p" using w by (simp_all add: well_formed_def)
  have "\<not> in_packet p n" using l(1,2) by (simp add: in_packet_def alone_def)
  then have n: "n \<notin> fst ` set hs" using well_formed_in [OF w] by simp
  obtain as bs where s: "hs = as @ bs" "prev = last_or None as" "prev = lastLayer p \<longleftrightarrow> bs = []" "open_end (pkt_layers p) as"
  proof (cases prev)
    case None
    have "lastLayer p = last_or None hs" using p(1) by (simp add: pkt_is_def)
    moreover have "last_or None hs = None \<longleftrightarrow> hs = []" by (cases hs rule: rev_cases) (auto simp: last_or_def)
    ultimately show thesis using that [of "[]" hs] None by (auto simp: last_or_def open_end_def)
  next
    case (Some q)
    with m have q: "in_packet p q" "map_option pl_kind (pkt_layers p q) \<noteq> Some WholeLen" by auto
    from split_at [OF w q(1)] obtain as hq bs where s: "hs = as @ (q, hq) # bs" .
    have "distinct (map fst hs)" "lastLayer p = last_or None hs" using p(1) by (simp_all add: pkt_is_def)
    then have "lastLayer p = Some q \<longleftrightarrow> bs = []"
      using s by (cases bs rule: rev_cases) (auto simp: last_or_def)
    moreover have "open_end (pkt_layers p) (as @ [(q, hq)])" using q(2) by (auto simp: open_end_def last_or_def)
    ultimately show thesis using that [of "as @ [(q, hq)]" bs] s Some by (auto simp: last_or_def)
  qed
  have room: "canReallocate p \<or> length (bytes_in (as @ bs)) + length h \<le> maxPacketLen p" using p(2) ..
  from inserted [OF p(1)[unfolded s(1)] n[unfolded s(1)] l(1,2) l(3)[unfolded s(3)] s(4) room, of own] obtain p' where
    1: "insertLayer (last_or None as) (Some n) own p = Some (Inr (p', True))" "pkt_is p' (as @ (n, h) # bs)"
      "self p' = self p" "canReallocate p' = canReallocate p"
      "\<forall>i. i \<notin> fst ` set (as @ (n, h) # bs) \<longrightarrow> pkt_layers p' i = pkt_layers p i" by blast
  have "i \<in> fst ` set (as @ (n, h) # bs)" if "in_packet p' i" for i
  proof (rule ccontr)
    assume o: "i \<notin> fst ` set (as @ (n, h) # bs)"
    then have "in_packet p i" using that 1(3,5) by (simp add: in_packet_def)
    then show False using o well_formed_in [OF w] s(1) by simp
  qed
  then have "well_formed p' (as @ (n, h) # bs)" using 1(2,4) p(2) by (simp add: well_formed_def)
  then show ?thesis using 1(1) s(2) by blast
qed

lemma well_formed_remove:
  assumes w: "well_formed p hs" and i: "in_packet p i"
  shows "\<exists>p' hs'. removeLayer (Some i) del p = Some (Inr (p', True)) \<and> well_formed p' hs'"
proof -
  from split_at [OF assms] obtain as h bs where s: "hs = as @ (i, h) # bs" .
  from w have p: "pkt_is p (as @ (i, h) # bs)" "canReallocate p" by (simp_all add: well_formed_def s)
  from i obtain l where "pkt_layers p i = Some l" by (auto simp: in_packet_def)
  from removed [OF p(1) this, of del] obtain p' where
    1: "removeLayer (Some i) del p = Some (Inr (p', True))" "pkt_is p' (as @ bs)" "self p' = self p"
      "canReallocate p' = canReallocate p" "\<forall>j. j \<notin> fst ` set (as @ (i, h) # bs) \<longrightarrow> pkt_layers p' j = pkt_layers p j"
      "if del \<and> pl_allocated l then pkt_layers p' i = None
       else pkt_layers p' i = Some (l\<lparr>pl_next := None, pl_prev := None, pl_packet := None, pl_data := OwnArray h, pl_dataLen := length h\<rparr>)"
    by blast
  have "j \<in> fst ` set (as @ bs)" if j: "in_packet p' j" for j
  proof (cases "j = i")
    case True
    then show ?thesis using j 1(3,6) by (auto simp: in_packet_def split: if_splits)
  next
    case False
    show ?thesis
    proof (rule ccontr)
      assume o: "j \<notin> fst ` set (as @ bs)"
      then have "in_packet p j" using j 1(3,5) False by (simp add: in_packet_def)
      then show False using o False well_formed_in [OF w] s by simp
    qed
  qed
  then have "well_formed p' (as @ bs)" using 1(2,4) p(2) by (simp add: well_formed_def)
  then show ?thesis using 1(1) by blast
qed

lemma well_formed_run:
  "well_formed p hs \<Longrightarrow> all_may p cs \<Longrightarrow> \<exists>p' hs'. packet_run cs p = Some p' \<and> well_formed p' hs'"
proof (induction cs arbitrary: p hs)
  case (Cons c cs)
  have "\<exists>p' hs'. packet_do c p = Some (Inr (p', True)) \<and> well_formed p' hs'"
    using Cons.prems well_formed_insert well_formed_remove by (cases c) (auto simp del: may.simps(1))
  then obtain p' hs' where 1: "packet_do c p = Some (Inr (p', True))" "well_formed p' hs'" by blast
  then show ?case using Cons.IH [OF 1(2)] Cons.prems(2) by simp
qed auto

section \<open>Properties\<close>

text \<open>
  C4. A run of allowed calls from a new packet always returns, and what it leaves is a packet: its list
  of layers is linked both ways from first to last, every layer of it points to its own header in
  the raw data, the headers follow one another without a gap, and no other layer claims to be in it.
\<close>

theorem packet_type_kept:
  assumes "\<And>i l. objs i = Some l \<Longrightarrow> pl_packet l \<noteq> Some me" "all_may (packet_new me t objs maxLen) cs"
  shows "\<exists>p hs. packet_run cs (packet_new me t objs maxLen) = Some p \<and> well_formed p hs \<and> packet_bytes p = bytes_in hs"
proof -
  let ?p = "packet_new me t objs maxLen"
  have "pkt_is ?p []" by (rule packet_new_is)
  moreover have "\<not> in_packet ?p i" for i using assms(1) by (simp add: in_packet_def packet_new_def)
  moreover have "canReallocate ?p" by (simp add: packet_new_def)
  ultimately have "well_formed ?p []" by (simp add: well_formed_def)
  from well_formed_run [OF this assms(2)] show ?thesis using packet_bytes_is by (metis well_formed_def)
qed

theorem packet_type_kept_witness:
  "\<exists>p hs. packet_run [InsertOp None 0 False, RemoveOp 0 True] (packet_new 7 (0, 0) demo_objs 4) = Some p
     \<and> well_formed p hs \<and> packet_bytes p = bytes_in hs"
proof (rule packet_type_kept)
  show "\<And>i l. demo_objs i = Some l \<Longrightarrow> pl_packet l \<noteq> Some 7"
    by (auto simp: demo_objs_def lone_layer_def split: if_splits)
  let ?p = "packet_new 7 (0, 0) demo_objs 4"
  have w: "well_formed ?p []"
    using packet_new_is [of 7 "(0, 0)" demo_objs 4]
    by (auto simp: well_formed_def in_packet_def packet_new_def demo_objs_def lone_layer_def)
  have m: "may ?p (InsertOp None 0 False)"
    unfolding may.simps
    by (intro conjI exI [of _ "lone_layer (FixedLen 8) 0x10 [0, 53, 4, 0, 0, 10, 0, 0]"] exI [of _ "[0, 53, 4, 0, 0, 10, 0, 0]"])
      (simp_all add: packet_new_def demo_objs_def lone_layer_def alone_def PacketTrailer_def)
  obtain p1 where 1: "insertLayer None (Some 0) False ?p = Some (Inr (p1, True))" "in_packet p1 0"
  proof -
    let ?l = "lone_layer (FixedLen 8) 0x10 [0, 53, 4, 0, 0, 10, 0, 0]"
    have "\<exists>p'. insertLayer (last_or None []) (Some 0) False ?p = Some (Inr (p', True)) \<and> pkt_is p' ([] @ (0, [0, 53, 4, 0, 0, 10, 0, 0]) # [])"
      using inserted [of ?p "[]" "[]" 0 ?l "[0, 53, 4, 0, 0, 10, 0, 0]" False] packet_new_is [of 7 "(0, 0)" demo_objs 4]
      by (auto simp: packet_new_def demo_objs_def lone_layer_def alone_def PacketTrailer_def open_end_def)
    then obtain p' where p': "insertLayer None (Some 0) False ?p = Some (Inr (p', True))"
      "pkt_is p' ([] @ (0, [0, 53, 4, 0, 0, 10, 0, 0]) # [])" by (auto simp: last_or_def)
    from layer_in [OF p'(2)] show thesis using p'(1) that by (auto simp: in_packet_def node_ok_def)
  qed
  have "all_may p1 [RemoveOp 0 True]" using 1(2) by (simp split: option.splits sum.splits bool.splits)
  with m 1(1) show "all_may ?p [InsertOp None 0 False, RemoveOp 0 True]" by (simp del: may.simps)
qed

end
