(* ===== verification/TextLine.thy ===== *)
theory TextLine
  imports Prelude
begin

text \<open>
  What the parsers of first lines share (\<open>HttpLayer.cpp\<close>, \<open>SipLayer.cpp\<close>): characters read at an
  index of the payload, comparisons that stop at the first difference, \<open>memchr\<close>, and the documented
  behaviour of \<open>cross_platform_memmem\<close>, whose source is not in the repository.
\<close>

text \<open>\<open>data[i]\<close>, where the array ends with the payload.\<close>

definition char_at :: "string \<Rightarrow> nat \<Rightarrow> char outcome" where
  "char_at d i = (if i < length d then Inr (d ! i) else Inl OutOfBounds)"

text \<open>\<open>data[i] == s[0] && data[i + 1] == s[1] && ...\<close>\<close>

fun looks :: "string \<Rightarrow> nat \<Rightarrow> string \<Rightarrow> bool outcome" where
  "looks d i [] = Inr True"
| "looks d i (c # cs) = bind_out (char_at d i) (\<lambda>x. if x = c then looks d (Suc i) cs else Inr False)"

text \<open>\<open>if (data[i] == s[0] && ...) return m; else return unknown\<close>, as in the switches on methods.\<close>

definition method_if :: "'m \<Rightarrow> string \<Rightarrow> nat \<Rightarrow> string \<Rightarrow> 'm \<Rightarrow> 'm outcome" where
  "method_if unknown d i s m = bind_out (looks d i s) (\<lambda>eq. Inr (if eq then m else unknown))"

definition memchr :: "char \<Rightarrow> string \<Rightarrow> nat option" where
  "memchr c d = (if c \<in> set d then Some (length (takeWhile (\<lambda>x. x \<noteq> c) d)) else None)"

definition memmem_documented :: "(string \<Rightarrow> string \<Rightarrow> nat option) \<Rightarrow> bool" where
  "memmem_documented mm \<longleftrightarrow> (\<forall>hay needle. mm hay needle = str_find needle hay)"

definition lookup_status :: "nat \<Rightarrow> (string \<times> nat) list \<Rightarrow> string \<Rightarrow> nat" where
  "lookup_status unknown table digits = (case map_of table digits of None \<Rightarrow> unknown | Some s \<Rightarrow> s)"

lemma char_at_simps [simp]: "i < length d \<Longrightarrow> char_at d i = Inr (d ! i)"
  by (simp add: char_at_def)

lemma looks_inside: "i + length s \<le> length d \<Longrightarrow> looks d i s = Inr (take (length s) (drop i d) = s)"
proof (induction s arbitrary: i)
  case (Cons c s)
  then have "drop i d = d ! i # drop (Suc i) d" by (simp add: Cons_nth_drop_Suc)
  with Cons show ?case by (simp add: char_at_def)
qed simp

lemma drop_length_append: "length u = n \<Longrightarrow> drop n (u @ v) = v"
  by simp

lemma short_take: "length d < i + length s \<Longrightarrow> s \<noteq> [] \<Longrightarrow> take (length s) (drop i d) \<noteq> s"
  by (auto dest: arg_cong [where f = length])

text \<open>A branch whose guard gives at least the length of the name recognises the name alone.\<close>

lemma method_if_inside:
  "i + length s \<le> length d \<Longrightarrow> method_if unk d i s m = Inr (if take (length s) (drop i d) = s then m else unk)"
  by (simp add: method_if_def looks_inside)

lemma method_branch:
  assumes "k = i + length s" "s \<noteq> []"
  shows "(if length d < k then Inr unk else method_if unk d i s m) = Inr (if take (length s) (drop i d) = s then m else unk)"
  using assms short_take [of d i s] by (simp add: method_if_inside)

lemma method_branch_4:
  assumes "\<not> length d < 4" "i + length s = 4"
  shows "method_if unk d i s m = Inr (if take (length s) (drop i d) = s then m else unk)"
  using assms by (simp add: method_if_inside)

lemma starts_first: "d \<noteq> [] \<Longrightarrow> d ! 0 = c \<Longrightarrow> take n (drop 1 d) = s \<Longrightarrow> take (Suc n) d = c # s"
  by (cases d) auto

lemma starts_second: "1 < length d \<Longrightarrow> d ! 0 = a \<Longrightarrow> d ! 1 = b \<Longrightarrow> take n (drop 2 d) = s \<Longrightarrow> take (Suc (Suc n)) d = a # b # s"
  by (cases d; cases "tl d") auto

lemma looks_prefix: "looks (u @ s @ r) (length u) s = Inr True"
  by (simp add: looks_inside)

lemma memchr_append: "c \<notin> set u \<Longrightarrow> memchr c (u @ c # v) = Some (length u)"
proof -
  assume "c \<notin> set u"
  then have "takeWhile (\<lambda>x. x \<noteq> c) (u @ c # v) = u" by (induction u) auto
  then show ?thesis by (simp add: memchr_def)
qed

lemma memchr_bound: "memchr c d = Some i \<Longrightarrow> i < length d"
proof -
  assume m: "memchr c d = Some i"
  then have "c \<in> set d" "i = length (takeWhile (\<lambda>x. x \<noteq> c) d)" by (auto simp: memchr_def split: if_splits)
  moreover have "takeWhile (\<lambda>x. x \<noteq> c) d \<noteq> d" using calculation(1) by (metis set_takeWhileD)
  ultimately show ?thesis by (metis length_takeWhile_le nat_less_le takeWhile_eq_take take_all)
qed

text \<open>A text that starts with a space is found behind a text without one.\<close>

lemma str_find_spaced:
  assumes "CHR '' '' \<notin> set u"
  shows "str_find (CHR '' '' # pat) (u @ (CHR '' '' # pat) @ v) = Some (length u)"
  using assms by (induction u) (auto simp: str_find_prefix)

lemma nat_str_three:
  assumes "100 \<le> n" "n < 1000"
  shows "nat_str n = [digit_char (n div 100), digit_char (n div 10 mod 10), digit_char (n mod 10)]"
proof -
  have "n div 10 div 10 = n div 100" by (simp add: div_mult2_eq [symmetric])
  moreover have "n div 100 < 10" "\<not> n div 10 < 10" using assms by linarith+
  ultimately show ?thesis
    using assms by (simp add: nat_str.simps [of n] nat_str.simps [of "n div 10"] nat_str.simps [of "n div 100"])
qed

lemma digit_chars:
  "digit_char 0 = CHR ''0''" "digit_char 1 = CHR ''1''" "digit_char 2 = CHR ''2''" "digit_char 3 = CHR ''3''"
  "digit_char 4 = CHR ''4''" "digit_char 5 = CHR ''5''" "digit_char 6 = CHR ''6''" "digit_char 7 = CHR ''7''"
  "digit_char 8 = CHR ''8''" "digit_char 9 = CHR ''9''" "digit_char (Suc 0) = CHR ''1''"
  by code_simp+

text \<open>Parsers that return whatever they read: one rule for each way they are put together.\<close>

definition returns :: "'a outcome \<Rightarrow> bool" where
  "returns x \<longleftrightarrow> (\<exists>a. x = Inr a)"

lemma returns_Inr: "returns (Inr a)"
  by (simp add: returns_def)

lemma returns_if: "(b \<Longrightarrow> returns x) \<Longrightarrow> (\<not> b \<Longrightarrow> returns y) \<Longrightarrow> returns (if b then x else y)"
  by simp

lemma returns_looks: "i + length s \<le> length d \<Longrightarrow> (\<And>eq. returns (f eq)) \<Longrightarrow> returns (bind_out (looks d i s) f)"
  by (simp add: looks_inside)

lemma returns_method_if: "i + length s \<le> length d \<Longrightarrow> returns (method_if unk d i s m)"
  by (simp add: method_if_inside returns_def)

lemma returns_char_at: "i < length d \<Longrightarrow> (\<And>c. returns (f c)) \<Longrightarrow> returns (bind_out (char_at d i) f)"
  by simp

lemmas returns_intros = returns_Inr returns_if returns_looks returns_method_if returns_char_at

end
