(* ===== verification/HttpFirstLine.thy ===== *)
theory HttpFirstLine
  imports TextLine
begin

text \<open>
  The first lines of HTTP messages (\<open>HttpLayer.cpp\<close>: the classes \<open>HttpRequestFirstLine\<close> and
  \<open>HttpResponseFirstLine\<close>): what they are built as and how they are read back. The data of the
  layer are the payload, and a read behind it is a fault. The status codes are the ordinals of
  their enumeration, which index the tables of the numbers and reason phrases.
\<close>

section \<open>Methods and versions\<close>

datatype http_method = HttpGET | HttpHEAD | HttpPOST | HttpPUT | HttpDELETE | HttpTRACE | HttpOPTIONS | HttpCONNECT
  | HttpPATCH | HttpMethodUnknown

datatype http_version = ZeroDotNine | OneDotZero | OneDotOne | HttpVersionUnknown

text \<open>The tables have no entry for the unknown method and version.\<close>

fun MethodEnumToString :: "http_method \<Rightarrow> string outcome" where
  "MethodEnumToString HttpGET = Inr ''GET''"
| "MethodEnumToString HttpHEAD = Inr ''HEAD''"
| "MethodEnumToString HttpPOST = Inr ''POST''"
| "MethodEnumToString HttpPUT = Inr ''PUT''"
| "MethodEnumToString HttpDELETE = Inr ''DELETE''"
| "MethodEnumToString HttpTRACE = Inr ''TRACE''"
| "MethodEnumToString HttpOPTIONS = Inr ''OPTIONS''"
| "MethodEnumToString HttpCONNECT = Inr ''CONNECT''"
| "MethodEnumToString HttpPATCH = Inr ''PATCH''"
| "MethodEnumToString HttpMethodUnknown = Inl OutOfBounds"

fun VersionEnumToString :: "http_version \<Rightarrow> string outcome" where
  "VersionEnumToString ZeroDotNine = Inr ''0.9''"
| "VersionEnumToString OneDotZero = Inr ''1.0''"
| "VersionEnumToString OneDotOne = Inr ''1.1''"
| "VersionEnumToString HttpVersionUnknown = Inl OutOfBounds"

section \<open>Status codes\<close>

text \<open>The enumerators by their ordinals, and the two tables.\<close>

abbreviation (input) Http100Continue :: nat where "Http100Continue \<equiv> 0"
abbreviation (input) Http101SwitchingProtocols :: nat where "Http101SwitchingProtocols \<equiv> 1"
abbreviation (input) Http102Processing :: nat where "Http102Processing \<equiv> 2"
abbreviation (input) Http200OK :: nat where "Http200OK \<equiv> 3"
abbreviation (input) Http201Created :: nat where "Http201Created \<equiv> 4"
abbreviation (input) Http202Accepted :: nat where "Http202Accepted \<equiv> 5"
abbreviation (input) Http203NonAuthoritativeInformation :: nat where "Http203NonAuthoritativeInformation \<equiv> 6"
abbreviation (input) Http204NoContent :: nat where "Http204NoContent \<equiv> 7"
abbreviation (input) Http205ResetContent :: nat where "Http205ResetContent \<equiv> 8"
abbreviation (input) Http206PartialContent :: nat where "Http206PartialContent \<equiv> 9"
abbreviation (input) Http207MultiStatus :: nat where "Http207MultiStatus \<equiv> 10"
abbreviation (input) Http208AlreadyReported :: nat where "Http208AlreadyReported \<equiv> 11"
abbreviation (input) Http226IMUsed :: nat where "Http226IMUsed \<equiv> 12"
abbreviation (input) Http300MultipleChoices :: nat where "Http300MultipleChoices \<equiv> 13"
abbreviation (input) Http301MovedPermanently :: nat where "Http301MovedPermanently \<equiv> 14"
abbreviation (input) Http302 :: nat where "Http302 \<equiv> 15"
abbreviation (input) Http303SeeOther :: nat where "Http303SeeOther \<equiv> 16"
abbreviation (input) Http304NotModified :: nat where "Http304NotModified \<equiv> 17"
abbreviation (input) Http305UseProxy :: nat where "Http305UseProxy \<equiv> 18"
abbreviation (input) Http306SwitchProxy :: nat where "Http306SwitchProxy \<equiv> 19"
abbreviation (input) Http307TemporaryRedirect :: nat where "Http307TemporaryRedirect \<equiv> 20"
abbreviation (input) Http308PermanentRedirect :: nat where "Http308PermanentRedirect \<equiv> 21"
abbreviation (input) Http400BadRequest :: nat where "Http400BadRequest \<equiv> 22"
abbreviation (input) Http401Unauthorized :: nat where "Http401Unauthorized \<equiv> 23"
abbreviation (input) Http402PaymentRequired :: nat where "Http402PaymentRequired \<equiv> 24"
abbreviation (input) Http403Forbidden :: nat where "Http403Forbidden \<equiv> 25"
abbreviation (input) Http404NotFound :: nat where "Http404NotFound \<equiv> 26"
abbreviation (input) Http405MethodNotAllowed :: nat where "Http405MethodNotAllowed \<equiv> 27"
abbreviation (input) Http406NotAcceptable :: nat where "Http406NotAcceptable \<equiv> 28"
abbreviation (input) Http407ProxyAuthenticationRequired :: nat where "Http407ProxyAuthenticationRequired \<equiv> 29"
abbreviation (input) Http408RequestTimeout :: nat where "Http408RequestTimeout \<equiv> 30"
abbreviation (input) Http409Conflict :: nat where "Http409Conflict \<equiv> 31"
abbreviation (input) Http410Gone :: nat where "Http410Gone \<equiv> 32"
abbreviation (input) Http411LengthRequired :: nat where "Http411LengthRequired \<equiv> 33"
abbreviation (input) Http412PreconditionFailed :: nat where "Http412PreconditionFailed \<equiv> 34"
abbreviation (input) Http413RequestEntityTooLarge :: nat where "Http413RequestEntityTooLarge \<equiv> 35"
abbreviation (input) Http414RequestURITooLong :: nat where "Http414RequestURITooLong \<equiv> 36"
abbreviation (input) Http415UnsupportedMediaType :: nat where "Http415UnsupportedMediaType \<equiv> 37"
abbreviation (input) Http416RequestedRangeNotSatisfiable :: nat where "Http416RequestedRangeNotSatisfiable \<equiv> 38"
abbreviation (input) Http417ExpectationFailed :: nat where "Http417ExpectationFailed \<equiv> 39"
abbreviation (input) Http418Imateapot :: nat where "Http418Imateapot \<equiv> 40"
abbreviation (input) Http419AuthenticationTimeout :: nat where "Http419AuthenticationTimeout \<equiv> 41"
abbreviation (input) Http420 :: nat where "Http420 \<equiv> 42"
abbreviation (input) Http422UnprocessableEntity :: nat where "Http422UnprocessableEntity \<equiv> 43"
abbreviation (input) Http423Locked :: nat where "Http423Locked \<equiv> 44"
abbreviation (input) Http424FailedDependency :: nat where "Http424FailedDependency \<equiv> 45"
abbreviation (input) Http426UpgradeRequired :: nat where "Http426UpgradeRequired \<equiv> 46"
abbreviation (input) Http428PreconditionRequired :: nat where "Http428PreconditionRequired \<equiv> 47"
abbreviation (input) Http429TooManyRequests :: nat where "Http429TooManyRequests \<equiv> 48"
abbreviation (input) Http431RequestHeaderFieldsTooLarge :: nat where "Http431RequestHeaderFieldsTooLarge \<equiv> 49"
abbreviation (input) Http440LoginTimeout :: nat where "Http440LoginTimeout \<equiv> 50"
abbreviation (input) Http444NoResponse :: nat where "Http444NoResponse \<equiv> 51"
abbreviation (input) Http449RetryWith :: nat where "Http449RetryWith \<equiv> 52"
abbreviation (input) Http450BlockedByWindowsParentalControls :: nat where "Http450BlockedByWindowsParentalControls \<equiv> 53"
abbreviation (input) Http451 :: nat where "Http451 \<equiv> 54"
abbreviation (input) Http494RequestHeaderTooLarge :: nat where "Http494RequestHeaderTooLarge \<equiv> 55"
abbreviation (input) Http495CertError :: nat where "Http495CertError \<equiv> 56"
abbreviation (input) Http496NoCert :: nat where "Http496NoCert \<equiv> 57"
abbreviation (input) Http497HTTPtoHTTPS :: nat where "Http497HTTPtoHTTPS \<equiv> 58"
abbreviation (input) Http498TokenExpiredInvalid :: nat where "Http498TokenExpiredInvalid \<equiv> 59"
abbreviation (input) Http499 :: nat where "Http499 \<equiv> 60"
abbreviation (input) Http500InternalServerError :: nat where "Http500InternalServerError \<equiv> 61"
abbreviation (input) Http501NotImplemented :: nat where "Http501NotImplemented \<equiv> 62"
abbreviation (input) Http502BadGateway :: nat where "Http502BadGateway \<equiv> 63"
abbreviation (input) Http503ServiceUnavailable :: nat where "Http503ServiceUnavailable \<equiv> 64"
abbreviation (input) Http504GatewayTimeout :: nat where "Http504GatewayTimeout \<equiv> 65"
abbreviation (input) Http505HTTPVersionNotSupported :: nat where "Http505HTTPVersionNotSupported \<equiv> 66"
abbreviation (input) Http506VariantAlsoNegotiates :: nat where "Http506VariantAlsoNegotiates \<equiv> 67"
abbreviation (input) Http507InsufficientStorage :: nat where "Http507InsufficientStorage \<equiv> 68"
abbreviation (input) Http508LoopDetected :: nat where "Http508LoopDetected \<equiv> 69"
abbreviation (input) Http509BandwidthLimitExceeded :: nat where "Http509BandwidthLimitExceeded \<equiv> 70"
abbreviation (input) Http510NotExtended :: nat where "Http510NotExtended \<equiv> 71"
abbreviation (input) Http511NetworkAuthenticationRequired :: nat where "Http511NetworkAuthenticationRequired \<equiv> 72"
abbreviation (input) Http520OriginError :: nat where "Http520OriginError \<equiv> 73"
abbreviation (input) Http521WebServerIsDown :: nat where "Http521WebServerIsDown \<equiv> 74"
abbreviation (input) Http522ConnectionTimedOut :: nat where "Http522ConnectionTimedOut \<equiv> 75"
abbreviation (input) Http523ProxyDeclinedRequest :: nat where "Http523ProxyDeclinedRequest \<equiv> 76"
abbreviation (input) Http524aTimeoutOccurred :: nat where "Http524aTimeoutOccurred \<equiv> 77"
abbreviation (input) Http598NetworkReadTimeoutError :: nat where "Http598NetworkReadTimeoutError \<equiv> 78"
abbreviation (input) Http599NetworkConnectTimeoutError :: nat where "Http599NetworkConnectTimeoutError \<equiv> 79"
abbreviation (input) HttpStatusCodeUnknown :: nat where "HttpStatusCodeUnknown \<equiv> 80"

definition httpStatusCodeEnumToInt :: "nat list" where
  "httpStatusCodeEnumToInt =
    [100, 101, 102, 200, 201, 202, 203, 204, 205, 206, 207, 208, 226, 300, 301, 302, 303, 304,
     305, 306, 307, 308, 400, 401, 402, 403, 404, 405, 406, 407, 408, 409, 410, 411, 412, 413,
     414, 415, 416, 417, 418, 419, 420, 422, 423, 424, 426, 428, 429, 431, 440, 444, 449, 450,
     451, 494, 495, 496, 497, 498, 499, 500, 501, 502, 503, 504, 505, 506, 507, 508, 509, 510,
     511, 520, 521, 522, 523, 524, 598, 599]"

definition httpStatusCodeEnumToString :: "string list" where
  "httpStatusCodeEnumToString =
    [''Continue'', ''Switching Protocols'', ''Processing'', ''OK'', ''Created'', ''Accepted'',
     ''Non-Authoritative Information'', ''No Content'', ''Reset Content'',
     ''Partial Content'', ''Multi-Status'', ''Already Reported'', ''IM Used'',
     ''Multiple Choices'', ''Moved Permanently'', ''Found'', ''See Other'', ''Not Modified'',
     ''Use Proxy'', ''Switch Proxy'', ''Temporary Redirect'', ''Permanent Redirect'',
     ''Bad Request'', ''Unauthorized'', ''Payment Required'', ''Forbidden'', ''Not Found'',
     ''Method Not Allowed'', ''Not Acceptable'', ''Proxy Authentication Required'',
     ''Request Timeout'', ''Conflict'', ''Gone'', ''Length Required'',
     ''Precondition Failed'', ''Request Entity Too Large'', ''Request-URI Too Long'',
     ''Unsupported Media Type'', ''Requested Range Not Satisfiable'', ''Expectation Failed'',
     (''I'' @ [CHR 0x27] @ ''m a teapot''), ''Authentication Timeout'', ''Method Failure'',
     ''Unprocessable Entity'', ''Locked'', ''Failed Dependency'', ''Upgrade Required'',
     ''Precondition Required'', ''Too Many Requests'', ''Request Header Fields Too Large'',
     ''Login Timeout'', ''No Response'', ''Retry With'',
     ''Blocked by Windows Parental Controls'', ''Unavailable For Legal Reasons'',
     ''Request Header Too Large'', ''Cert Error'', ''No Cert'', ''HTTP to HTTPS'',
     ''Token expired/invalid'', ''Client Closed Request'', ''Internal Server Error'',
     ''Not Implemented'', ''Bad Gateway'', ''Service Unavailable'', ''Gateway Timeout'',
     ''HTTP Version Not Supported'', ''Variant Also Negotiates'', ''Insufficient Storage'',
     ''Loop Detected'', ''Bandwidth Limit Exceeded'', ''Not Extended'',
     ''Network Authentication Required'', ''Origin Error'', ''Web server is down'',
     ''Connection timed out'', ''Proxy Declined Request'', ''A timeout occurred'',
     ''Network read timeout error'', ''Network connect timeout error'']"

text \<open>The inner switches, by the first digit. With 4 and 3 the third digit is not looked at.\<close>

definition http_1xx :: "char \<Rightarrow> char \<Rightarrow> nat" where
  "http_1xx b c =
     (lookup_status HttpStatusCodeUnknown
       [(''00'', Http100Continue), (''01'', Http101SwitchingProtocols),
        (''02'', Http102Processing)]
       [b, c])"

definition http_2xx :: "char \<Rightarrow> char \<Rightarrow> nat" where
  "http_2xx b c =
     (lookup_status HttpStatusCodeUnknown
       [(''00'', Http200OK), (''01'', Http201Created), (''02'', Http202Accepted),
        (''03'', Http203NonAuthoritativeInformation), (''04'', Http204NoContent),
        (''05'', Http205ResetContent), (''06'', Http206PartialContent),
        (''07'', Http207MultiStatus), (''08'', Http208AlreadyReported),
        (''26'', Http226IMUsed)]
       [b, c])"

definition http_3xx :: "char \<Rightarrow> char \<Rightarrow> nat" where
  "http_3xx b c =
     (lookup_status HttpStatusCodeUnknown
       [(''00'', Http300MultipleChoices), (''01'', Http301MovedPermanently),
        (''02'', Http302), (''03'', Http303SeeOther), (''04'', Http304NotModified),
        (''05'', Http305UseProxy), (''06'', Http306SwitchProxy),
        (''07'', Http307TemporaryRedirect), (''08'', Http308PermanentRedirect)]
       [b, c])"

definition http_4xx :: "char \<Rightarrow> char \<Rightarrow> nat" where
  "http_4xx b c =
     (if b = CHR 0x33 then Http431RequestHeaderFieldsTooLarge
      else lookup_status HttpStatusCodeUnknown
       [(''00'', Http400BadRequest), (''01'', Http401Unauthorized),
        (''02'', Http402PaymentRequired), (''03'', Http403Forbidden),
        (''04'', Http404NotFound), (''05'', Http405MethodNotAllowed),
        (''06'', Http406NotAcceptable), (''07'', Http407ProxyAuthenticationRequired),
        (''08'', Http408RequestTimeout), (''09'', Http409Conflict), (''10'', Http410Gone),
        (''11'', Http411LengthRequired), (''12'', Http412PreconditionFailed),
        (''13'', Http413RequestEntityTooLarge), (''14'', Http414RequestURITooLong),
        (''15'', Http415UnsupportedMediaType), (''16'', Http416RequestedRangeNotSatisfiable),
        (''17'', Http417ExpectationFailed), (''18'', Http418Imateapot),
        (''19'', Http419AuthenticationTimeout), (''20'', Http420),
        (''22'', Http422UnprocessableEntity), (''23'', Http423Locked),
        (''24'', Http424FailedDependency), (''26'', Http426UpgradeRequired),
        (''28'', Http428PreconditionRequired), (''29'', Http429TooManyRequests),
        (''40'', Http440LoginTimeout), (''44'', Http444NoResponse),
        (''49'', Http449RetryWith), (''50'', Http450BlockedByWindowsParentalControls),
        (''51'', Http451), (''94'', Http494RequestHeaderTooLarge),
        (''95'', Http495CertError), (''96'', Http496NoCert), (''97'', Http497HTTPtoHTTPS),
        (''98'', Http498TokenExpiredInvalid), (''99'', Http499)]
       [b, c])"

definition http_5xx :: "char \<Rightarrow> char \<Rightarrow> nat" where
  "http_5xx b c =
     (lookup_status HttpStatusCodeUnknown
       [(''00'', Http500InternalServerError), (''01'', Http501NotImplemented),
        (''02'', Http502BadGateway), (''03'', Http503ServiceUnavailable),
        (''04'', Http504GatewayTimeout), (''05'', Http505HTTPVersionNotSupported),
        (''06'', Http506VariantAlsoNegotiates), (''07'', Http507InsufficientStorage),
        (''08'', Http508LoopDetected), (''09'', Http509BandwidthLimitExceeded),
        (''10'', Http510NotExtended), (''11'', Http511NetworkAuthenticationRequired),
        (''20'', Http520OriginError), (''21'', Http521WebServerIsDown),
        (''22'', Http522ConnectionTimedOut), (''23'', Http523ProxyDeclinedRequest),
        (''24'', Http524aTimeoutOccurred), (''98'', Http598NetworkReadTimeoutError),
        (''99'', Http599NetworkConnectTimeoutError)]
       [b, c])"

section \<open>Requests\<close>

text \<open>The two switches: on the second character of the methods with P, and on the first.\<close>

definition http_method_P :: "string \<Rightarrow> char \<Rightarrow> http_method outcome" where
  "http_method_P d c1 =
     (if c1 = CHR ''U'' then method_if HttpMethodUnknown d 2 ''T '' HttpPUT
      else if c1 = CHR ''O'' then (if length d < 5 then Inr HttpMethodUnknown else method_if HttpMethodUnknown d 2 ''ST '' HttpPOST)
      else if c1 = CHR ''A'' then (if length d < 6 then Inr HttpMethodUnknown else method_if HttpMethodUnknown d 2 ''TCH '' HttpPATCH)
      else Inr HttpMethodUnknown)"

definition http_method_by :: "string \<Rightarrow> char \<Rightarrow> http_method outcome" where
  "http_method_by d c =
     (if c = CHR ''G'' then method_if HttpMethodUnknown d 1 ''ET '' HttpGET
      else if c = CHR ''D'' then (if length d < 7 then Inr HttpMethodUnknown else method_if HttpMethodUnknown d 1 ''ELETE '' HttpDELETE)
      else if c = CHR ''C'' then (if length d < 8 then Inr HttpMethodUnknown else method_if HttpMethodUnknown d 1 ''ONNECT '' HttpCONNECT)
      else if c = CHR ''T'' then (if length d < 6 then Inr HttpMethodUnknown else method_if HttpMethodUnknown d 1 ''RACE '' HttpTRACE)
      else if c = CHR ''H'' then (if length d < 5 then Inr HttpMethodUnknown else method_if HttpMethodUnknown d 1 ''EAD '' HttpHEAD)
      else if c = CHR ''O'' then (if length d < 8 then Inr HttpMethodUnknown else method_if HttpMethodUnknown d 1 ''PTIONS '' HttpOPTIONS)
      else if c = CHR ''P'' then bind_out (char_at d 1) (http_method_P d)
      else Inr HttpMethodUnknown)"

definition http_parseMethod :: "string \<Rightarrow> http_method outcome" where
  "http_parseMethod d =
     (if length d < 4 then Inr HttpMethodUnknown else bind_out (char_at d 0) (http_method_by d))"

text \<open>The digits of a version at an index: \<open>0.9\<close>, \<open>1.0\<close> or \<open>1.1\<close>.\<close>

definition http_version_at :: "string \<Rightarrow> nat \<Rightarrow> http_version outcome" where
  "http_version_at d i =
     bind_out (char_at d i) (\<lambda>c.
       if c = CHR ''0'' then bind_out (looks d (i + 1) ''.9'') (\<lambda>eq. Inr (if eq then ZeroDotNine else HttpVersionUnknown))
       else if c = CHR ''1'' then
         bind_out (looks d (i + 1) ''.0'') (\<lambda>eq0.
           if eq0 then Inr OneDotZero
           else bind_out (looks d (i + 1) ''.1'') (\<lambda>eq1. Inr (if eq1 then OneDotOne else HttpVersionUnknown)))
       else Inr HttpVersionUnknown)"

text \<open>
  \<open>parseVersion\<close> of a request gives the version and its offset, -1 for none. The end of the version is
  cut to 16 bits before it is compared with the length.
\<close>

definition http_parseVersion :: "(string \<Rightarrow> string \<Rightarrow> nat option) \<Rightarrow> string \<Rightarrow> nat \<Rightarrow> (http_version \<times> int) outcome" where
  "http_parseVersion memmem d uriOffset =
     (case memmem (drop uriOffset d) '' HTTP/'' of
        None \<Rightarrow> Inr (HttpVersionUnknown, -1)
      | Some i \<Rightarrow>
          let verPos = uriOffset + i
          in if (verPos + 9) mod 65536 > length d then Inr (HttpVersionUnknown, -1)
             else bind_out (http_version_at d (verPos + 6)) (\<lambda>v. Inr (v, int (verPos + 6))))"

record http_request_line =
  rq_method :: http_method
  rq_version :: http_version
  rq_uriOffset :: int
  rq_versionOffset :: int
  rq_firstLineEnd :: nat
  rq_isComplete :: bool

definition HttpRequestFirstLine_parse ::
    "(string \<Rightarrow> string \<Rightarrow> nat option) \<Rightarrow> string \<Rightarrow> http_request_line outcome" where
  "HttpRequestFirstLine_parse memmem d =
     bind_out (http_parseMethod d) (\<lambda>m.
       if m = HttpMethodUnknown then
         Inr \<lparr>rq_method = m, rq_version = HttpVersionUnknown, rq_uriOffset = -1, rq_versionOffset = -1,
              rq_firstLineEnd = length d, rq_isComplete = False\<rparr>
       else bind_out (MethodEnumToString m) (\<lambda>s.
         let u = length s + 1
         in bind_out (http_parseVersion memmem d u) (\<lambda>(v, vo).
              let line = \<lparr>rq_method = m, rq_version = v, rq_uriOffset = int u, rq_versionOffset = vo,
                          rq_firstLineEnd = length d, rq_isComplete = False\<rparr>
              in if vo < 0 then Inr line
                 else Inr (case memchr LF (drop (nat vo) d) of
                             Some i \<Rightarrow> line\<lparr>rq_firstLineEnd := nat vo + i + 1, rq_isComplete := True\<rparr>
                           | None \<Rightarrow> line))))"

text \<open>The constructor that builds a request, with the data of the layer.\<close>

definition HttpRequestFirstLine_build :: "http_method \<Rightarrow> http_version \<Rightarrow> string \<Rightarrow> (http_request_line \<times> string) outcome" where
  "HttpRequestFirstLine_build method version uri =
     (if method = HttpMethodUnknown then Inl (Uncaught ''Method supplied was HttpMethodUnknown'')
      else if version = HttpVersionUnknown then Inl (Uncaught ''Version supplied was HttpVersionUnknown'')
      else bind_out (MethodEnumToString method) (\<lambda>s. bind_out (VersionEnumToString version) (\<lambda>v.
        let firstLine = s @ '' '' @ uri @ '' '' @ ''HTTP/'' @ v @ [CR, LF]; u = length s + 1
        in Inr (\<lparr>rq_method = method, rq_version = version, rq_uriOffset = int u, rq_versionOffset = int (u + length uri + 6),
                 rq_firstLineEnd = length firstLine, rq_isComplete = True\<rparr>, firstLine))))"

definition http_getUri :: "http_request_line \<Rightarrow> string \<Rightarrow> string" where
  "http_getUri l d =
     (if rq_uriOffset l \<noteq> -1 \<and> rq_versionOffset l \<noteq> -1
      then take (nat (rq_versionOffset l - 6 - rq_uriOffset l)) (drop (nat (rq_uriOffset l)) d) else '''')"

section \<open>Responses\<close>

definition http_response_version :: "string \<Rightarrow> http_version outcome" where
  "http_response_version d =
     (if length d < 8 then Inr HttpVersionUnknown
      else bind_out (looks d 0 ''HTTP/'') (\<lambda>eq. if \<not> eq then Inr HttpVersionUnknown else http_version_at d 5))"

definition http_validateStatusCode :: "string \<Rightarrow> nat \<Rightarrow> nat \<Rightarrow> nat outcome" where
  "http_validateStatusCode d i potentialCode =
     bind_out (char_at d i) (\<lambda>c. Inr (if c \<noteq> CHR '' '' then HttpStatusCodeUnknown else potentialCode))"

definition http_status_class :: "char \<Rightarrow> char \<Rightarrow> char \<Rightarrow> nat" where
  "http_status_class a b c =
     (if a = CHR ''1'' then http_1xx b c else if a = CHR ''2'' then http_2xx b c else if a = CHR ''3'' then http_3xx b c
      else if a = CHR ''4'' then http_4xx b c else if a = CHR ''5'' then http_5xx b c else HttpStatusCodeUnknown)"

definition http_parseStatusCode :: "string \<Rightarrow> nat outcome" where
  "http_parseStatusCode d =
     bind_out (http_response_version d) (\<lambda>v.
       if v = HttpVersionUnknown then Inr HttpStatusCodeUnknown
       else if length d < 12 then Inr HttpStatusCodeUnknown
       else let s = http_status_class (d ! 9) (d ! 10) (d ! 11)
            in if s = HttpStatusCodeUnknown then Inr s else http_validateStatusCode d 12 s)"

record http_response_line =
  rs_version :: http_version
  rs_statusCode :: nat
  rs_firstLineEnd :: nat
  rs_isComplete :: bool

definition HttpResponseFirstLine_parse :: "string \<Rightarrow> http_response_line outcome" where
  "HttpResponseFirstLine_parse d =
     bind_out (http_response_version d) (\<lambda>v.
     bind_out (if v = HttpVersionUnknown then Inr HttpStatusCodeUnknown else http_parseStatusCode d) (\<lambda>s.
       Inr (case memchr LF d of
              Some i \<Rightarrow> \<lparr>rs_version = v, rs_statusCode = s, rs_firstLineEnd = i + 1, rs_isComplete = True\<rparr>
            | None \<Rightarrow> \<lparr>rs_version = v, rs_statusCode = s, rs_firstLineEnd = length d, rs_isComplete = False\<rparr>)))"

definition http_getStatusCodeAsInt :: "http_response_line \<Rightarrow> nat outcome" where
  "http_getStatusCodeAsInt l =
     (if rs_statusCode l < length httpStatusCodeEnumToInt then Inr (httpStatusCodeEnumToInt ! rs_statusCode l) else Inl OutOfBounds)"

definition HttpResponseFirstLine_build :: "http_version \<Rightarrow> nat \<Rightarrow> string \<Rightarrow> (http_response_line \<times> string) outcome" where
  "HttpResponseFirstLine_build version statusCode statusCodeString =
     (if statusCode = HttpStatusCodeUnknown then Inl (Uncaught ''Status code supplied was HttpStatusCodeUnknown'')
      else if version = HttpVersionUnknown then Inl (Uncaught ''Version supplied was HttpVersionUnknown'')
      else if statusCode \<ge> length httpStatusCodeEnumToInt then Inl OutOfBounds
      else bind_out (VersionEnumToString version) (\<lambda>v.
        let reason = (if statusCodeString = '''' then httpStatusCodeEnumToString ! statusCode else statusCodeString);
            firstLine = ''HTTP/'' @ v @ '' '' @ nat_str (httpStatusCodeEnumToInt ! statusCode) @ '' '' @ reason @ [CR, LF]
        in Inr (\<lparr>rs_version = version, rs_statusCode = statusCode, rs_firstLineEnd = length firstLine, rs_isComplete = True\<rparr>,
                firstLine)))"

section \<open>Reading back\<close>

lemma http_numbers_three: "list_all (\<lambda>n. 100 \<le> n \<and> n < 1000) httpStatusCodeEnumToInt"
  by (simp add: httpStatusCodeEnumToInt_def)

lemma http_lengths: "length httpStatusCodeEnumToInt = 80" "length httpStatusCodeEnumToString = 80"
  by (simp_all add: httpStatusCodeEnumToInt_def httpStatusCodeEnumToString_def)

lemma http_codes_checked:
  "map (\<lambda>n. http_status_class (digit_char (n div 100)) (digit_char (n div 10 mod 10)) (digit_char (n mod 10))) httpStatusCodeEnumToInt
     = [0..<80]"
  by (simp add: httpStatusCodeEnumToInt_def upt_conv_Cons digit_chars http_status_class_def lookup_status_def
      http_1xx_def http_2xx_def http_3xx_def http_4xx_def http_5xx_def del: upt_Suc)

lemma http_phrases_checked: "list_all (\<lambda>p. p \<noteq> [] \<and> LF \<notin> set p) httpStatusCodeEnumToString"
  by (simp add: httpStatusCodeEnumToString_def)

lemma http_method_returns: "4 \<le> length d \<Longrightarrow> returns (http_method_by d c)"
  unfolding http_method_by_def http_method_P_def [abs_def] by (intro returns_intros) simp_all

lemma http_parseMethod_total: "\<exists>m. http_parseMethod d = Inr m"
  unfolding returns_def [symmetric] http_parseMethod_def by (intro returns_intros http_method_returns) linarith+

lemma http_method_by_cases:
  "http_method_by d (CHR ''G'') = method_if HttpMethodUnknown d 1 ''ET '' HttpGET"
  "http_method_by d (CHR ''D'') = (if length d < 7 then Inr HttpMethodUnknown else method_if HttpMethodUnknown d 1 ''ELETE '' HttpDELETE)"
  "http_method_by d (CHR ''C'') = (if length d < 8 then Inr HttpMethodUnknown else method_if HttpMethodUnknown d 1 ''ONNECT '' HttpCONNECT)"
  "http_method_by d (CHR ''T'') = (if length d < 6 then Inr HttpMethodUnknown else method_if HttpMethodUnknown d 1 ''RACE '' HttpTRACE)"
  "http_method_by d (CHR ''H'') = (if length d < 5 then Inr HttpMethodUnknown else method_if HttpMethodUnknown d 1 ''EAD '' HttpHEAD)"
  "http_method_by d (CHR ''O'') = (if length d < 8 then Inr HttpMethodUnknown else method_if HttpMethodUnknown d 1 ''PTIONS '' HttpOPTIONS)"
  "http_method_by d (CHR ''P'') = bind_out (char_at d 1) (http_method_P d)"
  by (simp_all add: http_method_by_def)

lemma http_method_P_cases:
  "http_method_P d (CHR ''U'') = method_if HttpMethodUnknown d 2 ''T '' HttpPUT"
  "http_method_P d (CHR ''O'') = (if length d < 5 then Inr HttpMethodUnknown else method_if HttpMethodUnknown d 2 ''ST '' HttpPOST)"
  "http_method_P d (CHR ''A'') = (if length d < 6 then Inr HttpMethodUnknown else method_if HttpMethodUnknown d 2 ''TCH '' HttpPATCH)"
  by (simp_all add: http_method_P_def)

lemma http_method_other:
  "c \<notin> set ''UOA'' \<Longrightarrow> http_method_P d c = Inr HttpMethodUnknown"
  "c \<notin> set ''GDCTHOP'' \<Longrightarrow> http_method_by d c = Inr HttpMethodUnknown"
  by (simp_all add: http_method_P_def http_method_by_def)

lemma http_method_of:
  assumes "\<not> length d < 4"
  shows "http_parseMethod d = http_method_by d (d ! 0)"
    "d ! 0 = CHR ''P'' \<Longrightarrow> http_parseMethod d = http_method_P d (d ! 1)"
proof -
  have "0 < length d" "1 < length d" using assms by linarith+
  then have "char_at d 0 = Inr (d ! 0)" "char_at d 1 = Inr (d ! 1)" by (simp_all add: char_at_def)
  then show "http_parseMethod d = http_method_by d (d ! 0)"
    "d ! 0 = CHR ''P'' \<Longrightarrow> http_parseMethod d = http_method_P d (d ! 1)"
    using assms by (simp_all only: http_parseMethod_def if_False bind_out_simps http_method_by_cases)
qed

lemma http_method_built:
  assumes "MethodEnumToString m = Inr s"
  shows "http_parseMethod (s @ '' '' @ r) = Inr m"
proof -
  have l: "\<not> length (s @ '' '' @ r) < 4" using assms by (cases m) auto
  have by_s: "http_parseMethod (s @ '' '' @ r) = http_method_by (s @ '' '' @ r) ((s @ '' '' @ r) ! 0)"
    using http_method_of(1) [OF l] .
  show ?thesis
  proof (cases "(s @ '' '' @ r) ! 0 = CHR ''P''")
    case True
    have by_p: "http_parseMethod (s @ '' '' @ r) = http_method_P (s @ '' '' @ r) ((s @ '' '' @ r) ! 1)"
      using http_method_of(2) [OF l True] .
    show ?thesis unfolding by_p using assms True by (cases m) (auto simp: http_method_P_cases method_if_inside)
  next
    case False
    show ?thesis unfolding by_s using assms False by (cases m) (auto simp: http_method_by_cases method_if_inside)
  qed
qed

lemma http_method_starts:
  assumes "http_parseMethod d = Inr m" "m \<noteq> HttpMethodUnknown"
  obtains s where "MethodEnumToString m = Inr s" "take (length s + 1) d = s @ '' ''"
proof -
  have l: "\<not> length d < 4" using assms by (auto simp: http_parseMethod_def)
  then have ne: "d \<noteq> []" "1 < length d" by auto
  have hb: "http_method_by d (d ! 0) = Inr m" using assms(1) http_method_of(1) [OF l] by simp
  then have "d ! 0 \<in> set ''GDCTHOP''" using assms(2) http_method_other(2) [of "d ! 0" d] by (metis Inr_inject)
  then consider "d ! 0 = CHR ''G''" | "d ! 0 = CHR ''D''" | "d ! 0 = CHR ''C''" | "d ! 0 = CHR ''T''" | "d ! 0 = CHR ''H''"
    | "d ! 0 = CHR ''O''" | "d ! 0 = CHR ''P''" by auto
  then show thesis
  proof cases
    case 1
    then show thesis using hb assms(2) that [of "''GET''"] starts_first [OF ne(1) 1, of 3 "''ET ''"] method_branch_4 [OF l, of 1 "''ET ''" HttpMethodUnknown]
      by (auto simp: http_method_by_cases numeral_eq_Suc split: if_splits)
  next
    case 2
    then show thesis using hb assms(2) that [of "''DELETE''"] starts_first [OF ne(1) 2, of 6 "''ELETE ''"] method_branch [of 7 1 "''ELETE ''" d HttpMethodUnknown]
      by (auto simp: http_method_by_cases numeral_eq_Suc split: if_splits)
  next
    case 3
    then show thesis using hb assms(2) that [of "''CONNECT''"] starts_first [OF ne(1) 3, of 7 "''ONNECT ''"] method_branch [of 8 1 "''ONNECT ''" d HttpMethodUnknown]
      by (auto simp: http_method_by_cases numeral_eq_Suc split: if_splits)
  next
    case 4
    then show thesis using hb assms(2) that [of "''TRACE''"] starts_first [OF ne(1) 4, of 5 "''RACE ''"] method_branch [of 6 1 "''RACE ''" d HttpMethodUnknown]
      by (auto simp: http_method_by_cases numeral_eq_Suc split: if_splits)
  next
    case 5
    then show thesis using hb assms(2) that [of "''HEAD''"] starts_first [OF ne(1) 5, of 4 "''EAD ''"] method_branch [of 5 1 "''EAD ''" d HttpMethodUnknown]
      by (auto simp: http_method_by_cases numeral_eq_Suc split: if_splits)
  next
    case 6
    then show thesis using hb assms(2) that [of "''OPTIONS''"] starts_first [OF ne(1) 6, of 7 "''PTIONS ''"] method_branch [of 8 1 "''PTIONS ''" d HttpMethodUnknown]
      by (auto simp: http_method_by_cases numeral_eq_Suc split: if_splits)
  next
    case 7
    have bp: "http_method_P d (d ! 1) = Inr m" using assms(1) http_method_of(2) [OF l 7] by simp
    then have "d ! 1 \<in> set ''UOA''" using assms(2) http_method_other(1) [of "d ! 1" d] by (metis Inr_inject)
    then consider "d ! 1 = CHR ''U''" | "d ! 1 = CHR ''O''" | "d ! 1 = CHR ''A''" by auto
    then show thesis
    proof cases
      case 1
      then show thesis using bp assms(2) that [of "''PUT''"] starts_second [OF ne(2) 7 1, of 2 "''T ''"] method_branch_4 [OF l, of 2 "''T ''" HttpMethodUnknown]
        by (auto simp: http_method_P_cases numeral_eq_Suc split: if_splits)
    next
      case 2
      then show thesis using bp assms(2) that [of "''POST''"] starts_second [OF ne(2) 7 2, of 3 "''ST ''"] method_branch [of 5 2 "''ST ''" d HttpMethodUnknown]
        by (auto simp: http_method_P_cases numeral_eq_Suc split: if_splits)
    next
      case 3
      then show thesis using bp assms(2) that [of "''PATCH''"] starts_second [OF ne(2) 7 3, of 4 "''TCH ''"] method_branch [of 6 2 "''TCH ''" d HttpMethodUnknown]
        by (auto simp: http_method_P_cases numeral_eq_Suc split: if_splits)
    qed
  qed
qed

section \<open>Properties\<close>

text \<open>
  \<open>parseMethod\<close> recognises a method exactly when the data start with its name and a space.
\<close>

theorem http_method_recognised:
  "m \<noteq> HttpMethodUnknown \<Longrightarrow>
   http_parseMethod d = Inr m \<longleftrightarrow> (\<exists>s. MethodEnumToString m = Inr s \<and> take (length s + 1) d = s @ '' '')"
proof
  assume "\<exists>s. MethodEnumToString m = Inr s \<and> take (length s + 1) d = s @ '' ''"
  then obtain s where "MethodEnumToString m = Inr s" "take (length s + 1) d = s @ '' ''" by blast
  moreover have "d = take (length s + 1) d @ drop (length s + 1) d" by simp
  ultimately show "http_parseMethod d = Inr m" using http_method_built by (metis append.assoc)
qed (blast elim: http_method_starts)

theorem http_method_recognised_witness:
  "http_parseMethod ''PATCH /x'' = Inr HttpPATCH"
  using http_method_recognised [of HttpPATCH "''PATCH /x''"] by simp

lemma http_version_read:
  assumes "VersionEnumToString v = Inr w"
  shows "http_version_at (u @ w @ r) (length u) = Inr v" "length w = 3"
proof -
  have "char_at (u @ w @ r) (length u) = Inr (w ! 0)" using assms by (cases v) (auto simp: char_at_def nth_append)
  moreover have two: "looks (u @ w @ r) (length u + 1) [a, b] = Inr (w ! 1 = a \<and> w ! 2 = b)" for a b
  proof -
    from assms obtain x y z where w: "w = [x, y, z]" by (cases v) auto
    then have "char_at (u @ w @ r) (length u + 1) = Inr y" "char_at (u @ w @ r) (Suc (length u + 1)) = Inr z"
      by (simp_all add: char_at_def nth_append)
    then show ?thesis by (simp only: w looks.simps bind_out_simps) simp
  qed
  ultimately show "http_version_at (u @ w @ r) (length u) = Inr v"
    using assms by (cases v) (simp_all only: http_version_at_def two bind_out_simps VersionEnumToString.simps sum.inject, auto)
  show "length w = 3" using assms by (cases v) auto
qed

lemma request_line_read:
  assumes "memmem_documented mm" "HttpRequestFirstLine_build m v uri = Inr (l, d)" "CHR '' '' \<notin> set uri" "length d < 65536"
  shows "HttpRequestFirstLine_parse mm (d @ rest) = Inr l \<and> http_getUri l (d @ rest) = uri"
proof -
  from assms(2) obtain s w where sw: "MethodEnumToString m = Inr s" "VersionEnumToString v = Inr w" "m \<noteq> HttpMethodUnknown" "v \<noteq> HttpVersionUnknown"
    and d: "d = s @ '' '' @ uri @ '' HTTP/'' @ w @ [CR, LF]"
    and l: "l = \<lparr>rq_method = m, rq_version = v, rq_uriOffset = int (length s + 1), rq_versionOffset = int (length s + 1 + length uri + 6),
        rq_firstLineEnd = length d, rq_isComplete = True\<rparr>"
    by (auto simp: HttpRequestFirstLine_build_def Let_def split: if_splits)
  let ?u = "length s + 1" and ?vo = "length s + 1 + length uri + 6" and ?d = "d @ rest"
  have w3: "length w = 3" using http_version_read(2) [OF sw(2)] .
  have whole: "?d = s @ '' '' @ uri @ '' HTTP/'' @ w @ [CR, LF] @ rest" by (simp add: d)
  have known: "http_parseMethod ?d = Inr m" unfolding whole by (rule http_method_built [OF sw(1)])
  have "drop ?u ?d = uri @ '' HTTP/'' @ w @ [CR, LF] @ rest" by (simp add: whole)
  then have find: "mm (drop ?u ?d) '' HTTP/'' = Some (length uri)"
    using assms(1) str_find_spaced [OF assms(3), of "''HTTP/''"] by (simp add: memmem_documented_def)
  have dw: "?d = (s @ '' '' @ uri @ '' HTTP/'') @ w @ [CR, LF] @ rest" "length (s @ '' '' @ uri @ '' HTTP/'') = ?vo" by (simp_all add: d)
  then have version: "http_version_at ?d ?vo = Inr v" using http_version_read(1) [OF sw(2)] by metis
  have len: "length d = ?vo + 5" using w3 by (simp add: d)
  then have small: "(?u + length uri + 9) mod 65536 = ?u + length uri + 9" using assms(4) by (intro mod_less) linarith
  have parsed: "http_parseVersion mm ?d ?u = Inr (v, int ?vo)"
    unfolding http_parseVersion_def find option.case Let_def small using len version by (simp add: add.assoc)
  have "drop ?vo ?d = (w @ [CR]) @ LF # rest"
    by (subst dw(1), subst drop_length_append [OF dw(2)]) simp
  moreover have "LF \<notin> set (w @ [CR])" using sw(2) by (cases v) auto
  ultimately have "memchr LF (drop ?vo ?d) = Some (length (w @ [CR]))" by (metis memchr_append)
  then have "memchr LF (drop (nat (int ?vo)) ?d) = Some 4" using w3 by (simp only: nat_int) simp
  moreover have "nat (int ?vo) + 4 + 1 = length d" using len by simp
  ultimately have "HttpRequestFirstLine_parse mm ?d = Inr l"
    unfolding HttpRequestFirstLine_parse_def known bind_out_simps sw(1) Let_def parsed l using sw(3) by simp
  moreover have "http_getUri l ?d = uri"
  proof -
    have n: "nat (rq_uriOffset l) = ?u" "nat (rq_versionOffset l - 6 - rq_uriOffset l) = length uri" "rq_uriOffset l \<noteq> -1"
      "rq_versionOffset l \<noteq> -1" by (simp_all add: l)
    have "drop ?u ?d = uri @ '' HTTP/'' @ w @ [CR, LF] @ rest" by (simp add: whole)
    then show ?thesis by (simp add: http_getUri_def n)
  qed
  ultimately show ?thesis ..
qed

text \<open>
  A request line that is built and read back, whatever follows it, gives the same method, version,
  offsets and end, and the URI, if it holds no space and the line is shorter than 65536 bytes.
\<close>

theorem http_request_roundtrip:
  assumes "memmem_documented mm" "HttpRequestFirstLine_build m v uri = Inr (l, d)" "CHR '' '' \<notin> set uri" "length d < 65536"
  shows "HttpRequestFirstLine_parse mm (d @ rest) = Inr l \<and> http_getUri l (d @ rest) = uri"
  by (rule request_line_read [OF assms])

lemma memmem_reference: "memmem_documented (\<lambda>hay needle. str_find needle hay)"
  by (simp add: memmem_documented_def)

theorem http_request_roundtrip_witness:
  "\<exists>l. HttpRequestFirstLine_parse (\<lambda>hay needle. str_find needle hay) (''GET /a HTTP/1.1'' @ [CR, LF]) = Inr l
     \<and> http_getUri l (''GET /a HTTP/1.1'' @ [CR, LF]) = ''/a''"
proof -
  have "\<exists>l. HttpRequestFirstLine_build HttpGET OneDotOne ''/a'' = Inr (l, ''GET /a HTTP/1.1'' @ [CR, LF])"
    by (simp add: HttpRequestFirstLine_build_def)
  then obtain l where "HttpRequestFirstLine_build HttpGET OneDotOne ''/a'' = Inr (l, ''GET /a HTTP/1.1'' @ [CR, LF])" ..
  from http_request_roundtrip [OF memmem_reference this, where rest = "[]"] show ?thesis by simp
qed

lemma http_status_number:
  assumes "s < 80"
  shows "\<exists>a b c. nat_str (httpStatusCodeEnumToInt ! s) = [a, b, c] \<and> http_status_class a b c = s"
    "\<forall>c \<in> set (nat_str (httpStatusCodeEnumToInt ! s)). c \<noteq> LF"
    "LF \<notin> set (httpStatusCodeEnumToString ! s)"
proof -
  let ?n = "httpStatusCodeEnumToInt ! s"
  have "100 \<le> ?n" "?n < 1000"
    using http_numbers_three assms by (simp_all add: list_all_length http_lengths)
  moreover have "http_status_class (digit_char (?n div 100)) (digit_char (?n div 10 mod 10)) (digit_char (?n mod 10)) = s"
    using arg_cong [OF http_codes_checked, of "\<lambda>l. l ! s"] assms by (simp add: http_lengths)
  ultimately show "\<exists>a b c. nat_str ?n = [a, b, c] \<and> http_status_class a b c = s" using nat_str_three by blast
  have "\<not> is_digit LF" by (simp add: is_digit_def)
  then show "\<forall>c \<in> set (nat_str ?n). c \<noteq> LF" using nat_str_other by blast
  show "LF \<notin> set (httpStatusCodeEnumToString ! s)"
    using http_phrases_checked assms by (simp add: list_all_length http_lengths)
qed

lemma http_response_version_built:
  assumes "VersionEnumToString v = Inr w"
  shows "http_response_version (''HTTP/'' @ w @ r) = Inr v"
proof -
  have "looks (''HTTP/'' @ w @ r) 0 ''HTTP/'' = Inr True" using looks_prefix [of "[]" "''HTTP/''" "w @ r"] by (simp only: append_Nil list.size)
  moreover have "http_version_at (''HTTP/'' @ w @ r) 5 = Inr v" proof -
    have "length ''HTTP/'' = 5" by simp
    with http_version_read(1) [OF assms, of "''HTTP/''" r] show ?thesis by (simp only:)
  qed
  moreover have "\<not> length (''HTTP/'' @ w @ r) < 8" using http_version_read(2) [OF assms] by simp
  ultimately show ?thesis by (simp only: http_response_version_def if_False bind_out_simps simp_thms)
qed

text \<open>
  C16. A status line that is built and read back, whatever follows it, gives the same version, status code and end, and the
  number of the code, whatever the code and the reason phrase without a line feed in it.
\<close>

theorem http_response_roundtrip:
  assumes "HttpResponseFirstLine_build v s phrase = Inr (l, d)" "LF \<notin> set phrase"
  shows "HttpResponseFirstLine_parse (d @ rest) = Inr l \<and> http_getStatusCodeAsInt l = Inr (httpStatusCodeEnumToInt ! s)"
proof -
  let ?p = "if phrase = [] then httpStatusCodeEnumToString ! s else phrase"
  let ?n = "nat_str (httpStatusCodeEnumToInt ! s)"
  from assms(1) obtain w where w: "VersionEnumToString v = Inr w" "v \<noteq> HttpVersionUnknown" "s < 80" "s \<noteq> HttpStatusCodeUnknown"
    and d: "d = ''HTTP/'' @ w @ '' '' @ ?n @ '' '' @ ?p @ [CR, LF]"
    and l: "l = \<lparr>rs_version = v, rs_statusCode = s, rs_firstLineEnd = length d, rs_isComplete = True\<rparr>"
    by (auto simp: HttpResponseFirstLine_build_def Let_def http_lengths split: if_splits)
  from http_status_number(1) [OF w(3)] obtain a b c where n: "?n = [a, b, c]" "http_status_class a b c = s" by blast
  have w3: "length w = 3" "LF \<notin> set w" using w(1) by (cases v; auto)+
  let ?d = "d @ rest"
  have version: "http_response_version ?d = Inr v" unfolding d append_assoc by (rule http_response_version_built [OF w(1)])
  have i: "?d ! 9 = a" "?d ! 10 = b" "?d ! 11 = c" "?d ! 12 = CHR '' ''" "12 < length d"
    using w3(1) by (auto simp: d n(1) nth_append numeral_eq_Suc length_Suc_conv)
  have status: "http_parseStatusCode ?d = Inr s"
    using version w(2,4) i n(2) by (simp add: http_parseStatusCode_def http_validateStatusCode_def Let_def)
  have "LF \<notin> set (''HTTP/'' @ w @ '' '' @ ?n @ '' '' @ ?p @ [CR])"
    using http_status_number(2,3) [OF w(3)] w3(2) assms(2) by auto
  then have "memchr LF ((''HTTP/'' @ w @ '' '' @ ?n @ '' '' @ ?p @ [CR]) @ LF # rest)
      = Some (length (''HTTP/'' @ w @ '' '' @ ?n @ '' '' @ ?p @ [CR]))" by (rule memchr_append)
  moreover have "d = (''HTTP/'' @ w @ '' '' @ ?n @ '' '' @ ?p @ [CR]) @ LF # []" by (simp add: d)
  ultimately have "memchr LF ?d = Some (length d - 1)" by (metis append.assoc append_Cons append_Nil butlast_snoc length_butlast)
  then have "HttpResponseFirstLine_parse ?d = Inr l"
    using version status w(2) i(5) by (simp add: HttpResponseFirstLine_parse_def l)
  moreover have "http_getStatusCodeAsInt l = Inr (httpStatusCodeEnumToInt ! s)"
    using w(3) by (simp add: http_getStatusCodeAsInt_def l http_lengths)
  ultimately show ?thesis ..
qed

theorem http_response_roundtrip_witness:
  "\<exists>l d. HttpResponseFirstLine_build OneDotOne 66 [] = Inr (l, d) \<and> HttpResponseFirstLine_parse d = Inr l"
proof -
  have "\<exists>l d. HttpResponseFirstLine_build OneDotOne 66 [] = Inr (l, d)"
    by (simp add: HttpResponseFirstLine_build_def http_lengths Let_def)
  then obtain l d where 1: "HttpResponseFirstLine_build OneDotOne 66 [] = Inr (l, d)" by blast
  then show ?thesis using http_response_roundtrip [OF 1, where rest = "[]"] by auto
qed

text \<open>
  Reading the status code reads one byte behind the data exactly when they are just the twelve bytes
  that \<open>parseStatusCode\<close> calls the minimum, with a known version and code.
\<close>

theorem http_status_overread_iff:
  "http_parseStatusCode d = Inl e \<longleftrightarrow> e = OutOfBounds \<and> length d = 12
     \<and> (\<exists>v. http_response_version d = Inr v \<and> v \<noteq> HttpVersionUnknown)
     \<and> http_status_class (d ! 9) (d ! 10) (d ! 11) \<noteq> HttpStatusCodeUnknown"
proof -
  have "\<exists>v. http_response_version d = Inr v"
  proof (cases "length d < 8")
    case False
    then show ?thesis
      unfolding returns_def [symmetric] http_response_version_def http_version_at_def by (intro returns_intros) simp_all
  qed (simp add: http_response_version_def)
  then obtain v where v: "http_response_version d = Inr v" ..
  show ?thesis
  proof (cases "v = HttpVersionUnknown \<or> length d < 12 \<or> http_status_class (d ! 9) (d ! 10) (d ! 11) = HttpStatusCodeUnknown")
    case True
    then show ?thesis using v by (auto simp: http_parseStatusCode_def Let_def)
  next
    case False
    then have "http_parseStatusCode d = http_validateStatusCode d 12 (http_status_class (d ! 9) (d ! 10) (d ! 11))"
      using v by (simp add: http_parseStatusCode_def)
    then show ?thesis using v False by (auto simp: http_validateStatusCode_def char_at_def)
  qed
qed

text \<open>Every code from 430 to 439 is taken for 431.\<close>

lemma http_43x: "http_status_class (CHR ''4'') (CHR ''3'') c = Http431RequestHeaderFieldsTooLarge"
  by (simp add: http_status_class_def http_4xx_def)

end
