(* ===== verification/SipFirstLine.thy ===== *)
theory SipFirstLine
  imports TextLine
begin

text \<open>
  The first lines of SIP messages (\<open>SipLayer.cpp\<close>: the classes \<open>SipRequestFirstLine\<close> and
  \<open>SipResponseFirstLine\<close>), as those of HTTP in \<open>HttpFirstLine\<close>. The version is a text of the
  message here; offsets of -1 are used for addresses by the code, which is then a fault.
\<close>

section \<open>Methods\<close>

datatype sip_method = SipINVITE | SipACK | SipBYE | SipCANCEL | SipREGISTER | SipPRACK | SipOPTIONS | SipSUBSCRIBE
  | SipNOTIFY | SipPUBLISH | SipINFO | SipREFER | SipMESSAGE | SipUPDATE | SipMethodUnknown

fun SipMethodEnumToString :: "sip_method \<Rightarrow> string outcome" where
  "SipMethodEnumToString SipINVITE = Inr ''INVITE''"
| "SipMethodEnumToString SipACK = Inr ''ACK''"
| "SipMethodEnumToString SipBYE = Inr ''BYE''"
| "SipMethodEnumToString SipCANCEL = Inr ''CANCEL''"
| "SipMethodEnumToString SipREGISTER = Inr ''REGISTER''"
| "SipMethodEnumToString SipPRACK = Inr ''PRACK''"
| "SipMethodEnumToString SipOPTIONS = Inr ''OPTIONS''"
| "SipMethodEnumToString SipSUBSCRIBE = Inr ''SUBSCRIBE''"
| "SipMethodEnumToString SipNOTIFY = Inr ''NOTIFY''"
| "SipMethodEnumToString SipPUBLISH = Inr ''PUBLISH''"
| "SipMethodEnumToString SipINFO = Inr ''INFO''"
| "SipMethodEnumToString SipREFER = Inr ''REFER''"
| "SipMethodEnumToString SipMESSAGE = Inr ''MESSAGE''"
| "SipMethodEnumToString SipUPDATE = Inr ''UPDATE''"
| "SipMethodEnumToString SipMethodUnknown = Inl OutOfBounds"

section \<open>Status codes\<close>

text \<open>The enumerators by their ordinals, and the two tables.\<close>

abbreviation (input) Sip100Trying :: nat where "Sip100Trying \<equiv> 0"
abbreviation (input) Sip180Ringing :: nat where "Sip180Ringing \<equiv> 1"
abbreviation (input) Sip181CallisBeingForwarded :: nat where "Sip181CallisBeingForwarded \<equiv> 2"
abbreviation (input) Sip182Queued :: nat where "Sip182Queued \<equiv> 3"
abbreviation (input) Sip183SessioninProgress :: nat where "Sip183SessioninProgress \<equiv> 4"
abbreviation (input) Sip199EarlyDialogTerminated :: nat where "Sip199EarlyDialogTerminated \<equiv> 5"
abbreviation (input) Sip200OK :: nat where "Sip200OK \<equiv> 6"
abbreviation (input) Sip202Accepted :: nat where "Sip202Accepted \<equiv> 7"
abbreviation (input) Sip204NoNotification :: nat where "Sip204NoNotification \<equiv> 8"
abbreviation (input) Sip300MultipleChoices :: nat where "Sip300MultipleChoices \<equiv> 9"
abbreviation (input) Sip301MovedPermanently :: nat where "Sip301MovedPermanently \<equiv> 10"
abbreviation (input) Sip302MovedTemporarily :: nat where "Sip302MovedTemporarily \<equiv> 11"
abbreviation (input) Sip305UseProxy :: nat where "Sip305UseProxy \<equiv> 12"
abbreviation (input) Sip380AlternativeService :: nat where "Sip380AlternativeService \<equiv> 13"
abbreviation (input) Sip400BadRequest :: nat where "Sip400BadRequest \<equiv> 14"
abbreviation (input) Sip401Unauthorized :: nat where "Sip401Unauthorized \<equiv> 15"
abbreviation (input) Sip402PaymentRequired :: nat where "Sip402PaymentRequired \<equiv> 16"
abbreviation (input) Sip403Forbidden :: nat where "Sip403Forbidden \<equiv> 17"
abbreviation (input) Sip404NotFound :: nat where "Sip404NotFound \<equiv> 18"
abbreviation (input) Sip405MethodNotAllowed :: nat where "Sip405MethodNotAllowed \<equiv> 19"
abbreviation (input) Sip406NotAcceptable :: nat where "Sip406NotAcceptable \<equiv> 20"
abbreviation (input) Sip407ProxyAuthenticationRequired :: nat where "Sip407ProxyAuthenticationRequired \<equiv> 21"
abbreviation (input) Sip408RequestTimeout :: nat where "Sip408RequestTimeout \<equiv> 22"
abbreviation (input) Sip409Conflict :: nat where "Sip409Conflict \<equiv> 23"
abbreviation (input) Sip410Gone :: nat where "Sip410Gone \<equiv> 24"
abbreviation (input) Sip411LengthRequired :: nat where "Sip411LengthRequired \<equiv> 25"
abbreviation (input) Sip412ConditionalRequestFailed :: nat where "Sip412ConditionalRequestFailed \<equiv> 26"
abbreviation (input) Sip413RequestEntityTooLarge :: nat where "Sip413RequestEntityTooLarge \<equiv> 27"
abbreviation (input) Sip414RequestURITooLong :: nat where "Sip414RequestURITooLong \<equiv> 28"
abbreviation (input) Sip415UnsupportedMediaType :: nat where "Sip415UnsupportedMediaType \<equiv> 29"
abbreviation (input) Sip416UnsupportedURIScheme :: nat where "Sip416UnsupportedURIScheme \<equiv> 30"
abbreviation (input) Sip417UnknownResourcePriority :: nat where "Sip417UnknownResourcePriority \<equiv> 31"
abbreviation (input) Sip420BadExtension :: nat where "Sip420BadExtension \<equiv> 32"
abbreviation (input) Sip421ExtensionRequired :: nat where "Sip421ExtensionRequired \<equiv> 33"
abbreviation (input) Sip422SessionIntervalTooSmall :: nat where "Sip422SessionIntervalTooSmall \<equiv> 34"
abbreviation (input) Sip423IntervalTooBrief :: nat where "Sip423IntervalTooBrief \<equiv> 35"
abbreviation (input) Sip424BadLocationInformation :: nat where "Sip424BadLocationInformation \<equiv> 36"
abbreviation (input) Sip428UseIdentityHeader :: nat where "Sip428UseIdentityHeader \<equiv> 37"
abbreviation (input) Sip429ProvideReferrerIdentity :: nat where "Sip429ProvideReferrerIdentity \<equiv> 38"
abbreviation (input) Sip430FlowFailed :: nat where "Sip430FlowFailed \<equiv> 39"
abbreviation (input) Sip433AnonymityDisallowed :: nat where "Sip433AnonymityDisallowed \<equiv> 40"
abbreviation (input) Sip436BadIdentityInfo :: nat where "Sip436BadIdentityInfo \<equiv> 41"
abbreviation (input) Sip437UnsupportedCertificate :: nat where "Sip437UnsupportedCertificate \<equiv> 42"
abbreviation (input) Sip438InvalidIdentityHeader :: nat where "Sip438InvalidIdentityHeader \<equiv> 43"
abbreviation (input) Sip439FirstHopLacksOutboundSupport :: nat where "Sip439FirstHopLacksOutboundSupport \<equiv> 44"
abbreviation (input) Sip440MaxBreadthExceeded :: nat where "Sip440MaxBreadthExceeded \<equiv> 45"
abbreviation (input) Sip469BadInfoPackage :: nat where "Sip469BadInfoPackage \<equiv> 46"
abbreviation (input) Sip470ConsentNeeded :: nat where "Sip470ConsentNeeded \<equiv> 47"
abbreviation (input) Sip480TemporarilyUnavailable :: nat where "Sip480TemporarilyUnavailable \<equiv> 48"
abbreviation (input) Sip481Call_TransactionDoesNotExist :: nat where "Sip481Call_TransactionDoesNotExist \<equiv> 49"
abbreviation (input) Sip482LoopDetected :: nat where "Sip482LoopDetected \<equiv> 50"
abbreviation (input) Sip483TooManyHops :: nat where "Sip483TooManyHops \<equiv> 51"
abbreviation (input) Sip484AddressIncomplete :: nat where "Sip484AddressIncomplete \<equiv> 52"
abbreviation (input) Sip485Ambiguous :: nat where "Sip485Ambiguous \<equiv> 53"
abbreviation (input) Sip486BusyHere :: nat where "Sip486BusyHere \<equiv> 54"
abbreviation (input) Sip487RequestTerminated :: nat where "Sip487RequestTerminated \<equiv> 55"
abbreviation (input) Sip488NotAcceptableHere :: nat where "Sip488NotAcceptableHere \<equiv> 56"
abbreviation (input) Sip489BadEvent :: nat where "Sip489BadEvent \<equiv> 57"
abbreviation (input) Sip491RequestPending :: nat where "Sip491RequestPending \<equiv> 58"
abbreviation (input) Sip493Undecipherable :: nat where "Sip493Undecipherable \<equiv> 59"
abbreviation (input) Sip494SecurityAgreementRequired :: nat where "Sip494SecurityAgreementRequired \<equiv> 60"
abbreviation (input) Sip500ServerInternalError :: nat where "Sip500ServerInternalError \<equiv> 61"
abbreviation (input) Sip501NotImplemented :: nat where "Sip501NotImplemented \<equiv> 62"
abbreviation (input) Sip502BadGateway :: nat where "Sip502BadGateway \<equiv> 63"
abbreviation (input) Sip503ServiceUnavailable :: nat where "Sip503ServiceUnavailable \<equiv> 64"
abbreviation (input) Sip504ServerTimeout :: nat where "Sip504ServerTimeout \<equiv> 65"
abbreviation (input) Sip505VersionNotSupported :: nat where "Sip505VersionNotSupported \<equiv> 66"
abbreviation (input) Sip513MessageTooLarge :: nat where "Sip513MessageTooLarge \<equiv> 67"
abbreviation (input) Sip580PreconditionFailure :: nat where "Sip580PreconditionFailure \<equiv> 68"
abbreviation (input) Sip600BusyEverywhere :: nat where "Sip600BusyEverywhere \<equiv> 69"
abbreviation (input) Sip603Decline :: nat where "Sip603Decline \<equiv> 70"
abbreviation (input) Sip604DoesNotExistAnywhere :: nat where "Sip604DoesNotExistAnywhere \<equiv> 71"
abbreviation (input) Sip606NotAcceptable :: nat where "Sip606NotAcceptable \<equiv> 72"
abbreviation (input) Sip607Unwanted :: nat where "Sip607Unwanted \<equiv> 73"
abbreviation (input) SipStatusCodeUnknown :: nat where "SipStatusCodeUnknown \<equiv> 74"

definition sipStatusCodeEnumToInt :: "nat list" where
  "sipStatusCodeEnumToInt =
    [100, 180, 181, 182, 183, 199, 200, 202, 204, 300, 301, 302, 305, 380, 400, 401, 402, 403,
     404, 405, 406, 407, 408, 409, 410, 411, 412, 413, 414, 415, 416, 417, 420, 421, 422, 423,
     424, 428, 429, 430, 433, 436, 437, 438, 439, 440, 469, 470, 480, 481, 482, 483, 484, 485,
     486, 487, 488, 489, 491, 493, 494, 500, 501, 502, 503, 504, 505, 513, 580, 600, 603, 604,
     606, 607]"

definition sipStatusCodeEnumToString :: "string list" where
  "sipStatusCodeEnumToString =
    [''Trying'', ''Ringing'', ''Call is Being Forwarded'', ''Queued'',
     ''Session in Progress'', ''Early Dialog Terminated'', ''OK'', ''Accepted'',
     ''No Notification'', ''Multiple Choices'', ''Moved Permanently'', ''Moved Temporarily'',
     ''Use Proxy'', ''Alternative Service'', ''Bad Request'', ''Unauthorized'',
     ''Payment Required'', ''Forbidden'', ''Not Found'', ''Method Not Allowed'',
     ''Not Acceptable'', ''Proxy Authentication Required'', ''Request Timeout'', ''Conflict'',
     ''Gone'', ''Length Required'', ''Conditional Request Failed'',
     ''Request Entity Too Large'', ''Request-URI Too Long'', ''Unsupported Media Type'',
     ''Unsupported URI Scheme'', ''Unknown Resource-Priority'', ''Bad Extension'',
     ''Extension Required'', ''Session Interval Too Small'', ''Interval Too Brief'',
     ''Bad Location Information'', ''Use Identity Header'', ''Provide Referrer Identity'',
     ''Flow Failed'', ''Anonymity Disallowed'', ''Bad Identity-Info'',
     ''Unsupported Certificate'', ''Invalid Identity Header'',
     ''First Hop Lacks Outbound Support'', ''Max-Breadth Exceeded'', ''Bad Info Package'',
     ''Consent Needed'', ''Temporarily Unavailable'', ''Call_Transaction Does Not Exist'',
     ''Loop Detected'', ''Too Many Hops'', ''Address Incomplete'', ''Ambiguous'',
     ''Busy Here'', ''Request Terminated'', ''Not Acceptable Here'', ''Bad Event'',
     ''Request Pending'', ''Undecipherable'', ''Security Agreement Required'',
     ''Server Internal Error'', ''Not Implemented'', ''Bad Gateway'', ''Service Unavailable'',
     ''Server Timeout'', ''Version Not Supported'', ''Message Too Large'',
     ''Precondition Failure'', ''Busy Everywhere'', ''Decline'', ''Does Not Exist Anywhere'',
     ''Not Acceptable'', ''Unwanted'']"

text \<open>The inner switches, by the first digit.\<close>

definition sip_1xx :: "char \<Rightarrow> char \<Rightarrow> nat" where
  "sip_1xx b c =
     (lookup_status SipStatusCodeUnknown
       [(''00'', Sip100Trying), (''80'', Sip180Ringing),
        (''81'', Sip181CallisBeingForwarded), (''82'', Sip182Queued),
        (''83'', Sip183SessioninProgress), (''99'', Sip199EarlyDialogTerminated)]
       [b, c])"

definition sip_2xx :: "char \<Rightarrow> char \<Rightarrow> nat" where
  "sip_2xx b c =
     (lookup_status SipStatusCodeUnknown
       [(''00'', Sip200OK), (''02'', Sip202Accepted), (''04'', Sip204NoNotification)]
       [b, c])"

definition sip_3xx :: "char \<Rightarrow> char \<Rightarrow> nat" where
  "sip_3xx b c =
     (lookup_status SipStatusCodeUnknown
       [(''00'', Sip300MultipleChoices), (''01'', Sip301MovedPermanently),
        (''02'', Sip302MovedTemporarily), (''05'', Sip305UseProxy),
        (''80'', Sip380AlternativeService)]
       [b, c])"

definition sip_4xx :: "char \<Rightarrow> char \<Rightarrow> nat" where
  "sip_4xx b c =
     (lookup_status SipStatusCodeUnknown
       [(''00'', Sip400BadRequest), (''01'', Sip401Unauthorized),
        (''02'', Sip402PaymentRequired), (''03'', Sip403Forbidden), (''04'', Sip404NotFound),
        (''05'', Sip405MethodNotAllowed), (''06'', Sip406NotAcceptable),
        (''07'', Sip407ProxyAuthenticationRequired), (''08'', Sip408RequestTimeout),
        (''09'', Sip409Conflict), (''10'', Sip410Gone), (''11'', Sip411LengthRequired),
        (''12'', Sip412ConditionalRequestFailed), (''13'', Sip413RequestEntityTooLarge),
        (''14'', Sip414RequestURITooLong), (''15'', Sip415UnsupportedMediaType),
        (''16'', Sip416UnsupportedURIScheme), (''17'', Sip417UnknownResourcePriority),
        (''20'', Sip420BadExtension), (''21'', Sip421ExtensionRequired),
        (''22'', Sip422SessionIntervalTooSmall), (''23'', Sip423IntervalTooBrief),
        (''24'', Sip424BadLocationInformation), (''28'', Sip428UseIdentityHeader),
        (''29'', Sip429ProvideReferrerIdentity), (''30'', Sip430FlowFailed),
        (''33'', Sip433AnonymityDisallowed), (''36'', Sip436BadIdentityInfo),
        (''37'', Sip437UnsupportedCertificate), (''38'', Sip438InvalidIdentityHeader),
        (''39'', Sip439FirstHopLacksOutboundSupport), (''40'', Sip440MaxBreadthExceeded),
        (''69'', Sip469BadInfoPackage), (''80'', Sip480TemporarilyUnavailable),
        (''81'', Sip481Call_TransactionDoesNotExist), (''82'', Sip482LoopDetected),
        (''83'', Sip483TooManyHops), (''84'', Sip484AddressIncomplete),
        (''85'', Sip485Ambiguous), (''86'', Sip486BusyHere),
        (''87'', Sip487RequestTerminated), (''88'', Sip488NotAcceptableHere),
        (''89'', Sip489BadEvent), (''91'', Sip491RequestPending),
        (''93'', Sip493Undecipherable), (''94'', Sip494SecurityAgreementRequired)]
       [b, c])"

definition sip_5xx :: "char \<Rightarrow> char \<Rightarrow> nat" where
  "sip_5xx b c =
     (lookup_status SipStatusCodeUnknown
       [(''00'', Sip500ServerInternalError), (''01'', Sip501NotImplemented),
        (''02'', Sip502BadGateway), (''03'', Sip503ServiceUnavailable),
        (''04'', Sip504ServerTimeout), (''05'', Sip505VersionNotSupported),
        (''13'', Sip513MessageTooLarge), (''80'', Sip580PreconditionFailure)]
       [b, c])"

definition sip_6xx :: "char \<Rightarrow> char \<Rightarrow> nat" where
  "sip_6xx b c =
     (lookup_status SipStatusCodeUnknown
       [(''00'', Sip600BusyEverywhere), (''03'', Sip603Decline),
        (''04'', Sip604DoesNotExistAnywhere), (''06'', Sip606NotAcceptable),
        (''07'', Sip607Unwanted)]
       [b, c])"

section \<open>Requests\<close>

text \<open>\<open>INFO\<close> is the one method that is recognised without the space behind it.\<close>

definition sip_method_by :: "string \<Rightarrow> char \<Rightarrow> sip_method outcome" where
  "sip_method_by d c =
     (if c = CHR ''A'' then method_if SipMethodUnknown d 1 ''CK '' SipACK
      else if c = CHR ''B'' then method_if SipMethodUnknown d 1 ''YE '' SipBYE
      else if c = CHR ''C'' then (if length d < 7 then Inr SipMethodUnknown else method_if SipMethodUnknown d 1 ''ANCEL '' SipCANCEL)
      else if c = CHR ''O'' then (if length d < 8 then Inr SipMethodUnknown else method_if SipMethodUnknown d 1 ''PTIONS '' SipOPTIONS)
      else if c = CHR ''R'' then
        (if length d < 6 then Inr SipMethodUnknown
         else bind_out (looks d 1 ''EFER '') (\<lambda>eq.
           if eq then Inr SipREFER
           else if length d < 9 then Inr SipMethodUnknown else method_if SipMethodUnknown d 1 ''EGISTER '' SipREGISTER))
      else if c = CHR ''P'' then
        (if length d < 6 then Inr SipMethodUnknown
         else bind_out (looks d 1 ''RACK '') (\<lambda>eq.
           if eq then Inr SipPRACK
           else if length d < 8 then Inr SipMethodUnknown else method_if SipMethodUnknown d 1 ''UBLISH '' SipPUBLISH))
      else if c = CHR ''S'' then (if length d < 10 then Inr SipMethodUnknown else method_if SipMethodUnknown d 1 ''UBSCRIBE '' SipSUBSCRIBE)
      else if c = CHR ''N'' then (if length d < 7 then Inr SipMethodUnknown else method_if SipMethodUnknown d 1 ''OTIFY '' SipNOTIFY)
      else if c = CHR ''I'' then
        bind_out (looks d 1 ''NFO'') (\<lambda>eq.
          if eq then Inr SipINFO
          else if length d < 7 then Inr SipMethodUnknown else method_if SipMethodUnknown d 1 ''NVITE '' SipINVITE)
      else if c = CHR ''M'' then (if length d < 8 then Inr SipMethodUnknown else method_if SipMethodUnknown d 1 ''ESSAGE '' SipMESSAGE)
      else if c = CHR ''U'' then (if length d < 7 then Inr SipMethodUnknown else method_if SipMethodUnknown d 1 ''PDATE '' SipUPDATE)
      else Inr SipMethodUnknown)"

definition sip_parseMethod :: "string \<Rightarrow> sip_method outcome" where
  "sip_parseMethod d = (if length d < 4 then Inr SipMethodUnknown else bind_out (char_at d 0) (sip_method_by d))"

record sip_request_line =
  sq_method :: sip_method
  sq_version :: string
  sq_uriOffset :: int
  sq_versionOffset :: int
  sq_firstLineEnd :: nat
  sq_isComplete :: bool

text \<open>The version from the character behind the space to the end of the line or of the data.\<close>

definition sip_parseVersion :: "(string \<Rightarrow> string \<Rightarrow> nat option) \<Rightarrow> string \<Rightarrow> int \<Rightarrow> (string \<times> int) outcome" where
  "sip_parseVersion memmem d uriOffset =
     (if uriOffset < 0 then Inl OutOfBounds
      else case memmem (drop (nat uriOffset) d) '' SIP/'' of
        None \<Rightarrow> Inr ([], -1)
      | Some i \<Rightarrow>
          let verPos = nat uriOffset + i
          in if (verPos + 7) mod 65536 > length d then Inr ([], -1)
             else Inr (takeWhile (\<lambda>c. c \<noteq> CR \<and> c \<noteq> LF) (drop (verPos + 1) d), int (verPos + 1)))"

definition SipRequestFirstLine_parse ::
    "(string \<Rightarrow> string \<Rightarrow> nat option) \<Rightarrow> string \<Rightarrow> sip_request_line outcome" where
  "SipRequestFirstLine_parse memmem d =
     bind_out (sip_parseMethod d) (\<lambda>m.
     bind_out (if m = SipMethodUnknown then Inr (-1) else bind_out (SipMethodEnumToString m) (\<lambda>s. Inr (int (length s + 1)))) (\<lambda>u.
     bind_out (sip_parseVersion memmem d u) (\<lambda>(v, vo).
       if vo < 0 then Inl OutOfBounds
       else let line = \<lparr>sq_method = m, sq_version = v, sq_uriOffset = u, sq_versionOffset = vo,
                        sq_firstLineEnd = length d, sq_isComplete = False\<rparr>
            in Inr (case memchr LF (drop (nat vo) d) of
                      Some i \<Rightarrow> line\<lparr>sq_firstLineEnd := nat vo + i + 1, sq_isComplete := True\<rparr>
                    | None \<Rightarrow> line))))"

definition SipRequestFirstLine_build :: "sip_method \<Rightarrow> string \<Rightarrow> string \<Rightarrow> (sip_request_line \<times> string) outcome" where
  "SipRequestFirstLine_build method version uri =
     (if method = SipMethodUnknown then Inl (Uncaught ''Method supplied was SipMethodUnknown'')
      else if version = [] then Inl (Uncaught ''Version supplied was empty string'')
      else bind_out (SipMethodEnumToString method) (\<lambda>s.
        let firstLine = s @ '' '' @ uri @ '' '' @ version @ [CR, LF]; u = length s + 1
        in Inr (\<lparr>sq_method = method, sq_version = version, sq_uriOffset = int u, sq_versionOffset = int (u + length uri + 6),
                 sq_firstLineEnd = length firstLine, sq_isComplete = True\<rparr>, firstLine)))"

definition sip_getUri :: "sip_request_line \<Rightarrow> string \<Rightarrow> string" where
  "sip_getUri l d =
     (if sq_uriOffset l \<noteq> -1 \<and> sq_versionOffset l \<noteq> -1
      then take (nat (sq_versionOffset l - 1 - sq_uriOffset l)) (drop (nat (sq_uriOffset l)) d) else [])"

section \<open>Responses\<close>

definition sip_response_version :: "string \<Rightarrow> string outcome" where
  "sip_response_version d =
     (if length d < 7 then Inr []
      else bind_out (looks d 0 ''SIP/'') (\<lambda>eq.
        if \<not> eq then Inr []
        else case memchr (CHR '' '') d of None \<Rightarrow> Inr [] | Some n \<Rightarrow> Inr (take n d)))"

definition sip_validateStatusCode :: "string \<Rightarrow> nat \<Rightarrow> nat \<Rightarrow> nat outcome" where
  "sip_validateStatusCode d i potentialCode =
     bind_out (char_at d i) (\<lambda>c. Inr (if c \<noteq> CHR '' '' then SipStatusCodeUnknown else potentialCode))"

definition sip_status_class :: "char \<Rightarrow> char \<Rightarrow> char \<Rightarrow> nat" where
  "sip_status_class a b c =
     (if a = CHR ''1'' then sip_1xx b c else if a = CHR ''2'' then sip_2xx b c else if a = CHR ''3'' then sip_3xx b c
      else if a = CHR ''4'' then sip_4xx b c else if a = CHR ''5'' then sip_5xx b c else if a = CHR ''6'' then sip_6xx b c
      else SipStatusCodeUnknown)"

definition sip_parseStatusCode :: "string \<Rightarrow> nat outcome" where
  "sip_parseStatusCode d =
     (if length d < 12 then Inr SipStatusCodeUnknown
      else let s = sip_status_class (d ! 8) (d ! 9) (d ! 10)
           in if s = SipStatusCodeUnknown then Inr s else sip_validateStatusCode d 11 s)"

record sip_response_line =
  ss_version :: string
  ss_statusCode :: nat
  ss_firstLineEnd :: nat
  ss_isComplete :: bool

definition SipResponseFirstLine_parse :: "string \<Rightarrow> sip_response_line outcome" where
  "SipResponseFirstLine_parse d =
     bind_out (sip_response_version d) (\<lambda>v.
     bind_out (if v = [] then Inr SipStatusCodeUnknown else sip_parseStatusCode d) (\<lambda>s.
       Inr (case memchr LF d of
              Some i \<Rightarrow> \<lparr>ss_version = v, ss_statusCode = s, ss_firstLineEnd = i + 1, ss_isComplete = True\<rparr>
            | None \<Rightarrow> \<lparr>ss_version = v, ss_statusCode = s, ss_firstLineEnd = length d, ss_isComplete = False\<rparr>)))"

definition SipResponseFirstLine_build :: "string \<Rightarrow> nat \<Rightarrow> string \<Rightarrow> (sip_response_line \<times> string) outcome" where
  "SipResponseFirstLine_build version statusCode statusCodeString =
     (if statusCode = SipStatusCodeUnknown then Inl (Uncaught ''Status code supplied was SipStatusCodeUnknown'')
      else if version = [] then Inl (Uncaught ''Version supplied was unknown'')
      else if statusCode \<ge> length sipStatusCodeEnumToInt then Inl OutOfBounds
      else
        let reason = (if statusCodeString = [] then sipStatusCodeEnumToString ! statusCode else statusCodeString);
            firstLine = version @ '' '' @ nat_str (sipStatusCodeEnumToInt ! statusCode) @ '' '' @ reason @ [CR, LF]
        in Inr (\<lparr>ss_version = version, ss_statusCode = statusCode, ss_firstLineEnd = length firstLine, ss_isComplete = True\<rparr>,
                firstLine))"

section \<open>Reading back\<close>

lemma sip_numbers_three: "list_all (\<lambda>n. 100 \<le> n \<and> n < 1000) sipStatusCodeEnumToInt"
  by (simp add: sipStatusCodeEnumToInt_def)

lemma sip_lengths: "length sipStatusCodeEnumToInt = 74" "length sipStatusCodeEnumToString = 74"
  by (simp_all add: sipStatusCodeEnumToInt_def sipStatusCodeEnumToString_def)

text \<open>The switch has no case for 470, so this code is unknown when it is read.\<close>

definition sip_read_code :: "nat \<Rightarrow> nat" where
  "sip_read_code s = (if s = Sip470ConsentNeeded then SipStatusCodeUnknown else s)"

lemma sip_codes_checked:
  "map (\<lambda>n. sip_status_class (digit_char (n div 100)) (digit_char (n div 10 mod 10)) (digit_char (n mod 10))) sipStatusCodeEnumToInt
     = map sip_read_code [0..<74]"
  by (simp add: sipStatusCodeEnumToInt_def upt_conv_Cons digit_chars sip_status_class_def lookup_status_def sip_read_code_def
      sip_1xx_def sip_2xx_def sip_3xx_def sip_4xx_def sip_5xx_def sip_6xx_def del: upt_Suc)

lemma sip_phrases_checked: "list_all (\<lambda>p. p \<noteq> [] \<and> LF \<notin> set p) sipStatusCodeEnumToString"
  by (simp add: sipStatusCodeEnumToString_def)

lemma sip_method_by_cases:
  "sip_method_by d (CHR ''A'') = method_if SipMethodUnknown d 1 ''CK '' SipACK"
  "sip_method_by d (CHR ''B'') = method_if SipMethodUnknown d 1 ''YE '' SipBYE"
  "sip_method_by d (CHR ''C'') = (if length d < 7 then Inr SipMethodUnknown else method_if SipMethodUnknown d 1 ''ANCEL '' SipCANCEL)"
  "sip_method_by d (CHR ''O'') = (if length d < 8 then Inr SipMethodUnknown else method_if SipMethodUnknown d 1 ''PTIONS '' SipOPTIONS)"
  "sip_method_by d (CHR ''R'') = (if length d < 6 then Inr SipMethodUnknown
         else bind_out (looks d 1 ''EFER '') (\<lambda>eq. if eq then Inr SipREFER
           else if length d < 9 then Inr SipMethodUnknown else method_if SipMethodUnknown d 1 ''EGISTER '' SipREGISTER))"
  "sip_method_by d (CHR ''P'') = (if length d < 6 then Inr SipMethodUnknown
         else bind_out (looks d 1 ''RACK '') (\<lambda>eq. if eq then Inr SipPRACK
           else if length d < 8 then Inr SipMethodUnknown else method_if SipMethodUnknown d 1 ''UBLISH '' SipPUBLISH))"
  "sip_method_by d (CHR ''S'') = (if length d < 10 then Inr SipMethodUnknown else method_if SipMethodUnknown d 1 ''UBSCRIBE '' SipSUBSCRIBE)"
  "sip_method_by d (CHR ''N'') = (if length d < 7 then Inr SipMethodUnknown else method_if SipMethodUnknown d 1 ''OTIFY '' SipNOTIFY)"
  "sip_method_by d (CHR ''I'') = bind_out (looks d 1 ''NFO'') (\<lambda>eq. if eq then Inr SipINFO
          else if length d < 7 then Inr SipMethodUnknown else method_if SipMethodUnknown d 1 ''NVITE '' SipINVITE)"
  "sip_method_by d (CHR ''M'') = (if length d < 8 then Inr SipMethodUnknown else method_if SipMethodUnknown d 1 ''ESSAGE '' SipMESSAGE)"
  "sip_method_by d (CHR ''U'') = (if length d < 7 then Inr SipMethodUnknown else method_if SipMethodUnknown d 1 ''PDATE '' SipUPDATE)"
  by (simp_all add: sip_method_by_def)

lemma sip_method_of: "\<not> length d < 4 \<Longrightarrow> sip_parseMethod d = sip_method_by d (d ! 0)"
proof -
  assume l: "\<not> length d < 4"
  then have "0 < length d" by linarith
  then have "char_at d 0 = Inr (d ! 0)" by (simp add: char_at_def)
  then show ?thesis using l by (simp only: sip_parseMethod_def if_False bind_out_simps)
qed

lemma sip_method_returns: "4 \<le> length d \<Longrightarrow> returns (sip_method_by d c)"
  unfolding sip_method_by_def by (intro returns_intros) simp_all

lemma sip_parseMethod_total: "\<exists>m. sip_parseMethod d = Inr m"
  unfolding returns_def [symmetric] sip_parseMethod_def by (intro returns_intros sip_method_returns) linarith+

lemma sip_method_built:
  assumes "SipMethodEnumToString m = Inr s"
  shows "sip_parseMethod (s @ '' '' @ r) = Inr m"
proof -
  have l: "\<not> length (s @ '' '' @ r) < 4" using assms by (cases m) auto
  show ?thesis unfolding sip_method_of [OF l]
    using assms by (cases m) (auto simp: sip_method_by_cases method_if_inside looks_inside)
qed

section \<open>Properties\<close>

lemma takeWhile_line: "CR \<notin> set v \<Longrightarrow> LF \<notin> set v \<Longrightarrow> takeWhile (\<lambda>c. c \<noteq> CR \<and> c \<noteq> LF) (v @ CR # r) = v"
  by (induction v) auto

text \<open>
  A request line that is built and read back has the same fields except the offset of the version:
  the constructor that builds it puts it five bytes too far, as for HTTP, so the URI got from the
  built line has the begin of the version behind it, and that from the line read back is right.
\<close>

theorem sip_request_reread:
  assumes "memmem_documented mm" "SipRequestFirstLine_build m (''SIP/'' @ v) uri = Inr (l, d)" "CHR '' '' \<notin> set uri"
    and "CR \<notin> set v" "LF \<notin> set v" "length d < 65536"
  shows "SipRequestFirstLine_parse mm (d @ r) = Inr (l\<lparr>sq_versionOffset := sq_versionOffset l - 5\<rparr>)
    \<and> sip_getUri (l\<lparr>sq_versionOffset := sq_versionOffset l - 5\<rparr>) (d @ r) = uri \<and> sip_getUri l (d @ r) = uri @ '' SIP/''"
proof -
  from assms(2) obtain s where s: "SipMethodEnumToString m = Inr s" "m \<noteq> SipMethodUnknown"
    and d: "d = s @ '' '' @ uri @ '' SIP/'' @ v @ [CR, LF]"
    and l: "l = \<lparr>sq_method = m, sq_version = ''SIP/'' @ v, sq_uriOffset = int (length s + 1),
        sq_versionOffset = int (length s + 1 + length uri + 6), sq_firstLineEnd = length d, sq_isComplete = True\<rparr>"
    by (auto simp: SipRequestFirstLine_build_def Let_def split: if_splits)
  let ?u = "length s + 1" and ?vo = "length s + 1 + length uri + 1" and ?d = "d @ r"
  have dd: "?d = s @ '' '' @ uri @ '' SIP/'' @ v @ [CR, LF] @ r" by (simp add: d)
  have known: "sip_parseMethod ?d = Inr m" unfolding dd by (rule sip_method_built [OF s(1)])
  have du: "drop ?u ?d = uri @ '' SIP/'' @ v @ [CR, LF] @ r" by (simp add: dd)
  then have find: "mm (drop ?u ?d) '' SIP/'' = Some (length uri)"
    using assms(1) str_find_spaced [OF assms(3), of "''SIP/''"] by (simp add: memmem_documented_def)
  have dw: "?d = (s @ '' '' @ uri @ '' '') @ (''SIP/'' @ v) @ [CR, LF] @ r" "length (s @ '' '' @ uri @ '' '') = ?vo" by (simp_all add: dd)
  have dv: "drop ?vo ?d = (''SIP/'' @ v) @ CR # [LF] @ r" by (subst dw(1), subst drop_length_append [OF dw(2)]) simp
  have clean: "CR \<notin> set (''SIP/'' @ v)" "LF \<notin> set (''SIP/'' @ v)" using assms(4,5) by auto
  have len: "length d = ?vo + length v + 6" by (simp add: d)
  then have small: "(?u + length uri + 7) mod 65536 = ?u + length uri + 7" using assms(6) by (intro mod_less) linarith
  have "\<not> length ?d < ?u + length uri + 7" using len by simp
  then have parsed: "sip_parseVersion mm ?d (int ?u) = Inr (''SIP/'' @ v, int ?vo)"
    unfolding sip_parseVersion_def nat_int find option.case Let_def small dv takeWhile_line [OF clean] by simp
  have "LF \<notin> set ((''SIP/'' @ v) @ [CR])" using clean by auto
  then have "memchr LF (drop ?vo ?d) = Some (length v + 5)"
    using memchr_append [of LF "(''SIP/'' @ v) @ [CR]" r] unfolding dv by simp
  then have "memchr LF (drop (nat (int ?vo)) ?d) = Some (length v + 5)" by (simp only: nat_int)
  moreover have "nat (int ?vo) + (length v + 5) + 1 = length d" using len by simp
  moreover have "int ?u = sq_uriOffset l" "int ?vo = sq_versionOffset l - 5" by (simp_all add: l)
  ultimately have "SipRequestFirstLine_parse mm ?d = Inr (l\<lparr>sq_versionOffset := sq_versionOffset l - 5\<rparr>)"
    unfolding SipRequestFirstLine_parse_def known bind_out_simps s(1) using s(2) parsed by (simp add: Let_def l)
  moreover have "sip_getUri (l\<lparr>sq_versionOffset := sq_versionOffset l - 5\<rparr>) D = uri \<and> sip_getUri l D = uri @ '' SIP/''"
    if "drop ?u D = uri @ '' SIP/'' @ v @ [CR, LF] @ r" for D
  proof -
    have "nat (sq_uriOffset l) = ?u" "nat (sq_versionOffset l - 1 - sq_uriOffset l) = length uri + 5"
      "nat (sq_versionOffset l - 5 - 1 - sq_uriOffset l) = length uri" "sq_uriOffset l \<noteq> -1" "sq_versionOffset l \<noteq> -1"
      "sq_versionOffset l - 5 \<noteq> -1" by (simp_all add: l)
    moreover have "take (length uri + 5) (uri @ '' SIP/'' @ v @ [CR, LF] @ r) = uri @ '' SIP/''" "take (length uri) (uri @ w) = uri" for w
      by simp_all
    moreover have "sq_uriOffset (l\<lparr>sq_versionOffset := sq_versionOffset l - 5\<rparr>) = sq_uriOffset l"
      "sq_versionOffset (l\<lparr>sq_versionOffset := sq_versionOffset l - 5\<rparr>) = sq_versionOffset l - 5" by simp_all
    ultimately show ?thesis by (simp only: sip_getUri_def that simp_thms if_True)
  qed
  ultimately show ?thesis using du by blast
qed

theorem sip_request_reread_witness:
  "\<exists>l. SipRequestFirstLine_build SipBYE ''SIP/2.0'' ''sip:a'' = Inr (l, ''BYE sip:a SIP/2.0'' @ [CR, LF])
     \<and> sip_getUri l (''BYE sip:a SIP/2.0'' @ [CR, LF]) = ''sip:a SIP/''"
proof -
  have "\<exists>l. SipRequestFirstLine_build SipBYE (''SIP/'' @ ''2.0'') ''sip:a'' = Inr (l, ''BYE sip:a SIP/2.0'' @ [CR, LF])"
    by (simp add: SipRequestFirstLine_build_def)
  then obtain l where 1: "SipRequestFirstLine_build SipBYE (''SIP/'' @ ''2.0'') ''sip:a'' = Inr (l, ''BYE sip:a SIP/2.0'' @ [CR, LF])" ..
  have "memmem_documented (\<lambda>hay needle. str_find needle hay)" by (simp add: memmem_documented_def)
  from sip_request_reread [OF this 1, of "[]"] 1 show ?thesis by auto
qed

text \<open>
  Reading a request line without a version reads in front of the data, whatever the method, since
  the offset -1 is taken for an address.
\<close>

theorem sip_no_version_faults:
  assumes "memmem_documented mm" "\<nexists>u v. d = u @ '' SIP/'' @ v"
  shows "SipRequestFirstLine_parse mm d = Inl OutOfBounds"
proof -
  have none: "mm (drop k d) '' SIP/'' = None" for k
  proof -
    have "str_find '' SIP/'' (drop k d) = None"
      unfolding str_find_None using assms(2) by (metis append.assoc append_take_drop_id)
    then show ?thesis using assms(1) by (simp add: memmem_documented_def)
  qed
  from sip_parseMethod_total obtain m where m: "sip_parseMethod d = Inr m" by blast
  have "\<exists>u. (if m = SipMethodUnknown then Inr (-1) else bind_out (SipMethodEnumToString m) (\<lambda>s. Inr (int (length s + 1)))) = Inr u"
    by (cases m) auto
  then obtain u where "(if m = SipMethodUnknown then Inr (-1) else bind_out (SipMethodEnumToString m) (\<lambda>s. Inr (int (length s + 1)))) = Inr u" ..
  moreover have "sip_parseVersion mm d u = Inl OutOfBounds \<or> sip_parseVersion mm d u = Inr ([], -1)"
    by (simp add: sip_parseVersion_def none)
  ultimately show ?thesis using m by (auto simp: SipRequestFirstLine_parse_def)
qed

theorem sip_no_version_faults_witness:
  "SipRequestFirstLine_parse (\<lambda>hay needle. str_find needle hay) ''INVITE x'' = Inl OutOfBounds"
proof (rule sip_no_version_faults)
  show "memmem_documented (\<lambda>hay needle. str_find needle hay)" by (simp add: memmem_documented_def)
  have "str_find '' SIP/'' ''INVITE x'' = None" by code_simp
  then show "\<nexists>u v. ''INVITE x'' = u @ '' SIP/'' @ v" by (simp only: str_find_None simp_thms)
qed

lemma sip_status_number:
  assumes "s < 74"
  shows "\<exists>a b c. nat_str (sipStatusCodeEnumToInt ! s) = [a, b, c] \<and> sip_status_class a b c = sip_read_code s"
    "LF \<notin> set (nat_str (sipStatusCodeEnumToInt ! s))"
    "LF \<notin> set (sipStatusCodeEnumToString ! s)"
proof -
  let ?n = "sipStatusCodeEnumToInt ! s"
  have "100 \<le> ?n" "?n < 1000"
    using sip_numbers_three assms by (simp_all add: list_all_length sip_lengths)
  moreover have "sip_status_class (digit_char (?n div 100)) (digit_char (?n div 10 mod 10)) (digit_char (?n mod 10)) = sip_read_code s"
    using arg_cong [OF sip_codes_checked, of "\<lambda>l. l ! s"] assms by (simp add: sip_lengths)
  ultimately show "\<exists>a b c. nat_str ?n = [a, b, c] \<and> sip_status_class a b c = sip_read_code s" using nat_str_three by blast
  have "\<not> is_digit LF" by (simp add: is_digit_def)
  then show "LF \<notin> set (nat_str ?n)" using nat_str_other by blast
  show "LF \<notin> set (sipStatusCodeEnumToString ! s)"
    using sip_phrases_checked assms by (simp add: list_all_length sip_lengths)
qed

text \<open>
  A status line of a version of seven characters that is built and read back gives the same version
  and end, and the same status code except 470, which is read as unknown.
\<close>

theorem sip_response_reread:
  assumes "SipResponseFirstLine_build v s phrase = Inr (l, d)" "v = ''SIP/'' @ [a, b, c]" "CHR '' '' \<notin> {a, b, c}" "LF \<notin> {a, b, c}" "LF \<notin> set phrase"
  shows "SipResponseFirstLine_parse d = Inr (l\<lparr>ss_statusCode := sip_read_code s\<rparr>)"
proof -
  let ?p = "if phrase = [] then sipStatusCodeEnumToString ! s else phrase"
  let ?n = "nat_str (sipStatusCodeEnumToInt ! s)"
  from assms(1) have s: "s < 74" "s \<noteq> SipStatusCodeUnknown"
    and d: "d = v @ '' '' @ ?n @ '' '' @ ?p @ [CR, LF]"
    and l: "l = \<lparr>ss_version = v, ss_statusCode = s, ss_firstLineEnd = length d, ss_isComplete = True\<rparr>"
    by (auto simp: SipResponseFirstLine_build_def Let_def sip_lengths split: if_splits)
  from sip_status_number(1) [OF s(1)] obtain x y z where n: "?n = [x, y, z]" "sip_status_class x y z = sip_read_code s" by blast
  have v: "length v = 7" "CHR '' '' \<notin> set v" "LF \<notin> set v" using assms(2,3,4) by auto
  have "looks d 0 ''SIP/'' = Inr True" using looks_prefix [of "[]" "''SIP/''" "[a, b, c] @ '' '' @ ?n @ '' '' @ ?p @ [CR, LF]"]
    by (simp add: d assms(2) del: looks.simps)
  moreover have "memchr (CHR '' '') d = Some 7" "take 7 d = v" "\<not> length d < 7"
    using memchr_append [OF v(2), of "?n @ '' '' @ ?p @ [CR, LF]"] v(1) by (simp_all add: d)
  ultimately have version: "sip_response_version d = Inr v" by (simp only: sip_response_version_def if_False bind_out_simps option.case simp_thms)
  have i: "d ! 8 = x" "d ! 9 = y" "d ! 10 = z" "d ! 11 = CHR '' ''" "\<not> length d < 12"
    by (simp_all add: d n(1) assms(2) numeral_eq_Suc)
  have status: "sip_parseStatusCode d = Inr (sip_read_code s)"
    using i n(2) by (simp add: sip_parseStatusCode_def sip_validateStatusCode_def Let_def char_at_def)
  have "LF \<notin> set (v @ '' '' @ ?n @ '' '' @ ?p @ [CR])"
    using sip_status_number(2,3) [OF s(1)] v(3) assms(5) by auto
  then have "memchr LF ((v @ '' '' @ ?n @ '' '' @ ?p @ [CR]) @ LF # []) = Some (length (v @ '' '' @ ?n @ '' '' @ ?p @ [CR]))"
    by (rule memchr_append)
  moreover have "d = (v @ '' '' @ ?n @ '' '' @ ?p @ [CR]) @ LF # []" by (simp add: d)
  ultimately have "memchr LF d = Some (length d - 1)" by (metis butlast_snoc length_butlast)
  moreover have "v \<noteq> []" "0 < length d" using v(1) i(5) by auto
  ultimately show ?thesis using version status by (simp add: SipResponseFirstLine_parse_def l)
qed

theorem sip_response_reread_witness:
  "\<exists>l d. SipResponseFirstLine_build ''SIP/2.0'' Sip470ConsentNeeded [] = Inr (l, d)
     \<and> SipResponseFirstLine_parse d = Inr (l\<lparr>ss_statusCode := SipStatusCodeUnknown\<rparr>)"
proof -
  have "\<exists>l d. SipResponseFirstLine_build ''SIP/2.0'' Sip470ConsentNeeded [] = Inr (l, d)"
    by (simp add: SipResponseFirstLine_build_def sip_lengths Let_def)
  then obtain l d where 1: "SipResponseFirstLine_build ''SIP/2.0'' Sip470ConsentNeeded [] = Inr (l, d)" by blast
  have "''SIP/2.0'' = ''SIP/'' @ [CHR ''2'', CHR ''.'', CHR ''0'']" by simp
  from sip_response_reread [OF 1 this] have "SipResponseFirstLine_parse d = Inr (l\<lparr>ss_statusCode := SipStatusCodeUnknown\<rparr>)"
    by (simp add: sip_read_code_def)
  with 1 show ?thesis by blast
qed

text \<open>\<open>INFO\<close> is recognised in front of anything.\<close>

lemma sip_info_prefix: "sip_parseMethod (''INFO'' @ r) = Inr SipINFO"
  using sip_method_of [of "''INFO'' @ r"] by (simp add: sip_method_by_cases looks_inside)

end
