(* ===== verification/TextFields.thy ===== *)
theory TextFields
  imports TextLine Layer "HOL-Library.Multiset"
begin

text \<open>
  The header fields of text protocols (\<open>TextBasedProtocol.cpp\<close>: \<open>HeaderField\<close> and
  \<open>TextBasedProtocolMessage\<close>, the base of HTTP and SIP messages): fields parsed from the data behind
  the first line, added, inserted, removed, looked up and changed. The layer stands alone, with an
  array of characters. A field object has a number; the chain of \<open>m_NextField\<close> is the list of the
  fields with their numbers, and \<open>std::multimap\<close> is the list of its entries in the order in which they
  came, which is their order under each key. Sizes are below 2^31, where \<open>int\<close> and \<open>size_t\<close> agree.
\<close>

section \<open>Fields\<close>

text \<open>
  The fields of \<open>HeaderField\<close>; -1 is \<open>None\<close>, and the offset and size of the value, which are -1
  together, are one field. A field that belongs to no message has its own data.
\<close>

record header_field =
  hf_nameOffset :: nat
  hf_nameSize :: "nat option"
  hf_value :: "(nat \<times> nat) option"
  hf_size :: nat
  hf_isEnd :: bool
  hf_separator :: char
  hf_spaces :: bool

record new_field = header_field +
  m_NewFieldData :: string

definition tolower :: "char \<Rightarrow> char" where
  "tolower c = (if 65 \<le> (of_char c :: nat) \<and> of_char c \<le> (90 :: nat) then char_of (of_char c + 32 :: nat) else c)"

definition getFieldName :: "'a header_field_scheme \<Rightarrow> string \<Rightarrow> string outcome" where
  "getFieldName f d = (case hf_nameSize f of None \<Rightarrow> Inr [] | Some n \<Rightarrow> bytes_at d (hf_nameOffset f) n)"

definition getFieldValue :: "'a header_field_scheme \<Rightarrow> string \<Rightarrow> string outcome" where
  "getFieldValue f d = (case hf_value f of None \<Rightarrow> Inr [] | Some (i, n) \<Rightarrow> bytes_at d i n)"

definition initNewField :: "char \<Rightarrow> bool \<Rightarrow> string \<Rightarrow> string \<Rightarrow> new_field" where
  "initNewField sep spaces name value =
     (let nameValueSeparation = sep # (if spaces then '' '' else []);
          fieldData = (if name \<noteq> [] then name @ nameValueSeparation @ value @ [CR, LF] else [CR, LF])
      in \<lparr>hf_nameOffset = 0, hf_nameSize = Some (length name),
          hf_value = Some (if name \<noteq> [] then length name + length nameValueSeparation else 0, length value),
          hf_size = length fieldData, hf_isEnd = (name = []), hf_separator = sep, hf_spaces = spaces,
          m_NewFieldData = fieldData\<rparr>)"

text \<open>The copy of a field whose data are \<open>d\<close> is built again from its name and value.\<close>

definition HeaderField_copy :: "'a header_field_scheme \<Rightarrow> string \<Rightarrow> new_field outcome" where
  "HeaderField_copy other d =
     bind_out (getFieldName other d) (\<lambda>name. bind_out (getFieldValue other d) (\<lambda>value.
       Inr (initNewField (hf_separator other) (hf_spaces other) name value)))"

text \<open>
  The value behind a separator at \<open>p\<close>, in the data from the begin of the field on: \<open>eol\<close> is the end
  of the line, if there is one.
\<close>

definition field_value :: "bool \<Rightarrow> string \<Rightarrow> nat \<Rightarrow> nat option \<Rightarrow> (nat \<times> nat) option" where
  "field_value spaces r p eol =
     (let v = p + 1 + (if spaces then length (takeWhile (\<lambda>c. c = CHR '' '') (drop (p + 1) r)) else 0)
      in if v \<ge> length r then None
         else Some (v, case eol of
                None \<Rightarrow> length r - v
              | Some i \<Rightarrow> if r ! (i - 1) = CR then minus64 (i - v) 1 else i - v))"

definition shift_field :: "int \<Rightarrow> 'a header_field_scheme \<Rightarrow> 'a header_field_scheme" where
  "shift_field k f = f\<lparr>hf_nameOffset := nat (int (hf_nameOffset f) + k),
     hf_value := map_option (\<lambda>(i, n). (nat (int i + k), n)) (hf_value f)\<rparr>"

text \<open>
  The field that starts at an offset of the data of a message. An offset behind the data would
  make the number of characters to search wrap.
\<close>

definition HeaderField_parse :: "char \<Rightarrow> bool \<Rightarrow> string \<Rightarrow> nat \<Rightarrow> header_field outcome" where
  "HeaderField_parse sep spaces d off =
     (if off > length d then Inl OutOfBounds
      else let r = drop off d;
               eol = memchr LF r;
               size = (case eol of Some i \<Rightarrow> i + 1 | None \<Rightarrow> length (takeWhile (\<lambda>c. c \<noteq> NUL) r));
               f = \<lparr>hf_nameOffset = off, hf_nameSize = None, hf_value = None, hf_size = size, hf_isEnd = True,
                    hf_separator = sep, hf_spaces = spaces\<rparr>
           in Inr (if size = 0 \<or> r ! 0 = CR \<or> r ! 0 = LF then f
                   else case memchr sep r of
                     None \<Rightarrow> f\<lparr>hf_nameSize := Some size, hf_isEnd := False\<rparr>
                   | Some p \<Rightarrow>
                       if (case eol of Some i \<Rightarrow> p \<ge> i | None \<Rightarrow> False) then f\<lparr>hf_nameSize := Some size, hf_isEnd := False\<rparr>
                       else f\<lparr>hf_nameSize := Some p, hf_isEnd := False,
                              hf_value := map_option (\<lambda>(v, n). (off + v, n)) (field_value spaces r p eol)\<rparr>))"

section \<open>Messages\<close>

record text_message = "char layer" +
  tm_fields :: "(nat \<times> header_field) list"
  tm_last :: "nat option"
  tm_fieldsOffset :: nat
  tm_names :: "(string \<times> nat) list"
  tm_fresh :: nat

definition msg_data :: "text_message \<Rightarrow> string outcome" where
  "msg_data m = bind_out (lay_data m) (\<lambda>d. bytes_at d 0 (m_DataLen m))"

text \<open>A message that has its first line and no fields yet.\<close>

definition text_message_new :: "string \<Rightarrow> nat \<Rightarrow> text_message" where
  "text_message_new d fieldsOffset =
     \<lparr>m_Data = Some d, m_DataLen = length d, tm_fields = [], tm_last = None, tm_fieldsOffset = fieldsOffset, tm_names = [],
      tm_fresh = 0\<rparr>"

text \<open>The loop of \<open>parseFields\<close>, from the field \<open>cur\<close> at \<open>curOffset\<close>.\<close>

function parse_loop :: "char \<Rightarrow> bool \<Rightarrow> string \<Rightarrow> nat \<Rightarrow> header_field \<Rightarrow> header_field list outcome" where
  "parse_loop sep spaces d curOffset cur =
     (if \<not> hf_isEnd cur \<and> curOffset + hf_size cur < length d then
        bind_out (HeaderField_parse sep spaces d (curOffset + hf_size cur)) (\<lambda>new.
          if hf_size new > 0
          then bind_out (parse_loop sep spaces d (curOffset + hf_size cur) new) (\<lambda>fs. Inr (cur # fs))
          else Inr [cur])
      else Inr [cur])"
  by pat_completeness auto

termination
  by (relation "measure (\<lambda>(sep, spaces, d, off, cur). 2 * (length d - off) + (if hf_size cur = 0 then 1 else 0))") auto

text \<open>Fields in the order of the chain, with new numbers and entries under their names.\<close>

fun append_fields :: "string \<Rightarrow> header_field list \<Rightarrow> text_message \<Rightarrow> text_message outcome" where
  "append_fields d [] m = Inr m"
| "append_fields d (f # fs) m =
     bind_out (getFieldName f d) (\<lambda>name.
       append_fields d fs (m\<lparr>tm_fields := tm_fields m @ [(tm_fresh m, f)], tm_last := Some (tm_fresh m),
         tm_names := tm_names m @ [(map tolower name, tm_fresh m)], tm_fresh := tm_fresh m + 1\<rparr>))"

definition parseFields :: "char \<Rightarrow> bool \<Rightarrow> text_message \<Rightarrow> text_message outcome" where
  "parseFields sep spaces m =
     bind_out (msg_data m) (\<lambda>d.
     bind_out (HeaderField_parse sep spaces d (tm_fieldsOffset m)) (\<lambda>firstField.
     bind_out (parse_loop sep spaces d (tm_fieldsOffset m) firstField) (\<lambda>fs. append_fields d fs m)))"

definition find_field :: "nat \<Rightarrow> text_message \<Rightarrow> header_field outcome" where
  "find_field i m = (case map_of (tm_fields m) i of None \<Rightarrow> Inl Dangling | Some f \<Rightarrow> Inr f)"

definition getFieldByName :: "string \<Rightarrow> nat \<Rightarrow> text_message \<Rightarrow> nat option" where
  "getFieldByName fieldName index m =
     (let range = filter (\<lambda>e. fst e = map tolower fieldName) (tm_names m)
      in if index < length range then Some (snd (range ! index)) else None)"

definition getFieldCount :: "text_message \<Rightarrow> nat" where
  "getFieldCount m = length (filter (\<lambda>(_, f). \<not> hf_isEnd f) (tm_fields m))"

definition isHeaderComplete :: "text_message \<Rightarrow> bool outcome" where
  "isHeaderComplete m =
     (case tm_last m of
        None \<Rightarrow> Inr False
      | Some i \<Rightarrow> bind_out (find_field i m) (\<lambda>f. bind_out (lay_data m) (\<lambda>d. bind_out (getFieldName f d) (\<lambda>n. Inr (n = [])))))"

definition text_getHeaderLen :: "text_message \<Rightarrow> nat outcome" where
  "text_getHeaderLen m =
     (case tm_last m of
        None \<Rightarrow> Inl NullDeref
      | Some i \<Rightarrow> bind_out (find_field i m) (\<lambda>f. Inr (hf_nameOffset f + hf_size f)))"

text \<open>The fields up to a number, and those behind it, which \<open>shiftFieldsOffset\<close> moves.\<close>

definition upto_field :: "nat \<Rightarrow> (nat \<times> header_field) list \<Rightarrow> (nat \<times> header_field) list" where
  "upto_field i fs = takeWhile (\<lambda>e. fst e \<noteq> i) fs @ take 1 (dropWhile (\<lambda>e. fst e \<noteq> i) fs)"

definition behind_field :: "nat \<Rightarrow> (nat \<times> header_field) list \<Rightarrow> (nat \<times> header_field) list" where
  "behind_field i fs = tl (dropWhile (\<lambda>e. fst e \<noteq> i) fs)"

definition shiftFieldsOffset :: "int \<Rightarrow> (nat \<times> header_field) list \<Rightarrow> (nat \<times> header_field) list" where
  "shiftFieldsOffset k fs = map (\<lambda>(i, f). (i, shift_field k f)) fs"

text \<open>The offset comes from the one of the new field's own data, which is 0.\<close>

definition attach :: "nat \<Rightarrow> new_field \<Rightarrow> header_field" where
  "attach off f = header_field.truncate f
     \<lparr>hf_nameOffset := off, hf_value := map_option (\<lambda>(i, n). (off + (i - hf_nameOffset f), n)) (hf_value f)\<rparr>"

section \<open>Operations\<close>

text \<open>Where a field goes behind \<open>prev\<close>, and whether that is the end of the header.\<close>

definition insert_place :: "nat option \<Rightarrow> text_message \<Rightarrow> (bool \<times> nat) outcome" where
  "insert_place prev m =
     (case prev of
         None \<Rightarrow> Inr (False, tm_fieldsOffset m)
       | Some i \<Rightarrow> bind_out (find_field i m) (\<lambda>f. bind_out (lay_data m) (\<lambda>d. bind_out (getFieldName f d) (\<lambda>n.
           Inr (n = [], hf_nameOffset f + hf_size f)))))"

text \<open>
  \<open>insertField(prevField, newField)\<close> for a new field that belongs to no message (the type says so);
  \<open>prev\<close> is the number of the field before it, \<open>None\<close> for NULL. The result is the number of the field
  added, \<open>None\<close> for NULL.
\<close>

definition insertField :: "(nat \<Rightarrow> char) \<Rightarrow> nat option \<Rightarrow> new_field \<Rightarrow> text_message \<Rightarrow> (text_message \<times> nat option) outcome" where
  "insertField junk prev newField m =
     bind_out (insert_place prev m) (\<lambda>(ended, off).
       if ended then Inr (m, None)
       else bind_out (HeaderField_copy newField (m_NewFieldData newField)) (\<lambda>new.
            bind_out (extendLayer junk (int off) (hf_size new) m) (\<lambda>(m1, ok).
              if \<not> ok then Inr (m, None)
              else bind_out (write_at off (take (hf_size new) (m_NewFieldData new)) m1) (\<lambda>m2.
                let id = tm_fresh m;
                    before = (case prev of None \<Rightarrow> [] | Some i \<Rightarrow> upto_field i (tm_fields m));
                    after = (case prev of None \<Rightarrow> tm_fields m | Some i \<Rightarrow> behind_field i (tm_fields m));
                    f = attach off new
                in bind_out (lay_data m2) (\<lambda>d. bind_out (getFieldName f d) (\<lambda>name.
                     Inr (m2\<lparr>tm_fields := before @ (id, f) # shiftFieldsOffset (int (hf_size new)) after,
                             tm_last := (if after = [] then Some id else tm_last m),
                             tm_names := tm_names m @ [(map tolower name, id)], tm_fresh := id + 1\<rparr>, Some id)))))))"

definition addField :: "(nat \<Rightarrow> char) \<Rightarrow> new_field \<Rightarrow> text_message \<Rightarrow> (text_message \<times> nat option) outcome" where
  "addField junk newField m = insertField junk (tm_last m) newField m"

definition addField_named ::
    "(nat \<Rightarrow> char) \<Rightarrow> char \<Rightarrow> bool \<Rightarrow> string \<Rightarrow> string \<Rightarrow> text_message \<Rightarrow> (text_message \<times> nat option) outcome" where
  "addField_named junk sep spaces fieldName fieldValue m = addField junk (initNewField sep spaces fieldName fieldValue) m"

definition addEndOfHeader :: "(nat \<Rightarrow> char) \<Rightarrow> text_message \<Rightarrow> (text_message \<times> nat option) outcome" where
  "addEndOfHeader junk m = insertField junk (tm_last m) (initNewField NUL False [] []) m"

definition insertField_named ::
    "(nat \<Rightarrow> char) \<Rightarrow> char \<Rightarrow> bool \<Rightarrow> string \<Rightarrow> string \<Rightarrow> string \<Rightarrow> text_message \<Rightarrow> (text_message \<times> nat option) outcome" where
  "insertField_named junk sep spaces prevFieldName fieldName fieldValue m =
     (if prevFieldName = [] then insertField junk None (initNewField sep spaces fieldName fieldValue) m
      else case getFieldByName prevFieldName 0 m of
             None \<Rightarrow> Inr (m, None)
           | Some i \<Rightarrow> insertField junk (Some i) (initNewField sep spaces fieldName fieldValue) m)"

text \<open>The first entry under the name that points to the field.\<close>

fun erase_entry :: "'e \<Rightarrow> 'e list \<Rightarrow> 'e list" where
  "erase_entry e [] = []"
| "erase_entry e (x # xs) = (if x = e then xs else x # erase_entry e xs)"

definition removeField :: "nat option \<Rightarrow> text_message \<Rightarrow> (text_message \<times> bool) outcome" where
  "removeField fieldToRemove m =
     (case fieldToRemove of
        None \<Rightarrow> Inr (m, True)
      | Some i \<Rightarrow>
          if i \<notin> fst ` set (tm_fields m) then Inr (m, False)
          else bind_out (find_field i m) (\<lambda>f. bind_out (lay_data m) (\<lambda>d. bind_out (getFieldName f d) (\<lambda>name.
               bind_out (shortenLayer (int (hf_nameOffset f)) (hf_size f) m) (\<lambda>(m1, ok).
                 if \<not> ok then Inr (m, False)
                 else let fs = takeWhile (\<lambda>e. fst e \<noteq> i) (tm_fields m)
                               @ shiftFieldsOffset (- int (hf_size f)) (behind_field i (tm_fields m))
                      in Inr (m1\<lparr>tm_fields := fs,
                                 tm_last := (if tm_last m = Some i then (if fs = [] then None else Some (fst (last fs))) else tm_last m),
                                 tm_names := erase_entry (map tolower name, i) (tm_names m)\<rparr>, True))))))"

definition removeField_named :: "string \<Rightarrow> nat \<Rightarrow> text_message \<Rightarrow> (text_message \<times> bool) outcome" where
  "removeField_named fieldName index m =
     (case getFieldByName fieldName index m of
        None \<Rightarrow> Inr (m, False)
      | Some i \<Rightarrow> removeField (Some i) m)"

text \<open>
  \<open>setFieldValue\<close> of a field that belongs to the message. Without a value the offset is -1, which
  makes no room, and with which an empty value writes nothing.
\<close>

definition setFieldValue :: "(nat \<Rightarrow> char) \<Rightarrow> nat \<Rightarrow> string \<Rightarrow> text_message \<Rightarrow> (text_message \<times> bool) outcome" where
  "setFieldValue junk i newValue m =
     bind_out (find_field i m) (\<lambda>f. bind_out (lay_data m) (\<lambda>d. bind_out (getFieldValue f d) (\<lambda>curValue.
       let k = int (length newValue) - int (length curValue);
           off = (case hf_value f of None \<Rightarrow> -1 | Some (v, _) \<Rightarrow> int v)
       in bind_out (if k > 0 then extendLayer junk off (nat k) m
                    else if k < 0 then shortenLayer off (nat (- k)) m else Inr (m, True)) (\<lambda>(m1, ok).
            if \<not> ok then Inr (m, False)
            else let f' = f\<lparr>hf_value := map_option (\<lambda>(v, n). (v, nat (int n + k))) (hf_value f),
                            hf_size := nat (int (hf_size f) + k)\<rparr>;
                     m2 = m1\<lparr>tm_fields := takeWhile (\<lambda>e. fst e \<noteq> i) (tm_fields m) @ (i, f')
                               # shiftFieldsOffset k (behind_field i (tm_fields m))\<rparr>
                 in if newValue = [] then Inr (m2, True)
                    else bind_out (write_at (nat off) newValue m2) (\<lambda>m3. Inr (m3, True))))))"

text \<open>
  The copy of a message: the array with all of the data but the length of the header (\<open>Layer.cpp\<close>), a
  copy of every field at the offset of the original, and entries under the names as they stand.
\<close>

fun copy_fields :: "string \<Rightarrow> string \<Rightarrow> (nat \<times> header_field) list \<Rightarrow> text_message \<Rightarrow> text_message outcome" where
  "copy_fields d d' [] c = Inr c"
| "copy_fields d d' ((_, f) # fs) c =
     bind_out (HeaderField_copy f d) (\<lambda>new.
     let g = attach (hf_nameOffset f) new; id = tm_fresh c
     in bind_out (getFieldName g d') (\<lambda>name.
          copy_fields d d' fs (c\<lparr>tm_fields := tm_fields c @ [(id, g)], tm_last := Some id, tm_names := tm_names c @ [(name, id)],
            tm_fresh := id + 1\<rparr>)))"

definition text_message_copy :: "text_message \<Rightarrow> text_message outcome" where
  "text_message_copy other =
     bind_out (text_getHeaderLen other) (\<lambda>hl.
     bind_out (layer_copy hl (layer.truncate other)) (\<lambda>l.
     bind_out (lay_data other) (\<lambda>d. bind_out (lay_data l) (\<lambda>d'.
       copy_fields d d' (tm_fields other) (text_message_new d' (tm_fieldsOffset other)\<lparr>m_DataLen := m_DataLen l\<rparr>)))))"

section \<open>Well-formed messages\<close>

text \<open>
  What a message stands for: its first line, the fields one after another, each with its own text,
  and the body. A field is seen as if it stood alone (offset 0, with its data); \<open>attach\<close> puts it at
  its place.
\<close>

definition nf_name :: "new_field \<Rightarrow> string" where
  "nf_name nf = (case hf_nameSize nf of None \<Rightarrow> [] | Some n \<Rightarrow> take n (m_NewFieldData nf))"

definition nf_value :: "new_field \<Rightarrow> string" where
  "nf_value nf = (case hf_value nf of None \<Rightarrow> [] | Some (i, n) \<Rightarrow> take n (drop i (m_NewFieldData nf)))"

definition field_ok :: "new_field \<Rightarrow> bool" where
  "field_ok nf \<longleftrightarrow> hf_nameOffset nf = 0 \<and> hf_size nf = length (m_NewFieldData nf) \<and> m_NewFieldData nf \<noteq> []
     \<and> (\<forall>n. hf_nameSize nf = Some n \<longrightarrow> n \<le> hf_size nf)
     \<and> (\<forall>i n. hf_value nf = Some (i, n) \<longrightarrow> i + n \<le> hf_size nf \<and> (0 < i \<or> i + n < hf_size nf)
          \<and> (\<forall>k. hf_nameSize nf = Some k \<longrightarrow> k \<le> i))"

definition texts :: "(nat \<times> new_field) list \<Rightarrow> string" where
  "texts ps = concat (map (\<lambda>p. m_NewFieldData (snd p)) ps)"

fun placed :: "nat \<Rightarrow> (nat \<times> new_field) list \<Rightarrow> (nat \<times> header_field) list" where
  "placed off [] = []"
| "placed off ((i, nf) # ps) = (i, attach off nf) # placed (off + length (m_NewFieldData nf)) ps"

definition entry :: "nat \<times> new_field \<Rightarrow> string \<times> nat" where
  "entry p = (map tolower (nf_name (snd p)), fst p)"

definition last_id :: "(nat \<times> 'f) list \<Rightarrow> nat option" where
  "last_id ps = (if ps = [] then None else Some (fst (last ps)))"

definition message_is :: "string \<Rightarrow> (nat \<times> new_field) list \<Rightarrow> string \<Rightarrow> text_message \<Rightarrow> bool" where
  "message_is line ps body m \<longleftrightarrow> m_Data m = Some (line @ texts ps @ body) \<and> m_DataLen m = length (line @ texts ps @ body)
     \<and> tm_fieldsOffset m = length line \<and> tm_fields m = placed (length line) ps \<and> tm_last m = last_id ps
     \<and> mset (tm_names m) = mset (map entry ps) \<and> distinct (map fst ps)
     \<and> (\<forall>p \<in> set ps. fst p < tm_fresh m \<and> field_ok (snd p))"

lemma texts_simps [simp]:
  "texts [] = []" "texts (p # ps) = m_NewFieldData (snd p) @ texts ps" "texts (ps @ qs) = texts ps @ texts qs"
  by (simp_all add: texts_def)

lemma map_fst_placed [simp]: "map fst (placed off ps) = map fst ps"
  by (induction off ps rule: placed.induct) simp_all

lemma placed_Nil [simp]: "placed off ps = [] \<longleftrightarrow> ps = []"
  by (cases ps) auto

lemma placed_append [simp]: "placed off (ps @ qs) = placed off ps @ placed (off + length (texts ps)) qs"
  by (induction off ps rule: placed.induct) (simp_all add: add.assoc)

lemma fst_set_placed: "fst ` set (placed off ps) = fst ` set ps"
  by (metis list.set_map map_fst_placed)

lemma last_id_placed [simp]: "last_id (placed off ps) = last_id ps"
  by (cases ps rule: rev_cases) (auto simp: last_id_def)

lemma last_id_simps [simp]: "last_id (ps @ [p]) = Some (fst p)" "last_id [] = None"
  by (simp_all add: last_id_def)

lemma last_id_append: "qs \<noteq> [] \<Longrightarrow> last_id (ps @ qs) = last_id qs"
  by (simp add: last_id_def)

lemma shift_attach:
  "hf_nameOffset nf = 0 \<Longrightarrow> shift_field (int k) (attach off nf) = attach (off + k) nf"
  "hf_nameOffset nf = 0 \<Longrightarrow> shift_field (- int k) (attach (off + k) nf) = attach off nf"
  by (cases nf; cases "hf_value nf"; auto simp: shift_field_def attach_def header_field.defs split: option.splits)+

lemma shift_placed:
  assumes "\<forall>p \<in> set ps. field_ok (snd p)"
  shows "shiftFieldsOffset (int k) (placed off ps) = placed (off + k) ps"
    "shiftFieldsOffset (- int k) (placed (off + k) ps) = placed off ps"
proof -
  have "shift_field (int k) (attach off nf) = attach (off + k) nf" "shift_field (- int k) (attach (off + k) nf) = attach off nf"
    if "field_ok nf" for nf off
    using that by (simp_all add: shift_attach field_ok_def)
  then show "shiftFieldsOffset (int k) (placed off ps) = placed (off + k) ps"
    "shiftFieldsOffset (- int k) (placed (off + k) ps) = placed off ps"
    using assms by (induction off ps rule: placed.induct) (auto simp: shiftFieldsOffset_def add.assoc add.commute add.left_commute)
qed

text \<open>Reading a field in its place.\<close>

lemma name_read:
  assumes "field_ok nf"
  shows "getFieldName (attach (length u) nf) (u @ m_NewFieldData nf @ v) = Inr (nf_name nf)"
    "getFieldValue (attach (length u) nf) (u @ m_NewFieldData nf @ v) = Inr (nf_value nf)"
  using assms
  by (auto simp: getFieldName_def getFieldValue_def attach_def nf_name_def nf_value_def field_ok_def bytes_at_def header_field.defs
      split: option.splits)

lemma new_read:
  assumes "field_ok nf"
  shows "getFieldName nf (m_NewFieldData nf) = Inr (nf_name nf)" "getFieldValue nf (m_NewFieldData nf) = Inr (nf_value nf)"
  using assms by (auto simp: getFieldName_def getFieldValue_def nf_name_def nf_value_def field_ok_def bytes_at_def split: option.splits)

lemma init_ok:
  assumes "name \<noteq> [] \<or> value = []"
  shows "field_ok (initNewField sep spaces name value)" "nf_name (initNewField sep spaces name value) = name"
    "nf_value (initNewField sep spaces name value) = value"
    "HeaderField_copy (initNewField sep spaces name value) (m_NewFieldData (initNewField sep spaces name value))
       = Inr (initNewField sep spaces name value)"
proof -
  show ok: "field_ok (initNewField sep spaces name value)" and n: "nf_name (initNewField sep spaces name value) = name"
    and v: "nf_value (initNewField sep spaces name value) = value"
    using assms by (auto simp: field_ok_def initNewField_def Let_def nf_name_def nf_value_def)
  show "HeaderField_copy (initNewField sep spaces name value) (m_NewFieldData (initNewField sep spaces name value))
       = Inr (initNewField sep spaces name value)"
  proof -
    have "hf_separator (initNewField sep spaces name value) = sep" "hf_spaces (initNewField sep spaces name value) = spaces"
      by (simp_all add: initNewField_def Let_def)
    then show ?thesis using new_read [OF ok] n v by (simp add: HeaderField_copy_def)
  qed
qed

text \<open>A message cut at one of its fields.\<close>

lemma placed_split:
  assumes "distinct (map fst (ps @ (i, nf) # qs))"
  shows "takeWhile (\<lambda>e. fst e \<noteq> i) (placed off (ps @ (i, nf) # qs)) = placed off ps"
    "dropWhile (\<lambda>e. fst e \<noteq> i) (placed off (ps @ (i, nf) # qs)) = placed (off + length (texts ps)) ((i, nf) # qs)"
    "map_of (placed off (ps @ (i, nf) # qs)) i = Some (attach (off + length (texts ps)) nf)"
proof -
  have "i \<notin> fst ` set (placed off ps)" using assms by (simp add: fst_set_placed)
  then have "\<forall>e \<in> set (placed off ps). fst e \<noteq> i" by force
  then show "takeWhile (\<lambda>e. fst e \<noteq> i) (placed off (ps @ (i, nf) # qs)) = placed off ps"
    "dropWhile (\<lambda>e. fst e \<noteq> i) (placed off (ps @ (i, nf) # qs)) = placed (off + length (texts ps)) ((i, nf) # qs)"
    by simp_all
  have "map_of (placed off ps) i = None" using \<open>i \<notin> fst ` set (placed off ps)\<close> by (simp add: map_of_eq_None_iff)
  then show "map_of (placed off (ps @ (i, nf) # qs)) i = Some (attach (off + length (texts ps)) nf)"
    by (simp add: map_add_def)
qed

lemma message_field:
  assumes "message_is line (ps @ (i, nf) # qs) body m"
  shows "find_field i m = Inr (attach (length line + length (texts ps)) nf)"
    "lay_data m = Inr ((line @ texts ps) @ m_NewFieldData nf @ texts qs @ body)"
    "getFieldName (attach (length line + length (texts ps)) nf) ((line @ texts ps) @ m_NewFieldData nf @ texts qs @ body) = Inr (nf_name nf)"
    "getFieldValue (attach (length line + length (texts ps)) nf) ((line @ texts ps) @ m_NewFieldData nf @ texts qs @ body) = Inr (nf_value nf)"
    "upto_field i (tm_fields m) = placed (length line) (ps @ [(i, nf)])"
    "takeWhile (\<lambda>e. fst e \<noteq> i) (tm_fields m) = placed (length line) ps"
    "behind_field i (tm_fields m) = placed (length line + length (texts ps) + length (m_NewFieldData nf)) qs"
    "i \<in> fst ` set (tm_fields m)" "field_ok nf"
proof -
  have d: "distinct (map fst (ps @ (i, nf) # qs))" and f: "tm_fields m = placed (length line) (ps @ (i, nf) # qs)"
    and ok: "field_ok nf"
    using assms by (simp_all add: message_is_def)
  show "find_field i m = Inr (attach (length line + length (texts ps)) nf)"
    unfolding find_field_def f placed_split(3) [OF d] by simp
  show "lay_data m = Inr ((line @ texts ps) @ m_NewFieldData nf @ texts qs @ body)"
    using assms by (simp add: message_is_def lay_data_def)
  show "getFieldName (attach (length line + length (texts ps)) nf) ((line @ texts ps) @ m_NewFieldData nf @ texts qs @ body) = Inr (nf_name nf)"
    "getFieldValue (attach (length line + length (texts ps)) nf) ((line @ texts ps) @ m_NewFieldData nf @ texts qs @ body) = Inr (nf_value nf)"
    using name_read [OF ok, of "line @ texts ps" "texts qs @ body"] by simp_all
  show "upto_field i (tm_fields m) = placed (length line) (ps @ [(i, nf)])"
    "takeWhile (\<lambda>e. fst e \<noteq> i) (tm_fields m) = placed (length line) ps"
    "behind_field i (tm_fields m) = placed (length line + length (texts ps) + length (m_NewFieldData nf)) qs"
    unfolding upto_field_def behind_field_def f placed_split [OF d] by simp_all
  show "i \<in> fst ` set (tm_fields m)" by (simp add: f fst_set_placed)
  show "field_ok nf" by (fact ok)
qed

lemma attach_size [simp]: "hf_size (attach off nf) = hf_size nf" "hf_nameOffset (attach off nf) = off" "hf_isEnd (attach off nf) = hf_isEnd nf"
  by (simp_all add: attach_def header_field.defs)

text \<open>Insertion behind the fields \<open>ps\<close>, the last of which has a name.\<close>

lemma insert_between:
  assumes m: "message_is line (ps @ qs) body m" and named: "ps \<noteq> [] \<longrightarrow> nf_name (snd (last ps)) \<noteq> []"
  shows "insert_place (last_id ps) m = Inr (False, length line + length (texts ps))"
    "(case last_id ps of None \<Rightarrow> [] | Some i \<Rightarrow> upto_field i (tm_fields m)) = placed (length line) ps"
    "(case last_id ps of None \<Rightarrow> tm_fields m | Some i \<Rightarrow> behind_field i (tm_fields m)) = placed (length line + length (texts ps)) qs"
proof -
  have "insert_place (last_id ps) m = Inr (False, length line + length (texts ps))
    \<and> (case last_id ps of None \<Rightarrow> [] | Some i \<Rightarrow> upto_field i (tm_fields m)) = placed (length line) ps
    \<and> (case last_id ps of None \<Rightarrow> tm_fields m | Some i \<Rightarrow> behind_field i (tm_fields m)) = placed (length line + length (texts ps)) qs"
  proof (cases ps rule: rev_cases)
    case Nil
    then show ?thesis using m by (simp add: insert_place_def message_is_def)
  next
    case (snoc ps' p)
    obtain i nf where p: "p = (i, nf)" by (cases p)
    note f = message_field [OF m [unfolded snoc p append_assoc append_Cons append_Nil]]
    have "nf_name nf \<noteq> []" "hf_size nf = length (m_NewFieldData nf)" using named f(9) snoc p by (simp_all add: field_ok_def)
    then show ?thesis using f(1-5,7) by (simp add: insert_place_def snoc p add.assoc)
  qed
  then show "insert_place (last_id ps) m = Inr (False, length line + length (texts ps))"
    "(case last_id ps of None \<Rightarrow> [] | Some i \<Rightarrow> upto_field i (tm_fields m)) = placed (length line) ps"
    "(case last_id ps of None \<Rightarrow> tm_fields m | Some i \<Rightarrow> behind_field i (tm_fields m)) = placed (length line + length (texts ps)) qs"
    by simp_all
qed

lemma field_inserted:
  assumes m: "message_is line (ps @ qs) body m" and named: "ps \<noteq> [] \<longrightarrow> nf_name (snd (last ps)) \<noteq> []"
    and ok: "field_ok new" "HeaderField_copy new (m_NewFieldData new) = Inr new"
  shows "\<exists>m'. insertField junk (last_id ps) new m = Inr (m', Some (tm_fresh m)) \<and> message_is line (ps @ (tm_fresh m, new) # qs) body m'
    \<and> tm_names m' = tm_names m @ [(map tolower (nf_name new), tm_fresh m)] \<and> tm_fresh m' = tm_fresh m + 1"
proof -
  let ?a = "line @ texts ps" and ?b = "texts qs @ body" and ?x = "m_NewFieldData new" and ?id = "tm_fresh m"
  have size: "hf_size new = length ?x" using ok(1) by (simp add: field_ok_def)
  let ?m1 = "m\<lparr>m_Data := Some (?a @ junk_bytes junk (hf_size new) @ ?b), m_DataLen := length (?a @ ?b) + hf_size new\<rparr>"
  let ?m2 = "?m1\<lparr>m_Data := Some (?a @ ?x @ ?b)\<rparr>"
  let ?m' = "?m2\<lparr>tm_fields := placed (length line) ps @ (?id, attach (length ?a) new) # placed (length ?a + hf_size new) qs,
     tm_last := (if placed (length ?a) qs = [] then Some ?id else tm_last m),
     tm_names := tm_names m @ [(map tolower (nf_name new), ?id)], tm_fresh := ?id + 1\<rparr>"
  have data: "m_Data m = Some (?a @ ?b)" "m_DataLen m = length (?a @ ?b)" and all: "\<forall>p \<in> set qs. field_ok (snd p)"
    using m by (auto simp: message_is_def)
  have extended: "extendLayer junk (int (length ?a)) (hf_size new) m = Inr (?m1, True)" by (rule extend_at [OF data])
  have written: "write_at (length ?a) (take (hf_size new) ?x) ?m1 = Inr ?m2"
  proof -
    have "m_Data ?m1 = Some (?a @ junk_bytes junk (hf_size new) @ ?b)" by simp
    moreover have "length ?x = length (junk_bytes junk (hf_size new))" "take (hf_size new) ?x = ?x" unfolding length_junk size by (rule refl, rule take_all [OF order_refl])
    ultimately show ?thesis by (simp only: write_between)
  qed
  have read: "getFieldName (attach (length ?a) new) (?a @ ?x @ ?b) = Inr (nf_name new)" using name_read(1) [OF ok(1)] .
  have place: "insert_place (last_id ps) m = Inr (False, length ?a)" using insert_between(1) [OF m named] by simp
  have layed: "lay_data ?m2 = Inr (?a @ ?x @ ?b)" by (simp add: lay_data_def)
  note around = insert_between(2,3) [OF m named, unfolded length_append [symmetric]]
  have "insertField junk (last_id ps) new m = Inr (?m', Some ?id)"
    unfolding insertField_def place bind_out_simps prod.case if_False if_True simp_thms ok(2) extended written Let_def
      layed read around shift_placed(1) [OF all] by simp
  moreover have "message_is line (ps @ (?id, new) # qs) body ?m'"
    unfolding message_is_def
  proof (intro conjI)
    show "tm_last ?m' = last_id (ps @ (?id, new) # qs)"
      using m by (cases "qs = []") (simp_all add: message_is_def last_id_def)
    show "mset (tm_names ?m') = mset (map entry (ps @ (?id, new) # qs))" using m by (simp add: message_is_def entry_def)
    have "\<forall>p \<in> set (ps @ qs). fst p \<noteq> ?id" "distinct (map fst (ps @ qs))" using m by (simp_all add: message_is_def) force
    then show "distinct (map fst (ps @ (?id, new) # qs))" by simp force
    show "\<forall>p \<in> set (ps @ (?id, new) # qs). fst p < tm_fresh ?m' \<and> field_ok (snd p)"
      using m ok(1) by (auto simp: message_is_def less_SucI)
  qed (use m size in \<open>simp_all add: message_is_def add.assoc\<close>)
  moreover have "tm_names ?m' = tm_names m @ [(map tolower (nf_name new), ?id)]" "tm_fresh ?m' = ?id + 1" by simp_all
  ultimately show ?thesis by blast
qed

lemma erase_entry_split: "e \<notin> set xs \<Longrightarrow> erase_entry e (xs @ e # ys) = xs @ ys"
  by (induction xs) auto

lemma mset_erase_entry: "mset (erase_entry e xs) = mset xs - {#e#}"
  by (induction e xs rule: erase_entry.induct) auto

lemma field_removed:
  assumes m: "message_is line (ps @ (i, nf) # qs) body m"
  shows "\<exists>m'. removeField (Some i) m = Inr (m', True) \<and> message_is line (ps @ qs) body m'
    \<and> tm_names m' = erase_entry (entry (i, nf)) (tm_names m) \<and> tm_fresh m' = tm_fresh m"
proof -
  note f = message_field [OF m]
  let ?a = "line @ texts ps" and ?b = "texts qs @ body" and ?x = "m_NewFieldData nf"
  have size: "hf_size nf = length ?x" "?x @ ?b \<noteq> []" using f(9) by (auto simp: field_ok_def)
  have data: "m_Data m = Some (?a @ ?x @ ?b)" "m_DataLen m = length (?a @ ?x @ ?b)" and all: "\<forall>p \<in> set qs. field_ok (snd p)"
    using m by (auto simp: message_is_def)
  let ?fs = "placed (length line) ps @ placed (length ?a) qs"
  let ?m' = "m\<lparr>m_Data := Some (?a @ ?b), m_DataLen := length (?a @ ?b), tm_fields := ?fs,
     tm_last := (if tm_last m = Some i then (if ?fs = [] then None else Some (fst (last ?fs))) else tm_last m),
     tm_names := erase_entry (map tolower (nf_name nf), i) (tm_names m)\<rparr>"
  have shortened: "shortenLayer (int (length ?a)) (length ?x) m = Inr (m\<lparr>m_Data := Some (?a @ ?b), m_DataLen := length (?a @ ?b)\<rparr>, True)"
    by (rule shorten_at [OF data size(2)])
  note found = f(1-3) [unfolded length_append [symmetric]] and rest = f(6,7) [unfolded length_append [symmetric]]
  have shifted: "shiftFieldsOffset (- int (length ?x)) (placed (length ((line @ texts ps) @ ?x)) qs) = placed (length ?a) qs"
    using shift_placed(2) [OF all, of "length ?x" "length ?a"] by (simp only: length_append)
  have "removeField (Some i) m = Inr (?m', True)"
    unfolding removeField_def option.case found bind_out_simps attach_size size(1) shortened prod.case Let_def rest shifted
    using f(8) by simp
  moreover have "message_is line (ps @ qs) body ?m'"
    unfolding message_is_def
  proof (intro conjI)
    have "last_id ?fs = last_id (ps @ qs)" by (metis last_id_placed length_append placed_append)
    moreover have "tm_last m = last_id (ps @ (i, nf) # qs)" "i \<notin> fst ` set qs" using m by (simp_all add: message_is_def)
    moreover have "fst (last qs) \<in> fst ` set qs" if "qs \<noteq> []" using that by simp
    ultimately show "tm_last ?m' = last_id (ps @ qs)" by (cases "qs = []") (auto simp: last_id_def)
    show "mset (tm_names ?m') = mset (map entry (ps @ qs))"
      using m by (simp add: message_is_def mset_erase_entry entry_def)
    show "distinct (map fst (ps @ qs))" using m by (auto simp: message_is_def)
  qed (use m in \<open>simp_all add: message_is_def add.assoc\<close>)
  moreover have "tm_names ?m' = erase_entry (entry (i, nf)) (tm_names m)" "tm_fresh ?m' = tm_fresh m" by (simp_all add: entry_def)
  ultimately show ?thesis by blast
qed

text \<open>A field with another value.\<close>

definition with_value :: "string \<Rightarrow> new_field \<Rightarrow> new_field" where
  "with_value x nf =
     (case hf_value nf of
        None \<Rightarrow> nf
      | Some (i, n) \<Rightarrow> nf\<lparr>hf_value := Some (i, length x), hf_size := hf_size nf + length x - n,
          m_NewFieldData := take i (m_NewFieldData nf) @ x @ drop (i + n) (m_NewFieldData nf)\<rparr>)"

lemma with_value_ok:
  assumes "field_ok nf"
  shows "field_ok (with_value x nf)" "nf_name (with_value x nf) = nf_name nf"
    "hf_value nf \<noteq> None \<Longrightarrow> nf_value (with_value x nf) = x" "hf_isEnd (with_value x nf) = hf_isEnd nf"
proof -
  show "field_ok (with_value x nf)"
    using assms by (cases "hf_value nf") (auto simp: field_ok_def with_value_def)
  show "nf_name (with_value x nf) = nf_name nf"
    using assms by (cases "hf_value nf"; cases "hf_nameSize nf") (auto simp: field_ok_def with_value_def nf_name_def min_def)
  show "hf_value nf \<noteq> None \<Longrightarrow> nf_value (with_value x nf) = x"
    using assms by (auto simp: field_ok_def with_value_def nf_value_def)
  show "hf_isEnd (with_value x nf) = hf_isEnd nf" by (auto simp: with_value_def split: option.splits)
qed

lemma shift_any:
  assumes "\<forall>p \<in> set ps. field_ok (snd p)" "n \<le> t"
  shows "shiftFieldsOffset (int y - int n) (placed (off + t) ps) = placed (off + (t + y - n)) ps"
proof (cases "n \<le> y")
  case True
  then show ?thesis using shift_placed(1) [OF assms(1), of "y - n" "off + t"] assms(2) by (simp add: of_nat_diff add.assoc)
next
  case False
  then have "off + (t + y - n) + (n - y) = off + t" using assms(2) by simp
  with shift_placed(2) [OF assms(1), of "n - y" "off + (t + y - n)"] False show ?thesis by (simp add: of_nat_diff)
qed

lemma attach_with_value:
  assumes "hf_value nf = Some (i, n)" "hf_nameOffset nf = 0"
  shows "attach off (with_value x nf) = (attach off nf)\<lparr>hf_value := Some (off + i, length x), hf_size := hf_size nf + length x - n\<rparr>"
  using assms by (simp add: attach_def with_value_def header_field.defs)

lemma field_set:
  assumes m: "message_is line (ps @ (i, nf) # qs) body m" and v: "hf_value nf = Some (v, n)"
  shows "\<exists>m'. setFieldValue junk i x m = Inr (m', True) \<and> message_is line (ps @ (i, with_value x nf) # qs) body m'
    \<and> tm_names m' = tm_names m \<and> tm_fresh m' = tm_fresh m"
proof -
  note f = message_field [OF m]
  have ok: "hf_nameOffset nf = 0" "hf_size nf = length (m_NewFieldData nf)" "v + n \<le> hf_size nf"
    using f(9) v by (auto simp: field_ok_def)
  let ?x = "m_NewFieldData nf" and ?off = "length line + length (texts ps)"
  let ?a = "line @ texts ps @ take v ?x" and ?old = "take n (drop v ?x)" and ?b = "drop (v + n) ?x @ texts qs @ body"
  have cut: "?x = take v ?x @ ?old @ drop (v + n) ?x" by (metis append_take_drop_id drop_drop add.commute)
  have len: "length ?old = n" "length ?a = ?off + v" using ok by simp_all
  have data: "m_Data m = Some (?a @ ?old @ ?b)" "m_DataLen m = length (?a @ ?old @ ?b)" and all: "\<forall>p \<in> set qs. field_ok (snd p)"
  proof -
    have "m_Data m = Some (line @ texts ps @ ?x @ texts qs @ body)" "m_DataLen m = length (line @ texts ps @ ?x @ texts qs @ body)"
      using m by (simp_all add: message_is_def)
    then show "m_Data m = Some (?a @ ?old @ ?b)" "m_DataLen m = length (?a @ ?old @ ?b)"
      by (subst (asm) cut, simp)+
    show "\<forall>p \<in> set qs. field_ok (snd p)" using m by (simp add: message_is_def)
  qed
  have val: "nf_value nf = ?old" by (simp add: nf_value_def v)
  define k where "k = int (length x) - int n"
  obtain Y where Y: "length Y = length x" "(if k > 0 then extendLayer junk (int (length ?a)) (nat k) m
      else if k < 0 then shortenLayer (int (length ?a)) (nat (- k)) m else Inr (m, True))
    = Inr (m\<lparr>m_Data := Some (?a @ Y @ ?b), m_DataLen := length (?a @ Y @ ?b)\<rparr>, True)"
  proof -
    have "k = int (length x) - int (length ?old)" by (simp only: k_def len(1))
    from value_resized [OF data this, of junk] that show thesis by blast
  qed
  let ?m2 = "m\<lparr>m_Data := Some (?a @ Y @ ?b), m_DataLen := length (?a @ Y @ ?b),
     tm_fields := placed (length line) (ps @ (i, with_value x nf) # qs)\<rparr>"
  have fields: "placed (length line) ps @ (i, (attach ?off nf)\<lparr>hf_value := Some (?off + v, nat (int n + k)), hf_size := nat (int (hf_size nf) + k)\<rparr>)
      # shiftFieldsOffset k (placed (?off + length ?x) qs) = placed (length line) (ps @ (i, with_value x nf) # qs)"
  proof -
    have "length (m_NewFieldData (with_value x nf)) = length ?x + length x - n" using ok by (simp add: with_value_def v)
    moreover have "nat (int (hf_size nf) + k) = hf_size nf + length x - n" "nat (int n + k) = length x" using ok by (simp_all add: k_def)
    ultimately show ?thesis using attach_with_value [OF v ok(1), of ?off x] shift_any [OF all, of n "length ?x" "length x" ?off] ok
      by (simp add: k_def add.assoc)
  qed
  let ?m' = "if x = [] then ?m2 else ?m2\<lparr>m_Data := Some (?a @ x @ ?b)\<rparr>"
  have written: "(if x = [] then Inr (?m2, True) else bind_out (write_at (length ?a) x ?m2) (\<lambda>m3. Inr (m3, True))) = Inr (?m', True)"
  proof (cases "x = []")
    case False
    have "m_Data ?m2 = Some (?a @ Y @ ?b)" by simp
    from write_between [OF this Y(1) [symmetric]] False show ?thesis by (simp only: if_False bind_out_simps simp_thms)
  qed simp
  have off: "int (?off + v) = int (length ?a)" "nat (int (length ?a)) = length ?a" using len by simp_all
  have "hf_value (attach ?off nf) = Some (?off + v, n)" using ok by (simp add: attach_def v header_field.defs)
  then have "setFieldValue junk i x m = Inr (?m', True)"
    using written
    by (simp only: setFieldValue_def f(1,2,4) bind_out_simps val len(1) Let_def k_def [symmetric] option.case prod.case off Y(2)
        simp_thms if_True if_False option.map f(6,7) attach_size fields text_message.update_convs text_message.select_convs)
  moreover have "message_is line (ps @ (i, with_value x nf) # qs) body ?m'"
  proof -
    have "m_Data ?m' = Some (?a @ x @ ?b)" using Y(1) by auto
    moreover have "m_DataLen ?m' = length (?a @ x @ ?b)" using Y(1) by simp
    moreover have "m_NewFieldData (with_value x nf) = take v ?x @ x @ drop (v + n) ?x" by (simp add: with_value_def v)
    ultimately show ?thesis using m with_value_ok [OF f(9)]
      by (cases "x = []") (simp_all add: message_is_def entry_def last_id_def)
  qed
  moreover have "tm_names ?m' = tm_names m" "tm_fresh ?m' = tm_fresh m" by simp_all
  ultimately show ?thesis by blast
qed

section \<open>Parsing\<close>

text \<open>The field at the begin of a text, as if it stood alone.\<close>

definition parsed :: "char \<Rightarrow> bool \<Rightarrow> string \<Rightarrow> new_field" where
  "parsed sep spaces r =
     (case HeaderField_parse sep spaces r 0 of
        Inr f \<Rightarrow> header_field.extend f \<lparr>m_NewFieldData = take (hf_size f) r\<rparr>
      | Inl e \<Rightarrow> undefined)"

lemma takeWhile_holds:
  assumes "j < length (takeWhile P xs)"
  shows "P (xs ! j)"
proof -
  have "takeWhile P xs ! j \<in> set (takeWhile P xs)" using assms by (rule nth_mem)
  then have "P (takeWhile P xs ! j)" by (auto dest: set_takeWhileD)
  then show ?thesis by (simp only: takeWhile_nth [OF assms])
qed

lemma memchr_Some:
  assumes "memchr c r = Some i"
  shows "i < length r" "r ! i = c" "\<forall>j < i. r ! j \<noteq> c"
proof -
  have i: "c \<in> set r" "i = length (takeWhile (\<lambda>x. x \<noteq> c) r)" using assms by (auto simp: memchr_def split: if_splits)
  show l: "i < length r" using assms by (rule memchr_bound)
  show "r ! i = c" using l i(2) nth_length_takeWhile [of "\<lambda>x. x \<noteq> c" r] by simp
  show "\<forall>j < i. r ! j \<noteq> c" using takeWhile_holds [of _ "\<lambda>x. x \<noteq> c" r] by (simp add: i(2))
qed

lemma spaces_stop:
  assumes "k \<le> i" "i < length r" "r ! i \<noteq> c"
  shows "k + length (takeWhile (\<lambda>x. x = c) (drop k r)) \<le> i"
proof (rule ccontr)
  assume "\<not> ?thesis"
  then have "i - k < length (takeWhile (\<lambda>x. x = c) (drop k r))" using assms by simp
  then have "drop k r ! (i - k) = c" by (rule takeWhile_holds)
  then show False using assms by simp
qed

lemma value_inside:
  assumes "memchr LF r = Some i" "p < i" "r ! p = sep" "sep \<noteq> CR" "field_value spaces r p (Some i) = Some (v, n)"
  shows "p < v" "v + n \<le> i"
proof -
  let ?s = "if spaces then length (takeWhile (\<lambda>c. c = CHR '' '') (drop (p + 1) r)) else 0"
  note i = memchr_Some [OF assms(1)]
  have stop: "p + 1 + ?s \<le> i" using spaces_stop [of "p + 1" i r "CHR '' ''"] i assms(2) by auto
  have v: "v = p + 1 + ?s" "n = (if r ! (i - 1) = CR then minus64 (i - v) 1 else i - v)"
    using assms(5) by (auto simp: field_value_def Let_def split: if_splits)
  show "p < v" by (simp add: v)
  have "v < i" if "r ! (i - 1) = CR"
  proof (rule ccontr)
    assume "\<not> v < i"
    then have vi: "v = i" using stop v by simp
    show False
    proof (cases "?s = 0")
      case True
      then have "i - 1 = p" using v vi by simp
      then show False using that assms(3,4) by simp
    next
      case False
      then have "i - 1 = p + 1 + (?s - 1)" "?s - 1 < ?s" using v vi by simp_all
      moreover have "drop (p + 1) r ! (?s - 1) = CHR '' ''"
        using False takeWhile_holds [of "?s - 1" "\<lambda>c. c = CHR '' ''" "drop (p + 1) r"] by (auto split: if_splits)
      ultimately have "r ! (i - 1) = CHR '' ''" using i(1) by simp
      then show False using that by simp
    qed
  qed
  then show "v + n \<le> i" using v stop by (auto simp: minus64_def)
qed

lemma value_to_end:
  assumes "field_value spaces r p None = Some (v, n)"
  shows "p < v" "v + n = length r"
  using assms by (auto simp: field_value_def Let_def split: if_splits)

text \<open>Without an end of line the field ends at the first zero character.\<close>

definition readable :: "string \<Rightarrow> bool" where
  "readable r \<longleftrightarrow> LF \<in> set r \<or> NUL \<notin> set r"

lemma parsed_ok:
  assumes "r \<noteq> []" "readable r" "sep \<noteq> CR"
  shows "field_ok (parsed sep spaces r)"
    "HeaderField_parse sep spaces (u @ r) (length u) = Inr (attach (length u) (parsed sep spaces r))"
    "m_NewFieldData (parsed sep spaces r) = take (hf_size (parsed sep spaces r)) r"
proof -
  show "m_NewFieldData (parsed sep spaces r) = take (hf_size (parsed sep spaces r)) r"
    by (simp add: parsed_def HeaderField_parse_def Let_def header_field.defs)
  show "HeaderField_parse sep spaces (u @ r) (length u) = Inr (attach (length u) (parsed sep spaces r))"
    by (auto simp: parsed_def HeaderField_parse_def Let_def attach_def header_field.defs option.map_comp o_def split: option.splits)
  show "field_ok (parsed sep spaces r)"
  proof (cases "memchr LF r")
    case None
    then have none: "takeWhile (\<lambda>c. c \<noteq> NUL) r = r"
      using assms(2) by (auto simp: readable_def takeWhile_eq_all_conv memchr_def split: if_splits)
    from None show ?thesis
      using assms(1) value_to_end [of spaces r] memchr_Some(1) [of sep r]
      by (auto simp: parsed_def HeaderField_parse_def Let_def field_ok_def header_field.defs none split: option.splits)
        (fastforce dest: value_to_end memchr_Some(1))+
  next
    case (Some i)
    note i = memchr_Some [OF Some]
    show ?thesis
    proof (cases "r ! 0 = CR \<or> r ! 0 = LF \<or> memchr sep r = None \<or> (\<exists>p. memchr sep r = Some p \<and> i \<le> p)")
      case True
      then show ?thesis using i(1) by (auto simp: parsed_def HeaderField_parse_def Let_def field_ok_def header_field.defs Some)
    next
      case False
      then obtain p where p: "memchr sep r = Some p" "p < i" "r ! 0 \<noteq> CR" "r ! 0 \<noteq> LF" by (cases "memchr sep r") (auto simp: not_le)
      have "p < v \<and> v + n \<le> i" if "field_value spaces r p (Some i) = Some (v, n)" for v n
        using value_inside [OF Some p(2) memchr_Some(2) [OF p(1)] assms(3) that] by simp
      then show ?thesis using i(1) p
        by (fastforce simp: parsed_def HeaderField_parse_def Let_def field_ok_def header_field.defs Some)
    qed
  qed
qed

fun attached :: "nat \<Rightarrow> new_field list \<Rightarrow> header_field list" where
  "attached off [] = []"
| "attached off (nf # nfs) = attach off nf # attached (off + length (m_NewFieldData nf)) nfs"

definition written :: "new_field list \<Rightarrow> string" where
  "written nfs = concat (map m_NewFieldData nfs)"

lemma written_simps [simp]:
  "written [] = []" "written (nf # nfs) = m_NewFieldData nf @ written nfs" "written (nfs @ nfs') = written nfs @ written nfs'"
  by (simp_all add: written_def)

lemma parsed_cut:
  assumes "r \<noteq> []" "readable r" "sep \<noteq> CR"
  shows "r = m_NewFieldData (parsed sep spaces r) @ drop (hf_size (parsed sep spaces r)) r"
    "0 < hf_size (parsed sep spaces r)" "hf_size (parsed sep spaces r) = length (m_NewFieldData (parsed sep spaces r))"
  using parsed_ok [OF assms, of spaces] by (auto simp: field_ok_def)

text \<open>The loop at a field with nothing behind it, and at one with more behind it.\<close>

lemma parse_loop_last:
  assumes "field_ok f" "hf_isEnd f \<or> r' = []" "d = u @ m_NewFieldData f @ r'"
  shows "parse_loop sep spaces d (length u) (attach (length u) f) = Inr [attach (length u) f]"
  using assms by (subst parse_loop.simps) (auto simp: field_ok_def)

lemma parse_loop_step:
  assumes "field_ok f" "\<not> hf_isEnd f" "r' \<noteq> []" "readable r'" "sep \<noteq> CR" "d = u @ m_NewFieldData f @ r'"
    and "parse_loop sep spaces d (length (u @ m_NewFieldData f)) (attach (length (u @ m_NewFieldData f)) (parsed sep spaces r')) = Inr fs"
  shows "parse_loop sep spaces d (length u) (attach (length u) f) = Inr (attach (length u) f # fs)"
proof -
  have size: "length u + hf_size f = length (u @ m_NewFieldData f)" using assms(1) by (simp add: field_ok_def)
  have new: "HeaderField_parse sep spaces d (length (u @ m_NewFieldData f)) = Inr (attach (length (u @ m_NewFieldData f)) (parsed sep spaces r'))"
    using parsed_ok(2) [OF assms(3,4,5), of spaces "u @ m_NewFieldData f"] assms(6) by simp
  have more: "length (u @ m_NewFieldData f) < length d" using assms(3,6) by simp
  have "0 < hf_size (parsed sep spaces r')" using parsed_cut(2) [OF assms(3,4,5)] .
  then show ?thesis
    by (subst parse_loop.simps) (simp only: attach_size size more assms(2) new bind_out_simps assms(7) simp_thms if_True)
qed

lemma parse_loop_ok:
  assumes "r \<noteq> []" "NUL \<notin> set r" "sep \<noteq> CR"
  shows "\<exists>nfs body. parse_loop sep spaces (u @ r) (length u) (attach (length u) (parsed sep spaces r)) = Inr (attached (length u) nfs)
    \<and> r = written nfs @ body \<and> nfs \<noteq> [] \<and> list_all field_ok nfs"
  using assms(1,2)
proof (induction "length r" arbitrary: u r rule: less_induct)
  case less
  let ?f = "parsed sep spaces r" and ?r' = "drop (hf_size (parsed sep spaces r)) r"
  have "readable r" using less(3) by (simp add: readable_def)
  note cut = parsed_cut [OF less(2) this assms(3), of spaces] and ok = parsed_ok(1) [OF less(2) this assms(3), of spaces]
  show ?case
  proof (cases "hf_isEnd ?f \<or> ?r' = []")
    case True
    have "u @ r = u @ m_NewFieldData ?f @ ?r'" using cut(1) by simp
    from parse_loop_last [OF ok True this, of sep spaces]
    have "parse_loop sep spaces (u @ r) (length u) (attach (length u) ?f) = Inr (attached (length u) [?f])" by simp
    moreover have "r = written [?f] @ ?r'" using cut(1) by simp
    moreover have "list_all field_ok [?f]" using ok by simp
    ultimately show ?thesis by blast
  next
    case False
    have u: "(u @ m_NewFieldData ?f) @ ?r' = u @ r" using cut(1) by simp
    have "length ?r' < length r" "NUL \<notin> set ?r'" using cut(2) less(2,3) by (auto dest: in_set_dropD)
    with less(1) [of ?r' "u @ m_NewFieldData ?f"] False obtain nfs body where
      nfs: "parse_loop sep spaces (u @ r) (length (u @ m_NewFieldData ?f)) (attach (length (u @ m_NewFieldData ?f)) (parsed sep spaces ?r'))
          = Inr (attached (length (u @ m_NewFieldData ?f)) nfs)" "?r' = written nfs @ body" "list_all field_ok nfs"
      unfolding u by blast
    have "\<not> hf_isEnd ?f" "?r' \<noteq> []" "readable ?r'" using False \<open>NUL \<notin> set ?r'\<close> by (simp_all add: readable_def)
    from parse_loop_step [OF ok this assms(3) _ nfs(1)] cut(1)
    have "parse_loop sep spaces (u @ r) (length u) (attach (length u) ?f) = Inr (attached (length u) (?f # nfs))" by simp
    moreover have "r = written (?f # nfs) @ body" using cut(1) nfs(2) by (metis append.assoc written_simps(2))
    moreover have "list_all field_ok (?f # nfs)" using ok nfs(3) by simp
    ultimately show ?thesis by blast
  qed
qed

text \<open>The parsed fields under new numbers.\<close>

lemma placed_enumerate: "placed off (enumerate k nfs) = enumerate k (attached off nfs)"
  by (induction nfs arbitrary: off k) simp_all

lemma texts_enumerate [simp]: "texts (enumerate k nfs) = written nfs"
  by (induction nfs arbitrary: k) simp_all

lemma append_fields_ok:
  assumes "list_all field_ok nfs"
  shows "append_fields (u @ written nfs @ v) (attached (length u) nfs) m =
    Inr (m\<lparr>tm_fields := tm_fields m @ enumerate (tm_fresh m) (attached (length u) nfs),
         tm_last := (if nfs = [] then tm_last m else Some (tm_fresh m + length nfs - 1)),
         tm_names := tm_names m @ map entry (enumerate (tm_fresh m) nfs), tm_fresh := tm_fresh m + length nfs\<rparr>)"
  using assms
proof (induction nfs arbitrary: u m)
  case (Cons nf nfs)
  let ?m1 = "m\<lparr>tm_fields := tm_fields m @ [(tm_fresh m, attach (length u) nf)], tm_last := Some (tm_fresh m),
     tm_names := tm_names m @ [(map tolower (nf_name nf), tm_fresh m)], tm_fresh := tm_fresh m + 1\<rparr>"
  have read: "getFieldName (attach (length u) nf) (u @ m_NewFieldData nf @ written nfs @ v) = Inr (nf_name nf)"
    using name_read(1) [of nf u "written nfs @ v"] Cons(2) by simp
  have "append_fields (u @ written (nf # nfs) @ v) (attached (length u) (nf # nfs)) m
     = append_fields ((u @ m_NewFieldData nf) @ written nfs @ v) (attached (length (u @ m_NewFieldData nf)) nfs) ?m1"
    by (simp only: attached.simps append_fields.simps written_simps append_assoc read bind_out_simps length_append)
  moreover have "list_all field_ok nfs" using Cons(2) by simp
  ultimately show ?case using Cons.IH [of "u @ m_NewFieldData nf" ?m1]
    by (cases "nfs = []") (simp_all only: list.simps if_True if_False, simp_all add: entry_def)
qed simp

lemma last_enumerate: "nfs \<noteq> [] \<Longrightarrow> last_id (enumerate k nfs) = Some (k + length nfs - 1)"
  by (cases nfs rule: rev_cases) (simp_all add: last_id_def enumerate_append_eq)

lemma message_of_fields:
  assumes "list_all field_ok nfs" "nfs \<noteq> []"
  shows "\<exists>m. append_fields (line @ written nfs @ body) (attached (length line) nfs) (text_message_new (line @ written nfs @ body) (length line)) = Inr m
    \<and> message_is line (enumerate 0 nfs) body m \<and> tm_names m = map entry (enumerate 0 nfs)"
proof -
  have "field_ok (snd p)" if "p \<in> set (enumerate 0 nfs)" for p
    using assms(1) that by (auto simp: in_set_enumerate_eq list_all_length)
  moreover have "fst p < length nfs" if "p \<in> set (enumerate 0 nfs)" for p using that by (auto simp: in_set_enumerate_eq)
  ultimately show ?thesis
    using assms(2) last_enumerate [OF assms(2), of 0]
    by (simp add: append_fields_ok [OF assms(1)] message_is_def text_message_new_def placed_enumerate)
qed

lemma parseFields_ok:
  assumes "r \<noteq> []" "NUL \<notin> set r" "sep \<noteq> CR"
  shows "\<exists>m nfs body. parseFields sep spaces (text_message_new (line @ r) (length line)) = Inr m
    \<and> message_is line (enumerate 0 nfs) body m \<and> tm_names m = map entry (enumerate 0 nfs) \<and> r = written nfs @ body"
proof -
  obtain nfs body where nfs: "parse_loop sep spaces (line @ r) (length line) (attach (length line) (parsed sep spaces r)) = Inr (attached (length line) nfs)"
      "r = written nfs @ body" "nfs \<noteq> []" "list_all field_ok nfs"
    using parse_loop_ok [OF assms, of spaces line] by blast
  let ?m = "text_message_new (line @ r) (length line)"
  have "msg_data ?m = Inr (line @ r)" "tm_fieldsOffset ?m = length line"
    by (simp_all add: msg_data_def text_message_new_def lay_data_def bytes_at_def)
  then have "parseFields sep spaces ?m = append_fields (line @ r) (attached (length line) nfs) ?m"
    using parsed_ok(2) [OF assms(1) _ assms(3), of spaces line] assms(2) nfs(1) by (simp add: parseFields_def readable_def)
  then show ?thesis using message_of_fields [OF nfs(4,3), of line body] nfs(2) by metis
qed

section \<open>Fields that are written and read\<close>

text \<open>A name and value that can be told from each other and from the ends of lines.\<close>

definition plain_field :: "char \<Rightarrow> bool \<Rightarrow> string \<times> string \<Rightarrow> bool" where
  "plain_field sep spaces nv \<longleftrightarrow> fst nv \<noteq> [] \<and> hd (fst nv) \<noteq> CR \<and> LF \<notin> set (fst nv) \<and> sep \<notin> set (fst nv)
     \<and> LF \<notin> set (snd nv) \<and> (spaces \<longrightarrow> take 1 (snd nv) \<noteq> '' '')"

lemma parsed_with_value:
  assumes "memchr LF t = Some i" "memchr sep t = Some p" "p < i" "t ! 0 \<noteq> CR" "t ! 0 \<noteq> LF"
    and "field_value spaces t p (Some i) = Some (v, k)"
  shows "parsed sep spaces t = \<lparr>hf_nameOffset = 0, hf_nameSize = Some p, hf_value = Some (v, k), hf_size = i + 1, hf_isEnd = False,
     hf_separator = sep, hf_spaces = spaces, m_NewFieldData = take (i + 1) t\<rparr>"
  using assms by (simp add: parsed_def HeaderField_parse_def header_field.defs)

lemma parsed_init:
  assumes "plain_field sep spaces (n, v)" "sep \<noteq> LF" "sep \<noteq> CR"
  shows "parsed sep spaces (m_NewFieldData (initNewField sep spaces n v) @ r) = initNewField sep spaces n v"
proof -
  let ?s = "sep # (if spaces then '' '' else [])"
  let ?t = "n @ ?s @ v @ [CR, LF] @ r"
  have pl: "n \<noteq> []" "hd n \<noteq> CR" "LF \<notin> set n" "sep \<notin> set n" "LF \<notin> set v" "spaces \<longrightarrow> take 1 v \<noteq> '' ''"
    using assms(1) by (simp_all add: plain_field_def)
  have data: "m_NewFieldData (initNewField sep spaces n v) @ r = ?t" using pl(1) by (simp add: initNewField_def)
  have sepm: "memchr sep ?t = Some (length n)" using memchr_append [OF pl(4), of "(if spaces then '' '' else []) @ v @ [CR, LF] @ r"] by simp
  have "LF \<notin> set (n @ ?s @ v @ [CR])" using pl assms(2) by auto
  from memchr_append [OF this, of r] have eol: "memchr LF ?t = Some (length n + length ?s + length v + 1)" by simp
  have fst: "?t ! 0 = hd n" "hd n \<noteq> LF" using pl(1,3) by (cases n; auto)+
  have blanks: "takeWhile (\<lambda>c. c = CHR '' '') (drop (length n + 1) ?t) = (if spaces then '' '' else takeWhile (\<lambda>c. c = CHR '' '') (v @ [CR, LF] @ r))"
    using pl(6) by (cases v) auto
  have cr: "?t ! (length n + length ?s + length v) = CR" by (simp add: nth_append)
  have valued: "field_value spaces ?t (length n) (Some (length n + length ?s + length v + 1)) = Some (length n + length ?s, length v)"
    unfolding field_value_def Let_def option.case blanks using cr by (simp add: minus64_def)
  have "?t ! 0 \<noteq> CR" "?t ! 0 \<noteq> LF" using fst pl(2) by simp_all
  from parsed_with_value [OF eol sepm _ this valued] have "parsed sep spaces ?t = initNewField sep spaces n v"
    using pl(1) by (simp add: initNewField_def numeral_eq_Suc)
  then show ?thesis unfolding data .
qed

definition end_field :: "char \<Rightarrow> bool \<Rightarrow> new_field" where
  "end_field sep spaces = \<lparr>hf_nameOffset = 0, hf_nameSize = None, hf_value = None, hf_size = 2, hf_isEnd = True,
     hf_separator = sep, hf_spaces = spaces, m_NewFieldData = [CR, LF]\<rparr>"

lemma parsed_end: "parsed sep spaces (CR # LF # r) = end_field sep spaces"
  using memchr_append [of LF "[CR]" r] by (simp add: parsed_def HeaderField_parse_def end_field_def header_field.defs)

lemma end_field_ok [simp]: "field_ok (end_field sep spaces)" "nf_name (end_field sep spaces) = []" "nf_value (end_field sep spaces) = []"
    "m_NewFieldData (end_field sep spaces) = [CR, LF]" "hf_isEnd (end_field sep spaces)"
  by (simp_all add: end_field_def field_ok_def nf_name_def nf_value_def)

abbreviation (input) new_fields :: "char \<Rightarrow> bool \<Rightarrow> (string \<times> string) list \<Rightarrow> new_field list" where
  "new_fields sep spaces nvs \<equiv> map (\<lambda>(n, v). initNewField sep spaces n v) nvs"

lemma parse_written:
  assumes "list_all (plain_field sep spaces) nvs" "sep \<noteq> LF" "sep \<noteq> CR"
  shows "parse_loop sep spaces (u @ written (new_fields sep spaces nvs) @ CR # LF # body) (length u)
      (attach (length u) (parsed sep spaces (written (new_fields sep spaces nvs) @ CR # LF # body)))
    = Inr (attached (length u) (new_fields sep spaces nvs @ [end_field sep spaces]))"
  using assms(1)
proof (induction nvs arbitrary: u)
  case Nil
  have "u @ CR # LF # body = u @ m_NewFieldData (end_field sep spaces) @ body" by simp
  from parse_loop_last [OF end_field_ok(1) _ this] show ?case by (simp add: parsed_end)
next
  case (Cons nv nvs)
  obtain n v where nv: "nv = (n, v)" by (cases nv)
  let ?f = "initNewField sep spaces n v" and ?r = "written (new_fields sep spaces nvs) @ CR # LF # body"
  have pl: "plain_field sep spaces (n, v)" "list_all (plain_field sep spaces) nvs" using Cons(2) nv by simp_all
  then have n: "n \<noteq> []" by (simp add: plain_field_def)
  then have f: "field_ok ?f" "\<not> hf_isEnd ?f" by (simp_all add: init_ok) (simp add: initNewField_def)
  have r: "?r \<noteq> []" "readable ?r" by (simp_all add: readable_def)
  have "parse_loop sep spaces (u @ m_NewFieldData ?f @ ?r) (length (u @ m_NewFieldData ?f)) (attach (length (u @ m_NewFieldData ?f)) (parsed sep spaces ?r))
      = Inr (attached (length (u @ m_NewFieldData ?f)) (new_fields sep spaces nvs @ [end_field sep spaces]))"
    using Cons.IH [OF pl(2), of "u @ m_NewFieldData ?f"] by simp
  from parse_loop_step [OF f r assms(3) refl this] show ?case
    using parsed_init [OF pl(1) assms(2,3), of ?r] by (simp add: nv)
qed

lemma parseFields_written:
  assumes "list_all (plain_field sep spaces) nvs" "sep \<noteq> LF" "sep \<noteq> CR"
  defines "nfs \<equiv> new_fields sep spaces nvs @ [end_field sep spaces]"
  shows "\<exists>m. parseFields sep spaces (text_message_new (line @ written nfs @ body) (length line)) = Inr m
    \<and> message_is line (enumerate 0 nfs) body m \<and> tm_names m = map entry (enumerate 0 nfs)"
proof -
  let ?r = "written (new_fields sep spaces nvs) @ CR # LF # body" and ?m = "text_message_new (line @ written nfs @ body) (length line)"
  have ok: "list_all field_ok nfs"
    using assms(1) by (fastforce simp: nfs_def list_all_iff plain_field_def intro: init_ok)
  have d: "line @ written nfs @ body = line @ ?r" by (simp add: nfs_def)
  have r: "?r \<noteq> []" "readable ?r" by (simp_all add: readable_def)
  have "msg_data ?m = Inr (line @ ?r)" "tm_fieldsOffset ?m = length line"
    unfolding d by (simp_all add: msg_data_def text_message_new_def lay_data_def bytes_at_def)
  moreover have "parse_loop sep spaces (line @ ?r) (length line) (attach (length line) (parsed sep spaces ?r)) = Inr (attached (length line) nfs)"
    using parse_written [OF assms(1-3), of line body] unfolding nfs_def .
  ultimately have "parseFields sep spaces ?m = append_fields (line @ ?r) (attached (length line) nfs) ?m"
    using parsed_ok(2) [OF r assms(3), of spaces line] by (simp only: parseFields_def bind_out_simps)
  then have "parseFields sep spaces ?m = append_fields (line @ written nfs @ body) (attached (length line) nfs) ?m" unfolding d .
  moreover have "nfs \<noteq> []" by (simp add: nfs_def)
  ultimately show ?thesis using message_of_fields [OF ok, of line body] by simp
qed

text \<open>All names and values, read through the operations.\<close>

fun contents_of :: "string \<Rightarrow> (nat \<times> header_field) list \<Rightarrow> (string \<times> string) list outcome" where
  "contents_of d [] = Inr []"
| "contents_of d ((_, f) # fs) =
     bind_out (getFieldName f d) (\<lambda>n. bind_out (getFieldValue f d) (\<lambda>v. bind_out (contents_of d fs) (\<lambda>nvs. Inr ((n, v) # nvs))))"

definition contents :: "text_message \<Rightarrow> (string \<times> string) list outcome" where
  "contents m = bind_out (lay_data m) (\<lambda>d. contents_of d (tm_fields m))"

definition name_value :: "new_field \<Rightarrow> string \<times> string" where
  "name_value nf = (nf_name nf, nf_value nf)"

lemma contents_placed:
  assumes "\<forall>p \<in> set ps. field_ok (snd p)"
  shows "contents_of (u @ texts ps @ v) (placed (length u) ps) = Inr (map (name_value o snd) ps)"
  using assms
proof (induction ps arbitrary: u)
  case (Cons p ps)
  obtain i nf where p: "p = (i, nf)" by (cases p)
  have "contents_of ((u @ m_NewFieldData nf) @ texts ps @ v) (placed (length (u @ m_NewFieldData nf)) ps) = Inr (map (name_value o snd) ps)"
    using Cons.IH [of "u @ m_NewFieldData nf"] Cons(2) by simp
  moreover have "getFieldName (attach (length u) nf) (u @ m_NewFieldData nf @ texts ps @ v) = Inr (nf_name nf)"
    "getFieldValue (attach (length u) nf) (u @ m_NewFieldData nf @ texts ps @ v) = Inr (nf_value nf)"
    using name_read [of nf u "texts ps @ v"] Cons(2) p by simp_all
  ultimately show ?case by (simp add: p name_value_def)
qed simp

lemma contents_is: "message_is line ps body m \<Longrightarrow> contents m = Inr (map (name_value o snd) ps)"
  using contents_placed [of ps line body] by (simp add: message_is_def contents_def lay_data_def)

end
