(* ===== verification/TextMessage.thy ===== *)
theory TextMessage
  imports TextFields Machine
begin

text \<open>
  Any calls on a message of a text protocol (\<open>TextBasedProtocol.cpp\<close>), and its properties: the calls
  that name a field never meet one that is gone, what is added is found and can be taken away again,
  and what is written is read back.
\<close>

section \<open>Calls\<close>

text \<open>The calls that a client makes by name; those that get no field do nothing and say so.\<close>

datatype text_call = AddField string string | AddEndOfHeader | InsertField string string string
  | RemoveField string nat | SetFieldValue string nat string

fun text_turn :: "(nat \<Rightarrow> char) \<Rightarrow> char \<Rightarrow> bool \<Rightarrow> (text_message, text_call, bool) handler" where
  "text_turn junk sep spaces m (AddField n v) = bind_out (addField_named junk sep spaces n v m) (\<lambda>(m', r). Inr (m', [r \<noteq> None]))"
| "text_turn junk sep spaces m AddEndOfHeader = bind_out (addEndOfHeader junk m) (\<lambda>(m', r). Inr (m', [r \<noteq> None]))"
| "text_turn junk sep spaces m (InsertField p n v) =
     bind_out (insertField_named junk sep spaces p n v m) (\<lambda>(m', r). Inr (m', [r \<noteq> None]))"
| "text_turn junk sep spaces m (RemoveField n i) = bind_out (removeField_named n i m) (\<lambda>(m', ok). Inr (m', [ok]))"
| "text_turn junk sep spaces m (SetFieldValue n i v) =
     (case getFieldByName n i m of
        None \<Rightarrow> Inr (m, [False])
      | Some f \<Rightarrow> bind_out (setFieldValue junk f v m) (\<lambda>(m', ok). Inr (m', [ok])))"

text \<open>New fields have a name.\<close>

fun has_name :: "text_call \<Rightarrow> bool" where
  "has_name (AddField n v) = (n \<noteq> [])"
| "has_name (InsertField p n v) = (n \<noteq> [])"
| "has_name _ = True"

definition text_inv :: "string \<Rightarrow> string \<Rightarrow> text_message \<Rightarrow> bool" where
  "text_inv line body m \<longleftrightarrow> (\<exists>ps. message_is line ps body m)"

lemma field_found:
  assumes "message_is line ps body m" "getFieldByName n i m = Some j"
  obtains ps1 nf qs where "ps = ps1 @ (j, nf) # qs" "map tolower (nf_name nf) = map tolower n"
proof -
  let ?range = "filter (\<lambda>e. fst e = map tolower n) (tm_names m)"
  have "i < length ?range" "j = snd (?range ! i)" using assms(2) by (auto simp: getFieldByName_def Let_def split: if_splits)
  then have "?range ! i \<in> set ?range" "j = snd (?range ! i)" using nth_mem by blast+
  then have "(map tolower n, j) \<in> set (tm_names m)" by (metis (mono_tags, lifting) filter_set mem_Collect_eq prod.collapse set_filter)
  then have "(map tolower n, j) \<in># mset (tm_names m)" by simp
  then have "(map tolower n, j) \<in> set (map entry ps)" using assms(1) by (metis message_is_def set_mset_mset)
  then obtain nf where "(j, nf) \<in> set ps" "map tolower (nf_name nf) = map tolower n" by (auto simp: entry_def)
  then show thesis using that split_list by metis
qed

lemma insert_ended:
  assumes "message_is line (ps @ (i, nf) # qs) body m" "nf_name nf = []"
  shows "insertField junk (Some i) new m = Inr (m, None)"
  using message_field(1-3) [OF assms(1)] assms(2) by (simp add: insertField_def insert_place_def)

lemma insert_any:
  assumes m: "message_is line ps body m" and new: "field_ok new" "HeaderField_copy new (m_NewFieldData new) = Inr new"
    and prev: "prev = None \<or> (\<exists>i \<in> fst ` set ps. prev = Some i)"
  shows "\<exists>m' r. insertField junk prev new m = Inr (m', r) \<and> text_inv line body m'"
proof (cases prev)
  case None
  with field_inserted [where ps = "[]" and qs = ps, OF _ _ new] m show ?thesis by (fastforce simp: text_inv_def)
next
  case (Some i)
  with prev obtain ps1 nf qs where ps: "ps = ps1 @ (i, nf) # qs" by (metis (no_types, lifting) imageE option.discI option.inject prod.collapse split_list)
  show ?thesis
  proof (cases "nf_name nf = []")
    case True
    then show ?thesis using insert_ended [of line ps1 i nf qs body m junk new] m Some ps by (auto simp: text_inv_def)
  next
    case False
    with field_inserted [where ps = "ps1 @ [(i, nf)]" and qs = qs, OF _ _ new] m Some ps show ?thesis by (fastforce simp: text_inv_def)
  qed
qed

lemma last_among: "message_is line ps body m \<Longrightarrow> tm_last m = None \<or> (\<exists>i \<in> fst ` set ps. tm_last m = Some i)"
  using last_in_set [of ps] by (fastforce simp: message_is_def last_id_def)

lemma set_none:
  assumes "message_is line (ps @ (i, nf) # qs) body m" "hf_value nf = None"
  shows "setFieldValue junk i x m = Inr (m, x = [])"
proof -
  note f = message_field [OF assms(1)]
  have v: "nf_value nf = []" "hf_value (attach (length line + length (texts ps)) nf) = None"
    using assms(2) by (simp_all add: nf_value_def attach_def header_field.defs)
  obtain d where d: "m_Data m = Some d" using assms(1) by (auto simp: message_is_def)
  have same: "m\<lparr>tm_fields := placed (length line) ps @ (i, (attach (length line + length (texts ps)) nf)
      \<lparr>hf_value := None, hf_size := hf_size nf\<rparr>) # shiftFieldsOffset 0 (placed (length line + length (texts ps) + length (m_NewFieldData nf)) qs)\<rparr> = m"
  proof -
    have "shiftFieldsOffset 0 (placed k qs) = placed k qs" for k
      using shift_placed(1) [of qs 0 k] assms(1) by (simp add: message_is_def)
    moreover have "(attach (length line + length (texts ps)) nf)\<lparr>hf_value := None, hf_size := hf_size nf\<rparr> = attach (length line + length (texts ps)) nf"
      using v(2) by (simp add: attach_def header_field.defs)
    ultimately show ?thesis using assms(1) by (simp add: message_is_def)
  qed
  show ?thesis
    using f(1,2,4,6,7) v d same by (cases "x = []") (simp_all add: setFieldValue_def extendLayer_def)
qed

lemma insert_init:
  assumes "message_is line ps body m" "name \<noteq> [] \<or> value = []" "prev = None \<or> (\<exists>i \<in> fst ` set ps. prev = Some i)"
  shows "\<exists>m' r. insertField junk prev (initNewField sep spaces name value) m = Inr (m', r) \<and> text_inv line body m'"
  by (rule insert_any [OF assms(1) init_ok(1) [OF assms(2)] init_ok(4) [OF assms(2)] assms(3)])

lemma text_turn_safe:
  assumes "text_inv line body m" "has_name c"
  shows "\<exists>m' os. text_turn junk sep spaces m c = Inr (m', os) \<and> text_inv line body m'"
proof -
  from assms(1) obtain ps where ps: "message_is line ps body m" by (auto simp: text_inv_def)
  note prev = last_among [OF ps]
  show ?thesis
  proof (cases c)
    case (AddField n v)
    then have "n \<noteq> [] \<or> v = []" using assms(2) by simp
    from insert_init [OF ps this prev, of junk sep spaces] AddField show ?thesis
      by (fastforce simp: addField_named_def addField_def)
  next
    case AddEndOfHeader
    with insert_init [OF ps _ prev, of "[]" "[]" junk NUL False] show ?thesis by (fastforce simp: addEndOfHeader_def)
  next
    case (InsertField p n v)
    then have n: "n \<noteq> [] \<or> v = []" using assms(2) by simp
    have "\<exists>m' r. insertField junk prev' (initNewField sep spaces n v) m = Inr (m', r) \<and> text_inv line body m'"
      if "prev' = None \<or> (\<exists>i \<in> fst ` set ps. prev' = Some i)" for prev'
      using insert_init [OF ps n that] .
    moreover have "\<exists>i \<in> fst ` set ps. Some j = Some i" if "getFieldByName p 0 m = Some j" for j
      using field_found [OF ps that] by force
    ultimately show ?thesis using InsertField assms(1)
      by (fastforce simp: insertField_named_def split: option.splits)
  next
    case (RemoveField n i)
    show ?thesis
    proof (cases "getFieldByName n i m")
      case None
      then show ?thesis using RemoveField assms(1) by (simp add: removeField_named_def)
    next
      case (Some j)
      from field_found [OF ps this] obtain ps1 nf qs where "ps = ps1 @ (j, nf) # qs" by blast
      with field_removed [of line ps1 j nf qs body m] ps RemoveField Some show ?thesis
        by (fastforce simp: removeField_named_def text_inv_def)
    qed
  next
    case (SetFieldValue n i v)
    show ?thesis
    proof (cases "getFieldByName n i m")
      case None
      then show ?thesis using SetFieldValue assms(1) by simp
    next
      case (Some j)
      from field_found [OF ps this] obtain ps1 nf qs where s: "ps = ps1 @ (j, nf) # qs" by blast
      show ?thesis
      proof (cases "hf_value nf")
        case None
        with set_none [of line ps1 j nf qs body m junk v] ps SetFieldValue Some s assms(1) show ?thesis by simp
      next
        case (Some w)
        then obtain k l where "hf_value nf = Some (k, l)" by (cases w) simp
        with field_set [of line ps1 j nf qs body m k l junk v] ps SetFieldValue \<open>getFieldByName n i m = Some j\<close> s
        show ?thesis by (fastforce simp: text_inv_def)
      qed
    qed
  qed
qed

interpretation fields: safe_machine "text_turn junk sep spaces" "text_inv line body" has_name
  by unfold_locales (rule text_turn_safe)

section \<open>Adding several fields, copies\<close>

fun add_fields :: "(nat \<Rightarrow> char) \<Rightarrow> char \<Rightarrow> bool \<Rightarrow> (string \<times> string) list \<Rightarrow> text_message \<Rightarrow> text_message outcome" where
  "add_fields junk sep spaces [] m = Inr m"
| "add_fields junk sep spaces ((n, v) # nvs) m =
     bind_out (addField_named junk sep spaces n v m) (\<lambda>(m1, _). add_fields junk sep spaces nvs m1)"

definition open_header :: "(nat \<times> new_field) list \<Rightarrow> bool" where
  "open_header ps \<longleftrightarrow> ps \<noteq> [] \<longrightarrow> nf_name (snd (last ps)) \<noteq> []"

lemma field_added:
  assumes "message_is line ps body m" "open_header ps" "name \<noteq> [] \<or> value = []"
  shows "\<exists>m'. insertField junk (tm_last m) (initNewField sep spaces name value) m = Inr (m', Some (tm_fresh m))
    \<and> message_is line (ps @ [(tm_fresh m, initNewField sep spaces name value)]) body m'
    \<and> tm_names m' = tm_names m @ [(map tolower name, tm_fresh m)] \<and> tm_fresh m' = tm_fresh m + 1"
proof -
  have "tm_last m = last_id ps" using assms(1) by (simp add: message_is_def)
  with field_inserted [where qs = "[]" and junk = junk, OF _ _ init_ok(1,4) [OF assms(3)]] assms(1,2)
  show ?thesis by (simp add: open_header_def init_ok(2) [OF assms(3)])
qed

lemma fields_added:
  assumes "message_is line ps body m" "open_header ps" "list_all (\<lambda>nv. fst nv \<noteq> []) nvs"
  shows "\<exists>m'. add_fields junk sep spaces nvs m = Inr m' \<and> tm_fresh m' = tm_fresh m + length nvs
    \<and> message_is line (ps @ enumerate (tm_fresh m) (new_fields sep spaces nvs)) body m'
    \<and> open_header (ps @ enumerate (tm_fresh m) (new_fields sep spaces nvs))"
  using assms
proof (induction nvs arbitrary: ps m)
  case (Cons nv nvs)
  obtain n v where nv: "nv = (n, v)" by (cases nv)
  with Cons.prems(3) have n: "n \<noteq> [] \<or> v = []" "n \<noteq> []" by simp_all
  let ?p = "(tm_fresh m, initNewField sep spaces n v)"
  obtain m1 where 1: "addField_named junk sep spaces n v m = Inr (m1, Some (tm_fresh m))" "message_is line (ps @ [?p]) body m1"
      "tm_fresh m1 = tm_fresh m + 1"
    using field_added [OF Cons.prems(1,2) n(1), of junk sep spaces] by (auto simp: addField_named_def addField_def)
  have "open_header (ps @ [?p])" using n by (simp add: open_header_def init_ok(2))
  with Cons.IH [OF 1(2)] Cons.prems(3) 1(1,3) show ?case by (simp add: nv)
qed simp

lemma new_message: "message_is line [] body (text_message_new (line @ body) (length line))"
  by (simp add: message_is_def text_message_new_def)

lemma message_unique:
  assumes "message_is line ps body m" "message_is line ps body m'" "tm_names m = tm_names m'" "tm_fresh m = tm_fresh m'"
  shows "m = m'"
  using assms by (simp add: message_is_def)

lemma getFieldByName_last:
  assumes "tm_names m = es @ [(map tolower n, j)]"
  shows "getFieldByName n (length (filter (\<lambda>e. fst e = map tolower n) es)) m = Some j"
  by (simp add: getFieldByName_def assms)

lemma header_len:
  assumes "message_is line (ps @ [p]) body m"
  shows "text_getHeaderLen m = Inr (length (line @ texts (ps @ [p])))"
proof -
  obtain i nf where p: "p = (i, nf)" by (cases p)
  note f = message_field [of line ps i nf "[]" body m] 
  have "tm_last m = Some i" "hf_size nf = length (m_NewFieldData nf)" using assms p f(9) by (simp_all add: message_is_def field_ok_def)
  then show ?thesis using f(1) assms p by (simp add: text_getHeaderLen_def)
qed

text \<open>The copy of a field is as long as the layout of new fields makes it.\<close>

definition recopied :: "new_field \<Rightarrow> new_field" where
  "recopied nf = initNewField (hf_separator nf) (hf_spaces nf) (nf_name nf) (nf_value nf)"

lemma copied_fields:
  assumes "\<forall>p \<in> set ps. field_ok (snd p)" "lay = u @ texts ps @ v"
  shows "\<exists>c'. copy_fields lay lay (placed (length u) ps) c = Inr c'
    \<and> tm_names c' = tm_names c @ zip (map (nf_name o snd) ps) [tm_fresh c..<tm_fresh c + length ps]"
  using assms
proof (induction ps arbitrary: u c)
  case (Cons p ps)
  obtain i nf where p: "p = (i, nf)" by (cases p)
  have ok: "field_ok nf" using Cons(2) p by simp
  have lay: "lay = u @ m_NewFieldData nf @ texts ps @ v" "lay = (u @ m_NewFieldData nf) @ texts ps @ v" using Cons(3) p by simp_all
  note read = name_read [OF ok, of u "texts ps @ v", folded lay(1)]
  have sep: "hf_separator (attach (length u) nf) = hf_separator nf" "hf_spaces (attach (length u) nf) = hf_spaces nf"
    by (simp_all add: attach_def header_field.defs)
  have copy: "HeaderField_copy (attach (length u) nf) lay = Inr (recopied nf)"
    using read by (simp add: HeaderField_copy_def recopied_def sep)
  have name: "getFieldName (attach (length u) (recopied nf)) lay = Inr (nf_name nf)"
  proof -
    have "hf_nameOffset (attach (length u) (recopied nf)) = length u" "hf_nameSize (attach (length u) (recopied nf)) = Some (length (nf_name nf))"
      by (simp_all add: attach_def header_field.defs recopied_def initNewField_def Let_def)
    moreover have "nf_name nf = take (length (nf_name nf)) (m_NewFieldData nf)" "length (nf_name nf) \<le> length (m_NewFieldData nf)"
      using ok by (auto simp: nf_name_def field_ok_def split: option.splits)
    moreover have "bytes_at lay (length u) (length (nf_name nf)) = Inr (take (length (nf_name nf)) (m_NewFieldData nf))"
      using calculation(4) by (simp add: lay(1) bytes_at_def)
    ultimately show ?thesis by (simp add: getFieldName_def)
  qed
  let ?c = "c\<lparr>tm_fields := tm_fields c @ [(tm_fresh c, attach (length u) (recopied nf))], tm_last := Some (tm_fresh c),
     tm_names := tm_names c @ [(nf_name nf, tm_fresh c)], tm_fresh := tm_fresh c + 1\<rparr>"
  have "copy_fields lay lay (placed (length u) (p # ps)) c = copy_fields lay lay (placed (length (u @ m_NewFieldData nf)) ps) ?c"
    by (simp only: p placed.simps copy_fields.simps copy name bind_out_simps Let_def length_append attach_size)
  moreover have "[tm_fresh c..<tm_fresh c + length (p # ps)] = tm_fresh c # [tm_fresh ?c..<tm_fresh ?c + length ps]"
    by (simp add: upt_conv_Cons del: upt_Suc)
  ultimately show ?case using Cons.IH [OF _ lay(2), of ?c] Cons(2) p by simp
qed simp

lemma copied_message:
  assumes "message_is line (ps @ [p]) body m"
  shows "\<exists>c. text_message_copy m = Inr c \<and> tm_names c = zip (map (nf_name o snd) (ps @ [p])) [0..<Suc (length ps)]"
proof -
  let ?d = "line @ texts (ps @ [p]) @ body"
  let ?c = "text_message_new ?d (length line)\<lparr>m_DataLen := length (line @ texts (ps @ [p]))\<rparr>"
  have ok: "\<forall>q \<in> set (ps @ [p]). field_ok (snd q)" and f: "tm_fields m = placed (length line) (ps @ [p])"
    and d: "m_Data m = Some ?d" "m_DataLen m = length ?d" "tm_fieldsOffset m = length line"
    using assms by (auto simp: message_is_def)
  have "layer_copy (length (line @ texts (ps @ [p]))) (layer.truncate m)
     = Inr \<lparr>m_Data = Some ?d, m_DataLen = length (line @ texts (ps @ [p]))\<rparr>"
    using d by (simp add: layer_copy_def layer.defs bytes_at_def)
  moreover have "lay_data m = Inr ?d" using d by (simp add: lay_data_def)
  ultimately have "text_message_copy m = copy_fields ?d ?d (placed (length line) (ps @ [p])) ?c"
    using header_len [OF assms] d(3) f by (simp add: text_message_copy_def lay_data_def text_message_new_def)
  moreover have "tm_fresh ?c = 0" "tm_names ?c = []" by (simp_all add: text_message_new_def)
  ultimately show ?thesis using copied_fields [OF ok refl, of line body ?c] by simp
qed

text \<open>
  A copied field has the layout of a new one, whatever stood there: of a field that was parsed
  without the space behind the colon the copy reads another value.
\<close>

lemma copied_value_moved:
  "bind_out (parseFields (CHR '':'') True (text_message_new (''A:b'' @ [CR, LF, CR, LF]) 0)) (\<lambda>m.
     bind_out (text_message_copy m) (\<lambda>c. bind_out (contents m) (\<lambda>before. bind_out (contents c) (\<lambda>after. Inr (before, after)))))
   = Inr ([(''A'', ''b''), ([], [])], [(''A'', [CR]), ([], [])])"
  by code_simp

text \<open>A header that ends is refused every further field, although \<open>addField\<close> is said to add before its end.\<close>

lemma add_after_end:
  assumes "message_is line (ps @ [p]) body m" "nf_name (snd p) = []"
  shows "addField_named junk sep spaces n v m = Inr (m, None)" "addEndOfHeader junk m = Inr (m, None)"
proof -
  obtain i nf where p: "p = (i, nf)" by (cases p)
  have "tm_last m = Some i" using assms(1) p by (simp add: message_is_def)
  then show "addField_named junk sep spaces n v m = Inr (m, None)" "addEndOfHeader junk m = Inr (m, None)"
    using insert_ended [of line ps i nf "[]" body m] assms p by (simp_all add: addField_named_def addField_def addEndOfHeader_def)
qed

text \<open>The length of the header of a message without fields follows a null pointer.\<close>

lemma no_fields_no_length: "text_getHeaderLen (text_message_new d k) = Inl NullDeref"
  by (simp add: text_getHeaderLen_def text_message_new_def)

lemma fields_written_read:
  assumes "list_all (plain_field sep spaces) nvs" "sep \<noteq> LF" "sep \<noteq> CR"
  shows "\<exists>m d m'. bind_out (add_fields junk sep spaces nvs (text_message_new line (length line))) (addEndOfHeader junk) = Inr (m, Some (length nvs))
    \<and> lay_data m = Inr d \<and> parseFields sep spaces (text_message_new (d @ body) (length line)) = Inr m'
    \<and> contents m' = Inr (nvs @ [([], [])]) \<and> isHeaderComplete m' = Inr True \<and> text_getHeaderLen m' = Inr (length d)"
proof -
  let ?nfs = "new_fields sep spaces nvs @ [end_field sep spaces]" and ?e = "initNewField NUL False [] []"
  have names: "list_all (\<lambda>nv. fst nv \<noteq> []) nvs" using assms(1) by (simp add: list_all_iff plain_field_def)
  have e: "m_NewFieldData ?e = [CR, LF]" by (simp add: initNewField_def)
  have start: "message_is line [] [] (text_message_new line (length line))" using new_message [of line "[]"] by simp
  obtain m1 where 1: "add_fields junk sep spaces nvs (text_message_new line (length line)) = Inr m1" "tm_fresh m1 = length nvs"
      "message_is line (enumerate 0 (new_fields sep spaces nvs)) [] m1" "open_header (enumerate 0 (new_fields sep spaces nvs))"
    using fields_added [OF start _ names, of junk sep spaces] by (auto simp: open_header_def text_message_new_def)
  obtain m where 2: "addEndOfHeader junk m1 = Inr (m, Some (length nvs))"
      "message_is line (enumerate 0 (new_fields sep spaces nvs) @ [(length nvs, ?e)]) [] m"
    using field_added [OF 1(3,4), of "[]" "[]" junk NUL False] 1(2) by (auto simp: addEndOfHeader_def)
  have d: "lay_data m = Inr (line @ written ?nfs)" using 2(2) by (simp add: message_is_def lay_data_def e)
  obtain m' where 3: "parseFields sep spaces (text_message_new ((line @ written ?nfs) @ body) (length line)) = Inr m'"
      "message_is line (enumerate 0 ?nfs) body m'"
    using parseFields_written [OF assms, of line body] by auto
  have ends: "enumerate 0 ?nfs = enumerate 0 (new_fields sep spaces nvs) @ [(length nvs, end_field sep spaces)]"
    by (simp add: enumerate_append_eq)
  have "map name_value (new_fields sep spaces nvs) = nvs"
    using names by (induction nvs) (auto simp: name_value_def init_ok)
  moreover have "map (name_value o snd) (enumerate k l) = map name_value l" for k l by (induction l arbitrary: k) simp_all
  ultimately have "contents m' = Inr (nvs @ [([], [])])"
    using contents_is [OF 3(2)] by (simp add: name_value_def [of "end_field sep spaces"])
  moreover have "isHeaderComplete m' = Inr True"
  proof -
    note f = message_field [OF 3(2) [unfolded ends]]
    have "tm_last m' = Some (length nvs)" using 3(2) unfolding ends by (simp add: message_is_def)
    then show ?thesis using f(1-3) by (simp add: isHeaderComplete_def)
  qed
  moreover have "text_getHeaderLen m' = Inr (length (line @ written ?nfs))"
    using header_len [OF 3(2) [unfolded ends]] by simp
  ultimately show ?thesis using 1(1) 2(1) d 3(1) by auto
qed

section \<open>Properties\<close>

text \<open>
  C31. Whatever text without a zero character follows the first line, it is parsed, and then any calls by
  name (new fields have a name) return: the message stays well-formed, that is one field after
  another, their offsets and sizes those of the texts, the last one known, the entries by name
  exactly those of the fields; and the first line and what follows the header stay as they were.
\<close>

theorem text_calls_safe:
  assumes "r \<noteq> []" "NUL \<notin> set r" "sep \<noteq> CR" "list_all has_name cs"
  shows "\<exists>m0 ps0 body m os ps. parseFields sep spaces (text_message_new (line @ r) (length line)) = Inr m0 \<and> message_is line ps0 body m0
    \<and> run (text_turn junk sep spaces) m0 cs = Inr (m, os) \<and> message_is line ps body m"
proof -
  obtain m0 nfs body where 0: "parseFields sep spaces (text_message_new (line @ r) (length line)) = Inr m0" "message_is line (enumerate 0 nfs) body m0"
    using parseFields_ok [OF assms(1-3), of spaces line] by blast
  then have "text_inv line body m0" by (auto simp: text_inv_def)
  from fields.run_safe [OF this assms(4)] 0 show ?thesis by (fastforce simp: text_inv_def)
qed

theorem text_calls_safe_witness:
  "\<exists>m0 m os. parseFields (CHR '':'') True (text_message_new ((''x'' @ [LF]) @ ''Host: a'' @ [LF]) (length (''x'' @ [LF]))) = Inr m0
     \<and> run (text_turn (\<lambda>_. NUL) (CHR '':'') True) m0 [AddField ''B'' ''c'', RemoveField ''host'' 0] = Inr (m, os)"
proof -
  have "list_all has_name [AddField ''B'' ''c'', RemoveField ''host'' 0]" by simp
  from text_calls_safe [where r = "''Host: a'' @ [LF]" and line = "''x'' @ [LF]" and sep = "CHR '':''" and spaces = True
      and junk = "\<lambda>_. NUL", OF _ _ _ this]
  show ?thesis by (fastforce simp del: run_Cons_Inr text_turn.simps)
qed

text \<open>
  Fields with plain names and values that are added to a message one by one, with the end of the
  header behind them, are read back: the header is complete, has the length of what was written,
  and holds the same names and values in the same order, whatever body follows.
\<close>

theorem text_fields_roundtrip:
  assumes "list_all (plain_field sep spaces) nvs" "sep \<noteq> LF" "sep \<noteq> CR"
  shows "\<exists>m d m'. bind_out (add_fields junk sep spaces nvs (text_message_new line (length line))) (addEndOfHeader junk) = Inr (m, Some (length nvs))
    \<and> lay_data m = Inr d \<and> parseFields sep spaces (text_message_new (d @ body) (length line)) = Inr m'
    \<and> contents m' = Inr (nvs @ [([], [])]) \<and> isHeaderComplete m' = Inr True \<and> text_getHeaderLen m' = Inr (length d)"
  by (rule fields_written_read [OF assms])

theorem text_fields_roundtrip_witness:
  "\<exists>m'. parseFields (CHR '':'') True (text_message_new (''x'' @ [LF] @ ''Host: a'' @ [CR, LF, CR, LF, NUL]) 2) = Inr m'
     \<and> contents m' = Inr [(''Host'', ''a''), ([], [])]"
proof -
  have p: "list_all (plain_field (CHR '':'') True) [(''Host'', ''a'')]" by (simp add: plain_field_def)
  have d: "bind_out (bind_out (add_fields (\<lambda>_. NUL) (CHR '':'') True [(''Host'', ''a'')] (text_message_new (''x'' @ [LF]) 2)) (addEndOfHeader (\<lambda>_. NUL)))
      (\<lambda>(m, _). lay_data m) = Inr (''x'' @ [LF] @ ''Host: a'' @ [CR, LF, CR, LF])" by code_simp
  obtain m d' m' where m: "bind_out (add_fields (\<lambda>_. NUL) (CHR '':'') True [(''Host'', ''a'')] (text_message_new (''x'' @ [LF]) (length (''x'' @ [LF]))))
      (addEndOfHeader (\<lambda>_. NUL)) = Inr (m, Some (length [(''Host'', ''a'')]))" "lay_data m = Inr d'"
      "parseFields (CHR '':'') True (text_message_new (d' @ [NUL]) (length (''x'' @ [LF]))) = Inr m'"
      "contents m' = Inr ([(''Host'', ''a'')] @ [([], [])])"
    using text_fields_roundtrip [OF p, where line = "''x'' @ [LF]" and junk = "\<lambda>_. NUL" and body = "[NUL]"] by auto
  have "length (''x'' @ [LF]) = 2" by simp
  with d m(1,2) have "d' = ''x'' @ [LF] @ ''Host: a'' @ [CR, LF, CR, LF]" by (simp only: bind_out_simps prod.case sum.inject)
  with m(3,4) show ?thesis by (simp add: numeral_2_eq_2)
qed

text \<open>
  C30. A field inserted behind any field of a well-formed message (or in front of all) is the one found
  under its name behind those that were there, whatever the case of the letters; removing it gives
  back the message, entries and all.
\<close>

theorem text_insert_remove:
  assumes "message_is line (ps @ qs) body m" "ps \<noteq> [] \<longrightarrow> nf_name (snd (last ps)) \<noteq> []" "name \<noteq> []"
  shows "\<exists>m' j. insertField junk (last_id ps) (initNewField sep spaces name v) m = Inr (m', Some j)
    \<and> (map tolower name' = map tolower name
         \<longrightarrow> getFieldByName name' (length (filter (\<lambda>e. fst e = map tolower name) (tm_names m))) m' = Some j)
    \<and> removeField (Some j) m' = Inr (m\<lparr>tm_fresh := tm_fresh m + 1\<rparr>, True)"
proof -
  have n: "name \<noteq> [] \<or> v = []" using assms(3) by simp
  let ?new = "initNewField sep spaces name v" and ?j = "tm_fresh m"
  obtain m' where 1: "insertField junk (last_id ps) ?new m = Inr (m', Some ?j)" "message_is line (ps @ (?j, ?new) # qs) body m'"
      "tm_names m' = tm_names m @ [(map tolower name, ?j)]" "tm_fresh m' = ?j + 1"
    using field_inserted [OF assms(1,2) init_ok(1,4) [OF n], of junk] by (auto simp: init_ok(2) [OF n])
  obtain m'' where 2: "removeField (Some ?j) m' = Inr (m'', True)" "message_is line (ps @ qs) body m''"
      "tm_names m'' = erase_entry (entry (?j, ?new)) (tm_names m')" "tm_fresh m'' = ?j + 1"
    using field_removed [OF 1(2)] 1(4) by auto
  have "snd e < ?j" if "e \<in> set (tm_names m)" for e
  proof -
    have "e \<in># mset (map entry (ps @ qs))" using that assms(1) by (metis message_is_def set_mset_mset)
    then obtain p where "p \<in> set (ps @ qs)" "e = entry p" by auto
    then show ?thesis using assms(1) by (simp add: entry_def message_is_def)
  qed
  then have "(map tolower name, ?j) \<notin> set (tm_names m)" by force
  then have "tm_names m'' = tm_names m" using 1(3) 2(3) erase_entry_split [of _ _ "[]"] by (simp add: entry_def init_ok(2) [OF n])
  moreover have "message_is line (ps @ qs) body (m\<lparr>tm_fresh := ?j + 1\<rparr>)"
    using assms(1) by (auto simp: message_is_def less_SucI)
  ultimately have "m'' = m\<lparr>tm_fresh := ?j + 1\<rparr>" using message_unique [OF 2(2)] 2(4) by simp
  then show ?thesis using 1(1) 2(1) getFieldByName_last [of m' "tm_names m" name ?j] 1(3) by (auto simp: getFieldByName_def)
qed

theorem text_insert_remove_witness:
  "\<exists>m' j. insertField (\<lambda>_. NUL) None (initNewField (CHR '':'') True ''Host'' ''a'') (text_message_new ''x'' 1) = Inr (m', Some j)
     \<and> getFieldByName ''HOST'' 0 m' = Some j \<and> removeField (Some j) m' = Inr ((text_message_new ''x'' 1)\<lparr>tm_fresh := 1\<rparr>, True)"
proof -
  have m: "message_is ''x'' ([] @ []) [] (text_message_new ''x'' 1)" using new_message [of "''x''" "[]"] by simp
  have "map tolower ''HOST'' = map tolower ''Host''" by code_simp
  then show ?thesis
    using text_insert_remove [OF m, where name = "''Host''" and v = "''a''" and junk = "\<lambda>_. NUL" and sep = "CHR '':''" and spaces = True
        and name' = "''HOST''"]
    by (simp add: text_message_new_def)
qed

text \<open>
  C32. A copied message finds a field under a name exactly when some field of the original is called by
  that name in small letters: the entries of the copy keep the letters as they stand, and the name
  looked for does not.
\<close>

theorem text_copy_loses_names:
  assumes "message_is line ps body m" "ps \<noteq> []"
  shows "\<exists>c. text_message_copy m = Inr c \<and> (getFieldByName n 0 c \<noteq> None \<longleftrightarrow> (\<exists>p \<in> set ps. nf_name (snd p) = map tolower n))"
proof -
  obtain ps' p where ps: "ps = ps' @ [p]" using assms(2) by (cases ps rule: rev_cases) auto
  from copied_message [OF assms(1) [unfolded ps]] obtain c where
    c: "text_message_copy m = Inr c" "tm_names c = zip (map (nf_name o snd) ps) [0..<Suc (length ps')]" unfolding ps by blast
  have "fst ` set (tm_names c) = (nf_name o snd) ` set ps"
  proof -
    have "map fst (tm_names c) = map (nf_name o snd) ps" unfolding c(2) by (rule map_fst_zip) (simp add: ps)
    then show ?thesis by (metis list.set_map)
  qed
  moreover have "getFieldByName n 0 c \<noteq> None \<longleftrightarrow> map tolower n \<in> fst ` set (tm_names c)"
    by (force simp: getFieldByName_def Let_def filter_empty_conv)
  moreover have "map tolower n \<in> (nf_name o snd) ` set ps \<longleftrightarrow> (\<exists>p \<in> set ps. nf_name (snd p) = map tolower n)" by force
  ultimately show ?thesis using c(1) by simp
qed

theorem text_copy_loses_names_witness:
  "\<exists>m c. parseFields (CHR '':'') True (text_message_new (''Host: a'' @ [CR, LF, CR, LF]) 0) = Inr m
     \<and> text_message_copy m = Inr c \<and> getFieldByName ''Host'' 0 c = None"
proof -
  let ?nfs = "new_fields (CHR '':'') True [(''Host'', ''a'')] @ [end_field (CHR '':'') True]"
  have "list_all (plain_field (CHR '':'') True) [(''Host'', ''a'')]" by (simp add: plain_field_def)
  from parseFields_written [OF this, of "[]" "[]"] obtain m where
    m: "parseFields (CHR '':'') True (text_message_new (written ?nfs) 0) = Inr m" "message_is [] (enumerate 0 ?nfs) [] m" by auto
  have "written ?nfs = ''Host: a'' @ [CR, LF, CR, LF]" by (simp add: initNewField_def)
  moreover have "map tolower ''Host'' = ''host''" by code_simp
  moreover have "nf_name (snd p) \<noteq> ''host''" if "p \<in> set (enumerate 0 ?nfs)" for p
    using that by (auto simp: init_ok(2))
  ultimately show ?thesis using text_copy_loses_names [OF m(2), of "''Host''"] m(1) by auto
qed

end
