(* ===== verification/HttpMessage.thy ===== *)
theory HttpMessage
  imports TextMessage HttpFirstLine
begin

text \<open>
  HTTP messages (\<open>HttpLayer.cpp\<close>: \<open>HttpMessage\<close>, \<open>HttpRequestLayer\<close>, \<open>HttpResponseLayer\<close>): the fields
  of \<open>TextMessage\<close> with every name once, and with the first line in front. The functions that add a
  field are virtual, so the check for the name is made by each of them on the way down.
\<close>

section \<open>Fields\<close>

definition http_insertField :: "(nat \<Rightarrow> char) \<Rightarrow> nat option \<Rightarrow> new_field \<Rightarrow> text_message \<Rightarrow> (text_message \<times> nat option) outcome" where
  "http_insertField junk prev newField m =
     bind_out (getFieldName newField (m_NewFieldData newField)) (\<lambda>n.
       if getFieldByName n 0 m \<noteq> None then Inr (m, None) else insertField junk prev newField m)"

definition http_insertField_values ::
    "(nat \<Rightarrow> char) \<Rightarrow> nat option \<Rightarrow> string \<Rightarrow> string \<Rightarrow> text_message \<Rightarrow> (text_message \<times> nat option) outcome" where
  "http_insertField_values junk prev fieldName fieldValue m =
     (if getFieldByName fieldName 0 m \<noteq> None then Inr (m, None)
      else http_insertField junk prev (initNewField (CHR '':'') True fieldName fieldValue) m)"

definition http_addField :: "(nat \<Rightarrow> char) \<Rightarrow> new_field \<Rightarrow> text_message \<Rightarrow> (text_message \<times> nat option) outcome" where
  "http_addField junk newField m =
     bind_out (getFieldName newField (m_NewFieldData newField)) (\<lambda>n.
       if getFieldByName n 0 m \<noteq> None then Inr (m, None) else http_insertField junk (tm_last m) newField m)"

definition http_addField_values :: "(nat \<Rightarrow> char) \<Rightarrow> string \<Rightarrow> string \<Rightarrow> text_message \<Rightarrow> (text_message \<times> nat option) outcome" where
  "http_addField_values junk fieldName fieldValue m =
     (if getFieldByName fieldName 0 m \<noteq> None then Inr (m, None)
      else http_addField junk (initNewField (CHR '':'') True fieldName fieldValue) m)"

text \<open>The inherited functions, which call the virtual ones.\<close>

definition http_addEndOfHeader :: "(nat \<Rightarrow> char) \<Rightarrow> text_message \<Rightarrow> (text_message \<times> nat option) outcome" where
  "http_addEndOfHeader junk m = http_insertField junk (tm_last m) (initNewField NUL False [] []) m"

definition http_insertField_named ::
    "(nat \<Rightarrow> char) \<Rightarrow> string \<Rightarrow> string \<Rightarrow> string \<Rightarrow> text_message \<Rightarrow> (text_message \<times> nat option) outcome" where
  "http_insertField_named junk prevFieldName fieldName fieldValue m =
     (if prevFieldName = [] then http_insertField_values junk None fieldName fieldValue m
      else case getFieldByName prevFieldName 0 m of
             None \<Rightarrow> Inr (m, None)
           | Some i \<Rightarrow> http_insertField_values junk (Some i) fieldName fieldValue m)"

fun http_turn :: "(nat \<Rightarrow> char) \<Rightarrow> (text_message, text_call, bool) handler" where
  "http_turn junk m (AddField n v) = bind_out (http_addField_values junk n v m) (\<lambda>(m', r). Inr (m', [r \<noteq> None]))"
| "http_turn junk m AddEndOfHeader = bind_out (http_addEndOfHeader junk m) (\<lambda>(m', r). Inr (m', [r \<noteq> None]))"
| "http_turn junk m (InsertField p n v) = bind_out (http_insertField_named junk p n v m) (\<lambda>(m', r). Inr (m', [r \<noteq> None]))"
| "http_turn junk m (RemoveField n i) = text_turn junk (CHR '':'') True m (RemoveField n i)"
| "http_turn junk m (SetFieldValue n i v) = text_turn junk (CHR '':'') True m (SetFieldValue n i v)"

section \<open>What a message is\<close>

text \<open>
  The specification: a list of names and values in which no name stands twice, whatever the case of
  its letters; the end of the header is the empty name.
\<close>

definition has :: "string \<Rightarrow> (string \<times> string) list \<Rightarrow> bool" where
  "has n a \<longleftrightarrow> map tolower n \<in> set (map (map tolower o fst) a)"

definition named :: "string \<Rightarrow> string \<times> string \<Rightarrow> bool" where
  "named n p \<longleftrightarrow> map tolower (fst p) = map tolower n"

definition ended :: "(string \<times> string) list \<Rightarrow> bool" where
  "ended a \<longleftrightarrow> a \<noteq> [] \<and> fst (last a) = []"

fun insert_behind :: "string \<Rightarrow> string \<times> string \<Rightarrow> (string \<times> string) list \<Rightarrow> (string \<times> string) list" where
  "insert_behind p x [] = []"
| "insert_behind p x (y # ys) = (if named p y then y # x # ys else y # insert_behind p x ys)"

fun http_spec :: "(string \<times> string) list \<Rightarrow> text_call \<Rightarrow> (string \<times> string) list \<times> bool list" where
  "http_spec a (AddField n v) = (if has n a \<or> ended a then (a, [False]) else (a @ [(n, v)], [True]))"
| "http_spec a AddEndOfHeader = (if has [] a then (a, [False]) else (a @ [([], [])], [True]))"
| "http_spec a (InsertField p n v) =
     (if has n a then (a, [False])
      else if p = [] then ((n, v) # a, [True])
      else if has p a then (insert_behind p (n, v) a, [True]) else (a, [False]))"
| "http_spec a (RemoveField n i) = (if i = 0 \<and> has n a then (filter (\<lambda>p. \<not> named n p) a, [True]) else (a, [False]))"
| "http_spec a (SetFieldValue n i v) =
     (if i = 0 \<and> has n a then (map (\<lambda>p. if named n p then (fst p, v) else p) a, [True]) else (a, [False]))"

text \<open>New fields have a name, and the value of the end is not set.\<close>

fun http_ok :: "text_call \<Rightarrow> bool" where
  "http_ok (SetFieldValue n i v) = (n \<noteq> [])"
| "http_ok c = has_name c"

definition http_rel :: "string \<Rightarrow> string \<Rightarrow> text_message \<Rightarrow> (string \<times> string) list \<Rightarrow> bool" where
  "http_rel line body m a \<longleftrightarrow> (\<exists>ps. message_is line ps body m \<and> a = map (name_value o snd) ps
     \<and> distinct (map (map tolower o fst) a) \<and> (\<forall>p \<in> set ps. hf_value (snd p) = None \<longrightarrow> nf_name (snd p) = []))"

lemma lower_empty [simp]: "map tolower n = [] \<longleftrightarrow> n = []"
  by simp

lemma names_distinct:
  assumes "message_is line (ps @ (j, nf) # qs) body m" "distinct (map (map tolower o fst) (map (name_value o snd) (ps @ (j, nf) # qs)))"
    and "map tolower (nf_name nf) = map tolower n"
  shows "getFieldByName n i m = (if i = 0 then Some j else None)"
proof -
  let ?k = "map tolower n" and ?P = "\<lambda>e. fst e = map tolower n"
  have "filter ?P (map entry (ps @ (j, nf) # qs)) = [(?k, j)]"
  proof -
    have "\<not> ?P e" if e: "e \<in> set (map entry (ps @ qs))" for e
    proof -
      from e obtain q where "q \<in> set (ps @ qs)" "e = entry q" unfolding set_map by (rule imageE)
      then have p: "q \<in> set (ps @ qs)" "fst e = map tolower (nf_name (snd q))" by (simp_all add: entry_def)
      have "map tolower (nf_name nf) \<notin> (\<lambda>p. map tolower (nf_name (snd p))) ` set (ps @ qs)"
        using assms(2) by (simp add: name_value_def comp_def image_Un)
      then show ?thesis using p assms(3) by (metis image_eqI)
    qed
    then have "filter ?P (map entry ps) = []" "filter ?P (map entry qs) = []" by (simp_all add: filter_empty_conv)
    then show ?thesis using assms(3) by (simp add: entry_def)
  qed
  then have "mset (filter ?P (tm_names m)) = {#(?k, j)#}"
    using assms(1) by (metis message_is_def mset.simps mset_filter)
  then have "filter ?P (tm_names m) = [(?k, j)]" by (simp only: mset_single_iff)
  then show ?thesis by (simp add: getFieldByName_def)
qed

lemma not_found:
  assumes "message_is line ps body m"
  shows "\<not> has n (map (name_value o snd) ps) \<Longrightarrow> getFieldByName n i m = None"
    "has n (map (name_value o snd) ps) \<Longrightarrow> getFieldByName n 0 m \<noteq> None"
proof -
  have s: "set (tm_names m) = set (map entry ps)" using assms by (metis message_is_def set_mset_mset)
  show "getFieldByName n i m = None" if "\<not> has n (map (name_value o snd) ps)"
  proof (rule ccontr)
    assume "getFieldByName n i m \<noteq> None"
    then obtain j where "getFieldByName n i m = Some j" by blast
    from field_found [OF assms this] obtain ps1 nf qs where "ps = ps1 @ (j, nf) # qs" "map tolower (nf_name nf) = map tolower n" .
    then show False using that by (simp add: has_def name_value_def)
  qed
  assume "has n (map (name_value o snd) ps)"
  then obtain p where "p \<in> set ps" "map tolower (nf_name (snd p)) = map tolower n" by (auto simp: has_def name_value_def)
  then have "(map tolower n, fst p) \<in> set (tm_names m)" unfolding s by (auto simp: entry_def image_iff) (metis prod.collapse)
  then show "getFieldByName n 0 m \<noteq> None" by (force simp: getFieldByName_def Let_def filter_empty_conv)
qed

lemma has_split:
  assumes "has n (map (name_value o snd) ps)"
  obtains ps1 j nf qs where "ps = ps1 @ (j, nf) # qs" "map tolower (nf_name nf) = map tolower n"
proof -
  from assms obtain p where "p \<in> set ps" "map tolower (nf_name (snd p)) = map tolower n" by (auto simp: has_def name_value_def)
  moreover obtain ps1 qs where "ps = ps1 @ p # qs" using calculation(1) by (metis split_list)
  ultimately show thesis using that by (metis prod.collapse)
qed

abbreviation (input) pairs :: "(nat \<times> new_field) list \<Rightarrow> (string \<times> string) list" where
  "pairs ps \<equiv> map (name_value o snd) ps"

lemma others_not_named:
  assumes "distinct (map (map tolower o fst) (pairs (ps @ (j, nf) # qs)))" "map tolower (nf_name nf) = map tolower n"
  shows "\<forall>x \<in> set (pairs (ps @ qs)). \<not> named n x" "named n (name_value nf)"
proof -
  have "map tolower (nf_name nf) \<notin> (\<lambda>x. map tolower (fst x)) ` set (pairs (ps @ qs))"
    using assms(1) by (simp add: name_value_def comp_def image_Un image_image)
  then show "\<forall>x \<in> set (pairs (ps @ qs)). \<not> named n x" unfolding named_def assms(2) by (metis image_eqI)
  show "named n (name_value nf)" using assms(2) by (simp add: named_def name_value_def)
qed

lemma insert_behind_split:
  "\<forall>x \<in> set xs. \<not> named p x \<Longrightarrow> named p y \<Longrightarrow> insert_behind p z (xs @ y # ys) = xs @ y # z # ys"
  by (induction xs) auto

lemma rel_intro:
  assumes "message_is line ps body m" "a = pairs ps" "distinct (map (map tolower o fst) a)"
    and "\<forall>p \<in> set ps. hf_value (snd p) = None \<longrightarrow> nf_name (snd p) = []"
  shows "http_rel line body m a"
  using assms unfolding http_rel_def by blast

lemma rel_inserted:
  assumes m: "message_is line (ps @ qs) body m" and rel: "distinct (map (map tolower o fst) (pairs (ps @ qs)))"
      "\<forall>p \<in> set (ps @ qs). hf_value (snd p) = None \<longrightarrow> nf_name (snd p) = []"
    and ins: "open_header ps" "\<not> has n (pairs (ps @ qs))" "n \<noteq> [] \<or> v = []"
  shows "\<exists>m'. http_insertField junk (last_id ps) (initNewField sep spaces n v) m = Inr (m', Some (tm_fresh m))
    \<and> http_rel line body m' (pairs ps @ (n, v) # pairs qs)"
proof -
  let ?new = "initNewField sep spaces n v"
  obtain m' where 1: "insertField junk (last_id ps) ?new m = Inr (m', Some (tm_fresh m))" "message_is line (ps @ (tm_fresh m, ?new) # qs) body m'"
    using field_inserted [OF m _ init_ok(1,4) [OF ins(3)], of junk] ins(1) by (auto simp: open_header_def)
  have "getFieldName ?new (m_NewFieldData ?new) = Inr n" using new_read(1) [OF init_ok(1) [OF ins(3)]] init_ok(2) [OF ins(3)] by simp
  then have "http_insertField junk (last_id ps) ?new m = Inr (m', Some (tm_fresh m))"
    using 1(1) not_found(1) [OF m ins(2)] by (simp add: http_insertField_def)
  moreover have nv: "name_value ?new = (n, v)" using init_ok [OF ins(3)] by (simp add: name_value_def)
  moreover have "http_rel line body m' (pairs ps @ (n, v) # pairs qs)"
  proof (rule rel_intro [OF 1(2)])
    show "pairs ps @ (n, v) # pairs qs = pairs (ps @ (tm_fresh m, ?new) # qs)" by (simp add: nv)
    show "distinct (map (map tolower o fst) (pairs ps @ (n, v) # pairs qs))" using rel(1) ins(2) by (auto simp: has_def)
    show "\<forall>p \<in> set (ps @ (tm_fresh m, ?new) # qs). hf_value (snd p) = None \<longrightarrow> nf_name (snd p) = []"
      using rel(2) by (auto simp: initNewField_def Let_def)
  qed
  ultimately show ?thesis by blast
qed

lemma refused:
  assumes "message_is line ps body m" "has n (pairs ps)"
  shows "http_addField_values junk n v m = Inr (m, None)" "http_insertField_values junk prev n v m = Inr (m, None)"
    "n = [] \<Longrightarrow> http_addEndOfHeader junk m = Inr (m, None)"
proof -
  have f: "getFieldByName n 0 m \<noteq> None" using not_found(2) [OF assms] .
  then show "http_addField_values junk n v m = Inr (m, None)" "http_insertField_values junk prev n v m = Inr (m, None)"
    by (auto simp: http_addField_values_def http_insertField_values_def)
  have "getFieldName (initNewField NUL False [] []) (m_NewFieldData (initNewField NUL False [] [])) = Inr []"
    using new_read(1) [OF init_ok(1), of "[]" "[]"] by (simp add: init_ok)
  then show "http_addEndOfHeader junk m = Inr (m, None)" if "n = []"
    using f that by (auto simp: http_addEndOfHeader_def http_insertField_def)
qed

lemma unrefused:
  assumes "message_is line ps body m" "\<not> has n (pairs ps)" "n \<noteq> [] \<or> v = []"
  shows "http_addField_values junk n v m = http_insertField junk (tm_last m) (initNewField (CHR '':'') True n v) m"
    "http_insertField_values junk prev n v m = http_insertField junk prev (initNewField (CHR '':'') True n v) m"
proof -
  have "getFieldName (initNewField (CHR '':'') True n v) (m_NewFieldData (initNewField (CHR '':'') True n v)) = Inr n"
    using new_read(1) [OF init_ok(1) [OF assms(3)]] init_ok(2) [OF assms(3)] by simp
  then show "http_addField_values junk n v m = http_insertField junk (tm_last m) (initNewField (CHR '':'') True n v) m"
    "http_insertField_values junk prev n v m = http_insertField junk prev (initNewField (CHR '':'') True n v) m"
    using not_found(1) [OF assms(1,2)] by (simp_all add: http_addField_values_def http_insertField_values_def http_addField_def)
qed

text \<open>Behind the end of the header the insertion itself refuses.\<close>

lemma refused_at_end:
  assumes "message_is line (ps @ [(j, nf)]) body m" "nf_name nf = []" "\<not> has n (pairs (ps @ [(j, nf)]))" "n \<noteq> [] \<or> v = []"
  shows "http_insertField junk (tm_last m) (initNewField sep spaces n v) m = Inr (m, None)"
proof -
  have "getFieldName (initNewField sep spaces n v) (m_NewFieldData (initNewField sep spaces n v)) = Inr n"
    using new_read(1) [OF init_ok(1) [OF assms(4)]] init_ok(2) [OF assms(4)] by simp
  moreover have "tm_last m = Some j" using assms(1) by (simp add: message_is_def)
  ultimately show ?thesis using not_found(1) [OF assms(1,3)] insert_ended [OF assms(1,2)] by (simp add: http_insertField_def)
qed

lemma http_add_matched:
  assumes "http_rel line body m a" "n \<noteq> []"
  shows "\<exists>m' os. http_turn junk m (AddField n v) = Inr (m', os) \<and> http_rel line body m' (fst (http_spec a (AddField n v)))
    \<and> os = snd (http_spec a (AddField n v))"
proof -
  from assms(1) obtain ps where ps: "message_is line ps body m" "a = pairs ps" "distinct (map (map tolower o fst) (pairs ps))"
      "\<forall>p \<in> set ps. hf_value (snd p) = None \<longrightarrow> nf_name (snd p) = []"
    by (auto simp: http_rel_def)
  have n: "n \<noteq> [] \<or> v = []" using assms(2) by simp
  show ?thesis
  proof (cases "has n a")
    case True
    then show ?thesis using refused(1) [OF ps(1), of n] ps(2) assms(1) by simp
  next
    case False
    then have h: "\<not> has n (pairs ps)" by (simp add: ps(2))
    have last: "tm_last m = last_id ps" using ps(1) by (simp add: message_is_def)
    show ?thesis
    proof (cases "ended a")
      case True
      then obtain ps' j nf where s: "ps = ps' @ [(j, nf)]" "nf_name nf = []"
        by (cases ps rule: rev_cases) (auto simp: ended_def ps(2) name_value_def)
      then show ?thesis using unrefused(1) [OF ps(1) h n] refused_at_end [OF ps(1) [unfolded s(1)] s(2) h [unfolded s(1)] n] True assms(1)
        by simp
    next
      case unended: False
      then have "open_header ps" by (auto simp: ended_def open_header_def ps(2) last_map name_value_def)
      with rel_inserted [where qs = "[]" and ps = ps, OF _ _ _ _ _ n] ps h
      obtain m' where "http_insertField junk (last_id ps) (initNewField (CHR '':'') True n v) m = Inr (m', Some (tm_fresh m))"
          "http_rel line body m' (pairs ps @ [(n, v)])" by fastforce
      then show ?thesis using unrefused(1) [OF ps(1) h n] False unended ps(2) last by simp
    qed
  qed
qed

lemma http_end_matched:
  assumes "http_rel line body m a"
  shows "\<exists>m' os. http_turn junk m AddEndOfHeader = Inr (m', os) \<and> http_rel line body m' (fst (http_spec a AddEndOfHeader))
    \<and> os = snd (http_spec a AddEndOfHeader)"
proof -
  from assms obtain ps where ps: "message_is line ps body m" "a = pairs ps" "distinct (map (map tolower o fst) (pairs ps))"
      "\<forall>p \<in> set ps. hf_value (snd p) = None \<longrightarrow> nf_name (snd p) = []"
    by (auto simp: http_rel_def)
  show ?thesis
  proof (cases "has [] a")
    case True
    then show ?thesis using refused(3) [OF ps(1), of "[]"] ps(2) assms by simp
  next
    case False
    then have h: "\<not> has [] (pairs ps)" by (simp add: ps(2))
    have last: "tm_last m = last_id ps" using ps(1) by (simp add: message_is_def)
    have "nf_name (snd (last ps)) \<noteq> []" if "ps \<noteq> []"
      using h last_in_set [OF that] by (auto simp: has_def name_value_def)
    then have "open_header ps" by (simp add: open_header_def)
    with rel_inserted [where qs = "[]" and ps = ps and n = "[]" and v = "[]" and sep = NUL and spaces = False] ps h
    obtain m' where "http_insertField junk (last_id ps) (initNewField NUL False [] []) m = Inr (m', Some (tm_fresh m))"
        "http_rel line body m' (pairs ps @ [([], [])])" by fastforce
    then show ?thesis using False ps(2) last by (simp add: http_addEndOfHeader_def)
  qed
qed

lemma http_insert_matched:
  assumes "http_rel line body m a" "n \<noteq> []"
  shows "\<exists>m' os. http_turn junk m (InsertField p n v) = Inr (m', os) \<and> http_rel line body m' (fst (http_spec a (InsertField p n v)))
    \<and> os = snd (http_spec a (InsertField p n v))"
proof -
  from assms(1) obtain ps where ps: "message_is line ps body m" "a = pairs ps" "distinct (map (map tolower o fst) (pairs ps))"
      "\<forall>p \<in> set ps. hf_value (snd p) = None \<longrightarrow> nf_name (snd p) = []"
    by (auto simp: http_rel_def)
  have n: "n \<noteq> [] \<or> v = []" using assms(2) by simp
  show ?thesis
  proof (cases "has n a")
    case True
    then show ?thesis using refused(2) [OF ps(1), of n] ps(2) assms(1)
      by (auto simp: http_insertField_named_def split: option.splits)
  next
    case False
    then have h: "\<not> has n (pairs ps)" by (simp add: ps(2))
    note plain = unrefused(2) [OF ps(1) h n]
    consider "p = []" | "p \<noteq> []" "\<not> has p (pairs ps)" | "p \<noteq> []" "has p (pairs ps)" by blast
    then show ?thesis
    proof cases
      case 1
      from rel_inserted [where ps = "[]" and qs = ps and sep = "CHR '':''" and spaces = True, OF _ _ _ _ _ n] ps h
      obtain m' where "http_insertField junk None (initNewField (CHR '':'') True n v) m = Inr (m', Some (tm_fresh m))"
          "http_rel line body m' ((n, v) # pairs ps)" by (fastforce simp: open_header_def)
      then show ?thesis using 1 False ps(2) plain by (simp add: http_insertField_named_def)
    next
      case 2
      then show ?thesis using False ps(2) not_found(1) [OF ps(1) 2(2)] assms(1) by (simp add: http_insertField_named_def)
    next
      case 3
      from has_split [OF 3(2)] obtain ps1 j nf qs where s: "ps = ps1 @ (j, nf) # qs" "map tolower (nf_name nf) = map tolower p" .
      have found: "getFieldByName p 0 m = Some j" using names_distinct [OF ps(1) [unfolded s(1)] ps(3) [unfolded s(1)] s(2), of 0] by simp
      have "nf_name nf \<noteq> []" using s(2) 3(1) by auto
      then have "open_header (ps1 @ [(j, nf)])" by (simp add: open_header_def)
      moreover have here: "ps = (ps1 @ [(j, nf)]) @ qs" by (simp add: s(1))
      ultimately obtain m' where "http_insertField junk (last_id (ps1 @ [(j, nf)])) (initNewField (CHR '':'') True n v) m = Inr (m', Some (tm_fresh m))"
          "http_rel line body m' (pairs (ps1 @ [(j, nf)]) @ (n, v) # pairs qs)"
        using rel_inserted [OF ps(1,3,4) [unfolded here] _ h [unfolded here] n, of junk "CHR '':''" True] by blast
      then have "http_insertField junk (Some j) (initNewField (CHR '':'') True n v) m = Inr (m', Some (tm_fresh m))"
          "http_rel line body m' (pairs (ps1 @ [(j, nf)]) @ (n, v) # pairs qs)" by simp_all
      moreover have "insert_behind p (n, v) a = pairs (ps1 @ [(j, nf)]) @ (n, v) # pairs qs"
        using insert_behind_split [of "pairs ps1" p "name_value nf" "(n, v)" "pairs qs"] others_not_named [OF ps(3) [unfolded s(1)] s(2)]
        by (simp add: ps(2) s(1))
      moreover have "has p a" using 3(2) ps(2) by simp
      ultimately show ?thesis using 3(1) False found plain by (simp add: http_insertField_named_def)
    qed
  qed
qed

lemma http_remove_matched:
  assumes "http_rel line body m a"
  shows "\<exists>m' os. http_turn junk m (RemoveField n i) = Inr (m', os) \<and> http_rel line body m' (fst (http_spec a (RemoveField n i)))
    \<and> os = snd (http_spec a (RemoveField n i))"
proof -
  from assms obtain ps where ps: "message_is line ps body m" "a = pairs ps" "distinct (map (map tolower o fst) (pairs ps))"
      "\<forall>p \<in> set ps. hf_value (snd p) = None \<longrightarrow> nf_name (snd p) = []"
    by (auto simp: http_rel_def)
  show ?thesis
  proof (cases "has n (pairs ps)")
    case False
    then show ?thesis using not_found(1) [OF ps(1) False] ps(2) assms by (simp add: removeField_named_def)
  next
    case True
    from has_split [OF True] obtain ps1 j nf qs where s: "ps = ps1 @ (j, nf) # qs" "map tolower (nf_name nf) = map tolower n" .
    have found: "getFieldByName n i m = (if i = 0 then Some j else None)"
      using names_distinct [OF ps(1) [unfolded s(1)] ps(3) [unfolded s(1)] s(2)] .
    obtain m' where m': "removeField (Some j) m = Inr (m', True)" "message_is line (ps1 @ qs) body m'"
      using field_removed [OF ps(1) [unfolded s(1)]] by blast
    note others = others_not_named [OF ps(3) [unfolded s(1)] s(2)]
    have kept: "filter (\<lambda>p. \<not> named n p) a = pairs (ps1 @ qs)"
    proof -
      have "filter (\<lambda>p. \<not> named n p) (pairs (ps1 @ qs)) = pairs (ps1 @ qs)" using others(1) by (simp only: filter_id_conv)
      then show ?thesis using others(2) by (simp add: ps(2) s(1))
    qed
    have "distinct (map (map tolower o fst) (pairs (ps1 @ qs)))" using ps(3) by (simp add: s(1))
    then have "http_rel line body m' (pairs (ps1 @ qs))" using ps(4) by (intro rel_intro [OF m'(2) refl]) (simp_all add: s(1))
    then show ?thesis using found m'(1) kept True ps(2) assms by (cases "i = 0") (simp_all add: removeField_named_def)
  qed
qed

lemma http_set_matched:
  assumes "http_rel line body m a" "n \<noteq> []"
  shows "\<exists>m' os. http_turn junk m (SetFieldValue n i v) = Inr (m', os) \<and> http_rel line body m' (fst (http_spec a (SetFieldValue n i v)))
    \<and> os = snd (http_spec a (SetFieldValue n i v))"
proof -
  from assms(1) obtain ps where ps: "message_is line ps body m" "a = pairs ps" "distinct (map (map tolower o fst) (pairs ps))"
      "\<forall>p \<in> set ps. hf_value (snd p) = None \<longrightarrow> nf_name (snd p) = []"
    by (auto simp: http_rel_def)
  show ?thesis
  proof (cases "has n (pairs ps)")
    case False
    then show ?thesis using not_found(1) [OF ps(1) False] ps(2) assms(1) by simp
  next
    case True
    from has_split [OF True] obtain ps1 j nf qs where s: "ps = ps1 @ (j, nf) # qs" "map tolower (nf_name nf) = map tolower n" .
    have found: "getFieldByName n i m = (if i = 0 then Some j else None)"
      using names_distinct [OF ps(1) [unfolded s(1)] ps(3) [unfolded s(1)] s(2)] .
    have "nf_name nf \<noteq> []" using s(2) assms(2) by auto
    then obtain k l where valued: "hf_value nf = Some (k, l)" using ps(4) s(1) by (cases "hf_value nf") auto
    let ?nf = "with_value v nf"
    obtain m' where m': "setFieldValue junk j v m = Inr (m', True)" "message_is line (ps1 @ (j, ?nf) # qs) body m'"
      using field_set [OF ps(1) [unfolded s(1)] valued] by blast
    have ok: "field_ok nf" using ps(1) s(1) by (simp add: message_is_def)
    have nv: "name_value ?nf = (nf_name nf, v)" using with_value_ok [OF ok] valued by (simp add: name_value_def)
    note others = others_not_named [OF ps(3) [unfolded s(1)] s(2)]
    have changed: "map (\<lambda>p. if named n p then (fst p, v) else p) a = pairs (ps1 @ (j, ?nf) # qs)"
    proof -
      have "map (\<lambda>p. if named n p then (fst p, v) else p) xs = xs" if "\<forall>x \<in> set xs. \<not> named n x" for xs
        using that by (induction xs) auto
      with others(1) have "map (\<lambda>p. if named n p then (fst p, v) else p) (pairs ps1) = pairs ps1"
          "map (\<lambda>p. if named n p then (fst p, v) else p) (pairs qs) = pairs qs" by simp_all
      then show ?thesis using others(2) unfolding ps(2) s(1) by (simp add: nv del: map_map) (simp add: name_value_def)
    qed
    have "http_rel line body m' (pairs (ps1 @ (j, ?nf) # qs))"
    proof (rule rel_intro [OF m'(2) refl])
      show "distinct (map (map tolower o fst) (pairs (ps1 @ (j, ?nf) # qs)))" using ps(3) nv by (simp add: s(1) name_value_def)
      show "\<forall>p \<in> set (ps1 @ (j, ?nf) # qs). hf_value (snd p) = None \<longrightarrow> nf_name (snd p) = []"
        using ps(4) by (simp add: s(1) with_value_def valued)
    qed
    then show ?thesis using found m'(1) changed True ps(2) assms(1) by (cases "i = 0") simp_all
  qed
qed

lemma http_turn_matched:
  assumes "http_rel line body m a" "http_ok c"
  shows "\<exists>m' os. http_turn junk m c = Inr (m', os) \<and> http_rel line body m' (fst (http_spec a c)) \<and> os = snd (http_spec a c)"
proof (cases c)
  case (AddField n v)
  then show ?thesis using http_add_matched [OF assms(1), of n junk v] assms(2) by simp
next
  case AddEndOfHeader
  then show ?thesis using http_end_matched [OF assms(1)] by simp
next
  case (InsertField p n v)
  then show ?thesis using http_insert_matched [OF assms(1), of n junk p v] assms(2) by simp
next
  case (RemoveField n i)
  then show ?thesis using http_remove_matched [OF assms(1)] by simp
next
  case (SetFieldValue n i v)
  then show ?thesis using http_set_matched [OF assms(1), of n junk i v] assms(2) by simp
qed

interpretation http: simulation "http_turn junk" http_spec "http_rel line body" "\<lambda>os. os" http_ok
  by unfold_locales (use http_turn_matched in \<open>auto simp del: http_turn.simps http_spec.simps\<close>)

section \<open>Requests and responses\<close>

text \<open>A layer is its first line and its fields; the first is built or read before the others.\<close>

definition HttpRequestLayer_build :: "http_method \<Rightarrow> string \<Rightarrow> http_version \<Rightarrow> (http_request_line \<times> text_message) outcome" where
  "HttpRequestLayer_build method uri version =
     bind_out (HttpRequestFirstLine_build method version uri) (\<lambda>(l, d). Inr (l, text_message_new d (rq_firstLineEnd l)))"

definition HttpRequestLayer_parse ::
    "(string \<Rightarrow> string \<Rightarrow> nat option) \<Rightarrow> string \<Rightarrow> (http_request_line \<times> text_message) outcome" where
  "HttpRequestLayer_parse memmem d =
     bind_out (HttpRequestFirstLine_parse memmem d) (\<lambda>l.
     bind_out (parseFields (CHR '':'') True (text_message_new d (rq_firstLineEnd l))) (\<lambda>m. Inr (l, m)))"

definition HttpResponseLayer_build :: "http_version \<Rightarrow> nat \<Rightarrow> string \<Rightarrow> (http_response_line \<times> text_message) outcome" where
  "HttpResponseLayer_build version statusCode statusCodeString =
     bind_out (HttpResponseFirstLine_build version statusCode statusCodeString) (\<lambda>(l, d). Inr (l, text_message_new d (rs_firstLineEnd l)))"

definition HttpResponseLayer_parse :: "string \<Rightarrow> (http_response_line \<times> text_message) outcome" where
  "HttpResponseLayer_parse d =
     bind_out (HttpResponseFirstLine_parse d) (\<lambda>l.
     bind_out (parseFields (CHR '':'') True (text_message_new d (rs_firstLineEnd l))) (\<lambda>m. Inr (l, m)))"

definition http_getUrl :: "http_request_line \<times> text_message \<Rightarrow> string outcome" where
  "http_getUrl lm =
     bind_out (lay_data (snd lm)) (\<lambda>d.
       case getFieldByName ''Host'' 0 (snd lm) of
         None \<Rightarrow> Inr (http_getUri (fst lm) d)
       | Some i \<Rightarrow> bind_out (find_field i (snd lm)) (\<lambda>f. bind_out (getFieldValue f d) (\<lambda>v. Inr (v @ http_getUri (fst lm) d))))"

text \<open>
  The setters of the first line change the data of the layer and the offsets of the fields. Those of
  the request leave \<open>m_FirstLineEndOffset\<close> and \<open>m_FieldsOffset\<close> as they were.
\<close>

definition resize_at :: "(nat \<Rightarrow> char) \<Rightarrow> int \<Rightarrow> int \<Rightarrow> text_message \<Rightarrow> (text_message \<times> bool) outcome" where
  "resize_at junk off k m =
     (if k > 0 then extendLayer junk off (nat k) m else if k < 0 then shortenLayer off (nat (- k)) m else Inr (m, True))"

definition http_setMethod ::
    "(nat \<Rightarrow> char) \<Rightarrow> http_method \<Rightarrow> http_request_line \<times> text_message \<Rightarrow> ((http_request_line \<times> text_message) \<times> bool) outcome" where
  "http_setMethod junk newMethod lm =
     (let (l, m) = lm
      in if newMethod = HttpMethodUnknown then Inr (lm, False)
         else bind_out (MethodEnumToString newMethod) (\<lambda>new. bind_out (MethodEnumToString (rq_method l)) (\<lambda>old.
           let k = int (length new) - int (length old)
           in bind_out (resize_at junk 0 k m) (\<lambda>(m1, ok).
                if \<not> ok then Inr (lm, False)
                else bind_out (write_at 0 new (m1\<lparr>tm_fields := shiftFieldsOffset k (tm_fields m1)\<rparr>)) (\<lambda>m2.
                  Inr ((l\<lparr>rq_method := newMethod, rq_uriOffset := rq_uriOffset l + k, rq_versionOffset := rq_versionOffset l + k\<rparr>, m2), True))))))"

definition http_setUri ::
    "(nat \<Rightarrow> char) \<Rightarrow> string \<Rightarrow> http_request_line \<times> text_message \<Rightarrow> ((http_request_line \<times> text_message) \<times> bool) outcome" where
  "http_setUri junk newUri lm =
     (let (l, m) = lm; new = (if take 1 newUri \<noteq> ''/'' then ''/'' @ newUri else newUri)
      in bind_out (lay_data m) (\<lambda>d.
         let k = int (length new) - int (length (http_getUri l d))
         in bind_out (resize_at junk (rq_uriOffset l) k m) (\<lambda>(m1, ok).
              if \<not> ok then Inr (lm, False)
              else bind_out (write_at (nat (rq_uriOffset l)) new (m1\<lparr>tm_fields := shiftFieldsOffset k (tm_fields m1)\<rparr>)) (\<lambda>m2.
                Inr ((l\<lparr>rq_versionOffset := rq_versionOffset l + k\<rparr>, m2), True)))))"

definition http_setVersion :: "http_version \<Rightarrow> http_request_line \<times> text_message \<Rightarrow> (http_request_line \<times> text_message) outcome" where
  "http_setVersion newVersion lm =
     (let (l, m) = lm
      in if rq_versionOffset l = -1 \<or> newVersion = HttpVersionUnknown then Inr lm
         else bind_out (VersionEnumToString newVersion) (\<lambda>v. bind_out (write_at (nat (rq_versionOffset l)) v m) (\<lambda>m1.
                Inr (l\<lparr>rq_version := newVersion\<rparr>, m1))))"

text \<open>The fields are added as those of any text message when no name comes twice.\<close>

lemma http_fields_added:
  assumes "message_is line ps body m" "open_header ps" "list_all (\<lambda>nv. fst nv \<noteq> []) nvs"
    and "distinct (map (map tolower o fst) (pairs ps @ nvs))"
  shows "\<exists>m' ps'. run (http_turn junk) m (map (\<lambda>(n, v). AddField n v) nvs) = Inr (m', replicate (length nvs) True)
    \<and> add_fields junk (CHR '':'') True nvs m = Inr m' \<and> message_is line ps' body m' \<and> open_header ps' \<and> pairs ps' = pairs ps @ nvs"
  using assms
proof (induction nvs arbitrary: ps m)
  case (Cons nv nvs)
  obtain n v where nv: "nv = (n, v)" by (cases nv)
  with Cons.prems(3) have n: "n \<noteq> [] \<or> v = []" "n \<noteq> []" by simp_all
  let ?new = "initNewField (CHR '':'') True n v"
  let ?ps = "ps @ [(tm_fresh m, ?new)]"
  obtain m1 where 1: "insertField junk (tm_last m) ?new m = Inr (m1, Some (tm_fresh m))" "message_is line ?ps body m1"
    using field_added [OF Cons.prems(1,2) n(1), of junk "CHR '':''" True] by auto
  have h: "\<not> has n (pairs ps)" using Cons.prems(4) by (simp add: has_def nv)
  have read: "getFieldName ?new (m_NewFieldData ?new) = Inr n"
    using new_read(1) [OF init_ok(1) [OF n(1)]] init_ok(2) [OF n(1)] by simp
  have turn: "http_turn junk m (AddField n v) = Inr (m1, [True])"
    using unrefused(1) [OF Cons.prems(1) h n(1)] not_found(1) [OF Cons.prems(1) h] 1(1) read by (simp add: http_insertField_def)
  have all: "pairs ?ps = pairs ps @ [(n, v)]" by (simp add: name_value_def init_ok [OF n(1)])
  have "open_header ?ps" using n by (simp add: open_header_def init_ok(2))
  moreover have "list_all (\<lambda>nv. fst nv \<noteq> []) nvs" using Cons.prems(3) by simp
  moreover have "distinct (map (map tolower o fst) (pairs ?ps @ nvs))" unfolding all using Cons.prems(4) by (simp add: nv comp_def)
  ultimately obtain m' ps' where 2: "run (http_turn junk) m1 (map (\<lambda>(n, v). AddField n v) nvs) = Inr (m', replicate (length nvs) True)"
      "add_fields junk (CHR '':'') True nvs m1 = Inr m'" "message_is line ps' body m'" "open_header ps'" "pairs ps' = pairs ?ps @ nvs"
    using Cons.IH [OF 1(2)] by blast
  have "run (http_turn junk) m (map (\<lambda>(n, v). AddField n v) (nv # nvs)) = Inr (m', replicate (length (nv # nvs)) True)"
    using run_Cons_ok [where h = "http_turn junk", OF turn 2(1)] by (simp only: nv list.map prod.case append_Cons append_Nil list.size replicate_Suc add_0_right add_Suc_right)
  moreover have "add_fields junk (CHR '':'') True (nv # nvs) m = Inr m'" using 1(1) 2(2) by (simp add: nv addField_named_def addField_def)
  moreover have "pairs ps' = pairs ps @ nv # nvs" unfolding 2(5) all by (simp add: nv)
  ultimately show ?case using 2(3,4) by blast
qed auto

lemma http_fields_ended:
  assumes "list_all (\<lambda>nv. fst nv \<noteq> []) nvs" "distinct (map (map tolower o fst) nvs)"
    and "bind_out (add_fields junk (CHR '':'') True nvs (text_message_new line (length line))) (addEndOfHeader junk) = Inr (m, Some j)"
  shows "run (http_turn junk) (text_message_new line (length line)) (map (\<lambda>(n, v). AddField n v) nvs @ [AddEndOfHeader])
    = Inr (m, replicate (Suc (length nvs)) True)"
proof -
  have "message_is line [] [] (text_message_new line (length line))" "open_header []"
    using new_message [of line "[]"] by (simp_all add: open_header_def)
  from http_fields_added [OF this assms(1), of junk] assms(2) obtain m1 ps where
    1: "run (http_turn junk) (text_message_new line (length line)) (map (\<lambda>(n, v). AddField n v) nvs) = Inr (m1, replicate (length nvs) True)"
      "add_fields junk (CHR '':'') True nvs (text_message_new line (length line)) = Inr m1" "message_is line ps [] m1" "pairs ps = nvs" by auto
  have "\<not> has [] (pairs ps)" using assms(1) 1(4) by (auto simp: has_def list_all_iff)
  moreover have "getFieldName (initNewField NUL False [] []) (m_NewFieldData (initNewField NUL False [] [])) = Inr []"
    using new_read(1) [OF init_ok(1), of "[]" "[]"] by (simp add: init_ok)
  ultimately have "http_addEndOfHeader junk m1 = addEndOfHeader junk m1"
    using not_found(1) [OF 1(3)] by (simp add: http_addEndOfHeader_def http_insertField_def addEndOfHeader_def)
  then have "http_turn junk m1 AddEndOfHeader = Inr (m, [True])" using assms(3) 1(2) by simp
  then have "run (http_turn junk) m1 [AddEndOfHeader] = Inr (m, [True])" by simp
  from run_append_ok [OF 1(1) this] show ?thesis by (simp add: replicate_append_same)
qed

lemma request_built:
  assumes "HttpRequestLayer_build me uri ve = Inr (l, m0)"
  obtains line where "HttpRequestFirstLine_build me ve uri = Inr (l, line)" "m0 = text_message_new line (length line)" "rq_firstLineEnd l = length line"
  using assms by (auto simp: HttpRequestLayer_build_def HttpRequestFirstLine_build_def Let_def split: if_splits)

text \<open>A part of the first line written anew: the fields move with what stands in front of them.\<close>

lemma line_rewritten:
  assumes m: "message_is (a @ old @ b) ps body m" and k: "k = int (length new) - int (length old)" and "new \<noteq> []"
  shows "\<exists>m1 m2. resize_at junk (int (length a)) k m = Inr (m1, True)
    \<and> write_at (length a) new (m1\<lparr>tm_fields := shiftFieldsOffset k (tm_fields m1)\<rparr>) = Inr m2
    \<and> message_is (a @ new @ b) ps body (m2\<lparr>tm_fieldsOffset := length (a @ new @ b)\<rparr>) \<and> tm_fieldsOffset m2 = length (a @ old @ b)"
proof -
  have data: "m_Data m = Some (a @ old @ (b @ texts ps @ body))" "m_DataLen m = length (a @ old @ (b @ texts ps @ body))"
    and all: "\<forall>p \<in> set ps. field_ok (snd p)" and f: "tm_fields m = placed (length (a @ old @ b)) ps"
    using m by (simp_all add: message_is_def)
  obtain Y where Y: "length Y = length new" "resize_at junk (int (length a)) k m
      = Inr (m\<lparr>m_Data := Some (a @ Y @ b @ texts ps @ body), m_DataLen := length (a @ Y @ b @ texts ps @ body)\<rparr>, True)"
    using value_resized [OF data k, of junk] unfolding resize_at_def by blast
  let ?m1 = "m\<lparr>m_Data := Some (a @ Y @ b @ texts ps @ body), m_DataLen := length (a @ Y @ b @ texts ps @ body)\<rparr>"
  let ?m1' = "?m1\<lparr>tm_fields := shiftFieldsOffset k (tm_fields ?m1)\<rparr>"
  have "m_Data ?m1' = Some (a @ Y @ (b @ texts ps @ body))" by simp
  from write_between [OF this Y(1) [symmetric]]
  have "write_at (length a) new ?m1' = Inr (?m1'\<lparr>m_Data := Some (a @ new @ b @ texts ps @ body)\<rparr>)" .
  moreover have "shiftFieldsOffset k (placed (length (a @ old @ b)) ps) = placed (length (a @ new @ b)) ps"
    using shift_any [OF all, of "length old" "length old + length b" "length new" "length a"] by (simp add: k add.assoc add.commute add.left_commute)
  then have "message_is (a @ new @ b) ps body (?m1'\<lparr>m_Data := Some (a @ new @ b @ texts ps @ body), tm_fieldsOffset := length (a @ new @ b)\<rparr>)"
    using m Y(1) f by (simp add: message_is_def)
  moreover have "tm_fieldsOffset m = length (a @ old @ b)" using m by (simp add: message_is_def)
  ultimately show ?thesis using Y(2) by (intro exI [of _ ?m1] exI [of _ "?m1'\<lparr>m_Data := Some (a @ new @ b @ texts ps @ body)\<rparr>"]) simp
qed

section \<open>Properties\<close>

text \<open>
  C12. A request behaves as the list of its names and values: whatever fields are added, inserted, set
  and removed by name, each call answers as the specification does, the fields read from the
  message are those of the list, and the first line stays as it was built.
\<close>

theorem http_message_refines:
  assumes "HttpRequestLayer_build me uri ve = Inr (l, m0)" "list_all http_ok cs"
  shows "\<exists>m d line. run (http_turn junk) m0 cs = Inr (m, snd (spec_run http_spec [] cs))
    \<and> contents m = Inr (fst (spec_run http_spec [] cs))
    \<and> HttpRequestFirstLine_build me ve uri = Inr (l, line) \<and> lay_data m = Inr d \<and> take (length line) d = line"
proof -
  obtain line where line: "HttpRequestFirstLine_build me ve uri = Inr (l, line)" "m0 = text_message_new line (length line)"
    using request_built [OF assms(1)] .
  have "message_is line [] [] m0" using new_message [of line "[]"] line(2) by simp
  then have "http_rel line [] m0 []" by (intro rel_intro) auto
  from http.run_matched [OF this assms(2), where junk = junk] obtain m where
    m: "run (http_turn junk) m0 cs = Inr (m, snd (spec_run http_spec [] cs))" "http_rel line [] m (fst (spec_run http_spec [] cs))" by auto
  from m(2) obtain ps where ps: "message_is line ps [] m" "fst (spec_run http_spec [] cs) = pairs ps" by (auto simp: http_rel_def)
  from contents_is [OF ps(1)] have "contents m = Inr (fst (spec_run http_spec [] cs))" by (simp add: ps(2))
  moreover have "lay_data m = Inr (line @ texts ps)" using ps(1) by (simp add: message_is_def lay_data_def)
  ultimately show ?thesis using m(1) line(1) by auto
qed

theorem http_message_refines_witness:
  "\<exists>l m0 m. HttpRequestLayer_build HttpGET ''/a'' OneDotOne = Inr (l, m0)
     \<and> run (http_turn (\<lambda>_. NUL)) m0 [AddField ''Host'' ''x'', AddField ''HOST'' ''y'', AddEndOfHeader, SetFieldValue ''host'' 0 ''zz''] = Inr (m, [True, False, True, True])
     \<and> contents m = Inr [(''Host'', ''zz''), ([], [])]"
proof -
  let ?cs = "[AddField ''Host'' ''x'', AddField ''HOST'' ''y'', AddEndOfHeader, SetFieldValue ''host'' 0 ''zz'']"
  have "\<exists>l m0. HttpRequestLayer_build HttpGET ''/a'' OneDotOne = Inr (l, m0)"
    by (simp add: HttpRequestLayer_build_def HttpRequestFirstLine_build_def Let_def)
  then obtain l m0 where 1: "HttpRequestLayer_build HttpGET ''/a'' OneDotOne = Inr (l, m0)" by blast
  have "list_all http_ok ?cs" by simp
  moreover have "spec_run http_spec [] ?cs = ([(''Host'', ''zz''), ([], [])], [True, False, True, True])" by code_simp
  ultimately show ?thesis using http_message_refines [OF 1, of ?cs "\<lambda>_. NUL"] 1 by auto
qed

text \<open>
  C13. A whole request goes over the wire: built from a method, an address and a version, with fields
  of different plain names and the end of the header added, and followed by any body, it is read
  back with the same first line and address and the same fields in the same order.
\<close>

theorem http_request_sent:
  assumes "memmem_documented mm" "HttpRequestLayer_build me uri ve = Inr (l, m0)" "CHR '' '' \<notin> set uri" "rq_firstLineEnd l < 65536"
    and "list_all (plain_field (CHR '':'') True) nvs" "distinct (map (map tolower o fst) nvs)"
  shows "\<exists>m d m'. run (http_turn junk) m0 (map (\<lambda>(n, v). AddField n v) nvs @ [AddEndOfHeader]) = Inr (m, replicate (Suc (length nvs)) True)
    \<and> lay_data m = Inr d \<and> HttpRequestLayer_parse mm (d @ body) = Inr (l, m') \<and> http_getUri l (d @ body) = uri
    \<and> contents m' = Inr (nvs @ [([], [])]) \<and> isHeaderComplete m' = Inr True"
proof -
  obtain line where line: "HttpRequestFirstLine_build me ve uri = Inr (l, line)" "m0 = text_message_new line (length line)" "rq_firstLineEnd l = length line"
    using request_built [OF assms(2)] .
  have names: "list_all (\<lambda>nv. fst nv \<noteq> []) nvs" using assms(5) by (simp add: list_all_iff plain_field_def)
  obtain m d m' where built: "bind_out (add_fields junk (CHR '':'') True nvs (text_message_new line (length line))) (addEndOfHeader junk) = Inr (m, Some (length nvs))"
      "lay_data m = Inr d" "parseFields (CHR '':'') True (text_message_new (d @ body) (length line)) = Inr m'"
      "contents m' = Inr (nvs @ [([], [])])" "isHeaderComplete m' = Inr True"
    using fields_written_read [OF assms(5), of junk line body] by auto
  note sent = http_fields_ended [OF names assms(6) built(1), folded line(2)]
  have "\<exists>ps. message_is line ps [] m"
  proof -
    have "http_rel line [] m0 []" using new_message [of line "[]"] line(2) by (intro rel_intro) auto
    moreover have "list_all http_ok (map (\<lambda>(n, v). AddField n v) nvs @ [AddEndOfHeader])"
      using names by (auto simp: list_all_iff split: prod.splits)
    ultimately obtain m1 os where "run (http_turn junk) m0 (map (\<lambda>(n, v). AddField n v) nvs @ [AddEndOfHeader]) = Inr (m1, os)"
        "\<exists>a. http_rel line [] m1 a"
      using http.run_matched [where junk = junk] by blast
    then show ?thesis using sent by (auto simp: http_rel_def)
  qed
  then obtain rest where d: "d = line @ rest" using built(2) by (auto simp: message_is_def lay_data_def)
  have "HttpRequestFirstLine_parse mm (d @ body) = Inr l \<and> http_getUri l (d @ body) = uri"
    using request_line_read [OF assms(1) line(1) assms(3), of "rest @ body"] assms(4) line(3) d by simp
  then show ?thesis using sent built(2-5) line(3) by (auto simp: HttpRequestLayer_parse_def)
qed

theorem http_request_sent_witness:
  "\<exists>l m0 m d m'. HttpRequestLayer_build HttpPOST ''/a'' OneDotZero = Inr (l, m0)
     \<and> run (http_turn (\<lambda>_. NUL)) m0 [AddField ''Host'' ''x'', AddField ''Cookie'' [], AddEndOfHeader] = Inr (m, [True, True, True])
     \<and> lay_data m = Inr d \<and> HttpRequestLayer_parse (\<lambda>hay needle. str_find needle hay) (d @ ''body'') = Inr (l, m')
     \<and> contents m' = Inr [(''Host'', ''x''), (''Cookie'', []), ([], [])]"
proof -
  have "\<exists>l m0. HttpRequestLayer_build HttpPOST ''/a'' OneDotZero = Inr (l, m0) \<and> rq_firstLineEnd l < 65536"
    by (simp add: HttpRequestLayer_build_def HttpRequestFirstLine_build_def Let_def)
  then obtain l m0 where 1: "HttpRequestLayer_build HttpPOST ''/a'' OneDotZero = Inr (l, m0)" "rq_firstLineEnd l < 65536" by blast
  let ?nvs = "[(''Host'', ''x''), (''Cookie'', [])]"
  have "list_all (plain_field (CHR '':'') True) ?nvs" by (simp add: plain_field_def)
  moreover have "distinct (map (map tolower o fst) ?nvs)" by code_simp
  moreover have "CHR '' '' \<notin> set ''/a''" by simp
  ultimately show ?thesis
    using http_request_sent [OF memmem_reference 1(1) _ 1(2), of ?nvs "\<lambda>_. NUL" "''body''"] 1(1)
    by (auto simp: numeral_eq_Suc simp del: run_Cons_Inr http_turn.simps)
qed

lemma request_line_parts:
  assumes "HttpRequestFirstLine_build me ve uri = Inr (l, line)"
  obtains s w where "MethodEnumToString me = Inr s" "line = (s @ '' '') @ uri @ '' HTTP/'' @ w @ [CR, LF]"
    "l = \<lparr>rq_method = me, rq_version = ve, rq_uriOffset = int (length s + 1), rq_versionOffset = int (length s + 1 + length uri + 6),
        rq_firstLineEnd = length line, rq_isComplete = True\<rparr>" "VersionEnumToString ve = Inr w" "me \<noteq> HttpMethodUnknown" "ve \<noteq> HttpVersionUnknown"
  using assms that by (auto simp: HttpRequestFirstLine_build_def Let_def split: if_splits)

text \<open>
  C33. Setting the address of a request that was built writes the line of the new address and moves the
  fields with it, but the place of the first field stays that of the old line: a field inserted in
  front of all others is then written at the length of the old line, which is in the middle of the
  new line when that is longer.
\<close>

theorem http_set_uri_misplaces:
  assumes "HttpRequestFirstLine_build me ve uri = Inr (l, line)" "HttpRequestFirstLine_build me ve uri' = Inr (l', line')"
    and "message_is line ps body m" "take 1 uri' = ''/''" "length uri \<le> length uri'" "name \<noteq> []" "\<not> has name (pairs ps)"
  shows "\<exists>m1 m2 j. http_setUri junk uri' (l, m) = Inr ((l\<lparr>rq_versionOffset := rq_versionOffset l'\<rparr>, m1), True)
    \<and> lay_data m1 = Inr (line' @ texts ps @ body) \<and> contents m1 = contents m
    \<and> http_insertField_named junk [] name v m1 = Inr (m2, Some j)
    \<and> lay_data m2 = Inr (take (length line) line' @ name @ '': '' @ v @ [CR, LF] @ drop (length line) line' @ texts ps @ body)"
proof -
  from request_line_parts [OF assms(1)] obtain s w where p: "MethodEnumToString me = Inr s" "line = (s @ '' '') @ uri @ '' HTTP/'' @ w @ [CR, LF]"
    "l = \<lparr>rq_method = me, rq_version = ve, rq_uriOffset = int (length s + 1), rq_versionOffset = int (length s + 1 + length uri + 6),
        rq_firstLineEnd = length line, rq_isComplete = True\<rparr>" "VersionEnumToString ve = Inr w" "me \<noteq> HttpMethodUnknown" "ve \<noteq> HttpVersionUnknown" .
  have p': "line' = (s @ '' '') @ uri' @ '' HTTP/'' @ w @ [CR, LF]" "rq_versionOffset l' = int (length s + 1 + length uri' + 6)"
    using assms(2) p(1,4-6) by (auto simp: HttpRequestFirstLine_build_def Let_def)
  let ?k = "int (length uri') - int (length uri)" and ?a = "s @ '' ''" and ?b = "'' HTTP/'' @ w @ [CR, LF]"
  have "uri' \<noteq> []" using assms(4) by auto
  from line_rewritten [OF assms(3) [unfolded p(2)] refl this, of junk] obtain m0 m1 where
    set: "resize_at junk (int (length ?a)) ?k m = Inr (m0, True)"
      "write_at (length ?a) uri' (m0\<lparr>tm_fields := shiftFieldsOffset ?k (tm_fields m0)\<rparr>) = Inr m1"
      "message_is line' ps body (m1\<lparr>tm_fieldsOffset := length line'\<rparr>)" "tm_fieldsOffset m1 = length line"
    unfolding p(2) p'(1) by blast
  have d: "lay_data m = Inr (line @ texts ps @ body)" "lay_data m1 = Inr (line' @ texts ps @ body)"
    using assms(3) set(3) by (simp_all add: message_is_def lay_data_def)
  have uri: "http_getUri l (line @ texts ps @ body) = uri"
  proof -
    have "drop (length s + 1) (line @ texts ps @ body) = uri @ ?b @ texts ps @ body" by (simp add: p(2))
    moreover have "nat (rq_uriOffset l) = length s + 1" "nat (rq_versionOffset l - 6 - rq_uriOffset l) = length uri" "rq_uriOffset l \<noteq> -1"
        "rq_versionOffset l \<noteq> -1" by (simp_all add: p(3))
    ultimately show ?thesis by (simp only: http_getUri_def simp_thms if_True) simp
  qed
  have off: "rq_uriOffset l = int (length ?a)" "rq_versionOffset l + ?k = rq_versionOffset l'" by (simp_all add: p(3) p'(2))
  have "http_setUri junk uri' (l, m) = Inr ((l\<lparr>rq_versionOffset := rq_versionOffset l'\<rparr>, m1), True)"
    using assms(4) by (simp only: http_setUri_def Let_def prod.case d(1) bind_out_simps uri off nat_int set(1,2) simp_thms if_False if_True)
  moreover have "contents m1 = contents m"
  proof -
    have "contents m1 = contents (m1\<lparr>tm_fieldsOffset := length line'\<rparr>)" by (simp add: contents_def lay_data_def)
    then show ?thesis using contents_is [OF set(3)] contents_is [OF assms(3)] by simp
  qed
  moreover have "\<exists>m2 j. http_insertField_named junk [] name v m1 = Inr (m2, Some j)
      \<and> lay_data m2 = Inr (take (length line) line' @ name @ '': '' @ v @ [CR, LF] @ drop (length line) line' @ texts ps @ body)"
  proof -
    let ?new = "initNewField (CHR '':'') True name v" and ?t = "take (length line) line'" and ?r = "drop (length line) line' @ texts ps @ body"
    have n: "name \<noteq> [] \<or> v = []" using assms(6) by simp
    note new = init_ok [OF n, of "CHR '':''" True]
    have x: "m_NewFieldData ?new = name @ '': '' @ v @ [CR, LF]" "hf_size ?new = length (m_NewFieldData ?new)"
      using assms(6) new(1) by (simp add: initNewField_def) (simp add: field_ok_def new(1) [unfolded field_ok_def])
    have t: "length ?t = length line" using assms(5) by (simp add: p(2) p'(1))
    have data: "m_Data m1 = Some (?t @ ?r)" "m_DataLen m1 = length (?t @ ?r)"
      using set(3) by (simp_all only: message_is_def append_take_drop_id append_assoc [symmetric] text_message.select_convs layer.select_convs
          text_message.update_convs) simp_all
    let ?m = "m1\<lparr>m_Data := Some (?t @ junk_bytes junk (length (m_NewFieldData ?new)) @ ?r), m_DataLen := length (?t @ ?r) + length (m_NewFieldData ?new)\<rparr>"
    have ext: "extendLayer junk (int (length line)) (length (m_NewFieldData ?new)) m1 = Inr (?m, True)"
      using extend_at [OF data, of junk "length (m_NewFieldData ?new)"] t by simp
    have "m_Data ?m = Some (?t @ junk_bytes junk (length (m_NewFieldData ?new)) @ ?r)" by simp
    from write_between [OF this, of "m_NewFieldData ?new"] t
    have wr: "write_at (length line) (m_NewFieldData ?new) ?m = Inr (?m\<lparr>m_Data := Some (?t @ m_NewFieldData ?new @ ?r)\<rparr>)" by simp
    have read: "getFieldName (attach (length line) ?new) (?t @ m_NewFieldData ?new @ ?r) = Inr name"
      using name_read(1) [OF new(1), of ?t ?r] t new(2) by simp
    have "getFieldByName name 0 (m1\<lparr>tm_fieldsOffset := length line'\<rparr>) = getFieldByName name 0 m1" by (simp add: getFieldByName_def)
    then have free: "getFieldByName name 0 m1 = None" using not_found(1) [OF set(3) assms(7), of 0] by simp
    have own: "getFieldName ?new (m_NewFieldData ?new) = Inr name" using new_read(1) [OF new(1)] new(2) by simp
    show ?thesis
      using ext wr read free own set(4) new(4) x(2)
      by (simp add: http_insertField_named_def http_insertField_values_def http_insertField_def insertField_def insert_place_def lay_data_def Let_def)
        (simp add: x(1))
  qed
  ultimately show ?thesis using d(2) by blast
qed

theorem http_set_uri_misplaces_witness:
  "\<exists>l line m1 m2 j d. HttpRequestFirstLine_build HttpGET OneDotOne ''/a'' = Inr (l, line)
     \<and> http_setUri (\<lambda>_. NUL) ''/abc'' (l, text_message_new line (length line)) = Inr (m1, True)
     \<and> http_insertField_named (\<lambda>_. NUL) [] ''Host'' ''x'' (snd m1) = Inr (m2, Some j)
     \<and> lay_data m2 = Inr (''GET /abc HTTP/1.1'' @ ''Host: x'' @ [CR, LF] @ [CR, LF])"
proof -
  let ?line = "''GET /a HTTP/1.1'' @ [CR, LF]" and ?line' = "''GET /abc HTTP/1.1'' @ [CR, LF]"
  have "\<exists>l. HttpRequestFirstLine_build HttpGET OneDotOne ''/a'' = Inr (l, ?line)"
    "\<exists>l. HttpRequestFirstLine_build HttpGET OneDotOne ''/abc'' = Inr (l, ?line')"
    by (simp_all add: HttpRequestFirstLine_build_def)
  then obtain l l' where 1: "HttpRequestFirstLine_build HttpGET OneDotOne ''/a'' = Inr (l, ?line)"
      "HttpRequestFirstLine_build HttpGET OneDotOne ''/abc'' = Inr (l', ?line')" by blast
  have m: "message_is ?line [] [] (text_message_new ?line (length ?line))" using new_message [of ?line "[]"] by simp
  have h: "\<not> has ''Host'' (pairs [])" and u: "take 1 ''/abc'' = ''/''" and le: "length ''/a'' \<le> length ''/abc''" and n: "''Host'' \<noteq> []"
    by (simp_all add: has_def)
  from http_set_uri_misplaces [OF 1 m u le n h, of "\<lambda>_. NUL" "''x''"] obtain m1 m2 j where
    s: "http_setUri (\<lambda>_. NUL) ''/abc'' (l, text_message_new ?line (length ?line)) = Inr ((l\<lparr>rq_versionOffset := rq_versionOffset l'\<rparr>, m1), True)"
      "http_insertField_named (\<lambda>_. NUL) [] ''Host'' ''x'' m1 = Inr (m2, Some j)"
      "lay_data m2 = Inr (take (length ?line) ?line' @ ''Host'' @ '': '' @ ''x'' @ [CR, LF] @ drop (length ?line) ?line' @ texts [] @ [])" by blast
  have t: "take (length ?line) ?line' = ''GET /abc HTTP/1.1''" "drop (length ?line) ?line' @ texts [] @ [] = [CR, LF]" by simp_all
  from s(3) have "lay_data m2 = Inr (''GET /abc HTTP/1.1'' @ ''Host: x'' @ [CR, LF] @ [CR, LF])"
    by (simp only: t) simp
  with 1(1) s(1,2) show ?thesis by (metis snd_conv)
qed

end
