(* ===== verification/DnsName.thy ===== *)
theory DnsName
  imports Layer
begin

text \<open>
  Names in a DNS message, \<open>decodeName\<close> and \<open>encodeName\<close> of \<open>DnsResource.cpp\<close>. On the wire a name is a
  sequence of words, each behind its length, that ends with a zero byte or with a pointer to another
  place of the message. The array of 256 characters that the result is written to is a list of bytes
  of that length, with whatever it held before; a write outside is a fault.
\<close>

unbundle bit_operations_syntax

section \<open>Bytes and characters\<close>

definition to_byte :: "char \<Rightarrow> byte" where
  "to_byte c = of_nat (of_char c)"

definition to_char :: "byte \<Rightarrow> char" where
  "to_char b = char_of (unat b)"

abbreviation dot :: char where "dot \<equiv> CHR ''.''"

lemma unat_to_byte: "unat (to_byte c) = of_char c"
proof -
  have "(of_char c :: nat) < 256" by simp
  then show ?thesis by (simp add: to_byte_def unat_of_nat)
qed

lemma to_char_byte [simp]: "to_char (to_byte c) = c"
  by (simp add: to_char_def unat_to_byte)

lemma to_byte_zero [simp]: "to_byte c = 0 \<longleftrightarrow> c = NUL" "to_char 0 = NUL"
proof -
  have "to_byte NUL = 0" by (simp add: to_byte_def)
  then show "to_byte c = 0 \<longleftrightarrow> c = NUL" "to_char 0 = NUL" by (metis to_char_byte)+
qed

definition put_bytes :: "nat \<Rightarrow> 'a list \<Rightarrow> 'a list \<Rightarrow> 'a list outcome" where
  "put_bytes i bs buf = (if i + length bs \<le> length buf then Inr (take i buf @ bs @ drop (i + length bs) buf) else Inl OutOfBounds)"

section \<open>Reading a name\<close>

text \<open>The characters of the name behind a pointer, up to its end or the end of the array.\<close>

fun copy_name :: "byte list \<Rightarrow> nat \<Rightarrow> byte list \<Rightarrow> (nat \<times> byte list) outcome" where
  "copy_name [] rp buf = Inl OutOfBounds"
| "copy_name (c # cs) rp buf =
     (if c \<noteq> 0 \<and> rp < 255 then bind_out (put_at rp c buf) (\<lambda>b. copy_name cs (rp + 1) b) else Inr (rp, buf))"

text \<open>The return where the next word would end outside of the message or of the array.\<close>

definition cut_name :: "nat \<Rightarrow> nat \<Rightarrow> byte list \<Rightarrow> (nat \<times> byte list) outcome" where
  "cut_name enc rp buf =
     (if enc = 256 then bind_out (put_at (rp - 1) 0 buf) (\<lambda>b. Inr (enc, b))
      else bind_out (put_at rp 0 buf) (\<lambda>b. Inr (enc + 1, b)))"

definition pointer_at :: "byte list \<Rightarrow> nat \<Rightarrow> nat \<Rightarrow> nat" where
  "pointer_at d adj off = (unat (d ! off AND 0x3f) * 256 + unat (d ! (off + 1)) + adj) mod 2 ^ 16"

text \<open>
  The loop over the words, from \<open>off\<close> in the message \<open>d\<close>. \<open>enc\<close> is \<open>encodedNameLength\<close>, \<open>rp\<close> the
  place of \<open>resultPtr\<close> in the array, which is \<open>decodedNameLength\<close> too; \<open>jump\<close> is the call of the
  function for a pointer, and \<open>adj\<close> is \<open>m_OffsetAdjustment\<close>.
\<close>

function decode_words ::
    "(nat \<Rightarrow> (nat \<times> byte list) outcome) \<Rightarrow> byte list \<Rightarrow> nat \<Rightarrow> nat \<Rightarrow> nat \<Rightarrow> nat \<Rightarrow> byte list \<Rightarrow> (nat \<times> byte list) outcome" where
  "decode_words jump d adj off enc rp buf =
     bind_out (byte_at d off) (\<lambda>w.
       if w = 0 then
         bind_out (if rp > 0 then put_at (rp - 1) 0 buf else Inr buf) (\<lambda>b.
         bind_out (put_at rp 0 b) (\<lambda>b'. Inr (enc + 1, b')))
       else if w AND 0xc0 = 0xc0 then
         if off + 2 > length d \<or> enc > 255 then Inr (enc, buf)
         else if pointer_at d adj off < 12 \<or> pointer_at d adj off \<ge> length d then Inr (0, buf)
         else bind_out (jump (pointer_at d adj off)) (\<lambda>(_, tempResult).
              bind_out (copy_name tempResult rp buf) (\<lambda>(rp', b).
              bind_out (put_at rp' 0 b) (\<lambda>b'. Inr (enc + 2, b'))))
       else if off + unat w + 1 > length d \<or> enc + unat w > 255 then cut_name enc rp buf
       else bind_out (put_bytes rp (take (unat w) (drop (off + 1) d)) buf) (\<lambda>b.
            bind_out (put_at (rp + unat w) (to_byte dot) b) (\<lambda>b'.
              if off + unat w + 2 > length d then cut_name (enc + unat w + 1) (rp + unat w + 1) b'
              else decode_words jump d adj (off + unat w + 1) (enc + unat w + 1) (rp + unat w + 1) b')))"
  by pat_completeness auto

termination
  by (relation "measure (\<lambda>(jump, d, adj, off, enc, rp, buf). length d - off)") auto

declare decode_words.simps [simp del]

text \<open>\<open>decodeName\<close> with as many iterations left; with none it gives up, as it does behind the message.\<close>

primrec decode_left :: "nat \<Rightarrow> byte list \<Rightarrow> nat \<Rightarrow> nat \<Rightarrow> byte list \<Rightarrow> (nat \<times> byte list) outcome" where
  "decode_left 0 d adj off buf = bind_out (put_at 0 0 buf) (\<lambda>b. Inr (0, b))"
| "decode_left (Suc n) d adj off buf =
     bind_out (put_at 0 0 buf) (\<lambda>b.
       if off + 1 > length d then Inr (0, b)
       else decode_words (\<lambda>p. decode_left n d adj p (replicate 256 0)) d adj off 0 0 b)"

definition decodeName :: "byte list \<Rightarrow> nat \<Rightarrow> nat \<Rightarrow> byte list \<Rightarrow> nat \<Rightarrow> (nat \<times> byte list) outcome" where
  "decodeName d adj off buf iteration = decode_left (21 - iteration) d adj off buf"

text \<open>The name of a resource read from the message, and its length there.\<close>

definition read_name :: "byte list \<Rightarrow> nat \<Rightarrow> nat \<Rightarrow> byte list \<Rightarrow> (nat \<times> string) outcome" where
  "read_name d adj off junk =
     bind_out (decodeName d adj off junk 1) (\<lambda>(n, b).
       if n > 0 then bind_out (c_str (map to_char b)) (\<lambda>s. Inr (n, s)) else Inr (n, []))"

section \<open>Writing a name\<close>

text \<open>The words that \<open>getline\<close> takes from a stream, up to each dot; an empty rest gives none.\<close>

function name_words :: "string \<Rightarrow> string list" where
  "name_words s = (if s = [] then [] else takeWhile (\<lambda>c. c \<noteq> dot) s # name_words (drop 1 (dropWhile (\<lambda>c. c \<noteq> dot) s)))"
  by pat_completeness auto

termination
proof (relation "measure length")
  fix s :: string
  assume "s \<noteq> []"
  moreover have "length (dropWhile (\<lambda>c. c \<noteq> dot) s) \<le> length s" by (rule length_dropWhile_le)
  ultimately show "(drop 1 (dropWhile (\<lambda>c. c \<noteq> dot) s), s) \<in> measure length" by (cases s) (auto split: if_splits)
qed simp

declare name_words.simps [simp del]

text \<open>
  The loop over the words; the place in the array is \<open>resultLen\<close>. A word that starts with \<open>#\<close> is a
  pointer, read by \<open>stream >> int\<close>, which accepts what \<open>stoi\<close> does.
\<close>

fun encode_words :: "string list \<Rightarrow> nat \<Rightarrow> byte list \<Rightarrow> (nat \<times> byte list) outcome" where
  "encode_words [] len buf = bind_out (put_at len 0 buf) (\<lambda>b. Inr (len + 1, b))"
| "encode_words (w # ws) len buf =
     (if w \<noteq> [] \<and> hd w = CHR ''#'' then
        (case stoi (tl w) of
           Inl _ \<Rightarrow> Inr (len, buf)
         | Inr v \<Rightarrow>
             if v < 0 \<or> v > 0xff then Inr (len, buf)
             else bind_out (put_at len 0xc0 buf) (\<lambda>b. bind_out (put_at (len + 1) (of_int v) b) (\<lambda>b'. Inr (len + 2, b'))))
      else bind_out (put_at len (of_nat (length w)) buf) (\<lambda>b.
           bind_out (put_bytes (len + 1) (map to_byte w) b) (\<lambda>b'. encode_words ws (len + length w + 1) b')))"

definition encodeName :: "string \<Rightarrow> byte list \<Rightarrow> (nat \<times> byte list) outcome" where
  "encodeName decodedName buf = encode_words (name_words decodedName) 0 buf"

section \<open>Names of plain words\<close>

text \<open>
  The wire form of words, and their text. A word of at most 63 characters has a length byte that is no
  pointer.
\<close>

definition wire :: "string list \<Rightarrow> byte list" where
  "wire ws = concat (map (\<lambda>w. of_nat (length w) # map to_byte w) ws)"

fun dotted :: "string list \<Rightarrow> string" where
  "dotted [] = []"
| "dotted [w] = w"
| "dotted (w # ws) = w @ dot # dotted ws"

definition plain_word :: "string \<Rightarrow> bool" where
  "plain_word w \<longleftrightarrow> w \<noteq> [] \<and> length w \<le> 63 \<and> dot \<notin> set w \<and> NUL \<notin> set w \<and> hd w \<noteq> CHR ''#''"

lemma wire_simps [simp]:
  "wire [] = []" "wire (w # ws) = of_nat (length w) # map to_byte w @ wire ws" "wire (ws @ vs) = wire ws @ wire vs"
  by (simp_all add: wire_def)

lemma dotted_Cons: "dotted (w # ws) = w @ (if ws = [] then [] else dot # dotted ws)"
  by (cases ws) auto

lemma dotted_length: "ws \<noteq> [] \<Longrightarrow> Suc (length (dotted ws)) = length (wire ws)"
  by (induction ws rule: dotted.induct) (auto simp: dotted_Cons)

lemma name_words_dotted: "list_all (\<lambda>w. w \<noteq> [] \<and> dot \<notin> set w) ws \<Longrightarrow> name_words (dotted ws) = ws"
proof (induction ws)
  case Nil
  then show ?case by (simp add: name_words.simps)
next
  case (Cons w ws)
  then have w: "w \<noteq> []" "\<forall>c \<in> set w. c \<noteq> dot" by auto
  then have "takeWhile (\<lambda>c. c \<noteq> dot) (w @ dot # dotted ws) = w" "dropWhile (\<lambda>c. c \<noteq> dot) (w @ dot # dotted ws) = dot # dotted ws"
      "takeWhile (\<lambda>c. c \<noteq> dot) w = w" "dropWhile (\<lambda>c. c \<noteq> dot) w = []"
    by (simp_all add: takeWhile_append2 dropWhile_append2)
  then have "name_words (w @ dot # dotted ws) = w # name_words (dotted ws)" "name_words w = [w]"
    using w(1) by (simp_all only: name_words.simps [of "w @ dot # dotted ws"] name_words.simps [of w]) (simp_all add: name_words.simps [of "[]"])
  with Cons show ?case by (simp add: dotted_Cons)
qed

lemma name_words_plain: "list_all plain_word ws \<Longrightarrow> name_words (dotted ws) = ws"
  by (rule name_words_dotted) (auto simp: list_all_iff plain_word_def)

text \<open>Writing behind what is there.\<close>

lemma put_at_behind: "put_at (length a) c (a @ x # b) = Inr (a @ c # b)"
  by (simp add: put_at_def)

lemma put_bytes_behind: "length bs = length x \<Longrightarrow> put_bytes (length a) bs (a @ x @ b) = Inr (a @ bs @ b)"
  by (simp add: put_bytes_def)

lemma encode_words_plain:
  assumes "list_all plain_word ws" "length buf = length (wire ws) + 1"
  shows "encode_words ws (length a) (a @ buf @ b) = Inr (length a + length (wire ws) + 1, a @ wire ws @ 0 # b)"
  using assms
proof (induction ws arbitrary: a buf)
  case Nil
  then obtain x where "buf = [x]" by (cases buf) auto
  then show ?case by (simp add: put_at_behind)
next
  case (Cons w ws)
  then obtain x r where r: "buf = x # r" "length r = length w + length (wire ws) + 1" by (cases buf) auto
  define y z where "y = take (length w) r" and "z = drop (length w) r"
  then have buf: "buf = x # y @ z" "length y = length w" "length z = length (wire ws) + 1" using r by simp_all
  let ?n = "of_nat (length w) :: byte"
  have w: "w \<noteq> []" "hd w \<noteq> CHR ''#''" using Cons.prems by (auto simp: plain_word_def)
  have 1: "put_at (length a) ?n (a @ x # y @ z @ b) = Inr (a @ ?n # y @ z @ b)" by (rule put_at_behind)
  have 2: "put_bytes (length a + 1) (map to_byte w) (a @ ?n # y @ z @ b) = Inr (a @ ?n # map to_byte w @ z @ b)"
    using put_bytes_behind [of "map to_byte w" y "a @ [?n]" "z @ b"] buf(2) by simp
  have "encode_words ws (length (a @ ?n # map to_byte w)) ((a @ ?n # map to_byte w) @ z @ b)
      = Inr (length (a @ ?n # map to_byte w) + length (wire ws) + 1, (a @ ?n # map to_byte w) @ wire ws @ 0 # b)"
    by (rule Cons.IH) (use Cons.prems buf(3) in simp_all)
  with w 1 2 show ?case by (simp add: buf(1) add.assoc del: of_nat_eq_0_iff)
qed

lemma encodeName_plain:
  assumes "list_all plain_word ws" "length (wire ws) < length buf"
  shows "encodeName (dotted ws) buf = Inr (length (wire ws) + 1, wire ws @ 0 # drop (length (wire ws) + 1) buf)"
  using encode_words_plain [OF assms(1), of "take (length (wire ws) + 1) buf" "[]" "drop (length (wire ws) + 1) buf"] assms
  by (simp add: encodeName_def name_words_plain)

section \<open>Reading back\<close>

text \<open>What the loop has written when it is behind the words: each with a dot behind it.\<close>

definition dots :: "string list \<Rightarrow> byte list" where
  "dots ws = concat (map (\<lambda>w. map to_byte w @ [to_byte dot]) ws)"

definition short_word :: "string \<Rightarrow> bool" where
  "short_word w \<longleftrightarrow> w \<noteq> [] \<and> length w \<le> 63"

lemma dots_simps [simp]: "dots [] = []" "dots (w # ws) = map to_byte w @ to_byte dot # dots ws"
  by (simp_all add: dots_def)

lemma length_dots [simp]: "length (dots ws) = length (wire ws)"
  by (induction ws) simp_all

lemma dots_dotted: "ws \<noteq> [] \<Longrightarrow> dots ws = map to_byte (dotted ws) @ [to_byte dot]"
  by (induction ws rule: dotted.induct) (auto simp: dotted_Cons)

lemma plain_short: "plain_word w \<Longrightarrow> short_word w"
  by (simp add: plain_word_def short_word_def)

lemma short_length_byte:
  assumes "short_word w"
  shows "unat (of_nat (length w) :: byte) = length w" "(of_nat (length w) :: byte) \<noteq> 0" "(of_nat (length w) :: byte) AND 0xc0 \<noteq> 0xc0"
proof -
  have l: "length w < 64" "w \<noteq> []" using assms by (auto simp: short_word_def)
  then show u: "unat (of_nat (length w) :: byte) = length w" by (simp add: unat_of_nat)
  show "(of_nat (length w) :: byte) \<noteq> 0" using u l(2) by (metis length_0_conv unat_0)
  have "(of_nat (length w) :: byte) AND 0xc0 \<le> of_nat (length w)" by (rule word_and_le2)
  moreover have "\<not> 0xc0 \<le> (of_nat (length w) :: byte)" using u l(1) by (simp add: word_le_nat_alt)
  ultimately show "(of_nat (length w) :: byte) AND 0xc0 \<noteq> 0xc0" by metis
qed

lemma decode_word:
  assumes w: "short_word w" and d: "d = pre @ wire [w] @ tail" "tail \<noteq> []"
    and fits: "length out + length w \<le> 255" "length out + length rest = 256"
  shows "decode_words jump d adj (length pre) (length out) (length out) (out @ rest)
    = decode_words jump d adj (length pre + length (wire [w])) (length out + length (wire [w])) (length out + length (wire [w]))
        ((out @ dots [w]) @ drop (length (wire [w])) rest)"
proof -
  note b = short_length_byte [OF w]
  have read: "byte_at d (length pre) = Inr (of_nat (length w))" by (simp add: d(1))
  have cut: "take (length w) (drop (length pre + 1) d) = map to_byte w" by (simp add: d(1))
  have 1: "put_bytes (length out) (map to_byte w) (out @ rest) = Inr (out @ map to_byte w @ drop (length w) rest)"
    using put_bytes_behind [of "map to_byte w" "take (length w) rest" out "drop (length w) rest"] fits by simp
  have 2: "put_at (length out + length w) (to_byte dot) (out @ map to_byte w @ drop (length w) rest)
      = Inr ((out @ dots [w]) @ drop (length (wire [w])) rest)"
  proof -
    obtain x r where "drop (length w) rest = x # r" using fits by (cases "drop (length w) rest") auto
    moreover from this have "r = drop (length w + 1) rest" by (metis Suc_eq_plus1 drop_Suc drop_tl list.sel(3))
    ultimately show ?thesis using put_at_behind [of "out @ map to_byte w" "to_byte dot" x r] by simp
  qed
  have g: "\<not> length pre + length w + 2 > length d" "\<not> (length pre + length w + 1 > length d \<or> length out + length w > 255)"
    using d fits(1) by (cases tail; simp)+
  have l: "length (wire [w]) = length w + 1" by simp
  show ?thesis
    unfolding decode_words.simps [of jump d adj "length pre"] read bind_out_simps b(1) cut 1 2 l
    using b(2,3) g by (simp only: if_False add.assoc)
qed

lemma decode_run:
  assumes "list_all short_word ws" "d = pre @ wire ws @ tail" "tail \<noteq> []"
    and "length out + length (wire ws) \<le> 256" "length out + length rest = 256"
  shows "decode_words jump d adj (length pre) (length out) (length out) (out @ rest)
    = decode_words jump d adj (length pre + length (wire ws)) (length out + length (wire ws)) (length out + length (wire ws))
        ((out @ dots ws) @ drop (length (wire ws)) rest)"
  using assms
proof (induction ws arbitrary: pre out rest)
  case Nil
  then show ?case by simp
next
  case (Cons w ws)
  then have w: "short_word w" and d: "d = pre @ wire [w] @ wire ws @ tail" by simp_all
  have "decode_words jump d adj (length pre) (length out) (length out) (out @ rest)
    = decode_words jump d adj (length pre + length (wire [w])) (length out + length (wire [w])) (length out + length (wire [w]))
        ((out @ dots [w]) @ drop (length (wire [w])) rest)"
    by (rule decode_word [OF w d]) (use Cons.prems in simp_all)
  also have "\<dots> = decode_words jump d adj (length (pre @ wire [w])) (length (out @ dots [w])) (length (out @ dots [w]))
        ((out @ dots [w]) @ drop (length (wire [w])) rest)" by simp
  also have "\<dots> = decode_words jump d adj (length (pre @ wire [w]) + length (wire ws)) (length (out @ dots [w]) + length (wire ws))
      (length (out @ dots [w]) + length (wire ws)) (((out @ dots [w]) @ dots ws) @ drop (length (wire ws)) (drop (length (wire [w])) rest))"
    by (rule Cons.IH) (use Cons.prems in simp_all)
  finally show ?case by (simp add: add.assoc add.commute add.left_commute)
qed

text \<open>A name of words up to a zero byte. Of 256 bytes before it, it writes behind the array.\<close>

lemma decode_plain:
  assumes "list_all short_word ws" "length buf = 256" "length (wire ws) \<le> 255"
  shows "decode_left (Suc n) (pre @ wire ws @ 0 # tail) adj (length pre) buf
    = Inr (length (wire ws) + 1, (if ws = [] then 0 # drop 1 buf else map to_byte (dotted ws) @ 0 # 0 # drop (length (wire ws) + 1) buf))"
proof -
  let ?d = "pre @ wire ws @ 0 # tail" and ?k = "length (wire ws)" and ?jump = "\<lambda>p. decode_left n (pre @ wire ws @ 0 # tail) adj p (replicate 256 0)"
  obtain x r where buf: "buf = x # r" using assms(2) by (cases buf) auto
  have start: "put_at 0 0 buf = Inr (0 # r)" by (simp add: buf put_at_def)
  have run: "decode_words ?jump ?d adj (length pre) 0 0 (0 # r) = decode_words ?jump ?d adj (length pre + ?k) ?k ?k (dots ws @ drop ?k (0 # r))"
    using decode_run [OF assms(1), of ?d pre "0 # tail" "[]" "0 # r"] assms(2,3) buf by simp
  have read: "byte_at ?d (length pre + ?k) = Inr 0" by (simp add: nth_append)
  have "decode_words ?jump ?d adj (length pre + ?k) ?k ?k (dots ws @ drop ?k (0 # r))
      = Inr (?k + 1, (if ws = [] then 0 # r else map to_byte (dotted ws) @ 0 # 0 # drop (?k + 1) (x # r)))"
  proof (cases "ws = []")
    case True
    then show ?thesis by (simp add: decode_words.simps [of _ _ adj "length pre"] byte_at_def put_at_def)
  next
    case False
    then obtain j where k: "?k = Suc j" using dotted_length [OF False] by metis
    have j: "length (map to_byte (dotted ws)) = j" using dotted_length [OF False] k by simp
    have out: "dots ws @ drop ?k (0 # r) = map to_byte (dotted ws) @ to_byte dot # drop j r" using dots_dotted [OF False] k by simp
    have 1: "put_at (?k - 1) 0 (dots ws @ drop ?k (0 # r)) = Inr (map to_byte (dotted ws) @ 0 # drop j r)"
      unfolding out using put_at_behind [of "map to_byte (dotted ws)" 0 "to_byte dot" "drop j r"] by (simp only: j k diff_Suc_1)
    obtain y q where q: "drop j r = y # q" using assms(2,3) buf k by (cases "drop j r") auto
    then have "q = drop (Suc j) r" by (metis drop_Suc drop_tl list.sel(3))
    then have 2: "put_at ?k 0 (map to_byte (dotted ws) @ 0 # drop j r) = Inr (map to_byte (dotted ws) @ 0 # 0 # drop (?k + 1) (x # r))"
      using put_at_behind [of "map to_byte (dotted ws) @ [0]" 0 y q] j k q by simp
    have "0 < ?k" using k by simp
    then show ?thesis using False
      unfolding decode_words.simps [of ?jump ?d adj "length pre + ?k"] read bind_out_simps by (simp only: simp_thms if_True if_False 1 2 bind_out_simps)
  qed
  then show ?thesis using run buf by (simp add: start)
qed

lemma decode_full:
  assumes "list_all short_word ws" "length buf = 256" "length (wire ws) = 256"
  shows "decode_left (Suc n) (pre @ wire ws @ 0 # tail) adj (length pre) buf = Inl OutOfBounds"
proof -
  let ?d = "pre @ wire ws @ 0 # tail" and ?jump = "\<lambda>p. decode_left n (pre @ wire ws @ 0 # tail) adj p (replicate 256 0)"
  obtain x r where buf: "buf = x # r" using assms(2) by (cases buf) auto
  have "decode_words ?jump ?d adj (length pre) 0 0 (0 # r) = decode_words ?jump ?d adj (length pre + 256) 256 256 (dots ws @ drop 256 (0 # r))"
    using decode_run [OF assms(1), of ?d pre "0 # tail" "[]" "0 # r"] assms(2,3) buf by simp
  moreover have "byte_at ?d (length pre + 256) = Inr 0" using assms(3) by (simp add: nth_append)
  moreover have "length (dots ws @ drop 256 (0 # r)) = 256" using assms(2,3) buf by simp
  ultimately show ?thesis
    by (simp add: buf put_at_def decode_words.simps [of ?jump ?d adj "length pre + 256"])
qed

lemma plain_no_NUL: "list_all plain_word ws \<Longrightarrow> NUL \<notin> set (dotted ws)"
  by (induction ws) (auto simp: dotted_Cons plain_word_def)

lemma map_to_char [simp]: "map to_char (map to_byte s) = s"
  by (induction s) simp_all

lemma read_name_plain:
  assumes "list_all plain_word ws" "length junk = 256" "length (wire ws) \<le> 255"
  shows "read_name (pre @ wire ws @ 0 # tail) adj (length pre) junk = Inr (length (wire ws) + 1, dotted ws)"
proof -
  have "list_all short_word ws" using assms(1) by (auto simp: list_all_iff plain_short)
  from decode_plain [OF this assms(2,3), of 19] have
    1: "decodeName (pre @ wire ws @ 0 # tail) adj (length pre) junk 1
      = Inr (length (wire ws) + 1, (if ws = [] then 0 # drop 1 junk else map to_byte (dotted ws) @ 0 # 0 # drop (length (wire ws) + 1) junk))"
    by (simp add: decodeName_def numeral_eq_Suc)
  have "c_str (dotted ws @ NUL # t) = Inr (dotted ws)" for t by (rule c_str_append [OF plain_no_NUL [OF assms(1)]])
  then show ?thesis unfolding read_name_def 1 by (cases "ws = []") (simp_all add: map_to_char [unfolded map_map])
qed

section \<open>Where it writes\<close>

text \<open>
  How far the loop gets in words that it can take: the place of the first byte that starts no such
  word, and how many bytes stand before it. With 256 of them a zero byte is written behind the array;
  so it is where a pointer leads to such a name.
\<close>

function name_stop :: "byte list \<Rightarrow> nat \<Rightarrow> nat \<Rightarrow> nat \<times> nat" where
  "name_stop d off enc =
     (if off < length d \<and> d ! off \<noteq> 0 \<and> d ! off AND 0xc0 \<noteq> 0xc0 \<and> off + unat (d ! off) + 2 \<le> length d \<and> enc + unat (d ! off) \<le> 255
      then name_stop d (off + unat (d ! off) + 1) (enc + unat (d ! off) + 1) else (off, enc))"
  by pat_completeness auto

termination
  by (relation "measure (\<lambda>(d, off, enc). length d - off)") auto

declare name_stop.simps [simp del]

definition jumps :: "byte list \<Rightarrow> nat \<Rightarrow> nat \<Rightarrow> nat \<Rightarrow> bool" where
  "jumps d adj i enc \<longleftrightarrow> i + 2 \<le> length d \<and> d ! i \<noteq> 0 \<and> d ! i AND 0xc0 = 0xc0 \<and> enc \<le> 255 \<and> 12 \<le> pointer_at d adj i \<and> pointer_at d adj i < length d"

fun overflows :: "nat \<Rightarrow> byte list \<Rightarrow> nat \<Rightarrow> nat \<Rightarrow> bool" where
  "overflows 0 d adj off = False"
| "overflows (Suc n) d adj off \<longleftrightarrow> off < length d
     \<and> (let (i, enc) = name_stop d off 0
        in (d ! i = 0 \<and> enc = 256) \<or> (jumps d adj i enc \<and> overflows n d adj (pointer_at d adj i)))"

lemma copy_name_fits:
  "length buf = 256 \<Longrightarrow> rp \<le> 255 \<Longrightarrow> 256 \<le> rp + length temp
     \<Longrightarrow> \<exists>rp' b. copy_name temp rp buf = Inr (rp', b) \<and> rp' \<le> 255 \<and> length b = 256"
  by (induction temp rp buf rule: copy_name.induct) (auto simp: put_at_def)

lemma put_at_length: "put_at i c buf = Inr b \<Longrightarrow> length b = length buf"
  by (auto simp: put_at_def split: if_splits)

lemma cut_name_fits: "length buf = 256 \<Longrightarrow> enc \<le> 256 \<Longrightarrow> \<exists>n b. cut_name enc enc buf = Inr (n, b) \<and> length b = 256 \<and> n \<le> 256"
  by (auto simp: cut_name_def put_at_def)

lemma name_stop_inside: "off < length d \<Longrightarrow> enc \<le> 256 \<Longrightarrow> name_stop d off enc = (i, e) \<Longrightarrow> i < length d \<and> e \<le> 256"
proof (induction d off enc rule: name_stop.induct)
  case (1 d off enc)
  show ?case
  proof (cases "off < length d \<and> d ! off \<noteq> 0 \<and> d ! off AND 0xc0 \<noteq> 0xc0 \<and> off + unat (d ! off) + 2 \<le> length d \<and> enc + unat (d ! off) \<le> 255")
    case True
    then have "name_stop d (off + unat (d ! off) + 1) (enc + unat (d ! off) + 1) = (i, e)" using 1(4) by (simp add: name_stop.simps [of d off])
    moreover have "off + unat (d ! off) + 1 < length d" "enc + unat (d ! off) + 1 \<le> 256" using True by linarith+
    ultimately show ?thesis using 1(1) [OF True] by blast
  next
    case False
    then show ?thesis using 1(2-4) by (auto simp: name_stop.simps [of d off])
  qed
qed

definition stops_with :: "(nat \<Rightarrow> (nat \<times> byte list) outcome) \<Rightarrow> byte list \<Rightarrow> nat \<Rightarrow> nat \<times> nat \<Rightarrow> (nat \<times> byte list) outcome \<Rightarrow> bool" where
  "stops_with jump d adj = (\<lambda>(i, enc) r.
     if d ! i = 0 \<and> enc = 256 then r = Inl OutOfBounds
     else if jumps d adj i enc \<and> (\<exists>e. jump (pointer_at d adj i) = Inl e) then r = Inl (projl (jump (pointer_at d adj i)))
     else \<exists>n b. r = Inr (n, b) \<and> length b = 256)"

lemma decode_words_result:
  assumes "\<And>p n b. jump p = Inr (n, b) \<Longrightarrow> length b = 256"
  shows "length buf = 256 \<Longrightarrow> enc \<le> 256 \<Longrightarrow> off < length d
    \<Longrightarrow> stops_with jump d adj (name_stop d off enc) (decode_words jump d adj off enc enc buf)"
proof (induction d off enc arbitrary: buf rule: name_stop.induct)
  case (1 d off enc)
  let ?w = "d ! off"
  note IH = 1(1)
  have read: "byte_at d off = Inr ?w" using 1(4) by simp
  note step = decode_words.simps [of jump d adj off enc enc buf, unfolded read bind_out_simps]
  consider (zero) "?w = 0" | (pointer) "?w AND 0xc0 = 0xc0" "?w \<noteq> 0"
    | (cut) "?w \<noteq> 0" "?w AND 0xc0 \<noteq> 0xc0" "off + unat ?w + 1 > length d \<or> enc + unat ?w > 255"
    | (word) "?w \<noteq> 0" "?w AND 0xc0 \<noteq> 0xc0" "enc + unat ?w \<le> 255" "off + unat ?w + 1 \<le> length d" by linarith
  then show ?case
  proof cases
    case zero
    then have "name_stop d off enc = (off, enc)" by (simp add: name_stop.simps [of d off])
    then show ?thesis using zero 1(2,3) by (auto simp: step stops_with_def jumps_def put_at_def)
  next
    case pointer
    then have stop: "name_stop d off enc = (off, enc)" by (simp add: name_stop.simps [of d off])
    let ?p = "pointer_at d adj off"
    show ?thesis
    proof (cases "jumps d adj off enc")
      case False
      then show ?thesis using pointer 1(2-4) unfolding step stop by (auto simp: stops_with_def jumps_def)
    next
      case True
      then have j: "\<not> (off + 2 > length d \<or> enc > 255)" "\<not> (?p < 12 \<or> ?p \<ge> length d)" by (auto simp: jumps_def)
      show ?thesis
      proof (cases "jump ?p")
        case (Inl e)
        then show ?thesis using pointer True j unfolding step stop by (simp add: stops_with_def)
      next
        case (Inr r)
        obtain n temp where r: "r = (n, temp)" by (cases r)
        have "length temp = 256" using assms Inr r by blast
        then obtain rp' b where "copy_name temp enc buf = Inr (rp', b)" "rp' \<le> 255" "length b = 256"
          using copy_name_fits [of buf enc temp] 1(2) j(1) by auto
        then show ?thesis using pointer True j Inr r unfolding step stop by (simp add: stops_with_def put_at_def)
      qed
    qed
  next
    case cut
    then have "name_stop d off enc = (off, enc)" by (auto simp: name_stop.simps [of d off])
    moreover obtain n b where "cut_name enc enc buf = Inr (n, b)" "length b = 256" using cut_name_fits [OF 1(2,3)] by blast
    ultimately show ?thesis using cut unfolding step by (simp add: stops_with_def jumps_def)
  next
    case word
    let ?x = "take (unat ?w) (drop (off + 1) d)"
    have l: "length ?x = unat ?w" using word(4) by simp
    define b where "b = take enc buf @ ?x @ drop (enc + unat ?w) buf"
    have 1: "put_bytes enc ?x buf = Inr b" "length b = 256" using l 1(2) word(3) by (simp_all add: put_bytes_def b_def)
    define b' where "b' = b[enc + unat ?w := to_byte dot]"
    have 2: "put_at (enc + unat ?w) (to_byte dot) b = Inr b'" "length b' = 256" using 1(2) word(3) by (simp_all add: b'_def)
    have g: "\<not> (off + unat ?w + 1 > length d \<or> enc + unat ?w > 255)" using word by simp
    show ?thesis
    proof (cases "off + unat ?w + 2 > length d")
      case True
      then have stop: "name_stop d off enc = (off, enc)" by (simp add: name_stop.simps [of d off])
      obtain n c where "cut_name (enc + unat ?w + 1) (enc + unat ?w + 1) b' = Inr (n, c)" "length c = 256"
        using cut_name_fits [OF 2(2), of "enc + unat ?w + 1"] word(3) by auto
      then show ?thesis using word(1,2) g True unfolding stop step 1 2 by (simp add: stops_with_def jumps_def 1 2)
    next
      case False
      then have c: "off < length d \<and> ?w \<noteq> 0 \<and> ?w AND 0xc0 \<noteq> 0xc0 \<and> off + unat ?w + 2 \<le> length d \<and> enc + unat ?w \<le> 255"
        using word by simp
      have "decode_words jump d adj off enc enc buf = decode_words jump d adj (off + unat ?w + 1) (enc + unat ?w + 1) (enc + unat ?w + 1) b'"
        using word(1,2) g False unfolding step 1 2 bind_out_simps by (simp only: if_False if_True simp_thms 1 2 bind_out_simps)
      moreover have "name_stop d off enc = name_stop d (off + unat ?w + 1) (enc + unat ?w + 1)"
        using c by (simp add: name_stop.simps [of d off])
      moreover have "stops_with jump d adj (name_stop d (off + unat ?w + 1) (enc + unat ?w + 1))
          (decode_words jump d adj (off + unat ?w + 1) (enc + unat ?w + 1) (enc + unat ?w + 1) b')"
        by (rule IH [OF c 2(2)]) (use c in simp_all)
      ultimately show ?thesis by simp
    qed
  qed
qed

lemma decode_left_result:
  "length buf = 256 \<Longrightarrow> (overflows n d adj off \<and> decode_left n d adj off buf = Inl OutOfBounds)
     \<or> (\<not> overflows n d adj off \<and> (\<exists>k b. decode_left n d adj off buf = Inr (k, b) \<and> length b = 256))"
proof (induction n arbitrary: off buf)
  case 0
  then show ?case by (simp add: put_at_def)
next
  case (Suc n)
  let ?jump = "\<lambda>p. decode_left n d adj p (replicate 256 0)"
  have jump: "(overflows n d adj p \<and> ?jump p = Inl OutOfBounds) \<or> (\<not> overflows n d adj p \<and> (\<exists>k b. ?jump p = Inr (k, b) \<and> length b = 256))" for p
    by (rule Suc.IH) simp
  have start: "put_at 0 0 buf = Inr (buf[0 := 0])" using Suc.prems by (simp add: put_at_def)
  show ?case
  proof (cases "off < length d")
    case False
    then show ?thesis using Suc.prems by (simp add: start)
  next
    case True
    obtain i k where s: "name_stop d off 0 = (i, k)" by (cases "name_stop d off 0")
    have "length b = 256" if "?jump p = Inr (m, b)" for p m b using jump [of p] that by auto
    from decode_words_result [of ?jump "buf[0 := 0]" 0 off d adj, OF this] Suc.prems True s
    have r: "stops_with ?jump d adj (i, k) (decode_words ?jump d adj off 0 0 (buf[0 := 0]))" by simp
    have "decode_left (Suc n) d adj off buf = decode_words ?jump d adj off 0 0 (buf[0 := 0])" using True by (simp add: start)
    then show ?thesis using r jump [of "pointer_at d adj i"] True s by (auto simp: stops_with_def split: if_splits)
  qed
qed

section \<open>Compressed names\<close>

lemma copy_name_text:
  "NUL \<notin> set s \<Longrightarrow> length out + length s \<le> 255 \<Longrightarrow> length s < length rest
     \<Longrightarrow> copy_name (map to_byte s @ 0 # t) (length out) (out @ rest) = Inr (length out + length s, out @ map to_byte s @ drop (length s) rest)"
proof (induction s arbitrary: out rest)
  case Nil
  then show ?case by simp
next
  case (Cons c s)
  then obtain x r where rest: "rest = x # r" by (cases rest) auto
  have "copy_name (map to_byte s @ 0 # t) (length (out @ [to_byte c])) ((out @ [to_byte c]) @ r)
      = Inr (length (out @ [to_byte c]) + length s, (out @ [to_byte c]) @ map to_byte s @ drop (length s) r)"
    by (rule Cons.IH) (use Cons.prems rest in auto)
  moreover have "put_at (length out) (to_byte c) (out @ x # r) = Inr (out @ to_byte c # r)" by (rule put_at_behind)
  ultimately show ?case using Cons.prems by (auto simp: rest)
qed

text \<open>The words of a name, a pointer, and the name that stands where it points to.\<close>

lemma decode_pointer:
  assumes ws: "list_all short_word ws" and buf: "length buf = 256" and d: "d = pre @ wire ws @ [a, b] @ tail" and a: "a AND 0xc0 = 0xc0" "a \<noteq> 0"
    and p: "p = pointer_at d adj (length pre + length (wire ws))" "12 \<le> p" "p < length d"
    and jump: "decode_left n d adj p (replicate 256 0) = Inr (k, map to_byte s @ 0 # t)" and s: "NUL \<notin> set s" "length (wire ws) + length s \<le> 255"
  shows "\<exists>r. decode_left (Suc n) d adj (length pre) buf = Inr (length (wire ws) + 2, dots ws @ map to_byte s @ 0 # r)"
proof -
  let ?k = "length (wire ws)" and ?jump = "\<lambda>p. decode_left n d adj p (replicate 256 0)"
  obtain x r where r: "buf = x # r" using buf by (cases buf) auto
  have start: "put_at 0 0 buf = Inr (0 # r)" by (simp add: r put_at_def)
  have run: "decode_words ?jump d adj (length pre) 0 0 (0 # r) = decode_words ?jump d adj (length pre + ?k) ?k ?k (dots ws @ drop ?k (0 # r))"
    using decode_run [OF ws d, of "[]" "0 # r" ?jump adj] buf r s by simp
  have at: "d ! (length pre + ?k) = a" using d by (simp add: nth_append)
  then have read: "byte_at d (length pre + ?k) = Inr a" using d by simp
  have g: "\<not> (length pre + ?k + 2 > length d \<or> ?k > 255)" "\<not> (p < 12 \<or> p \<ge> length d)" using d s(2) p(2,3) by simp_all
  have room: "length s < length (drop ?k (0 # r))" using buf r s(2) by (simp add: Suc_diff_le)
  have 1: "copy_name (map to_byte s @ 0 # t) ?k (dots ws @ drop ?k (0 # r)) = Inr (?k + length s, dots ws @ map to_byte s @ drop (length s) (drop ?k (0 # r)))"
    using copy_name_text [OF s(1), of "dots ws" "drop ?k (0 # r)" t] s(2) room by simp
  obtain y q where q: "drop (length s) (drop ?k (0 # r)) = y # q" using room by (cases "drop (length s) (drop ?k (0 # r))") auto
  have 2: "put_at (?k + length s) 0 (dots ws @ map to_byte s @ y # q) = Inr (dots ws @ map to_byte s @ 0 # q)"
    using put_at_behind [of "dots ws @ map to_byte s" 0 y q] by simp
  have "decode_words ?jump d adj (length pre + ?k) ?k ?k (dots ws @ drop ?k (0 # r)) = Inr (?k + 2, dots ws @ map to_byte s @ 0 # q)"
    unfolding decode_words.simps [of ?jump d adj "length pre + ?k"] read bind_out_simps p(1) [symmetric] jump prod.case 1 q 2
    using a g by simp
  moreover have "\<not> length pre + 1 > length d" using d by simp
  ultimately show ?thesis using run by (simp add: start)
qed

lemma encode_words_pointer:
  assumes "list_all plain_word ws" "length buf = length (wire ws) + 2" "p \<le> 255"
  shows "encode_words (ws @ [CHR ''#'' # nat_str p]) (length a) (a @ buf @ b) = Inr (length a + length (wire ws) + 2, a @ wire ws @ [0xc0, of_nat p] @ b)"
  using assms(1,2)
proof (induction ws arbitrary: a buf)
  case Nil
  then obtain x y where buf: "buf = [x, y]" by (auto simp: length_Suc_conv numeral_eq_Suc)
  have "stoi (nat_str p) = Inr (int p)" by (rule stoi_nat_str) (use assms(3) in simp)
  moreover have "put_at (length a) 0xc0 (a @ x # y # b) = Inr (a @ 0xc0 # y # b)" by (rule put_at_behind)
  moreover have "put_at (length a + 1) (of_nat p) (a @ 0xc0 # y # b) = Inr (a @ 0xc0 # of_nat p # b)"
    using put_at_behind [of "a @ [0xc0]" "of_nat p" y b] by simp
  ultimately show ?case using assms(3) by (simp add: buf)
next
  case (Cons w ws)
  then obtain x r where r: "buf = x # r" "length r = length w + length (wire ws) + 2" by (cases buf) auto
  define y z where "y = take (length w) r" and "z = drop (length w) r"
  then have buf: "buf = x # y @ z" "length y = length w" "length z = length (wire ws) + 2" using r by simp_all
  let ?n = "of_nat (length w) :: byte"
  have w: "w \<noteq> []" "hd w \<noteq> CHR ''#''" using Cons.prems by (auto simp: plain_word_def)
  have 1: "put_at (length a) ?n (a @ x # y @ z @ b) = Inr (a @ ?n # y @ z @ b)" by (rule put_at_behind)
  have 2: "put_bytes (length a + 1) (map to_byte w) (a @ ?n # y @ z @ b) = Inr (a @ ?n # map to_byte w @ z @ b)"
    using put_bytes_behind [of "map to_byte w" y "a @ [?n]" "z @ b"] buf(2) by simp
  have "encode_words (ws @ [CHR ''#'' # nat_str p]) (length (a @ ?n # map to_byte w)) ((a @ ?n # map to_byte w) @ z @ b)
      = Inr (length (a @ ?n # map to_byte w) + length (wire ws) + 2, (a @ ?n # map to_byte w) @ wire ws @ [0xc0, of_nat p] @ b)"
    by (rule Cons.IH) (use Cons.prems buf(3) in simp_all)
  with w 1 2 show ?case by (simp add: buf(1) add.assoc del: of_nat_eq_0_iff)
qed

lemma dots_then: "vs \<noteq> [] \<Longrightarrow> map to_char (dots ws) @ dotted vs = dotted (ws @ vs)"
proof (induction ws)
  case Nil
  then show ?case by simp
next
  case (Cons w ws)
  then show ?case by (simp add: dotted_Cons map_to_char [unfolded map_map])
qed

lemma encode_pointer:
  assumes "list_all plain_word ws" "p \<le> 255" "length (wire ws) + 2 \<le> length buf"
  shows "encodeName (dotted (ws @ [CHR ''#'' # nat_str p])) buf
    = Inr (length (wire ws) + 2, wire ws @ [0xc0, of_nat p] @ drop (length (wire ws) + 2) buf)"
proof -
  have "list_all (\<lambda>w. w \<noteq> [] \<and> dot \<notin> set w) (ws @ [CHR ''#'' # nat_str p])"
    using assms(1) nat_str_other [of dot p] by (auto simp: list_all_iff plain_word_def is_digit_def)
  then show ?thesis
    using encode_words_pointer [OF assms(1) _ assms(2), of "take (length (wire ws) + 2) buf" "[]" "drop (length (wire ws) + 2) buf"] assms(3)
    by (simp add: encodeName_def name_words_dotted)
qed

section \<open>Properties\<close>

text \<open>
  C22. A name is read without a fault unless it, or a name that a pointer leads to within 20 jumps, has
  exactly 256 bytes before its zero byte: then, and only then, a zero is written behind the array of
  256 characters. Whatever the message holds, nothing outside of it is read.
\<close>

theorem dns_name_faults_iff:
  assumes "length buf = 256"
  shows "decodeName d adj off buf iteration = Inl e \<longleftrightarrow> e = OutOfBounds \<and> overflows (21 - iteration) d adj off"
  using decode_left_result [OF assms, of "21 - iteration" d adj off] by (auto simp: decodeName_def)

theorem dns_name_faults_iff_witness:
  "decodeName (replicate 12 0 @ wire (replicate 4 (replicate 63 (CHR ''a''))) @ [0]) 0 12 (replicate 256 0) 1 = Inl OutOfBounds
     \<and> overflows 20 (replicate 12 0 @ wire (replicate 4 (replicate 63 (CHR ''a''))) @ [0]) 0 12"
proof -
  let ?ws = "replicate 4 (replicate 63 (CHR ''a''))"
  have "list_all short_word ?ws" "length (wire ?ws) = 256" by (simp_all add: short_word_def numeral_eq_Suc)
  then have "decodeName (replicate 12 0 @ wire ?ws @ [0]) 0 12 (replicate 256 0) 1 = Inl OutOfBounds"
    using decode_full [of ?ws "replicate 256 0" 19 "replicate 12 0" "[]" 0] by (simp add: decodeName_def numeral_eq_Suc)
  with dns_name_faults_iff [of "replicate 256 0" "replicate 12 0 @ wire ?ws @ [0]" 0 12 1 OutOfBounds] show ?thesis by simp
qed

text \<open>
  C23. A compressed name is read back whole: words that are written with a pointer at their end, to a
  place that holds a name, are read as the words and those of that name, from any message in which
  both stand.
\<close>

theorem dns_name_compressed:
  assumes "list_all plain_word ws" "list_all plain_word vs" "vs \<noteq> []" "length (wire (ws @ vs)) \<le> 255"
    and "p \<le> 255" "adj \<le> 2" "12 \<le> p + adj" "length pre = p + adj" "length buf = 256" "length junk = 256"
  shows "\<exists>n b. encodeName (dotted (ws @ [CHR ''#'' # nat_str p])) buf = Inr (n, b)
    \<and> read_name (pre @ wire vs @ 0 # mid @ take n b @ tail) adj (length (pre @ wire vs @ 0 # mid)) junk = Inr (n, dotted (ws @ vs))"
proof -
  let ?k = "length (wire ws)" and ?m = "pre @ wire vs @ 0 # mid" and ?b = "of_nat p :: byte"
  define d where "d = ?m @ wire ws @ [0xc0, ?b] @ tail"
  have short: "list_all short_word ws" "list_all short_word vs" using assms(1,2) by (auto simp: list_all_iff plain_short)
  have written: "encodeName (dotted (ws @ [CHR ''#'' # nat_str p])) buf = Inr (?k + 2, wire ws @ [0xc0, ?b] @ drop (?k + 2) buf)"
    by (rule encode_pointer [OF assms(1,5)]) (use assms(4,9) dotted_length [OF assms(3)] in simp)
  have "d ! (length ?m + ?k) = 0xc0" "d ! (length ?m + ?k + 1) = ?b" unfolding d_def by (simp_all add: nth_append)
  moreover have "unat ?b = p" using assms(5) by (simp add: unat_of_nat)
  ultimately have p: "p + adj = pointer_at d adj (length ?m + ?k)" using assms(5,6) by (simp add: pointer_at_def)
  have "d = pre @ wire vs @ 0 # (mid @ wire ws @ [0xc0, ?b] @ tail)" by (simp add: d_def)
  from decode_plain [OF short(2), of "replicate 256 0" 18 pre "mid @ wire ws @ [0xc0, ?b] @ tail" adj, folded this] assms(3,4,8)
  obtain t where jump: "decode_left 19 d adj (p + adj) (replicate 256 0) = Inr (length (wire vs) + 1, map to_byte (dotted vs) @ 0 # t)"
    by (auto simp: numeral_eq_Suc)
  have "?k + length (dotted vs) \<le> 255" using assms(4) dotted_length [OF assms(3)] by simp
  then obtain r where "decode_left (Suc 19) d adj (length ?m) junk = Inr (?k + 2, dots ws @ map to_byte (dotted vs) @ 0 # r)"
    using decode_pointer [OF short(1) assms(10) d_def _ _ p assms(7) _ jump plain_no_NUL [OF assms(2)]] assms(8) d_def by auto
  then have dec: "decodeName d adj (length ?m) junk 1 = Inr (?k + 2, dots ws @ map to_byte (dotted vs) @ 0 # r)"
    by (simp add: decodeName_def)
  have chars: "map to_char (dots ws @ map to_byte (dotted vs) @ 0 # r) = dotted (ws @ vs) @ NUL # map to_char r"
    using dots_then [OF assms(3), of ws] by (simp add: map_to_char [unfolded map_map] flip: append_assoc)
  have "list_all plain_word (ws @ vs)" using assms(1,2) by simp
  from c_str_append [OF plain_no_NUL [OF this]] have "read_name d adj (length ?m) junk = Inr (?k + 2, dotted (ws @ vs))"
    unfolding read_name_def dec bind_out_simps prod.case chars by simp
  then show ?thesis using written by (simp add: d_def)
qed

theorem dns_name_compressed_witness:
  "\<exists>n b. encodeName ''www.#12'' (replicate 256 0) = Inr (n, b)
     \<and> read_name (replicate 12 0 @ wire [''abc'', ''de''] @ [0] @ take n b @ [0, 1]) 0 20 (replicate 256 0) = Inr (n, ''www.abc.de'')"
proof -
  have "list_all plain_word [''www'']" "list_all plain_word [''abc'', ''de'']" by (simp_all add: plain_word_def)
  moreover have "nat_str 12 = ''12''" by code_simp
  ultimately show ?thesis
    using dns_name_compressed [of "[''www'']" "[''abc'', ''de'']" 12 0 "replicate 12 0" "replicate 256 0" "replicate 256 0" "[]" "[0, 1]"]
    by (simp add: wire_def numeral_eq_Suc)
qed

end
