(* ===== verification/DnsResource.thy ===== *)
theory DnsResource
  imports DnsName
begin

text \<open>
  The integers and the data of a DNS resource, \<open>DnsResource.cpp\<close> and \<open>DnsResourceData.cpp\<close>, on the
  bytes they are read from and written to.
\<close>

section \<open>Kinds of resources\<close>

datatype dns_resource_type = DnsQueryType | DnsAnswerType | DnsAuthorityType | DnsAdditionalType

primrec type_number :: "dns_resource_type \<Rightarrow> nat" where
  "type_number DnsQueryType = 0"
| "type_number DnsAnswerType = 1"
| "type_number DnsAuthorityType = 2"
| "type_number DnsAdditionalType = 3"

instantiation dns_resource_type :: linorder
begin

definition less_eq_dns_resource_type :: "dns_resource_type \<Rightarrow> dns_resource_type \<Rightarrow> bool" where
  "s \<le> t \<longleftrightarrow> type_number s \<le> type_number t"

definition less_dns_resource_type :: "dns_resource_type \<Rightarrow> dns_resource_type \<Rightarrow> bool" where
  "s < t \<longleftrightarrow> type_number s < type_number t"

instance
proof
  fix x y z :: dns_resource_type
  show "x \<le> y \<Longrightarrow> y \<le> x \<Longrightarrow> x = y"
    by (cases x; cases y) (simp_all add: less_eq_dns_resource_type_def)
qed (auto simp: less_eq_dns_resource_type_def less_dns_resource_type_def)

end

lemma query_least [simp]: "DnsQueryType \<le> t" "\<not> t < DnsQueryType"
  by (simp_all add: less_eq_dns_resource_type_def less_dns_resource_type_def)

abbreviation (input) DNS_TYPE_A :: "16 word" where "DNS_TYPE_A \<equiv> 1"
abbreviation (input) DNS_TYPE_NS :: "16 word" where "DNS_TYPE_NS \<equiv> 2"
abbreviation (input) DNS_TYPE_CNAME :: "16 word" where "DNS_TYPE_CNAME \<equiv> 5"
abbreviation (input) DNS_TYPE_PTR :: "16 word" where "DNS_TYPE_PTR \<equiv> 12"
abbreviation (input) DNS_TYPE_MX :: "16 word" where "DNS_TYPE_MX \<equiv> 15"
abbreviation (input) DNS_TYPE_AAAA :: "16 word" where "DNS_TYPE_AAAA \<equiv> 28"
abbreviation (input) DNS_TYPE_DNAM :: "16 word" where "DNS_TYPE_DNAM \<equiv> 39"
abbreviation (input) DNS_CLASS_ANY :: "16 word" where "DNS_CLASS_ANY \<equiv> 255"

section \<open>Integers\<close>

text \<open>A field in network byte order, read through a pointer to it and turned, and its bytes.\<close>

definition get16 :: "byte list \<Rightarrow> nat \<Rightarrow> 16 word outcome" where
  "get16 d i = bind_out (bytes_at d i 2) (\<lambda>bs. Inr (ntohs (ucast (bs ! 0) OR push_bit 8 (ucast (bs ! 1)))))"

definition get32 :: "byte list \<Rightarrow> nat \<Rightarrow> 32 word outcome" where
  "get32 d i = bind_out (bytes_at d i 4) (\<lambda>bs. Inr (be32toh (le32 bs)))"

definition be16 :: "16 word \<Rightarrow> byte list" where
  "be16 w = bytes16 (htons w)"

definition be32 :: "32 word \<Rightarrow> byte list" where
  "be32 w = bytes32 (be32toh w)"

lemma length_be [simp]: "length (be16 v) = 2" "length (be32 w) = 4"
  by (simp_all add: be16_def be32_def)

lemma le16_bytes16: "(ucast (bytes16 w ! 0) OR push_bit 8 (ucast (bytes16 w ! 1)) :: 16 word) = w"
proof (rule bit_word_eqI)
  fix n
  assume "n < LENGTH(16)"
  then show "bit (ucast (bytes16 w ! 0) OR push_bit 8 (ucast (bytes16 w ! 1)) :: 16 word) n = bit w n"
    by (auto simp: bytes16_def bit_simps)
qed

lemma get16_at [simp]: "get16 (a @ be16 w @ b) (length a) = Inr w"
proof -
  have "bytes_at (a @ be16 w @ b) (length a) 2 = Inr (be16 w)" by (simp add: bytes_at_def)
  then show ?thesis by (simp add: get16_def be16_def le16_bytes16 [unfolded One_nat_def] htons_ntohs)
qed

lemma get32_at [simp]: "get32 (a @ be32 w @ b) (length a) = Inr w"
proof -
  have "bytes_at (a @ be32 w @ b) (length a) 4 = Inr (be32 w)" by (simp add: bytes_at_def)
  then show ?thesis by (simp add: get32_def be32_def)
qed

section \<open>Data\<close>

text \<open>The classes of data; the bytes of an address, and an empty list for no generic data.\<close>

datatype dns_data = IPv4Data "byte list" | IPv6Data "byte list" | StringData string | MxData "16 word" string | GenericData "byte list"

text \<open>
  \<open>toByteArr\<close>, into an array that holds \<open>arr\<close>: the array and the length written, or \<open>None\<close> for data
  that is refused. An address of zeros is not valid.
\<close>

fun toByteArr :: "byte list \<Rightarrow> dns_data \<Rightarrow> (byte list \<times> nat) option outcome" where
  "toByteArr arr (IPv4Data bs) =
     (if list_all (\<lambda>b. b = 0) bs then Inr None else bind_out (put_bytes 0 bs arr) (\<lambda>a. Inr (Some (a, 4))))"
| "toByteArr arr (IPv6Data bs) =
     (if list_all (\<lambda>b. b = 0) bs then Inr None else bind_out (put_bytes 0 bs arr) (\<lambda>a. Inr (Some (a, 16))))"
| "toByteArr arr (StringData s) = bind_out (encodeName s arr) (\<lambda>(n, a). Inr (Some (a, n)))"
| "toByteArr arr (MxData preference mailExchange) =
     bind_out (put_bytes 0 (be16 preference) arr) (\<lambda>a.
     bind_out (encodeName mailExchange (drop 2 a)) (\<lambda>(n, b). Inr (Some (take 2 a @ b, n + 2))))"
| "toByteArr arr (GenericData bs) =
     (if bs = [] then Inr None else bind_out (put_bytes 0 bs arr) (\<lambda>a. Inr (Some (a, length bs))))"

text \<open>The data that \<open>setData\<close> accepts for a type.\<close>

definition data_matches :: "16 word \<Rightarrow> dns_data \<Rightarrow> bool" where
  "data_matches dnsType x =
     (if dnsType = DNS_TYPE_A then (case x of IPv4Data _ \<Rightarrow> True | _ \<Rightarrow> False)
      else if dnsType = DNS_TYPE_AAAA then (case x of IPv6Data _ \<Rightarrow> True | _ \<Rightarrow> False)
      else if dnsType \<in> {DNS_TYPE_NS, DNS_TYPE_CNAME, DNS_TYPE_DNAM, DNS_TYPE_PTR} then (case x of StringData _ \<Rightarrow> True | _ \<Rightarrow> False)
      else if dnsType = DNS_TYPE_MX then (case x of MxData _ _ \<Rightarrow> True | _ \<Rightarrow> False)
      else True)"

text \<open>A name in the data, whose array is read as a string whatever \<open>decodeName\<close> returns.\<close>

definition data_name :: "byte list \<Rightarrow> nat \<Rightarrow> nat \<Rightarrow> byte list \<Rightarrow> string outcome" where
  "data_name d adj i junk = bind_out (decodeName d adj i junk 1) (\<lambda>(_, b). c_str (map to_char b))"

text \<open>\<open>getData\<close>, for data of \<open>n\<close> bytes at \<open>i\<close> in the message \<open>d\<close>.\<close>

definition get_data :: "byte list \<Rightarrow> nat \<Rightarrow> 16 word \<Rightarrow> nat \<Rightarrow> nat \<Rightarrow> byte list \<Rightarrow> dns_data outcome" where
  "get_data d adj dnsType i n junk =
     (if dnsType = DNS_TYPE_A then
        (if n \<noteq> 4 then Inr (IPv4Data (replicate 4 0)) else bind_out (bytes_at d i 4) (\<lambda>bs. Inr (IPv4Data bs)))
      else if dnsType = DNS_TYPE_AAAA then
        (if n \<noteq> 16 then Inr (IPv6Data (replicate 16 0)) else bind_out (bytes_at d i 16) (\<lambda>bs. Inr (IPv6Data bs)))
      else if dnsType \<in> {DNS_TYPE_NS, DNS_TYPE_CNAME, DNS_TYPE_DNAM, DNS_TYPE_PTR} then
        bind_out (data_name d adj i junk) (\<lambda>s. Inr (StringData s))
      else if dnsType = DNS_TYPE_MX then
        bind_out (get16 d i) (\<lambda>p. bind_out (data_name d adj (i + 2) junk) (\<lambda>s. Inr (MxData p s)))
      else bind_out (bytes_at d i n) (\<lambda>bs. Inr (GenericData bs)))"

text \<open>Data that can be written: addresses that are not zero, plain names, some generic data.\<close>

definition plain_name :: "string \<Rightarrow> bool" where
  "plain_name s \<longleftrightarrow> list_all plain_word (name_words s) \<and> dotted (name_words s) = s \<and> length s \<le> 250"

fun data_ok :: "dns_data \<Rightarrow> bool" where
  "data_ok (IPv4Data bs) \<longleftrightarrow> length bs = 4 \<and> \<not> list_all (\<lambda>b. b = 0) bs"
| "data_ok (IPv6Data bs) \<longleftrightarrow> length bs = 16 \<and> \<not> list_all (\<lambda>b. b = 0) bs"
| "data_ok (StringData s) \<longleftrightarrow> plain_name s"
| "data_ok (MxData p s) \<longleftrightarrow> plain_name s"
| "data_ok (GenericData bs) \<longleftrightarrow> bs \<noteq> [] \<and> length bs \<le> 256"

definition name_bytes :: "string \<Rightarrow> byte list" where
  "name_bytes s = wire (name_words s) @ [0]"

fun data_bytes :: "dns_data \<Rightarrow> byte list" where
  "data_bytes (IPv4Data bs) = bs"
| "data_bytes (IPv6Data bs) = bs"
| "data_bytes (StringData s) = name_bytes s"
| "data_bytes (MxData p s) = be16 p @ name_bytes s"
| "data_bytes (GenericData bs) = bs"

lemma plain_length:
  assumes "plain_name s"
  shows "length (name_bytes s) = (if s = [] then 1 else length s + 2)"
proof (cases "name_words s = []")
  case True
  then show ?thesis using assms by (auto simp: plain_name_def name_bytes_def)
next
  case False
  then have "s \<noteq> []" by (auto simp: name_words.simps)
  then show ?thesis using dotted_length [OF False] assms by (simp add: plain_name_def name_bytes_def)
qed

lemma name_written:
  assumes "plain_name s" "length (name_bytes s) \<le> length buf"
  shows "encodeName s buf = Inr (length (name_bytes s), name_bytes s @ drop (length (name_bytes s)) buf)"
  using encodeName_plain [of "name_words s" buf] assms by (simp add: plain_name_def name_bytes_def)

lemma name_read_back:
  assumes "plain_name s" "length junk = 256"
  shows "read_name (pre @ name_bytes s @ tail) adj (length pre) junk = Inr (length (name_bytes s), s)"
    "data_name (pre @ name_bytes s @ tail) adj (length pre) junk = Inr s"
proof -
  have ws: "list_all plain_word (name_words s)" "dotted (name_words s) = s" using assms(1) by (simp_all add: plain_name_def)
  have l: "length (wire (name_words s)) \<le> 255" using plain_length [OF assms(1)] assms(1) by (simp add: name_bytes_def plain_name_def split: if_splits)
  show r: "read_name (pre @ name_bytes s @ tail) adj (length pre) junk = Inr (length (name_bytes s), s)"
    using read_name_plain [OF ws(1) assms(2) l, of pre tail adj] ws(2) by (simp add: name_bytes_def)
  then show "data_name (pre @ name_bytes s @ tail) adj (length pre) junk = Inr s"
    by (auto simp: read_name_def data_name_def name_bytes_def split: if_splits)
qed

lemma data_written:
  assumes "data_ok x" "length arr = 256"
  shows "\<exists>r. toByteArr arr x = Inr (Some (data_bytes x @ r, length (data_bytes x))) \<and> length (data_bytes x) \<le> 256"
proof (cases x)
  case (MxData p s)
  have n: "length (name_bytes s) \<le> 252" using plain_length [of s] assms(1) MxData by (auto simp: plain_name_def split: if_splits)
  have 1: "put_bytes 0 (be16 p) arr = Inr (be16 p @ drop 2 arr)" using assms(2) by (simp add: put_bytes_def numeral_2_eq_2)
  have "encodeName s (drop 2 arr) = Inr (length (name_bytes s), name_bytes s @ drop (length (name_bytes s)) (drop 2 arr))"
    by (rule name_written) (use assms MxData n in simp_all)
  then show ?thesis using 1 n MxData by simp
next
  case (StringData s)
  have n: "length (name_bytes s) \<le> 252" using plain_length [of s] assms(1) StringData by (auto simp: plain_name_def split: if_splits)
  have "encodeName s arr = Inr (length (name_bytes s), name_bytes s @ drop (length (name_bytes s)) arr)"
    by (rule name_written) (use assms StringData n in simp_all)
  then show ?thesis using n StringData by simp
qed (use assms in \<open>auto simp: put_bytes_def\<close>)

text \<open>What was written for a type is read back as it was given.\<close>

lemma data_read_back:
  assumes "data_ok x" "data_matches t x" "length junk = 256"
    and "\<not> (t \<in> {DNS_TYPE_A, DNS_TYPE_AAAA, DNS_TYPE_NS, DNS_TYPE_CNAME, DNS_TYPE_DNAM, DNS_TYPE_PTR, DNS_TYPE_MX}) \<longrightarrow> (\<exists>bs. x = GenericData bs)"
  shows "get_data (pre @ data_bytes x @ tail) adj t (length pre) (length (data_bytes x)) junk = Inr x"
proof -
  have mx: "data_name (pre @ be16 p @ name_bytes s @ tail) adj (length pre + 2) junk = Inr s" if "plain_name s" for p s
    using name_read_back(2) [OF that assms(3), of "pre @ be16 p" tail adj] by simp
  show ?thesis
    using assms mx name_read_back(2) by (cases x) (auto simp: get_data_def data_matches_def bytes_at_here split: if_splits)
qed

end
