(* ===== verification/DnsLayer.thy ===== *)
theory DnsLayer
  imports DnsResource
begin

text \<open>
  A DNS message, \<open>DnsLayer.cpp\<close> and the operations of \<open>DnsResource.cpp\<close> on a resource of a message:
  its bytes, the chain of its resources, the first of each kind, and the length before the header
  that DNS over TCP has. A resource object has a number, which stands for the pointer to it. \<open>junk a i\<close>
  is what is at \<open>i\<close> in the array \<open>a\<close> of a function before it is written; array 0 is the one that
  \<open>new\<close> gives to the layer.
\<close>

section \<open>State\<close>

record dns_resource =
  dr_type :: dns_resource_type
  dr_offset :: nat
  dr_name :: string
  dr_nameLen :: nat

record dns_layer = "byte layer" +
  dl_resources :: "(nat \<times> dns_resource) list"
  dl_first :: "dns_resource_type \<Rightarrow> nat option"
  dl_adjust :: nat
  dl_fresh :: nat

definition getBasicHeaderSize :: "dns_layer \<Rightarrow> nat" where
  "getBasicHeaderSize l = 12 + dl_adjust l"

text \<open>The counts stand in the header in the order of the kinds.\<close>

definition count_place :: "nat \<Rightarrow> dns_resource_type \<Rightarrow> nat" where
  "count_place adj t = adj + 4 + 2 * type_number t"

definition getCount :: "dns_resource_type \<Rightarrow> dns_layer \<Rightarrow> 16 word outcome" where
  "getCount t l = bind_out (lay_data l) (\<lambda>d. get16 d (count_place (dl_adjust l) t))"

definition setCount :: "dns_resource_type \<Rightarrow> 16 word \<Rightarrow> dns_layer \<Rightarrow> dns_layer outcome" where
  "setCount t n l = write_at (count_place (dl_adjust l) t) (be16 n) l"

definition first_resource :: "(nat \<times> dns_resource) list \<Rightarrow> dns_resource_type \<Rightarrow> nat option" where
  "first_resource rs t = map_option fst (List.find (\<lambda>(_, r). dr_type r = t) rs)"

text \<open>
  \<open>isDnsPort\<close> and \<open>isDataValid\<close>, which are asked before a layer is made. The length before the header is 2
  over TCP and 0 otherwise.
\<close>

definition isDnsPort :: "16 word \<Rightarrow> bool" where
  "isDnsPort port \<longleftrightarrow> port \<in> {53, 5353, 5355}"

definition dns_isDataValid :: "nat \<Rightarrow> bool \<Rightarrow> bool" where
  "dns_isDataValid dataLen dnsOverTcp \<longleftrightarrow> dataLen \<ge> 12 + (if dnsOverTcp then 2 else 0)"

text \<open>\<open>getSize\<close> of a resource, which for a record reads the length of its data.\<close>

definition res_getSize :: "byte list \<Rightarrow> dns_resource \<Rightarrow> nat outcome" where
  "res_getSize d r =
     (if dr_type r = DnsQueryType then Inr (dr_nameLen r + 4)
      else bind_out (get16 d (dr_offset r + dr_nameLen r + 8)) (\<lambda>n. Inr (dr_nameLen r + 10 + unat n)))"

section \<open>Parsing\<close>

fun parse_resources :: "byte list \<Rightarrow> nat \<Rightarrow> byte list \<Rightarrow> dns_resource_type list \<Rightarrow> nat \<Rightarrow> dns_resource list outcome" where
  "parse_resources d adj junk [] off = Inr []"
| "parse_resources d adj junk (t # ts) off =
     bind_out (read_name d adj off junk) (\<lambda>(n, s).
       let r = \<lparr>dr_type = t, dr_offset = off, dr_name = s, dr_nameLen = n\<rparr>
       in bind_out (res_getSize d r) (\<lambda>k.
            if off + k > length d then Inr []
            else bind_out (parse_resources d adj junk ts (off + k)) (\<lambda>rs. Inr (r # rs))))"

definition DnsLayer_empty :: "byte list \<Rightarrow> nat \<Rightarrow> dns_layer" where
  "DnsLayer_empty d adj =
     \<lparr>m_Data = Some d, m_DataLen = length d, dl_resources = [], dl_first = (\<lambda>_. None), dl_adjust = adj, dl_fresh = 0\<rparr>"

definition DnsLayer_new :: "nat \<Rightarrow> dns_layer" where
  "DnsLayer_new adj = DnsLayer_empty (replicate (12 + adj) 0) adj"

definition DnsLayer_parse :: "byte list \<Rightarrow> nat \<Rightarrow> byte list \<Rightarrow> dns_layer outcome" where
  "DnsLayer_parse d adj junk =
     bind_out (get16 d (count_place adj DnsQueryType)) (\<lambda>questions.
     bind_out (get16 d (count_place adj DnsAnswerType)) (\<lambda>answers.
     bind_out (get16 d (count_place adj DnsAuthorityType)) (\<lambda>authority.
     bind_out (get16 d (count_place adj DnsAdditionalType)) (\<lambda>additional.
       if unat questions + unat answers + unat authority + unat additional > 300 then Inr (DnsLayer_empty d adj)
       else bind_out (parse_resources d adj junk
              (replicate (unat questions) DnsQueryType @ replicate (unat answers) DnsAnswerType
               @ replicate (unat authority) DnsAuthorityType @ replicate (unat additional) DnsAdditionalType) (12 + adj)) (\<lambda>rs.
            Inr ((DnsLayer_empty d adj)\<lparr>dl_resources := enumerate 0 rs, dl_first := first_resource (enumerate 0 rs),
              dl_fresh := length rs\<rparr>))))))"

definition DnsLayer_copy :: "byte list \<Rightarrow> dns_layer \<Rightarrow> dns_layer outcome" where
  "DnsLayer_copy junk other =
     bind_out (layer_copy (m_DataLen other) (layer.truncate other)) (\<lambda>l.
     bind_out (lay_data l) (\<lambda>d. DnsLayer_parse d (dl_adjust other) junk))"

section \<open>Finding resources\<close>

definition find_resource :: "nat \<Rightarrow> dns_layer \<Rightarrow> dns_resource outcome" where
  "find_resource i l = (case map_of (dl_resources l) i of None \<Rightarrow> Inl Dangling | Some r \<Rightarrow> Inr r)"

definition name_matches :: "string \<Rightarrow> bool \<Rightarrow> dns_resource \<Rightarrow> bool" where
  "name_matches name exactMatch r = (if exactMatch then dr_name r = name else str_find name (dr_name r) \<noteq> None)"

text \<open>
  \<open>getQuery\<close>, \<open>getAnswer\<close>, \<open>getAuthority\<close> and \<open>getAdditionalRecord\<close>: as many resources as the header
  counts, from the first of the kind on; the result is cast to the class of queries or records.
\<close>

definition getByName :: "dns_resource_type \<Rightarrow> string \<Rightarrow> bool \<Rightarrow> dns_layer \<Rightarrow> nat option outcome" where
  "getByName t name exactMatch l =
     bind_out (getCount t l) (\<lambda>n.
       Inr (case dl_first l t of
              None \<Rightarrow> None
            | Some i \<Rightarrow>
                (case List.find (\<lambda>(_, r). name_matches name exactMatch r) (take (unat n) (dropWhile (\<lambda>e. fst e \<noteq> i) (dl_resources l))) of
                   None \<Rightarrow> None
                 | Some (j, r) \<Rightarrow> if (t = DnsQueryType) = (dr_type r = DnsQueryType) then Some j else None)))"

text \<open>\<open>getNextQuery\<close>, \<open>getNextAnswer\<close>, \<open>getNextAuthority\<close> and \<open>getNextAdditionalRecord\<close>; the first are \<open>dl_first\<close>.\<close>

definition getNextResource :: "dns_resource_type \<Rightarrow> nat option \<Rightarrow> dns_layer \<Rightarrow> nat option outcome" where
  "getNextResource t resource l =
     (case resource of
        None \<Rightarrow> Inr None
      | Some i \<Rightarrow>
          bind_out (find_resource i l) (\<lambda>r.
            Inr (case tl (dropWhile (\<lambda>e. fst e \<noteq> i) (dl_resources l)) of
                   [] \<Rightarrow> None
                 | (j, r') # _ \<Rightarrow> if dr_type r \<noteq> t \<or> dr_type r' \<noteq> t then None else Some j)))"

definition dns_toString :: "dns_layer \<Rightarrow> string outcome" where
  "dns_toString l =
     bind_out (lay_data l) (\<lambda>d. bind_out (get16 d (dl_adjust l)) (\<lambda>tid.
     bind_out (getCount DnsQueryType l) (\<lambda>q. bind_out (getCount DnsAnswerType l) (\<lambda>a.
     bind_out (getCount DnsAuthorityType l) (\<lambda>u. bind_out (getCount DnsAdditionalType l) (\<lambda>x.
       Inr ((if unat a > 0 then ''DNS query response, ID: '' else if unat q > 0 then ''DNS query, ID: ''
             else ''DNS record without queries and answers, ID: '')
            @ nat_str (unat tid) @ '';'' @ '' queries: '' @ nat_str (unat q) @ '', answers: '' @ nat_str (unat a)
            @ '', authorities: '' @ nat_str (unat u) @ '', additional record: '' @ nat_str (unat x))))))))"

definition res_behind :: "nat \<Rightarrow> (nat \<times> dns_resource) list \<Rightarrow> (nat \<times> dns_resource) list" where
  "res_behind i rs = tl (dropWhile (\<lambda>e. fst e \<noteq> i) rs)"

definition res_before :: "nat \<Rightarrow> (nat \<times> dns_resource) list \<Rightarrow> (nat \<times> dns_resource) list" where
  "res_before i rs = takeWhile (\<lambda>e. fst e \<noteq> i) rs"

definition res_shift :: "int \<Rightarrow> (nat \<times> dns_resource) list \<Rightarrow> (nat \<times> dns_resource) list" where
  "res_shift k rs = map (\<lambda>(i, r). (i, r\<lparr>dr_offset := nat (int (dr_offset r) + k)\<rparr>)) rs"

section \<open>Resources outside of a message\<close>

text \<open>
  A resource that is built first has an array of 256 bytes of its own: its class and type are put in
  front, and moved behind the name when that is set. The result is the array and the length of the name.
\<close>

definition raw_named :: "(nat \<Rightarrow> nat \<Rightarrow> byte) \<Rightarrow> dns_resource_type \<Rightarrow> byte list \<Rightarrow> string \<Rightarrow> 16 word \<Rightarrow> 16 word \<Rightarrow> (byte list \<times> nat) outcome" where
  "raw_named junk t raw0 name dnsType dnsClass =
     bind_out (put_bytes 2 (be16 dnsClass) raw0) (\<lambda>raw1.
     bind_out (put_bytes 0 (be16 dnsType) raw1) (\<lambda>raw2.
     bind_out (encodeName name (junk_bytes (junk 1) 256)) (\<lambda>(n, encodedName).
     bind_out (res_getSize raw2 \<lparr>dr_type = t, dr_offset = 0, dr_name = [], dr_nameLen = 0\<rparr>) (\<lambda>size.
     bind_out (bytes_at raw2 0 size) (\<lambda>tempData.
     bind_out (put_bytes n tempData raw2) (\<lambda>raw3.
     bind_out (bytes_at encodedName 0 n) (\<lambda>e.
     bind_out (put_bytes 0 e raw3) (\<lambda>raw4. Inr (raw4, n)))))))))"

text \<open>Its time to live and its data; \<open>None\<close> when the data are refused.\<close>

definition raw_record ::
    "(nat \<Rightarrow> nat \<Rightarrow> byte) \<Rightarrow> dns_resource_type \<Rightarrow> string \<Rightarrow> 16 word \<Rightarrow> 16 word \<Rightarrow> 32 word \<Rightarrow> dns_data option
       \<Rightarrow> (byte list \<times> nat) option outcome" where
  "raw_record junk t name dnsType dnsClass ttl data =
     bind_out (raw_named junk t (replicate 256 0) name dnsType dnsClass) (\<lambda>(raw, n).
     bind_out (put_bytes (n + 4) (be32 ttl) raw) (\<lambda>raw1.
       case data of
         None \<Rightarrow> Inr None
       | Some x \<Rightarrow>
           bind_out (get16 raw1 n) (\<lambda>ty.
             if \<not> data_matches ty x then Inr None
             else bind_out (toByteArr (junk_bytes (junk 2) 256) x) (\<lambda>bs.
               case bs of
                 None \<Rightarrow> Inr None
               | Some (a, k) \<Rightarrow>
                   bind_out (bytes_at a 0 k) (\<lambda>b.
                   bind_out (put_bytes (n + 10) b raw1) (\<lambda>raw2.
                   bind_out (put_bytes (n + 8) (be16 (of_nat k)) raw2) (\<lambda>raw3. Inr (Some (raw3, n)))))))))"

section \<open>Adding and removing\<close>

text \<open>
  The place of a resource that is put between \<open>before\<close> and \<open>behind\<close>: the layer is extended at \<open>off\<close>,
  the ones behind move, and the array is copied into the message.
\<close>

definition link_resource ::
    "(nat \<Rightarrow> nat \<Rightarrow> byte) \<Rightarrow> dns_resource_type \<Rightarrow> string \<Rightarrow> byte list \<Rightarrow> nat \<Rightarrow> nat \<Rightarrow> (nat \<times> dns_resource) list \<Rightarrow> (nat \<times> dns_resource) list
       \<Rightarrow> bool \<Rightarrow> dns_layer \<Rightarrow> (dns_layer \<times> nat option) outcome" where
  "link_resource junk t name raw n off before behind isFirst l =
     bind_out (res_getSize raw \<lparr>dr_type = t, dr_offset = 0, dr_name = name, dr_nameLen = n\<rparr>) (\<lambda>size.
     bind_out (extendLayer (junk 0) (int off) size l) (\<lambda>(l1, ok).
       if \<not> ok then Inr (l, None)
       else bind_out (bytes_at raw 0 size) (\<lambda>bs.
            bind_out (write_at off bs l1) (\<lambda>l2.
              let i = dl_fresh l
              in Inr (l2\<lparr>dl_resources := before @ (i, \<lparr>dr_type = t, dr_offset = off, dr_name = name, dr_nameLen = n\<rparr>) # res_shift (int size) behind,
                         dl_first := (if isFirst then (dl_first l)(t := Some i) else dl_first l), dl_fresh := i + 1\<rparr>, Some i)))))"

definition sizes :: "byte list \<Rightarrow> (nat \<times> dns_resource) list \<Rightarrow> nat outcome" where
  "sizes d rs = foldr (\<lambda>(_, r) s. bind_out (res_getSize d r) (\<lambda>k. bind_out s (\<lambda>m. Inr (k + m)))) rs (Inr 0)"

text \<open>The resources up to the last of a kind that is not behind the given one, from the begin of the chain.\<close>

definition addResource ::
    "(nat \<Rightarrow> nat \<Rightarrow> byte) \<Rightarrow> dns_resource_type \<Rightarrow> string \<Rightarrow> 16 word \<Rightarrow> 16 word \<Rightarrow> 32 word \<Rightarrow> dns_data option \<Rightarrow> dns_layer
       \<Rightarrow> (dns_layer \<times> nat option) outcome" where
  "addResource junk t name dnsType dnsClass ttl data l =
     bind_out (raw_record junk t name dnsType dnsClass ttl data) (\<lambda>new.
       case new of
         None \<Rightarrow> Inr (l, None)
       | Some (raw, n) \<Rightarrow>
           let before = takeWhile (\<lambda>(_, r). dr_type r \<le> t) (dl_resources l);
               behind = dropWhile (\<lambda>(_, r). dr_type r \<le> t) (dl_resources l)
           in bind_out (lay_data l) (\<lambda>d. bind_out (sizes d before) (\<lambda>s.
                link_resource junk t name raw n (getBasicHeaderSize l + s) before behind
                  (before = [] \<or> dr_type (snd (last before)) < t) l)))"

text \<open>A query goes behind the queries, from the first of them on.\<close>

definition addQuery ::
    "(nat \<Rightarrow> nat \<Rightarrow> byte) \<Rightarrow> string \<Rightarrow> 16 word \<Rightarrow> 16 word \<Rightarrow> dns_layer \<Rightarrow> (dns_layer \<times> nat option) outcome" where
  "addQuery junk name dnsType dnsClass l =
     bind_out (raw_named junk DnsQueryType (junk_bytes (junk 3) 256) name dnsType dnsClass) (\<lambda>(raw, n).
       let front = (case dl_first l DnsQueryType of None \<Rightarrow> [] | Some i \<Rightarrow> res_before i (dl_resources l));
           from = (case dl_first l DnsQueryType of None \<Rightarrow> dl_resources l | Some i \<Rightarrow> dropWhile (\<lambda>e. fst e \<noteq> i) (dl_resources l));
           queries = takeWhile (\<lambda>(_, r). dr_type r = DnsQueryType) from
       in bind_out (lay_data l) (\<lambda>d.
          bind_out (if dl_first l DnsQueryType = None then Inr 0 else sizes d queries) (\<lambda>s.
          bind_out (if dl_first l DnsQueryType = None
                    then link_resource junk DnsQueryType name raw n (getBasicHeaderSize l + s) [] (dl_resources l) True l
                    else link_resource junk DnsQueryType name raw n (getBasicHeaderSize l + s) (front @ queries)
                           (dropWhile (\<lambda>(_, r). dr_type r = DnsQueryType) from) False l) (\<lambda>(l1, new).
            case new of
              None \<Rightarrow> Inr (l1, None)
            | Some i \<Rightarrow> bind_out (getCount DnsQueryType l1) (\<lambda>c. bind_out (setCount DnsQueryType (c + 1) l1) (\<lambda>l2. Inr (l2, Some i)))))))"

text \<open>\<open>addAnswer\<close>, \<open>addAuthority\<close> and \<open>addAdditionalRecord\<close>.\<close>

definition addRecord ::
    "(nat \<Rightarrow> nat \<Rightarrow> byte) \<Rightarrow> dns_resource_type \<Rightarrow> string \<Rightarrow> 16 word \<Rightarrow> 16 word \<Rightarrow> 32 word \<Rightarrow> dns_data option \<Rightarrow> dns_layer
       \<Rightarrow> (dns_layer \<times> nat option) outcome" where
  "addRecord junk t name dnsType dnsClass ttl data l =
     bind_out (addResource junk t name dnsType dnsClass ttl data l) (\<lambda>(l1, res).
       case res of
         None \<Rightarrow> Inr (l1, None)
       | Some i \<Rightarrow> bind_out (getCount t l1) (\<lambda>c. bind_out (setCount t (c + 1) l1) (\<lambda>l2. Inr (l2, Some i))))"

definition removeResource :: "nat option \<Rightarrow> dns_layer \<Rightarrow> (dns_layer \<times> bool) outcome" where
  "removeResource resourceToRemove l =
     (case resourceToRemove of
        None \<Rightarrow> Inr (l, False)
      | Some i \<Rightarrow>
          if i \<notin> fst ` set (dl_resources l) then Inr (l, False)
          else bind_out (find_resource i l) (\<lambda>r. bind_out (lay_data l) (\<lambda>d. bind_out (res_getSize d r) (\<lambda>size.
               bind_out (shortenLayer (int (dr_offset r)) size l) (\<lambda>(l1, ok).
                 if \<not> ok then Inr (l, False)
                 else let behind = res_behind i (dl_resources l);
                          next = (case behind of [] \<Rightarrow> None | (j, r') # _ \<Rightarrow> if dr_type r' = dr_type r then Some j else None)
                      in Inr (l1\<lparr>dl_resources := res_before i (dl_resources l) @ res_shift (- int size) behind,
                                 dl_first := (if dl_first l (dr_type r) = Some i then (dl_first l)(dr_type r := next) else dl_first l)\<rparr>, True))))))"

text \<open>The removal of a resource of a kind, with its count, by pointer and by name.\<close>

definition removeCounted :: "dns_resource_type \<Rightarrow> nat option \<Rightarrow> dns_layer \<Rightarrow> (dns_layer \<times> bool) outcome" where
  "removeCounted t i l =
     bind_out (removeResource i l) (\<lambda>(l1, res).
       if res then bind_out (getCount t l1) (\<lambda>c. bind_out (setCount t (c - 1) l1) (\<lambda>l2. Inr (l2, True))) else Inr (l1, False))"

definition removeNamed :: "dns_resource_type \<Rightarrow> string \<Rightarrow> bool \<Rightarrow> dns_layer \<Rightarrow> (dns_layer \<times> bool) outcome" where
  "removeNamed t name exactMatch l =
     bind_out (getByName t name exactMatch l) (\<lambda>i. case i of None \<Rightarrow> Inr (l, False) | Some j \<Rightarrow> removeCounted t (Some j) l)"

section \<open>Changing a resource of a message\<close>

text \<open>The layer made longer or shorter by \<open>k\<close> bytes at \<open>off\<close>; the resources behind move.\<close>

definition dns_resize ::
    "(nat \<Rightarrow> byte) \<Rightarrow> nat \<Rightarrow> int \<Rightarrow> nat \<Rightarrow> dns_resource \<Rightarrow> dns_layer \<Rightarrow> (dns_layer \<times> bool) outcome" where
  "dns_resize junk off k i r' l =
     bind_out (if k > 0 then extendLayer junk (int off) (nat k) l
               else if k < 0 then shortenLayer (int off) (nat (- k)) l else Inr (l, True)) (\<lambda>(l1, ok).
       Inr (if ok then (l1\<lparr>dl_resources := res_before i (dl_resources l) @ (i, r') # res_shift k (res_behind i (dl_resources l))\<rparr>, True)
            else (l, False)))"

definition setName :: "(nat \<Rightarrow> nat \<Rightarrow> byte) \<Rightarrow> nat \<Rightarrow> string \<Rightarrow> dns_layer \<Rightarrow> (dns_layer \<times> bool) outcome" where
  "setName junk i newName l =
     bind_out (find_resource i l) (\<lambda>r.
     bind_out (encodeName newName (junk_bytes (junk 1) 256)) (\<lambda>(n, encodedName).
     bind_out (dns_resize (junk 0) (dr_offset r) (int n - int (dr_nameLen r)) i (r\<lparr>dr_name := newName, dr_nameLen := n\<rparr>) l) (\<lambda>(l1, ok).
       if \<not> ok then Inr (l, False)
       else bind_out (bytes_at encodedName 0 n) (\<lambda>e. bind_out (write_at (dr_offset r) e l1) (\<lambda>l2. Inr (l2, True))))))"

definition getDnsType :: "dns_resource \<Rightarrow> byte list \<Rightarrow> 16 word outcome" where
  "getDnsType r d = get16 d (dr_offset r + dr_nameLen r)"

definition getDnsClass :: "dns_resource \<Rightarrow> byte list \<Rightarrow> 16 word outcome" where
  "getDnsClass r d = get16 d (dr_offset r + dr_nameLen r + 2)"

definition getTTL :: "dns_resource \<Rightarrow> byte list \<Rightarrow> 32 word outcome" where
  "getTTL r d = get32 d (dr_offset r + dr_nameLen r + 4)"

definition getDataLength :: "dns_resource \<Rightarrow> byte list \<Rightarrow> nat outcome" where
  "getDataLength r d = bind_out (get16 d (dr_offset r + dr_nameLen r + 8)) (\<lambda>n. Inr (unat n))"

definition getDataOffset :: "dns_resource \<Rightarrow> nat" where
  "getDataOffset r = dr_offset r + dr_nameLen r + 10"

definition getData :: "dns_layer \<Rightarrow> dns_resource \<Rightarrow> byte list \<Rightarrow> dns_data outcome" where
  "getData l r junk =
     bind_out (lay_data l) (\<lambda>d. bind_out (getDataLength r d) (\<lambda>n. bind_out (getDnsType r d) (\<lambda>t.
       get_data d (dl_adjust l) t (getDataOffset r) n junk)))"

definition setDnsType :: "nat \<Rightarrow> 16 word \<Rightarrow> dns_layer \<Rightarrow> dns_layer outcome" where
  "setDnsType i w l = bind_out (find_resource i l) (\<lambda>r. write_at (dr_offset r + dr_nameLen r) (be16 w) l)"

definition setDnsClass :: "nat \<Rightarrow> 16 word \<Rightarrow> dns_layer \<Rightarrow> dns_layer outcome" where
  "setDnsClass i w l = bind_out (find_resource i l) (\<lambda>r. write_at (dr_offset r + dr_nameLen r + 2) (be16 w) l)"

definition setTTL :: "nat \<Rightarrow> 32 word \<Rightarrow> dns_layer \<Rightarrow> dns_layer outcome" where
  "setTTL i w l = bind_out (find_resource i l) (\<lambda>r. write_at (dr_offset r + dr_nameLen r + 4) (be32 w) l)"

text \<open>The class of a record that uses it for something else: it is turned when read, but not when written.\<close>

definition getCustomDnsClass :: "dns_resource \<Rightarrow> byte list \<Rightarrow> 16 word outcome" where
  "getCustomDnsClass r d = get16 d (dr_offset r + dr_nameLen r + 2)"

definition setCustomDnsClass :: "nat \<Rightarrow> 16 word \<Rightarrow> dns_layer \<Rightarrow> dns_layer outcome" where
  "setCustomDnsClass i w l = bind_out (find_resource i l) (\<lambda>r. write_at (dr_offset r + dr_nameLen r + 2) (bytes16 w) l)"

definition setData :: "(nat \<Rightarrow> nat \<Rightarrow> byte) \<Rightarrow> nat \<Rightarrow> dns_data option \<Rightarrow> dns_layer \<Rightarrow> (dns_layer \<times> bool) outcome" where
  "setData junk i data l =
     (case data of
        None \<Rightarrow> Inr (l, False)
      | Some x \<Rightarrow>
          bind_out (find_resource i l) (\<lambda>r. bind_out (lay_data l) (\<lambda>d. bind_out (getDnsType r d) (\<lambda>t.
            if \<not> data_matches t x then Inr (l, False)
            else bind_out (toByteArr (junk_bytes (junk 2) 256) x) (\<lambda>bs.
              case bs of
                None \<Rightarrow> Inr (l, False)
              | Some (a, n) \<Rightarrow>
                  bind_out (getDataLength r d) (\<lambda>curLength.
                  bind_out (dns_resize (junk 0) (getDataOffset r) (int n - int curLength) i r l) (\<lambda>(l1, ok).
                    if \<not> ok then Inr (l, False)
                    else bind_out (bytes_at a 0 n) (\<lambda>b.
                         bind_out (write_at (getDataOffset r) b l1) (\<lambda>l2.
                         bind_out (write_at (dr_offset r + dr_nameLen r + 8) (be16 (of_nat n)) l2) (\<lambda>l3. Inr (l3, True)))))))))))"

text \<open>\<open>addAdditionalRecord\<close> with data of its own in the place of the class, and of a copy of a record.\<close>

definition addCustomRecord ::
    "(nat \<Rightarrow> nat \<Rightarrow> byte) \<Rightarrow> string \<Rightarrow> 16 word \<Rightarrow> 16 word \<Rightarrow> 32 word \<Rightarrow> dns_data option \<Rightarrow> dns_layer \<Rightarrow> (dns_layer \<times> nat option) outcome" where
  "addCustomRecord junk name dnsType customData1 customData2 data l =
     bind_out (addRecord junk DnsAdditionalType name dnsType DNS_CLASS_ANY customData2 data l) (\<lambda>(l1, res).
       case res of
         None \<Rightarrow> Inr (l1, None)
       | Some i \<Rightarrow> bind_out (setCustomDnsClass i customData1 l1) (\<lambda>l2. Inr (l2, Some i)))"

definition addAdditionalCopy ::
    "(nat \<Rightarrow> nat \<Rightarrow> byte) \<Rightarrow> dns_layer \<Rightarrow> nat \<Rightarrow> dns_layer \<Rightarrow> (dns_layer \<times> nat option) outcome" where
  "addAdditionalCopy junk other j l =
     bind_out (find_resource j other) (\<lambda>r. bind_out (lay_data other) (\<lambda>d.
     bind_out (getDnsType r d) (\<lambda>t. bind_out (getCustomDnsClass r d) (\<lambda>c. bind_out (getTTL r d) (\<lambda>ttl.
     bind_out (getData other r (junk_bytes (junk 4) 256)) (\<lambda>x.
       addCustomRecord junk (dr_name r) t c ttl (Some x) l))))))"

definition addQueryCopy :: "(nat \<Rightarrow> nat \<Rightarrow> byte) \<Rightarrow> dns_layer \<Rightarrow> nat \<Rightarrow> dns_layer \<Rightarrow> (dns_layer \<times> nat option) outcome" where
  "addQueryCopy junk other j l =
     bind_out (find_resource j other) (\<lambda>r. bind_out (lay_data other) (\<lambda>d.
     bind_out (getDnsType r d) (\<lambda>t. bind_out (getDnsClass r d) (\<lambda>c. addQuery junk (dr_name r) t c l))))"

text \<open>\<open>addAnswer\<close> and \<open>addAuthority\<close> of a copy.\<close>

definition addRecordCopy ::
    "(nat \<Rightarrow> nat \<Rightarrow> byte) \<Rightarrow> dns_resource_type \<Rightarrow> dns_layer \<Rightarrow> nat \<Rightarrow> dns_layer \<Rightarrow> (dns_layer \<times> nat option) outcome" where
  "addRecordCopy junk t other j l =
     bind_out (find_resource j other) (\<lambda>r. bind_out (lay_data other) (\<lambda>d.
     bind_out (getDnsType r d) (\<lambda>ty. bind_out (getDnsClass r d) (\<lambda>c. bind_out (getTTL r d) (\<lambda>ttl.
     bind_out (getData other r (junk_bytes (junk 4) 256)) (\<lambda>x.
       addRecord junk t (dr_name r) ty c ttl (Some x) l))))))"

section \<open>DNS over TCP\<close>

definition getTcpMessageLength :: "dns_layer \<Rightarrow> 16 word outcome" where
  "getTcpMessageLength l = bind_out (lay_data l) (\<lambda>d. get16 d 0)"

definition setTcpMessageLength :: "16 word \<Rightarrow> dns_layer \<Rightarrow> dns_layer outcome" where
  "setTcpMessageLength w l = write_at 0 (be16 w) l"

definition dns_tcp_computeCalculateFields :: "dns_layer \<Rightarrow> dns_layer outcome" where
  "dns_tcp_computeCalculateFields l = setTcpMessageLength (of_nat (minus64 (m_DataLen l) 2)) l"

end
