(* ===== verification/DnsMessage.thy ===== *)
theory DnsMessage
  imports DnsLayer Machine
begin

text \<open>
  What a DNS message stands for: the begin of its header, the counts, and its resources one after
  another in the order of their kinds. Every operation keeps this, and does to the list of the
  resources what its name says.
\<close>

section \<open>Well-formed messages\<close>

record dns_rr =
  rr_type :: dns_resource_type
  rr_name :: string
  rr_nameBytes :: "byte list"
  rr_dnsType :: "16 word"
  rr_dnsClass :: "16 word"
  rr_ttl :: "32 word"
  rr_data :: "byte list"

definition rr_rest :: "dns_rr \<Rightarrow> byte list" where
  "rr_rest rr = (if rr_type rr = DnsQueryType then [] else be32 (rr_ttl rr) @ be16 (of_nat (length (rr_data rr))) @ rr_data rr)"

definition rr_bytes :: "dns_rr \<Rightarrow> byte list" where
  "rr_bytes rr = rr_nameBytes rr @ be16 (rr_dnsType rr) @ be16 (rr_dnsClass rr) @ rr_rest rr"

definition rr_ok :: "dns_rr \<Rightarrow> bool" where
  "rr_ok rr \<longleftrightarrow> length (rr_data rr) < 65536 \<and> (rr_type rr = DnsQueryType \<longrightarrow> rr_ttl rr = 0 \<and> rr_data rr = [])"

definition rr_place :: "nat \<Rightarrow> dns_rr \<Rightarrow> dns_resource" where
  "rr_place off rr = \<lparr>dr_type = rr_type rr, dr_offset = off, dr_name = rr_name rr, dr_nameLen = length (rr_nameBytes rr)\<rparr>"

fun rr_placed :: "nat \<Rightarrow> (nat \<times> dns_rr) list \<Rightarrow> (nat \<times> dns_resource) list" where
  "rr_placed off [] = []"
| "rr_placed off ((i, rr) # ps) = (i, rr_place off rr) # rr_placed (off + length (rr_bytes rr)) ps"

definition rr_all :: "(nat \<times> dns_rr) list \<Rightarrow> byte list" where
  "rr_all ps = concat (map (\<lambda>p. rr_bytes (snd p)) ps)"

definition header :: "byte list \<Rightarrow> (dns_resource_type \<Rightarrow> 16 word) \<Rightarrow> byte list" where
  "header pre c = pre @ be16 (c DnsQueryType) @ be16 (c DnsAnswerType) @ be16 (c DnsAuthorityType) @ be16 (c DnsAdditionalType)"

definition kind :: "nat \<times> dns_rr \<Rightarrow> dns_resource_type" where
  "kind p = rr_type (snd p)"

definition first_id :: "(nat \<times> dns_rr) list \<Rightarrow> dns_resource_type \<Rightarrow> nat option" where
  "first_id ps t = (case filter (\<lambda>p. kind p = t) ps of [] \<Rightarrow> None | p # _ \<Rightarrow> Some (fst p))"

definition dns_at :: "byte list \<Rightarrow> (dns_resource_type \<Rightarrow> 16 word) \<Rightarrow> (nat \<times> dns_rr) list \<Rightarrow> byte list \<Rightarrow> dns_layer \<Rightarrow> bool" where
  "dns_at pre c ps tail l \<longleftrightarrow> m_Data l = Some (header pre c @ rr_all ps @ tail) \<and> m_DataLen l = length (header pre c @ rr_all ps @ tail)
     \<and> length pre = 4 + dl_adjust l \<and> dl_resources l = rr_placed (length pre + 8) ps \<and> dl_first l = first_id ps
     \<and> distinct (map fst ps) \<and> (\<forall>p \<in> set ps. fst p < dl_fresh l \<and> rr_ok (snd p)) \<and> sorted (map kind ps)"

definition counts :: "(nat \<times> dns_rr) list \<Rightarrow> dns_resource_type \<Rightarrow> 16 word" where
  "counts ps t = of_nat (length (filter (\<lambda>p. kind p = t) ps))"

definition dns_is :: "byte list \<Rightarrow> (nat \<times> dns_rr) list \<Rightarrow> byte list \<Rightarrow> dns_layer \<Rightarrow> bool" where
  "dns_is pre ps tail l = dns_at pre (counts ps) ps tail l"

lemma rr_all_simps [simp]: "rr_all [] = []" "rr_all (p # ps) = rr_bytes (snd p) @ rr_all ps" "rr_all (ps @ qs) = rr_all ps @ rr_all qs"
  by (simp_all add: rr_all_def)

lemma length_header [simp]: "length (header pre c) = length pre + 8"
  by (simp add: header_def)

lemma map_fst_rr_placed [simp]: "map fst (rr_placed off ps) = map fst ps"
  by (induction off ps rule: rr_placed.induct) simp_all

lemma fst_rr_placed: "fst ` set (rr_placed off ps) = fst ` set ps"
  by (metis list.set_map map_fst_rr_placed)

lemma rr_placed_append [simp]: "rr_placed off (ps @ qs) = rr_placed off ps @ rr_placed (off + length (rr_all ps)) qs"
  by (induction off ps rule: rr_placed.induct) (simp_all add: add.assoc)

lemma rr_placed_Nil [simp]: "rr_placed off ps = [] \<longleftrightarrow> ps = []"
  by (cases ps) auto

lemma rr_place_simps [simp]:
  "dr_type (rr_place off rr) = rr_type rr" "dr_offset (rr_place off rr) = off" "dr_name (rr_place off rr) = rr_name rr"
  "dr_nameLen (rr_place off rr) = length (rr_nameBytes rr)"
  by (simp_all add: rr_place_def)

lemma rr_bytes_some: "rr_bytes rr \<noteq> []"
  by (simp add: rr_bytes_def be16_def bytes16_def)

lemma res_shift_placed:
  "res_shift (int k) (rr_placed off ps) = rr_placed (off + k) ps" "res_shift (- int k) (rr_placed (off + k) ps) = rr_placed off ps"
proof -
  have "rr_place off rr\<lparr>dr_offset := nat (int off + int k)\<rparr> = rr_place (off + k) rr" for off rr
    by (simp add: rr_place_def nat_add_distrib)
  moreover have "rr_place (off + k) rr\<lparr>dr_offset := nat (int (off + k) + - int k)\<rparr> = rr_place off rr" for off rr
    by (simp add: rr_place_def)
  ultimately show "res_shift (int k) (rr_placed off ps) = rr_placed (off + k) ps" "res_shift (- int k) (rr_placed (off + k) ps) = rr_placed off ps"
    by (induction off ps rule: rr_placed.induct) (auto simp: res_shift_def add.assoc add.commute add.left_commute)
qed

section \<open>Reading\<close>

text \<open>The fields of a resource in its place.\<close>

lemma size_read:
  assumes "rr_ok rr" "length pre = off"
  shows "res_getSize (pre @ rr_bytes rr @ tail) (rr_place off rr) = Inr (length (rr_bytes rr))"
proof (cases "rr_type rr = DnsQueryType")
  case True
  then show ?thesis by (simp add: res_getSize_def rr_bytes_def rr_rest_def)
next
  case False
  let ?a = "pre @ rr_nameBytes rr @ be16 (rr_dnsType rr) @ be16 (rr_dnsClass rr) @ be32 (rr_ttl rr)"
  have "get16 (?a @ be16 (of_nat (length (rr_data rr))) @ rr_data rr @ tail) (length ?a) = Inr (of_nat (length (rr_data rr)))"
    by (rule get16_at)
  moreover have "unat (of_nat (length (rr_data rr)) :: 16 word) = length (rr_data rr)"
    using assms(1) by (simp add: rr_ok_def unat_of_nat)
  ultimately show ?thesis using False assms(2) by (simp add: res_getSize_def rr_bytes_def rr_rest_def add.assoc)
qed

lemma sizes_read:
  assumes "\<forall>p \<in> set ps. rr_ok (snd p)" "length pre = off"
  shows "sizes (pre @ rr_all ps @ tail) (rr_placed off ps) = Inr (length (rr_all ps))"
  using assms
proof (induction off ps arbitrary: pre rule: rr_placed.induct)
  case (1 off)
  then show ?case by (simp add: sizes_def)
next
  case (2 off i rr ps)
  have "sizes ((pre @ rr_bytes rr) @ rr_all ps @ tail) (rr_placed (off + length (rr_bytes rr)) ps) = Inr (length (rr_all ps))"
    by (rule 2(1)) (use 2(2,3) in simp_all)
  moreover have "res_getSize (pre @ rr_bytes rr @ rr_all ps @ tail) (rr_place off rr) = Inr (length (rr_bytes rr))"
    by (rule size_read) (use 2(2,3) in simp_all)
  ultimately show ?case by (simp add: sizes_def)
qed

lemma fields_read:
  assumes "length pre = off"
  shows "getDnsType (rr_place off rr) (pre @ rr_bytes rr @ tail) = Inr (rr_dnsType rr)"
    "getDnsClass (rr_place off rr) (pre @ rr_bytes rr @ tail) = Inr (rr_dnsClass rr)"
    "rr_type rr \<noteq> DnsQueryType \<Longrightarrow> getTTL (rr_place off rr) (pre @ rr_bytes rr @ tail) = Inr (rr_ttl rr)"
    "rr_type rr \<noteq> DnsQueryType \<Longrightarrow> rr_ok rr \<Longrightarrow> getDataLength (rr_place off rr) (pre @ rr_bytes rr @ tail) = Inr (length (rr_data rr))"
proof -
  let ?n = "pre @ rr_nameBytes rr" and ?t = "be16 (rr_dnsType rr)" and ?c = "be16 (rr_dnsClass rr)" and ?l = "be32 (rr_ttl rr)"
  show "getDnsType (rr_place off rr) (pre @ rr_bytes rr @ tail) = Inr (rr_dnsType rr)"
    using get16_at [of ?n "rr_dnsType rr" "?c @ rr_rest rr @ tail"] assms by (simp add: getDnsType_def rr_bytes_def)
  show "getDnsClass (rr_place off rr) (pre @ rr_bytes rr @ tail) = Inr (rr_dnsClass rr)"
    using get16_at [of "?n @ ?t" "rr_dnsClass rr" "rr_rest rr @ tail"] assms by (simp add: getDnsClass_def rr_bytes_def add.assoc)
  assume q: "rr_type rr \<noteq> DnsQueryType"
  show "getTTL (rr_place off rr) (pre @ rr_bytes rr @ tail) = Inr (rr_ttl rr)"
    using get32_at [of "?n @ ?t @ ?c" "rr_ttl rr" "be16 (of_nat (length (rr_data rr))) @ rr_data rr @ tail"] assms q
    by (simp add: getTTL_def rr_bytes_def rr_rest_def add.assoc)
  assume ok: "rr_ok rr"
  then have "unat (of_nat (length (rr_data rr)) :: 16 word) = length (rr_data rr)" by (simp add: rr_ok_def unat_of_nat)
  then show "getDataLength (rr_place off rr) (pre @ rr_bytes rr @ tail) = Inr (length (rr_data rr))"
    using get16_at [of "?n @ ?t @ ?c @ ?l" "of_nat (length (rr_data rr))" "rr_data rr @ tail"] assms q
    by (simp add: getDataLength_def rr_bytes_def rr_rest_def add.assoc)
qed

text \<open>The counts in the header.\<close>

lemma count_read:
  assumes "length pre = 4 + adj"
  shows "get16 (header pre c @ r) (count_place adj t) = Inr (c t)"
proof -
  let ?q = "be16 (c DnsQueryType)" and ?a = "be16 (c DnsAnswerType)" and ?u = "be16 (c DnsAuthorityType)"
  show ?thesis
    using get16_at [of pre] get16_at [of "pre @ ?q"] get16_at [of "pre @ ?q @ ?a"] get16_at [of "pre @ ?q @ ?a @ ?u"] assms
    by (cases t) (simp_all add: header_def count_place_def add.commute add.assoc)
qed

lemma count_written:
  assumes "length pre = 4 + dl_adjust l" "m_Data l = Some (header pre c @ r)"
  shows "setCount t n l = Inr (l\<lparr>m_Data := Some (header pre (c(t := n)) @ r)\<rparr>)"
proof -
  let ?q = "be16 (c DnsQueryType)" and ?a = "be16 (c DnsAnswerType)" and ?u = "be16 (c DnsAuthorityType)" and ?d = "be16 (c DnsAdditionalType)"
  obtain a b where "header pre c = a @ be16 (c t) @ b" "length a = count_place (dl_adjust l) t" "header pre (c(t := n)) = a @ be16 n @ b"
  proof (cases t)
    case DnsQueryType
    then show ?thesis using that [of pre "?a @ ?u @ ?d"] assms(1) by (simp add: header_def count_place_def)
  next
    case DnsAnswerType
    then show ?thesis using that [of "pre @ ?q" "?u @ ?d"] assms(1) by (simp add: header_def count_place_def)
  next
    case DnsAuthorityType
    then show ?thesis using that [of "pre @ ?q @ ?a" "?d"] assms(1) by (simp add: header_def count_place_def)
  next
    case DnsAdditionalType
    then show ?thesis using that [of "pre @ ?q @ ?a @ ?u" "[]"] assms(1) by (simp add: header_def count_place_def)
  qed
  then show ?thesis using write_between [of l a "be16 (c t)" "b @ r" "be16 n"] assms(2) by (simp add: setCount_def)
qed

section \<open>A resource built outside\<close>

lemma cut_in_four: "xs = take a xs @ take b (drop a xs) @ take c (drop (a + b) xs) @ drop (a + b + c) xs"
proof -
  have "take c (drop (a + b) xs) @ drop (a + b + c) xs = drop (a + b) xs" by (metis add.commute append_take_drop_id drop_drop)
  moreover have "take b (drop a xs) @ drop (a + b) xs = drop a xs" by (metis add.commute append_take_drop_id drop_drop)
  ultimately show ?thesis by simp
qed

lemma raw_named_ok:
  assumes name: "plain_name name" and raw0: "length raw0 = 256" "t = DnsQueryType \<or> raw0 = replicate 256 0"
    and fits: "length (name_bytes name) + (if t = DnsQueryType then 4 else 10) \<le> 256"
  shows "\<exists>r. raw_named junk t raw0 name ty cl = Inr (name_bytes name @ be16 ty @ be16 cl @ r, length (name_bytes name))
    \<and> length (name_bytes name) + 4 + length r = 256"
proof -
  let ?n = "length (name_bytes name)" and ?k = "if t = DnsQueryType then 4 else 10 :: nat"
  define z where "z = drop 4 raw0"
  let ?raw2 = "be16 ty @ be16 cl @ z"
  have len: "length z = 252" using raw0(1) by (simp add: z_def)
  have "raw0 = take 2 raw0 @ take 2 (drop 2 raw0) @ z" unfolding z_def
    by (metis append_take_drop_id drop_drop numeral_Bit0 numeral_plus_one)
  then have 1: "put_bytes 2 (be16 cl) raw0 = Inr (take 2 raw0 @ be16 cl @ z)"
    using put_bytes_behind [of "be16 cl" "take 2 (drop 2 raw0)" "take 2 raw0" z] raw0(1) by simp
  have 2: "put_bytes 0 (be16 ty) (take 2 raw0 @ be16 cl @ z) = Inr ?raw2"
    using put_bytes_behind [of "be16 ty" "take 2 raw0" "[]" "be16 cl @ z"] raw0(1) by simp
  have 3: "encodeName name (junk_bytes (junk 1) 256) = Inr (?n, name_bytes name @ drop ?n (junk_bytes (junk 1) 256))"
    by (rule name_written [OF name]) (use fits in \<open>simp split: if_splits\<close>)
  have 4: "res_getSize ?raw2 \<lparr>dr_type = t, dr_offset = 0, dr_name = [], dr_nameLen = 0\<rparr> = Inr ?k"
  proof (cases "t = DnsQueryType")
    case False
    have "z = replicate 4 0 @ replicate 2 0 @ replicate 246 0" using False raw0(2) by (simp add: z_def flip: replicate_add)
    moreover have "be16 0 = replicate 2 0" by (simp add: be16_def bytes16_def htons_def numeral_2_eq_2)
    ultimately have z: "z = replicate 4 0 @ be16 0 @ replicate 246 0" by simp
    have "get16 ((be16 ty @ be16 cl @ replicate 4 0) @ be16 0 @ replicate 246 0) (length (be16 ty @ be16 cl @ replicate 4 0 :: byte list)) = Inr 0"
      by (rule get16_at)
    then show ?thesis using False by (simp add: res_getSize_def z)
  qed (simp add: res_getSize_def)
  have t: "take ?k ?raw2 = be16 ty @ be16 cl @ take (?k - 4) z" by simp
  have 5: "bytes_at ?raw2 0 ?k = Inr (take ?k ?raw2)" using len by (simp add: bytes_at_def)
  have 6: "put_bytes ?n (take ?k ?raw2) ?raw2 = Inr (take ?n ?raw2 @ take ?k ?raw2 @ drop (?n + ?k) ?raw2)"
    using fits len by (simp add: put_bytes_def)
  have 7: "bytes_at (name_bytes name @ drop ?n (junk_bytes (junk 1) 256)) 0 ?n = Inr (name_bytes name)"
    using bytes_at_here [of "name_bytes name" ?n "[]"] by simp
  have 8: "put_bytes 0 (name_bytes name) (take ?n ?raw2 @ take ?k ?raw2 @ drop (?n + ?k) ?raw2)
      = Inr (name_bytes name @ take ?k ?raw2 @ drop (?n + ?k) ?raw2)"
    using put_bytes_behind [of "name_bytes name" "take ?n ?raw2" "[]" "take ?k ?raw2 @ drop (?n + ?k) ?raw2"] fits len by (simp split: if_splits)
  have "raw_named junk t raw0 name ty cl = Inr (name_bytes name @ take ?k ?raw2 @ drop (?n + ?k) ?raw2, ?n)"
    unfolding raw_named_def 1 2 3 4 5 6 7 8 bind_out_simps prod.case ..
  moreover have "?n + 4 + length (take (?k - 4) z @ drop (?n + ?k) ?raw2) = 256" using fits len by (simp split: if_splits)
  ultimately show ?thesis unfolding t by (intro exI [of _ "take (?k - 4) z @ drop (?n + ?k) ?raw2"]) simp
qed

definition rr_query :: "string \<Rightarrow> 16 word \<Rightarrow> 16 word \<Rightarrow> dns_rr" where
  "rr_query name ty cl = \<lparr>rr_type = DnsQueryType, rr_name = name, rr_nameBytes = name_bytes name, rr_dnsType = ty, rr_dnsClass = cl,
     rr_ttl = 0, rr_data = []\<rparr>"

definition rr_record :: "dns_resource_type \<Rightarrow> string \<Rightarrow> 16 word \<Rightarrow> 16 word \<Rightarrow> 32 word \<Rightarrow> dns_data \<Rightarrow> dns_rr" where
  "rr_record t name ty cl ttl x = \<lparr>rr_type = t, rr_name = name, rr_nameBytes = name_bytes name, rr_dnsType = ty, rr_dnsClass = cl,
     rr_ttl = ttl, rr_data = data_bytes x\<rparr>"

lemma raw_record_ok:
  assumes name: "plain_name name" and t: "t \<noteq> DnsQueryType" and x: "data_ok x"
    and fits: "length (name_bytes name) + 10 + length (data_bytes x) \<le> 256"
  shows "raw_record junk t name ty cl ttl (Some x) = Inr None \<and> \<not> data_matches ty x
    \<or> (\<exists>r. raw_record junk t name ty cl ttl (Some x) = Inr (Some (rr_bytes (rr_record t name ty cl ttl x) @ r, length (name_bytes name)))
        \<and> data_matches ty x)"
proof -
  let ?nb = "name_bytes name" and ?b = "data_bytes x"
  let ?n = "length ?nb"
  obtain r where named: "raw_named junk t (replicate 256 0) name ty cl = Inr (?nb @ be16 ty @ be16 cl @ r, ?n)" "?n + 4 + length r = 256"
    using raw_named_ok [OF name, of "replicate 256 0" t junk ty cl] t fits by auto
  define r1 r2 r3 r4 where "r1 = take 4 r" and "r2 = take 2 (drop 4 r)" and "r3 = take (length ?b) (drop 6 r)" and "r4 = drop (6 + length ?b) r"
  have r: "r = r1 @ r2 @ r3 @ r4" "length r1 = 4" "length r2 = 2" "length r3 = length ?b"
    using named(2) fits cut_in_four [of r 4 2 "length ?b"] by (simp_all add: r1_def r2_def r3_def r4_def)
  have 1: "put_bytes (?n + 4) (be32 ttl) (?nb @ be16 ty @ be16 cl @ r) = Inr (?nb @ be16 ty @ be16 cl @ be32 ttl @ r2 @ r3 @ r4)"
    using put_bytes_behind [of "be32 ttl" r1 "?nb @ be16 ty @ be16 cl" "r2 @ r3 @ r4"] r by simp
  have 2: "get16 (?nb @ be16 ty @ be16 cl @ be32 ttl @ r2 @ r3 @ r4) ?n = Inr ty" by (rule get16_at)
  show ?thesis
  proof (cases "data_matches ty x")
    case False
    then show ?thesis unfolding raw_record_def named(1) bind_out_simps prod.case option.case 1 2 by simp
  next
    case True
    obtain q where 3: "toByteArr (junk_bytes (junk 2) 256) x = Inr (Some (?b @ q, length ?b))" using data_written [OF x, of "junk_bytes (junk 2) 256"] by auto
    have 4: "bytes_at (?b @ q) 0 (length ?b) = Inr ?b" using bytes_at_here [of ?b "length ?b" "[]" q] by simp
    have 5: "put_bytes (?n + 10) ?b (?nb @ be16 ty @ be16 cl @ be32 ttl @ r2 @ r3 @ r4) = Inr (?nb @ be16 ty @ be16 cl @ be32 ttl @ r2 @ ?b @ r4)"
      using put_bytes_behind [of ?b r3 "?nb @ be16 ty @ be16 cl @ be32 ttl @ r2" r4] r by simp
    have 6: "put_bytes (?n + 8) (be16 (of_nat (length ?b))) (?nb @ be16 ty @ be16 cl @ be32 ttl @ r2 @ ?b @ r4)
        = Inr (?nb @ be16 ty @ be16 cl @ be32 ttl @ be16 (of_nat (length ?b)) @ ?b @ r4)"
      using put_bytes_behind [of "be16 (of_nat (length ?b))" r2 "?nb @ be16 ty @ be16 cl @ be32 ttl" "?b @ r4"] r by simp
    have "raw_record junk t name ty cl ttl (Some x)
        = Inr (Some (?nb @ be16 ty @ be16 cl @ be32 ttl @ be16 (of_nat (length ?b)) @ ?b @ r4, ?n))"
      unfolding raw_record_def named(1) bind_out_simps prod.case option.case 1 2 3 4 5 6 using True by simp
    then show ?thesis using True t by (auto simp: rr_bytes_def rr_rest_def rr_record_def)
  qed
qed

section \<open>Adding\<close>

lemma first_id_insert:
  "first_id (ps @ (i, rr) # qs) =
     (if filter (\<lambda>p. kind p = rr_type rr) ps = [] then (first_id (ps @ qs))(rr_type rr := Some i) else first_id (ps @ qs))"
proof
  fix t
  show "first_id (ps @ (i, rr) # qs) t =
     (if filter (\<lambda>p. kind p = rr_type rr) ps = [] then (first_id (ps @ qs))(rr_type rr := Some i) else first_id (ps @ qs)) t"
  proof (cases "filter (\<lambda>p. kind p = t) ps")
    case Nil
    then show ?thesis by (auto simp: first_id_def kind_def)
  next
    case (Cons p qs')
    then show ?thesis by (auto simp: first_id_def kind_def)
  qed
qed

lemma new_number: "dns_at pre c ps tail l \<Longrightarrow> dl_fresh l \<notin> fst ` set ps"
  by (force simp: dns_at_def)

lemma linked:
  assumes l: "dns_at pre c (ps @ qs) tail l" and ok: "rr_ok rr" and s: "sorted (map kind (ps @ (dl_fresh l, rr) # qs))"
    and first: "isFirst \<longleftrightarrow> filter (\<lambda>p. kind p = rr_type rr) ps = []"
  shows "\<exists>l'. link_resource junk (rr_type rr) (rr_name rr) (rr_bytes rr @ rest) (length (rr_nameBytes rr)) (length pre + 8 + length (rr_all ps))
      (rr_placed (length pre + 8) ps) (rr_placed (length pre + 8 + length (rr_all ps)) qs) isFirst l = Inr (l', Some (dl_fresh l))
    \<and> dns_at pre c (ps @ (dl_fresh l, rr) # qs) tail l' \<and> dl_adjust l' = dl_adjust l \<and> dl_fresh l' = dl_fresh l + 1"
proof -
  let ?a = "header pre c @ rr_all ps" and ?b = "rr_all qs @ tail" and ?x = "rr_bytes rr" and ?i = "dl_fresh l"
  let ?off = "length pre + 8 + length (rr_all ps)"
  have off: "length ?a = ?off" by simp
  have data: "m_Data l = Some (?a @ ?b)" "m_DataLen l = length (?a @ ?b)" using l by (simp_all add: dns_at_def)
  let ?l1 = "l\<lparr>m_Data := Some (?a @ junk_bytes (junk 0) (length ?x) @ ?b), m_DataLen := length (?a @ ?b) + length ?x\<rparr>"
  let ?l2 = "?l1\<lparr>m_Data := Some (?a @ ?x @ ?b)\<rparr>"
  let ?l' = "?l2\<lparr>dl_resources := rr_placed (length pre + 8) ps @ (?i, rr_place ?off rr) # rr_placed (?off + length ?x) qs,
     dl_first := (if isFirst then (dl_first l)(rr_type rr := Some ?i) else dl_first l), dl_fresh := ?i + 1\<rparr>"
  have size: "res_getSize (?x @ rest) \<lparr>dr_type = rr_type rr, dr_offset = 0, dr_name = rr_name rr, dr_nameLen = length (rr_nameBytes rr)\<rparr> = Inr (length ?x)"
    using size_read [OF ok, of "[]" 0 rest] by (simp add: rr_place_def)
  have extended: "extendLayer (junk 0) (int ?off) (length ?x) l = Inr (?l1, True)" using extend_at [OF data, of "junk 0" "length ?x"] unfolding off .
  have bs: "bytes_at (?x @ rest) 0 (length ?x) = Inr ?x" using bytes_at_here [of ?x "length ?x" "[]" rest] by simp
  have "m_Data ?l1 = Some (?a @ junk_bytes (junk 0) (length ?x) @ ?b)" "length ?x = length (junk_bytes (junk 0) (length ?x))" by simp_all
  from write_between [OF this] have stored: "write_at ?off ?x ?l1 = Inr ?l2" unfolding off by simp
  have "link_resource junk (rr_type rr) (rr_name rr) (?x @ rest) (length (rr_nameBytes rr)) ?off
      (rr_placed (length pre + 8) ps) (rr_placed ?off qs) isFirst l = Inr (?l', Some ?i)"
    unfolding link_resource_def size extended bs stored bind_out_simps prod.case Let_def res_shift_placed(1)
    by (simp add: rr_place_def)
  moreover have "dns_at pre c (ps @ (?i, rr) # qs) tail ?l'"
    unfolding dns_at_def
  proof (intro conjI)
    show "dl_first ?l' = first_id (ps @ (?i, rr) # qs)" using l first by (simp add: dns_at_def first_id_insert)
    show "distinct (map fst (ps @ (?i, rr) # qs))" using l new_number [OF l] by (auto simp: dns_at_def)
    show "\<forall>p \<in> set (ps @ (?i, rr) # qs). fst p < dl_fresh ?l' \<and> rr_ok (snd p)" using l ok by (auto simp: dns_at_def less_SucI)
    show "sorted (map kind (ps @ (?i, rr) # qs))" by (rule s)
  qed (use l in \<open>simp_all add: dns_at_def add.assoc\<close>)
  ultimately show ?thesis by (intro exI [of _ ?l']) simp
qed

text \<open>The counts after a resource is added.\<close>

lemma counted:
  assumes "dns_at pre c ps tail l"
  shows "getCount t l = Inr (c t)" "\<exists>l'. setCount t n l = Inr l' \<and> dns_at pre (c(t := n)) ps tail l' \<and> dl_adjust l' = dl_adjust l \<and> dl_fresh l' = dl_fresh l"
proof -
  have l: "length pre = 4 + dl_adjust l" "m_Data l = Some (header pre c @ rr_all ps @ tail)" using assms by (simp_all add: dns_at_def)
  show "getCount t l = Inr (c t)" using count_read [OF l(1)] l(2) by (simp add: getCount_def lay_data_def)
  show "\<exists>l'. setCount t n l = Inr l' \<and> dns_at pre (c(t := n)) ps tail l' \<and> dl_adjust l' = dl_adjust l \<and> dl_fresh l' = dl_fresh l"
    using count_written [OF l, of t n] assms by (auto simp: dns_at_def)
qed

lemma counts_insert: "counts (ps @ (i, rr) # qs) = (counts (ps @ qs))(rr_type rr := counts (ps @ qs) (rr_type rr) + 1)"
  by (rule ext) (simp add: counts_def kind_def)

text \<open>The resources up to those of a kind, and the ones behind.\<close>

definition upto_kind :: "dns_resource_type \<Rightarrow> (nat \<times> dns_rr) list \<Rightarrow> (nat \<times> dns_rr) list" where
  "upto_kind t ps = takeWhile (\<lambda>p. kind p \<le> t) ps"

definition behind_kind :: "dns_resource_type \<Rightarrow> (nat \<times> dns_rr) list \<Rightarrow> (nat \<times> dns_rr) list" where
  "behind_kind t ps = dropWhile (\<lambda>p. kind p \<le> t) ps"

lemma kind_split [simp]: "upto_kind t ps @ behind_kind t ps = ps"
  by (simp add: upto_kind_def behind_kind_def)

lemma kind_all: "rr_all (upto_kind t ps) @ rr_all (behind_kind t ps) @ r = rr_all ps @ r"
  by (metis append_assoc kind_split rr_all_simps(3))

lemma sorted_kind_split:
  assumes "sorted (map kind ps)"
  shows "\<forall>p \<in> set (upto_kind t ps). kind p \<le> t" "\<forall>p \<in> set (behind_kind t ps). t < kind p"
proof -
  show "\<forall>p \<in> set (upto_kind t ps). kind p \<le> t" by (auto simp: upto_kind_def dest: set_takeWhileD)
  show "\<forall>p \<in> set (behind_kind t ps). t < kind p"
    using assms unfolding behind_kind_def
    by (induction ps) (auto split: if_splits simp: not_le intro: less_le_trans)
qed

lemma sorted_parts: "sorted (map kind ps) \<Longrightarrow> sorted (map kind (upto_kind t ps))" "sorted (map kind ps) \<Longrightarrow> sorted (map kind (behind_kind t ps))"
  by (metis kind_split map_append sorted_append)+

lemma sorted_insert_kind:
  assumes "sorted (map kind ps)" "rr_type rr = t"
  shows "sorted (map kind (upto_kind t ps @ (i, rr) # behind_kind t ps))"
proof -
  have "kind p \<le> kind q" if "p \<in> set (upto_kind t ps)" "q \<in> set (behind_kind t ps)" for p q
    using sorted_kind_split [OF assms(1), of t] that by (meson le_less_trans less_imp_le)
  moreover have "kind (i, rr) = t" using assms(2) by (simp add: kind_def)
  ultimately show ?thesis using sorted_kind_split [OF assms(1), of t] sorted_parts [OF assms(1), of t]
    by (auto simp: sorted_append less_imp_le)
qed

lemma last_kind:
  assumes "sorted (map kind ps)"
  shows "upto_kind t ps = [] \<or> kind (last (upto_kind t ps)) < t \<longleftrightarrow> filter (\<lambda>p. kind p = t) (upto_kind t ps) = []"
proof (cases "upto_kind t ps" rule: rev_cases)
  case (snoc xs p)
  have "sorted (map kind (upto_kind t ps))" by (rule sorted_parts [OF assms])
  then have "\<forall>x \<in> set xs. kind x \<le> kind p" using snoc by (auto simp: sorted_append)
  moreover have "kind p \<le> t" using sorted_kind_split(1) [OF assms, of t] snoc by simp
  ultimately show ?thesis using snoc by (auto simp: filter_empty_conv less_le_not_le)
qed simp

lemma placed_kinds:
  "takeWhile (\<lambda>(_, r). dr_type r \<le> t) (rr_placed off ps) = rr_placed off (upto_kind t ps)"
  "dropWhile (\<lambda>(_, r). dr_type r \<le> t) (rr_placed off ps) = rr_placed (off + length (rr_all (upto_kind t ps))) (behind_kind t ps)"
  by (induction off ps rule: rr_placed.induct) (simp_all add: upto_kind_def behind_kind_def kind_def add.assoc)

lemma placed_last: "ps \<noteq> [] \<Longrightarrow> dr_type (snd (last (rr_placed off ps))) = kind (last ps)"
  by (cases ps rule: rev_cases) (auto simp: kind_def)

text \<open>A resource with its place and its bytes goes behind those of its kind.\<close>

lemma kind_linked:
  assumes l: "dns_is pre ps tail l" and ok: "rr_ok rr" and s: "sizes d (rr_placed (length pre + 8) (upto_kind (rr_type rr) ps)) = Inr s"
    and d: "lay_data l = Inr d"
    and first: "isFirst \<longleftrightarrow> filter (\<lambda>p. kind p = rr_type rr) (upto_kind (rr_type rr) ps) = []"
  shows "\<exists>l1 l2. link_resource junk (rr_type rr) (rr_name rr) (rr_bytes rr @ rest) (length (rr_nameBytes rr)) (getBasicHeaderSize l + s)
      (rr_placed (length pre + 8) (upto_kind (rr_type rr) ps))
      (rr_placed (length pre + 8 + length (rr_all (upto_kind (rr_type rr) ps))) (behind_kind (rr_type rr) ps)) isFirst l = Inr (l1, Some (dl_fresh l))
    \<and> getCount (rr_type rr) l1 = Inr (counts ps (rr_type rr)) \<and> setCount (rr_type rr) (counts ps (rr_type rr) + 1) l1 = Inr l2
    \<and> dns_is pre (upto_kind (rr_type rr) ps @ (dl_fresh l, rr) # behind_kind (rr_type rr) ps) tail l2"
proof -
  let ?u = "upto_kind (rr_type rr) ps" and ?b = "behind_kind (rr_type rr) ps"
  have at: "dns_at pre (counts ps) (?u @ ?b) tail l" using l by (simp add: dns_is_def)
  have sorted: "sorted (map kind ps)" and head: "length pre = 4 + dl_adjust l" using l by (simp_all add: dns_is_def dns_at_def)
  have d: "d = header pre (counts ps) @ rr_all ?u @ rr_all ?b @ tail"
    using at d by (simp add: dns_at_def lay_data_def kind_all)
  have "\<forall>p \<in> set ps. rr_ok (snd p)" using l by (simp add: dns_is_def dns_at_def)
  then have "\<forall>p \<in> set ?u. rr_ok (snd p)" by (auto simp: upto_kind_def dest: set_takeWhileD)
  from sizes_read [OF this, of "header pre (counts ps)" "length pre + 8" "rr_all ?b @ tail"] s
  have s: "s = length (rr_all ?u)" by (simp add: d)
  have base: "getBasicHeaderSize l + s = length pre + 8 + length (rr_all ?u)" using head s by (simp add: getBasicHeaderSize_def)
  obtain l1 where 1: "link_resource junk (rr_type rr) (rr_name rr) (rr_bytes rr @ rest) (length (rr_nameBytes rr)) (length pre + 8 + length (rr_all ?u))
      (rr_placed (length pre + 8) ?u) (rr_placed (length pre + 8 + length (rr_all ?u)) ?b) isFirst l = Inr (l1, Some (dl_fresh l))"
      "dns_at pre (counts ps) (?u @ (dl_fresh l, rr) # ?b) tail l1"
    using linked [OF at ok sorted_insert_kind [OF sorted refl] first, of junk rest] by blast
  from counted(2) [OF 1(2), of "rr_type rr" "counts ps (rr_type rr) + 1"] obtain l2 where
    2: "setCount (rr_type rr) (counts ps (rr_type rr) + 1) l1 = Inr l2"
      "dns_at pre ((counts ps)(rr_type rr := counts ps (rr_type rr) + 1)) (?u @ (dl_fresh l, rr) # ?b) tail l2" by blast
  have "dns_is pre (?u @ (dl_fresh l, rr) # ?b) tail l2" using 2(2) by (simp add: dns_is_def counts_insert)
  then show ?thesis using 1 2(1) counted(1) [OF 1(2)] unfolding base by blast
qed

lemma all_sizes:
  assumes "dns_is pre ps tail l"
  shows "\<exists>d s. lay_data l = Inr d \<and> sizes d (rr_placed (length pre + 8) (upto_kind t ps)) = Inr s"
proof -
  have l: "m_Data l = Some (header pre (counts ps) @ rr_all ps @ tail)" and "\<forall>p \<in> set ps. rr_ok (snd p)"
    using assms by (simp_all add: dns_is_def dns_at_def)
  then have "\<forall>p \<in> set (upto_kind t ps). rr_ok (snd p)" by (auto simp: upto_kind_def dest: set_takeWhileD)
  from sizes_read [OF this, of "header pre (counts ps)" "length pre + 8" "rr_all (behind_kind t ps) @ tail"] l
  show ?thesis by (simp add: lay_data_def kind_all)
qed

lemma record_added:
  assumes l: "dns_is pre ps tail l" and name: "plain_name name" and t: "t \<noteq> DnsQueryType" and x: "data_ok x"
    and fits: "length (name_bytes name) + 10 + length (data_bytes x) \<le> 256"
  shows "if data_matches ty x
    then \<exists>l'. addRecord junk t name ty cl ttl (Some x) l = Inr (l', Some (dl_fresh l))
           \<and> dns_is pre (upto_kind t ps @ (dl_fresh l, rr_record t name ty cl ttl x) # behind_kind t ps) tail l'
    else addRecord junk t name ty cl ttl (Some x) l = Inr (l, None)"
proof (cases "data_matches ty x")
  case False
  then have "raw_record junk t name ty cl ttl (Some x) = Inr None" using raw_record_ok [OF name t x fits, of junk ty cl ttl] by auto
  with False show ?thesis by (simp add: addRecord_def addResource_def)
next
  case True
  let ?rr = "rr_record t name ty cl ttl x"
  have rr: "rr_type ?rr = t" "rr_name ?rr = name" "rr_nameBytes ?rr = name_bytes name" by (simp_all add: rr_record_def)
  have ok: "rr_ok ?rr" using t fits by (simp add: rr_ok_def rr_record_def)
  obtain rest where raw: "raw_record junk t name ty cl ttl (Some x) = Inr (Some (rr_bytes ?rr @ rest, length (name_bytes name)))"
    using raw_record_ok [OF name t x fits, of junk ty cl ttl] True by auto
  obtain d s where d: "lay_data l = Inr d" "sizes d (rr_placed (length pre + 8) (upto_kind t ps)) = Inr s" using all_sizes [OF l] by blast
  have sorted: "sorted (map kind ps)" and placed: "dl_resources l = rr_placed (length pre + 8) ps" using l by (simp_all add: dns_is_def dns_at_def)
  let ?u = "upto_kind t ps"
  have first: "(rr_placed (length pre + 8) ?u = [] \<or> dr_type (snd (last (rr_placed (length pre + 8) ?u))) < t) \<longleftrightarrow> filter (\<lambda>p. kind p = t) ?u = []"
    using last_kind [OF sorted, of t] placed_last [of ?u "length pre + 8"] by (cases "?u = []") auto
  from kind_linked [OF l ok, unfolded rr, OF d(2,1) first, of junk rest] obtain l1 l2 where
    1: "link_resource junk t name (rr_bytes ?rr @ rest) (length (name_bytes name)) (getBasicHeaderSize l + s) (rr_placed (length pre + 8) ?u)
        (rr_placed (length pre + 8 + length (rr_all ?u)) (behind_kind t ps))
        (rr_placed (length pre + 8) ?u = [] \<or> dr_type (snd (last (rr_placed (length pre + 8) ?u))) < t) l = Inr (l1, Some (dl_fresh l))"
      "getCount t l1 = Inr (counts ps t)" "setCount t (counts ps t + 1) l1 = Inr l2"
      "dns_is pre (?u @ (dl_fresh l, ?rr) # behind_kind t ps) tail l2" by blast
  have "addResource junk t name ty cl ttl (Some x) l = Inr (l1, Some (dl_fresh l))"
    unfolding addResource_def raw bind_out_simps option.case prod.case Let_def placed placed_kinds d by (rule 1(1))
  then have "addRecord junk t name ty cl ttl (Some x) l = Inr (l2, Some (dl_fresh l))"
    using 1(2,3) by (simp add: addRecord_def)
  with True 1(4) show ?thesis by simp
qed

lemma upto_query: "upto_kind DnsQueryType ps = takeWhile (\<lambda>p. kind p = DnsQueryType) ps"
proof -
  have "t \<le> DnsQueryType \<longleftrightarrow> t = DnsQueryType" for t by (auto intro: antisym)
  then show ?thesis by (simp add: upto_kind_def)
qed

lemma placed_queries:
  "takeWhile (\<lambda>(_, r). dr_type r = DnsQueryType) (rr_placed off ps) = rr_placed off (upto_kind DnsQueryType ps)"
  "dropWhile (\<lambda>(_, r). dr_type r = DnsQueryType) (rr_placed off ps)
    = rr_placed (off + length (rr_all (upto_kind DnsQueryType ps))) (behind_kind DnsQueryType ps)"
proof -
  have t: "dr_type r \<le> DnsQueryType \<longleftrightarrow> dr_type r = DnsQueryType" for r by (auto intro: antisym)
  show "takeWhile (\<lambda>(_, r). dr_type r = DnsQueryType) (rr_placed off ps) = rr_placed off (upto_kind DnsQueryType ps)"
    "dropWhile (\<lambda>(_, r). dr_type r = DnsQueryType) (rr_placed off ps)
      = rr_placed (off + length (rr_all (upto_kind DnsQueryType ps))) (behind_kind DnsQueryType ps)"
    using placed_kinds [where t = DnsQueryType] by (simp_all add: t)
qed

lemma first_query:
  assumes "sorted (map kind ps)"
  shows "first_id ps DnsQueryType = (case upto_kind DnsQueryType ps of [] \<Rightarrow> None | p # _ \<Rightarrow> Some (fst p))"
    "upto_kind DnsQueryType ps \<noteq> [] \<Longrightarrow> \<exists>p qs. ps = p # qs \<and> kind p = DnsQueryType \<and> first_id ps DnsQueryType = Some (fst p)"
proof -
  have "filter (\<lambda>p. kind p = DnsQueryType) ps = upto_kind DnsQueryType ps"
    using assms
  proof (induction ps)
    case (Cons p ps)
    have "kind q \<noteq> DnsQueryType" if "kind p \<noteq> DnsQueryType" "q \<in> set ps" for q
    proof
      assume "kind q = DnsQueryType"
      then have "kind p \<le> DnsQueryType" using Cons.prems that(2) by auto
      then show False using that(1) by (auto intro: antisym)
    qed
    then have "kind p \<noteq> DnsQueryType \<Longrightarrow> filter (\<lambda>p. kind p = DnsQueryType) ps = []" by (simp add: filter_empty_conv)
    with Cons show ?case by (cases "kind p = DnsQueryType") (simp_all add: upto_query)
  qed (simp add: upto_query)
  then show 1: "first_id ps DnsQueryType = (case upto_kind DnsQueryType ps of [] \<Rightarrow> None | p # _ \<Rightarrow> Some (fst p))"
    by (simp add: first_id_def)
  assume "upto_kind DnsQueryType ps \<noteq> []"
  then show "\<exists>p qs. ps = p # qs \<and> kind p = DnsQueryType \<and> first_id ps DnsQueryType = Some (fst p)"
    by (cases ps) (auto simp: upto_query first_id_def split: if_splits)
qed

lemma query_added:
  assumes l: "dns_is pre ps tail l" and name: "plain_name name"
  shows "\<exists>l'. addQuery junk name ty cl l = Inr (l', Some (dl_fresh l))
    \<and> dns_is pre (upto_kind DnsQueryType ps @ (dl_fresh l, rr_query name ty cl) # behind_kind DnsQueryType ps) tail l'"
proof -
  let ?t = DnsQueryType and ?rr = "rr_query name ty cl" and ?u = "upto_kind DnsQueryType ps" and ?b = "behind_kind DnsQueryType ps"
  have rr: "rr_type ?rr = ?t" "rr_name ?rr = name" "rr_nameBytes ?rr = name_bytes name" by (simp_all add: rr_query_def)
  have ok: "rr_ok ?rr" by (simp add: rr_ok_def rr_query_def)
  have "length (name_bytes name) + 4 \<le> 256" using plain_length [OF name] name by (simp add: plain_name_def split: if_splits)
  then obtain rest where raw: "raw_named junk ?t (junk_bytes (junk 3) 256) name ty cl = Inr (rr_bytes ?rr @ rest, length (name_bytes name))"
    using raw_named_ok [OF name, of "junk_bytes (junk 3) 256" ?t junk ty cl] by (auto simp: rr_bytes_def rr_rest_def rr_query_def)
  obtain d s where d: "lay_data l = Inr d" "sizes d (rr_placed (length pre + 8) ?u) = Inr s" using all_sizes [OF l] by blast
  have sorted: "sorted (map kind ps)" and placed: "dl_resources l = rr_placed (length pre + 8) ps" and fst: "dl_first l = first_id ps"
    using l by (simp_all add: dns_is_def dns_at_def)
  show ?thesis
  proof (cases "?u = []")
    case True
    then have none: "dl_first l ?t = None" and b: "?b = ps" using first_query(1) [OF sorted] kind_split [of ?t ps] by (simp_all add: fst)
    have s: "s = 0" using d(2) True by (simp add: sizes_def)
    have "True \<longleftrightarrow> filter (\<lambda>p. kind p = ?t) ?u = []" using True by simp
    from kind_linked [OF l ok, unfolded rr, OF d(2,1) this, of junk rest] obtain l1 l2 where
      1: "link_resource junk ?t name (rr_bytes ?rr @ rest) (length (name_bytes name)) (getBasicHeaderSize l + 0) [] (dl_resources l) True l
          = Inr (l1, Some (dl_fresh l))"
        "getCount ?t l1 = Inr (counts ps ?t)" "setCount ?t (counts ps ?t + 1) l1 = Inr l2" "dns_is pre (?u @ (dl_fresh l, ?rr) # ?b) tail l2"
      unfolding True s b placed by auto
    have "addQuery junk name ty cl l = Inr (l2, Some (dl_fresh l))"
      unfolding addQuery_def raw bind_out_simps prod.case Let_def none option.case d(1) using 1(1-3) by simp
    with 1(4) show ?thesis by blast
  next
    case False
    from first_query(2) [OF sorted False] obtain p qs where p: "ps = p # qs" "kind p = ?t" "dl_first l ?t = Some (fst p)" by (auto simp: fst)
    have before: "res_before (fst p) (dl_resources l) = []" "dropWhile (\<lambda>e. fst e \<noteq> fst p) (dl_resources l) = rr_placed (length pre + 8) ps"
      unfolding placed p(1) by (cases p; simp add: res_before_def)+
    have "False \<longleftrightarrow> filter (\<lambda>p. kind p = ?t) ?u = []" using p(1,2) by (simp add: upto_query)
    from kind_linked [OF l ok, unfolded rr, OF d(2,1) this, of junk rest] obtain l1 l2 where
      1: "link_resource junk ?t name (rr_bytes ?rr @ rest) (length (name_bytes name)) (getBasicHeaderSize l + s) (rr_placed (length pre + 8) ?u)
          (rr_placed (length pre + 8 + length (rr_all ?u)) ?b) False l = Inr (l1, Some (dl_fresh l))"
        "getCount ?t l1 = Inr (counts ps ?t)" "setCount ?t (counts ps ?t + 1) l1 = Inr l2" "dns_is pre (?u @ (dl_fresh l, ?rr) # ?b) tail l2" by blast
    have "addQuery junk name ty cl l = Inr (l2, Some (dl_fresh l))"
      unfolding addQuery_def raw bind_out_simps prod.case Let_def p(3) option.case before append_Nil placed_queries d
      using 1(1-3) by (simp add: d(2))
    with 1(4) show ?thesis by blast
  qed
qed

section \<open>One resource of a message\<close>

lemma message_resource:
  assumes "dns_at pre c (ps @ (i, rr) # qs) tail l"
  shows "find_resource i l = Inr (rr_place (length pre + 8 + length (rr_all ps)) rr)"
    "lay_data l = Inr ((header pre c @ rr_all ps) @ rr_bytes rr @ rr_all qs @ tail)"
    "res_before i (dl_resources l) = rr_placed (length pre + 8) ps"
    "res_behind i (dl_resources l) = rr_placed (length pre + 8 + length (rr_all ps) + length (rr_bytes rr)) qs"
    "i \<in> fst ` set (dl_resources l)" "rr_ok rr"
proof -
  have placed: "dl_resources l = rr_placed (length pre + 8) (ps @ (i, rr) # qs)" and "i \<notin> fst ` set ps"
    using assms by (auto simp: dns_at_def)
  then have "i \<notin> fst ` set (rr_placed (length pre + 8) ps)" by (simp add: fst_rr_placed)
  then have ne: "\<forall>e \<in> set (rr_placed (length pre + 8) ps). fst e \<noteq> i" by force
  have "map_of (rr_placed (length pre + 8) ps) i = None" using \<open>i \<notin> fst ` set (rr_placed (length pre + 8) ps)\<close> by (simp add: map_of_eq_None_iff)
  then show "find_resource i l = Inr (rr_place (length pre + 8 + length (rr_all ps)) rr)"
    by (simp add: find_resource_def placed map_add_def)
  show "lay_data l = Inr ((header pre c @ rr_all ps) @ rr_bytes rr @ rr_all qs @ tail)" using assms by (simp add: dns_at_def lay_data_def)
  show "res_before i (dl_resources l) = rr_placed (length pre + 8) ps"
    "res_behind i (dl_resources l) = rr_placed (length pre + 8 + length (rr_all ps) + length (rr_bytes rr)) qs"
    using ne by (simp_all add: placed res_before_def res_behind_def)
  show "i \<in> fst ` set (dl_resources l)" by (simp add: placed)
  show "rr_ok rr" using assms by (simp add: dns_at_def)
qed

lemma first_id_remove:
  assumes "sorted (map kind (ps @ (i, rr) # qs))" "distinct (map fst (ps @ (i, rr) # qs))"
  shows "first_id (ps @ qs) = (if first_id (ps @ (i, rr) # qs) (rr_type rr) = Some i
     then (first_id (ps @ (i, rr) # qs))(rr_type rr := (case qs of [] \<Rightarrow> None | q # _ \<Rightarrow> if kind q = rr_type rr then Some (fst q) else None))
     else first_id (ps @ (i, rr) # qs))"
proof (cases "filter (\<lambda>p. kind p = rr_type rr) ps")
  case Nil
  have later: "filter (\<lambda>p. kind p = rr_type rr) qs = []" if "qs = q # qs'" "kind q \<noteq> rr_type rr" for q qs'
  proof -
    have "rr_type rr \<le> kind q" "\<forall>x \<in> set qs'. kind q \<le> kind x" using assms(1) that(1) by (auto simp: sorted_append kind_def)
    then show ?thesis using that by (auto simp: filter_empty_conv intro: antisym)
  qed
  have "first_id (ps @ (i, rr) # qs) (rr_type rr) = Some i" using Nil by (simp add: first_id_def kind_def)
  moreover have "first_id (ps @ qs) t = first_id (ps @ (i, rr) # qs) t" if "t \<noteq> rr_type rr" for t
    using that by (simp add: first_id_def kind_def)
  moreover have "first_id (ps @ qs) (rr_type rr) = (case qs of [] \<Rightarrow> None | q # _ \<Rightarrow> if kind q = rr_type rr then Some (fst q) else None)"
    using Nil later by (cases qs) (auto simp: first_id_def)
  ultimately show ?thesis by (auto simp: fun_eq_iff)
next
  case (Cons p ps')
  then have "p \<in> set ps" by (metis filter_eq_ConsD in_set_conv_decomp)
  then have "fst p \<noteq> i" using assms(2) by force
  then have "first_id (ps @ (i, rr) # qs) (rr_type rr) \<noteq> Some i" using Cons by (simp add: first_id_def)
  moreover have "first_id (ps @ qs) t = first_id (ps @ (i, rr) # qs) t" for t
    using Cons by (cases "t = rr_type rr") (simp_all add: first_id_def kind_def)
  ultimately show ?thesis by auto
qed

lemma resource_removed:
  assumes l: "dns_is pre (ps @ (i, rr) # qs) tail l"
  shows "\<exists>l'. removeCounted (rr_type rr) (Some i) l = Inr (l', True) \<and> dns_is pre (ps @ qs) tail l' \<and> dl_fresh l' = dl_fresh l"
proof -
  let ?c = "counts (ps @ (i, rr) # qs)"
  have at: "dns_at pre ?c (ps @ (i, rr) # qs) tail l" using l by (simp add: dns_is_def)
  note m = message_resource [OF at]
  let ?a = "header pre ?c @ rr_all ps" and ?b = "rr_all qs @ tail" and ?x = "rr_bytes rr"
  let ?off = "length pre + 8 + length (rr_all ps)"
  have off: "length ?a = ?off" by simp
  have data: "m_Data l = Some (?a @ ?x @ ?b)" "m_DataLen l = length (?a @ ?x @ ?b)" using at by (simp_all add: dns_at_def)
  have sorted: "sorted (map kind (ps @ (i, rr) # qs))" and dist: "distinct (map fst (ps @ (i, rr) # qs))" and first: "dl_first l = first_id (ps @ (i, rr) # qs)"
    using at by (simp_all add: dns_at_def)
  have size: "res_getSize (?a @ ?x @ ?b) (rr_place ?off rr) = Inr (length ?x)" by (rule size_read [OF m(6)]) simp
  let ?l1 = "l\<lparr>m_Data := Some (?a @ ?b), m_DataLen := length (?a @ ?b)\<rparr>"
  have shortened: "shortenLayer (int ?off) (length ?x) l = Inr (?l1, True)"
    using shorten_at [OF data] rr_bytes_some [of rr] unfolding off by simp
  let ?next = "case rr_placed (?off + length ?x) qs of [] \<Rightarrow> None | (j, r') # _ \<Rightarrow> if dr_type r' = rr_type rr then Some j else None"
  let ?l2 = "?l1\<lparr>dl_resources := rr_placed (length pre + 8) ps @ rr_placed ?off qs,
     dl_first := (if dl_first l (rr_type rr) = Some i then (dl_first l)(rr_type rr := ?next) else dl_first l)\<rparr>"
  have removed: "removeResource (Some i) l = Inr (?l2, True)"
    unfolding removeResource_def option.case m(1-4) bind_out_simps size shortened prod.case rr_place_simps Let_def res_shift_placed(2)
    using m(5) by simp
  have nextid: "?next = (case qs of [] \<Rightarrow> None | q # _ \<Rightarrow> if kind q = rr_type rr then Some (fst q) else None)"
    by (cases qs) (auto simp: kind_def)
  have "dl_first ?l2 = first_id (ps @ qs)" unfolding first nextid first_id_remove [OF sorted dist] by simp
  then have "dns_at pre ?c (ps @ qs) tail ?l2"
    using at by (auto simp: dns_at_def sorted_append add.assoc)
  from counted(1) [OF this, of "rr_type rr"] counted(2) [OF this, of "rr_type rr" "?c (rr_type rr) - 1"] obtain l' where
    c: "getCount (rr_type rr) ?l2 = Inr (?c (rr_type rr))" "setCount (rr_type rr) (?c (rr_type rr) - 1) ?l2 = Inr l'"
      "dns_at pre (?c(rr_type rr := ?c (rr_type rr) - 1)) (ps @ qs) tail l'" "dl_fresh l' = dl_fresh ?l2" by blast
  have "?c(rr_type rr := ?c (rr_type rr) - 1) = counts (ps @ qs)" by (rule ext) (simp add: counts_def kind_def)
  moreover have "removeCounted (rr_type rr) (Some i) l = Inr (l', True)" by (simp only: removeCounted_def removed bind_out_simps prod.case c(1,2) if_True)
  ultimately show ?thesis using c(3,4) by (auto simp: dns_is_def)
qed

section \<open>Changing a resource\<close>

lemma res_shift_by: "res_shift (int y - int n) (rr_placed (off + n) ps) = rr_placed (off + y) ps"
proof (cases "n \<le> y")
  case True
  then show ?thesis using res_shift_placed(1) [of "y - n" "off + n" ps] by (simp add: of_nat_diff)
next
  case False
  then show ?thesis using res_shift_placed(2) [of "n - y" "off + y" ps] by (simp add: of_nat_diff)
qed

lemma first_id_kind:
  assumes "kind (i, rr') = kind (i, rr)"
  shows "first_id (ps @ (i, rr') # qs) = first_id (ps @ (i, rr) # qs)"
proof
  fix t
  show "first_id (ps @ (i, rr') # qs) t = first_id (ps @ (i, rr) # qs) t"
    using assms by (cases "filter (\<lambda>p. kind p = t) ps") (simp_all add: first_id_def)
qed

text \<open>The message with other bytes and another object in the place of a resource.\<close>

definition with_bytes :: "byte list \<Rightarrow> (dns_resource_type \<Rightarrow> 16 word) \<Rightarrow> (nat \<times> dns_rr) list \<Rightarrow> nat \<Rightarrow> dns_resource \<Rightarrow> byte list \<Rightarrow> (nat \<times> dns_rr) list
    \<Rightarrow> byte list \<Rightarrow> dns_layer \<Rightarrow> dns_layer" where
  "with_bytes pre c ps i r' x qs tail l = l\<lparr>m_Data := Some (header pre c @ rr_all ps @ x @ rr_all qs @ tail),
     m_DataLen := length (header pre c @ rr_all ps @ x @ rr_all qs @ tail),
     dl_resources := rr_placed (length pre + 8) ps @ (i, r') # rr_placed (length pre + 8 + length (rr_all ps) + length x) qs\<rparr>"

lemma with_bytes_at:
  assumes "dns_at pre c (ps @ (i, rr) # qs) tail l" "rr_ok rr'" "rr_type rr' = rr_type rr"
  shows "dns_at pre c (ps @ (i, rr') # qs) tail (with_bytes pre c ps i (rr_place (length pre + 8 + length (rr_all ps)) rr') (rr_bytes rr') qs tail l)"
proof -
  have "kind (i, rr') = kind (i, rr)" using assms(3) by (simp add: kind_def)
  then show ?thesis using assms first_id_kind [of i rr' rr ps qs] by (auto simp: dns_at_def with_bytes_def)
qed

lemma part_resized:
  assumes at: "dns_at pre c (ps @ (i, rr) # qs) tail l" and cut: "rr_bytes rr = a @ old @ b"
    and off: "off = length pre + 8 + length (rr_all ps) + length a"
  shows "\<exists>l1. dns_resize junk off (int (length new) - int (length old)) i r' l = Inr (l1, True)
    \<and> write_at off new l1 = Inr (with_bytes pre c ps i r' (a @ new @ b) qs tail l)"
proof -
  let ?h = "header pre c @ rr_all ps" and ?t = "rr_all qs @ tail" and ?o = "length pre + 8 + length (rr_all ps)"
  note m = message_resource [OF at]
  have data: "m_Data l = Some ((?h @ a) @ old @ (b @ ?t))" "m_DataLen l = length ((?h @ a) @ old @ (b @ ?t))"
    using at cut(1) by (simp_all add: dns_at_def)
  have len: "length (?h @ a) = off" using off by simp
  obtain Y where Y: "length Y = length new" "(if int (length new) - int (length old) > 0
        then extendLayer junk (int off) (nat (int (length new) - int (length old))) l
        else if int (length new) - int (length old) < 0 then shortenLayer (int off) (nat (- (int (length new) - int (length old)))) l else Inr (l, True))
      = Inr (l\<lparr>m_Data := Some ((?h @ a) @ Y @ b @ ?t), m_DataLen := length ((?h @ a) @ Y @ b @ ?t)\<rparr>, True)"
    using value_resized [OF data refl, of "length new" junk, unfolded len] by blast
  let ?rs = "rr_placed (length pre + 8) ps @ (i, r') # rr_placed (?o + length (a @ new @ b)) qs"
  let ?l1 = "l\<lparr>m_Data := Some ((?h @ a) @ Y @ b @ ?t), m_DataLen := length ((?h @ a) @ Y @ b @ ?t), dl_resources := ?rs\<rparr>"
  have shifted: "res_shift (int (length new) - int (length old)) (rr_placed (?o + length (rr_bytes rr)) qs) = rr_placed (?o + length (a @ new @ b)) qs"
    using res_shift_by [of "length new" "length old" "?o + length a + length b" qs] cut by (simp add: add.assoc add.commute add.left_commute)
  have resized: "dns_resize junk off (int (length new) - int (length old)) i r' l = Inr (?l1, True)"
    unfolding dns_resize_def Y(2) bind_out_simps prod.case m(3,4) shifted by simp
  have "m_Data ?l1 = Some ((?h @ a) @ Y @ (b @ ?t))" by simp
  from write_between [OF this Y(1) [symmetric]] have "write_at off new ?l1 = Inr (with_bytes pre c ps i r' (a @ new @ b) qs tail l)"
    unfolding len by (simp add: with_bytes_def Y(1))
  with resized show ?thesis by blast
qed

text \<open>A part of the bytes that keeps its length.\<close>

lemma part_written:
  assumes at: "dns_at pre c (ps @ (i, rr) # qs) tail l" and cut: "rr_bytes rr = a @ old @ b" "rr_bytes rr' = a @ new @ b" "length new = length old"
    and rr': "rr_ok rr'" "rr_type rr' = rr_type rr" "rr_name rr' = rr_name rr" "length (rr_nameBytes rr') = length (rr_nameBytes rr)"
    and off: "off = length pre + 8 + length (rr_all ps) + length a"
  shows "\<exists>l'. write_at off new l = Inr l' \<and> dns_at pre c (ps @ (i, rr') # qs) tail l' \<and> dl_fresh l' = dl_fresh l \<and> dl_adjust l' = dl_adjust l"
proof -
  let ?h = "header pre c @ rr_all ps" and ?t = "rr_all qs @ tail"
  have "m_Data l = Some ((?h @ a) @ old @ (b @ ?t))" "length (?h @ a) = off" using at cut(1) off by (simp_all add: dns_at_def)
  then have stored: "write_at off new l = Inr (l\<lparr>m_Data := Some ((?h @ a) @ new @ b @ ?t)\<rparr>)"
    using write_between [of l "?h @ a" old "b @ ?t" new] cut(3) by simp
  have kinds: "kind (i, rr') = kind (i, rr)" using rr'(2) by (simp add: kind_def)
  then have "first_id (ps @ (i, rr') # qs) = first_id (ps @ (i, rr) # qs)" by (rule first_id_kind)
  moreover have "rr_place off' rr' = rr_place off' rr" for off' using rr' by (simp add: rr_place_def)
  ultimately have "dns_at pre c (ps @ (i, rr') # qs) tail (l\<lparr>m_Data := Some ((?h @ a) @ new @ b @ ?t)\<rparr>)"
    using at cut rr'(1) kinds by (auto simp: dns_at_def add.assoc)
  then show ?thesis using stored by (intro exI [of _ "l\<lparr>m_Data := Some ((?h @ a) @ new @ b @ ?t)\<rparr>"]) simp
qed

lemma counts_kind: "rr_type rr' = rr_type rr \<Longrightarrow> counts (ps @ (i, rr') # qs) = counts (ps @ (i, rr) # qs)"
  by (rule ext) (simp add: counts_def kind_def)

text \<open>The setters.\<close>

lemma name_set:
  assumes l: "dns_is pre (ps @ (i, rr) # qs) tail l" and name: "plain_name name"
  shows "\<exists>l'. setName junk i name l = Inr (l', True) \<and> dns_is pre (ps @ (i, rr\<lparr>rr_name := name, rr_nameBytes := name_bytes name\<rparr>) # qs) tail l'
    \<and> dl_fresh l' = dl_fresh l"
proof -
  let ?rr = "rr\<lparr>rr_name := name, rr_nameBytes := name_bytes name\<rparr>" and ?c = "counts (ps @ (i, rr) # qs)" and ?nb = "name_bytes name"
  let ?o = "length pre + 8 + length (rr_all ps)"
  have at: "dns_at pre ?c (ps @ (i, rr) # qs) tail l" using l by (simp add: dns_is_def)
  note m = message_resource [OF at]
  have cut: "rr_bytes rr = [] @ rr_nameBytes rr @ be16 (rr_dnsType rr) @ be16 (rr_dnsClass rr) @ rr_rest rr"
    and new: "rr_bytes ?rr = [] @ ?nb @ be16 (rr_dnsType rr) @ be16 (rr_dnsClass rr) @ rr_rest rr"
    by (simp_all add: rr_bytes_def rr_rest_def)
  have "length ?nb \<le> 256" using plain_length [OF name] name by (simp add: plain_name_def split: if_splits)
  then have enc: "encodeName name (junk_bytes (junk 1) 256) = Inr (length ?nb, ?nb @ drop (length ?nb) (junk_bytes (junk 1) 256))"
    using name_written [OF name, of "junk_bytes (junk 1) 256"] by simp
  have bs: "bytes_at (?nb @ drop (length ?nb) (junk_bytes (junk 1) 256)) 0 (length ?nb) = Inr ?nb"
    using bytes_at_here [of ?nb "length ?nb" "[]"] by simp
  have r': "(rr_place ?o rr)\<lparr>dr_name := name, dr_nameLen := length ?nb\<rparr> = rr_place ?o ?rr" by (simp add: rr_place_def)
  obtain l1 where 1: "dns_resize (junk 0) ?o (int (length ?nb) - int (length (rr_nameBytes rr))) i (rr_place ?o ?rr) l = Inr (l1, True)"
      "write_at ?o ?nb l1 = Inr (with_bytes pre ?c ps i (rr_place ?o ?rr) (rr_bytes ?rr) qs tail l)"
    using part_resized [OF at cut, of ?o "junk 0" ?nb "rr_place ?o ?rr"] unfolding new by auto
  have "rr_ok ?rr" using m(6) by (simp add: rr_ok_def)
  then have "dns_is pre (ps @ (i, ?rr) # qs) tail (with_bytes pre ?c ps i (rr_place ?o ?rr) (rr_bytes ?rr) qs tail l)"
    using with_bytes_at [OF at, of ?rr] counts_kind [of ?rr rr ps i qs] by (simp add: dns_is_def)
  moreover have "setName junk i name l = Inr (with_bytes pre ?c ps i (rr_place ?o ?rr) (rr_bytes ?rr) qs tail l, True)"
    unfolding setName_def m(1) enc bind_out_simps prod.case r' rr_place_simps 1 bs by simp
  ultimately show ?thesis by (auto simp: with_bytes_def)
qed

lemma data_set:
  assumes l: "dns_is pre (ps @ (i, rr) # qs) tail l" and t: "rr_type rr \<noteq> DnsQueryType" and x: "data_ok x"
  shows "if data_matches (rr_dnsType rr) x
    then \<exists>l'. setData junk i (Some x) l = Inr (l', True) \<and> dns_is pre (ps @ (i, rr\<lparr>rr_data := data_bytes x\<rparr>) # qs) tail l' \<and> dl_fresh l' = dl_fresh l
    else setData junk i (Some x) l = Inr (l, False)"
proof -
  let ?b = "data_bytes x" and ?c = "counts (ps @ (i, rr) # qs)" and ?o = "length pre + 8 + length (rr_all ps)"
  let ?rr = "rr\<lparr>rr_data := ?b\<rparr>"
  have at: "dns_at pre ?c (ps @ (i, rr) # qs) tail l" using l by (simp add: dns_is_def)
  note m = message_resource [OF at]
  let ?h = "header pre ?c @ rr_all ps"
  have o: "length ?h = ?o" by simp
  note f = fields_read [OF o, of rr "rr_all qs @ tail"]
  obtain r where arr: "toByteArr (junk_bytes (junk 2) 256) x = Inr (Some (?b @ r, length ?b))" "length ?b \<le> 256"
    using data_written [OF x, of "junk_bytes (junk 2) 256"] by auto
  have bs: "bytes_at (?b @ r) 0 (length ?b) = Inr ?b" using bytes_at_here [of ?b "length ?b" "[]"] by simp
  let ?n = "rr_nameBytes rr @ be16 (rr_dnsType rr) @ be16 (rr_dnsClass rr) @ be32 (rr_ttl rr)"
  let ?a = "?n @ be16 (of_nat (length (rr_data rr)))"
  have cut: "rr_bytes rr = ?a @ rr_data rr @ []" using t by (simp add: rr_bytes_def rr_rest_def)
  have off: "getDataOffset (rr_place ?o rr) = ?o + length ?a" by (simp add: getDataOffset_def)
  obtain l1 where 1: "dns_resize (junk 0) (?o + length ?a) (int (length ?b) - int (length (rr_data rr))) i (rr_place ?o rr) l = Inr (l1, True)"
      "write_at (?o + length ?a) ?b l1 = Inr (with_bytes pre ?c ps i (rr_place ?o rr) (?a @ ?b @ []) qs tail l)"
    using part_resized [OF at cut, of "?o + length ?a" "junk 0" ?b "rr_place ?o rr"] by auto
  have place: "rr_place ?o ?rr = rr_place ?o rr" by (simp add: rr_place_def)
  have "m_Data (with_bytes pre ?c ps i (rr_place ?o rr) (?a @ ?b @ []) qs tail l)
      = Some ((?h @ ?n) @ be16 (of_nat (length (rr_data rr))) @ ?b @ rr_all qs @ tail)" by (simp add: with_bytes_def)
  from write_between [OF this, of "be16 (of_nat (length ?b))"]
  have 2: "write_at (?o + length (rr_nameBytes rr) + 8) (be16 (of_nat (length ?b))) (with_bytes pre ?c ps i (rr_place ?o rr) (?a @ ?b @ []) qs tail l)
      = Inr (with_bytes pre ?c ps i (rr_place ?o ?rr) (rr_bytes ?rr) qs tail l)"
    using t unfolding place by (simp add: with_bytes_def rr_bytes_def rr_rest_def add.assoc)
  have "rr_ok ?rr" using m(6) arr(2) t by (simp add: rr_ok_def)
  then have is': "dns_is pre (ps @ (i, ?rr) # qs) tail (with_bytes pre ?c ps i (rr_place ?o ?rr) (rr_bytes ?rr) qs tail l)"
    using with_bytes_at [OF at, of ?rr] counts_kind [of ?rr rr ps i qs] by (simp add: dns_is_def)
  show ?thesis
  proof (cases "data_matches (rr_dnsType rr) x")
    case True
    have "setData junk i (Some x) l = Inr (with_bytes pre ?c ps i (rr_place ?o ?rr) (rr_bytes ?rr) qs tail l, True)"
      unfolding setData_def option.case m(1,2) bind_out_simps f(1) arr(1) prod.case f(4) [OF t m(6)] off 1 bs rr_place_simps 2 using True by simp
    then show ?thesis using True is' by (auto simp: with_bytes_def)
  next
    case False
    then show ?thesis unfolding setData_def option.case m(1,2) bind_out_simps f(1) by simp
  qed
qed

lemma field_written:
  assumes "dns_is pre (ps @ (i, rr) # qs) tail l" "rr_bytes rr = a @ old @ b" "rr_bytes rr' = a @ new @ b" "length new = length old"
    and "rr_ok rr'" "rr_type rr' = rr_type rr" "rr_name rr' = rr_name rr" "length (rr_nameBytes rr') = length (rr_nameBytes rr)"
    and "off = length pre + 8 + length (rr_all ps) + length a"
  shows "\<exists>l'. write_at off new l = Inr l' \<and> dns_is pre (ps @ (i, rr') # qs) tail l' \<and> dl_fresh l' = dl_fresh l"
  using part_written [OF assms(1) [unfolded dns_is_def] assms(2-9)] counts_kind [OF assms(6), of ps i qs] by (auto simp: dns_is_def)

lemma fixed_set:
  assumes l: "dns_is pre (ps @ (i, rr) # qs) tail l"
  shows "\<exists>l'. setDnsType i w l = Inr l' \<and> dns_is pre (ps @ (i, rr\<lparr>rr_dnsType := w\<rparr>) # qs) tail l' \<and> dl_fresh l' = dl_fresh l"
    "\<exists>l'. setDnsClass i w l = Inr l' \<and> dns_is pre (ps @ (i, rr\<lparr>rr_dnsClass := w\<rparr>) # qs) tail l' \<and> dl_fresh l' = dl_fresh l"
    "\<exists>l'. setCustomDnsClass i w l = Inr l' \<and> dns_is pre (ps @ (i, rr\<lparr>rr_dnsClass := ntohs w\<rparr>) # qs) tail l' \<and> dl_fresh l' = dl_fresh l"
    "rr_type rr \<noteq> DnsQueryType
      \<Longrightarrow> \<exists>l'. setTTL i ttl l = Inr l' \<and> dns_is pre (ps @ (i, rr\<lparr>rr_ttl := ttl\<rparr>) # qs) tail l' \<and> dl_fresh l' = dl_fresh l"
proof -
  let ?o = "length pre + 8 + length (rr_all ps)" and ?n = "rr_nameBytes rr" and ?t = "be16 (rr_dnsType rr)" and ?cl = "be16 (rr_dnsClass rr)"
  note m = message_resource [OF l [unfolded dns_is_def]]
  have ok: "rr_ok (rr\<lparr>rr_dnsType := w\<rparr>)" "rr_ok (rr\<lparr>rr_dnsClass := v\<rparr>)" for v using m(6) by (simp_all add: rr_ok_def)
  show "\<exists>l'. setDnsType i w l = Inr l' \<and> dns_is pre (ps @ (i, rr\<lparr>rr_dnsType := w\<rparr>) # qs) tail l' \<and> dl_fresh l' = dl_fresh l"
    unfolding setDnsType_def m(1) bind_out_simps rr_place_simps
    by (rule field_written [OF l, of ?n ?t "?cl @ rr_rest rr"]) (use ok in \<open>simp_all add: rr_bytes_def rr_rest_def\<close>)
  have cls: "\<exists>l'. write_at (?o + length ?n + 2) (be16 v) l = Inr l' \<and> dns_is pre (ps @ (i, rr\<lparr>rr_dnsClass := v\<rparr>) # qs) tail l'
      \<and> dl_fresh l' = dl_fresh l" for v
    by (rule field_written [OF l, of "?n @ ?t" ?cl "rr_rest rr"]) (use ok in \<open>simp_all add: rr_bytes_def rr_rest_def\<close>)
  show "\<exists>l'. setDnsClass i w l = Inr l' \<and> dns_is pre (ps @ (i, rr\<lparr>rr_dnsClass := w\<rparr>) # qs) tail l' \<and> dl_fresh l' = dl_fresh l"
    unfolding setDnsClass_def m(1) bind_out_simps rr_place_simps by (rule cls)
  have "bytes16 w = be16 (ntohs w)" by (simp add: be16_def htons_ntohs)
  then show "\<exists>l'. setCustomDnsClass i w l = Inr l' \<and> dns_is pre (ps @ (i, rr\<lparr>rr_dnsClass := ntohs w\<rparr>) # qs) tail l' \<and> dl_fresh l' = dl_fresh l"
    unfolding setCustomDnsClass_def m(1) bind_out_simps rr_place_simps by (simp only: cls)
  assume t: "rr_type rr \<noteq> DnsQueryType"
  show "\<exists>l'. setTTL i ttl l = Inr l' \<and> dns_is pre (ps @ (i, rr\<lparr>rr_ttl := ttl\<rparr>) # qs) tail l' \<and> dl_fresh l' = dl_fresh l"
    unfolding setTTL_def m(1) bind_out_simps rr_place_simps
    by (rule field_written [OF l, of "?n @ ?t @ ?cl" "be32 (rr_ttl rr)" "be16 (of_nat (length (rr_data rr))) @ rr_data rr"])
      (use m(6) t in \<open>simp_all add: rr_bytes_def rr_rest_def rr_ok_def\<close>)
qed

end
