(* ===== verification/DnsRuns.thy ===== *)
theory DnsRuns
  imports DnsMessage "HOL-Library.Multiset"
begin

text \<open>
  Runs of calls on a DNS message, the list of resources that specifies them, and messages read back.
\<close>

section \<open>Finding by name\<close>

definition hit :: "string \<Rightarrow> bool \<Rightarrow> dns_rr \<Rightarrow> bool" where
  "hit name exactMatch rr = (if exactMatch then rr_name rr = name else str_find name (rr_name rr) \<noteq> None)"

lemma find_in: "List.find P xs = Some x \<Longrightarrow> x \<in> set xs \<and> P x"
  by (induction xs) (auto split: if_splits)

lemma take_placed: "take n (rr_placed off ps) = rr_placed off (take n ps)"
proof (induction off ps arbitrary: n rule: rr_placed.induct)
  case (2 off i rr ps)
  then show ?case by (cases n) simp_all
qed simp

lemma find_placed:
  "case List.find (\<lambda>(_, r). name_matches name ex r) (rr_placed off ps) of
     None \<Rightarrow> List.find (\<lambda>p. hit name ex (snd p)) ps = None
   | Some (j, r) \<Rightarrow> \<exists>p. List.find (\<lambda>p. hit name ex (snd p)) ps = Some p \<and> fst p = j \<and> dr_type r = kind p"
proof (induction off ps rule: rr_placed.induct)
  case (2 off i rr ps)
  have "name_matches name ex (rr_place off rr) = hit name ex rr" by (simp add: name_matches_def hit_def)
  with 2 show ?case by (cases "hit name ex rr") (auto simp: kind_def split: option.splits)
qed simp

lemma length_rr_placed [simp]: "length (rr_placed off ps) = length ps"
  by (induction off ps rule: rr_placed.induct) simp_all

lemma kinds_split:
  assumes "sorted (map kind ps)"
  shows "\<exists>us ws. ps = us @ filter (\<lambda>p. kind p = t) ps @ ws \<and> (\<forall>p \<in> set us. kind p < t)"
proof -
  define us rest where "us = takeWhile (\<lambda>p. kind p < t) ps" and "rest = dropWhile (\<lambda>p. kind p < t) ps"
  have ps: "ps = us @ rest" by (simp add: us_def rest_def)
  have less: "\<forall>p \<in> set us. kind p < t" by (auto simp: us_def dest: set_takeWhileD)
  have "sorted (map kind rest)" using assms ps by (metis map_append sorted_append)
  moreover have "\<forall>p \<in> set rest. t \<le> kind p"
    using assms unfolding rest_def by (induction ps) (auto split: if_splits simp: not_less intro: order_trans)
  ultimately have "\<exists>ws. rest = filter (\<lambda>p. kind p = t) rest @ ws"
  proof (induction rest)
    case (Cons p rest)
    show ?case
    proof (cases "kind p = t")
      case True
      with Cons show ?thesis by auto
    next
      case False
      then have "\<forall>q \<in> set rest. kind q \<noteq> t" using Cons.prems by fastforce
      then have "filter (\<lambda>p. kind p = t) rest = []" by (simp add: filter_empty_conv)
      with False show ?thesis by simp
    qed
  qed simp
  then obtain ws where ws: "rest = filter (\<lambda>p. kind p = t) rest @ ws" by blast
  have "filter (\<lambda>p. kind p = t) us = []" using less by (auto simp: filter_empty_conv)
  then have "filter (\<lambda>p. kind p = t) ps = filter (\<lambda>p. kind p = t) rest" by (simp add: ps)
  then have "ps = us @ filter (\<lambda>p. kind p = t) ps @ ws" using ps ws by metis
  with less show ?thesis by blast
qed

lemma found_by_name:
  assumes l: "dns_is pre ps tail l"
  shows "getByName t name ex l = Inr (map_option fst (List.find (\<lambda>p. hit name ex (snd p))
     (take (length (filter (\<lambda>p. kind p = t) ps) mod 65536) (filter (\<lambda>p. kind p = t) ps))))"
proof -
  let ?vs = "filter (\<lambda>p. kind p = t) ps" and ?h = "\<lambda>p. hit name ex (snd p)"
  have at: "dns_at pre (counts ps) ps tail l" using l by (simp add: dns_is_def)
  have first: "dl_first l = first_id ps" and placed: "dl_resources l = rr_placed (length pre + 8) ps"
    and sorted: "sorted (map kind ps)" and dist: "distinct (map fst ps)" using at by (simp_all add: dns_at_def)
  have n: "unat (counts ps t) = length ?vs mod 65536" by (simp add: counts_def unat_of_nat)
  obtain us ws where ps: "ps = us @ ?vs @ ws" using kinds_split [OF sorted] by blast
  show ?thesis
  proof (cases ?vs)
    case Nil
    then have "dl_first l t = None" by (simp add: first first_id_def)
    then show ?thesis using counted(1) [OF at] Nil by (simp add: getByName_def)
  next
    case (Cons p vs)
    then have i: "dl_first l t = Some (fst p)" by (simp add: first first_id_def)
    let ?off = "length pre + 8 + length (rr_all us)"
    have "fst p \<notin> fst ` set us" using dist ps Cons by (metis (no_types, lifting) append_Cons distinct_append disjoint_iff list.set_intros(1) list.set_map map_append image_eqI)
    then have "\<forall>e \<in> set (rr_placed (length pre + 8) us). fst e \<noteq> fst p" by (metis fst_rr_placed image_eqI)
    moreover have "rr_placed (length pre + 8) ps = rr_placed (length pre + 8) us @ rr_placed ?off (?vs @ ws)"
      using ps by (metis rr_placed_append)
    moreover have "dropWhile (\<lambda>e. fst e \<noteq> fst p) (rr_placed ?off (?vs @ ws)) = rr_placed ?off (?vs @ ws)"
      unfolding Cons by (cases p) simp
    ultimately have "dropWhile (\<lambda>e. fst e \<noteq> fst p) (dl_resources l) = rr_placed ?off (?vs @ ws)"
      unfolding placed by (simp add: dropWhile_append)
    then have look: "take (unat (counts ps t)) (dropWhile (\<lambda>e. fst e \<noteq> fst p) (dl_resources l))
        = rr_placed ?off (take (length ?vs mod 65536) ?vs)"
      using mod_less_eq_dividend [of "length ?vs" 65536] by (simp add: take_placed n)
    note f = find_placed [where name = name and ex = ex and off = ?off and ps = "take (length ?vs mod 65536) ?vs"]
    show ?thesis
    proof (cases "List.find (\<lambda>(_, r). name_matches name ex r) (rr_placed ?off (take (length ?vs mod 65536) ?vs))")
      case None
      with f show ?thesis by (simp add: getByName_def counted(1) [OF at] i look)
    next
      case (Some jr)
      obtain j r where jr: "jr = (j, r)" by (cases jr)
      with f Some obtain q where q: "List.find ?h (take (length ?vs mod 65536) ?vs) = Some q" "fst q = j" "dr_type r = kind q" by auto
      from find_in [OF q(1)] have "q \<in> set ?vs" by (blast dest: in_set_takeD)
      then have "dr_type r = t" using q(3) by simp
      then show ?thesis using Some jr q by (simp add: getByName_def counted(1) [OF at] i look)
    qed
  qed
qed

section \<open>Calls and what they do to the list\<close>

datatype dns_call = AddQuery string "16 word" "16 word"
  | AddRecord dns_resource_type string "16 word" "16 word" "32 word" dns_data
  | RemoveNamed dns_resource_type string bool
  | RenameNamed dns_resource_type string bool string
  | ChangeData dns_resource_type string bool dns_data
  | ChangeTTL dns_resource_type string bool "32 word"

definition on_named ::
    "dns_resource_type \<Rightarrow> string \<Rightarrow> bool \<Rightarrow> (nat \<Rightarrow> dns_layer \<Rightarrow> (dns_layer \<times> bool) outcome) \<Rightarrow> dns_layer \<Rightarrow> (dns_layer \<times> bool list) outcome" where
  "on_named t name exactMatch f l =
     bind_out (getByName t name exactMatch l) (\<lambda>i.
       case i of None \<Rightarrow> Inr (l, [False]) | Some j \<Rightarrow> bind_out (f j l) (\<lambda>(l', ok). Inr (l', [ok])))"

fun dns_turn :: "(nat \<Rightarrow> nat \<Rightarrow> byte) \<Rightarrow> (dns_layer, dns_call, bool) handler" where
  "dns_turn junk l (AddQuery name ty cl) = bind_out (addQuery junk name ty cl l) (\<lambda>(l', i). Inr (l', [i \<noteq> None]))"
| "dns_turn junk l (AddRecord t name ty cl ttl x) = bind_out (addRecord junk t name ty cl ttl (Some x) l) (\<lambda>(l', i). Inr (l', [i \<noteq> None]))"
| "dns_turn junk l (RemoveNamed t name ex) = bind_out (removeNamed t name ex l) (\<lambda>(l', ok). Inr (l', [ok]))"
| "dns_turn junk l (RenameNamed t name ex name') = on_named t name ex (\<lambda>i. setName junk i name') l"
| "dns_turn junk l (ChangeData t name ex x) = on_named t name ex (\<lambda>i. setData junk i (Some x)) l"
| "dns_turn junk l (ChangeTTL t name ex ttl) = on_named t name ex (\<lambda>i l. bind_out (setTTL i ttl l) (\<lambda>l'. Inr (l', True))) l"

text \<open>The calls that the library can carry out: plain names, data that fit the arrays, records that are no queries.\<close>

fun dns_ok :: "dns_call \<Rightarrow> bool" where
  "dns_ok (AddQuery name ty cl) \<longleftrightarrow> plain_name name"
| "dns_ok (AddRecord t name ty cl ttl x) \<longleftrightarrow> t \<noteq> DnsQueryType \<and> plain_name name \<and> data_ok x
     \<and> length (name_bytes name) + 10 + length (data_bytes x) \<le> 256"
| "dns_ok (RemoveNamed t name ex) \<longleftrightarrow> True"
| "dns_ok (RenameNamed t name ex name') \<longleftrightarrow> plain_name name'"
| "dns_ok (ChangeData t name ex x) \<longleftrightarrow> t \<noteq> DnsQueryType \<and> data_ok x"
| "dns_ok (ChangeTTL t name ex ttl) \<longleftrightarrow> t \<noteq> DnsQueryType"

text \<open>
  The specification: resources in the order of their kinds. A name is looked for among as many of a
  kind as the 16 bits of the header can count.
\<close>

fun at_first :: "('a \<Rightarrow> bool) \<Rightarrow> ('a \<Rightarrow> 'a list) \<Rightarrow> 'a list \<Rightarrow> 'a list" where
  "at_first P f [] = []"
| "at_first P f (x # xs) = (if P x then f x @ xs else x # at_first P f xs)"

definition insert_kind :: "dns_rr \<Rightarrow> dns_rr list \<Rightarrow> dns_rr list" where
  "insert_kind rr rs = takeWhile (\<lambda>r. rr_type r \<le> rr_type rr) rs @ rr # dropWhile (\<lambda>r. rr_type r \<le> rr_type rr) rs"

definition named_rr :: "dns_resource_type \<Rightarrow> string \<Rightarrow> bool \<Rightarrow> dns_rr \<Rightarrow> bool" where
  "named_rr t name ex rr \<longleftrightarrow> rr_type rr = t \<and> hit name ex rr"

definition look_up :: "dns_resource_type \<Rightarrow> string \<Rightarrow> bool \<Rightarrow> dns_rr list \<Rightarrow> dns_rr option" where
  "look_up t name ex rs = (let vs = filter (\<lambda>rr. rr_type rr = t) rs in List.find (hit name ex) (take (length vs mod 65536) vs))"

definition spec_change :: "dns_resource_type \<Rightarrow> string \<Rightarrow> bool \<Rightarrow> (dns_rr \<Rightarrow> bool) \<Rightarrow> (dns_rr \<Rightarrow> dns_rr list) \<Rightarrow> dns_rr list \<Rightarrow> dns_rr list \<times> bool list" where
  "spec_change t name ex allowed f rs =
     (case look_up t name ex rs of
        None \<Rightarrow> (rs, [False])
      | Some rr \<Rightarrow> if allowed rr then (at_first (named_rr t name ex) f rs, [True]) else (rs, [False]))"

fun dns_spec :: "dns_rr list \<Rightarrow> dns_call \<Rightarrow> dns_rr list \<times> bool list" where
  "dns_spec rs (AddQuery name ty cl) = (insert_kind (rr_query name ty cl) rs, [True])"
| "dns_spec rs (AddRecord t name ty cl ttl x) =
     (if data_matches ty x then (insert_kind (rr_record t name ty cl ttl x) rs, [True]) else (rs, [False]))"
| "dns_spec rs (RemoveNamed t name ex) = spec_change t name ex (\<lambda>_. True) (\<lambda>_. []) rs"
| "dns_spec rs (RenameNamed t name ex name') =
     spec_change t name ex (\<lambda>_. True) (\<lambda>rr. [rr\<lparr>rr_name := name', rr_nameBytes := name_bytes name'\<rparr>]) rs"
| "dns_spec rs (ChangeData t name ex x) =
     spec_change t name ex (\<lambda>rr. data_matches (rr_dnsType rr) x) (\<lambda>rr. [rr\<lparr>rr_data := data_bytes x\<rparr>]) rs"
| "dns_spec rs (ChangeTTL t name ex ttl) = spec_change t name ex (\<lambda>_. True) (\<lambda>rr. [rr\<lparr>rr_ttl := ttl\<rparr>]) rs"

definition plain_rr :: "dns_rr \<Rightarrow> bool" where
  "plain_rr rr \<longleftrightarrow> plain_name (rr_name rr) \<and> rr_nameBytes rr = name_bytes (rr_name rr)"

definition dns_rel :: "byte list \<Rightarrow> byte list \<Rightarrow> dns_layer \<Rightarrow> dns_rr list \<Rightarrow> bool" where
  "dns_rel pre tail l rs \<longleftrightarrow> (\<exists>ps. dns_is pre ps tail l \<and> rs = map snd ps) \<and> list_all plain_rr rs"

section \<open>The message refines the list\<close>

lemma at_first_split: "\<forall>x \<in> set us. \<not> P x \<Longrightarrow> P v \<Longrightarrow> at_first P f (us @ v # ws) = us @ f v @ ws"
  by (induction us) auto

lemma find_split:
  "List.find H (take n (filter P xs)) = Some v \<Longrightarrow> \<exists>us ws. xs = us @ v # ws \<and> P v \<and> H v \<and> (\<forall>x \<in> set us. \<not> (P x \<and> H x))"
proof (induction xs arbitrary: n)
  case (Cons x xs)
  show ?case
  proof (cases "P x \<and> H x")
    case True
    then have "v = x" using Cons.prems by (cases n) auto
    then show ?thesis using True by (auto intro: exI [of _ "[]"])
  next
    case False
    have "\<exists>m. List.find H (take m (filter P xs)) = Some v" using Cons.prems False by (cases n) (auto split: if_splits)
    then obtain us ws where "xs = us @ v # ws" "P v" "H v" "\<forall>x \<in> set us. \<not> (P x \<and> H x)" using Cons.IH by blast
    then show ?thesis using False by - (rule exI [of _ "x # us"], auto)
  qed
qed simp

lemma find_map_snd: "List.find H (map snd xs) = map_option snd (List.find (\<lambda>p. H (snd p)) xs)"
  by (induction xs) auto

lemma looked_up:
  assumes "dns_is pre ps tail l"
  shows "(look_up t name ex (map snd ps) = None \<and> getByName t name ex l = Inr None)
    \<or> (\<exists>us i rr ws. ps = us @ (i, rr) # ws \<and> rr_type rr = t \<and> look_up t name ex (map snd ps) = Some rr \<and> getByName t name ex l = Inr (Some i)
        \<and> (\<forall>f. at_first (named_rr t name ex) f (map snd ps) = map snd us @ f rr @ map snd ws))"
proof -
  let ?P = "\<lambda>p. kind p = t" and ?H = "\<lambda>p. hit name ex (snd p)"
  let ?found = "List.find ?H (take (length (filter ?P ps) mod 65536) (filter ?P ps))"
  have "filter (\<lambda>rr. rr_type rr = t) (map snd ps) = map snd (filter ?P ps)" by (simp add: filter_map comp_def kind_def)
  then have look: "look_up t name ex (map snd ps) = map_option snd ?found"
    by (simp add: look_up_def Let_def take_map find_map_snd)
  show ?thesis
  proof (cases ?found)
    case None
    then show ?thesis using look found_by_name [OF assms, of t name ex] by simp
  next
    case (Some q)
    from find_split [OF this] obtain us ws where q: "ps = us @ q # ws" "kind q = t" "hit name ex (snd q)"
        "\<forall>p \<in> set us. \<not> (kind p = t \<and> hit name ex (snd p))" by blast
    have "at_first (named_rr t name ex) f (map snd ps) = map snd us @ f (snd q) @ map snd ws" for f
      using at_first_split [of "map snd us" "named_rr t name ex" "snd q" f "map snd ws"] q by (auto simp: named_rr_def kind_def)
    then show ?thesis
      using q Some look found_by_name [OF assms, of t name ex]
      by (intro disjI2 exI [of _ us] exI [of _ "fst q"] exI [of _ "snd q"] exI [of _ ws]) (simp add: kind_def)
  qed
qed

lemma changed_rel:
  assumes rel: "dns_rel pre tail l rs"
    and change: "\<And>us i rr ws. dns_is pre (us @ (i, rr) # ws) tail l \<Longrightarrow> rr_type rr = t \<Longrightarrow> plain_rr rr
      \<Longrightarrow> if allowed rr then list_all plain_rr (f rr) \<and> (\<exists>l' xs. g i l = Inr (l', True) \<and> dns_is pre (us @ xs @ ws) tail l' \<and> map snd xs = f rr)
           else g i l = Inr (l, False)"
  shows "\<exists>l' os. on_named t name ex g l = Inr (l', os) \<and> dns_rel pre tail l' (fst (spec_change t name ex allowed f rs))
    \<and> os = snd (spec_change t name ex allowed f rs)"
proof -
  from rel obtain ps where ps: "dns_is pre ps tail l" "rs = map snd ps" "list_all plain_rr rs" by (auto simp: dns_rel_def)
  from looked_up [OF ps(1), of t name ex] show ?thesis
  proof
    assume "look_up t name ex (map snd ps) = None \<and> getByName t name ex l = Inr None"
    then show ?thesis using rel ps(2) by (simp add: spec_change_def on_named_def)
  next
    assume "\<exists>us i rr ws. ps = us @ (i, rr) # ws \<and> rr_type rr = t \<and> look_up t name ex (map snd ps) = Some rr \<and> getByName t name ex l = Inr (Some i)
        \<and> (\<forall>f. at_first (named_rr t name ex) f (map snd ps) = map snd us @ f rr @ map snd ws)"
    then obtain us i rr ws where s: "ps = us @ (i, rr) # ws" "rr_type rr = t" "look_up t name ex rs = Some rr" "getByName t name ex l = Inr (Some i)"
        "at_first (named_rr t name ex) f rs = map snd us @ f rr @ map snd ws" using ps(2) by auto
    have plain: "plain_rr rr" using ps(2,3) s(1) by simp
    show ?thesis
    proof (cases "allowed rr")
      case True
      with change [of us i rr ws] ps(1) s(1,2) plain obtain l' xs where
        c: "list_all plain_rr (f rr)" "g i l = Inr (l', True)" "dns_is pre (us @ xs @ ws) tail l'" "map snd xs = f rr" by auto
      have "dns_rel pre tail l' (map snd us @ f rr @ map snd ws)"
        unfolding dns_rel_def using c ps(2,3) s(1) by (intro conjI exI [of _ "us @ xs @ ws"]) simp_all
      then show ?thesis using s c(2) True by (simp add: spec_change_def on_named_def)
    next
      case False
      with change [of us i rr ws] ps(1) s(1,2) plain have "g i l = Inr (l, False)" by simp
      then show ?thesis using s(3,4) False rel by (simp add: spec_change_def on_named_def)
    qed
  qed
qed


lemma insert_kind_split:
  "insert_kind rr (map snd ps) = map snd (upto_kind (rr_type rr) ps @ (i, rr) # behind_kind (rr_type rr) ps)"
  by (simp add: insert_kind_def upto_kind_def behind_kind_def takeWhile_map dropWhile_map comp_def kind_def)

lemma plain_inserted: "list_all plain_rr (insert_kind rr rs) \<longleftrightarrow> plain_rr rr \<and> list_all plain_rr rs"
  unfolding insert_kind_def by (metis list.pred_inject(2) list_all_append takeWhile_dropWhile_id)

lemma dns_turn_matched:
  assumes rel: "dns_rel pre tail l rs" and ok: "dns_ok call"
  shows "\<exists>l' os. dns_turn junk l call = Inr (l', os) \<and> dns_rel pre tail l' (fst (dns_spec rs call)) \<and> os = snd (dns_spec rs call)"
proof (cases call)
  case (AddQuery name ty cl)
  from rel obtain ps where ps: "dns_is pre ps tail l" "rs = map snd ps" "list_all plain_rr rs" by (auto simp: dns_rel_def)
  let ?rr = "rr_query name ty cl"
  have name: "plain_name name" using ok AddQuery by simp
  obtain l' where l': "addQuery junk name ty cl l = Inr (l', Some (dl_fresh l))"
    "dns_is pre (upto_kind DnsQueryType ps @ (dl_fresh l, ?rr) # behind_kind DnsQueryType ps) tail l'"
    using query_added [OF ps(1) name] by blast
  have q: "rr_type ?rr = DnsQueryType" "plain_rr ?rr" using name by (simp_all add: rr_query_def plain_rr_def)
  have "dns_rel pre tail l' (insert_kind ?rr rs)"
    unfolding dns_rel_def plain_inserted using l'(2) ps(2,3) q insert_kind_split [of ?rr ps "dl_fresh l"] by metis
  then show ?thesis using AddQuery l'(1) by simp
next
  case (AddRecord t name ty cl ttl x)
  from rel obtain ps where ps: "dns_is pre ps tail l" "rs = map snd ps" "list_all plain_rr rs" by (auto simp: dns_rel_def)
  let ?rr = "rr_record t name ty cl ttl x"
  have prem: "plain_name name" "t \<noteq> DnsQueryType" "data_ok x" "length (name_bytes name) + 10 + length (data_bytes x) \<le> 256"
    using ok AddRecord by simp_all
  note added = record_added [OF ps(1) prem, of ty junk cl ttl]
  show ?thesis
  proof (cases "data_matches ty x")
    case True
    with added obtain l' where l': "addRecord junk t name ty cl ttl (Some x) l = Inr (l', Some (dl_fresh l))"
      "dns_is pre (upto_kind t ps @ (dl_fresh l, ?rr) # behind_kind t ps) tail l'" by auto
    have q: "rr_type ?rr = t" "plain_rr ?rr" using prem(1) by (simp_all add: rr_record_def plain_rr_def)
    have "dns_rel pre tail l' (insert_kind ?rr rs)"
      unfolding dns_rel_def plain_inserted using l'(2) ps(2,3) q insert_kind_split [of ?rr ps "dl_fresh l"] by metis
    then show ?thesis using AddRecord True l'(1) by simp
  next
    case False
    then show ?thesis using AddRecord added rel by simp
  qed
next
  case (RemoveNamed t name ex)
  have turn: "dns_turn junk l call = on_named t name ex (\<lambda>i. removeCounted t (Some i)) l"
    unfolding RemoveNamed dns_turn.simps removeNamed_def on_named_def
    by (cases "getByName t name ex l") (auto split: option.splits)
  show ?thesis unfolding turn unfolding RemoveNamed dns_spec.simps
  proof (rule changed_rel [OF rel])
    fix us i rr ws
    assume "dns_is pre (us @ (i, rr) # ws) tail l" and t: "rr_type rr = t"
    from resource_removed [OF this(1)] obtain l' where "removeCounted t (Some i) l = Inr (l', True)" "dns_is pre (us @ [] @ ws) tail l'"
      unfolding t by auto
    then show "if True then list_all plain_rr [] \<and> (\<exists>l' xs. removeCounted t (Some i) l = Inr (l', True) \<and> dns_is pre (us @ xs @ ws) tail l' \<and> map snd xs = [])
        else removeCounted t (Some i) l = Inr (l, False)" by auto
  qed
next
  case (RenameNamed t name ex name')
  have name: "plain_name name'" using ok RenameNamed by simp
  show ?thesis unfolding RenameNamed dns_turn.simps dns_spec.simps
  proof (rule changed_rel [OF rel])
    fix us i rr ws
    assume l: "dns_is pre (us @ (i, rr) # ws) tail l"
    let ?rr = "rr\<lparr>rr_name := name', rr_nameBytes := name_bytes name'\<rparr>"
    from name_set [OF l name] obtain l' where "setName junk i name' l = Inr (l', True)" "dns_is pre (us @ [(i, ?rr)] @ ws) tail l'" by auto
    then show "if True then list_all plain_rr [?rr] \<and> (\<exists>l' xs. setName junk i name' l = Inr (l', True) \<and> dns_is pre (us @ xs @ ws) tail l' \<and> map snd xs = [?rr])
        else setName junk i name' l = Inr (l, False)" using name by (auto simp: plain_rr_def intro: exI [of _ "[(i, ?rr)]"])
  qed
next
  case (ChangeData t name ex x)
  have x: "data_ok x" "t \<noteq> DnsQueryType" using ok ChangeData by simp_all
  show ?thesis unfolding ChangeData dns_turn.simps dns_spec.simps
  proof (rule changed_rel [OF rel])
    fix us i rr ws
    assume l: "dns_is pre (us @ (i, rr) # ws) tail l" and t: "rr_type rr = t" and plain: "plain_rr rr"
    let ?rr = "rr\<lparr>rr_data := data_bytes x\<rparr>"
    have q: "rr_type rr \<noteq> DnsQueryType" using t x(2) by simp
    have "\<exists>l' xs. setData junk i (Some x) l = Inr (l', True) \<and> dns_is pre (us @ xs @ ws) tail l' \<and> map snd xs = [?rr]" if "data_matches (rr_dnsType rr) x"
    proof -
      from data_set [OF l q x(1), of junk] that obtain l' where
        "setData junk i (Some x) l = Inr (l', True)" "dns_is pre (us @ [(i, ?rr)] @ ws) tail l'" by auto
      then show ?thesis by (intro exI [of _ l'] exI [of _ "[(i, ?rr)]"]) simp
    qed
    then show "if data_matches (rr_dnsType rr) x
        then list_all plain_rr [?rr] \<and> (\<exists>l' xs. setData junk i (Some x) l = Inr (l', True) \<and> dns_is pre (us @ xs @ ws) tail l' \<and> map snd xs = [?rr])
        else setData junk i (Some x) l = Inr (l, False)" using plain data_set [OF l q x(1), of junk] by (auto simp: plain_rr_def)
  qed
next
  case (ChangeTTL t name ex ttl)
  have t': "t \<noteq> DnsQueryType" using ok ChangeTTL by simp
  show ?thesis unfolding ChangeTTL dns_turn.simps dns_spec.simps
  proof (rule changed_rel [OF rel])
    fix us i rr ws
    assume l: "dns_is pre (us @ (i, rr) # ws) tail l" and t: "rr_type rr = t" and plain: "plain_rr rr"
    let ?rr = "rr\<lparr>rr_ttl := ttl\<rparr>" and ?g = "\<lambda>i l. bind_out (setTTL i ttl l) (\<lambda>l'. Inr (l', True))"
    have q: "rr_type rr \<noteq> DnsQueryType" using t t' by simp
    from fixed_set(4) [OF l q, of ttl] obtain l' where "setTTL i ttl l = Inr l'" "dns_is pre (us @ [(i, ?rr)] @ ws) tail l'" by auto
    then show "if True then list_all plain_rr [?rr] \<and> (\<exists>l' xs. ?g i l = Inr (l', True) \<and> dns_is pre (us @ xs @ ws) tail l' \<and> map snd xs = [?rr])
        else ?g i l = Inr (l, False)" using plain by (auto simp: plain_rr_def intro: exI [of _ "[(i, ?rr)]"])
  qed
qed

interpretation dns: simulation "dns_turn junk" dns_spec "dns_rel pre tail" "\<lambda>os. os" dns_ok
  by unfold_locales (use dns_turn_matched in \<open>auto simp del: dns_turn.simps dns_spec.simps\<close>)


section \<open>What a message holds\<close>









section \<open>Reading a message\<close>









section \<open>Messages that calls have built\<close>









end
