(* ===== verification/ContentLength.thy ===== *)
theory ContentLength
  imports HttpMessage
begin

text \<open>
  What the layers of HTTP and SIP messages share besides their fields (\<open>HttpLayer.cpp\<close>, \<open>SipLayer.cpp\<close>):
  the field \<open>Content-Length\<close>, read and set, and the text of a layer, which is its first line.
\<close>

section \<open>Numbers and texts\<close>

definition int_str :: "int \<Rightarrow> string" where
  "int_str k = (if k < 0 then CHR ''-'' # nat_str (nat (- k)) else nat_str (nat k))"

text \<open>\<open>atoi\<close>, which is \<open>strtol\<close>: its value is kept in the bounds of \<open>long\<close> and then cut to \<open>int\<close>.\<close>

definition atoi :: "string \<Rightarrow> int" where
  "atoi s =
     (let t = dropWhile is_space s;
          neg = (t \<noteq> [] \<and> hd t = CHR ''-'');
          u = (if t \<noteq> [] \<and> (hd t = CHR ''-'' \<or> hd t = CHR ''+'') then tl t else t);
          n = int (dec_value (takeWhile is_digit u));
          v = (if neg then - n else n)
      in signed_take_bit 31 (max (- (2 ^ 63)) (min (2 ^ 63 - 1) v)))"

text \<open>\<open>strncpy\<close> of \<open>n\<close> characters into an array that ends with a zero, read as a string.\<close>

definition strncpy_str :: "string \<Rightarrow> nat \<Rightarrow> string outcome" where
  "strncpy_str d n = (if n \<le> length d \<or> NUL \<in> set d then Inr (takeWhile (\<lambda>c. c \<noteq> NUL) (take n d)) else Inl OutOfBounds)"

definition line_text :: "nat \<Rightarrow> string \<Rightarrow> string outcome" where
  "line_text n d =
     (if n \<le> 120 then strncpy_str d n
      else bind_out (strncpy_str d 117) (\<lambda>s. Inr (if length s < 117 then s else s @ ''...'')))"

text \<open>\<open>toString\<close> of a layer, for the end of its first line; the one of HTTP responses has no check of the size.\<close>

definition checked_toString :: "string \<Rightarrow> nat \<Rightarrow> text_message \<Rightarrow> string outcome" where
  "checked_toString title firstLineEnd m =
     (if firstLineEnd \<le> 2 then Inr (title @ ''CORRUPT DATA'')
      else bind_out (lay_data m) (\<lambda>d. bind_out (line_text (firstLineEnd - 2) d) (\<lambda>s. Inr (title @ s))))"

definition unchecked_toString :: "string \<Rightarrow> nat \<Rightarrow> text_message \<Rightarrow> string outcome" where
  "unchecked_toString title firstLineEnd m =
     (if firstLineEnd = 0 then Inl (Uncaught ''bad_array_new_length'')
      else if firstLineEnd = 1 then Inl OutOfBounds
      else bind_out (lay_data m) (\<lambda>d. bind_out (line_text (firstLineEnd - 2) d) (\<lambda>s. Inr (title @ s))))"

section \<open>The length of the content\<close>

definition getContentLength :: "text_message \<Rightarrow> int outcome" where
  "getContentLength m =
     (case getFieldByName ''content-length'' 0 m of
        None \<Rightarrow> Inr 0
      | Some i \<Rightarrow> bind_out (find_field i m) (\<lambda>f. bind_out (lay_data m) (\<lambda>d. bind_out (getFieldValue f d) (\<lambda>v.
          Inr (atoi (takeWhile (\<lambda>c. c \<noteq> NUL) v))))))"

text \<open>\<open>setContentLength\<close>; \<open>ins\<close> is the function of the layer that inserts a name and a value behind a field.\<close>

definition setContentLength ::
    "(nat option \<Rightarrow> string \<Rightarrow> string \<Rightarrow> text_message \<Rightarrow> (text_message \<times> nat option) outcome) \<Rightarrow> (nat \<Rightarrow> char) \<Rightarrow> int \<Rightarrow> string
       \<Rightarrow> text_message \<Rightarrow> (text_message \<times> nat option) outcome" where
  "setContentLength ins junk contentLength prevFieldName m =
     (case getFieldByName ''Content-Length'' 0 m of
        None \<Rightarrow> ins (getFieldByName prevFieldName 0 m) ''Content-Length'' (int_str contentLength) m
      | Some i \<Rightarrow> bind_out (setFieldValue junk i (int_str contentLength) m) (\<lambda>(m', _). Inr (m', Some i)))"

definition sip_insertField_values ::
    "(nat \<Rightarrow> char) \<Rightarrow> nat option \<Rightarrow> string \<Rightarrow> string \<Rightarrow> text_message \<Rightarrow> (text_message \<times> nat option) outcome" where
  "sip_insertField_values junk prev fieldName fieldValue m = insertField junk prev (initNewField (CHR '':'') True fieldName fieldValue) m"

definition http_setContentLength :: "(nat \<Rightarrow> char) \<Rightarrow> int \<Rightarrow> string \<Rightarrow> text_message \<Rightarrow> (text_message \<times> nat option) outcome" where
  "http_setContentLength junk = setContentLength (http_insertField_values junk) junk"

definition sip_setContentLength :: "(nat \<Rightarrow> char) \<Rightarrow> int \<Rightarrow> string \<Rightarrow> text_message \<Rightarrow> (text_message \<times> nat option) outcome" where
  "sip_setContentLength junk = setContentLength (sip_insertField_values junk) junk"

definition sip_computeCalculateFields :: "(nat \<Rightarrow> char) \<Rightarrow> text_message \<Rightarrow> text_message outcome" where
  "sip_computeCalculateFields junk m =
     (if getFieldByName ''Content-Length'' 0 m = None then Inr m
      else bind_out (text_getHeaderLen m) (\<lambda>headerLen.
        if m_DataLen m > headerLen then
          bind_out (getContentLength m) (\<lambda>currentContentLength.
            if currentContentLength \<noteq> int (m_DataLen m - headerLen)
            then bind_out (sip_setContentLength junk (int (m_DataLen m - headerLen)) [] m) (\<lambda>(m', _). Inr m')
            else Inr m)
        else Inr m))"

section \<open>Reading what was set\<close>

lemma atoi_nat_str [simp]: "int n < 2 ^ 31 \<Longrightarrow> atoi (nat_str n) = int n"
proof -
  assume n: "int n < 2 ^ 31"
  obtain c cs where s: "nat_str n = c # cs" by (cases "nat_str n") auto
  then have "is_digit c" using nat_str_digits [of c n] by simp
  moreover have "takeWhile is_digit cs = cs" using nat_str_digits [of _ n] by (simp add: s)
  moreover have "signed_take_bit 31 (int n) = int n" using n by (intro signed_take_bit_int_eq_self) simp_all
  ultimately show ?thesis
    using n digit_not_sign [of c] dec_value_nat_str [of n] by (simp add: atoi_def s Let_def del: takeWhile_eq_all_conv)
qed

lemma nat_str_clean: "takeWhile (\<lambda>c. c \<noteq> NUL) (nat_str n) = nat_str n"
  using nat_str_digits [of NUL n] by (auto simp: takeWhile_eq_all_conv is_digit_def)

lemma lower_content_length: "getFieldByName ''content-length'' k m = getFieldByName ''Content-Length'' k m"
proof -
  have "map tolower ''content-length'' = map tolower ''Content-Length''" by code_simp
  then show ?thesis by (simp only: getFieldByName_def)
qed

lemma length_read:
  assumes "message_is line (ps @ (i, nf) # qs) body m" "getFieldByName ''Content-Length'' 0 m = Some i"
  shows "getContentLength m = Inr (atoi (takeWhile (\<lambda>c. c \<noteq> NUL) (nf_value nf)))"
  using message_field(1,2,4) [OF assms(1)] assms(2) by (simp add: getContentLength_def lower_content_length)

lemma length_set:
  assumes m: "message_is line (ps @ (i, nf) # qs) body m" "getFieldByName ''Content-Length'' 0 m = Some i" "hf_value nf \<noteq> None"
    and n: "int n < 2 ^ 31"
  shows "\<exists>m'. setContentLength ins junk (int n) prev m = Inr (m', Some i)
    \<and> message_is line (ps @ (i, with_value (nat_str n) nf) # qs) body m' \<and> getContentLength m' = Inr (int n)"
proof -
  from m(3) obtain v k where "hf_value nf = Some (v, k)" by auto
  from field_set [OF m(1) this, of junk "nat_str n"] obtain m' where
    1: "setFieldValue junk i (nat_str n) m = Inr (m', True)" "message_is line (ps @ (i, with_value (nat_str n) nf) # qs) body m'"
      "tm_names m' = tm_names m" by blast
  have "getFieldByName ''Content-Length'' 0 m' = Some i" using m(2) 1(3) by (simp add: getFieldByName_def)
  moreover have "nf_value (with_value (nat_str n) nf) = nat_str n" using with_value_ok(3) [OF message_field(9) [OF m(1)] m(3)] .
  ultimately have "getContentLength m' = Inr (int n)" using length_read [OF 1(2)] n by (simp add: nat_str_clean)
  then show ?thesis using 1 m(2) by (simp add: setContentLength_def int_str_def)
qed

text \<open>The text of a field around its value.\<close>

lemma value_parts:
  assumes "field_ok nf" "hf_value nf \<noteq> None"
  shows "\<exists>x y. m_NewFieldData nf = x @ nf_value nf @ y \<and> (\<forall>w. m_NewFieldData (with_value w nf) = x @ w @ y)"
proof -
  from assms(2) obtain k n where v: "hf_value nf = Some (k, n)" by auto
  have "m_NewFieldData nf = take k (m_NewFieldData nf) @ nf_value nf @ drop (k + n) (m_NewFieldData nf)"
    by (metis append_take_drop_id drop_drop add.commute nf_value_def option.case(2) prod.case v)
  then show ?thesis using v by (intro exI [of _ "take k (m_NewFieldData nf)"] exI [of _ "drop (k + n) (m_NewFieldData nf)"])
    (simp add: with_value_def)
qed

section \<open>Properties\<close>

text \<open>
  C35. Before a SIP message is sent, its field for the length of the content is made right: when the
  message has a header with the field, the field has a value, and there is a body of less than 2 GB,
  the field reads as the length of the body afterwards. Of the bytes only those of the value of that
  field change: what stands in front of it, the first line and the fields before, and what stands
  behind it, the fields after it and the body, are as they were. Read field by field the message is
  as before but for that value, and the header still ends where the body begins.
\<close>

theorem sip_content_length:
  assumes "message_is line (ps @ [p]) body m" "getFieldByName ''Content-Length'' 0 m = Some i"
    and "find_field i m = Inr f" "hf_value f \<noteq> None" "body \<noteq> []" "int (length body) < 2 ^ 31"
  shows "\<exists>m' a n v w b pre post. sip_computeCalculateFields junk m = Inr m' \<and> getContentLength m' = Inr (int (length body))
    \<and> lay_data m = Inr (line @ pre @ v @ post @ body) \<and> lay_data m' = Inr (line @ pre @ w @ post @ body)
    \<and> contents m = Inr (a @ (n, v) # b) \<and> contents m' = Inr (a @ (n, w) # b) \<and> map tolower n = map tolower ''Content-Length''
    \<and> text_getHeaderLen m = Inr (m_DataLen m - length body) \<and> text_getHeaderLen m' = Inr (m_DataLen m' - length body)"
proof -
  from field_found [OF assms(1,2)] obtain us nf ws where ps: "ps @ [p] = us @ (i, nf) # ws" "map tolower (nf_name nf) = map tolower ''Content-Length''" .
  have m: "message_is line (us @ (i, nf) # ws) body m" using assms(1) ps(1) by simp
  have hl: "text_getHeaderLen m = Inr (m_DataLen m - length body)" using header_len [OF assms(1)] assms(1) by (simp add: message_is_def)
  have size: "m_DataLen m > m_DataLen m - length body" "m_DataLen m - (m_DataLen m - length body) = length body"
    using assms(1,5) by (simp_all add: message_is_def)
  have "f = attach (length line + length (texts us)) nf" using message_field(1) [OF m] assms(3) by simp
  then have v: "hf_value nf \<noteq> None" using assms(4) by (auto simp: attach_def header_field.defs)
  from value_parts [OF message_field(9) [OF m] v] obtain x y where
    xy: "m_NewFieldData nf = x @ nf_value nf @ y" "\<And>w. m_NewFieldData (with_value w nf) = x @ w @ y" by blast
  have bytes: "lay_data m = Inr (line @ (texts us @ x) @ nf_value nf @ (y @ texts ws) @ body)"
    using m xy(1) by (simp add: message_is_def lay_data_def)
  note before = contents_is [OF m]
  show ?thesis
  proof (cases "atoi (takeWhile (\<lambda>c. c \<noteq> NUL) (nf_value nf)) = int (length body)")
    case True
    then have g: "getContentLength m = Inr (int (length body))" using length_read [OF m assms(2)] by simp
    then have "sip_computeCalculateFields junk m = Inr m" using assms(2) hl size by (simp add: sip_computeCalculateFields_def)
    then show ?thesis using g before ps(2) hl bytes
      by (intro exI [of _ m] exI [of _ "map (name_value o snd) us"] exI [of _ "nf_name nf"] exI [of _ "nf_value nf"] exI [of _ "map (name_value o snd) ws"]
          exI [of _ "texts us @ x"] exI [of _ "y @ texts ws"]) (simp add: name_value_def)
  next
    case False
    let ?w = "nat_str (length body)"
    obtain m' where s: "sip_setContentLength junk (int (length body)) [] m = Inr (m', Some i)"
        "message_is line (us @ (i, with_value ?w nf) # ws) body m'" "getContentLength m' = Inr (int (length body))"
      using length_set [OF m assms(2) v assms(6), of "sip_insertField_values junk" junk "[]"] unfolding sip_setContentLength_def by blast
    have "sip_computeCalculateFields junk m = Inr m'"
      using assms(2) hl size False s(1) length_read [OF m assms(2)] by (simp add: sip_computeCalculateFields_def)
    moreover have "name_value (with_value ?w nf) = (nf_name nf, ?w)"
      using with_value_ok(2,3) [OF message_field(9) [OF m]] v by (simp add: name_value_def)
    moreover have "text_getHeaderLen m' = Inr (m_DataLen m' - length body)"
    proof -
      obtain qs q where "us @ (i, with_value ?w nf) # ws = qs @ [q]" by (metis append_is_Nil_conv list.distinct(1) rev_exhaust)
      then show ?thesis using header_len [of line qs q body m'] s(2) by (simp add: message_is_def)
    qed
    moreover have "lay_data m' = Inr (line @ (texts us @ x) @ ?w @ (y @ texts ws) @ body)"
      using s(2) xy(2) by (simp add: message_is_def lay_data_def)
    ultimately show ?thesis using s(3) before contents_is [OF s(2)] ps(2) bytes hl
      by (intro exI [of _ m'] exI [of _ "map (name_value o snd) us"] exI [of _ "nf_name nf"] exI [of _ "nf_value nf"]
          exI [of _ ?w] exI [of _ "map (name_value o snd) ws"] exI [of _ "texts us @ x"] exI [of _ "y @ texts ws"]) (simp add: name_value_def)
  qed
qed

theorem sip_content_length_witness:
  "\<exists>m m'. parseFields (CHR '':'') True (text_message_new (''x'' @ ''Content-Length: 9'' @ [CR, LF, CR, LF] @ ''ab'') 1) = Inr m
     \<and> sip_computeCalculateFields (\<lambda>_. NUL) m = Inr m' \<and> getContentLength m' = Inr 2"
proof -
  let ?nvs = "[(''Content-Length'', ''9'')]"
  let ?nf = "initNewField (CHR '':'') True ''Content-Length'' ''9''" and ?e = "end_field (CHR '':'') True"
  have "list_all (plain_field (CHR '':'') True) ?nvs" by (simp add: plain_field_def)
  from parseFields_written [OF this, of "''x''" "''ab''"] obtain m where
    m: "parseFields (CHR '':'') True (text_message_new (''x'' @ written [?nf, ?e] @ ''ab'') 1) = Inr m"
      "message_is ''x'' ([(0, ?nf)] @ [(1, ?e)]) ''ab'' m" "tm_names m = [entry (0, ?nf), entry (1, ?e)]" by auto
  have "written [?nf, ?e] = ''Content-Length: 9'' @ [CR, LF, CR, LF]" by (simp add: initNewField_def)
  with m(1) have 1: "parseFields (CHR '':'') True (text_message_new (''x'' @ ''Content-Length: 9'' @ [CR, LF, CR, LF] @ ''ab'') 1) = Inr m"
    by simp
  have "nf_name ?nf = ''Content-Length''" by (rule init_ok(2)) simp
  then have 2: "getFieldByName ''Content-Length'' 0 m = Some 0" by (simp add: getFieldByName_def m(3) entry_def)
  have "find_field 0 m = Inr (attach 1 ?nf)" using message_field(1) [of "''x''" "[]" 0 ?nf "[(1, ?e)]" "''ab''" m] m(2) by simp
  moreover have "hf_value (attach 1 ?nf) \<noteq> None" by (simp add: attach_def header_field.defs initNewField_def)
  ultimately show ?thesis using sip_content_length [OF m(2) 2, of _ "\<lambda>_. NUL"] 1 by fastforce
qed

text \<open>
  C36. The length of the content cannot be set on a message whose header is complete when it has no such
  field and no other field is named: the name that is not given is the name of the end of the header,
  behind which nothing may be inserted. So it is in HTTP responses and in SIP messages.
\<close>

theorem content_length_refused:
  assumes "message_is line ps body m" "\<exists>p \<in> set ps. nf_name (snd p) = []" "\<not> has ''Content-Length'' (pairs ps)"
  shows "sip_setContentLength junk n [] m = Inr (m, None) \<and> http_setContentLength junk n [] m = Inr (m, None)"
proof -
  have none: "getFieldByName ''Content-Length'' k m = None" for k by (rule not_found(1) [OF assms(1,3)])
  from assms(2) have "has [] (pairs ps)" by (auto simp: has_def name_value_def)
  then obtain j where j: "getFieldByName [] 0 m = Some j" using not_found(2) [OF assms(1)] by auto
  from field_found [OF assms(1) this] obtain us nf ws where ps: "ps = us @ (j, nf) # ws" "nf_name nf = []" by auto
  have ended: "insertField junk (Some j) new m = Inr (m, None)" for new
    using insert_ended [of line us j nf ws body m] assms(1) ps by simp
  let ?new = "initNewField (CHR '':'') True ''Content-Length'' (int_str n)"
  have "getFieldName ?new (m_NewFieldData ?new) = Inr ''Content-Length''"
    using new_read(1) [OF init_ok(1), of "''Content-Length''"] init_ok(2) [of "''Content-Length''"] by simp
  then show ?thesis using none j ended
    by (simp add: sip_setContentLength_def http_setContentLength_def setContentLength_def sip_insertField_values_def
        http_insertField_values_def http_insertField_def)
qed

theorem content_length_refused_witness:
  "\<exists>m. parseFields (CHR '':'') True (text_message_new (''x'' @ ''Host: a'' @ [CR, LF, CR, LF]) 1) = Inr m
     \<and> sip_setContentLength (\<lambda>_. NUL) 5 [] m = Inr (m, None)"
proof -
  let ?nvs = "[(''Host'', ''a'')]"
  let ?nfs = "new_fields (CHR '':'') True ?nvs @ [end_field (CHR '':'') True]"
  have "list_all (plain_field (CHR '':'') True) ?nvs" by (simp add: plain_field_def)
  from parseFields_written [OF this, of "''x''" "[]"] obtain m where
    m: "parseFields (CHR '':'') True (text_message_new (''x'' @ written ?nfs) 1) = Inr m" "message_is ''x'' (enumerate 0 ?nfs) [] m" by auto
  have w: "written ?nfs = ''Host: a'' @ [CR, LF, CR, LF]" by (simp add: initNewField_def)
  have e: "\<exists>p \<in> set (enumerate 0 ?nfs). nf_name (snd p) = []" by simp
  have "map tolower ''Host'' \<noteq> map tolower ''Content-Length''" by code_simp
  then have "\<not> has ''Content-Length'' (pairs (enumerate 0 ?nfs))" by (auto simp: has_def name_value_def init_ok(2))
  from content_length_refused [OF m(2) e this] m(1) show ?thesis unfolding w by blast
qed

end
