(* ===== verification/HttpStatus.thy ===== *)
theory HttpStatus
  imports ContentLength
begin

text \<open>
  The status line of an HTTP response that is changed, and the copies and texts of HTTP layers
  (\<open>HttpLayer.cpp\<close>: the setters of \<open>HttpResponseFirstLine\<close>, and \<open>HttpRequestLayer\<close> and
  \<open>HttpResponseLayer\<close>).
\<close>

section \<open>The status line\<close>

text \<open>
  The phrase stands behind \<open>HTTP/x.y nnn\<close> and a space; the end of the line may lack the carriage return.
  An end in front of the phrase gives a length that wraps.
\<close>

definition http_getStatusCodeString :: "http_response_line \<Rightarrow> string \<Rightarrow> string outcome" where
  "http_getStatusCodeString l d =
     (if rs_statusCode l = HttpStatusCodeUnknown then Inr []
      else if rs_firstLineEnd l < 2 then Inl OutOfBounds
      else bind_out (char_at d (rs_firstLineEnd l - 2)) (\<lambda>c.
        let statusStringEnd = (if c \<noteq> CR then rs_firstLineEnd l - 1 else rs_firstLineEnd l - 2)
        in if statusStringEnd < 13 then Inl (Uncaught ''length_error'') else bytes_at d 13 (statusStringEnd - 13)))"

definition http_setStatusCode ::
    "(nat \<Rightarrow> char) \<Rightarrow> nat \<Rightarrow> string \<Rightarrow> http_response_line \<times> text_message \<Rightarrow> ((http_response_line \<times> text_message) \<times> bool) outcome" where
  "http_setStatusCode junk newStatusCode statusCodeString lm =
     (let (l, m) = lm
      in if newStatusCode = HttpStatusCodeUnknown then Inr (lm, False)
         else if newStatusCode \<ge> length httpStatusCodeEnumToInt then Inl OutOfBounds
         else let new = (if statusCodeString = '''' then httpStatusCodeEnumToString ! newStatusCode else statusCodeString)
         in bind_out (lay_data m) (\<lambda>d. bind_out (http_getStatusCodeString l d) (\<lambda>old.
              let k = int (length new) - int (length old)
              in bind_out (resize_at junk 13 k m) (\<lambda>(m1, ok).
                   if \<not> ok then Inr (lm, False)
                   else bind_out (write_at 13 new (m1\<lparr>tm_fields := shiftFieldsOffset k (tm_fields m1)\<rparr>)) (\<lambda>m2.
                        bind_out (write_at 9 (take 3 (nat_str (httpStatusCodeEnumToInt ! newStatusCode))) m2) (\<lambda>m3.
                          Inr ((l\<lparr>rs_statusCode := newStatusCode, rs_firstLineEnd := nat (int (rs_firstLineEnd l) + k)\<rparr>, m3), True)))))))"

definition http_response_setVersion :: "http_version \<Rightarrow> http_response_line \<times> text_message \<Rightarrow> (http_response_line \<times> text_message) outcome" where
  "http_response_setVersion newVersion lm =
     (let (l, m) = lm
      in if newVersion = HttpVersionUnknown then Inr lm
         else bind_out (VersionEnumToString newVersion) (\<lambda>v. bind_out (write_at 5 v m) (\<lambda>m1. Inr (l\<lparr>rs_version := newVersion\<rparr>, m1))))"

section \<open>Layers\<close>

text \<open>A copy has the fields of the message copied, and reads its first line anew.\<close>

definition HttpRequestLayer_copy ::
    "(string \<Rightarrow> string \<Rightarrow> nat option) \<Rightarrow> http_request_line \<times> text_message \<Rightarrow> (http_request_line \<times> text_message) outcome" where
  "HttpRequestLayer_copy memmem other =
     bind_out (text_message_copy (snd other)) (\<lambda>m. bind_out (msg_data m) (\<lambda>d. bind_out (HttpRequestFirstLine_parse memmem d) (\<lambda>l. Inr (l, m))))"

definition HttpResponseLayer_copy :: "http_response_line \<times> text_message \<Rightarrow> (http_response_line \<times> text_message) outcome" where
  "HttpResponseLayer_copy other =
     bind_out (text_message_copy (snd other)) (\<lambda>m. bind_out (msg_data m) (\<lambda>d. bind_out (HttpResponseFirstLine_parse d) (\<lambda>l. Inr (l, m))))"

definition http_request_toString :: "http_request_line \<times> text_message \<Rightarrow> string outcome" where
  "http_request_toString lm = checked_toString ''HTTP request, '' (rq_firstLineEnd (fst lm)) (snd lm)"

definition http_response_toString :: "http_response_line \<times> text_message \<Rightarrow> string outcome" where
  "http_response_toString lm = unchecked_toString ''HTTP response, '' (rs_firstLineEnd (fst lm)) (snd lm)"

section \<open>Properties\<close>

lemma status_line_parts:
  assumes "HttpResponseFirstLine_build ve s str = Inr (l, line)"
  obtains v phrase where "VersionEnumToString ve = Inr v" "length v = 3" "s < 80"
    "line = (''HTTP/'' @ v @ '' '' @ nat_str (httpStatusCodeEnumToInt ! s) @ '' '') @ phrase @ [CR, LF]"
    "phrase = (if str = [] then httpStatusCodeEnumToString ! s else str)"
    "l = \<lparr>rs_version = ve, rs_statusCode = s, rs_firstLineEnd = length line, rs_isComplete = True\<rparr>"
proof -
  have "length v = 3" if "VersionEnumToString ve = Inr v" for v using that by (cases ve) auto
  then show thesis using assms that by (auto simp: HttpResponseFirstLine_build_def Let_def http_lengths split: if_splits)
qed

lemma status_number: "s < 80 \<Longrightarrow> length (nat_str (httpStatusCodeEnumToInt ! s)) = 3"
proof -
  assume "s < 80"
  then have "httpStatusCodeEnumToInt ! s \<in> set httpStatusCodeEnumToInt" by (simp add: http_lengths)
  then show ?thesis using http_numbers_three nat_str_three by (simp add: list_all_iff)
qed

lemma status_phrase: "s < 80 \<Longrightarrow> (if str = [] then httpStatusCodeEnumToString ! s else str) \<noteq> []"
  using http_phrases_checked nth_mem [of s httpStatusCodeEnumToString] by (auto simp: list_all_iff http_lengths)

text \<open>
  Setting the status of a response that was built gives the line that building it with this status
  gives, and keeps the fields and the body; only the place of the first field stays that of the old line.
\<close>

theorem http_status_rebuilt:
  assumes "HttpResponseFirstLine_build ve s str = Inr (l, line)" "HttpResponseFirstLine_build ve s' str' = Inr (l', line')"
    and "message_is line ps body m"
  shows "\<exists>m'. http_setStatusCode junk s' str' (l, m) = Inr ((l', m'), True)
    \<and> message_is line' ps body (m'\<lparr>tm_fieldsOffset := length line'\<rparr>) \<and> tm_fieldsOffset m' = length line"
proof -
  from status_line_parts [OF assms(1)] obtain v ph where
    p: "VersionEnumToString ve = Inr v" "length v = 3" "s < 80"
      "line = (''HTTP/'' @ v @ '' '' @ nat_str (httpStatusCodeEnumToInt ! s) @ '' '') @ ph @ [CR, LF]"
      "l = \<lparr>rs_version = ve, rs_statusCode = s, rs_firstLineEnd = length line, rs_isComplete = True\<rparr>" .
  from status_line_parts [OF assms(2)] obtain v' ph' where
    q': "VersionEnumToString ve = Inr v'" "s' < 80" "line' = (''HTTP/'' @ v' @ '' '' @ nat_str (httpStatusCodeEnumToInt ! s') @ '' '') @ ph' @ [CR, LF]"
      "ph' = (if str' = [] then httpStatusCodeEnumToString ! s' else str')"
      "l' = \<lparr>rs_version = ve, rs_statusCode = s', rs_firstLineEnd = length line', rs_isComplete = True\<rparr>" .
  have "v' = v" using p(1) q'(1) by simp
  note q = q'(2-5) [unfolded this]
  let ?c = "nat_str (httpStatusCodeEnumToInt ! s)" and ?c' = "nat_str (httpStatusCodeEnumToInt ! s')"
  let ?a = "''HTTP/'' @ v @ '' '' @ ?c @ '' ''" and ?k = "int (length ph') - int (length ph)"
  have len: "length ?c = 3" "length ?c' = 3" "length ?a = 13" using p(2) status_number [OF p(3)] status_number [OF q(1)] by simp_all
  have "ph' \<noteq> []" unfolding q(3) by (rule status_phrase [OF q(1)])
  from line_rewritten [OF assms(3) [unfolded p(4)] refl this, of junk, unfolded len(3) of_nat_numeral] obtain m1 m2 where
    r: "resize_at junk 13 ?k m = Inr (m1, True)" "write_at 13 ph' (m1\<lparr>tm_fields := shiftFieldsOffset ?k (tm_fields m1)\<rparr>) = Inr m2"
      "message_is (?a @ ph' @ [CR, LF]) ps body (m2\<lparr>tm_fieldsOffset := length (?a @ ph' @ [CR, LF])\<rparr>)" "tm_fieldsOffset m2 = length line"
    unfolding p(4) by blast
  let ?m3 = "m2\<lparr>m_Data := Some (line' @ texts ps @ body)\<rparr>"
  have "m_Data m2 = Some ((''HTTP/'' @ v @ '' '') @ ?c @ ('' '' @ ph' @ [CR, LF] @ texts ps @ body))" using r(3) by (simp add: message_is_def)
  from write_between [OF this, of ?c'] have w: "write_at 9 ?c' m2 = Inr ?m3" using len p(2) by (simp add: q(2))
  have "length line' = length (?a @ ph' @ [CR, LF])" using len by (simp add: q(2))
  then have is': "message_is line' ps body (?m3\<lparr>tm_fieldsOffset := length line'\<rparr>)" using r(3) by (simp add: message_is_def)
  let ?d = "line @ texts ps @ body"
  have d: "lay_data m = Inr ?d" using assms(3) by (simp add: message_is_def lay_data_def)
  have "?d ! (length line - 2) = CR" "length line - 2 < length ?d" using len by (simp_all add: p(4) nth_append)
  then have "char_at ?d (rs_firstLineEnd l - 2) = Inr CR" by (simp add: p(5))
  moreover have "bytes_at (?a @ ph @ [CR, LF] @ texts ps @ body) (length ?a) (length ph) = Inr ph" by (rule bytes_at_here) simp
  then have "bytes_at ?d 13 (length ph) = Inr ph" unfolding len(3) by (simp add: p(4))
  moreover have "s \<noteq> HttpStatusCodeUnknown" "\<not> rs_firstLineEnd l < 2" "rs_firstLineEnd l - 2 - 13 = length ph" "\<not> rs_firstLineEnd l - 2 < 13"
    using p(3) len by (simp_all add: p(4,5))
  ultimately have old: "http_getStatusCodeString l ?d = Inr ph" by (simp add: http_getStatusCodeString_def p(5))
  have "l\<lparr>rs_statusCode := s', rs_firstLineEnd := nat (int (rs_firstLineEnd l) + ?k)\<rparr> = l'" using len by (simp add: p(4,5) q(2,4))
  then have "http_setStatusCode junk s' str' (l, m) = Inr ((l', ?m3), True)"
    using q(1) len(2) by (simp add: http_setStatusCode_def d old q(3) [symmetric] r(1,2) w http_lengths Let_def)
  then show ?thesis using is' r(4) by auto
qed

theorem http_status_rebuilt_witness:
  "\<exists>l' l line m'. HttpResponseFirstLine_build OneDotOne Http200OK [] = Inr (l, line)
     \<and> http_setStatusCode (\<lambda>_. NUL) Http404NotFound ''No'' (l, text_message_new line (length line)) = Inr ((l', m'), True)
     \<and> m_Data m' = Some (''HTTP/1.1 404 No'' @ [CR, LF])"
proof -
  have "\<exists>l. HttpResponseFirstLine_build OneDotOne Http200OK [] = Inr (l, ''HTTP/1.1 200 OK'' @ [CR, LF])"
    "\<exists>l. HttpResponseFirstLine_build OneDotOne Http404NotFound ''No'' = Inr (l, ''HTTP/1.1 404 No'' @ [CR, LF])"
    by (simp_all add: HttpResponseFirstLine_build_def http_lengths httpStatusCodeEnumToInt_def httpStatusCodeEnumToString_def
        nat_str_three digit_chars Let_def)
  then obtain l l' where 1: "HttpResponseFirstLine_build OneDotOne Http200OK [] = Inr (l, ''HTTP/1.1 200 OK'' @ [CR, LF])"
      "HttpResponseFirstLine_build OneDotOne Http404NotFound ''No'' = Inr (l', ''HTTP/1.1 404 No'' @ [CR, LF])" by blast
  let ?line = "''HTTP/1.1 200 OK'' @ [CR, LF]"
  have "message_is ?line [] [] (text_message_new ?line (length ?line))" using new_message [of ?line "[]"] by simp
  from http_status_rebuilt [OF 1 this, of "\<lambda>_. NUL"] obtain m' where
    "http_setStatusCode (\<lambda>_. NUL) Http404NotFound ''No'' (l, text_message_new ?line (length ?line)) = Inr ((l', m'), True)"
    "message_is (''HTTP/1.1 404 No'' @ [CR, LF]) [] [] (m'\<lparr>tm_fieldsOffset := length (''HTTP/1.1 404 No'' @ [CR, LF])\<rparr>)" by blast
  with 1(1) show ?thesis by (intro exI [of _ l'] exI [of _ l] exI [of _ ?line] exI [of _ m']) (simp add: message_is_def)
qed

end
