(* ===== verification/SipMessage.thy ===== *)
theory SipMessage
  imports ContentLength SipFirstLine
begin

text \<open>
  SIP messages (\<open>SipLayer.cpp\<close>: \<open>SipRequestLayer\<close>, \<open>SipResponseLayer\<close> and the setters of their first
  lines): a first line of \<open>SipFirstLine\<close> with the fields of \<open>TextMessage\<close> behind it. Other than those of
  HTTP the setters move the place of the first field with the fields.
\<close>

section \<open>The request line\<close>

definition sip_setMethod ::
    "(nat \<Rightarrow> char) \<Rightarrow> sip_method \<Rightarrow> sip_request_line \<times> text_message \<Rightarrow> ((sip_request_line \<times> text_message) \<times> bool) outcome" where
  "sip_setMethod junk newMethod lm =
     (let (l, m) = lm
      in if newMethod = SipMethodUnknown then Inr (lm, False)
         else bind_out (SipMethodEnumToString newMethod) (\<lambda>new. bind_out (SipMethodEnumToString (sq_method l)) (\<lambda>old.
           let k = int (length new) - int (length old)
           in bind_out (resize_at junk 0 k m) (\<lambda>(m1, ok).
                if \<not> ok then Inr (lm, False)
                else bind_out (write_at 0 new (m1\<lparr>tm_fields := shiftFieldsOffset k (tm_fields m1),
                       tm_fieldsOffset := nat (int (tm_fieldsOffset m1) + k)\<rparr>)) (\<lambda>m2.
                     Inr ((l\<lparr>sq_method := newMethod, sq_uriOffset := sq_uriOffset l + k, sq_versionOffset := sq_versionOffset l + k,
                             sq_firstLineEnd := nat (int (sq_firstLineEnd l) + k)\<rparr>, m2), True))))))"

definition sip_setUri ::
    "(nat \<Rightarrow> char) \<Rightarrow> string \<Rightarrow> sip_request_line \<times> text_message \<Rightarrow> ((sip_request_line \<times> text_message) \<times> bool) outcome" where
  "sip_setUri junk newUri lm =
     (let (l, m) = lm
      in if newUri = [] then Inr (lm, False)
         else bind_out (lay_data m) (\<lambda>d.
           let k = int (length newUri) - int (length (sip_getUri l d))
           in bind_out (resize_at junk (sq_uriOffset l) k m) (\<lambda>(m1, ok).
                if \<not> ok then Inr (lm, False)
                else bind_out (write_at (nat (sq_uriOffset l)) newUri (m1\<lparr>tm_fields := shiftFieldsOffset k (tm_fields m1),
                       tm_fieldsOffset := nat (int (tm_fieldsOffset m1) + k)\<rparr>)) (\<lambda>m2.
                     Inr ((l\<lparr>sq_versionOffset := sq_versionOffset l + k, sq_firstLineEnd := nat (int (sq_firstLineEnd l) + k)\<rparr>, m2),
                          True)))))"

section \<open>The status line\<close>

definition sip_getStatusCodeAsInt :: "sip_response_line \<Rightarrow> nat outcome" where
  "sip_getStatusCodeAsInt l =
     (if ss_statusCode l < length sipStatusCodeEnumToInt then Inr (sipStatusCodeEnumToInt ! ss_statusCode l) else Inl OutOfBounds)"

definition sip_getStatusCodeString :: "sip_response_line \<Rightarrow> string \<Rightarrow> string outcome" where
  "sip_getStatusCodeString l d =
     (if ss_statusCode l = SipStatusCodeUnknown then Inr []
      else if ss_firstLineEnd l < 2 then Inl OutOfBounds
      else bind_out (char_at d (ss_firstLineEnd l - 2)) (\<lambda>c.
        let statusStringEnd = (if c \<noteq> CR then ss_firstLineEnd l - 1 else ss_firstLineEnd l - 2)
        in if statusStringEnd < 12 then Inl (Uncaught ''length_error'') else bytes_at d 12 (statusStringEnd - 12)))"

definition sip_setStatusCode ::
    "(nat \<Rightarrow> char) \<Rightarrow> nat \<Rightarrow> string \<Rightarrow> sip_response_line \<times> text_message \<Rightarrow> ((sip_response_line \<times> text_message) \<times> bool) outcome" where
  "sip_setStatusCode junk newStatusCode statusCodeString lm =
     (let (l, m) = lm
      in if newStatusCode = SipStatusCodeUnknown then Inr (lm, False)
         else if newStatusCode \<ge> length sipStatusCodeEnumToInt then Inl OutOfBounds
         else let new = (if statusCodeString = '''' then sipStatusCodeEnumToString ! newStatusCode else statusCodeString)
         in bind_out (lay_data m) (\<lambda>d. bind_out (sip_getStatusCodeString l d) (\<lambda>old.
              let k = int (length new) - int (length old)
              in bind_out (resize_at junk 12 k m) (\<lambda>(m1, ok).
                   if \<not> ok then Inr (lm, False)
                   else bind_out (write_at 12 new (m1\<lparr>tm_fields := shiftFieldsOffset k (tm_fields m1),
                          tm_fieldsOffset := nat (int (tm_fieldsOffset m1) + k)\<rparr>)) (\<lambda>m2.
                        bind_out (write_at 8 (take 3 (nat_str (sipStatusCodeEnumToInt ! newStatusCode))) m2) (\<lambda>m3.
                          Inr ((l\<lparr>ss_statusCode := newStatusCode, ss_firstLineEnd := nat (int (ss_firstLineEnd l) + k)\<rparr>, m3), True)))))))"

definition sip_response_setVersion :: "string \<Rightarrow> sip_response_line \<times> text_message \<Rightarrow> (sip_response_line \<times> text_message) outcome" where
  "sip_response_setVersion newVersion lm =
     (let (l, m) = lm
      in if newVersion = [] \<or> length newVersion \<noteq> length (ss_version l) then Inr lm
         else bind_out (write_at 0 newVersion m) (\<lambda>m1. Inr (l\<lparr>ss_version := newVersion\<rparr>, m1)))"

section \<open>Layers\<close>

definition SipRequestLayer_parse ::
    "(string \<Rightarrow> string \<Rightarrow> nat option) \<Rightarrow> string \<Rightarrow> (sip_request_line \<times> text_message) outcome" where
  "SipRequestLayer_parse memmem d =
     bind_out (SipRequestFirstLine_parse memmem d) (\<lambda>l.
     bind_out (parseFields (CHR '':'') True (text_message_new d (sq_firstLineEnd l))) (\<lambda>m. Inr (l, m)))"

definition SipRequestLayer_build :: "sip_method \<Rightarrow> string \<Rightarrow> string \<Rightarrow> (sip_request_line \<times> text_message) outcome" where
  "SipRequestLayer_build method requestUri version =
     bind_out (SipRequestFirstLine_build method version requestUri) (\<lambda>(l, d). Inr (l, text_message_new d (sq_firstLineEnd l)))"

definition SipRequestLayer_copy ::
    "(string \<Rightarrow> string \<Rightarrow> nat option) \<Rightarrow> sip_request_line \<times> text_message \<Rightarrow> (sip_request_line \<times> text_message) outcome" where
  "SipRequestLayer_copy memmem other =
     bind_out (text_message_copy (snd other)) (\<lambda>m. bind_out (msg_data m) (\<lambda>d. bind_out (SipRequestFirstLine_parse memmem d) (\<lambda>l. Inr (l, m))))"

definition sip_request_toString :: "sip_request_line \<times> text_message \<Rightarrow> string outcome" where
  "sip_request_toString lm = checked_toString ''SIP request, '' (sq_firstLineEnd (fst lm)) (snd lm)"

definition SipResponseLayer_parse :: "string \<Rightarrow> (sip_response_line \<times> text_message) outcome" where
  "SipResponseLayer_parse d =
     bind_out (SipResponseFirstLine_parse d) (\<lambda>l.
     bind_out (parseFields (CHR '':'') True (text_message_new d (ss_firstLineEnd l))) (\<lambda>m. Inr (l, m)))"

definition SipResponseLayer_build :: "nat \<Rightarrow> string \<Rightarrow> string \<Rightarrow> (sip_response_line \<times> text_message) outcome" where
  "SipResponseLayer_build statusCode statusCodeString sipVersion =
     bind_out (SipResponseFirstLine_build sipVersion statusCode statusCodeString) (\<lambda>(l, d). Inr (l, text_message_new d (ss_firstLineEnd l)))"

definition SipResponseLayer_copy :: "sip_response_line \<times> text_message \<Rightarrow> (sip_response_line \<times> text_message) outcome" where
  "SipResponseLayer_copy other =
     bind_out (text_message_copy (snd other)) (\<lambda>m. bind_out (msg_data m) (\<lambda>d. bind_out (SipResponseFirstLine_parse d) (\<lambda>l. Inr (l, m))))"

definition sip_response_toString :: "sip_response_line \<times> text_message \<Rightarrow> string outcome" where
  "sip_response_toString lm = checked_toString ''SIP response, '' (ss_firstLineEnd (fst lm)) (snd lm)"

section \<open>A part of the line written anew\<close>

text \<open>The fields and the place of the first one move with what stands in front of them.\<close>

lemma line_replaced:
  assumes m: "message_is (a @ old @ b) ps body m" and k: "k = int (length new) - int (length old)" and "new \<noteq> []"
  shows "\<exists>m1 m2. resize_at junk (int (length a)) k m = Inr (m1, True)
    \<and> write_at (length a) new (m1\<lparr>tm_fields := shiftFieldsOffset k (tm_fields m1), tm_fieldsOffset := nat (int (tm_fieldsOffset m1) + k)\<rparr>) = Inr m2
    \<and> message_is (a @ new @ b) ps body m2"
proof -
  from line_rewritten [OF assms, of junk] obtain m1 m2 where 1: "resize_at junk (int (length a)) k m = Inr (m1, True)"
    "write_at (length a) new (m1\<lparr>tm_fields := shiftFieldsOffset k (tm_fields m1)\<rparr>) = Inr m2"
    "message_is (a @ new @ b) ps body (m2\<lparr>tm_fieldsOffset := length (a @ new @ b)\<rparr>)" "tm_fieldsOffset m2 = length (a @ old @ b)" by blast
  let ?m = "m1\<lparr>tm_fields := shiftFieldsOffset k (tm_fields m1)\<rparr>"
  have "tm_fieldsOffset m1 = tm_fieldsOffset m2" using 1(2) by (auto simp: write_at_def split: sum.splits if_splits)
  then have off: "nat (int (tm_fieldsOffset m1) + k) = length (a @ new @ b)" using 1(4) k by simp
  have "write_at (length a) new (?m\<lparr>tm_fieldsOffset := n\<rparr>) = Inr (m2\<lparr>tm_fieldsOffset := n\<rparr>)" for n
    using 1(2) by (auto simp: write_at_def lay_data_def split: sum.splits if_splits option.splits)
  from this [of "length (a @ new @ b)"] 1(1,3) show ?thesis
    by (intro exI [of _ m1] exI [of _ "m2\<lparr>tm_fieldsOffset := length (a @ new @ b)\<rparr>"]) (simp add: off)
qed


lemma sip_request_parts:
  assumes "SipRequestFirstLine_build me ver uri = Inr (l, line)"
  obtains s where "SipMethodEnumToString me = Inr s" "s \<noteq> []" "line = (s @ '' '') @ uri @ '' '' @ ver @ [CR, LF]" "me \<noteq> SipMethodUnknown" "ver \<noteq> []"
    "l = \<lparr>sq_method = me, sq_version = ver, sq_uriOffset = int (length s + 1), sq_versionOffset = int (length s + 1 + length uri + 6),
        sq_firstLineEnd = length line, sq_isComplete = True\<rparr>"
proof -
  have "s \<noteq> []" if "SipMethodEnumToString me = Inr s" for s using that by (cases me) auto
  then show thesis using assms that by (auto simp: SipRequestFirstLine_build_def Let_def split: if_splits)
qed

lemma uri_replaced:
  assumes m: "message_is (a @ old @ b) ps body m" and "sq_uriOffset l = int (length a)"
    and "sip_getUri l ((a @ old @ b) @ texts ps @ body) = old" "new \<noteq> []"
  shows "\<exists>m'. sip_setUri junk new (l, m) = Inr ((l\<lparr>sq_versionOffset := sq_versionOffset l + (int (length new) - int (length old)),
      sq_firstLineEnd := nat (int (sq_firstLineEnd l) + (int (length new) - int (length old)))\<rparr>, m'), True) \<and> message_is (a @ new @ b) ps body m'"
proof -
  have d: "lay_data m = Inr ((a @ old @ b) @ texts ps @ body)" using m by (simp add: message_is_def lay_data_def)
  from line_replaced [OF m refl assms(4), of junk] obtain m1 m2 where
    1: "resize_at junk (int (length a)) (int (length new) - int (length old)) m = Inr (m1, True)"
      "write_at (length a) new (m1\<lparr>tm_fields := shiftFieldsOffset (int (length new) - int (length old)) (tm_fields m1),
         tm_fieldsOffset := nat (int (tm_fieldsOffset m1) + (int (length new) - int (length old)))\<rparr>) = Inr m2"
      "message_is (a @ new @ b) ps body m2" by blast
  then show ?thesis using assms(4) by (simp only: sip_setUri_def Let_def prod.case d assms(2,3) bind_out_simps nat_int 1(1,2) simp_thms if_False) simp
qed

lemma sip_uri_set_read:
  assumes "SipRequestFirstLine_build me (''SIP/'' @ v) uri = Inr (l, line)" "SipRequestFirstLine_build me (''SIP/'' @ v) uri' = Inr (l', line')"
    and "message_is line ps body m" "uri' \<noteq> []"
  shows "\<exists>m'. sip_setUri junk uri' (l\<lparr>sq_versionOffset := sq_versionOffset l - 5\<rparr>, m)
        = Inr ((l'\<lparr>sq_versionOffset := sq_versionOffset l' - 5\<rparr>, m'), True) \<and> message_is line' ps body m'"
proof -
  from sip_request_parts [OF assms(1)] obtain s where p: "SipMethodEnumToString me = Inr s" "line = (s @ '' '') @ uri @ '' '' @ (''SIP/'' @ v) @ [CR, LF]"
    "l = \<lparr>sq_method = me, sq_version = ''SIP/'' @ v, sq_uriOffset = int (length s + 1), sq_versionOffset = int (length s + 1 + length uri + 6),
        sq_firstLineEnd = length line, sq_isComplete = True\<rparr>" .
  from sip_request_parts [OF assms(2)] obtain s' where p': "SipMethodEnumToString me = Inr s'"
    "line' = (s' @ '' '') @ uri' @ '' '' @ (''SIP/'' @ v) @ [CR, LF]"
    "l' = \<lparr>sq_method = me, sq_version = ''SIP/'' @ v, sq_uriOffset = int (length s' + 1), sq_versionOffset = int (length s' + 1 + length uri' + 6),
        sq_firstLineEnd = length line', sq_isComplete = True\<rparr>" .
  have s: "s' = s" using p(1) p'(1) by simp
  let ?a = "s @ '' ''" and ?b = "'' '' @ (''SIP/'' @ v) @ [CR, LF]" and ?r = "texts ps @ body"
  let ?l = "l\<lparr>sq_versionOffset := sq_versionOffset l - 5\<rparr>"
  have off: "sq_uriOffset l = int (length ?a)" "sq_uriOffset ?l = int (length ?a)" by (simp_all add: p(3))
  have rest: "drop (length s + 1) ((?a @ uri @ t) @ ?r) = uri @ t @ ?r" for t by simp
  have "nat (sq_uriOffset ?l) = length s + 1" "nat (sq_versionOffset ?l - 1 - sq_uriOffset ?l) = length uri" "sq_uriOffset ?l \<noteq> -1" "sq_versionOffset ?l \<noteq> -1"
    by (simp_all add: p(3))
  then have u: "sip_getUri ?l ((?a @ uri @ ?b) @ ?r) = uri" by (simp only: sip_getUri_def rest simp_thms if_True) simp
  from uri_replaced [OF assms(3) [unfolded p(2)] off(2) u assms(4), of junk] obtain m' where
    1: "sip_setUri junk uri' (?l, m) = Inr ((?l\<lparr>sq_versionOffset := sq_versionOffset ?l + (int (length uri') - int (length uri)),
      sq_firstLineEnd := nat (int (sq_firstLineEnd ?l) + (int (length uri') - int (length uri)))\<rparr>, m'), True)" "message_is line' ps body m'"
    unfolding p'(2) s by blast
  have "?l\<lparr>sq_versionOffset := sq_versionOffset ?l + (int (length uri') - int (length uri)),
      sq_firstLineEnd := nat (int (sq_firstLineEnd ?l) + (int (length uri') - int (length uri)))\<rparr> = l'\<lparr>sq_versionOffset := sq_versionOffset l' - 5\<rparr>"
    by (simp add: p(2,3) p'(2,3) s)
  with 1 show ?thesis by auto
qed

lemma sip_uri_set_built:
  assumes "SipRequestFirstLine_build me (''SIP/'' @ v) uri = Inr (l, line)" "SipRequestFirstLine_build me (''SIP/'' @ v) uri' = Inr (l', line')"
    and "message_is line ps body m" "uri' \<noteq> []"
  shows "\<exists>l'' m''. sip_setUri junk uri' (l, m) = Inr ((l'', m''), True)
        \<and> lay_data m'' = Inr (take (nat (sq_uriOffset l) + length uri') line' @ v @ [CR, LF] @ texts ps @ body)"
proof -
  from sip_request_parts [OF assms(1)] obtain s where p: "SipMethodEnumToString me = Inr s" "line = (s @ '' '') @ uri @ '' '' @ (''SIP/'' @ v) @ [CR, LF]"
    "l = \<lparr>sq_method = me, sq_version = ''SIP/'' @ v, sq_uriOffset = int (length s + 1), sq_versionOffset = int (length s + 1 + length uri + 6),
        sq_firstLineEnd = length line, sq_isComplete = True\<rparr>" .
  from sip_request_parts [OF assms(2)] obtain s' where p': "SipMethodEnumToString me = Inr s'"
    "line' = (s' @ '' '') @ uri' @ '' '' @ (''SIP/'' @ v) @ [CR, LF]"
    "l' = \<lparr>sq_method = me, sq_version = ''SIP/'' @ v, sq_uriOffset = int (length s' + 1), sq_versionOffset = int (length s' + 1 + length uri' + 6),
        sq_firstLineEnd = length line', sq_isComplete = True\<rparr>" .
  have s: "s' = s" using p(1) p'(1) by simp
  let ?a = "s @ '' ''" and ?b = "'' '' @ (''SIP/'' @ v) @ [CR, LF]" and ?r = "texts ps @ body"
  let ?l = "l\<lparr>sq_versionOffset := sq_versionOffset l - 5\<rparr>"
  have off: "sq_uriOffset l = int (length ?a)" "sq_uriOffset ?l = int (length ?a)" by (simp_all add: p(3))
  let ?old = "uri @ '' SIP/''" and ?b' = "v @ [CR, LF]"
  have line: "line = ?a @ ?old @ ?b'" by (simp add: p(2))
  have "nat (sq_uriOffset l) = length s + 1" "nat (sq_versionOffset l - 1 - sq_uriOffset l) = length ?old" "sq_uriOffset l \<noteq> -1" "sq_versionOffset l \<noteq> -1"
    by (simp_all add: p(3))
  moreover have "drop (length s + 1) ((?a @ ?old @ ?b') @ ?r) = ?old @ ?b' @ ?r" by simp
  ultimately have "sip_getUri l ((?a @ ?old @ ?b') @ ?r) = ?old" by (simp only: sip_getUri_def simp_thms if_True) simp
  from uri_replaced [OF assms(3) [unfolded line] off(1) this assms(4), of junk] obtain l'' m'' where
    "sip_setUri junk uri' (l, m) = Inr ((l'', m''), True)" "message_is (?a @ uri' @ ?b') ps body m''" by blast
  moreover have "take (nat (sq_uriOffset l) + length uri') line' = ?a @ uri'"
  proof -
    have "nat (sq_uriOffset l) + length uri' = length (?a @ uri')" by (simp add: p(3))
    moreover have "line' = (?a @ uri') @ '' '' @ (''SIP/'' @ v) @ [CR, LF]" by (simp add: p'(2) s)
    moreover have "take (length x) (x @ y) = x" for x y :: string by simp
    ultimately show ?thesis by (simp only:)
  qed
  ultimately show ?thesis by (simp add: message_is_def lay_data_def)
qed

section \<open>Properties\<close>

text \<open>
  C34. The address of a request that was read is set as it should be: when the line of a request with
  an address without blanks is read with any text behind it, setting a new address gives the line
  of a request built with that address, with the same text behind it, the same fields, and a line
  read as that line would be. In a request that was built the address seems five characters longer
  than it is, since the version was placed too far, and these characters, a space and \<open>SIP/\<close>, are lost
  from the line. (The lines are shorter than 64 KB, the version begins with \<open>SIP/\<close> and holds no end of
  line, the text behind the line that is read is not empty and has no zero byte.)
\<close>

theorem sip_set_uri:
  assumes "SipRequestFirstLine_build me (''SIP/'' @ v) uri = Inr (l, line)" "SipRequestFirstLine_build me (''SIP/'' @ v) uri' = Inr (l', line')"
    and "memmem_documented mm" "CHR '' '' \<notin> set uri" "CHR '' '' \<notin> set uri'" "uri' \<noteq> []" "CR \<notin> set v" "LF \<notin> set v"
    and "length line < 65536" "length line' < 65536" "r \<noteq> []" "NUL \<notin> set r" "message_is line ps body mb"
  shows "(\<exists>lr m lr' m'. SipRequestLayer_parse mm (line @ r) = Inr (lr, m) \<and> sip_getUri lr (line @ r) = uri
        \<and> sip_setUri junk uri' (lr, m) = Inr ((lr', m'), True) \<and> lay_data m' = Inr (line' @ r) \<and> contents m' = contents m
        \<and> SipRequestFirstLine_parse mm (line' @ r) = Inr lr' \<and> sip_getUri lr' (line' @ r) = uri')
    \<and> (\<exists>l'' m''. sip_setUri junk uri' (l, mb) = Inr ((l'', m''), True)
        \<and> lay_data m'' = Inr (take (nat (sq_uriOffset l) + length uri') line' @ v @ [CR, LF] @ texts ps @ body))"
proof
  let ?l = "l\<lparr>sq_versionOffset := sq_versionOffset l - 5\<rparr>" and ?l' = "l'\<lparr>sq_versionOffset := sq_versionOffset l' - 5\<rparr>"
  note read = sip_request_reread [OF assms(3,1,4,7,8,9), of r] sip_request_reread [OF assms(3,2,5,7,8,10), of r]
  obtain m nfs bd where m: "parseFields (CHR '':'') True (text_message_new (line @ r) (length line)) = Inr m"
      "message_is line (enumerate 0 nfs) bd m" "r = texts (enumerate 0 nfs) @ bd"
    using parseFields_ok [OF assms(11,12), of "CHR '':''" True line] by auto
  have "sq_firstLineEnd l = length line" using assms(1) by (auto simp: SipRequestFirstLine_build_def Let_def split: if_splits)
  then have "SipRequestLayer_parse mm (line @ r) = Inr (?l, m)"
    using read(1) m(1) by (simp add: SipRequestLayer_parse_def)
  moreover obtain m' where "sip_setUri junk uri' (?l, m) = Inr ((?l', m'), True)" "message_is line' (enumerate 0 nfs) bd m'"
    using sip_uri_set_read [OF assms(1,2) m(2) assms(6), of junk] by blast
  moreover from calculation have "lay_data m' = Inr (line' @ r)" "contents m' = contents m"
    using m(3) contents_is [OF m(2)] contents_is [of line' "enumerate 0 nfs" bd m'] by (simp_all add: message_is_def lay_data_def)
  ultimately show "\<exists>lr m lr' m'. SipRequestLayer_parse mm (line @ r) = Inr (lr, m) \<and> sip_getUri lr (line @ r) = uri
        \<and> sip_setUri junk uri' (lr, m) = Inr ((lr', m'), True) \<and> lay_data m' = Inr (line' @ r) \<and> contents m' = contents m
        \<and> SipRequestFirstLine_parse mm (line' @ r) = Inr lr' \<and> sip_getUri lr' (line' @ r) = uri'"
    using read by blast
qed (rule sip_uri_set_built [OF assms(1,2,13,6)])

theorem sip_set_uri_witness:
  "(\<exists>l m m'. SipRequestLayer_parse (\<lambda>hay needle. str_find needle hay) (''BYE sip:a SIP/2.0'' @ [CR, LF] @ ''X:1'' @ [CR, LF]) = Inr (l, m)
     \<and> (\<exists>l'. sip_setUri (\<lambda>_. NUL) ''sip:bb'' (l, m) = Inr ((l', m'), True))
     \<and> lay_data m' = Inr (''BYE sip:bb SIP/2.0'' @ [CR, LF] @ ''X:1'' @ [CR, LF]))
   \<and> (\<exists>l m m'. SipRequestLayer_build SipBYE ''sip:a'' ''SIP/2.0'' = Inr (l, m)
     \<and> (\<exists>l'. sip_setUri (\<lambda>_. NUL) ''sip:bb'' (l, m) = Inr ((l', m'), True)) \<and> lay_data m' = Inr (''BYE sip:bb2.0'' @ [CR, LF]))"
proof -
  let ?line = "''BYE sip:a SIP/2.0'' @ [CR, LF]" and ?line' = "''BYE sip:bb SIP/2.0'' @ [CR, LF]" and ?r = "''X:1'' @ [CR, LF]"
  have "\<exists>l. SipRequestFirstLine_build SipBYE (''SIP/'' @ ''2.0'') ''sip:a'' = Inr (l, ?line)"
    "\<exists>l. SipRequestFirstLine_build SipBYE (''SIP/'' @ ''2.0'') ''sip:bb'' = Inr (l, ?line')"
    by (simp_all add: SipRequestFirstLine_build_def)
  then obtain l l' where 1: "SipRequestFirstLine_build SipBYE (''SIP/'' @ ''2.0'') ''sip:a'' = Inr (l, ?line)"
      "SipRequestFirstLine_build SipBYE (''SIP/'' @ ''2.0'') ''sip:bb'' = Inr (l', ?line')" by blast
  have m: "message_is ?line [] [] (text_message_new ?line (length ?line))" using new_message [of ?line "[]"] by simp
  have off: "nat (sq_uriOffset l) = 4" "sq_firstLineEnd l = length ?line" using 1(1) by (auto simp: SipRequestFirstLine_build_def)
  have built: "SipRequestLayer_build SipBYE ''sip:a'' ''SIP/2.0'' = Inr (l, text_message_new ?line (length ?line))"
    using 1(1) off(2) by (simp add: SipRequestLayer_build_def)
  have "CHR '' '' \<notin> set ''sip:a''" "CHR '' '' \<notin> set ''sip:bb''" "''sip:bb'' \<noteq> []" "CR \<notin> set ''2.0''" "LF \<notin> set ''2.0''"
    "length ?line < 65536" "length ?line' < 65536" "?r \<noteq> []" "NUL \<notin> set ?r" by simp_all
  note both = sip_set_uri [OF 1 memmem_reference this m, of "\<lambda>_. NUL", unfolded off(1)]
  have t: "take (4 + length ''sip:bb'') ?line' @ ''2.0'' @ [CR, LF] @ texts [] @ [] = ''BYE sip:bb2.0'' @ [CR, LF]" by simp
  from both [THEN conjunct1] obtain lr mr lr' mr' where
    "SipRequestLayer_parse (\<lambda>hay needle. str_find needle hay) (?line @ ?r) = Inr (lr, mr)"
    "sip_setUri (\<lambda>_. NUL) ''sip:bb'' (lr, mr) = Inr ((lr', mr'), True)" "lay_data mr' = Inr (?line' @ ?r)" by blast
  moreover from both [THEN conjunct2] obtain l'' m'' where
    "sip_setUri (\<lambda>_. NUL) ''sip:bb'' (l, text_message_new ?line (length ?line)) = Inr ((l'', m''), True)"
    "lay_data m'' = Inr (''BYE sip:bb2.0'' @ [CR, LF])" unfolding t by blast
  ultimately show ?thesis using built by auto
qed

text \<open>
  Setting the method gives the line of a request built with it, and setting the status that of a
  response built with it, when the version has the seven characters that the offsets assume. Fields
  and body are kept, so any call on the message is as before.
\<close>

lemma sip_method_rebuilt:
  assumes "SipRequestFirstLine_build me ver uri = Inr (l, line)" "SipRequestFirstLine_build me' ver uri = Inr (l', line')" "message_is line ps body m"
  shows "\<exists>m'. sip_setMethod junk me' (l, m) = Inr ((l', m'), True) \<and> message_is line' ps body m'"
proof -
  from sip_request_parts [OF assms(1)] obtain s where p: "SipMethodEnumToString me = Inr s" "line = (s @ '' '') @ uri @ '' '' @ ver @ [CR, LF]"
    "l = \<lparr>sq_method = me, sq_version = ver, sq_uriOffset = int (length s + 1), sq_versionOffset = int (length s + 1 + length uri + 6),
        sq_firstLineEnd = length line, sq_isComplete = True\<rparr>" .
  from sip_request_parts [OF assms(2)] obtain s' where p': "SipMethodEnumToString me' = Inr s'" "s' \<noteq> []"
    "line' = (s' @ '' '') @ uri @ '' '' @ ver @ [CR, LF]" "me' \<noteq> SipMethodUnknown"
    "l' = \<lparr>sq_method = me', sq_version = ver, sq_uriOffset = int (length s' + 1), sq_versionOffset = int (length s' + 1 + length uri + 6),
        sq_firstLineEnd = length line', sq_isComplete = True\<rparr>" .
  let ?b = "'' '' @ uri @ '' '' @ ver @ [CR, LF]"
  have "message_is ([] @ s @ ?b) ps body m" using assms(3) by (simp add: p(2))
  from line_replaced [OF this refl p'(2), of junk] obtain m1 m2 where
    1: "resize_at junk 0 (int (length s') - int (length s)) m = Inr (m1, True)"
      "write_at 0 s' (m1\<lparr>tm_fields := shiftFieldsOffset (int (length s') - int (length s)) (tm_fields m1),
         tm_fieldsOffset := nat (int (tm_fieldsOffset m1) + (int (length s') - int (length s)))\<rparr>) = Inr m2"
      "message_is (s' @ ?b) ps body m2" by auto
  have "l\<lparr>sq_method := me', sq_uriOffset := sq_uriOffset l + (int (length s') - int (length s)),
      sq_versionOffset := sq_versionOffset l + (int (length s') - int (length s)),
      sq_firstLineEnd := nat (int (sq_firstLineEnd l) + (int (length s') - int (length s)))\<rparr> = l'" by (simp add: p(2,3) p'(3,5))
  moreover have "sq_method l = me" by (simp add: p(3))
  ultimately have "sip_setMethod junk me' (l, m) = Inr ((l', m2), True)"
    using p'(4) by (simp add: sip_setMethod_def Let_def p(1) p'(1) 1(1,2))
  then show ?thesis using 1(3) by (simp add: p'(3))
qed

lemma sip_status_parts:
  assumes "SipResponseFirstLine_build ver s str = Inr (l, line)"
  obtains phrase where "s < 74" "line = (ver @ '' '' @ nat_str (sipStatusCodeEnumToInt ! s) @ '' '') @ phrase @ [CR, LF]"
    "phrase = (if str = [] then sipStatusCodeEnumToString ! s else str)" "phrase \<noteq> []"
    "l = \<lparr>ss_version = ver, ss_statusCode = s, ss_firstLineEnd = length line, ss_isComplete = True\<rparr>"
    "length (nat_str (sipStatusCodeEnumToInt ! s)) = 3"
proof -
  have s: "s < 74" using assms by (auto simp: SipResponseFirstLine_build_def Let_def sip_lengths split: if_splits)
  then have "sipStatusCodeEnumToInt ! s \<in> set sipStatusCodeEnumToInt" "sipStatusCodeEnumToString ! s \<in> set sipStatusCodeEnumToString"
    by (simp_all add: sip_lengths)
  then have n: "length (nat_str (sipStatusCodeEnumToInt ! s)) = 3" "sipStatusCodeEnumToString ! s \<noteq> []"
    using sip_numbers_three nat_str_three sip_phrases_checked by (auto simp: list_all_iff)
  show thesis
    by (rule that [OF s _ refl _ _ n(1)]) (use assms s n(2) in \<open>auto simp: SipResponseFirstLine_build_def Let_def sip_lengths split: if_splits\<close>)
qed

text \<open>
  Setting the status of a response that was built, with a version of seven characters, gives the
  response built with this status: line, fields, body and the place of the first field.
\<close>

theorem sip_status_rebuilt:
  assumes "SipResponseFirstLine_build ver s str = Inr (l, line)" "SipResponseFirstLine_build ver s' str' = Inr (l', line')"
    and "length ver = 7" "message_is line ps body m"
  shows "\<exists>m'. sip_setStatusCode junk s' str' (l, m) = Inr ((l', m'), True) \<and> message_is line' ps body m'"
proof -
  from sip_status_parts [OF assms(1)] obtain ph where p: "s < 74" "line = (ver @ '' '' @ nat_str (sipStatusCodeEnumToInt ! s) @ '' '') @ ph @ [CR, LF]"
    "l = \<lparr>ss_version = ver, ss_statusCode = s, ss_firstLineEnd = length line, ss_isComplete = True\<rparr>"
    "length (nat_str (sipStatusCodeEnumToInt ! s)) = 3" .
  from sip_status_parts [OF assms(2)] obtain ph' where q: "s' < 74" "line' = (ver @ '' '' @ nat_str (sipStatusCodeEnumToInt ! s') @ '' '') @ ph' @ [CR, LF]"
    "ph' = (if str' = [] then sipStatusCodeEnumToString ! s' else str')" "ph' \<noteq> []"
    "l' = \<lparr>ss_version = ver, ss_statusCode = s', ss_firstLineEnd = length line', ss_isComplete = True\<rparr>"
    "length (nat_str (sipStatusCodeEnumToInt ! s')) = 3" .
  let ?c = "nat_str (sipStatusCodeEnumToInt ! s)" and ?c' = "nat_str (sipStatusCodeEnumToInt ! s')"
  let ?a = "ver @ '' '' @ ?c @ '' ''" and ?k = "int (length ph') - int (length ph)"
  have len: "length ?a = 12" using p(4) assms(3) by simp
  from line_replaced [OF assms(4) [unfolded p(2)] refl q(4), of junk, unfolded len of_nat_numeral] obtain m1 m2 where
    r: "resize_at junk 12 ?k m = Inr (m1, True)"
      "write_at 12 ph' (m1\<lparr>tm_fields := shiftFieldsOffset ?k (tm_fields m1), tm_fieldsOffset := nat (int (tm_fieldsOffset m1) + ?k)\<rparr>) = Inr m2"
      "message_is (?a @ ph' @ [CR, LF]) ps body m2" by blast
  let ?m3 = "m2\<lparr>m_Data := Some (line' @ texts ps @ body)\<rparr>"
  have "m_Data m2 = Some ((ver @ '' '') @ ?c @ ('' '' @ ph' @ [CR, LF] @ texts ps @ body))" using r(3) by (simp add: message_is_def)
  from write_between [OF this, of ?c'] have w: "write_at 8 ?c' m2 = Inr ?m3" using p(4) q(6) assms(3) by (simp add: q(2))
  have "length line' = length (?a @ ph' @ [CR, LF])" using p(4) q(6) by (simp add: q(2))
  then have is': "message_is line' ps body ?m3" using r(3) by (simp add: message_is_def)
  let ?d = "line @ texts ps @ body"
  have d: "lay_data m = Inr ?d" using assms(4) by (simp add: message_is_def lay_data_def)
  have "?d ! (length line - 2) = CR" "length line - 2 < length ?d" by (simp_all add: p(2) nth_append)
  then have "char_at ?d (ss_firstLineEnd l - 2) = Inr CR" by (simp add: p(3))
  moreover have "bytes_at (?a @ ph @ [CR, LF] @ texts ps @ body) (length ?a) (length ph) = Inr ph" by (rule bytes_at_here) simp
  then have "bytes_at ?d 12 (length ph) = Inr ph" unfolding len by (simp add: p(2))
  moreover have "s \<noteq> SipStatusCodeUnknown" "\<not> ss_firstLineEnd l < 2" "ss_firstLineEnd l - 2 - 12 = length ph" "\<not> ss_firstLineEnd l - 2 < 12"
    using p(1) p(4) assms(3) by (simp_all add: p(2,3))
  ultimately have old: "sip_getStatusCodeString l ?d = Inr ph" by (simp add: sip_getStatusCodeString_def p(3))
  have "l\<lparr>ss_statusCode := s', ss_firstLineEnd := nat (int (ss_firstLineEnd l) + ?k)\<rparr> = l'" using p(4) q(6) by (simp add: p(2,3) q(2,5))
  then have "sip_setStatusCode junk s' str' (l, m) = Inr ((l', ?m3), True)"
    using q(1) q(6) by (simp add: sip_setStatusCode_def d old q(3) [symmetric] r(1,2) w sip_lengths Let_def)
  then show ?thesis using is' by auto
qed

theorem sip_status_rebuilt_witness:
  "\<exists>l l' line m'. SipResponseFirstLine_build ''SIP/2.0'' Sip200OK [] = Inr (l, line)
     \<and> sip_setStatusCode (\<lambda>_. NUL) Sip486BusyHere [] (l, text_message_new line (length line)) = Inr ((l', m'), True)
     \<and> m_Data m' = Some (''SIP/2.0 486 Busy Here'' @ [CR, LF])"
proof -
  have "\<exists>l. SipResponseFirstLine_build ''SIP/2.0'' Sip200OK [] = Inr (l, ''SIP/2.0 200 OK'' @ [CR, LF])"
    "\<exists>l. SipResponseFirstLine_build ''SIP/2.0'' Sip486BusyHere [] = Inr (l, ''SIP/2.0 486 Busy Here'' @ [CR, LF])"
    by (simp_all add: SipResponseFirstLine_build_def sip_lengths sipStatusCodeEnumToInt_def sipStatusCodeEnumToString_def
        nat_str_three digit_chars Let_def)
  then obtain l l' where 1: "SipResponseFirstLine_build ''SIP/2.0'' Sip200OK [] = Inr (l, ''SIP/2.0 200 OK'' @ [CR, LF])"
      "SipResponseFirstLine_build ''SIP/2.0'' Sip486BusyHere [] = Inr (l', ''SIP/2.0 486 Busy Here'' @ [CR, LF])" by blast
  let ?line = "''SIP/2.0 200 OK'' @ [CR, LF]"
  have m: "message_is ?line [] [] (text_message_new ?line (length ?line))" using new_message [of ?line "[]"] by simp
  have "length ''SIP/2.0'' = 7" by simp
  from sip_status_rebuilt [OF 1 this m, of "\<lambda>_. NUL"] obtain m' where
    "sip_setStatusCode (\<lambda>_. NUL) Sip486BusyHere [] (l, text_message_new ?line (length ?line)) = Inr ((l', m'), True)"
    "message_is (''SIP/2.0 486 Busy Here'' @ [CR, LF]) [] [] m'" by blast
  with 1(1) show ?thesis by (intro exI [of _ l] exI [of _ l'] exI [of _ ?line] exI [of _ m']) (simp add: message_is_def)
qed

end
