(* ===== verification/Spec2Isabelle.thy ===== *)
theory Spec2Isabelle
  imports UdpClient BroadcastServer MtServer AsioServer PacketPrinter Sniffer TcpClient PcppSniffer
    QnetServer QnetClient SslServer SslClient HttpAuthServer CurlClient ChatNetwork MainWindow
    TcpReassembly IpReassembly TransportChecksum RawPacket Packet PacketRuns HttpFirstLine SipFirstLine TextMessage HttpMessage DnsRuns HttpStatus SipMessage
begin

text \<open>
  A verification library of the network programs of the repository: the programs of the lessons
  under \<open>src/lesson1\<close> to \<open>src/lesson8\<close>, and of the packet library that comes with lesson 2
  (\<open>src/lesson2/PcapPlPl_snifer/lib\<close>, a copy of PcapPlusPlus) the parts with logic of their own
  that were taken up so far.

  \<^bold>\<open>How programs are modelled.\<close> A program that waits for the network or a user is a machine: a
  record of its variables and a handler that answers one event with a new state and outputs, or
  with a fault (\<open>Machine\<close>: \<open>handler\<close>, \<open>run\<close>, and the contracts \<open>safe_machine\<close> and \<open>simulation\<close> that
  the components interpret). A fault is a value of \<open>fault\<close> (\<open>Prelude\<close>): an access outside of an
  array, through a null pointer, to an object that is gone, or an exception nobody catches. What
  the operating system, a library or a user answers is part of the event or an argument. Where a
  program runs concurrently (\<open>AsioServer\<close>) it is a step relation on the queue of handlers. Words
  keep their width where the code can wrap (sequence numbers, checksums, ports, offsets).

  \<^bold>\<open>Theories and what they model.\<close>
  \<^item> Shared: \<open>Prelude\<close> (faults, C strings in buffers, searching and number parsing of the standard
    library, network byte order), \<open>Machine\<close>, \<open>Qt\<close> (the functions of Qt as a record with their
    documented laws, and an instance of it for the witnesses), \<open>ByteOrder\<close>, \<open>OrderedMap\<close>
    (\<open>std::map\<close>).
  \<^item> Lesson 1: \<open>UdpServer\<close> (\<open>udp_server/main.cpp\<close>), \<open>UdpClient\<close> (\<open>udp_client/main.cpp\<close>).
  \<^item> Lesson 2: \<open>PacketPrinter\<close> (\<open>pcap_sniffer/packet_printer.cpp\<close>), \<open>Sniffer\<close> (its \<open>main.cpp\<close>),
    \<open>PcppSniffer\<close> (\<open>PcapPlPl_snifer/main.cpp\<close>).
  \<^item> The packet library: \<open>PacketUtils\<close> (\<open>PacketUtils.cpp\<close>: checksum and flow hash), \<open>OutOfOrder\<close> and
    \<open>TcpReassembly\<close> (\<open>TcpReassembly.cpp\<close>: one direction of a connection, then the table of
    connections), \<open>LruList\<close> (\<open>LRUList.h\<close>), \<open>IpReassembly\<close> (\<open>IPReassembly.cpp\<close> and the fragment
    fields of \<open>IPv4Layer.cpp\<close> and \<open>IPv6Extensions.cpp\<close>), \<open>Tlv\<close> (\<open>TLVData.h\<close>, \<open>TLVData.cpp\<close>), \<open>Layer\<close>
    (\<open>Layer.cpp\<close>), \<open>TcpOptions\<close> (\<open>TcpLayer.cpp\<close>: the header and its options), \<open>TransportChecksum\<close>
    (checksums in \<open>TcpLayer.cpp\<close> and \<open>UdpLayer.cpp\<close>), \<open>RawPacket\<close> (\<open>RawPacket.cpp\<close>), \<open>Packet\<close> and
    \<open>PacketRuns\<close> (\<open>Packet.cpp\<close>: layers inserted, removed and resized in a packet, and any run of it),
    \<open>TextLine\<close>, \<open>HttpFirstLine\<close> and \<open>SipFirstLine\<close> (the first lines of messages in \<open>HttpLayer.cpp\<close> and
    \<open>SipLayer.cpp\<close>), \<open>TextFields\<close> and \<open>TextMessage\<close> (\<open>TextBasedProtocol.cpp\<close>: the header fields of a
    message, and any run of calls on one), \<open>HttpMessage\<close> (the HTTP messages of \<open>HttpLayer.cpp\<close>, in
    which a name stands once, and the setters of the request line), \<open>ContentLength\<close> (the field of that
    name in both, and the text of a layer), \<open>HttpStatus\<close> (the setters of the status line of HTTP and the
    copies of its layers), \<open>SipMessage\<close> (the setters and layers of SIP), \<open>DnsName\<close>, \<open>DnsResource\<close>,
    \<open>DnsLayer\<close>, \<open>DnsMessage\<close> and \<open>DnsRuns\<close> (\<open>DnsResource.cpp\<close>, \<open>DnsResourceData.cpp\<close>, \<open>DnsLayer.cpp\<close>: names,
    fields and data of resources; the operations of a message; what it stands for, kept by each
    operation; runs of calls and messages read back).
  \<^item> Lesson 3: \<open>SendLoop\<close> (the function \<open>send_request\<close> of both programs), \<open>BroadcastServer\<close>
    (\<open>broadcast_server/main.cpp\<close>), \<open>TcpClient\<close> (\<open>tcp_client/main.cpp\<close>).
  \<^item> Lesson 4: \<open>Transceiver\<close> and \<open>MtServer\<close> (\<open>mt_server/main.cpp\<close>), \<open>AsioServer\<close>.
  \<^item> Lesson 5: \<open>HttpReply\<close> (\<open>Send\<close> of both Qt servers), \<open>QnetServer\<close>, \<open>QnetClient\<close>.
  \<^item> Lesson 6: \<open>Credentials\<close> (the users file), \<open>SslServer\<close>, \<open>SslClient\<close>.
  \<^item> Lesson 7: \<open>HttpAuthServer\<close>, \<open>CurlClient\<close>.
  \<^item> Lesson 8: \<open>ChatNetwork\<close> (\<open>chatnetwork.cpp\<close>), \<open>MainWindow\<close> (\<open>mainwindow.cpp\<close>).
  \<^item> This theory: the programs that talk to each other, composed (UDP client and server, the file
    from client to server of lesson 3, the Qt pair of lesson 5, the TLS pair of lesson 6).

  \<^bold>\<open>What is shown.\<close> For each component the invariant its operations keep and, with it, over any run,
  that it does not fault, or exactly when it does (\<open>asio_reachable_safe\<close>, \<open>mt_tasks_conserved\<close>,
  \<open>getfile_in_bounds_iff\<close>, \<open>ip_safe_bounded\<close>, \<open>reasm_start_end\<close>, \<open>dns_name_faults_iff\<close>); what it
  does on its paths, errors included; refinement of a plain specification (\<open>udp_server_refines_echo\<close>,
  \<open>lru_refines_recency\<close>, \<open>http_message_refines\<close>: a message as the list of its names and values,
  \<open>dns_message_refines\<close>: as the list of its resources); that reassembly hands over the stream or packet whatever the order of
  arrival (\<open>reasm_delivers_stream\<close>, \<open>ip_reassembles\<close>); that a packet stays well-formed under any
  allowed calls (\<open>packet_type_kept\<close>); equivalence of the optimised checksum with the definition of
  RFC 1071 (\<open>checksum_rfc1071\<close>) and of those of TCP and UDP with their RFCs; round trips of messages, replies, users,
  options, names and DNS messages (\<open>dns_message_sent\<close>, \<open>dns_name_compressed\<close>). Where the code does not do what it means to, the theorem states what it does.

  \<^bold>\<open>Loops.\<close> Most loops are structural or have a measure. The walk over type-length-value records is a
  \<open>partial_function\<close>, whose end is the theorem \<open>tlv_walks_end\<close>; the loop that reads the users file
  takes the length of the file as fuel, since each line read shortens the rest; loops over answers
  of the system (\<open>send\<close>, \<open>recv\<close>) are structural in the list of answers, and \<open>None\<close> says that the
  answers were used up.

  \<^bold>\<open>Parameters.\<close> The answers of the socket calls and their errors, the file system of the file
  servers, libpcap, libcurl and the web behind it, the devices of PcapPlusPlus, Qt,
  \<open>hexStringToByteArray\<close>, and the contents of memory that is read before it is written.

  \<^bold>\<open>Not modelled.\<close> Branches for Windows, log lines, certificates and keys, callbacks that call the
  object that calls them; for a reassembled IP packet the length and checksum fields that are set
  by the IP layer classes; of \<open>Packet.cpp\<close> the parsing of received packets, copies and text; of the
  packet library the other protocols, devices and files (later steps of the plan: the options of
  IPv4, MPLS, DHCP); of the layers of HTTP, SIP and DNS assignment; of DNS data comparison and text; the Npcap headers, which only declare a library.
\<close>

section \<open>Lesson 1: the client and the server\<close>

text \<open>
  A message typed into the UDP client comes back: the client sends its whole array, the server
  sends the same bytes to where they came from, and the client shows the message that was typed;
  the server ends its loop exactly when the message is \<open>exit\<close>.
\<close>

theorem udp_round_trip:
  assumes "client_inv c" "pc c = AskMessage" "length m < 255" "NUL \<notin> set m"
    and "udp_inv v" "\<not> exitCommand v" "name_failed e = False"
  shows "\<exists>c1 c2 v1 d os. client_step c (Token m) = Inr (c1, [Sent (sock c) (dest c) d])
    \<and> serve v (e\<lparr>received := Datagram a d\<rparr>) = Inr (v1, os) \<and> echoes os = [(a, d)]
    \<and> client_step c1 (Reply (Datagram srv d)) = Inr (c2, [ServerMessage m])
    \<and> (exitCommand v1 \<longleftrightarrow> m = ''exit'')"
proof -
  have b: "length (cl_buffer c) = 255" using assms(1) by (simp add: client_inv_def)
  let ?d = "blit (m @ [NUL]) (cl_buffer c)"
  let ?e = "e\<lparr>received := Datagram a ?d\<rparr>"
  let ?c = "c\<lparr>cl_buffer := ?d, pc := AwaitReply\<rparr>"
  have d: "?d = m @ NUL # drop (Suc (length m)) (cl_buffer c)" by (simp add: blit_def)
  have len: "length ?d = 255" using b assms(3) by simp
  then have ne: "?d \<noteq> []" and whole: "take 255 ?d = ?d" by auto
  have 1: "client_step c (Token m) = Inr (?c, [Sent (sock c) (dest c) ?d])"
    using assms b by (simp add: take_message_def dest_def)
  have "buffer_after v ?e = (blit ?d (buffer v))[length ?d := NUL]"
    using ne by (simp add: buffer_after_def whole)
  moreover have "length ?d < length (buffer v)" using assms(5) len by (simp add: udp_inv_def)
  ultimately have "c_str (buffer_after v ?e) = Inr m"
    using c_str_received [of ?d "buffer v"] assms(4) by (simp add: d takeWhile_NUL_append)
  then have ex: "reads (buffer_after v ?e) ''exit'' \<longleftrightarrow> m = ''exit''"
    by (simp add: reads_c_str)
  have out: "turn_outs v ?e = [Report (sin_addr a) (sin_port a) (name_buffer e) (length ?d) m, SendTo a ?d]"
    using ne assms(4) by (simp add: turn_outs_def whole) (simp add: d takeWhile_NUL_append)
  have "take 254 ?d = m @ take (254 - length m) (NUL # drop (Suc (length m)) (cl_buffer c))"
    using assms(3) by (simp add: d)
  then have shown: "takeWhile (\<lambda>c. c \<noteq> NUL) (take 254 ?d) = m"
    using assms(3,4) by (cases "254 - length m") (simp_all add: takeWhile_NUL_append takeWhile_no_NUL)
  have "reply_outs ?c (Datagram srv ?d) = [ServerMessage m]"
    using len ne shown by (simp add: reply_outs_def reply_data_def Let_def)
  moreover have "client_step ?c (Reply (Datagram srv ?d))
      = Inr (?c\<lparr>cl_buffer := reply_buffer ?c (Datagram srv ?d), pc := AskAgain\<rparr>, reply_outs ?c (Datagram srv ?d))"
    using take_reply_turn [of ?c "Datagram srv ?d"] len by simp
  ultimately show ?thesis
    using 1 serve_turn [OF assms(5,6), of ?e] out ex assms(7) by (fastforce simp: echoes_append)
qed

theorem udp_round_trip_witness:
  "\<exists>c1 c2 d v1 os. client_step ((udp_client_start (replicate 255 NUL) (replicate 255 NUL))\<lparr>pc := AskMessage\<rparr>)
       (Token ''hi'') = Inr (c1, [Sent 0 \<lparr>sin_port = 0, sin_addr = 0\<rparr> d])
     \<and> serve demo_server \<lparr>received = Datagram \<lparr>sin_port = 5, sin_addr = 7\<rparr> d, name_failed = False, name_buffer = []\<rparr>
       = Inr (v1, os) \<and> \<not> exitCommand v1
     \<and> client_step c1 (Reply (Datagram \<lparr>sin_port = 6, sin_addr = 7\<rparr> d)) = Inr (c2, [ServerMessage ''hi''])"
proof -
  let ?c = "(udp_client_start (replicate 255 NUL) (replicate 255 NUL))\<lparr>pc := AskMessage\<rparr>"
  let ?e = "\<lparr>received = RecvError, name_failed = False, name_buffer = []\<rparr>"
  have "client_inv ?c" "pc ?c = AskMessage" "udp_inv demo_server" "\<not> exitCommand demo_server"
      "sock ?c = 0" "dest ?c = \<lparr>sin_port = 0, sin_addr = 0\<rparr>"
    by (simp_all add: client_inv_def udp_client_start_def udp_inv_def demo_server_def dest_def htons_def)
  with udp_round_trip [of ?c "''hi''" demo_server ?e "\<lparr>sin_port = 5, sin_addr = 7\<rparr>" "\<lparr>sin_port = 6, sin_addr = 7\<rparr>"]
  show ?thesis by (auto simp del: client_step.simps)
qed

section \<open>Lesson 3: a file from the server\<close>



section \<open>Lesson 5: a message for the server\<close>

text \<open>
  A message the user of the Qt client enters is shown by the server: the client asks the network
  access manager for one address, and when the manager turns that address into the request
  line of its path, on a connection of its own beside the one the client has opened, the
  server shows the message and answers 200 on the manager's connection.
\<close>

theorem qnet_message_delivered:
  assumes "qt_documented q" "\<not> quitting c" "stdin c = ''2'' # m # ts" "word m"
    and "nam (url_of (host_name c) (server_port c) ''message'' m) = get_line ''message'' m @ headers"
  shows "\<exists>c1 u s. client_turn q c Connected = Inr (c1, [GetUrl u])
    \<and> run (qnet_turn q) qnet_start [NewConnection a, NewConnection b, Arrived b (nam u)]
      = Inr (s, [ShownRequest headers, ShownMessage m, Written b (qnet_pack q 200)])"
proof -
  have "nat_str 2 = ''2''" by code_simp
  with qt_to_int_eq [OF assms(1), of 2] have two: "qt_to_int q ''2'' = 2" by simp
  let ?u = "url_of (host_name c) (server_port c) ''message'' m"
  have "\<exists>c1. client_turn q c Connected = Inr (c1, [GetUrl ?u])"
    using assms(1,2,3) by (simp add: client_turn_def ask_user_def two send_and_wait_def request_url_of)
  then obtain c1 where 1: "client_turn q c Connected = Inr (c1, [GetUrl ?u])" ..
  let ?s = "QnetServer.slotNewConnection b (QnetServer.slotNewConnection a qnet_start)"
  have w: "word ''message''" by (simp add: word_def is_blank_def)
  let ?s' = "?s\<lparr>inbox := (inbox ?s)(b := get_line ''message'' m @ headers)\<rparr>"
  have new: "qnet_turn q s (NewConnection k) = Inr (QnetServer.slotNewConnection k s, [])" if "running s" for s k
    using that by (simp add: qnet_turn_def)
  have "slotReadClient q ?s' = Inr (?s'\<lparr>inbox := (inbox ?s')(b := []), timers := timers ?s' @ reply_timers (clock ?s') ''message'' m\<rparr>,
      [ShownRequest headers, ShownMessage m, Written b (qnet_pack q 200)])"
    by (subst read_get [OF assms(1) w assms(4), where k = b and rest = headers])
      (simp_all add: QnetServer.slotNewConnection_def reply_code_def)
  moreover have "inbox ?s b = []" "running ?s"
    by (simp_all add: QnetServer.slotNewConnection_def qnet_start_def)
  ultimately have "\<exists>s. qnet_turn q ?s (Arrived b (nam ?u))
      = Inr (s, [ShownRequest headers, ShownMessage m, Written b (qnet_pack q 200)])"
    by (simp add: qnet_turn_def assms(5))
  then obtain s where 2: "qnet_turn q ?s (Arrived b (nam ?u))
      = Inr (s, [ShownRequest headers, ShownMessage m, Written b (qnet_pack q 200)])" ..
  have "running qnet_start" "running (QnetServer.slotNewConnection a qnet_start)"
    by (simp_all add: qnet_start_def QnetServer.slotNewConnection_def)
  note first = new [OF this(1), of a] and second = new [OF this(2), of b]
  have "run (qnet_turn q) qnet_start [NewConnection a, NewConnection b, Arrived b (nam ?u)]
      = Inr (s, [ShownRequest headers, ShownMessage m, Written b (qnet_pack q 200)])"
    by (simp add: run.simps first second 2)
  with 1 show ?thesis by blast
qed

theorem qnet_message_delivered_witness:
  "\<exists>c1 u s. client_turn qt_ref (demo_client [''2'', ''hi'']) Connected = Inr (c1, [GetUrl u])
    \<and> run (qnet_turn qt_ref) qnet_start [NewConnection 1, NewConnection 2,
        Arrived 2 (''GET /message/hi HTTP/1.1'' @ [CR, LF] @ ''Host: x'')]
      = Inr (s, [ShownRequest ''Host: x'', ShownMessage ''hi'', Written 2 (qnet_pack qt_ref 200)])"
proof -
  have "word ''hi''" by (simp add: word_def is_blank_def)
  with qnet_message_delivered [where q = qt_ref and c = "demo_client [''2'', ''hi'']" and m = "''hi''" and ts = "[]"
      and nam = "\<lambda>_. ''GET /message/hi HTTP/1.1'' @ [CR, LF] @ ''Host: x''" and headers = "''Host: x''" and a = 1 and b = 2]
  show ?thesis by (simp add: demo_client_def get_line_def)
qed

section \<open>Lesson 6: a session of the two TLS programs\<close>



end
